(* ===== verification/TC_Prelude.thy ===== *)
theory TC_Prelude
  imports Main "HOL-Library.Word"
begin

text \<open>
  Shared basis of the development: the machine types of the C sources on the modelled target
  (8-bit bytes, 64-bit \<^verbatim>\<open>size_t\<close> and \<^verbatim>\<open>uintptr_t\<close>), the value of a big-endian byte string, and the
  lemmas that turn a C \<^verbatim>\<open>for\<close> loop over an array (a \<^const>\<open>fold\<close> over an index interval whose body is a list
  update) into a closed list expression. Every component theory imports this one.
\<close>

unbundle bit_operations_syntax

section \<open>Machine types\<close>

type_synonym u8 = "8 word"
type_synonym u16 = "16 word"
type_synonym u32 = "32 word"
type_synonym u64 = "64 word"

text \<open>An address is a \<^verbatim>\<open>uintptr_t\<close>; the address 0 is \<^verbatim>\<open>NULL\<close>.\<close>

type_synonym addr = nat

abbreviation (input) NULL :: addr where "NULL \<equiv> 0"

definition SIZE_MAX :: nat where "SIZE_MAX = 2 ^ 64 - 1"

definition UINTPTR_MAX :: nat where "UINTPTR_MAX = 2 ^ 64 - 1"

definition sizeof_size_t :: nat where "sizeof_size_t = 8"

section \<open>Collections of rewrite rules\<close>

text \<open>
  \<open>loop_simps\<close> collects the closed forms of loops, \<open>len_simps\<close> the lengths of the byte strings the
  operations return.
\<close>

named_theorems loop_simps
named_theorems len_simps

section \<open>Loops over arrays\<close>

text \<open>
  A loop \<^verbatim>\<open>for (i = 0; i < n; ++i) a[i] = f(i, a[i])\<close> is \<open>fold (\<lambda>i a. a[i := f i (a ! i)]) [0..<n] a\<close>.
\<close>

lemma length_fold_update [len_simps]:
  "length (fold (\<lambda>i a. a[i := f i a]) is xs) = length xs"
  by (induction "is" arbitrary: xs) auto

lemma nth_append_map_upt:
  "i < n \<Longrightarrow> (map f [0..<n] @ ys) ! i = f i"
  by (simp add: nth_append)

lemma fold_update_upt [loop_simps]:
  "n \<le> length xs \<Longrightarrow>
   fold (\<lambda>i a. a[i := f i (a ! i)]) [0..<n] xs = map (\<lambda>i. f i (xs ! i)) [0..<n] @ drop n xs"
proof (induction n)
  case 0
  then show ?case by simp
next
  case (Suc n)
  then have IH: "fold (\<lambda>i a. a[i := f i (a ! i)]) [0..<n] xs =
      map (\<lambda>i. f i (xs ! i)) [0..<n] @ drop n xs" (is "_ = ?ys") and n: "n < length xs"
    by simp_all
  have nth: "?ys ! n = xs ! n"
    using n by (simp add: nth_append)
  have upd: "?ys[n := v] = map (\<lambda>i. f i (xs ! i)) [0..<n] @ v # drop (Suc n) xs" for v
    using n by (simp add: list_update_append Cons_nth_drop_Suc [symmetric])
  show ?case
    by (simp add: IH nth upd)
qed

lemma map_nth_upt: "n \<le> length xs \<Longrightarrow> map (\<lambda>i. f (xs ! i)) [0..<n] = map f (take n xs)"
  by (rule nth_equalityI) simp_all

lemma map2_nth_upt:
  "n \<le> length xs \<Longrightarrow> n \<le> length ys \<Longrightarrow>
   map (\<lambda>i. f (xs ! i) (ys ! i)) [0..<n] = map2 f (take n xs) (take n ys)"
  by (rule nth_equalityI) simp_all

lemma fold_upt_nth_take:
  "n \<le> length xs \<Longrightarrow> fold (\<lambda>i. g (xs ! i)) [0..<n] s = fold g (take n xs) s"
proof (induction n)
  case 0
  then show ?case by simp
next
  case (Suc n)
  then show ?case by (simp add: take_Suc_conv_app_nth)
qed

lemma fold_upt_nth: "fold (\<lambda>i. g (xs ! i)) [0..<length xs] s = fold g xs s"
  by (simp add: fold_upt_nth_take)

lemma upt_add_Suc: "[m..<m + Suc n] = m # [Suc m..<Suc m + n]"
  by (simp add: upt_conv_Cons del: upt_Suc)

text \<open>An array section \<^verbatim>\<open>memcpy(a + at, src, n)\<close>.\<close>

definition memcpy_at :: "'a list \<Rightarrow> nat \<Rightarrow> 'a list \<Rightarrow> 'a list" where
  "memcpy_at a at src = take at a @ src @ drop (at + length src) a"

lemma length_memcpy_at [len_simps]:
  "at + length src \<le> length a \<Longrightarrow> length (memcpy_at a at src) = length a"
  by (simp add: memcpy_at_def)

lemma memcpy_at_0 [simp]: "length src = length a \<Longrightarrow> memcpy_at a 0 src = src"
  by (simp add: memcpy_at_def)

lemma memcpy_at_append:
  "length src = length ys \<Longrightarrow> memcpy_at (xs @ ys @ zs) (length xs) src = xs @ src @ zs"
  by (simp add: memcpy_at_def)

section \<open>Exclusive or of byte strings\<close>

definition xorl :: "'a::len word list \<Rightarrow> 'a word list \<Rightarrow> 'a word list" where
  "xorl xs ys = map2 (XOR) xs ys"

lemma length_xorl [simp, len_simps]: "length (xorl xs ys) = min (length xs) (length ys)"
  by (simp add: xorl_def)

lemma nth_xorl [simp]:
  "i < length xs \<Longrightarrow> i < length ys \<Longrightarrow> xorl xs ys ! i = xs ! i XOR ys ! i"
  by (simp add: xorl_def)

lemma xorl_Nil [simp]: "xorl [] ys = []" "xorl xs [] = []"
  by (simp_all add: xorl_def)

lemma xorl_Cons [simp]: "xorl (x # xs) (y # ys) = (x XOR y) # xorl xs ys"
  by (simp add: xorl_def)

lemma xorl_commute: "xorl xs ys = xorl ys xs"
  by (rule nth_equalityI) (simp_all add: xor.commute)

lemma xorl_assoc: "xorl (xorl xs ys) zs = xorl xs (xorl ys zs)"
  by (rule nth_equalityI) (simp_all add: xor.assoc)

lemma xorl_cancel [simp]:
  "length xs = length ys \<Longrightarrow> xorl (xorl xs ys) ys = xs"
  "length xs = length ys \<Longrightarrow> xorl ys (xorl ys xs) = xs"
  by (auto intro!: nth_equalityI simp: xor.assoc xor.left_commute)

lemma xorl_append:
  "length xs = length ys \<Longrightarrow> xorl (xs @ xs') (ys @ ys') = xorl xs ys @ xorl xs' ys'"
  by (simp add: xorl_def)

lemma xorl_replicate_0 [simp]: "n = length xs \<Longrightarrow> xorl (replicate n 0) xs = xs"
  by (auto intro!: nth_equalityI)

lemma take_xorl: "take n (xorl xs ys) = xorl (take n xs) (take n ys)"
  by (simp add: xorl_def take_map take_zip)

lemma drop_xorl: "drop n (xorl xs ys) = xorl (drop n xs) (drop n ys)"
  by (simp add: xorl_def drop_map drop_zip)

section \<open>Big-endian values\<close>

primrec be_val :: "u8 list \<Rightarrow> nat" where
  "be_val [] = 0"
| "be_val (b # bs) = unat b * 256 ^ length bs + be_val bs"

lemma unat_u8_less [simp]: "unat (b :: u8) < 256"
  using unsigned_less [of b] by simp

lemma unat_of_nat_u8 [simp]: "n < 256 \<Longrightarrow> unat (of_nat n :: u8) = n"
  by (simp add: unsigned_of_nat take_bit_nat_eq_self)

lemma unat_ucast_up:
  assumes "LENGTH('a::len) \<le> LENGTH('b::len)"
  shows "unat (ucast (x :: 'a word) :: 'b word) = unat x"
proof -
  have "unat x < 2 ^ LENGTH('b)"
    using unsigned_less [of x] power_increasing [OF assms, of "2::nat"] by (meson less_le_trans one_le_numeral)
  then show ?thesis by (simp add: unsigned_ucast_eq take_bit_nat_eq_self_iff)
qed

lemma be_val_append: "be_val (xs @ ys) = be_val xs * 256 ^ length ys + be_val ys"
  by (induction xs) (simp_all add: power_add algebra_simps)

lemma be_val_less: "be_val bs < 256 ^ length bs"
proof (induction bs)
  case Nil
  then show ?case by simp
next
  case (Cons b bs)
  have "unat b * 256 ^ length bs + be_val bs < (unat b + 1) * 256 ^ length bs"
    using Cons.IH by simp
  also have "\<dots> \<le> 256 * 256 ^ length bs"
    using unat_u8_less [of b] by (intro mult_right_mono) linarith+
  finally show ?case by simp
qed

lemma be_val_replicate_0 [simp]: "be_val (replicate n 0) = 0"
  by (induction n) simp_all

lemma be_val_eq_0_iff: "be_val bs = 0 \<longleftrightarrow> (\<forall>b \<in> set bs. b = 0)"
  by (induction bs) (auto simp: unat_eq_0)

lemma be_val_inject:
  "length xs = length ys \<Longrightarrow> be_val xs = be_val ys \<Longrightarrow> xs = ys"
proof (induction xs ys rule: list_induct2)
  case Nil
  then show ?case by simp
next
  case (Cons x xs y ys)
  let ?m = "256 ^ length xs :: nat"
  have eq: "unat x * ?m + be_val xs = unat y * ?m + be_val ys"
    using Cons by simp
  have bx: "be_val xs < ?m" and by': "be_val ys < ?m"
    using be_val_less [of xs] be_val_less [of ys] Cons.hyps by simp_all
  have "(unat x * ?m + be_val xs) div ?m = unat x" "(unat y * ?m + be_val ys) div ?m = unat y"
    using bx by' by simp_all
  with eq have "unat x = unat y" by metis
  then have "x = y" by (rule unsigned_word_eqI)
  moreover with eq Cons.IH have "xs = ys" by simp
  ultimately show ?case by simp
qed

text \<open>Loading big-endian bytes into a register, one shift and one \<^verbatim>\<open>or\<close> per byte.\<close>

lemma unat_shift8_or:
  fixes w :: "'a::len word"
  assumes "unat w * 256 + 255 < 2 ^ LENGTH('a)"
  shows "unat (push_bit 8 w OR ucast (b :: u8)) = unat w * 256 + unat b"
proof -
  have len: "8 \<le> LENGTH('a)"
  proof (rule ccontr)
    assume "\<not> 8 \<le> LENGTH('a)"
    then have "2 ^ LENGTH('a) \<le> (2::nat) ^ 7"
      by (intro power_increasing) simp_all
    with assms show False by simp
  qed
  have u1: "unat (push_bit 8 w) = unat w * 256"
    using assms by (simp add: push_bit_eq_mult unat_word_ariths take_bit_eq_mod mod_mult_right_eq)
  have "256 \<le> (2::nat) ^ LENGTH('a)"
    using len power_increasing [of 8 "LENGTH('a)" "2::nat"] by simp
  then have "unat b < 2 ^ LENGTH('a)"
    using unat_u8_less [of b] by linarith
  then have u2: "unat (ucast b :: 'a word) = unat b"
    by (simp add: unsigned_ucast_eq take_bit_nat_eq_self_iff)
  have "push_bit 8 w AND (ucast b :: 'a word) = 0"
    by (rule bit_word_eqI) (auto simp: bit_simps dest: bit_imp_le_length)
  then have "push_bit 8 w OR ucast b = push_bit 8 w + (ucast b :: 'a word)"
    by (simp add: disjunctive_add_eq_or)
  then have "unat (push_bit 8 w OR ucast b) = (unat w * 256 + unat b) mod 2 ^ LENGTH('a)"
    by (simp add: unat_word_ariths u1 u2)
  moreover have "unat w * 256 + unat b < 2 ^ LENGTH('a)"
    using assms unat_u8_less [of b] by linarith
  ultimately show ?thesis by simp
qed

section \<open>Big-endian byte strings of a value\<close>

definition be_bytes :: "nat \<Rightarrow> nat \<Rightarrow> u8 list" where
  "be_bytes w n = map (\<lambda>i. of_nat (n div 256 ^ (w - 1 - i))) [0..<w]"

lemma length_be_bytes [simp, len_simps]: "length (be_bytes w n) = w"
  by (simp add: be_bytes_def)

lemma be_bytes_Suc: "be_bytes (Suc w) n = of_nat (n div 256 ^ w) # be_bytes w n"
  by (simp add: be_bytes_def upt_conv_Cons map_Suc_upt [symmetric] comp_def del: upt_Suc)

lemma be_val_be_bytes [simp]: "be_val (be_bytes w n) = n mod 256 ^ w"
proof (induction w)
  case 0
  then show ?case by (simp add: be_bytes_def)
next
  case (Suc w)
  have "n mod 256 ^ Suc w = 256 ^ w * (n div 256 ^ w mod 256) + n mod 256 ^ w"
    using mod_mult2_eq [of n "256 ^ w" 256] by (simp add: mult.commute)
  then show ?case
    by (simp add: be_bytes_Suc Suc unsigned_of_nat take_bit_eq_mod mult.commute)
qed

lemma be_bytes_be_val [simp]: "length bs = w \<Longrightarrow> be_bytes w (be_val bs) = bs"
  using be_val_less [of bs] by (intro be_val_inject) simp_all

lemma be_bytes_eq_iff:
  "m < 256 ^ w \<Longrightarrow> n < 256 ^ w \<Longrightarrow> be_bytes w m = be_bytes w n \<longleftrightarrow> m = n"
  by (metis be_val_be_bytes mod_less)

section \<open>Blocks of a byte string\<close>

text \<open>The offsets \<^verbatim>\<open>for (offset = 0; offset < length; offset += width)\<close> visits.\<close>

definition block_offsets :: "nat \<Rightarrow> nat \<Rightarrow> nat list" where
  "block_offsets width len = map (\<lambda>j. width * j) [0..<(len + width - 1) div width]"

lemma block_offsets_mult: "0 < w \<Longrightarrow> block_offsets w (w * n) = map (\<lambda>j. w * j) [0..<n]"
proof -
  assume w: "0 < w"
  have "(w * n + w - 1) div w = n"
    by (rule div_nat_eqI) (use w in simp_all)
  then show ?thesis by (simp add: block_offsets_def)
qed

text \<open>The loop visits exactly the multiples of the width below the length, in order.\<close>

lemma set_block_offsets: "0 < w \<Longrightarrow> set (block_offsets w len) = {i. i < len \<and> w dvd i}"
proof -
  assume w: "0 < w"
  have less: "j < (len + w - 1) div w \<longleftrightarrow> w * j < len" for j
  proof -
    have "j < (len + w - 1) div w \<longleftrightarrow> Suc j \<le> (len + w - 1) div w" by (rule Suc_le_eq [symmetric])
    also have "\<dots> \<longleftrightarrow> Suc j * w \<le> len + w - 1"
      by (rule less_eq_div_iff_mult_less_eq [OF w])
    also have "\<dots> \<longleftrightarrow> j * w < len" using w by auto
    finally show ?thesis by (simp only: mult.commute)
  qed
  have "{0..<(len + w - 1) div w} = {j. w * j < len}"
    using less by fastforce
  then show ?thesis
    by (simp add: block_offsets_def) (auto elim!: dvdE)
qed

definition blocks_of :: "nat \<Rightarrow> 'a list list \<Rightarrow> bool" where
  "blocks_of w bs \<longleftrightarrow> list_all (\<lambda>b. length b = w) bs"

lemma blocks_of_simps [simp]:
  "blocks_of w []"
  "blocks_of w (b # bs) \<longleftrightarrow> length b = w \<and> blocks_of w bs"
  "blocks_of w (bs @ cs) \<longleftrightarrow> blocks_of w bs \<and> blocks_of w cs"
  by (simp_all add: blocks_of_def)

lemma length_concat_blocks: "blocks_of w bs \<Longrightarrow> length (concat bs) = w * length bs"
  by (induction bs) simp_all

function chunks :: "nat \<Rightarrow> 'a list \<Rightarrow> 'a list list" where
  "chunks w xs = (if w = 0 \<or> xs = [] then [] else take w xs # chunks w (drop w xs))"
  by pat_completeness auto
termination
  by (relation "measure (\<lambda>(w, xs). length xs)") auto

declare chunks.simps [simp del]

lemma chunks_Nil [simp]: "chunks w [] = []"
  by (simp add: chunks.simps)

lemma concat_chunks [simp]: "0 < w \<Longrightarrow> concat (chunks w xs) = xs"
proof (induction w xs rule: chunks.induct)
  case (1 w xs)
  then show ?case by (cases "xs = []") (simp_all add: chunks.simps [of w xs])
qed

lemma chunks_width:
  "0 < w \<Longrightarrow> w dvd length xs \<Longrightarrow> blocks_of w (chunks w xs)"
proof (induction w xs rule: chunks.induct)
  case (1 w xs)
  show ?case
  proof (cases "xs = []")
    case False
    then have le: "w \<le> length xs" using "1.prems" dvd_imp_le [of w "length xs"] by simp
    have "w dvd length (drop w xs)" using "1.prems" by (simp add: dvd_diff_nat)
    then have "blocks_of w (chunks w (drop w xs))"
      using False "1.prems"(1) by (intro "1.IH") simp_all
    moreover have "chunks w xs = take w xs # chunks w (drop w xs)"
      using False "1.prems"(1) by (subst chunks.simps) simp
    ultimately show ?thesis
      using le by simp
  qed simp
qed

lemma length_chunks: "0 < w \<Longrightarrow> w dvd length xs \<Longrightarrow> length xs = w * length (chunks w xs)"
proof -
  assume w: "0 < w" "w dvd length xs"
  from length_concat_blocks [OF chunks_width [OF w]] show ?thesis using w by simp
qed

lemma chunks_append_block: "0 < w \<Longrightarrow> length b = w \<Longrightarrow> chunks w (b @ xs) = b # chunks w xs"
  by (subst chunks.simps) auto

lemma chunks_concat: "0 < w \<Longrightarrow> blocks_of w bs \<Longrightarrow> chunks w (concat bs) = bs"
  by (induction bs) (auto simp: chunks_append_block)

lemma chunks_append:
  "0 < w \<Longrightarrow> w dvd length xs \<Longrightarrow> chunks w (xs @ ys) = chunks w xs @ chunks w ys"
proof -
  assume w: "0 < w" "w dvd length xs"
  have "chunks w (concat bs @ ys) = bs @ chunks w ys" if "blocks_of w bs" for bs
    using that w(1) by (induction bs) (auto simp: chunks_append_block)
  from this [of "chunks w xs"] w show ?thesis by (simp add: chunks_width)
qed

end
