(* ===== verification/TC_Common.thy ===== *)
theory TC_Common
  imports TC_Prelude
begin

text \<open>
  The types and helpers every module shares: \<^verbatim>\<open>src/src/tiny_crypto/common.h\<close> (result codes, spans),
  \<^verbatim>\<open>src/src/common.c\<close> (secret wiping, constant-time comparison) and \<^verbatim>\<open>src/src/internal.h\<close> (range and
  span checks, tag length policy, big-endian loads and stores, counter arithmetic, calendar dates).

  A span is its address, its length and the bytes stored there. The bytes of a \<^verbatim>\<open>NULL\<close> span are not
  readable, so no operation may use them; \<open>bytes_wf\<close> says that a span with storage carries as many
  bytes as its length says. A structure the C code reaches through a pointer is an \<open>obj\<close>: its
  address, its \<^verbatim>\<open>sizeof\<close> and its value, so that overlap checks between structures and spans are the
  address comparisons of the source.
\<close>

section \<open>Results, spans and objects\<close>

datatype TC_result =
    TC_RESULT_ERROR | TC_RESULT_IO | TC_RESULT_ARGUMENT | TC_RESULT_UNSUPPORTED
  | TC_RESULT_LIMIT | TC_RESULT_INVALID | TC_RESULT_OK | TC_RESULT_END | TC_RESULT_MORE
  | TC_RESULT_IN_PROGRESS | TC_RESULT_CANCELLED | TC_RESULT_CARD_STATUS | TC_RESULT_REFUSED
  | TC_RESULT_ENTROPY | TC_RESULT_REVOKED | TC_RESULT_UNAVAILABLE | TC_RESULT_STALE
  | TC_RESULT_CHECKSUM_MISMATCH | TC_RESULT_SINK_ERROR | TC_RESULT_SOURCE_ERROR

type_synonym TC_status = TC_result

abbreviation TC_ERROR :: TC_status where "TC_ERROR \<equiv> TC_RESULT_ERROR"
abbreviation TC_OK :: TC_status where "TC_OK \<equiv> TC_RESULT_OK"
abbreviation TC_MISMATCH :: TC_status where "TC_MISMATCH \<equiv> TC_RESULT_INVALID"

record TC_bytes =
  b_data :: addr
  b_length :: nat
  b_mem :: "u8 list"

record TC_buffer =
  w_data :: addr
  w_capacity :: nat
  w_mem :: "u8 list"

record 'a obj =
  o_addr :: addr
  o_size :: nat
  o_val :: 'a

definition bytes_wf :: "TC_bytes \<Rightarrow> bool" where
  "bytes_wf s \<longleftrightarrow> (b_data s \<noteq> NULL \<longrightarrow> length (b_mem s) = b_length s)
     \<and> (b_length s = 0 \<longrightarrow> b_mem s = [])"

definition buffer_wf :: "TC_buffer \<Rightarrow> bool" where
  "buffer_wf s \<longleftrightarrow> (w_data s \<noteq> NULL \<longrightarrow> length (w_mem s) = w_capacity s)
     \<and> (w_capacity s = 0 \<longrightarrow> w_mem s = [])"

section \<open>Wiping and comparing (common.c)\<close>

text \<open>
  The wiping loop. A structure member or an array the caller already read through is never \<^verbatim>\<open>NULL\<close>,
  so the wipes of such storage are written with the loop alone.
\<close>

definition wipe_bytes :: "u8 list \<Rightarrow> nat \<Rightarrow> u8 list" where
  "wipe_bytes bytes len = fold (\<lambda>i b. b[i := 0]) [0..<len] bytes"

definition TC_secure_zero :: "addr \<Rightarrow> u8 list \<Rightarrow> nat \<Rightarrow> u8 list" where
  "TC_secure_zero memory bytes len = (if memory = NULL then bytes else wipe_bytes bytes len)"

definition TC_ct_equal :: "TC_bytes \<Rightarrow> TC_bytes \<Rightarrow> TC_status" where
  "TC_ct_equal a b =
     (let difference = (if b_length a \<noteq> b_length b then 1 else 0 :: u8);
          len = (if b_length a < b_length b then b_length a else b_length b)
      in if (b_length a \<noteq> 0 \<and> b_data a = NULL) \<or> (b_length b \<noteq> 0 \<and> b_data b = NULL) then TC_ERROR
         else if fold (\<lambda>i d. d OR (b_mem a ! i XOR b_mem b ! i)) [0..<len] difference = 0
         then TC_OK else TC_MISMATCH)"

section \<open>Ranges, spans and tags (internal.h)\<close>

definition tc_internal_ranges_disjoint :: "addr \<Rightarrow> nat \<Rightarrow> addr \<Rightarrow> nat \<Rightarrow> bool" where
  "tc_internal_ranges_disjoint pa a_len pb b_len =
     (if a_len = 0 \<or> b_len = 0 then True
      else if pa < pb then a_len \<le> pb - pa
      else b_len \<le> pa - pb)"

definition tc_internal_span_valid :: "addr \<Rightarrow> nat \<Rightarrow> bool" where
  "tc_internal_span_valid data len \<longleftrightarrow>
     (data \<noteq> NULL \<or> len = 0) \<and> len \<le> UINTPTR_MAX - data"

text \<open>
  The tag check wipes the computed value and returns the status with the wiped storage.
  \<open>computed\<close> is the address and the contents of the caller's local array.
\<close>

definition tc_internal_verify_tag ::
  "TC_status \<Rightarrow> addr \<Rightarrow> u8 list \<Rightarrow> nat \<Rightarrow> TC_bytes \<Rightarrow> TC_status \<times> u8 list" where
  "tc_internal_verify_tag computed_status at computed computed_size tag =
     ((if computed_status = TC_OK
       then TC_ct_equal \<lparr>b_data = at, b_length = b_length tag, b_mem = take (b_length tag) computed\<rparr> tag
       else TC_ERROR),
      TC_secure_zero at computed computed_size)"

text \<open>\<^verbatim>\<open>TC_MIN_TAG_LEN\<close> is a build option, so it is an argument.\<close>

definition tc_internal_tag_length_allowed :: "nat \<Rightarrow> nat \<Rightarrow> nat \<Rightarrow> bool \<Rightarrow> bool" where
  "tc_internal_tag_length_allowed MIN_TAG_LEN len max_length short_tag =
     (if len = 0 \<or> len > max_length then False
      else if short_tag then len < MIN_TAG_LEN else len \<ge> MIN_TAG_LEN)"

text \<open>
  The nested loops of the storage plan check, with their early returns: \<open>all\<close> over the elements seen
  so far and over the inputs. \<open>writable\<close> and \<open>input\<close> are \<open>None\<close> for a null array pointer.
\<close>

fun writes_disjoint_loop :: "TC_bytes list \<Rightarrow> TC_bytes list \<Rightarrow> TC_bytes list \<Rightarrow> bool" where
  "writes_disjoint_loop before [] inputs = True"
| "writes_disjoint_loop before (w # ws) inputs =
     (if \<not> tc_internal_span_valid (b_data w) (b_length w) then False
      else if \<not> list_all (\<lambda>v. tc_internal_ranges_disjoint (b_data w) (b_length w) (b_data v) (b_length v)) before
      then False
      else if \<not> list_all (\<lambda>v. tc_internal_ranges_disjoint (b_data w) (b_length w) (b_data v) (b_length v)) inputs
      then False
      else writes_disjoint_loop (before @ [w]) ws inputs)"

definition tc_internal_writes_disjoint ::
  "TC_bytes list option \<Rightarrow> nat \<Rightarrow> TC_bytes list option \<Rightarrow> nat \<Rightarrow> bool" where
  "tc_internal_writes_disjoint writable count input inputs =
     (if (count \<noteq> 0 \<and> writable = None) \<or> (inputs \<noteq> 0 \<and> input = None) then False
      else let ws = (case writable of None \<Rightarrow> [] | Some l \<Rightarrow> take count l);
               ins = (case input of None \<Rightarrow> [] | Some l \<Rightarrow> take inputs l)
           in if \<not> list_all (\<lambda>v. tc_internal_span_valid (b_data v) (b_length v)) ins then False
              else writes_disjoint_loop [] ws ins)"

text \<open>\<^verbatim>\<open>sizeof(TC_bytes)\<close> on the modelled target: a pointer and a \<^verbatim>\<open>size_t\<close>.\<close>

definition sizeof_TC_bytes :: nat where "sizeof_TC_bytes = 16"

definition tc_internal_parts_valid ::
  "addr \<Rightarrow> TC_bytes list \<Rightarrow> nat \<Rightarrow> addr \<Rightarrow> nat \<Rightarrow> bool" where
  "tc_internal_parts_valid parts_at parts count output output_length =
     (if (count \<noteq> 0 \<and> parts_at = NULL) \<or> count > SIZE_MAX div sizeof_TC_bytes \<or>
         \<not> tc_internal_ranges_disjoint parts_at (count * sizeof_TC_bytes) output output_length
      then False
      else list_all (\<lambda>p. tc_internal_span_valid (b_data p) (b_length p) \<and>
             tc_internal_ranges_disjoint (b_data p) (b_length p) output output_length)
           (take count parts))"

section \<open>Big-endian words (internal.h)\<close>

definition tc_internal_load_be32 :: "u8 list \<Rightarrow> u32" where
  "tc_internal_load_be32 src =
     push_bit 24 (ucast (src ! 0)) OR push_bit 16 (ucast (src ! 1)) OR
     push_bit 8 (ucast (src ! 2)) OR ucast (src ! 3)"

definition tc_internal_store_be32 :: "u32 \<Rightarrow> u8 list" where
  "tc_internal_store_be32 value =
     [ucast (drop_bit 24 value), ucast (drop_bit 16 value), ucast (drop_bit 8 value), ucast value]"

definition tc_internal_load_be64 :: "u8 list \<Rightarrow> u64" where
  "tc_internal_load_be64 src = fold (\<lambda>i value. push_bit 8 value OR ucast (src ! i)) [0..<8] 0"

definition tc_internal_store_be64 :: "u64 \<Rightarrow> u8 list" where
  "tc_internal_store_be64 value = map (\<lambda>i. ucast (drop_bit (56 - 8 * i) value)) [0..<8]"

section \<open>Counters (internal.h)\<close>

fun increment_be_loop :: "u8 list \<Rightarrow> nat \<Rightarrow> u8 list \<times> u8" where
  "increment_be_loop counter 0 = (counter, 1)"
| "increment_be_loop counter (Suc len) =
     (let counter' = counter[len := counter ! len + 1]
      in if counter' ! len \<noteq> 0 then (counter', 0) else increment_be_loop counter' len)"

definition tc_internal_increment_be :: "u8 list \<Rightarrow> nat \<Rightarrow> u8 list \<times> u8" where
  "tc_internal_increment_be counter len = increment_be_loop counter len"

definition tc_internal_counter_blocks_needed :: "nat \<Rightarrow> nat \<Rightarrow> nat \<Rightarrow> nat" where
  "tc_internal_counter_blocks_needed len block_length position =
     (let available = (if position < block_length then block_length - position else 0);
          uncached = (if len > available then len - available else 0)
      in uncached div block_length + (if uncached mod block_length \<noteq> 0 then 1 else 0))"

text \<open>
  One step of the two's complement loop of \<^verbatim>\<open>tc_internal_counter_has_blocks\<close>: the state is the array
  \<open>remaining\<close>, the carry and the flag \<open>all_zero\<close>. The subtraction of the source is carried out in
  \<^verbatim>\<open>unsigned\<close> and truncated to a byte, which is the subtraction of bytes.
\<close>

definition counter_remaining_step ::
  "u8 list \<Rightarrow> nat \<Rightarrow> u8 list \<times> u8 \<times> bool \<Rightarrow> u8 list \<times> u8 \<times> bool" where
  "counter_remaining_step counter index s =
     (case s of (remaining, carry, all_zero) \<Rightarrow>
       (remaining[index := 0 - counter ! index - carry],
        (if counter ! index \<noteq> 0 \<or> carry \<noteq> 0 then 1 else 0),
        all_zero \<and> counter ! index = 0))"

definition tc_internal_counter_has_blocks :: "u8 list \<Rightarrow> nat \<Rightarrow> nat \<Rightarrow> u8 \<Rightarrow> bool" where
  "tc_internal_counter_has_blocks counter len needed exhausted =
     (if exhausted \<noteq> 0 then needed = 0
      else if len > 16 then False
      else let (remaining, carry, all_zero) =
                 fold (counter_remaining_step counter) (rev [0..<len]) (replicate 16 0, 0, True)
           in if all_zero then len \<ge> sizeof_size_t \<or> needed \<le> 2 ^ (8 * len)
              else let first_size_byte = (if len > sizeof_size_t then len - sizeof_size_t else 0)
                   in if \<exists>i \<in> set [0..<first_size_byte]. remaining ! i \<noteq> 0 then True
                      else let blocks = fold (\<lambda>i blocks. push_bit 8 blocks OR ucast (remaining ! i))
                                          [first_size_byte..<len] (0 :: u64)
                           in unat blocks \<ge> needed)"

section \<open>Exclusive or and dates (internal.h)\<close>

definition tc_internal_xor :: "u8 list \<Rightarrow> u8 list \<Rightarrow> nat \<Rightarrow> u8 list" where
  "tc_internal_xor dst src len = fold (\<lambda>i d. d[i := d ! i XOR src ! i]) [0..<len] dst"

definition tc_internal_calendar_date :: "nat \<Rightarrow> nat \<Rightarrow> nat \<Rightarrow> bool" where
  "tc_internal_calendar_date year month day =
     (if year = 0 \<or> month < 1 \<or> month > 12 \<or> day = 0 then False
      else let days = (if month = 2
             then 28 + (if year mod 4 = 0 \<and> (year mod 100 \<noteq> 0 \<or> year mod 400 = 0) then 1 else 0)
             else if month = 4 \<or> month = 6 \<or> month = 9 \<or> month = 11 then 30 else 31)
           in day \<le> days)"

section \<open>Lemmas: wiping, comparing, exclusive or\<close>

lemma wipe_bytes_eq [loop_simps]:
  "n \<le> length bytes \<Longrightarrow> wipe_bytes bytes n = replicate n 0 @ drop n bytes"
  using fold_update_upt [of n bytes "\<lambda>_ _. 0"]
  by (simp add: wipe_bytes_def map_replicate_const)

lemma length_wipe_bytes [simp, len_simps]: "length (wipe_bytes bytes n) = length bytes"
  by (simp add: wipe_bytes_def length_fold_update)

lemma TC_secure_zero_eq [loop_simps]:
  "at \<noteq> NULL \<Longrightarrow> n \<le> length bytes \<Longrightarrow> TC_secure_zero at bytes n = replicate n 0 @ drop n bytes"
  by (simp add: TC_secure_zero_def wipe_bytes_eq)

lemma length_TC_secure_zero [simp, len_simps]: "length (TC_secure_zero at bytes n) = length bytes"
  by (simp add: TC_secure_zero_def)

lemma tc_internal_xor_eq [loop_simps]:
  "n \<le> length dst \<Longrightarrow> n \<le> length src \<Longrightarrow>
   tc_internal_xor dst src n = xorl (take n dst) (take n src) @ drop n dst"
  by (simp add: tc_internal_xor_def fold_update_upt [of _ _ "\<lambda>i x. x XOR src ! i"]
      map2_nth_upt xorl_def)

lemma length_tc_internal_xor [simp, len_simps]: "length (tc_internal_xor dst src n) = length dst"
  by (simp add: tc_internal_xor_def length_fold_update)

lemma word_xor_eq_0_iff: "x XOR y = 0 \<longleftrightarrow> x = y" for x y :: "'a::len word"
  by (metis xor.right_neutral xor.left_commute xor_self_eq)

lemma fold_or_eq_0_iff:
  fixes s :: "'a::len word"
  shows "fold (\<lambda>i d. d OR f i) is s = 0 \<longleftrightarrow> s = 0 \<and> (\<forall>i \<in> set is. f i = 0)"
proof (induction "is" arbitrary: s)
  case Nil
  then show ?case by simp
next
  case (Cons i "is")
  have "s OR f i = 0 \<longleftrightarrow> s = 0 \<and> f i = 0"
    by (metis or_eq_0_iff)
  with Cons show ?case by auto
qed

lemma TC_ct_equal_valid:
  assumes "bytes_wf a" "bytes_wf b" and "b_length a = 0 \<or> b_data a \<noteq> NULL" "b_length b = 0 \<or> b_data b \<noteq> NULL"
  shows "TC_ct_equal a b = (if b_mem a = b_mem b then TC_OK else TC_MISMATCH)"
proof -
  have la: "length (b_mem a) = b_length a" and lb: "length (b_mem b) = b_length b"
    using assms by (auto simp: bytes_wf_def)
  have "b_mem a = b_mem b \<longleftrightarrow>
      b_length a = b_length b \<and> (\<forall>i < b_length a. b_mem a ! i XOR b_mem b ! i = 0)"
    using la lb by (auto simp: list_eq_iff_nth_eq word_xor_eq_0_iff)
  moreover have "(b_length a \<noteq> 0 \<and> b_data a = NULL) \<or> (b_length b \<noteq> 0 \<and> b_data b = NULL) \<longleftrightarrow> False"
    using assms by auto
  ultimately show ?thesis
    by (auto simp: TC_ct_equal_def Let_def fold_or_eq_0_iff)
qed

section \<open>Lemmas: address ranges\<close>

text \<open>The addresses a span covers.\<close>

definition span_range :: "TC_bytes \<Rightarrow> addr set" where
  "span_range s = {b_data s ..< b_data s + b_length s}"

lemma ranges_disjoint_iff:
  "tc_internal_ranges_disjoint pa la pb lb \<longleftrightarrow> {pa ..< pa + la} \<inter> {pb ..< pb + lb} = {}"
proof -
  have "{pa ..< pa + la} \<inter> {pb ..< pb + lb} = {max pa pb ..< min (pa + la) (pb + lb)}"
    by auto
  then show ?thesis
    by (auto simp: tc_internal_ranges_disjoint_def)
qed

lemma ranges_disjoint_sym:
  "tc_internal_ranges_disjoint pa la pb lb = tc_internal_ranges_disjoint pb lb pa la"
  by (auto simp: ranges_disjoint_iff)

lemma span_valid_iff:
  "data \<le> UINTPTR_MAX \<Longrightarrow>
   tc_internal_span_valid data len \<longleftrightarrow> (data = NULL \<longrightarrow> len = 0) \<and> data + len \<le> UINTPTR_MAX"
  by (auto simp: tc_internal_span_valid_def)

text \<open>Two spans that share no address.\<close>

definition spans_apart :: "TC_bytes \<Rightarrow> TC_bytes \<Rightarrow> bool" where
  "spans_apart v w \<longleftrightarrow> span_range v \<inter> span_range w = {}"

lemma ranges_disjoint_spans_apart:
  "tc_internal_ranges_disjoint (b_data w) (b_length w) (b_data v) (b_length v) = spans_apart v w"
  by (auto simp: ranges_disjoint_iff spans_apart_def span_range_def)

lemma writes_disjoint_loop_iff:
  "writes_disjoint_loop before ws ins \<longleftrightarrow>
     (\<forall>w \<in> set ws. tc_internal_span_valid (b_data w) (b_length w)
        \<and> (\<forall>v \<in> set before \<union> set ins. spans_apart v w))
     \<and> sorted_wrt spans_apart ws"
  by (induction ws arbitrary: before) (auto simp: ranges_disjoint_spans_apart list_all_iff)

section \<open>Lemmas: big-endian words\<close>

lemma fold_load_be:
  assumes "8 * length bs \<le> LENGTH('a::len)" and "w = 0"
  shows "unat (fold (\<lambda>b v. push_bit 8 v OR ucast b) bs (w :: 'a word)) = be_val bs"
  using assms
proof (induction bs rule: rev_induct)
  case Nil
  then show ?case by simp
next
  case (snoc b bs)
  let ?v = "fold (\<lambda>b v. push_bit 8 v OR ucast b) bs (w :: 'a word)"
  have IH: "unat ?v = be_val bs"
    using snoc by simp
  have "be_val bs * 256 + 255 < 256 ^ Suc (length bs)"
    using be_val_less [of bs] by simp
  also have "\<dots> = 2 ^ (8 * length (bs @ [b]))"
    by (simp add: power_add power_mult)
  also have "\<dots> \<le> 2 ^ LENGTH('a)"
    using snoc.prems by (intro power_increasing) simp_all
  finally have "unat ?v * 256 + 255 < 2 ^ LENGTH('a)"
    by (simp add: IH)
  then show ?case
    by (simp add: unat_shift8_or IH be_val_append)
qed

lemma load_be32_fold:
  assumes "length src = 4"
  shows "tc_internal_load_be32 src = fold (\<lambda>b v. push_bit 8 v OR ucast b) src 0"
proof -
  obtain a b c d where "src = [a, b, c, d]"
    using assms by (auto simp: numeral_eq_Suc length_Suc_conv)
  then show ?thesis
    by (auto simp: tc_internal_load_be32_def push_bit_or or.assoc push_bit_push_bit)
qed

lemma unat_load_be32: "length src = 4 \<Longrightarrow> unat (tc_internal_load_be32 src) = be_val src"
  by (simp add: load_be32_fold fold_load_be)

lemma unat_load_be64: "length src = 8 \<Longrightarrow> unat (tc_internal_load_be64 src) = be_val src"
  using fold_load_be [of src "0 :: u64"] fold_upt_nth [of "\<lambda>b v. push_bit 8 v OR ucast b :: u64" src]
  by (simp add: tc_internal_load_be64_def)

lemma length_store_be [simp, len_simps]:
  "length (tc_internal_store_be32 v) = 4" "length (tc_internal_store_be64 w) = 8"
  by (simp_all add: tc_internal_store_be32_def tc_internal_store_be64_def)

lemma load_store_be32: "tc_internal_load_be32 (tc_internal_store_be32 v) = v"
proof (rule bit_word_eqI)
  fix n assume "n < LENGTH(32)"
  then have "n < 8 \<or> (8 \<le> n \<and> n < 16) \<or> (16 \<le> n \<and> n < 24) \<or> (24 \<le> n \<and> n < 32)"
    by auto
  then show "bit (tc_internal_load_be32 (tc_internal_store_be32 v)) n = bit v n"
    by (auto simp: tc_internal_load_be32_def tc_internal_store_be32_def bit_simps)
qed

lemma store_load_be32:
  assumes "length src = 4" shows "tc_internal_store_be32 (tc_internal_load_be32 src) = src"
  using assms by (intro be_val_inject) (simp_all flip: unat_load_be32 add: load_store_be32)

section \<open>Lemmas: counters\<close>

lemma take_Suc_be_val:
  "n < length c \<Longrightarrow> be_val (take (Suc n) c) = be_val (take n c) * 256 + unat (c ! n)"
  by (simp add: take_Suc_conv_app_nth be_val_append)

lemma unat_inc_u8: "(b :: u8) + 1 \<noteq> 0 \<Longrightarrow> unat (b + 1) = unat b + 1"
  by (simp add: unat_eq_0 unat_word_ariths split: if_splits)
    (metis Suc_eq_plus1 unatSuc unat_u8_less mod_less add.commute)

lemma unat_wrap_u8: "(b :: u8) + 1 = 0 \<Longrightarrow> unat b = 255"
proof -
  assume "b + 1 = 0"
  then have "b = - 1" by (simp add: add_eq_0_iff2)
  then show ?thesis by (simp add: unsigned_minus_1_eq_mask mask_eq_exp_minus_1)
qed

lemma length_increment_be_loop [simp, len_simps]:
  "length (fst (increment_be_loop c n)) = length c"
  by (induction n arbitrary: c) (auto simp: Let_def)

lemma drop_increment_be_loop: "drop n (fst (increment_be_loop c n)) = drop n c"
proof (induction n arbitrary: c)
  case 0
  then show ?case by simp
next
  case (Suc n)
  have "drop (Suc n) (fst (increment_be_loop (c[n := v]) n)) = drop (Suc n) c" for v
    using arg_cong [OF Suc.IH [of "c[n := v]"], of tl] by (simp add: tl_drop drop_Suc [symmetric] flip: drop_Suc)
  then show ?case by (simp add: Let_def)
qed

lemma increment_be_loop_val:
  assumes "n \<le> length c"
  shows "be_val (take n (fst (increment_be_loop c n))) = (be_val (take n c) + 1) mod 256 ^ n"
    and "snd (increment_be_loop c n) = (if be_val (take n c) + 1 = 256 ^ n then 1 else 0)"
  using assms
proof (induction n arbitrary: c)
  case 0
  {
    case 1
    then show ?case by simp
  next
    case 2
    then show ?case by simp
  }
next
  case (Suc n)
  {
    fix c :: "u8 list" assume n: "Suc n \<le> length c"
    let ?v = "be_val (take n c)" and ?c' = "c[n := c ! n + 1]"
    have v: "?v < 256 ^ n" using be_val_less [of "take n c"] n by simp
    have tk: "take n ?c' = take n c" by simp
    have old: "be_val (take (Suc n) c) = ?v * 256 + unat (c ! n)"
      using n by (simp add: take_Suc_be_val)
    have "be_val (take (Suc n) (fst (increment_be_loop c (Suc n)))) =
            (be_val (take (Suc n) c) + 1) mod 256 ^ Suc n
        \<and> snd (increment_be_loop c (Suc n)) =
            (if be_val (take (Suc n) c) + 1 = 256 ^ Suc n then 1 else 0)"
    proof (cases "c ! n + 1 = 0")
      case False
      have u: "unat (c ! n + 1) = unat (c ! n) + 1" using False by (rule unat_inc_u8)
      have less: "unat (c ! n) + 1 < 256" using u unat_u8_less [of "c ! n + 1"] by simp
      then have "?v * 256 + (unat (c ! n) + 1) < 256 ^ Suc n" using v by simp
      then show ?thesis
        using n False by (simp add: Let_def take_Suc_be_val u)
    next
      case True
      let ?d = "fst (increment_be_loop ?c' n)"
      have "drop n ?d = drop n ?c'" by (rule drop_increment_be_loop)
      then have "?d ! n = 0"
        using n True by (metis Cons_nth_drop_Suc Suc_le_eq length_increment_be_loop length_list_update
          list.inject nth_list_update_eq)
      moreover have "be_val (take n ?d) = (?v + 1) mod 256 ^ n"
        and "snd (increment_be_loop ?c' n) = (if ?v + 1 = 256 ^ n then 1 else 0)"
        using Suc.IH [of ?c'] n by (simp_all add: tk)
      moreover have "((?v + 1) mod 256 ^ n) * 256 = (?v * 256 + 255 + 1) mod (256 ^ n * 256)"
        using mult_mod_right [of 256 "?v + 1" "256 ^ n"] by (simp add: mult.commute)
      ultimately show ?thesis
        using n True unat_wrap_u8 [OF True] by (simp add: Let_def take_Suc_be_val mult.commute)
    qed
  } note step = this
  {
    case 1
    then show ?case using step by blast
  next
    case 2
    then show ?case using step by blast
  }
qed

text \<open>Two's complement, one leading byte at a time.\<close>

lemma be_val_negate_Cons:
  assumes len: "length s = k" and r: "length r = k" "be_val r = (256 ^ k - be_val s) mod 256 ^ k"
  shows "be_val ((0 - b - (if be_val s \<noteq> 0 then 1 else 0)) # r) =
           (256 ^ Suc k - be_val (b # s)) mod 256 ^ Suc k"
proof (cases "be_val s = 0")
  case True
  then have "be_val r = 0" using r by simp
  moreover have "unat (- b) = (256 - unat b) mod 256"
    using unat_sub_if' [of 0 b] unat_gt_0 [of b] by (cases "b = 0") (simp_all add: unat_eq_0)
  ultimately show ?thesis
    using True len r by (simp add: mult_mod_left diff_mult_distrib)
next
  case False
  let ?v = "be_val s"
  have v: "?v < 256 ^ k" using be_val_less [of s] len by simp
  have br: "be_val r = 256 ^ k - ?v" using r False by simp
  have le255: "unat b \<le> 255" using unat_u8_less [of b] by linarith
  have ub: "unat (- b - 1) = 255 - unat b"
    using unat_sub_if' [of "- 1" b] le255
    by (simp add: unsigned_minus_1_eq_mask mask_eq_exp_minus_1 minus_diff_commute [of b 1])
  have "(255 - unat b) * 256 ^ k + (256 ^ k - ?v) = 256 * 256 ^ k - (unat b * 256 ^ k + ?v)"
    using v le255 by (simp add: diff_mult_distrib algebra_simps)
  moreover have "unat b * 256 ^ k + ?v > 0" using False by simp
  ultimately show ?thesis
    using len r(1) False br ub by simp
qed

lemma fold_remaining:
  assumes "k \<le> len" "len \<le> length counter" "len \<le> length rem0"
  defines "v \<equiv> be_val (drop (len - k) (take len counter))"
  shows "\<exists>r. fold (counter_remaining_step counter) (rev [len - k..<len]) (rem0, 0, True) =
           (take (len - k) rem0 @ r @ drop len rem0, if v \<noteq> 0 then 1 else 0, v = 0)
         \<and> length r = k \<and> be_val r = (256 ^ k - v) mod 256 ^ k"
  using assms(1) unfolding v_def
proof (induction k)
  case 0
  then show ?case using assms by simp
next
  case (Suc k)
  let ?i = "len - Suc k" and ?s = "drop (len - k) (take len counter)"
  let ?v = "be_val ?s"
  have i: "Suc ?i = len - k" "?i < len" using Suc.prems by simp_all
  from Suc obtain r where
    IH: "fold (counter_remaining_step counter) (rev [len - k..<len]) (rem0, 0, True) =
           (take (len - k) rem0 @ r @ drop len rem0, if ?v \<noteq> 0 then 1 else 0, ?v = 0)"
    and r: "length r = k" "be_val r = (256 ^ k - ?v) mod 256 ^ k"
    by auto
  have upt: "rev [?i..<len] = rev [len - k..<len] @ [?i]"
    using i by (simp add: upt_conv_Cons)
  have sfx: "drop ?i (take len counter) = counter ! ?i # ?s"
    using i assms by (simp add: Cons_nth_drop_Suc [symmetric])
  have lens: "length ?s = k" using Suc.prems assms by simp
  have v: "?v < 256 ^ k" using be_val_less [of ?s] lens by simp
  let ?c = "if ?v \<noteq> 0 then 1 else 0 :: u8"
  let ?r = "(0 - counter ! ?i - ?c) # r"
  have upd: "(take (len - k) rem0 @ ys)[?i := x] = take ?i rem0 @ x # ys" for x ys
  proof -
    have "take (len - k) rem0 = take ?i rem0 @ [rem0 ! ?i]"
      using i assms by (metis take_Suc_conv_app_nth less_le_trans)
    then show ?thesis using i assms by (simp add: list_update_append)
  qed
  have fold: "fold (counter_remaining_step counter) (rev [?i..<len]) (rem0, 0, True) =
      (take ?i rem0 @ ?r @ drop len rem0,
       if counter ! ?i \<noteq> 0 \<or> ?c \<noteq> 0 then 1 else 0, ?v = 0 \<and> counter ! ?i = 0)"
    by (simp add: upt IH counter_remaining_step_def upd)
  have zero: "be_val (counter ! ?i # ?s) = 0 \<longleftrightarrow> ?v = 0 \<and> counter ! ?i = 0"
    by (auto simp: unat_eq_0)
  have "be_val ?r = (256 ^ Suc k - be_val (counter ! ?i # ?s)) mod 256 ^ Suc k"
    using be_val_negate_Cons [OF lens r] by simp
  then show ?case
    using fold r(1) zero by (auto simp: sfx)
qed

lemma remaining_size_bytes:
  assumes r: "length r = len" and "len \<le> 16" "needed \<le> SIZE_MAX"
  defines "f \<equiv> (if len > sizeof_size_t then len - sizeof_size_t else 0)"
  shows "((\<exists>i \<in> set [0..<f]. r ! i \<noteq> 0) \<or>
          needed \<le> unat (fold (\<lambda>i blocks. push_bit 8 blocks OR ucast (r ! i)) [f..<len] (0 :: u64)))
         \<longleftrightarrow> needed \<le> be_val r"
proof -
  have f: "f \<le> len" "len - f \<le> 8" by (auto simp: f_def sizeof_size_t_def)
  have "map (\<lambda>i. r ! i) [f..<len] = drop f r"
    using r f by (auto intro!: nth_equalityI)
  then have "fold (\<lambda>i blocks. push_bit 8 blocks OR ucast (r ! i)) [f..<len] (0 :: u64) =
      fold (\<lambda>b v. push_bit 8 v OR ucast b) (drop f r) 0"
    by (simp flip: \<open>map _ _ = _\<close> add: fold_map comp_def)
  moreover have "unat (fold (\<lambda>b v. push_bit 8 v OR ucast b) (drop f r) (0 :: u64)) = be_val (drop f r)"
    using f r by (intro fold_load_be) simp_all
  ultimately have blocks: "unat (fold (\<lambda>i blocks. push_bit 8 blocks OR ucast (r ! i)) [f..<len] (0 :: u64))
      = be_val (drop f r)" by simp
  have split: "be_val r = be_val (take f r) * 256 ^ (len - f) + be_val (drop f r)"
    using be_val_append [of "take f r" "drop f r"] r by simp
  show ?thesis
  proof (cases "be_val (take f r) = 0")
    case True
    then have "\<not> (\<exists>i \<in> set [0..<f]. r ! i \<noteq> 0)"
      using f r by (auto simp: be_val_eq_0_iff all_set_conv_all_nth)
    then show ?thesis using True by (simp add: blocks split)
  next
    case False
    then obtain i where "i < f" "r ! i \<noteq> 0"
      using f r by (auto simp: be_val_eq_0_iff in_set_conv_nth)
    then have ex: "\<exists>i \<in> set [0..<f]. r ! i \<noteq> 0" by (intro bexI [of _ i]) simp_all
    from False have "f \<noteq> 0" by (cases f) auto
    then have "len - f = 8" by (auto simp: f_def sizeof_size_t_def split: if_splits)
    then have "256 ^ 8 \<le> be_val (take f r) * 256 ^ (len - f)" using False by simp
    then have "needed \<le> be_val r" using assms(3) split by (simp add: SIZE_MAX_def)
    with ex show ?thesis by blast
  qed
qed

lemma counter_has_blocks_iff:
  assumes len: "length counter = len" "len \<le> 16" and n: "needed \<le> SIZE_MAX"
  shows "tc_internal_counter_has_blocks counter len needed exhausted \<longleftrightarrow>
           (if exhausted \<noteq> 0 then needed = 0 else needed \<le> 256 ^ len - be_val counter)"
proof (cases "exhausted = 0")
  case False
  then show ?thesis by (simp add: tc_internal_counter_has_blocks_def)
next
  case True
  let ?v = "be_val counter"
  have v: "?v < 256 ^ len" using be_val_less [of counter] len by simp
  obtain r where
    fold: "fold (counter_remaining_step counter) (rev [0..<len]) (replicate 16 0, 0, True) =
           (r @ drop len (replicate 16 0), if ?v \<noteq> 0 then 1 else 0, ?v = 0)"
    and r: "length r = len" "be_val r = (256 ^ len - ?v) mod 256 ^ len"
    using fold_remaining [of len len counter "replicate 16 0"] len by auto
  show ?thesis
  proof (cases "?v = 0")
    case zero: True
    have "len \<ge> sizeof_size_t \<Longrightarrow> needed \<le> 256 ^ len"
      using n power_increasing [of 8 len "256::nat"] by (simp add: sizeof_size_t_def SIZE_MAX_def)
    then show ?thesis
      using True zero len by (auto simp: tc_internal_counter_has_blocks_def fold power_mult)
  next
    case nz: False
    have br: "be_val r = 256 ^ len - ?v" using r nz by simp
    let ?f = "if len > sizeof_size_t then len - sizeof_size_t else 0"
    let ?m = "r @ drop len (replicate 16 0)"
    have f: "?f \<le> len" by simp
    have "(\<exists>i \<in> set [0..<?f]. ?m ! i \<noteq> 0) = (\<exists>i \<in> set [0..<?f]. r ! i \<noteq> 0)"
      using f r by (intro bex_cong refl) (simp add: nth_append)
    moreover have "fold (\<lambda>i blocks. push_bit 8 blocks OR ucast (?m ! i)) [?f..<len] (0 :: u64) =
        fold (\<lambda>i blocks. push_bit 8 blocks OR ucast (r ! i)) [?f..<len] 0"
      using r by (intro fold_cong refl) (simp add: nth_append)
    ultimately have "tc_internal_counter_has_blocks counter len needed exhausted =
        ((\<exists>i \<in> set [0..<?f]. r ! i \<noteq> 0) \<or>
         needed \<le> unat (fold (\<lambda>i blocks. push_bit 8 blocks OR ucast (r ! i)) [?f..<len] (0 :: u64)))"
      using True nz len unfolding tc_internal_counter_has_blocks_def Let_def fold by simp
    also have "\<dots> \<longleftrightarrow> needed \<le> be_val r"
      using remaining_size_bytes [OF r(1) len(2) n] .
    finally show ?thesis using True br by simp
  qed
qed

text \<open>The number of fresh blocks a request needs is the ceiling of what the cached bytes do not cover.\<close>

lemma counter_blocks_needed_eq:
  assumes "0 < width" "used \<le> width"
  shows "tc_internal_counter_blocks_needed n width used = (n - (width - used) + width - 1) div width"
proof -
  have ceil: "m div width + (if m mod width \<noteq> 0 then 1 else 0) = (m + width - 1) div width" for m
  proof -
    define q r where "q = m div width" and "r = m mod width"
    have m: "m = width * q + r" and r: "r < width"
      using assms(1) by (simp_all add: q_def r_def)
    have "(m + width - 1) div width = q + (r + width - 1) div width"
    proof (cases "r = 0")
      case True
      then have eq: "m + width - 1 = (width - 1) + width * q" using m assms(1) by simp
      have "((width - 1) + width * q) div width = q"
        by (rule div_nat_eqI) (use assms(1) in simp_all)
      then show ?thesis unfolding eq using True assms(1) by simp
    next
      case False
      then have eq: "m + width - 1 = (r + width - 1) + width * q" using m by simp
      show ?thesis unfolding eq by (rule div_mult_self2) (use assms(1) in simp)
    qed
    also have "(r + width - 1) div width = (if r \<noteq> 0 then 1 else 0)"
      using r by (auto intro!: div_nat_eqI)
    finally show ?thesis by (simp add: q_def r_def)
  qed
  have "(if n > a then n - a else 0) = n - a" for a by simp
  moreover have "(if used < width then width - used else 0) = width - used" by simp
  ultimately show ?thesis by (simp only: tc_internal_counter_blocks_needed_def Let_def ceil)
qed

section \<open>Spans with storage\<close>

lemma span_mem_length:
  "bytes_wf s \<Longrightarrow> tc_internal_span_valid (b_data s) (b_length s) \<Longrightarrow> length (b_mem s) = b_length s"
  by (auto simp: bytes_wf_def tc_internal_span_valid_def)

lemma buffer_mem_length:
  "buffer_wf s \<Longrightarrow> tc_internal_span_valid (w_data s) (w_capacity s) \<Longrightarrow> length (w_mem s) = w_capacity s"
  by (auto simp: buffer_wf_def tc_internal_span_valid_def)

end
