(* ===== verification/Block_Modes.thy ===== *)
theory Block_Modes
  imports TC_Common
begin

text \<open>
  The block cipher descriptor of \<^verbatim>\<open>src/src/block_cipher_internal.h\<close> and the CBC, CTR and OFB cores of
  \<^verbatim>\<open>src/src/block_modes.c\<close>, which AES and DES share. The cores are functions of a descriptor, a mode
  state and a buffer; a failed cipher call wipes the buffer as in the source. The locale
  \<open>block_cipher\<close> states what a mode relies on from a cipher (it does not fail on a block of its
  width and keeps the width), \<open>invertible_cipher\<close> adds that the inverse cipher undoes it. The lemmas
  inside them relate each core to its definition in NIST SP 800-38A; AES and DES interpret both.
\<close>

section \<open>The descriptor\<close>

definition TC_BLOCK_MAX :: nat where "TC_BLOCK_MAX = 16"

text \<open>\<open>decrypt\<close> is \<open>None\<close> where the C descriptor holds \<^verbatim>\<open>NULL\<close>.\<close>

record 'k tc_block_cipher =
  block_size :: nat
  key :: 'k
  encrypt :: "'k \<Rightarrow> u8 list \<Rightarrow> TC_status \<times> u8 list"
  decrypt :: "('k \<Rightarrow> u8 list \<Rightarrow> TC_status \<times> u8 list) option"

definition tc_block_mode_args :: "addr \<Rightarrow> nat \<Rightarrow> addr \<Rightarrow> nat \<Rightarrow> nat \<Rightarrow> bool" where
  "tc_block_mode_args ctx ctx_size span len alignment \<longleftrightarrow>
     ctx \<noteq> NULL \<and> tc_internal_span_valid span len \<and> len mod alignment = 0 \<and>
     tc_internal_ranges_disjoint ctx ctx_size span len"

section \<open>CBC\<close>

fun cbc_encrypt_loop ::
  "'k tc_block_cipher \<Rightarrow> u8 list \<Rightarrow> u8 list \<Rightarrow> nat \<Rightarrow> nat list \<Rightarrow> TC_status \<times> u8 list \<times> u8 list" where
  "cbc_encrypt_loop cipher iv buf len [] = (TC_OK, iv, buf)"
| "cbc_encrypt_loop cipher iv buf len (offset # offsets) =
     (let width = block_size cipher;
          x = tc_internal_xor (take width (drop offset buf)) iv width;
          (status, y) = encrypt cipher (key cipher) x;
          buf' = memcpy_at buf offset y
      in if status \<noteq> TC_OK then (TC_ERROR, wipe_bytes iv width, wipe_bytes buf' len)
         else cbc_encrypt_loop cipher (take width (drop offset buf')) buf' len offsets)"

definition tc_block_cbc_encrypt ::
  "'k tc_block_cipher \<Rightarrow> u8 list \<Rightarrow> u8 list \<Rightarrow> nat \<Rightarrow> TC_status \<times> u8 list \<times> u8 list" where
  "tc_block_cbc_encrypt cipher iv buf len =
     cbc_encrypt_loop cipher iv buf len (block_offsets (block_size cipher) len)"

text \<open>
  Decryption keeps the ciphertext block in \<open>previous\<close> for the next step. A descriptor without an
  inverse is never passed here; the model then fails as a failing cipher would.
\<close>

fun cbc_decrypt_loop ::
  "'k tc_block_cipher \<Rightarrow> u8 list \<Rightarrow> u8 list \<Rightarrow> nat \<Rightarrow> nat list \<Rightarrow> TC_status \<times> u8 list \<times> u8 list" where
  "cbc_decrypt_loop cipher iv buf len [] = (TC_OK, iv, buf)"
| "cbc_decrypt_loop cipher iv buf len (offset # offsets) =
     (let width = block_size cipher;
          previous = take width (drop offset buf);
          (status, y) = (case decrypt cipher of None \<Rightarrow> (TC_ERROR, previous)
                         | Some d \<Rightarrow> d (key cipher) previous)
      in if status \<noteq> TC_OK
         then (TC_ERROR, wipe_bytes iv width, wipe_bytes (memcpy_at buf offset y) len)
         else cbc_decrypt_loop cipher previous (memcpy_at buf offset (tc_internal_xor y iv width)) len offsets)"

definition tc_block_cbc_decrypt ::
  "'k tc_block_cipher \<Rightarrow> u8 list \<Rightarrow> u8 list \<Rightarrow> nat \<Rightarrow> TC_status \<times> u8 list \<times> u8 list" where
  "tc_block_cbc_decrypt cipher iv buf len =
     cbc_decrypt_loop cipher iv buf len (block_offsets (block_size cipher) len)"

section \<open>CTR\<close>

record tc_block_ctr_state =
  counter :: "u8 list"
  keystream :: "u8 list"
  used :: nat
  exhausted :: u8

definition tc_block_ctr_request_ok :: "tc_block_ctr_state \<Rightarrow> nat \<Rightarrow> nat \<Rightarrow> bool" where
  "tc_block_ctr_request_ok state width len =
     (if used state > width then False
      else len = 0 \<or> tc_internal_counter_has_blocks (counter state) width
                       (tc_internal_counter_blocks_needed len width (used state)) (exhausted state))"

text \<open>
  The byte loop. The local \<open>u\<close> is the C local \<^verbatim>\<open>used\<close>; it is stored back only at the end, so a
  failed call leaves the state's \<open>used\<close> as it was.
\<close>

fun ctr_crypt_loop ::
  "'k tc_block_cipher \<Rightarrow> tc_block_ctr_state \<Rightarrow> nat \<Rightarrow> u8 list \<Rightarrow> nat \<Rightarrow> nat list \<Rightarrow>
   TC_status \<times> tc_block_ctr_state \<times> u8 list" where
  "ctr_crypt_loop cipher state u buf len [] = (TC_OK, state\<lparr>used := u\<rparr>, buf)"
| "ctr_crypt_loop cipher state u buf len (i # is) =
     (let width = block_size cipher
      in if u = width
         then (case encrypt cipher (key cipher) (counter state) of (status, ks) \<Rightarrow>
                if status \<noteq> TC_OK then (TC_ERROR, state\<lparr>keystream := ks\<rparr>, wipe_bytes buf len)
                else case tc_internal_increment_be (counter state) width of (counter', wrapped) \<Rightarrow>
                  ctr_crypt_loop cipher
                    (state\<lparr>counter := counter', keystream := ks, exhausted := exhausted state OR wrapped\<rparr>)
                    1 (buf[i := buf ! i XOR ks ! 0]) len is)
         else ctr_crypt_loop cipher state (Suc u) (buf[i := buf ! i XOR keystream state ! u]) len is)"

definition tc_block_ctr_crypt ::
  "'k tc_block_cipher \<Rightarrow> tc_block_ctr_state \<Rightarrow> u8 list \<Rightarrow> nat \<Rightarrow> TC_status \<times> tc_block_ctr_state \<times> u8 list" where
  "tc_block_ctr_crypt cipher state buf len =
     ctr_crypt_loop cipher state (used state) buf len [0..<len]"

section \<open>OFB\<close>

fun ofb_crypt_loop ::
  "'k tc_block_cipher \<Rightarrow> u8 list \<Rightarrow> nat \<Rightarrow> nat \<Rightarrow> u8 list \<Rightarrow> nat \<Rightarrow> nat list \<Rightarrow>
   TC_status \<times> u8 list \<times> nat \<times> u8 list" where
  "ofb_crypt_loop cipher feedback used0 position buf len [] = (TC_OK, feedback, position, buf)"
| "ofb_crypt_loop cipher feedback used0 position buf len (i # is) =
     (if position = block_size cipher
      then (case encrypt cipher (key cipher) feedback of (status, fb) \<Rightarrow>
             if status \<noteq> TC_OK then (TC_ERROR, fb, used0, wipe_bytes buf len)
             else ofb_crypt_loop cipher fb used0 1 (buf[i := buf ! i XOR fb ! 0]) len is)
      else ofb_crypt_loop cipher feedback used0 (Suc position)
             (buf[i := buf ! i XOR feedback ! position]) len is)"

definition tc_block_ofb_crypt ::
  "'k tc_block_cipher \<Rightarrow> u8 list \<Rightarrow> nat \<Rightarrow> u8 list \<Rightarrow> nat \<Rightarrow> TC_status \<times> u8 list \<times> nat \<times> u8 list" where
  "tc_block_ofb_crypt cipher feedback used0 buf len =
     ofb_crypt_loop cipher feedback used0 used0 buf len [0..<len]"

section \<open>The modes as NIST SP 800-38A defines them\<close>

text \<open>\<open>E\<close> and \<open>D\<close> are the forward and the inverse cipher function on blocks.\<close>

fun cbc_enc_spec :: "(u8 list \<Rightarrow> u8 list) \<Rightarrow> u8 list \<Rightarrow> u8 list list \<Rightarrow> u8 list list" where
  "cbc_enc_spec E c [] = []"
| "cbc_enc_spec E c (p # ps) = E (xorl p c) # cbc_enc_spec E (E (xorl p c)) ps"

fun cbc_dec_spec :: "(u8 list \<Rightarrow> u8 list) \<Rightarrow> u8 list \<Rightarrow> u8 list list \<Rightarrow> u8 list list" where
  "cbc_dec_spec D c [] = []"
| "cbc_dec_spec D c (b # bs) = xorl (D b) c # cbc_dec_spec D b bs"

text \<open>Byte \<open>p\<close> of the CTR keystream whose first counter block has the value \<open>t\<close>.\<close>

definition ctr_stream :: "(u8 list \<Rightarrow> u8 list) \<Rightarrow> nat \<Rightarrow> nat \<Rightarrow> nat \<Rightarrow> u8" where
  "ctr_stream E w t p = E (be_bytes w (t + p div w)) ! (p mod w)"

text \<open>Byte \<open>p\<close> of the OFB keystream from the initialization vector.\<close>

definition ofb_stream :: "(u8 list \<Rightarrow> u8 list) \<Rightarrow> nat \<Rightarrow> u8 list \<Rightarrow> nat \<Rightarrow> u8" where
  "ofb_stream E w iv p = (E ^^ Suc (p div w)) iv ! (p mod w)"

text \<open>A stream mode adds the next bytes of a keystream to the buffer.\<close>

definition add_stream :: "(nat \<Rightarrow> u8) \<Rightarrow> nat \<Rightarrow> u8 list \<Rightarrow> u8 list" where
  "add_stream ks p buf = map (\<lambda>i. buf ! i XOR ks (p + i)) [0..<length buf]"

text \<open>Blocks consumed after \<open>p\<close> bytes and the position in the last one, the width when it is used up.\<close>

definition blocks_after :: "nat \<Rightarrow> nat \<Rightarrow> nat" where
  "blocks_after w p = (p + w - 1) div w"

definition used_after :: "nat \<Rightarrow> nat \<Rightarrow> nat" where
  "used_after w p = (if p mod w = 0 then w else p mod w)"

text \<open>The CTR state after \<open>p\<close> bytes of the message whose first counter block has the value \<open>t\<close>.\<close>

definition ctr_state_at :: "(u8 list \<Rightarrow> u8 list) \<Rightarrow> nat \<Rightarrow> nat \<Rightarrow> nat \<Rightarrow> tc_block_ctr_state \<Rightarrow> bool" where
  "ctr_state_at E w t p s \<longleftrightarrow>
     t + blocks_after w p \<le> 256 ^ w \<and>
     counter s = be_bytes w (t + blocks_after w p) \<and>
     exhausted s = (if t + blocks_after w p = 256 ^ w then 1 else 0) \<and>
     used s = used_after w p \<and>
     (p mod w \<noteq> 0 \<longrightarrow> keystream s = E (be_bytes w (t + p div w)))"

definition ofb_state_at :: "(u8 list \<Rightarrow> u8 list) \<Rightarrow> nat \<Rightarrow> u8 list \<Rightarrow> nat \<Rightarrow> u8 list \<Rightarrow> nat \<Rightarrow> bool" where
  "ofb_state_at E w iv p feedback u \<longleftrightarrow>
     feedback = (E ^^ blocks_after w p) iv \<and> u = used_after w p"

section \<open>Arithmetic of stream positions\<close>

lemma blocks_after_Suc:
  assumes "0 < w"
  shows "blocks_after w (Suc p) = (if p mod w = 0 then Suc (blocks_after w p) else blocks_after w p)"
    and "p mod w = 0 \<Longrightarrow> blocks_after w p = p div w"
    and "p mod w \<noteq> 0 \<Longrightarrow> blocks_after w p = Suc (p div w)"
proof -
  define q r where "q = p div w" and "r = p mod w"
  have p: "p = w * q + r" and r: "r < w" using assms by (simp_all add: q_def r_def)
  have z: "r = 0 \<Longrightarrow> blocks_after w p = q"
    unfolding blocks_after_def by (rule div_nat_eqI) (use p assms in simp_all)
  have nz: "r \<noteq> 0 \<Longrightarrow> blocks_after w p = Suc q"
    unfolding blocks_after_def by (rule div_nat_eqI) (use p r in simp_all)
  have "blocks_after w (Suc p) = Suc q"
    unfolding blocks_after_def by (rule div_nat_eqI) (use p r in simp_all)
  then show "blocks_after w (Suc p) = (if p mod w = 0 then Suc (blocks_after w p) else blocks_after w p)"
    using z nz by (auto simp: r_def)
  show "p mod w = 0 \<Longrightarrow> blocks_after w p = p div w" "p mod w \<noteq> 0 \<Longrightarrow> blocks_after w p = Suc (p div w)"
    using z nz by (simp_all add: q_def r_def)
qed

lemma used_after_Suc:
  assumes "0 < w"
  shows "used_after w (Suc p) = (if p mod w = 0 then 1 else Suc (p mod w))"
  using assms mod_less_divisor [OF assms, of p] by (auto simp: used_after_def mod_Suc)

lemma used_after_bounds: "0 < w \<Longrightarrow> 0 < used_after w p \<and> used_after w p \<le> w"
  by (simp add: used_after_def less_imp_le)

lemma used_after_eq_width: "0 < w \<Longrightarrow> used_after w p = w \<longleftrightarrow> p mod w = 0"
  by (metis mod_less_divisor nat_neq_iff used_after_def)

lemma blocks_after_add:
  assumes w: "0 < w" and n: "0 < n"
  shows "blocks_after w p + tc_internal_counter_blocks_needed n w (used_after w p) = blocks_after w (p + n)"
proof -
  define q r where "q = p div w" and "r = p mod w"
  have p: "p = w * q + r" and r: "r < w" using w by (simp_all add: q_def r_def)
  have need: "tc_internal_counter_blocks_needed n w (used_after w p) =
      (n - (w - used_after w p) + w - 1) div w"
    using w used_after_bounds [OF w, of p] by (simp add: counter_blocks_needed_eq)
  have mult: "x + m div w = (w * x + m) div w" for x m
    using w by simp
  show ?thesis
  proof (cases "r = 0")
    case True
    then have "blocks_after w p = q" "used_after w p = w"
      using blocks_after_Suc(2) [OF w, of p] by (simp_all add: q_def r_def used_after_def)
    moreover have "w * q + (n + w - 1) = p + n + w - 1" using p True n by simp
    ultimately show ?thesis using mult [of q "n + w - 1"] need by (simp add: blocks_after_def)
  next
    case False
    then have 1: "blocks_after w p = Suc q" "used_after w p = r"
      using blocks_after_Suc(3) [OF w, of p] by (simp_all add: q_def r_def used_after_def)
    show ?thesis
    proof (cases "n \<le> w - r")
      case True
      then have "tc_internal_counter_blocks_needed n w (used_after w p) = 0"
        using w need by (simp add: 1)
      moreover have "blocks_after w (p + n) = Suc q"
        unfolding blocks_after_def by (rule div_nat_eqI) (use p r n True False in simp_all)
      ultimately show ?thesis using 1 by simp
    next
      case more: False
      then have "w * Suc q + (n - (w - r) + w - 1) = p + n + w - 1" using p r by simp
      moreover have "tc_internal_counter_blocks_needed n w r = (n - (w - r) + w - 1) div w"
        using need by (simp add: 1)
      ultimately show ?thesis
        using mult [of "Suc q" "n - (w - r) + w - 1"] by (simp only: 1) (simp only: blocks_after_def)
    qed
  qed
qed

lemma blocks_after_mono: "p \<le> q \<Longrightarrow> blocks_after w p \<le> blocks_after w q"
  by (simp add: blocks_after_def div_le_mono)

lemma add_stream_Nil [simp]: "add_stream ks p [] = []"
  by (simp add: add_stream_def)

lemma add_stream_Cons [simp]: "add_stream ks p (b # bs) = (b XOR ks p) # add_stream ks (Suc p) bs"
  by (simp add: add_stream_def upt_conv_Cons map_Suc_upt [symmetric] comp_def del: upt_Suc)

lemma length_add_stream [simp, len_simps]: "length (add_stream ks p buf) = length buf"
  by (simp add: add_stream_def)

lemma add_stream_append: "add_stream ks p (xs @ ys) = add_stream ks p xs @ add_stream ks (p + length xs) ys"
  by (induction xs arbitrary: p) simp_all

lemma add_stream_twice [simp]: "add_stream ks p (add_stream ks p buf) = buf"
  by (induction buf arbitrary: p) (simp_all add: xor.assoc)

lemma increment_be_bytes:
  assumes "n < 256 ^ w"
  shows "tc_internal_increment_be (be_bytes w n) w =
           (be_bytes w (Suc n), if Suc n = 256 ^ w then 1 else 0)"
proof -
  let ?r = "increment_be_loop (be_bytes w n) w"
  have "be_val (fst ?r) = Suc n mod 256 ^ w" "snd ?r = (if Suc n = 256 ^ w then 1 else 0)"
    using increment_be_loop_val [of w "be_bytes w n"] assms by simp_all
  moreover from this(1) have "fst ?r = be_bytes w (Suc n)"
    by (intro be_val_inject) simp_all
  ultimately show ?thesis by (simp add: tc_internal_increment_be_def prod_eq_iff)
qed

section \<open>What the modes rely on from a cipher\<close>

definition cipher_fun :: "'k tc_block_cipher \<Rightarrow> u8 list \<Rightarrow> u8 list" where
  "cipher_fun c b = snd (encrypt c (key c) b)"

definition inverse_fun :: "'k tc_block_cipher \<Rightarrow> u8 list \<Rightarrow> u8 list" where
  "inverse_fun c b = (case decrypt c of None \<Rightarrow> b | Some d \<Rightarrow> snd (d (key c) b))"

locale block_cipher =
  fixes fwd :: "'k \<Rightarrow> 'k tc_block_cipher"
    and key_ok :: "'k \<Rightarrow> bool"
    and width :: nat
  assumes width_pos: "0 < width"
    and width_max: "width \<le> TC_BLOCK_MAX"
    and fwd_size: "block_size (fwd k) = width"
    and fwd_ok: "key_ok k \<Longrightarrow> length b = width \<Longrightarrow> fst (encrypt (fwd k) (key (fwd k)) b) = TC_OK"
    and fwd_length: "key_ok k \<Longrightarrow> length b = width \<Longrightarrow> length (cipher_fun (fwd k) b) = width"
begin

lemma fwd_eq: "key_ok k \<Longrightarrow> length b = width \<Longrightarrow>
    encrypt (fwd k) (key (fwd k)) b = (TC_OK, cipher_fun (fwd k) b)"
  using fwd_ok by (simp add: cipher_fun_def prod_eq_iff)

lemma cbc_spec_width:
  "key_ok k \<Longrightarrow> blocks_of width ps \<Longrightarrow> length iv = width \<Longrightarrow>
   blocks_of width (cbc_enc_spec (cipher_fun (fwd k)) iv ps)"
proof (induction ps arbitrary: iv)
  case Nil
  then show ?case by simp
next
  case (Cons p ps)
  have "length (xorl p iv) = width" using Cons.prems by simp
  then have "length (cipher_fun (fwd k) (xorl p iv)) = width" using Cons.prems(1) by (rule fwd_length [rotated])
  then show ?case using Cons.IH Cons.prems by simp
qed

lemma cbc_encrypt_loop_eq:
  assumes "key_ok k" "length iv = width" "blocks_of width ps" "length dn = width * m"
  defines "E \<equiv> cipher_fun (fwd k)"
  shows "cbc_encrypt_loop (fwd k) iv (dn @ concat ps) len (map ((*) width) [m..<m + length ps]) =
           (TC_OK, last (iv # cbc_enc_spec E iv ps), dn @ concat (cbc_enc_spec E iv ps))"
  using assms(1-4)
proof (induction ps arbitrary: iv dn m)
  case Nil
  then show ?case by simp
next
  case (Cons p ps)
  let ?y = "E (xorl p iv)"
  have y: "length ?y = width" using Cons.prems by (simp add: E_def fwd_length)
  have blk: "take width (drop (width * m) (dn @ p @ concat ps)) = p" using Cons.prems by simp
  have x: "tc_internal_xor p iv width = xorl p iv" using Cons.prems by (simp add: tc_internal_xor_eq)
  have cpy: "memcpy_at (dn @ p @ concat ps) (width * m) ?y = (dn @ ?y) @ concat ps"
    using Cons.prems y memcpy_at_append [of ?y p dn] by simp
  have upt: "[m..<m + length (p # ps)] = m # [Suc m..<Suc m + length ps]"
    by (simp only: length_Cons upt_add_Suc)
  have enc: "encrypt (fwd k) (key (fwd k)) (xorl p iv) = (TC_OK, ?y)"
    using Cons.prems by (simp add: E_def fwd_eq)
  have "cbc_encrypt_loop (fwd k) ?y ((dn @ ?y) @ concat ps) len (map ((*) width) [Suc m..<Suc m + length ps]) =
      (TC_OK, last (?y # cbc_enc_spec E ?y ps), (dn @ ?y) @ concat (cbc_enc_spec E ?y ps))"
    using Cons.prems y by (intro Cons.IH) simp_all
  moreover have "take width (drop (width * m) ((dn @ ?y) @ concat ps)) = ?y"
    using Cons.prems y by simp
  ultimately show ?case
    unfolding upt list.map cbc_encrypt_loop.simps Let_def fwd_size concat.simps blk x enc prod.case cpy
    by simp
qed

lemma cbc_encrypt_eq:
  assumes "key_ok k" "length iv = width" "width dvd length buf"
  defines "cs \<equiv> cbc_enc_spec (cipher_fun (fwd k)) iv (chunks width buf)"
  shows "tc_block_cbc_encrypt (fwd k) iv buf (length buf) = (TC_OK, last (iv # cs), concat cs)"
proof -
  have "length buf = width * length (chunks width buf)"
    using assms(3) width_pos by (simp add: length_chunks)
  then have "block_offsets width (length buf) = map ((*) width) [0..<0 + length (chunks width buf)]"
    using block_offsets_mult [OF width_pos, of "length (chunks width buf)"] by simp
  then show ?thesis
    using cbc_encrypt_loop_eq [of k iv "chunks width buf" "[]" 0 "length buf"] assms width_pos
    by (simp add: tc_block_cbc_encrypt_def fwd_size chunks_width cs_def)
qed

lemma ctr_crypt_loop_eq:
  assumes "key_ok k"
  defines "E \<equiv> cipher_fun (fwd k)"
  assumes "ctr_state_at E width t p (s\<lparr>used := u\<rparr>)"
    and "t + blocks_after width (p + length rest) \<le> 256 ^ width"
  shows "\<exists>s'. ctr_crypt_loop (fwd k) s u (dn @ rest) len [length dn..<length dn + length rest] =
           (TC_OK, s', dn @ add_stream (ctr_stream E width t) p rest)
         \<and> ctr_state_at E width t (p + length rest) s'"
  using assms(3,4)
proof (induction rest arbitrary: dn s u p)
  case Nil
  then show ?case by simp
next
  case (Cons b rest)
  let ?ks = "ctr_stream E width t"
  let ?i = "length dn" and ?v = "b XOR ctr_stream E width t p"
  note st = Cons.prems(1) [unfolded ctr_state_at_def]
  have upt: "[?i..<?i + length (b # rest)] = ?i # [Suc ?i..<Suc ?i + length rest]"
    by (simp only: length_Cons upt_add_Suc)
  have upd: "(dn @ b # rest)[?i := ?v] = (dn @ [?v]) @ rest" by simp
  have bound: "t + blocks_after width (Suc p) \<le> 256 ^ width"
    using Cons.prems(2) blocks_after_mono [of "Suc p" "p + length (b # rest)" width] by simp
  have IH: "\<exists>s'. ctr_crypt_loop (fwd k) s1 u1 ((dn @ [?v]) @ rest) len [Suc ?i..<Suc ?i + length rest] =
           (TC_OK, s', (dn @ [?v]) @ add_stream ?ks (Suc p) rest)
         \<and> ctr_state_at E width t (p + length (b # rest)) s'"
    if "ctr_state_at E width t (Suc p) (s1\<lparr>used := u1\<rparr>)" for s1 u1
    using Cons.IH [OF that, of "dn @ [?v]"] Cons.prems(2) by simp
  show ?case
  proof (cases "p mod width = 0")
    case True
    let ?n = "t + p div width"
    have ba: "blocks_after width p = p div width" and bs: "blocks_after width (Suc p) = Suc (p div width)"
      using blocks_after_Suc [OF width_pos] True by simp_all
    have n: "?n < 256 ^ width" using bound bs by simp
    have u: "u = width" and c: "counter s = be_bytes width ?n" and ex: "exhausted s = 0"
      using st True n by (simp_all add: ba used_after_def)
    let ?ks0 = "E (be_bytes width ?n)"
    let ?s1 = "s\<lparr>counter := be_bytes width (Suc ?n), keystream := ?ks0,
        exhausted := exhausted s OR (if Suc ?n = 256 ^ width then 1 else 0)\<rparr>"
    have enc: "encrypt (fwd k) (key (fwd k)) (be_bytes width ?n) = (TC_OK, ?ks0)"
      using assms(1) by (simp add: E_def fwd_eq)
    have v: "?ks0 ! 0 = ctr_stream E width t p" using True by (simp add: ctr_stream_def)
    have nxt: "ctr_state_at E width t (Suc p) (?s1\<lparr>used := 1\<rparr>)"
      using bound True width_pos by (auto simp: ctr_state_at_def bs ex used_after_Suc div_Suc)
    show ?thesis
      using IH [OF nxt] unfolding upt ctr_crypt_loop.simps Let_def fwd_size u c enc increment_be_bytes [OF n]
      by (simp add: v)
  next
    case False
    have ba: "blocks_after width (Suc p) = blocks_after width p"
      using blocks_after_Suc(1) [OF width_pos] False by simp
    have u: "u = p mod width" and un: "u \<noteq> width" and ks: "keystream s = E (be_bytes width (t + p div width))"
      using st False mod_less_divisor [OF width_pos, of p] by (auto simp: used_after_def)
    have v: "keystream s ! u = ctr_stream E width t p" using u ks by (simp add: ctr_stream_def)
    have dv: "Suc p mod width \<noteq> 0 \<Longrightarrow> Suc p div width = p div width"
      by (simp add: div_Suc)
    have nxt: "ctr_state_at E width t (Suc p) (s\<lparr>used := Suc u\<rparr>)"
      using st u ks False dv by (auto simp: ctr_state_at_def ba used_after_Suc [OF width_pos])
    show ?thesis
      using IH [OF nxt] un unfolding upt ctr_crypt_loop.simps Let_def fwd_size by (simp add: v)
  qed
qed

lemma ctr_crypt_eq:
  assumes "key_ok k" and "ctr_state_at (cipher_fun (fwd k)) width t p s"
    and "t + blocks_after width (p + length buf) \<le> 256 ^ width"
  shows "\<exists>s'. tc_block_ctr_crypt (fwd k) s buf (length buf) =
           (TC_OK, s', add_stream (ctr_stream (cipher_fun (fwd k)) width t) p buf)
         \<and> ctr_state_at (cipher_fun (fwd k)) width t (p + length buf) s'"
  using ctr_crypt_loop_eq [where k = k and s = s and u = "used s" and dn = "[]" and rest = buf
      and len = "length buf" and p = p and t = t] assms
  by (simp add: tc_block_ctr_crypt_def)

lemma ctr_request_ok_iff:
  assumes "ctr_state_at E width t p s" "n \<le> SIZE_MAX"
  shows "tc_block_ctr_request_ok s width n \<longleftrightarrow>
           n = 0 \<or> t + blocks_after width (p + n) \<le> 256 ^ width"
proof (cases "n = 0")
  case True
  then show ?thesis using assms used_after_bounds [OF width_pos, of p]
    by (simp add: tc_block_ctr_request_ok_def ctr_state_at_def)
next
  case False
  let ?need = "tc_internal_counter_blocks_needed n width (used s)"
  let ?b = "t + blocks_after width p"
  have st: "?b \<le> 256 ^ width" "counter s = be_bytes width ?b" "used s = used_after width p"
    "exhausted s = (if ?b = 256 ^ width then 1 else 0)"
    using assms(1) by (simp_all add: ctr_state_at_def)
  have add: "blocks_after width p + ?need = blocks_after width (p + n)"
    using blocks_after_add [OF width_pos, of n p] False by (simp add: st(3))
  have "?need = (n - (width - used s) + width - 1) div width"
    using used_after_bounds [OF width_pos, of p] width_pos by (simp add: st(3) counter_blocks_needed_eq)
  also have "\<dots> \<le> n"
  proof -
    have "n - (width - used s) + width - 1 < n * width + width"
      using width_pos False by (cases width) auto
    then show ?thesis
      using width_pos by (simp add: less_mult_imp_div_less Suc_leI flip: less_Suc_eq_le)
  qed
  finally have need: "?need \<le> SIZE_MAX" using assms(2) by simp
  have "tc_block_ctr_request_ok s width n =
      tc_internal_counter_has_blocks (counter s) width ?need (exhausted s)"
    using False used_after_bounds [OF width_pos, of p] st by (simp add: tc_block_ctr_request_ok_def)
  also have "\<dots> = (if exhausted s \<noteq> 0 then ?need = 0 else ?need \<le> 256 ^ width - be_val (counter s))"
    using width_max need by (intro counter_has_blocks_iff) (simp_all add: st TC_BLOCK_MAX_def)
  also have "\<dots> \<longleftrightarrow> t + blocks_after width (p + n) \<le> 256 ^ width"
    using st add by (cases "?b = 256 ^ width") (auto simp: mod_less)
  finally show ?thesis using False by simp
qed

lemma ofb_crypt_loop_eq:
  assumes "key_ok k" "length iv = width"
  defines "E \<equiv> cipher_fun (fwd k)"
  assumes "ofb_state_at E width iv p fb u"
  shows "\<exists>fb' u'. ofb_crypt_loop (fwd k) fb used0 u (dn @ rest) len [length dn..<length dn + length rest] =
           (TC_OK, fb', u', dn @ add_stream (ofb_stream E width iv) p rest)
         \<and> ofb_state_at E width iv (p + length rest) fb' u'"
  using assms(4)
proof (induction rest arbitrary: dn fb u p)
  case Nil
  then show ?case by simp
next
  case (Cons b rest)
  let ?ks = "ofb_stream E width iv"
  let ?i = "length dn" and ?v = "b XOR ofb_stream E width iv p"
  have st: "fb = (E ^^ blocks_after width p) iv" "u = used_after width p"
    using Cons.prems by (simp_all add: ofb_state_at_def)
  have upt: "[?i..<?i + length (b # rest)] = ?i # [Suc ?i..<Suc ?i + length rest]"
    by (simp only: length_Cons upt_add_Suc)
  have IH: "\<exists>fb' u'. ofb_crypt_loop (fwd k) fb1 used0 u1 ((dn @ [?v]) @ rest) len [Suc ?i..<Suc ?i + length rest] =
           (TC_OK, fb', u', (dn @ [?v]) @ add_stream ?ks (Suc p) rest)
         \<and> ofb_state_at E width iv (p + length (b # rest)) fb' u'"
    if "ofb_state_at E width iv (Suc p) fb1 u1" for fb1 u1
    using Cons.IH [OF that, of "dn @ [?v]"] by simp
  have len: "length ((E ^^ n) iv) = width" for n
    by (induction n) (simp_all add: assms(1,2) E_def fwd_length)
  show ?case
  proof (cases "p mod width = 0")
    case True
    have ba: "blocks_after width p = p div width" and bs: "blocks_after width (Suc p) = Suc (p div width)"
      using blocks_after_Suc [OF width_pos] True by simp_all
    have u: "u = width" using st True by (simp add: used_after_def)
    have enc: "encrypt (fwd k) (key (fwd k)) fb = (TC_OK, E fb)"
      using assms(1) len by (simp add: E_def fwd_eq st)
    have v: "E fb ! 0 = ofb_stream E width iv p" using True by (simp add: ofb_stream_def st ba)
    have nxt: "ofb_state_at E width iv (Suc p) (E fb) 1"
      using True by (simp add: ofb_state_at_def bs st ba used_after_Suc [OF width_pos])
    show ?thesis
      using IH [OF nxt] unfolding upt ofb_crypt_loop.simps fwd_size u enc by (simp add: v)
  next
    case False
    have ba: "blocks_after width (Suc p) = blocks_after width p" "blocks_after width p = Suc (p div width)"
      using blocks_after_Suc [OF width_pos] False by simp_all
    have u: "u = p mod width" and un: "u \<noteq> width"
      using st False mod_less_divisor [OF width_pos, of p] by (auto simp: used_after_def)
    have v: "fb ! u = ofb_stream E width iv p" using u ba by (simp add: ofb_stream_def st)
    have nxt: "ofb_state_at E width iv (Suc p) fb (Suc u)"
      using False u by (simp add: ofb_state_at_def ba(1) st used_after_Suc [OF width_pos])
    show ?thesis
      using IH [OF nxt] un unfolding upt ofb_crypt_loop.simps fwd_size by (simp add: v)
  qed
qed

lemma ofb_crypt_eq:
  assumes "key_ok k" "length iv = width" "ofb_state_at (cipher_fun (fwd k)) width iv p fb u"
  shows "\<exists>fb' u'. tc_block_ofb_crypt (fwd k) fb u buf (length buf) =
           (TC_OK, fb', u', add_stream (ofb_stream (cipher_fun (fwd k)) width iv) p buf)
         \<and> ofb_state_at (cipher_fun (fwd k)) width iv (p + length buf) fb' u'"
  using ofb_crypt_loop_eq [where k = k and iv = iv and fb = fb and u = u and dn = "[]" and rest = buf
      and len = "length buf" and p = p and ?used0.0 = u] assms
  by (simp add: tc_block_ofb_crypt_def)

text \<open>On any state of the right sizes a stream request succeeds and keeps the sizes.\<close>

lemma ctr_crypt_loop_total:
  assumes "key_ok k"
  shows "length (counter s) = width \<Longrightarrow> length (keystream s) = width \<Longrightarrow> u \<le> width \<Longrightarrow>
    \<exists>s' m. ctr_crypt_loop (fwd k) s u buf n is = (TC_OK, s', m) \<and> length m = length buf \<and>
      length (counter s') = width \<and> length (keystream s') = width \<and> used s' \<le> width"
proof (induction "is" arbitrary: s u buf)
  case Nil
  then show ?case by simp
next
  case (Cons i "is")
  show ?case
  proof (cases "u = width")
    case True
    let ?inc = "tc_internal_increment_be (counter s) width"
    have enc: "encrypt (fwd k) (key (fwd k)) (counter s) = (TC_OK, cipher_fun (fwd k) (counter s))"
      using assms Cons.prems by (simp add: fwd_eq)
    have inc: "length (fst ?inc) = width"
      using Cons.prems by (simp add: tc_internal_increment_be_def)
    show ?thesis
      using Cons.IH [of "s\<lparr>counter := fst ?inc, keystream := cipher_fun (fwd k) (counter s),
          exhausted := exhausted s OR snd ?inc\<rparr>" 1 "buf[i := buf ! i XOR cipher_fun (fwd k) (counter s) ! 0]"]
        True inc assms Cons.prems width_pos
      by (simp add: enc fwd_size fwd_length Let_def case_prod_beta)
  next
    case False
    then show ?thesis
      using Cons.IH [of s "Suc u" "buf[i := buf ! i XOR keystream s ! u]"] Cons.prems
      by (simp add: fwd_size Let_def)
  qed
qed

lemma ctr_crypt_total:
  assumes "key_ok k" "length (counter s) = width" "length (keystream s) = width" "used s \<le> width"
  obtains s' m where "tc_block_ctr_crypt (fwd k) s buf n = (TC_OK, s', m)" "length m = length buf"
    "length (counter s') = width" "length (keystream s') = width" "used s' \<le> width"
  using ctr_crypt_loop_total [OF assms(1) assms(2-4), of buf n "[0..<n]"] that
  by (auto simp: tc_block_ctr_crypt_def)

lemma ofb_crypt_loop_total:
  assumes "key_ok k"
  shows "length fb = width \<Longrightarrow> u \<le> width \<Longrightarrow>
    \<exists>fb' u' m. ofb_crypt_loop (fwd k) fb used0 u buf n is = (TC_OK, fb', u', m) \<and> length m = length buf \<and>
      length fb' = width \<and> u' \<le> width"
proof (induction "is" arbitrary: fb u buf)
  case Nil
  then show ?case by simp
next
  case (Cons i "is")
  have enc: "encrypt (fwd k) (key (fwd k)) fb = (TC_OK, cipher_fun (fwd k) fb)"
    using assms Cons.prems by (simp add: fwd_eq)
  show ?case
    using Cons.IH [of "cipher_fun (fwd k) fb" 1 "buf[i := buf ! i XOR cipher_fun (fwd k) fb ! 0]"]
      Cons.IH [of fb "Suc u" "buf[i := buf ! i XOR fb ! u]"] assms Cons.prems width_pos
    by (simp add: enc fwd_size fwd_length)
qed

lemma ofb_crypt_total:
  assumes "key_ok k" "length fb = width" "u \<le> width"
  obtains fb' u' m where "tc_block_ofb_crypt (fwd k) fb u buf n = (TC_OK, fb', u', m)"
    "length m = length buf" "length fb' = width" "u' \<le> width"
  using ofb_crypt_loop_total [OF assms, of u buf n "[0..<n]"] that
  by (auto simp: tc_block_ofb_crypt_def)

end

locale invertible_cipher = block_cipher fwd key_ok width
  for fwd :: "'k \<Rightarrow> 'k tc_block_cipher" and key_ok :: "'k \<Rightarrow> bool" and width :: nat +
  fixes bwd :: "'k \<Rightarrow> 'k tc_block_cipher"
  assumes bwd_size: "block_size (bwd k) = width"
    and bwd_ok: "key_ok k \<Longrightarrow> length b = width \<Longrightarrow>
          \<exists>d. decrypt (bwd k) = Some d \<and> d (key (bwd k)) b = (TC_OK, inverse_fun (bwd k) b)"
    and bwd_length: "key_ok k \<Longrightarrow> length b = width \<Longrightarrow> length (inverse_fun (bwd k) b) = width"
    and bwd_fwd: "key_ok k \<Longrightarrow> length b = width \<Longrightarrow> inverse_fun (bwd k) (cipher_fun (fwd k) b) = b"
    and fwd_bwd: "key_ok k \<Longrightarrow> length b = width \<Longrightarrow> cipher_fun (fwd k) (inverse_fun (bwd k) b) = b"
begin

lemma cbc_decrypt_loop_eq:
  assumes "key_ok k" "length iv = width" "blocks_of width bs" "length dn = width * m"
  defines "D \<equiv> inverse_fun (bwd k)"
  shows "cbc_decrypt_loop (bwd k) iv (dn @ concat bs) len (map ((*) width) [m..<m + length bs]) =
           (TC_OK, last (iv # bs), dn @ concat (cbc_dec_spec D iv bs))"
  using assms(1-4)
proof (induction bs arbitrary: iv dn m)
  case Nil
  then show ?case by simp
next
  case (Cons c bs)
  let ?x = "xorl (D c) iv"
  have dc: "length (D c) = width" using Cons.prems by (simp add: D_def bwd_length)
  then have lx: "length ?x = width" using Cons.prems by simp
  have blk: "take width (drop (width * m) (dn @ c @ concat bs)) = c" using Cons.prems by simp
  have x: "tc_internal_xor (D c) iv width = ?x" using Cons.prems dc by (simp add: tc_internal_xor_eq)
  have cpy: "memcpy_at (dn @ c @ concat bs) (width * m) ?x = (dn @ ?x) @ concat bs"
    using Cons.prems lx memcpy_at_append [of ?x c dn] by simp
  have upt: "[m..<m + length (c # bs)] = m # [Suc m..<Suc m + length bs]"
    by (simp only: length_Cons upt_add_Suc)
  obtain d where d: "decrypt (bwd k) = Some d" "d (key (bwd k)) c = (TC_OK, D c)"
    using bwd_ok [of k c] Cons.prems by (auto simp: D_def)
  have "cbc_decrypt_loop (bwd k) c ((dn @ ?x) @ concat bs) len (map ((*) width) [Suc m..<Suc m + length bs]) =
      (TC_OK, last (c # bs), (dn @ ?x) @ concat (cbc_dec_spec D c bs))"
    using Cons.prems lx by (intro Cons.IH) simp_all
  then show ?case
    unfolding upt list.map cbc_decrypt_loop.simps Let_def bwd_size concat.simps blk d option.case prod.case x cpy
    by simp
qed

lemma cbc_decrypt_eq:
  assumes "key_ok k" "length iv = width" "width dvd length buf"
  shows "tc_block_cbc_decrypt (bwd k) iv buf (length buf) =
           (TC_OK, last (iv # chunks width buf),
            concat (cbc_dec_spec (inverse_fun (bwd k)) iv (chunks width buf)))"
proof -
  have "length buf = width * length (chunks width buf)"
    using assms(3) width_pos by (simp add: length_chunks)
  then have "block_offsets width (length buf) = map ((*) width) [0..<0 + length (chunks width buf)]"
    using block_offsets_mult [OF width_pos, of "length (chunks width buf)"] by simp
  then show ?thesis
    using cbc_decrypt_loop_eq [of k iv "chunks width buf" "[]" 0 "length buf"] assms width_pos
    by (simp add: tc_block_cbc_decrypt_def bwd_size chunks_width)
qed

lemma cbc_dec_enc_spec:
  "key_ok k \<Longrightarrow> length iv = width \<Longrightarrow> blocks_of width ps \<Longrightarrow>
   cbc_dec_spec (inverse_fun (bwd k)) iv (cbc_enc_spec (cipher_fun (fwd k)) iv ps) = ps"
proof (induction ps arbitrary: iv)
  case Nil
  then show ?case by simp
next
  case (Cons p ps)
  have "length (xorl p iv) = width" using Cons.prems by simp
  then show ?case using Cons by (simp add: bwd_fwd fwd_length)
qed

lemma cbc_round_trip:
  assumes "key_ok k" "length iv = width" "width dvd length buf"
  shows "\<exists>iv' buf'. tc_block_cbc_encrypt (fwd k) iv buf (length buf) = (TC_OK, iv', buf')
           \<and> length buf' = length buf
           \<and> tc_block_cbc_decrypt (bwd k) iv buf' (length buf') = (TC_OK, iv', buf)"
proof -
  let ?cs = "cbc_enc_spec (cipher_fun (fwd k)) iv (chunks width buf)"
  have w: "blocks_of width (chunks width buf)" using assms width_pos by (simp add: chunks_width)
  have cs: "blocks_of width ?cs" using cbc_spec_width assms w by blast
  have n: "length (cbc_enc_spec E c ps) = length ps" for E c ps
    by (induction ps arbitrary: c) simp_all
  have len: "length (concat ?cs) = length buf"
    using length_concat_blocks [OF cs] length_chunks [OF width_pos assms(3)] n by simp
  have ch: "chunks width (concat ?cs) = ?cs" using cs width_pos by (simp add: chunks_concat)
  show ?thesis
    using cbc_encrypt_eq [OF assms] cbc_decrypt_eq [OF assms(1,2), of "concat ?cs"] len assms(3)
      cbc_dec_enc_spec [OF assms(1,2) w] width_pos
    by (simp add: ch)
qed

end

section \<open>Only the values on blocks matter\<close>

lemma cbc_spec_cong:
  assumes "\<And>b. length b = w \<Longrightarrow> E b = E' b" "\<And>b. length b = w \<Longrightarrow> length (E b) = w"
  shows "blocks_of w ps \<Longrightarrow> length iv = w \<Longrightarrow> cbc_enc_spec E iv ps = cbc_enc_spec E' iv ps"
proof (induction ps arbitrary: iv)
  case (Cons p ps)
  then show ?case using assms(1) [of "xorl p iv"] assms(2) [of "xorl p iv"] by simp
qed simp

lemma last_blocks: "blocks_of w bs \<Longrightarrow> length iv = w \<Longrightarrow> length (last (iv # bs)) = w"
  by (induction bs arbitrary: iv) auto

lemma ctr_cong:
  assumes "\<And>n. E (be_bytes w n) = E' (be_bytes w n)"
  shows "ctr_state_at E w t p s = ctr_state_at E' w t p s" "ctr_stream E w t = ctr_stream E' w t"
  using assms by (auto simp: ctr_state_at_def ctr_stream_def fun_eq_iff)

lemma ofb_cong:
  assumes "\<And>b. length b = w \<Longrightarrow> E b = E' b" "\<And>b. length b = w \<Longrightarrow> length (E b) = w" "length iv = w"
  shows "ofb_state_at E w iv p fb u = ofb_state_at E' w iv p fb u" "ofb_stream E w iv = ofb_stream E' w iv"
proof -
  have "(E ^^ n) iv = (E' ^^ n) iv \<and> length ((E ^^ n) iv) = w" for n
    by (induction n) (use assms in auto)
  then show "ofb_state_at E w iv p fb u = ofb_state_at E' w iv p fb u" "ofb_stream E w iv = ofb_stream E' w iv"
    by (simp_all only: ofb_state_at_def ofb_stream_def fun_eq_iff simp_thms)
qed

end
