(* ===== verification/Concrete.thy ===== *)
theory Concrete
  imports Block_Modes
begin

text \<open>
  Concrete spans and buffers of zero bytes, at addresses clear of a context at 4096, on which the properties of the
  components are applied.
\<close>

definition ex_span :: "addr \<Rightarrow> nat \<Rightarrow> TC_bytes" where
  "ex_span at n = \<lparr>b_data = at, b_length = n, b_mem = replicate n 0\<rparr>"

definition ex_buf :: "addr \<Rightarrow> nat \<Rightarrow> TC_buffer" where
  "ex_buf at n = \<lparr>w_data = at, w_capacity = n, w_mem = replicate n 0\<rparr>"

lemma ex_span_simps [simp]:
  "b_data (ex_span at n) = at" "b_length (ex_span at n) = n" "b_mem (ex_span at n) = replicate n 0"
  "bytes_wf (ex_span at n)"
  by (simp_all add: ex_span_def bytes_wf_def)

lemma ex_buf_simps [simp]:
  "w_data (ex_buf at n) = at" "w_capacity (ex_buf at n) = n" "w_mem (ex_buf at n) = replicate n 0"
  "buffer_wf (ex_buf at n)"
  by (simp_all add: ex_buf_def buffer_wf_def)

lemma ex_clear [simp]:
  "8192 \<le> at \<Longrightarrow> at + n < 2 ^ 32 \<Longrightarrow> tc_internal_span_valid at n"
  "8192 \<le> at \<Longrightarrow> at + n < 2 ^ 32 \<Longrightarrow> m \<le> 4096 \<Longrightarrow> tc_internal_ranges_disjoint 4096 m at n"
  by (auto simp: tc_internal_span_valid_def UINTPTR_MAX_def tc_internal_ranges_disjoint_def)

lemma ex_mode_args [simp]:
  "8192 \<le> at \<Longrightarrow> at + n < 2 ^ 32 \<Longrightarrow> m \<le> 4096 \<Longrightarrow> a dvd n \<Longrightarrow> tc_block_mode_args 4096 m at n a"
  by (auto simp: tc_block_mode_args_def)

end
