(* ===== verification/AES_Sbox.thy ===== *)
theory AES_Sbox
  imports TC_Common
begin

text \<open>
  The three S-box builds of \<^verbatim>\<open>src/src/aes.c\<close> (\<^verbatim>\<open>TC_AES_SBOX_MODE\<close>): fixed tables, computation in
  \<^verbatim>\<open>GF(2^8)\<close> with the same work for every input, and a generated table in RAM that is read by a full
  scan. The global tables and the ready flag of the runtime build are part of \<open>aes_env\<close>, beside the
  build options. The lemmas show that the three builds compute the same substitution and that the
  inverse substitution undoes it.
\<close>

section \<open>Build options and global tables\<close>

datatype aes_sbox_mode = SBOX_MODE_FAST | SBOX_MODE_CONSTANT_TIME | SBOX_MODE_RUNTIME

record aes_env =
  aes_key_bits :: nat
  aes_mode :: aes_sbox_mode
  ram_sbox :: "u8 list"
  ram_rsbox :: "u8 list"
  sbox_ready :: u8

definition sbox :: "u8 list" where
  "sbox =
    [0x63, 0x7c, 0x77, 0x7b, 0xf2, 0x6b, 0x6f, 0xc5, 0x30, 0x01, 0x67, 0x2b, 0xfe, 0xd7, 0xab, 0x76,
     0xca, 0x82, 0xc9, 0x7d, 0xfa, 0x59, 0x47, 0xf0, 0xad, 0xd4, 0xa2, 0xaf, 0x9c, 0xa4, 0x72, 0xc0,
     0xb7, 0xfd, 0x93, 0x26, 0x36, 0x3f, 0xf7, 0xcc, 0x34, 0xa5, 0xe5, 0xf1, 0x71, 0xd8, 0x31, 0x15,
     0x04, 0xc7, 0x23, 0xc3, 0x18, 0x96, 0x05, 0x9a, 0x07, 0x12, 0x80, 0xe2, 0xeb, 0x27, 0xb2, 0x75,
     0x09, 0x83, 0x2c, 0x1a, 0x1b, 0x6e, 0x5a, 0xa0, 0x52, 0x3b, 0xd6, 0xb3, 0x29, 0xe3, 0x2f, 0x84,
     0x53, 0xd1, 0x00, 0xed, 0x20, 0xfc, 0xb1, 0x5b, 0x6a, 0xcb, 0xbe, 0x39, 0x4a, 0x4c, 0x58, 0xcf,
     0xd0, 0xef, 0xaa, 0xfb, 0x43, 0x4d, 0x33, 0x85, 0x45, 0xf9, 0x02, 0x7f, 0x50, 0x3c, 0x9f, 0xa8,
     0x51, 0xa3, 0x40, 0x8f, 0x92, 0x9d, 0x38, 0xf5, 0xbc, 0xb6, 0xda, 0x21, 0x10, 0xff, 0xf3, 0xd2,
     0xcd, 0x0c, 0x13, 0xec, 0x5f, 0x97, 0x44, 0x17, 0xc4, 0xa7, 0x7e, 0x3d, 0x64, 0x5d, 0x19, 0x73,
     0x60, 0x81, 0x4f, 0xdc, 0x22, 0x2a, 0x90, 0x88, 0x46, 0xee, 0xb8, 0x14, 0xde, 0x5e, 0x0b, 0xdb,
     0xe0, 0x32, 0x3a, 0x0a, 0x49, 0x06, 0x24, 0x5c, 0xc2, 0xd3, 0xac, 0x62, 0x91, 0x95, 0xe4, 0x79,
     0xe7, 0xc8, 0x37, 0x6d, 0x8d, 0xd5, 0x4e, 0xa9, 0x6c, 0x56, 0xf4, 0xea, 0x65, 0x7a, 0xae, 0x08,
     0xba, 0x78, 0x25, 0x2e, 0x1c, 0xa6, 0xb4, 0xc6, 0xe8, 0xdd, 0x74, 0x1f, 0x4b, 0xbd, 0x8b, 0x8a,
     0x70, 0x3e, 0xb5, 0x66, 0x48, 0x03, 0xf6, 0x0e, 0x61, 0x35, 0x57, 0xb9, 0x86, 0xc1, 0x1d, 0x9e,
     0xe1, 0xf8, 0x98, 0x11, 0x69, 0xd9, 0x8e, 0x94, 0x9b, 0x1e, 0x87, 0xe9, 0xce, 0x55, 0x28, 0xdf,
     0x8c, 0xa1, 0x89, 0x0d, 0xbf, 0xe6, 0x42, 0x68, 0x41, 0x99, 0x2d, 0x0f, 0xb0, 0x54, 0xbb, 0x16]"

definition rsbox :: "u8 list" where
  "rsbox =
    [0x52, 0x09, 0x6a, 0xd5, 0x30, 0x36, 0xa5, 0x38, 0xbf, 0x40, 0xa3, 0x9e, 0x81, 0xf3, 0xd7, 0xfb,
     0x7c, 0xe3, 0x39, 0x82, 0x9b, 0x2f, 0xff, 0x87, 0x34, 0x8e, 0x43, 0x44, 0xc4, 0xde, 0xe9, 0xcb,
     0x54, 0x7b, 0x94, 0x32, 0xa6, 0xc2, 0x23, 0x3d, 0xee, 0x4c, 0x95, 0x0b, 0x42, 0xfa, 0xc3, 0x4e,
     0x08, 0x2e, 0xa1, 0x66, 0x28, 0xd9, 0x24, 0xb2, 0x76, 0x5b, 0xa2, 0x49, 0x6d, 0x8b, 0xd1, 0x25,
     0x72, 0xf8, 0xf6, 0x64, 0x86, 0x68, 0x98, 0x16, 0xd4, 0xa4, 0x5c, 0xcc, 0x5d, 0x65, 0xb6, 0x92,
     0x6c, 0x70, 0x48, 0x50, 0xfd, 0xed, 0xb9, 0xda, 0x5e, 0x15, 0x46, 0x57, 0xa7, 0x8d, 0x9d, 0x84,
     0x90, 0xd8, 0xab, 0x00, 0x8c, 0xbc, 0xd3, 0x0a, 0xf7, 0xe4, 0x58, 0x05, 0xb8, 0xb3, 0x45, 0x06,
     0xd0, 0x2c, 0x1e, 0x8f, 0xca, 0x3f, 0x0f, 0x02, 0xc1, 0xaf, 0xbd, 0x03, 0x01, 0x13, 0x8a, 0x6b,
     0x3a, 0x91, 0x11, 0x41, 0x4f, 0x67, 0xdc, 0xea, 0x97, 0xf2, 0xcf, 0xce, 0xf0, 0xb4, 0xe6, 0x73,
     0x96, 0xac, 0x74, 0x22, 0xe7, 0xad, 0x35, 0x85, 0xe2, 0xf9, 0x37, 0xe8, 0x1c, 0x75, 0xdf, 0x6e,
     0x47, 0xf1, 0x1a, 0x71, 0x1d, 0x29, 0xc5, 0x89, 0x6f, 0xb7, 0x62, 0x0e, 0xaa, 0x18, 0xbe, 0x1b,
     0xfc, 0x56, 0x3e, 0x4b, 0xc6, 0xd2, 0x79, 0x20, 0x9a, 0xdb, 0xc0, 0xfe, 0x78, 0xcd, 0x5a, 0xf4,
     0x1f, 0xdd, 0xa8, 0x33, 0x88, 0x07, 0xc7, 0x31, 0xb1, 0x12, 0x10, 0x59, 0x27, 0x80, 0xec, 0x5f,
     0x60, 0x51, 0x7f, 0xa9, 0x19, 0xb5, 0x4a, 0x0d, 0x2d, 0xe5, 0x7a, 0x9f, 0x93, 0xc9, 0x9c, 0xef,
     0xa0, 0xe0, 0x3b, 0x4d, 0xae, 0x2a, 0xf5, 0xb0, 0xc8, 0xeb, 0xbb, 0x3c, 0x83, 0x53, 0x99, 0x61,
     0x17, 0x2b, 0x04, 0x7e, 0xba, 0x77, 0xd6, 0x26, 0xe1, 0x69, 0x14, 0x63, 0x55, 0x21, 0x0c, 0x7d]"

section \<open>Computed substitution\<close>

definition sbox_multiply_step :: "u8 \<times> u8 \<times> u8 \<Rightarrow> u8 \<times> u8 \<times> u8" where
  "sbox_multiply_step s =
     (case s of (result, a, b) \<Rightarrow>
       (result XOR ((0 - (b AND 1)) AND a),
        push_bit 1 a XOR (0x1b AND (0 - drop_bit 7 a)),
        drop_bit 1 b))"

definition tc_aes_sbox_multiply :: "u8 \<Rightarrow> u8 \<Rightarrow> u8" where
  "tc_aes_sbox_multiply a b = fst (fold (\<lambda>i. sbox_multiply_step) [0..<8] (0, a, b))"

function sbox_inverse_loop :: "nat \<Rightarrow> u8 \<Rightarrow> u8 \<Rightarrow> u8" where
  "sbox_inverse_loop exponent result factor =
     (if exponent \<noteq> 0
      then sbox_inverse_loop (exponent div 2)
             (if odd exponent then tc_aes_sbox_multiply result factor else result)
             (tc_aes_sbox_multiply factor factor)
      else result)"
  by pat_completeness auto
termination
  by (relation "measure (\<lambda>(exponent, result, factor). exponent)") auto

declare sbox_inverse_loop.simps [simp del]

definition tc_aes_sbox_inverse :: "u8 \<Rightarrow> u8" where
  "tc_aes_sbox_inverse value = sbox_inverse_loop 254 1 value"

definition tc_aes_sbox_rotate_left :: "u8 \<Rightarrow> nat \<Rightarrow> u8" where
  "tc_aes_sbox_rotate_left value count = push_bit count value OR drop_bit (8 - count) value"

definition sbox_affine :: "u8 \<Rightarrow> u8" where
  "sbox_affine inv_value =
     inv_value XOR tc_aes_sbox_rotate_left inv_value 1 XOR tc_aes_sbox_rotate_left inv_value 2 XOR
     tc_aes_sbox_rotate_left inv_value 3 XOR tc_aes_sbox_rotate_left inv_value 4 XOR 0x63"

section \<open>Generated tables\<close>

definition TC_AES_init_sbox :: "aes_env \<Rightarrow> aes_env" where
  "TC_AES_init_sbox e =
     (let s = fold (\<lambda>i t. t[i := sbox_affine (tc_aes_sbox_inverse (of_nat i))]) [0..<256] (ram_sbox e);
          r = fold (\<lambda>i t. t[unat (s ! i) := of_nat i]) [0..<256] (ram_rsbox e)
      in e\<lparr>ram_sbox := s, ram_rsbox := r, sbox_ready := 1\<rparr>)"

definition tc_aes_ct_eq_mask_u8 :: "u8 \<Rightarrow> u8 \<Rightarrow> u8" where
  "tc_aes_ct_eq_mask_u8 a b =
     (let difference = ucast (a XOR b) :: u16 in ucast (drop_bit 8 ((ucast difference :: u32) - 1)))"

definition tc_aes_table_scan :: "u8 list \<Rightarrow> u8 \<Rightarrow> u8" where
  "tc_aes_table_scan table index =
     fold (\<lambda>i value. value OR (table ! i AND tc_aes_ct_eq_mask_u8 (of_nat i) index)) [0..<256] 0"

section \<open>The substitutions\<close>

definition tc_aes_xtime :: "u8 \<Rightarrow> u8" where
  "tc_aes_xtime x = push_bit 1 x XOR ((drop_bit 7 x AND 1) * 0x1b)"

definition tc_aes_sbox_value :: "aes_env \<Rightarrow> u8 \<Rightarrow> u8" where
  "tc_aes_sbox_value e num =
     (case aes_mode e of
        SBOX_MODE_FAST \<Rightarrow> sbox ! unat num
      | SBOX_MODE_CONSTANT_TIME \<Rightarrow> sbox_affine (tc_aes_sbox_inverse num)
      | SBOX_MODE_RUNTIME \<Rightarrow> tc_aes_table_scan (ram_sbox e) num)"

definition sbox_affine_inverse :: "u8 \<Rightarrow> u8" where
  "sbox_affine_inverse num =
     tc_aes_sbox_rotate_left num 1 XOR tc_aes_sbox_rotate_left num 3 XOR
     tc_aes_sbox_rotate_left num 6 XOR 0x05"

definition tc_aes_inverse_sbox_value :: "aes_env \<Rightarrow> u8 \<Rightarrow> u8" where
  "tc_aes_inverse_sbox_value e num =
     (case aes_mode e of
        SBOX_MODE_FAST \<Rightarrow> rsbox ! unat num
      | SBOX_MODE_CONSTANT_TIME \<Rightarrow>
          tc_aes_sbox_inverse (sbox_affine_inverse num)
      | SBOX_MODE_RUNTIME \<Rightarrow> tc_aes_table_scan (ram_rsbox e) num)"

text \<open>The build is usable: in the runtime build the tables are the generated ones.\<close>

definition aes_env_ready :: "aes_env \<Rightarrow> bool" where
  "aes_env_ready e \<longleftrightarrow>
     (aes_mode e = SBOX_MODE_RUNTIME \<longrightarrow> ram_sbox e = sbox \<and> ram_rsbox e = rsbox)"

text \<open>
  What holds of the global tables at any time: they have their C size, and once the ready flag is
  set they hold the substitution.
\<close>

definition aes_env_wf :: "aes_env \<Rightarrow> bool" where
  "aes_env_wf e \<longleftrightarrow> length (ram_sbox e) = 256 \<and> length (ram_rsbox e) = 256 \<and>
     aes_key_bits e \<in> {128, 192, 256} \<and>
     (sbox_ready e \<noteq> 0 \<longrightarrow> ram_sbox e = sbox \<and> ram_rsbox e = rsbox)"

section \<open>Evaluating the computed substitution\<close>

lemma drop_bit_7_u8: "drop_bit 7 (a :: u8) = (if bit a 7 then 1 else 0)"
proof (rule bit_word_eqI)
  fix n assume "n < LENGTH(8)"
  have "bit a (7 + n) \<Longrightarrow> n = 0" using bit_imp_le_length [of a "7 + n"] by simp
  then show "bit (drop_bit 7 a) n = bit (if bit a 7 then 1 else 0 :: u8) n"
    by (auto simp: bit_simps bit_1_iff)
qed

lemma and_1_u8: "(b :: u8) AND 1 = (if odd b then 1 else 0)"
  by (simp add: and_one_eq mod_2_eq_odd)

lemma sbox_multiply_step_eval:
  "sbox_multiply_step (r, a, b) = (if odd b then r XOR a else r, tc_aes_xtime a, drop_bit 1 b)"
  by (simp add: sbox_multiply_step_def tc_aes_xtime_def drop_bit_7_u8 and_1_u8)

lemma sbox_multiply_eval:
  "tc_aes_sbox_multiply a b =
     fst (sbox_multiply_step (sbox_multiply_step (sbox_multiply_step (sbox_multiply_step
       (sbox_multiply_step (sbox_multiply_step (sbox_multiply_step (sbox_multiply_step (0, a, b)))))))))"
  by (simp add: tc_aes_sbox_multiply_def upt_rec numeral_eq_Suc)

lemma sbox_inverse_loop_eval:
  "sbox_inverse_loop 254 r f = sbox_inverse_loop 127 r (tc_aes_sbox_multiply f f)"
  "sbox_inverse_loop 127 r f = sbox_inverse_loop 63 (tc_aes_sbox_multiply r f) (tc_aes_sbox_multiply f f)"
  "sbox_inverse_loop 63 r f = sbox_inverse_loop 31 (tc_aes_sbox_multiply r f) (tc_aes_sbox_multiply f f)"
  "sbox_inverse_loop 31 r f = sbox_inverse_loop 15 (tc_aes_sbox_multiply r f) (tc_aes_sbox_multiply f f)"
  "sbox_inverse_loop 15 r f = sbox_inverse_loop 7 (tc_aes_sbox_multiply r f) (tc_aes_sbox_multiply f f)"
  "sbox_inverse_loop 7 r f = sbox_inverse_loop 3 (tc_aes_sbox_multiply r f) (tc_aes_sbox_multiply f f)"
  "sbox_inverse_loop 3 r f = sbox_inverse_loop (Suc 0) (tc_aes_sbox_multiply r f) (tc_aes_sbox_multiply f f)"
  "sbox_inverse_loop (Suc 0) r f = sbox_inverse_loop 0 (tc_aes_sbox_multiply r f) (tc_aes_sbox_multiply f f)"
  "sbox_inverse_loop 0 r f = r"
  by (subst sbox_inverse_loop.simps; simp)+

lemma xtime_rows:
  "tc_aes_xtime 0 = 0" "tc_aes_xtime 1 = 2" "tc_aes_xtime 2 = 4" "tc_aes_xtime 3 = 6"
  "tc_aes_xtime 4 = 8" "tc_aes_xtime 5 = 10" "tc_aes_xtime 6 = 12" "tc_aes_xtime 7 = 14"
  "tc_aes_xtime 8 = 16" "tc_aes_xtime 9 = 18" "tc_aes_xtime 10 = 20" "tc_aes_xtime 11 = 22"
  "tc_aes_xtime 12 = 24" "tc_aes_xtime 13 = 26" "tc_aes_xtime 14 = 28" "tc_aes_xtime 15 = 30"
  "tc_aes_xtime 16 = 32" "tc_aes_xtime 17 = 34" "tc_aes_xtime 18 = 36" "tc_aes_xtime 19 = 38"
  "tc_aes_xtime 20 = 40" "tc_aes_xtime 21 = 42" "tc_aes_xtime 22 = 44" "tc_aes_xtime 23 = 46"
  "tc_aes_xtime 24 = 48" "tc_aes_xtime 25 = 50" "tc_aes_xtime 26 = 52" "tc_aes_xtime 27 = 54"
  "tc_aes_xtime 28 = 56" "tc_aes_xtime 29 = 58" "tc_aes_xtime 30 = 60" "tc_aes_xtime 31 = 62"
  "tc_aes_xtime 32 = 64" "tc_aes_xtime 33 = 66" "tc_aes_xtime 34 = 68" "tc_aes_xtime 35 = 70"
  "tc_aes_xtime 36 = 72" "tc_aes_xtime 37 = 74" "tc_aes_xtime 38 = 76" "tc_aes_xtime 39 = 78"
  "tc_aes_xtime 40 = 80" "tc_aes_xtime 41 = 82" "tc_aes_xtime 42 = 84" "tc_aes_xtime 43 = 86"
  "tc_aes_xtime 44 = 88" "tc_aes_xtime 45 = 90" "tc_aes_xtime 46 = 92" "tc_aes_xtime 47 = 94"
  "tc_aes_xtime 48 = 96" "tc_aes_xtime 49 = 98" "tc_aes_xtime 50 = 100" "tc_aes_xtime 51 = 102"
  "tc_aes_xtime 52 = 104" "tc_aes_xtime 53 = 106" "tc_aes_xtime 54 = 108" "tc_aes_xtime 55 = 110"
  "tc_aes_xtime 56 = 112" "tc_aes_xtime 57 = 114" "tc_aes_xtime 58 = 116" "tc_aes_xtime 59 = 118"
  "tc_aes_xtime 60 = 120" "tc_aes_xtime 61 = 122" "tc_aes_xtime 62 = 124" "tc_aes_xtime 63 = 126"
  "tc_aes_xtime 64 = 128" "tc_aes_xtime 65 = 130" "tc_aes_xtime 66 = 132" "tc_aes_xtime 67 = 134"
  "tc_aes_xtime 68 = 136" "tc_aes_xtime 69 = 138" "tc_aes_xtime 70 = 140" "tc_aes_xtime 71 = 142"
  "tc_aes_xtime 72 = 144" "tc_aes_xtime 73 = 146" "tc_aes_xtime 74 = 148" "tc_aes_xtime 75 = 150"
  "tc_aes_xtime 76 = 152" "tc_aes_xtime 77 = 154" "tc_aes_xtime 78 = 156" "tc_aes_xtime 79 = 158"
  "tc_aes_xtime 80 = 160" "tc_aes_xtime 81 = 162" "tc_aes_xtime 82 = 164" "tc_aes_xtime 83 = 166"
  "tc_aes_xtime 84 = 168" "tc_aes_xtime 85 = 170" "tc_aes_xtime 86 = 172" "tc_aes_xtime 87 = 174"
  "tc_aes_xtime 88 = 176" "tc_aes_xtime 89 = 178" "tc_aes_xtime 90 = 180" "tc_aes_xtime 91 = 182"
  "tc_aes_xtime 92 = 184" "tc_aes_xtime 93 = 186" "tc_aes_xtime 94 = 188" "tc_aes_xtime 95 = 190"
  "tc_aes_xtime 96 = 192" "tc_aes_xtime 97 = 194" "tc_aes_xtime 98 = 196" "tc_aes_xtime 99 = 198"
  "tc_aes_xtime 100 = 200" "tc_aes_xtime 101 = 202" "tc_aes_xtime 102 = 204" "tc_aes_xtime 103 = 206"
  "tc_aes_xtime 104 = 208" "tc_aes_xtime 105 = 210" "tc_aes_xtime 106 = 212" "tc_aes_xtime 107 = 214"
  "tc_aes_xtime 108 = 216" "tc_aes_xtime 109 = 218" "tc_aes_xtime 110 = 220" "tc_aes_xtime 111 = 222"
  "tc_aes_xtime 112 = 224" "tc_aes_xtime 113 = 226" "tc_aes_xtime 114 = 228" "tc_aes_xtime 115 = 230"
  "tc_aes_xtime 116 = 232" "tc_aes_xtime 117 = 234" "tc_aes_xtime 118 = 236" "tc_aes_xtime 119 = 238"
  "tc_aes_xtime 120 = 240" "tc_aes_xtime 121 = 242" "tc_aes_xtime 122 = 244" "tc_aes_xtime 123 = 246"
  "tc_aes_xtime 124 = 248" "tc_aes_xtime 125 = 250" "tc_aes_xtime 126 = 252" "tc_aes_xtime 127 = 254"
  "tc_aes_xtime 128 = 27" "tc_aes_xtime 129 = 25" "tc_aes_xtime 130 = 31" "tc_aes_xtime 131 = 29"
  "tc_aes_xtime 132 = 19" "tc_aes_xtime 133 = 17" "tc_aes_xtime 134 = 23" "tc_aes_xtime 135 = 21"
  "tc_aes_xtime 136 = 11" "tc_aes_xtime 137 = 9" "tc_aes_xtime 138 = 15" "tc_aes_xtime 139 = 13"
  "tc_aes_xtime 140 = 3" "tc_aes_xtime 141 = 1" "tc_aes_xtime 142 = 7" "tc_aes_xtime 143 = 5"
  "tc_aes_xtime 144 = 59" "tc_aes_xtime 145 = 57" "tc_aes_xtime 146 = 63" "tc_aes_xtime 147 = 61"
  "tc_aes_xtime 148 = 51" "tc_aes_xtime 149 = 49" "tc_aes_xtime 150 = 55" "tc_aes_xtime 151 = 53"
  "tc_aes_xtime 152 = 43" "tc_aes_xtime 153 = 41" "tc_aes_xtime 154 = 47" "tc_aes_xtime 155 = 45"
  "tc_aes_xtime 156 = 35" "tc_aes_xtime 157 = 33" "tc_aes_xtime 158 = 39" "tc_aes_xtime 159 = 37"
  "tc_aes_xtime 160 = 91" "tc_aes_xtime 161 = 89" "tc_aes_xtime 162 = 95" "tc_aes_xtime 163 = 93"
  "tc_aes_xtime 164 = 83" "tc_aes_xtime 165 = 81" "tc_aes_xtime 166 = 87" "tc_aes_xtime 167 = 85"
  "tc_aes_xtime 168 = 75" "tc_aes_xtime 169 = 73" "tc_aes_xtime 170 = 79" "tc_aes_xtime 171 = 77"
  "tc_aes_xtime 172 = 67" "tc_aes_xtime 173 = 65" "tc_aes_xtime 174 = 71" "tc_aes_xtime 175 = 69"
  "tc_aes_xtime 176 = 123" "tc_aes_xtime 177 = 121" "tc_aes_xtime 178 = 127" "tc_aes_xtime 179 = 125"
  "tc_aes_xtime 180 = 115" "tc_aes_xtime 181 = 113" "tc_aes_xtime 182 = 119" "tc_aes_xtime 183 = 117"
  "tc_aes_xtime 184 = 107" "tc_aes_xtime 185 = 105" "tc_aes_xtime 186 = 111" "tc_aes_xtime 187 = 109"
  "tc_aes_xtime 188 = 99" "tc_aes_xtime 189 = 97" "tc_aes_xtime 190 = 103" "tc_aes_xtime 191 = 101"
  "tc_aes_xtime 192 = 155" "tc_aes_xtime 193 = 153" "tc_aes_xtime 194 = 159" "tc_aes_xtime 195 = 157"
  "tc_aes_xtime 196 = 147" "tc_aes_xtime 197 = 145" "tc_aes_xtime 198 = 151" "tc_aes_xtime 199 = 149"
  "tc_aes_xtime 200 = 139" "tc_aes_xtime 201 = 137" "tc_aes_xtime 202 = 143" "tc_aes_xtime 203 = 141"
  "tc_aes_xtime 204 = 131" "tc_aes_xtime 205 = 129" "tc_aes_xtime 206 = 135" "tc_aes_xtime 207 = 133"
  "tc_aes_xtime 208 = 187" "tc_aes_xtime 209 = 185" "tc_aes_xtime 210 = 191" "tc_aes_xtime 211 = 189"
  "tc_aes_xtime 212 = 179" "tc_aes_xtime 213 = 177" "tc_aes_xtime 214 = 183" "tc_aes_xtime 215 = 181"
  "tc_aes_xtime 216 = 171" "tc_aes_xtime 217 = 169" "tc_aes_xtime 218 = 175" "tc_aes_xtime 219 = 173"
  "tc_aes_xtime 220 = 163" "tc_aes_xtime 221 = 161" "tc_aes_xtime 222 = 167" "tc_aes_xtime 223 = 165"
  "tc_aes_xtime 224 = 219" "tc_aes_xtime 225 = 217" "tc_aes_xtime 226 = 223" "tc_aes_xtime 227 = 221"
  "tc_aes_xtime 228 = 211" "tc_aes_xtime 229 = 209" "tc_aes_xtime 230 = 215" "tc_aes_xtime 231 = 213"
  "tc_aes_xtime 232 = 203" "tc_aes_xtime 233 = 201" "tc_aes_xtime 234 = 207" "tc_aes_xtime 235 = 205"
  "tc_aes_xtime 236 = 195" "tc_aes_xtime 237 = 193" "tc_aes_xtime 238 = 199" "tc_aes_xtime 239 = 197"
  "tc_aes_xtime 240 = 251" "tc_aes_xtime 241 = 249" "tc_aes_xtime 242 = 255" "tc_aes_xtime 243 = 253"
  "tc_aes_xtime 244 = 243" "tc_aes_xtime 245 = 241" "tc_aes_xtime 246 = 247" "tc_aes_xtime 247 = 245"
  "tc_aes_xtime 248 = 235" "tc_aes_xtime 249 = 233" "tc_aes_xtime 250 = 239" "tc_aes_xtime 251 = 237"
  "tc_aes_xtime 252 = 227" "tc_aes_xtime 253 = 225" "tc_aes_xtime 254 = 231" "tc_aes_xtime 255 = 229"
  by (simp_all add: tc_aes_xtime_def)

lemmas sbox_eval = tc_aes_sbox_inverse_def sbox_inverse_loop_eval sbox_multiply_eval
  sbox_multiply_step_eval xtime_rows

lemma sbox_inverse_rows_0:
  "tc_aes_sbox_inverse 0 = 0" "tc_aes_sbox_inverse 1 = 1" "tc_aes_sbox_inverse 2 = 141" "tc_aes_sbox_inverse 3 = 246"
  "tc_aes_sbox_inverse 4 = 203" "tc_aes_sbox_inverse 5 = 82" "tc_aes_sbox_inverse 6 = 123" "tc_aes_sbox_inverse 7 = 209"
  "tc_aes_sbox_inverse 8 = 232" "tc_aes_sbox_inverse 9 = 79" "tc_aes_sbox_inverse 10 = 41" "tc_aes_sbox_inverse 11 = 192"
  "tc_aes_sbox_inverse 12 = 176" "tc_aes_sbox_inverse 13 = 225" "tc_aes_sbox_inverse 14 = 229" "tc_aes_sbox_inverse 15 = 199"
  by (simp_all add: sbox_eval)

lemma sbox_inverse_rows_1:
  "tc_aes_sbox_inverse 16 = 116" "tc_aes_sbox_inverse 17 = 180" "tc_aes_sbox_inverse 18 = 170" "tc_aes_sbox_inverse 19 = 75"
  "tc_aes_sbox_inverse 20 = 153" "tc_aes_sbox_inverse 21 = 43" "tc_aes_sbox_inverse 22 = 96" "tc_aes_sbox_inverse 23 = 95"
  "tc_aes_sbox_inverse 24 = 88" "tc_aes_sbox_inverse 25 = 63" "tc_aes_sbox_inverse 26 = 253" "tc_aes_sbox_inverse 27 = 204"
  "tc_aes_sbox_inverse 28 = 255" "tc_aes_sbox_inverse 29 = 64" "tc_aes_sbox_inverse 30 = 238" "tc_aes_sbox_inverse 31 = 178"
  by (simp_all add: sbox_eval)

lemma sbox_inverse_rows_2:
  "tc_aes_sbox_inverse 32 = 58" "tc_aes_sbox_inverse 33 = 110" "tc_aes_sbox_inverse 34 = 90" "tc_aes_sbox_inverse 35 = 241"
  "tc_aes_sbox_inverse 36 = 85" "tc_aes_sbox_inverse 37 = 77" "tc_aes_sbox_inverse 38 = 168" "tc_aes_sbox_inverse 39 = 201"
  "tc_aes_sbox_inverse 40 = 193" "tc_aes_sbox_inverse 41 = 10" "tc_aes_sbox_inverse 42 = 152" "tc_aes_sbox_inverse 43 = 21"
  "tc_aes_sbox_inverse 44 = 48" "tc_aes_sbox_inverse 45 = 68" "tc_aes_sbox_inverse 46 = 162" "tc_aes_sbox_inverse 47 = 194"
  by (simp_all add: sbox_eval)

lemma sbox_inverse_rows_3:
  "tc_aes_sbox_inverse 48 = 44" "tc_aes_sbox_inverse 49 = 69" "tc_aes_sbox_inverse 50 = 146" "tc_aes_sbox_inverse 51 = 108"
  "tc_aes_sbox_inverse 52 = 243" "tc_aes_sbox_inverse 53 = 57" "tc_aes_sbox_inverse 54 = 102" "tc_aes_sbox_inverse 55 = 66"
  "tc_aes_sbox_inverse 56 = 242" "tc_aes_sbox_inverse 57 = 53" "tc_aes_sbox_inverse 58 = 32" "tc_aes_sbox_inverse 59 = 111"
  "tc_aes_sbox_inverse 60 = 119" "tc_aes_sbox_inverse 61 = 187" "tc_aes_sbox_inverse 62 = 89" "tc_aes_sbox_inverse 63 = 25"
  by (simp_all add: sbox_eval)

lemma sbox_inverse_rows_4:
  "tc_aes_sbox_inverse 64 = 29" "tc_aes_sbox_inverse 65 = 254" "tc_aes_sbox_inverse 66 = 55" "tc_aes_sbox_inverse 67 = 103"
  "tc_aes_sbox_inverse 68 = 45" "tc_aes_sbox_inverse 69 = 49" "tc_aes_sbox_inverse 70 = 245" "tc_aes_sbox_inverse 71 = 105"
  "tc_aes_sbox_inverse 72 = 167" "tc_aes_sbox_inverse 73 = 100" "tc_aes_sbox_inverse 74 = 171" "tc_aes_sbox_inverse 75 = 19"
  "tc_aes_sbox_inverse 76 = 84" "tc_aes_sbox_inverse 77 = 37" "tc_aes_sbox_inverse 78 = 233" "tc_aes_sbox_inverse 79 = 9"
  by (simp_all add: sbox_eval)

lemma sbox_inverse_rows_5:
  "tc_aes_sbox_inverse 80 = 237" "tc_aes_sbox_inverse 81 = 92" "tc_aes_sbox_inverse 82 = 5" "tc_aes_sbox_inverse 83 = 202"
  "tc_aes_sbox_inverse 84 = 76" "tc_aes_sbox_inverse 85 = 36" "tc_aes_sbox_inverse 86 = 135" "tc_aes_sbox_inverse 87 = 191"
  "tc_aes_sbox_inverse 88 = 24" "tc_aes_sbox_inverse 89 = 62" "tc_aes_sbox_inverse 90 = 34" "tc_aes_sbox_inverse 91 = 240"
  "tc_aes_sbox_inverse 92 = 81" "tc_aes_sbox_inverse 93 = 236" "tc_aes_sbox_inverse 94 = 97" "tc_aes_sbox_inverse 95 = 23"
  by (simp_all add: sbox_eval)

lemma sbox_inverse_rows_6:
  "tc_aes_sbox_inverse 96 = 22" "tc_aes_sbox_inverse 97 = 94" "tc_aes_sbox_inverse 98 = 175" "tc_aes_sbox_inverse 99 = 211"
  "tc_aes_sbox_inverse 100 = 73" "tc_aes_sbox_inverse 101 = 166" "tc_aes_sbox_inverse 102 = 54" "tc_aes_sbox_inverse 103 = 67"
  "tc_aes_sbox_inverse 104 = 244" "tc_aes_sbox_inverse 105 = 71" "tc_aes_sbox_inverse 106 = 145" "tc_aes_sbox_inverse 107 = 223"
  "tc_aes_sbox_inverse 108 = 51" "tc_aes_sbox_inverse 109 = 147" "tc_aes_sbox_inverse 110 = 33" "tc_aes_sbox_inverse 111 = 59"
  by (simp_all add: sbox_eval)

lemma sbox_inverse_rows_7:
  "tc_aes_sbox_inverse 112 = 121" "tc_aes_sbox_inverse 113 = 183" "tc_aes_sbox_inverse 114 = 151" "tc_aes_sbox_inverse 115 = 133"
  "tc_aes_sbox_inverse 116 = 16" "tc_aes_sbox_inverse 117 = 181" "tc_aes_sbox_inverse 118 = 186" "tc_aes_sbox_inverse 119 = 60"
  "tc_aes_sbox_inverse 120 = 182" "tc_aes_sbox_inverse 121 = 112" "tc_aes_sbox_inverse 122 = 208" "tc_aes_sbox_inverse 123 = 6"
  "tc_aes_sbox_inverse 124 = 161" "tc_aes_sbox_inverse 125 = 250" "tc_aes_sbox_inverse 126 = 129" "tc_aes_sbox_inverse 127 = 130"
  by (simp_all add: sbox_eval)

lemma sbox_inverse_rows_8:
  "tc_aes_sbox_inverse 128 = 131" "tc_aes_sbox_inverse 129 = 126" "tc_aes_sbox_inverse 130 = 127" "tc_aes_sbox_inverse 131 = 128"
  "tc_aes_sbox_inverse 132 = 150" "tc_aes_sbox_inverse 133 = 115" "tc_aes_sbox_inverse 134 = 190" "tc_aes_sbox_inverse 135 = 86"
  "tc_aes_sbox_inverse 136 = 155" "tc_aes_sbox_inverse 137 = 158" "tc_aes_sbox_inverse 138 = 149" "tc_aes_sbox_inverse 139 = 217"
  "tc_aes_sbox_inverse 140 = 247" "tc_aes_sbox_inverse 141 = 2" "tc_aes_sbox_inverse 142 = 185" "tc_aes_sbox_inverse 143 = 164"
  by (simp_all add: sbox_eval)

lemma sbox_inverse_rows_9:
  "tc_aes_sbox_inverse 144 = 222" "tc_aes_sbox_inverse 145 = 106" "tc_aes_sbox_inverse 146 = 50" "tc_aes_sbox_inverse 147 = 109"
  "tc_aes_sbox_inverse 148 = 216" "tc_aes_sbox_inverse 149 = 138" "tc_aes_sbox_inverse 150 = 132" "tc_aes_sbox_inverse 151 = 114"
  "tc_aes_sbox_inverse 152 = 42" "tc_aes_sbox_inverse 153 = 20" "tc_aes_sbox_inverse 154 = 159" "tc_aes_sbox_inverse 155 = 136"
  "tc_aes_sbox_inverse 156 = 249" "tc_aes_sbox_inverse 157 = 220" "tc_aes_sbox_inverse 158 = 137" "tc_aes_sbox_inverse 159 = 154"
  by (simp_all add: sbox_eval)

lemma sbox_inverse_rows_a:
  "tc_aes_sbox_inverse 160 = 251" "tc_aes_sbox_inverse 161 = 124" "tc_aes_sbox_inverse 162 = 46" "tc_aes_sbox_inverse 163 = 195"
  "tc_aes_sbox_inverse 164 = 143" "tc_aes_sbox_inverse 165 = 184" "tc_aes_sbox_inverse 166 = 101" "tc_aes_sbox_inverse 167 = 72"
  "tc_aes_sbox_inverse 168 = 38" "tc_aes_sbox_inverse 169 = 200" "tc_aes_sbox_inverse 170 = 18" "tc_aes_sbox_inverse 171 = 74"
  "tc_aes_sbox_inverse 172 = 206" "tc_aes_sbox_inverse 173 = 231" "tc_aes_sbox_inverse 174 = 210" "tc_aes_sbox_inverse 175 = 98"
  by (simp_all add: sbox_eval)

lemma sbox_inverse_rows_b:
  "tc_aes_sbox_inverse 176 = 12" "tc_aes_sbox_inverse 177 = 224" "tc_aes_sbox_inverse 178 = 31" "tc_aes_sbox_inverse 179 = 239"
  "tc_aes_sbox_inverse 180 = 17" "tc_aes_sbox_inverse 181 = 117" "tc_aes_sbox_inverse 182 = 120" "tc_aes_sbox_inverse 183 = 113"
  "tc_aes_sbox_inverse 184 = 165" "tc_aes_sbox_inverse 185 = 142" "tc_aes_sbox_inverse 186 = 118" "tc_aes_sbox_inverse 187 = 61"
  "tc_aes_sbox_inverse 188 = 189" "tc_aes_sbox_inverse 189 = 188" "tc_aes_sbox_inverse 190 = 134" "tc_aes_sbox_inverse 191 = 87"
  by (simp_all add: sbox_eval)

lemma sbox_inverse_rows_c:
  "tc_aes_sbox_inverse 192 = 11" "tc_aes_sbox_inverse 193 = 40" "tc_aes_sbox_inverse 194 = 47" "tc_aes_sbox_inverse 195 = 163"
  "tc_aes_sbox_inverse 196 = 218" "tc_aes_sbox_inverse 197 = 212" "tc_aes_sbox_inverse 198 = 228" "tc_aes_sbox_inverse 199 = 15"
  "tc_aes_sbox_inverse 200 = 169" "tc_aes_sbox_inverse 201 = 39" "tc_aes_sbox_inverse 202 = 83" "tc_aes_sbox_inverse 203 = 4"
  "tc_aes_sbox_inverse 204 = 27" "tc_aes_sbox_inverse 205 = 252" "tc_aes_sbox_inverse 206 = 172" "tc_aes_sbox_inverse 207 = 230"
  by (simp_all add: sbox_eval)

lemma sbox_inverse_rows_d:
  "tc_aes_sbox_inverse 208 = 122" "tc_aes_sbox_inverse 209 = 7" "tc_aes_sbox_inverse 210 = 174" "tc_aes_sbox_inverse 211 = 99"
  "tc_aes_sbox_inverse 212 = 197" "tc_aes_sbox_inverse 213 = 219" "tc_aes_sbox_inverse 214 = 226" "tc_aes_sbox_inverse 215 = 234"
  "tc_aes_sbox_inverse 216 = 148" "tc_aes_sbox_inverse 217 = 139" "tc_aes_sbox_inverse 218 = 196" "tc_aes_sbox_inverse 219 = 213"
  "tc_aes_sbox_inverse 220 = 157" "tc_aes_sbox_inverse 221 = 248" "tc_aes_sbox_inverse 222 = 144" "tc_aes_sbox_inverse 223 = 107"
  by (simp_all add: sbox_eval)

lemma sbox_inverse_rows_e:
  "tc_aes_sbox_inverse 224 = 177" "tc_aes_sbox_inverse 225 = 13" "tc_aes_sbox_inverse 226 = 214" "tc_aes_sbox_inverse 227 = 235"
  "tc_aes_sbox_inverse 228 = 198" "tc_aes_sbox_inverse 229 = 14" "tc_aes_sbox_inverse 230 = 207" "tc_aes_sbox_inverse 231 = 173"
  "tc_aes_sbox_inverse 232 = 8" "tc_aes_sbox_inverse 233 = 78" "tc_aes_sbox_inverse 234 = 215" "tc_aes_sbox_inverse 235 = 227"
  "tc_aes_sbox_inverse 236 = 93" "tc_aes_sbox_inverse 237 = 80" "tc_aes_sbox_inverse 238 = 30" "tc_aes_sbox_inverse 239 = 179"
  by (simp_all add: sbox_eval)

lemma sbox_inverse_rows_f:
  "tc_aes_sbox_inverse 240 = 91" "tc_aes_sbox_inverse 241 = 35" "tc_aes_sbox_inverse 242 = 56" "tc_aes_sbox_inverse 243 = 52"
  "tc_aes_sbox_inverse 244 = 104" "tc_aes_sbox_inverse 245 = 70" "tc_aes_sbox_inverse 246 = 3" "tc_aes_sbox_inverse 247 = 140"
  "tc_aes_sbox_inverse 248 = 221" "tc_aes_sbox_inverse 249 = 156" "tc_aes_sbox_inverse 250 = 125" "tc_aes_sbox_inverse 251 = 160"
  "tc_aes_sbox_inverse 252 = 205" "tc_aes_sbox_inverse 253 = 26" "tc_aes_sbox_inverse 254 = 65" "tc_aes_sbox_inverse 255 = 28"
  by (simp_all add: sbox_eval)

lemmas sbox_inverse_rows = sbox_inverse_rows_0 sbox_inverse_rows_1 sbox_inverse_rows_2 sbox_inverse_rows_3
  sbox_inverse_rows_4 sbox_inverse_rows_5 sbox_inverse_rows_6 sbox_inverse_rows_7
  sbox_inverse_rows_8 sbox_inverse_rows_9 sbox_inverse_rows_a sbox_inverse_rows_b
  sbox_inverse_rows_c sbox_inverse_rows_d sbox_inverse_rows_e sbox_inverse_rows_f

section \<open>The three builds agree\<close>

lemma upt_256_Cons: "[0..<256] = 0 # Suc 0 # [2..<256]"
proof -
  have "[0..<256] = 0 # [Suc 0..<256]" by (rule upt_conv_Cons) simp
  moreover have "[Suc 0..<256] = Suc 0 # [Suc (Suc 0)..<256]" by (rule upt_conv_Cons) simp
  ultimately show ?thesis by (simp only: numeral_2_eq_2)
qed

lemma all_bytes:
  "map of_nat [0..<256] = [0, 1, 2, 3, 4, 5, 6, 7, 8, 9, 10, 11, 12, 13, 14, 15,
     16, 17, 18, 19, 20, 21, 22, 23, 24, 25, 26, 27, 28, 29, 30, 31,
     32, 33, 34, 35, 36, 37, 38, 39, 40, 41, 42, 43, 44, 45, 46, 47,
     48, 49, 50, 51, 52, 53, 54, 55, 56, 57, 58, 59, 60, 61, 62, 63,
     64, 65, 66, 67, 68, 69, 70, 71, 72, 73, 74, 75, 76, 77, 78, 79,
     80, 81, 82, 83, 84, 85, 86, 87, 88, 89, 90, 91, 92, 93, 94, 95,
     96, 97, 98, 99, 100, 101, 102, 103, 104, 105, 106, 107, 108, 109, 110, 111,
     112, 113, 114, 115, 116, 117, 118, 119, 120, 121, 122, 123, 124, 125, 126, 127,
     128, 129, 130, 131, 132, 133, 134, 135, 136, 137, 138, 139, 140, 141, 142, 143,
     144, 145, 146, 147, 148, 149, 150, 151, 152, 153, 154, 155, 156, 157, 158, 159,
     160, 161, 162, 163, 164, 165, 166, 167, 168, 169, 170, 171, 172, 173, 174, 175,
     176, 177, 178, 179, 180, 181, 182, 183, 184, 185, 186, 187, 188, 189, 190, 191,
     192, 193, 194, 195, 196, 197, 198, 199, 200, 201, 202, 203, 204, 205, 206, 207,
     208, 209, 210, 211, 212, 213, 214, 215, 216, 217, 218, 219, 220, 221, 222, 223,
     224, 225, 226, 227, 228, 229, 230, 231, 232, 233, 234, 235, 236, 237, 238, 239,
     240, 241, 242, 243, 244, 245, 246, 247, 248, 249, 250, 251, 252, 253, 254, 255 :: u8]"
  by (simp add: upt_256_Cons upt_rec_numeral)

lemma nth_all_bytes: "map f (map of_nat [0..<256]) ! unat (x :: u8) = f x"
  by simp

lemma sbox_computed: "map (\<lambda>x. sbox_affine (tc_aes_sbox_inverse x)) (map of_nat [0..<256]) = sbox"
  unfolding all_bytes
  by (simp add: sbox_inverse_rows sbox_affine_def tc_aes_sbox_rotate_left_def sbox_def)

lemma affine_inverse_rows:
  "sbox_affine_inverse 0 = 5" "sbox_affine_inverse 1 = 79" "sbox_affine_inverse 2 = 145" "sbox_affine_inverse 3 = 219"
  "sbox_affine_inverse 4 = 44" "sbox_affine_inverse 5 = 102" "sbox_affine_inverse 6 = 184" "sbox_affine_inverse 7 = 242"
  "sbox_affine_inverse 8 = 87" "sbox_affine_inverse 9 = 29" "sbox_affine_inverse 10 = 195" "sbox_affine_inverse 11 = 137"
  "sbox_affine_inverse 12 = 126" "sbox_affine_inverse 13 = 52" "sbox_affine_inverse 14 = 234" "sbox_affine_inverse 15 = 160"
  "sbox_affine_inverse 16 = 161" "sbox_affine_inverse 17 = 235" "sbox_affine_inverse 18 = 53" "sbox_affine_inverse 19 = 127"
  "sbox_affine_inverse 20 = 136" "sbox_affine_inverse 21 = 194" "sbox_affine_inverse 22 = 28" "sbox_affine_inverse 23 = 86"
  "sbox_affine_inverse 24 = 243" "sbox_affine_inverse 25 = 185" "sbox_affine_inverse 26 = 103" "sbox_affine_inverse 27 = 45"
  "sbox_affine_inverse 28 = 218" "sbox_affine_inverse 29 = 144" "sbox_affine_inverse 30 = 78" "sbox_affine_inverse 31 = 4"
  "sbox_affine_inverse 32 = 76" "sbox_affine_inverse 33 = 6" "sbox_affine_inverse 34 = 216" "sbox_affine_inverse 35 = 146"
  "sbox_affine_inverse 36 = 101" "sbox_affine_inverse 37 = 47" "sbox_affine_inverse 38 = 241" "sbox_affine_inverse 39 = 187"
  "sbox_affine_inverse 40 = 30" "sbox_affine_inverse 41 = 84" "sbox_affine_inverse 42 = 138" "sbox_affine_inverse 43 = 192"
  "sbox_affine_inverse 44 = 55" "sbox_affine_inverse 45 = 125" "sbox_affine_inverse 46 = 163" "sbox_affine_inverse 47 = 233"
  "sbox_affine_inverse 48 = 232" "sbox_affine_inverse 49 = 162" "sbox_affine_inverse 50 = 124" "sbox_affine_inverse 51 = 54"
  "sbox_affine_inverse 52 = 193" "sbox_affine_inverse 53 = 139" "sbox_affine_inverse 54 = 85" "sbox_affine_inverse 55 = 31"
  "sbox_affine_inverse 56 = 186" "sbox_affine_inverse 57 = 240" "sbox_affine_inverse 58 = 46" "sbox_affine_inverse 59 = 100"
  "sbox_affine_inverse 60 = 147" "sbox_affine_inverse 61 = 217" "sbox_affine_inverse 62 = 7" "sbox_affine_inverse 63 = 77"
  "sbox_affine_inverse 64 = 151" "sbox_affine_inverse 65 = 221" "sbox_affine_inverse 66 = 3" "sbox_affine_inverse 67 = 73"
  "sbox_affine_inverse 68 = 190" "sbox_affine_inverse 69 = 244" "sbox_affine_inverse 70 = 42" "sbox_affine_inverse 71 = 96"
  "sbox_affine_inverse 72 = 197" "sbox_affine_inverse 73 = 143" "sbox_affine_inverse 74 = 81" "sbox_affine_inverse 75 = 27"
  "sbox_affine_inverse 76 = 236" "sbox_affine_inverse 77 = 166" "sbox_affine_inverse 78 = 120" "sbox_affine_inverse 79 = 50"
  "sbox_affine_inverse 80 = 51" "sbox_affine_inverse 81 = 121" "sbox_affine_inverse 82 = 167" "sbox_affine_inverse 83 = 237"
  "sbox_affine_inverse 84 = 26" "sbox_affine_inverse 85 = 80" "sbox_affine_inverse 86 = 142" "sbox_affine_inverse 87 = 196"
  "sbox_affine_inverse 88 = 97" "sbox_affine_inverse 89 = 43" "sbox_affine_inverse 90 = 245" "sbox_affine_inverse 91 = 191"
  "sbox_affine_inverse 92 = 72" "sbox_affine_inverse 93 = 2" "sbox_affine_inverse 94 = 220" "sbox_affine_inverse 95 = 150"
  "sbox_affine_inverse 96 = 222" "sbox_affine_inverse 97 = 148" "sbox_affine_inverse 98 = 74" "sbox_affine_inverse 99 = 0"
  "sbox_affine_inverse 100 = 247" "sbox_affine_inverse 101 = 189" "sbox_affine_inverse 102 = 99" "sbox_affine_inverse 103 = 41"
  "sbox_affine_inverse 104 = 140" "sbox_affine_inverse 105 = 198" "sbox_affine_inverse 106 = 24" "sbox_affine_inverse 107 = 82"
  "sbox_affine_inverse 108 = 165" "sbox_affine_inverse 109 = 239" "sbox_affine_inverse 110 = 49" "sbox_affine_inverse 111 = 123"
  "sbox_affine_inverse 112 = 122" "sbox_affine_inverse 113 = 48" "sbox_affine_inverse 114 = 238" "sbox_affine_inverse 115 = 164"
  "sbox_affine_inverse 116 = 83" "sbox_affine_inverse 117 = 25" "sbox_affine_inverse 118 = 199" "sbox_affine_inverse 119 = 141"
  "sbox_affine_inverse 120 = 40" "sbox_affine_inverse 121 = 98" "sbox_affine_inverse 122 = 188" "sbox_affine_inverse 123 = 246"
  "sbox_affine_inverse 124 = 1" "sbox_affine_inverse 125 = 75" "sbox_affine_inverse 126 = 149" "sbox_affine_inverse 127 = 223"
  "sbox_affine_inverse 128 = 32" "sbox_affine_inverse 129 = 106" "sbox_affine_inverse 130 = 180" "sbox_affine_inverse 131 = 254"
  "sbox_affine_inverse 132 = 9" "sbox_affine_inverse 133 = 67" "sbox_affine_inverse 134 = 157" "sbox_affine_inverse 135 = 215"
  "sbox_affine_inverse 136 = 114" "sbox_affine_inverse 137 = 56" "sbox_affine_inverse 138 = 230" "sbox_affine_inverse 139 = 172"
  "sbox_affine_inverse 140 = 91" "sbox_affine_inverse 141 = 17" "sbox_affine_inverse 142 = 207" "sbox_affine_inverse 143 = 133"
  "sbox_affine_inverse 144 = 132" "sbox_affine_inverse 145 = 206" "sbox_affine_inverse 146 = 16" "sbox_affine_inverse 147 = 90"
  "sbox_affine_inverse 148 = 173" "sbox_affine_inverse 149 = 231" "sbox_affine_inverse 150 = 57" "sbox_affine_inverse 151 = 115"
  "sbox_affine_inverse 152 = 214" "sbox_affine_inverse 153 = 156" "sbox_affine_inverse 154 = 66" "sbox_affine_inverse 155 = 8"
  "sbox_affine_inverse 156 = 255" "sbox_affine_inverse 157 = 181" "sbox_affine_inverse 158 = 107" "sbox_affine_inverse 159 = 33"
  "sbox_affine_inverse 160 = 105" "sbox_affine_inverse 161 = 35" "sbox_affine_inverse 162 = 253" "sbox_affine_inverse 163 = 183"
  "sbox_affine_inverse 164 = 64" "sbox_affine_inverse 165 = 10" "sbox_affine_inverse 166 = 212" "sbox_affine_inverse 167 = 158"
  "sbox_affine_inverse 168 = 59" "sbox_affine_inverse 169 = 113" "sbox_affine_inverse 170 = 175" "sbox_affine_inverse 171 = 229"
  "sbox_affine_inverse 172 = 18" "sbox_affine_inverse 173 = 88" "sbox_affine_inverse 174 = 134" "sbox_affine_inverse 175 = 204"
  "sbox_affine_inverse 176 = 205" "sbox_affine_inverse 177 = 135" "sbox_affine_inverse 178 = 89" "sbox_affine_inverse 179 = 19"
  "sbox_affine_inverse 180 = 228" "sbox_affine_inverse 181 = 174" "sbox_affine_inverse 182 = 112" "sbox_affine_inverse 183 = 58"
  "sbox_affine_inverse 184 = 159" "sbox_affine_inverse 185 = 213" "sbox_affine_inverse 186 = 11" "sbox_affine_inverse 187 = 65"
  "sbox_affine_inverse 188 = 182" "sbox_affine_inverse 189 = 252" "sbox_affine_inverse 190 = 34" "sbox_affine_inverse 191 = 104"
  "sbox_affine_inverse 192 = 178" "sbox_affine_inverse 193 = 248" "sbox_affine_inverse 194 = 38" "sbox_affine_inverse 195 = 108"
  "sbox_affine_inverse 196 = 155" "sbox_affine_inverse 197 = 209" "sbox_affine_inverse 198 = 15" "sbox_affine_inverse 199 = 69"
  "sbox_affine_inverse 200 = 224" "sbox_affine_inverse 201 = 170" "sbox_affine_inverse 202 = 116" "sbox_affine_inverse 203 = 62"
  "sbox_affine_inverse 204 = 201" "sbox_affine_inverse 205 = 131" "sbox_affine_inverse 206 = 93" "sbox_affine_inverse 207 = 23"
  "sbox_affine_inverse 208 = 22" "sbox_affine_inverse 209 = 92" "sbox_affine_inverse 210 = 130" "sbox_affine_inverse 211 = 200"
  "sbox_affine_inverse 212 = 63" "sbox_affine_inverse 213 = 117" "sbox_affine_inverse 214 = 171" "sbox_affine_inverse 215 = 225"
  "sbox_affine_inverse 216 = 68" "sbox_affine_inverse 217 = 14" "sbox_affine_inverse 218 = 208" "sbox_affine_inverse 219 = 154"
  "sbox_affine_inverse 220 = 109" "sbox_affine_inverse 221 = 39" "sbox_affine_inverse 222 = 249" "sbox_affine_inverse 223 = 179"
  "sbox_affine_inverse 224 = 251" "sbox_affine_inverse 225 = 177" "sbox_affine_inverse 226 = 111" "sbox_affine_inverse 227 = 37"
  "sbox_affine_inverse 228 = 210" "sbox_affine_inverse 229 = 152" "sbox_affine_inverse 230 = 70" "sbox_affine_inverse 231 = 12"
  "sbox_affine_inverse 232 = 169" "sbox_affine_inverse 233 = 227" "sbox_affine_inverse 234 = 61" "sbox_affine_inverse 235 = 119"
  "sbox_affine_inverse 236 = 128" "sbox_affine_inverse 237 = 202" "sbox_affine_inverse 238 = 20" "sbox_affine_inverse 239 = 94"
  "sbox_affine_inverse 240 = 95" "sbox_affine_inverse 241 = 21" "sbox_affine_inverse 242 = 203" "sbox_affine_inverse 243 = 129"
  "sbox_affine_inverse 244 = 118" "sbox_affine_inverse 245 = 60" "sbox_affine_inverse 246 = 226" "sbox_affine_inverse 247 = 168"
  "sbox_affine_inverse 248 = 13" "sbox_affine_inverse 249 = 71" "sbox_affine_inverse 250 = 153" "sbox_affine_inverse 251 = 211"
  "sbox_affine_inverse 252 = 36" "sbox_affine_inverse 253 = 110" "sbox_affine_inverse 254 = 176" "sbox_affine_inverse 255 = 250"
  by (simp_all add: sbox_affine_inverse_def tc_aes_sbox_rotate_left_def)

lemma rsbox_computed:
  "map (\<lambda>x. tc_aes_sbox_inverse (sbox_affine_inverse x)) (map of_nat [0..<256]) = rsbox"
  unfolding all_bytes
  by (simp add: sbox_inverse_rows affine_inverse_rows rsbox_def)

lemma length_sbox [simp]: "length sbox = 256" "length rsbox = 256"
  by (simp_all add: sbox_def rsbox_def)

lemma sbox_affine_of_inverse: "sbox_affine (tc_aes_sbox_inverse x) = sbox ! unat x"
  using nth_all_bytes [of "\<lambda>x. sbox_affine (tc_aes_sbox_inverse x)" x] by (simp only: sbox_computed)

lemma rsbox_of_affine: "tc_aes_sbox_inverse (sbox_affine_inverse x) = rsbox ! unat x"
  using nth_all_bytes [of "\<lambda>x. tc_aes_sbox_inverse (sbox_affine_inverse x)" x] by (simp only: rsbox_computed)

lemma rsbox_sbox_table:
  "map (\<lambda>x. rsbox ! unat (sbox ! unat (x :: u8))) (map of_nat [0..<256]) = map of_nat [0..<256]"
  unfolding all_bytes by (simp add: sbox_def rsbox_def)

lemma rsbox_sbox: "rsbox ! unat (sbox ! unat x) = x"
  using nth_all_bytes [of "\<lambda>x. rsbox ! unat (sbox ! unat x)" x] nth_all_bytes [of "\<lambda>x. x" x]
  by (simp only: rsbox_sbox_table map_ident)

lemma sbox_rsbox: "sbox ! unat (rsbox ! unat y) = y"
proof -
  have "inj (\<lambda>x :: u8. sbox ! unat x)"
    by (metis injI rsbox_sbox)
  then have "surj (\<lambda>x :: u8. sbox ! unat x)"
    by (simp add: finite_UNIV_inj_surj)
  then obtain x :: u8 where "y = sbox ! unat x" by (elim surjE)
  then show ?thesis by (simp add: rsbox_sbox)
qed

lemma ct_eq_mask: "tc_aes_ct_eq_mask_u8 a b = (if a = b then - 1 else 0)"
proof (cases "a = b")
  case True
  moreover have "ucast (mask 24 :: u32) = (- 1 :: u8)" by (rule bit_word_eqI) (simp add: bit_simps)
  ultimately show ?thesis by (simp add: tc_aes_ct_eq_mask_u8_def)
next
  case False
  let ?d = "a XOR b"
  have "?d \<noteq> 0" using False by (simp add: word_xor_eq_0_iff)
  then have pos: "0 < unat ?d" by (simp add: unat_gt_0)
  have u: "unat (ucast (ucast ?d :: u16) :: u32) = unat ?d"
    by (subst unat_ucast_up, simp, subst unat_ucast_up, simp, rule refl)
  have "unat ((ucast (ucast ?d :: u16) :: u32) - 1) = unat ?d - 1"
    using pos unat_sub_if' [of "ucast (ucast ?d :: u16) :: u32" 1] u by simp
  then have "unat (drop_bit 8 ((ucast (ucast ?d :: u16) :: u32) - 1)) = (unat ?d - 1) div 256"
    unfolding unat_drop_bit_eq by (simp add: drop_bit_eq_div)
  then have "drop_bit 8 ((ucast (ucast ?d :: u16) :: u32) - 1) = 0"
    using unat_u8_less [of ?d] by (simp add: unat_eq_0 less_imp_diff_less del: unat_u8_less)
  then show ?thesis using False by (simp add: tc_aes_ct_eq_mask_u8_def)
qed

lemma fold_or_masked:
  fixes s :: "'a::len word"
  assumes "\<forall>i \<in> set is. i \<noteq> j \<longrightarrow> f i = 0"
  shows "fold (\<lambda>i v. v OR f i) is s = (if j \<in> set is then s OR f j else s)"
  using assms by (induction "is" arbitrary: s) (auto simp: or.assoc)

lemma table_scan_eq: "tc_aes_table_scan table index = table ! unat index"
proof -
  let ?f = "\<lambda>i. table ! i AND tc_aes_ct_eq_mask_u8 (of_nat i) index"
  have "of_nat i = index \<longleftrightarrow> i = unat index" if "i < 256" for i
    using that by (auto simp: unat_of_nat_u8)
  then have "\<forall>i \<in> set [0..<256]. i \<noteq> unat index \<longrightarrow> ?f i = 0"
    by (auto simp: ct_eq_mask)
  then show ?thesis
    unfolding tc_aes_table_scan_def by (subst fold_or_masked [of _ "unat index"]) (simp_all add: ct_eq_mask)
qed

lemma fold_update_inverse:
  assumes "length t = 256"
  shows "fold (\<lambda>i t. t[unat (sbox ! i) := of_nat i]) [0..<256] t = rsbox"
proof (rule nth_equalityI)
  have len: "length (fold (\<lambda>i t. t[g i := h i]) is t) = length t" for g h "is" and t :: "u8 list"
    by (induction "is" arbitrary: t) auto
  show "length (fold (\<lambda>i t. t[unat (sbox ! i) := of_nat i]) [0..<256] t) = length rsbox"
    by (simp add: len assms)
  have nth: "fold (\<lambda>i t. t[unat (sbox ! i) := of_nat i]) is t ! unat (sbox ! j) = (of_nat j :: u8)"
    if "j \<in> set is" "\<forall>i \<in> set is. i < 256" "length t = 256" for "is" j and t :: "u8 list"
    using that
  proof (induction "is" rule: rev_induct)
    case (snoc i "is")
    have inj: "unat (sbox ! i) = unat (sbox ! j) \<Longrightarrow> i = j"
    proof -
      assume "unat (sbox ! i) = unat (sbox ! j)"
      moreover have "rsbox ! unat (sbox ! n) = of_nat n" if "n < 256" for n
        using rsbox_sbox [of "of_nat n"] that by (simp add: unat_of_nat_u8)
      moreover have "i < 256" "j < 256" using snoc.prems by auto
      ultimately have "(of_nat i :: u8) = of_nat j" by metis
      then show "i = j" using \<open>i < 256\<close> \<open>j < 256\<close> by (metis unat_of_nat_u8)
    qed
    show ?case
      using snoc inj by (auto simp: nth_list_update len)
  qed simp
  fix n assume "n < length (fold (\<lambda>i t. t[unat (sbox ! i) := of_nat i]) [0..<256] t)"
  then have n: "n < 256" by (simp add: len assms)
  define j where "j = unat (rsbox ! n)"
  have "sbox ! j = of_nat n"
    using sbox_rsbox [of "of_nat n"] n by (simp add: j_def unat_of_nat_u8)
  then have "unat (sbox ! j) = n" using n by (simp add: unat_of_nat_u8)
  moreover have "j \<in> set [0..<256]" by (simp add: j_def)
  ultimately show "fold (\<lambda>i t. t[unat (sbox ! i) := of_nat i]) [0..<256] t ! n = rsbox ! n"
    using nth [of j "[0..<256]" t] assms by (simp add: j_def)
qed

lemma init_sbox_tables:
  assumes "length (ram_sbox e) = 256" "length (ram_rsbox e) = 256"
  shows "TC_AES_init_sbox e = e\<lparr>ram_sbox := sbox, ram_rsbox := rsbox, sbox_ready := 1\<rparr>"
proof -
  have "fold (\<lambda>i t. t[i := sbox_affine (tc_aes_sbox_inverse (of_nat i))]) [0..<256] (ram_sbox e) =
      map (\<lambda>i. sbox_affine (tc_aes_sbox_inverse (of_nat i))) [0..<256]"
    using fold_update_upt [of 256 "ram_sbox e" "\<lambda>i _. sbox_affine (tc_aes_sbox_inverse (of_nat i))"] assms
    by simp
  also have "\<dots> = sbox" using sbox_computed by (simp add: comp_def)
  finally show ?thesis using assms by (simp add: TC_AES_init_sbox_def fold_update_inverse)
qed

lemma sbox_value_eq: "aes_env_ready e \<Longrightarrow> tc_aes_sbox_value e x = sbox ! unat x"
  by (auto simp: tc_aes_sbox_value_def aes_env_ready_def sbox_affine_of_inverse table_scan_eq
      split: aes_sbox_mode.split)

lemma inverse_sbox_value_eq: "aes_env_ready e \<Longrightarrow> tc_aes_inverse_sbox_value e x = rsbox ! unat x"
  by (auto simp: tc_aes_inverse_sbox_value_def aes_env_ready_def rsbox_of_affine table_scan_eq
      split: aes_sbox_mode.split)

end
