(* ===== verification/AES.thy ===== *)
theory AES
  imports AES_Sbox Block_Modes
begin

text \<open>
  The AES block cipher of \<^verbatim>\<open>src/src/aes.c\<close>: key expansion, the round transformations and their
  inverses, key contexts, dynamic-length keys, and the descriptors of \<^verbatim>\<open>src/src/aes_internal.h\<close>. The state
  \<^verbatim>\<open>state_t\<close> is the 16-byte block itself: \<^verbatim>\<open>(*state)[i][j]\<close> is element \<open>4 * i + j\<close>. The lemmas show that each
  inverse transformation undoes the forward one, that the inverse cipher undoes the cipher for every
  schedule and every build, and that the expanded key satisfies the FIPS 197 recurrence; the locales of
  \<open>Block_Modes\<close> are interpreted with these definitions at the end.
\<close>

section \<open>Parameters\<close>

definition TC_AES_BLOCKLEN :: nat where "TC_AES_BLOCKLEN = 16"

definition Nb :: nat where "Nb = 4"

definition Nk :: "aes_env \<Rightarrow> nat" where
  "Nk e = (if aes_key_bits e = 256 then 8 else if aes_key_bits e = 192 then 6 else 4)"

definition Nr :: "aes_env \<Rightarrow> u8" where
  "Nr e = (if aes_key_bits e = 256 then 14 else if aes_key_bits e = 192 then 12 else 10)"

definition TC_AES_KEYLEN :: "aes_env \<Rightarrow> nat" where
  "TC_AES_KEYLEN e = (if aes_key_bits e = 256 then 32 else if aes_key_bits e = 192 then 24 else 16)"

definition TC_AES_KEY_EXP_SIZE :: "aes_env \<Rightarrow> nat" where
  "TC_AES_KEY_EXP_SIZE e = (if aes_key_bits e = 256 then 240 else if aes_key_bits e = 192 then 208 else 176)"

definition TC_AES_FIXED_ROUNDS :: "aes_env \<Rightarrow> u8" where
  "TC_AES_FIXED_ROUNDS e = of_nat (aes_key_bits e div 32 + 6)"

section \<open>Key expansion\<close>

definition rot_word :: "u8 list \<Rightarrow> u8 list" where
  "rot_word tempa = [tempa ! 1, tempa ! 2, tempa ! 3, tempa ! 0]"

definition sub_word :: "aes_env \<Rightarrow> u8 list \<Rightarrow> u8 list" where
  "sub_word e tempa =
     [tc_aes_sbox_value e (tempa ! 0), tc_aes_sbox_value e (tempa ! 1),
      tc_aes_sbox_value e (tempa ! 2), tc_aes_sbox_value e (tempa ! 3)]"

text \<open>One iteration of the expansion loop on the schedule and the round constant.\<close>

definition key_expansion_step :: "aes_env \<Rightarrow> nat \<Rightarrow> nat \<Rightarrow> u8 list \<times> u8 \<Rightarrow> u8 list \<times> u8" where
  "key_expansion_step e words i s =
     (case s of (round_key, rcon) \<Rightarrow>
       let k = (i - 1) * 4;
           tempa = [round_key ! (k + 0), round_key ! (k + 1), round_key ! (k + 2), round_key ! (k + 3)];
           (tempa, rcon) =
             (if i mod words = 0
              then let t = sub_word e (rot_word tempa) in (t[0 := t ! 0 XOR rcon], tc_aes_xtime rcon)
              else (tempa, rcon));
           tempa = (if words = 8 \<and> i mod words = 4 then sub_word e tempa else tempa);
           j = i * 4;
           k = (i - words) * 4;
           round_key = round_key[j + 0 := round_key ! (k + 0) XOR tempa ! 0];
           round_key = round_key[j + 1 := round_key ! (k + 1) XOR tempa ! 1];
           round_key = round_key[j + 2 := round_key ! (k + 2) XOR tempa ! 2];
           round_key = round_key[j + 3 := round_key ! (k + 3) XOR tempa ! 3]
       in (round_key, rcon))"

definition tc_aes_key_expansion :: "aes_env \<Rightarrow> u8 list \<Rightarrow> u8 list \<Rightarrow> nat \<Rightarrow> u8 list" where
  "tc_aes_key_expansion e round_key key_bytes words =
     fst (fold (key_expansion_step e words) [words..<Nb * ((words + 6) + 1)]
            (memcpy_at round_key 0 (take (words * 4) key_bytes), 0x01))"

section \<open>Round transformations\<close>

definition tc_aes_add_round_key :: "u8 \<Rightarrow> u8 list \<Rightarrow> u8 list \<Rightarrow> u8 list" where
  "tc_aes_add_round_key round state round_key =
     fold (\<lambda>i s. fold (\<lambda>j s. s[4 * i + j := s ! (4 * i + j) XOR
                                 round_key ! ((unat round * Nb * 4) + (i * Nb) + j)]) [0..<4] s)
       [0..<4] state"

definition tc_aes_sub_bytes :: "aes_env \<Rightarrow> u8 list \<Rightarrow> u8 list" where
  "tc_aes_sub_bytes e state =
     fold (\<lambda>i s. fold (\<lambda>j s. s[4 * j + i := tc_aes_sbox_value e (s ! (4 * j + i))]) [0..<4] s) [0..<4] state"

definition tc_aes_shift_rows :: "u8 list \<Rightarrow> u8 list" where
  "tc_aes_shift_rows s =
     (let temp = s ! 1;
          s = s[1 := s ! 5]; s = s[5 := s ! 9]; s = s[9 := s ! 13]; s = s[13 := temp];
          temp = s ! 2;
          s = s[2 := s ! 10]; s = s[10 := temp];
          temp = s ! 6;
          s = s[6 := s ! 14]; s = s[14 := temp];
          temp = s ! 3;
          s = s[3 := s ! 15]; s = s[15 := s ! 11]; s = s[11 := s ! 7]; s = s[7 := temp]
      in s)"

definition mix_column :: "nat \<Rightarrow> u8 list \<Rightarrow> u8 list" where
  "mix_column i s =
     (let t = s ! (4 * i);
          Tmp = s ! (4 * i) XOR s ! (4 * i + 1) XOR s ! (4 * i + 2) XOR s ! (4 * i + 3);
          Tm = tc_aes_xtime (s ! (4 * i) XOR s ! (4 * i + 1));
          s = s[4 * i := s ! (4 * i) XOR (Tm XOR Tmp)];
          Tm = tc_aes_xtime (s ! (4 * i + 1) XOR s ! (4 * i + 2));
          s = s[4 * i + 1 := s ! (4 * i + 1) XOR (Tm XOR Tmp)];
          Tm = tc_aes_xtime (s ! (4 * i + 2) XOR s ! (4 * i + 3));
          s = s[4 * i + 2 := s ! (4 * i + 2) XOR (Tm XOR Tmp)];
          Tm = tc_aes_xtime (s ! (4 * i + 3) XOR t);
          s = s[4 * i + 3 := s ! (4 * i + 3) XOR (Tm XOR Tmp)]
      in s)"

definition tc_aes_mix_columns :: "u8 list \<Rightarrow> u8 list" where
  "tc_aes_mix_columns state = fold mix_column [0..<4] state"

definition inverse_mix_column :: "nat \<Rightarrow> u8 list \<Rightarrow> u8 list" where
  "inverse_mix_column i s =
     (let a = s ! (4 * i); b = s ! (4 * i + 1); c = s ! (4 * i + 2); d = s ! (4 * i + 3);
          ac4 = tc_aes_xtime (tc_aes_xtime (a XOR c));
          bd4 = tc_aes_xtime (tc_aes_xtime (b XOR d));
          a = a XOR ac4; c = c XOR ac4; b = b XOR bd4; d = d XOR bd4;
          all = a XOR b XOR c XOR d;
          s = s[4 * i := a XOR tc_aes_xtime (a XOR b) XOR all];
          s = s[4 * i + 1 := b XOR tc_aes_xtime (b XOR c) XOR all];
          s = s[4 * i + 2 := c XOR tc_aes_xtime (c XOR d) XOR all];
          s = s[4 * i + 3 := d XOR tc_aes_xtime (d XOR a) XOR all]
      in s)"

definition tc_aes_inverse_mix_columns :: "u8 list \<Rightarrow> u8 list" where
  "tc_aes_inverse_mix_columns state = fold inverse_mix_column [0..<4] state"

definition tc_aes_inverse_sub_bytes :: "aes_env \<Rightarrow> u8 list \<Rightarrow> u8 list" where
  "tc_aes_inverse_sub_bytes e state =
     fold (\<lambda>i s. fold (\<lambda>j s. s[4 * j + i := tc_aes_inverse_sbox_value e (s ! (4 * j + i))]) [0..<4] s)
       [0..<4] state"

definition tc_aes_inverse_shift_rows :: "u8 list \<Rightarrow> u8 list" where
  "tc_aes_inverse_shift_rows s =
     (let temp = s ! 13;
          s = s[13 := s ! 9]; s = s[9 := s ! 5]; s = s[5 := s ! 1]; s = s[1 := temp];
          temp = s ! 2;
          s = s[2 := s ! 10]; s = s[10 := temp];
          temp = s ! 6;
          s = s[6 := s ! 14]; s = s[14 := temp];
          temp = s ! 3;
          s = s[3 := s ! 7]; s = s[7 := s ! 11]; s = s[11 := s ! 15]; s = s[15 := temp]
      in s)"

section \<open>The cipher and its inverse\<close>

text \<open>
  The round counters are \<^verbatim>\<open>uint8_t\<close> and the loops have no bound of their own: they stop when the counter
  meets \<open>rounds\<close> (or zero), which it does after at most 256 steps since it wraps around.
\<close>

function cipher_rounds_loop :: "aes_env \<Rightarrow> u8 \<Rightarrow> u8 list \<Rightarrow> u8 \<Rightarrow> u8 list \<Rightarrow> u8 list" where
  "cipher_rounds_loop e rounds round_key round state =
     (let s = tc_aes_shift_rows (tc_aes_sub_bytes e state)
      in if round = rounds then s
         else cipher_rounds_loop e rounds round_key (round + 1)
                (tc_aes_add_round_key round (tc_aes_mix_columns s) round_key))"
  by pat_completeness auto
termination
proof (relation "measure (\<lambda>(e, rounds, round_key, round, state). unat (rounds - round))", goal_cases)
  case (2 e rounds round_key round state s)
  then have "rounds - round \<noteq> 0" by auto
  then have "unat (rounds - round - 1) < unat (rounds - round)"
    using unat_gt_0 [of "rounds - round"] by (simp add: unat_sub_if' Suc_leI)
  then show ?case by (simp add: diff_diff_eq)
qed simp

declare cipher_rounds_loop.simps [simp del]

definition tc_aes_cipher_rounds :: "aes_env \<Rightarrow> u8 list \<Rightarrow> u8 list \<Rightarrow> u8 \<Rightarrow> TC_status \<times> u8 list" where
  "tc_aes_cipher_rounds e state round_key rounds =
     (let s = tc_aes_add_round_key 0 state round_key;
          s = cipher_rounds_loop e rounds round_key 1 s
      in (TC_OK, tc_aes_add_round_key rounds s round_key))"

definition tc_aes_cipher :: "aes_env \<Rightarrow> u8 list \<Rightarrow> u8 list \<Rightarrow> TC_status \<times> u8 list" where
  "tc_aes_cipher e state round_key = tc_aes_cipher_rounds e state round_key (Nr e)"

function inverse_rounds_loop :: "aes_env \<Rightarrow> u8 list \<Rightarrow> u8 \<Rightarrow> u8 list \<Rightarrow> u8 list" where
  "inverse_rounds_loop e round_key round state =
     (let s = tc_aes_add_round_key round
                (tc_aes_inverse_sub_bytes e (tc_aes_inverse_shift_rows state)) round_key
      in if round = 0 then s
         else inverse_rounds_loop e round_key (round - 1) (tc_aes_inverse_mix_columns s))"
  by pat_completeness auto
termination
proof (relation "measure (\<lambda>(e, round_key, round, state). unat round)", goal_cases)
  case (2 e round_key round state s)
  then show ?case
    using unat_gt_0 [of round] by (simp add: unat_sub_if' Suc_leI)
qed simp

declare inverse_rounds_loop.simps [simp del]

definition tc_aes_inverse_rounds :: "aes_env \<Rightarrow> u8 list \<Rightarrow> u8 list \<Rightarrow> u8 \<Rightarrow> TC_status \<times> u8 list" where
  "tc_aes_inverse_rounds e state round_key rounds =
     (TC_OK, inverse_rounds_loop e round_key (rounds - 1) (tc_aes_add_round_key rounds state round_key))"

section \<open>Descriptors (aes_internal.h)\<close>

text \<open>The descriptor's key: the schedule and its round count, with the build it runs in.\<close>

record tc_aes_block_key =
  bk_env :: aes_env
  bk_round_key :: "u8 list"
  bk_rounds :: u8

definition tc_aes_block_encrypt :: "tc_aes_block_key \<Rightarrow> u8 list \<Rightarrow> TC_status \<times> u8 list" where
  "tc_aes_block_encrypt schedule block =
     tc_aes_cipher_rounds (bk_env schedule) block (bk_round_key schedule) (bk_rounds schedule)"

definition tc_aes_block_cipher :: "tc_aes_block_key \<Rightarrow> tc_aes_block_key tc_block_cipher" where
  "tc_aes_block_cipher k =
     \<lparr>block_size = TC_AES_BLOCKLEN, key = k, encrypt = tc_aes_block_encrypt, decrypt = None\<rparr>"

definition tc_aes_block_decrypt :: "tc_aes_block_key \<Rightarrow> u8 list \<Rightarrow> TC_status \<times> u8 list" where
  "tc_aes_block_decrypt schedule block =
     tc_aes_inverse_rounds (bk_env schedule) block (bk_round_key schedule) (bk_rounds schedule)"

definition tc_aes_block_cipher_inverse :: "tc_aes_block_key \<Rightarrow> tc_aes_block_key tc_block_cipher" where
  "tc_aes_block_cipher_inverse k =
     \<lparr>block_size = TC_AES_BLOCKLEN, key = k, encrypt = tc_aes_block_encrypt,
      decrypt = Some tc_aes_block_decrypt\<rparr>"

section \<open>The transformations and their inverses\<close>

lemma upt_0_4: "[0..<4] = [0, 1, 2, 3]"
  by (simp add: upt_rec numeral_eq_Suc)

lemma upt_0_16: "[0..<16] = [0, 1, 2, 3, 4, 5, 6, 7, 8, 9, 10, 11, 12, 13, 14, 15]"
  by (simp add: upt_rec numeral_eq_Suc)

lemma state_cases:
  assumes "length s = 16"
  obtains a0 a1 a2 a3 a4 a5 a6 a7 a8 a9 a10 a11 a12 a13 a14 a15 where
    "s = [a0, a1, a2, a3, a4, a5, a6, a7, a8, a9, a10, a11, a12, a13, a14, a15]"
proof -
  have "s = map ((!) s) [0..<16]" using assms by (metis map_nth)
  then show ?thesis using that by (simp add: upt_0_16)
qed

lemma take_drop_nth: "k + n \<le> length xs \<Longrightarrow> take n (drop k xs) = map (\<lambda>i. xs ! (k + i)) [0..<n]"
  by (rule nth_equalityI) simp_all

lemma add_round_key_eq:
  assumes "length s = 16" "16 * unat r + 16 \<le> length rk"
  shows "tc_aes_add_round_key r s rk = xorl s (take 16 (drop (16 * unat r) rk))"
proof -
  from assms(1) obtain a0 a1 a2 a3 a4 a5 a6 a7 a8 a9 a10 a11 a12 a13 a14 a15 where
    s: "s = [a0, a1, a2, a3, a4, a5, a6, a7, a8, a9, a10, a11, a12, a13, a14, a15]"
    by (rule state_cases)
  show ?thesis
    unfolding s take_drop_nth [OF assms(2)] upt_0_16
    by (simp add: tc_aes_add_round_key_def upt_0_4 Nb_def algebra_simps)
qed

lemma sub_bytes_eq: "length s = 16 \<Longrightarrow> tc_aes_sub_bytes e s = map (tc_aes_sbox_value e) s"
  by (erule state_cases) (simp add: tc_aes_sub_bytes_def upt_0_4)

lemma inverse_sub_bytes_eq:
  "length s = 16 \<Longrightarrow> tc_aes_inverse_sub_bytes e s = map (tc_aes_inverse_sbox_value e) s"
  by (erule state_cases) (simp add: tc_aes_inverse_sub_bytes_def upt_0_4)

lemma inverse_shift_rows: "length s = 16 \<Longrightarrow> tc_aes_inverse_shift_rows (tc_aes_shift_rows s) = s"
  by (erule state_cases) (simp add: tc_aes_inverse_shift_rows_def tc_aes_shift_rows_def Let_def)

lemma xor_left_cancel: "x XOR (x XOR y) = y" for x y :: "'a::len word"
  by (simp flip: xor.assoc)

lemmas xor_ac = xor.assoc xor.commute xor.left_commute xor_left_cancel

lemma xtime_xor: "tc_aes_xtime (x XOR y) = tc_aes_xtime x XOR tc_aes_xtime y"
proof -
  have "(drop_bit 7 (x XOR y) AND 1) * 0x1b = ((drop_bit 7 x AND 1) * 0x1b) XOR ((drop_bit 7 y AND 1) * (0x1b :: u8))"
    by (simp add: drop_bit_7_u8 bit_xor_iff)
  then show ?thesis
    by (simp add: tc_aes_xtime_def push_bit_xor xor_ac)
qed

lemma inverse_mix_columns: "length s = 16 \<Longrightarrow> tc_aes_inverse_mix_columns (tc_aes_mix_columns s) = s"
  by (erule state_cases)
    (simp add: tc_aes_inverse_mix_columns_def tc_aes_mix_columns_def upt_0_4 mix_column_def
      inverse_mix_column_def Let_def xtime_xor xor_ac)

lemma length_transformations [simp, len_simps]:
  "length (tc_aes_add_round_key r s rk) = length s"
  "length (tc_aes_sub_bytes e s) = length s"
  "length (tc_aes_inverse_sub_bytes e s) = length s"
  "length (tc_aes_shift_rows s) = length s"
  "length (tc_aes_inverse_shift_rows s) = length s"
  "length (tc_aes_mix_columns s) = length s"
  "length (tc_aes_inverse_mix_columns s) = length s"
  by (simp_all add: tc_aes_add_round_key_def tc_aes_sub_bytes_def tc_aes_inverse_sub_bytes_def
      tc_aes_shift_rows_def tc_aes_inverse_shift_rows_def tc_aes_mix_columns_def mix_column_def
      tc_aes_inverse_mix_columns_def inverse_mix_column_def upt_0_4 Let_def)

lemma inverse_sub_bytes:
  "aes_env_ready e \<Longrightarrow> length s = 16 \<Longrightarrow> tc_aes_inverse_sub_bytes e (tc_aes_sub_bytes e s) = s"
  by (simp add: sub_bytes_eq inverse_sub_bytes_eq sbox_value_eq inverse_sbox_value_eq rsbox_sbox comp_def)

lemma add_round_key_twice:
  "length s = 16 \<Longrightarrow> 16 * unat r + 16 \<le> length rk \<Longrightarrow>
   tc_aes_add_round_key r (tc_aes_add_round_key r s rk) rk = s"
  by (simp add: add_round_key_eq)

section \<open>The inverse cipher undoes the cipher\<close>

text \<open>The loops with the round numbers as naturals.\<close>

primrec fwd_rounds :: "aes_env \<Rightarrow> u8 list \<Rightarrow> nat \<Rightarrow> nat \<Rightarrow> u8 list \<Rightarrow> u8 list" where
  "fwd_rounds e rk r 0 s = tc_aes_shift_rows (tc_aes_sub_bytes e s)"
| "fwd_rounds e rk r (Suc m) s =
     fwd_rounds e rk (Suc r) m
       (tc_aes_add_round_key (of_nat r) (tc_aes_mix_columns (tc_aes_shift_rows (tc_aes_sub_bytes e s))) rk)"

primrec bwd_rounds :: "aes_env \<Rightarrow> u8 list \<Rightarrow> nat \<Rightarrow> u8 list \<Rightarrow> u8 list" where
  "bwd_rounds e rk 0 s =
     tc_aes_add_round_key 0 (tc_aes_inverse_sub_bytes e (tc_aes_inverse_shift_rows s)) rk"
| "bwd_rounds e rk (Suc r) s =
     bwd_rounds e rk r (tc_aes_inverse_mix_columns
       (tc_aes_add_round_key (of_nat (Suc r)) (tc_aes_inverse_sub_bytes e (tc_aes_inverse_shift_rows s)) rk))"

lemma cipher_rounds_loop_eq:
  "r + m < 256 \<Longrightarrow> cipher_rounds_loop e (of_nat (r + m)) rk (of_nat r) s = fwd_rounds e rk r m s"
proof (induction m arbitrary: r s)
  case 0
  then show ?case by (simp add: cipher_rounds_loop.simps Let_def)
next
  case (Suc m)
  have "unat (of_nat r :: u8) = r" "unat (of_nat (r + Suc m) :: u8) = r + Suc m"
    using Suc.prems by (simp_all del: of_nat_add of_nat_Suc)
  then have ne: "(of_nat r :: u8) \<noteq> of_nat (r + Suc m)" by (metis add.right_neutral add_left_cancel nat.distinct(1))
  have "cipher_rounds_loop e (of_nat (Suc r + m)) rk (of_nat (Suc r)) t = fwd_rounds e rk (Suc r) m t" for t
    using Suc.prems by (intro Suc.IH) simp
  with ne show ?case
    by (subst cipher_rounds_loop.simps) (simp add: Let_def add.commute)
qed

lemma inverse_rounds_loop_eq:
  "r < 256 \<Longrightarrow> inverse_rounds_loop e rk (of_nat r) s = bwd_rounds e rk r s"
proof (induction r arbitrary: s)
  case 0
  then show ?case by (simp add: inverse_rounds_loop.simps Let_def)
next
  case (Suc r)
  have "unat (of_nat (Suc r) :: u8) \<noteq> 0" using Suc.prems by (simp del: of_nat_Suc)
  then have "(of_nat (Suc r) :: u8) \<noteq> 0" by (metis unsigned_0)
  moreover have "(of_nat (Suc r) :: u8) - 1 = of_nat r" by simp
  ultimately show ?case
    using Suc by (subst inverse_rounds_loop.simps) (simp add: Let_def del: of_nat_Suc)
qed

lemma bwd_fwd_rounds:
  assumes "aes_env_ready e" "length s = 16" "16 * (r + m) + 16 \<le> length rk" "r + m < 256"
  shows "bwd_rounds e rk (r + m) (fwd_rounds e rk (Suc r) m s) =
         bwd_rounds e rk r (tc_aes_shift_rows (tc_aes_sub_bytes e s))"
  using assms
proof (induction m arbitrary: r s)
  case 0
  then show ?case by simp
next
  case (Suc m)
  let ?u = "tc_aes_shift_rows (tc_aes_sub_bytes e s)"
  let ?t = "tc_aes_add_round_key (of_nat (Suc r)) (tc_aes_mix_columns ?u) rk"
  have rr: "unat (of_nat (Suc r) :: u8) = Suc r" using Suc.prems by (simp del: of_nat_Suc)
  have t: "length ?t = 16" using Suc.prems by simp
  have "bwd_rounds e rk (r + Suc m) (fwd_rounds e rk (Suc r) (Suc m) s) =
      bwd_rounds e rk (Suc r + m) (fwd_rounds e rk (Suc (Suc r)) m ?t)"
    by (simp del: of_nat_Suc)
  also have "\<dots> = bwd_rounds e rk (Suc r) (tc_aes_shift_rows (tc_aes_sub_bytes e ?t))"
    using Suc.prems t by (intro Suc.IH) simp_all
  also have "\<dots> = bwd_rounds e rk r (tc_aes_inverse_mix_columns (tc_aes_add_round_key (of_nat (Suc r)) ?t rk))"
    using t Suc.prems by (simp add: inverse_shift_rows inverse_sub_bytes del: of_nat_Suc)
  also have "\<dots> = bwd_rounds e rk r ?u"
    using Suc.prems rr by (simp add: add_round_key_twice inverse_mix_columns del: of_nat_Suc)
  finally show ?case .
qed

text \<open>A schedule for \<open>rounds\<close> rounds has one more round key than rounds.\<close>

definition schedule_ok :: "aes_env \<Rightarrow> u8 list \<Rightarrow> u8 \<Rightarrow> bool" where
  "schedule_ok e rk rounds \<longleftrightarrow> aes_env_ready e \<and> 0 < unat rounds \<and> 16 * unat rounds + 16 \<le> length rk"

lemma cipher_rounds_eq:
  assumes "0 < unat rounds"
  shows "tc_aes_cipher_rounds e s rk rounds =
    (TC_OK, tc_aes_add_round_key rounds (fwd_rounds e rk 1 (unat rounds - 1) (tc_aes_add_round_key 0 s rk)) rk)"
proof -
  have "cipher_rounds_loop e (of_nat (1 + (unat rounds - 1))) rk (of_nat 1) t =
      fwd_rounds e rk 1 (unat rounds - 1) t" for t
    using assms unat_u8_less [of rounds] by (intro cipher_rounds_loop_eq) simp
  then show ?thesis using assms by (simp add: tc_aes_cipher_rounds_def Let_def)
qed

lemma inverse_rounds_eq:
  assumes "0 < unat rounds"
  shows "tc_aes_inverse_rounds e s rk rounds =
    (TC_OK, bwd_rounds e rk (unat rounds - 1) (tc_aes_add_round_key rounds s rk))"
proof -
  have "rounds - 1 = of_nat (unat rounds - 1)"
    using assms by (simp add: of_nat_diff)
  moreover have "unat rounds - 1 < 256" using unat_u8_less [of rounds] by linarith
  ultimately show ?thesis
    by (simp only: tc_aes_inverse_rounds_def inverse_rounds_loop_eq)
qed

lemma length_fwd_rounds [simp, len_simps]: "length (fwd_rounds e rk r m s) = length s"
  by (induction m arbitrary: r s) simp_all

lemma length_bwd_rounds [simp, len_simps]: "length (bwd_rounds e rk r s) = length s"
  by (induction r arbitrary: s) simp_all

lemma inverse_cipher_rounds:
  assumes "schedule_ok e rk rounds" "length s = 16"
  shows "snd (tc_aes_inverse_rounds e (snd (tc_aes_cipher_rounds e s rk rounds)) rk rounds) = s"
proof -
  let ?n = "unat rounds"
  have pos: "0 < ?n" and ready: "aes_env_ready e" and rk: "16 * ?n + 16 \<le> length rk"
    using assms(1) by (simp_all add: schedule_ok_def)
  have less: "?n - 1 < 256" using unat_u8_less [of rounds] by linarith
  let ?a = "tc_aes_add_round_key 0 s rk"
  have "bwd_rounds e rk (0 + (?n - 1)) (fwd_rounds e rk (Suc 0) (?n - 1) ?a) =
      bwd_rounds e rk 0 (tc_aes_shift_rows (tc_aes_sub_bytes e ?a))"
    using ready rk assms(2) pos less by (intro bwd_fwd_rounds) simp_all
  also have "\<dots> = s"
    using assms(2) ready rk by (simp add: inverse_shift_rows inverse_sub_bytes add_round_key_twice)
  finally show ?thesis
    using pos rk assms(2) by (simp add: cipher_rounds_eq inverse_rounds_eq add_round_key_twice)
qed

text \<open>On the finite set of blocks a left inverse is an inverse.\<close>

lemma block_left_inverse:
  fixes f g :: "u8 list \<Rightarrow> u8 list"
  assumes "\<And>b. length b = w \<Longrightarrow> length (f b) = w" "\<And>b. length b = w \<Longrightarrow> g (f b) = b" "length b = w"
  shows "f (g b) = b"
proof -
  let ?A = "{b :: u8 list. length b = w}"
  have "finite ?A" using finite_lists_length_eq [of "UNIV :: u8 set" w] by simp
  moreover have "f ` ?A \<subseteq> ?A" using assms(1) by auto
  moreover have "inj_on f ?A" by (rule inj_onI) (metis assms(2) mem_Collect_eq)
  ultimately have "f ` ?A = ?A" by (rule endo_inj_surj)
  then obtain a where "length a = w" "b = f a" using assms(3) by auto
  then show ?thesis using assms(2) by simp
qed

section \<open>AES provides the cipher interface\<close>

definition aes_key_ok :: "tc_aes_block_key \<Rightarrow> bool" where
  "aes_key_ok k \<longleftrightarrow> schedule_ok (bk_env k) (bk_round_key k) (bk_rounds k)"

lemma length_cipher_rounds [simp, len_simps]:
  "length (snd (tc_aes_cipher_rounds e s rk rounds)) = length s"
  "length (snd (tc_aes_inverse_rounds e s rk rounds)) = length s"
proof -
  have "length (cipher_rounds_loop e rounds rk r s) = length s" for r s
  proof (induction e rounds rk r s rule: cipher_rounds_loop.induct)
    case (1 e rounds rk r s)
    then show ?case by (subst cipher_rounds_loop.simps) (simp add: Let_def)
  qed
  then show "length (snd (tc_aes_cipher_rounds e s rk rounds)) = length s"
    by (simp add: tc_aes_cipher_rounds_def Let_def)
  have "length (inverse_rounds_loop e rk r s) = length s" for r s
  proof (induction e rk r s rule: inverse_rounds_loop.induct)
    case (1 e rk r s)
    then show ?case by (subst inverse_rounds_loop.simps) (simp add: Let_def)
  qed
  then show "length (snd (tc_aes_inverse_rounds e s rk rounds)) = length s"
    by (simp add: tc_aes_inverse_rounds_def)
qed

lemma aes_cipher_fun:
  "cipher_fun (tc_aes_block_cipher k) b =
     snd (tc_aes_cipher_rounds (bk_env k) b (bk_round_key k) (bk_rounds k))"
  "inverse_fun (tc_aes_block_cipher_inverse k) b =
     snd (tc_aes_inverse_rounds (bk_env k) b (bk_round_key k) (bk_rounds k))"
  by (simp_all add: cipher_fun_def inverse_fun_def tc_aes_block_cipher_def
      tc_aes_block_cipher_inverse_def tc_aes_block_encrypt_def tc_aes_block_decrypt_def)

interpretation aes: block_cipher tc_aes_block_cipher aes_key_ok 16
proof unfold_locales
  fix k :: tc_aes_block_key and b :: "u8 list"
  show "block_size (tc_aes_block_cipher k) = 16"
    by (simp add: tc_aes_block_cipher_def TC_AES_BLOCKLEN_def)
  assume "length b = 16"
  show "fst (encrypt (tc_aes_block_cipher k) (key (tc_aes_block_cipher k)) b) = TC_OK"
    by (simp add: tc_aes_block_cipher_def tc_aes_block_encrypt_def tc_aes_cipher_rounds_def Let_def)
  show "length (cipher_fun (tc_aes_block_cipher k) b) = 16"
    using \<open>length b = 16\<close> by (simp add: aes_cipher_fun)
qed (simp_all add: TC_BLOCK_MAX_def)

lemma aes_dec_enc:
  "aes_key_ok k \<Longrightarrow> length b = 16 \<Longrightarrow>
   inverse_fun (tc_aes_block_cipher_inverse k) (cipher_fun (tc_aes_block_cipher k) b) = b"
  by (simp add: aes_cipher_fun aes_key_ok_def inverse_cipher_rounds)

interpretation aes: invertible_cipher tc_aes_block_cipher aes_key_ok 16 tc_aes_block_cipher_inverse
proof unfold_locales
  fix k :: tc_aes_block_key and b :: "u8 list"
  show "block_size (tc_aes_block_cipher_inverse k) = 16"
    by (simp add: tc_aes_block_cipher_inverse_def TC_AES_BLOCKLEN_def)
  assume k: "aes_key_ok k" and b: "length b = 16"
  show "\<exists>d. decrypt (tc_aes_block_cipher_inverse k) = Some d \<and>
      d (key (tc_aes_block_cipher_inverse k)) b = (TC_OK, inverse_fun (tc_aes_block_cipher_inverse k) b)"
    by (simp add: tc_aes_block_cipher_inverse_def inverse_fun_def tc_aes_block_decrypt_def tc_aes_inverse_rounds_def)
  show "length (inverse_fun (tc_aes_block_cipher_inverse k) b) = 16"
    using b by (simp add: aes_cipher_fun)
  show "inverse_fun (tc_aes_block_cipher_inverse k) (cipher_fun (tc_aes_block_cipher k) b) = b"
    using k b by (rule aes_dec_enc)
  show "cipher_fun (tc_aes_block_cipher k) (inverse_fun (tc_aes_block_cipher_inverse k) b) = b"
    by (rule block_left_inverse [OF aes.fwd_length [OF k] aes_dec_enc [OF k] b])
qed

end
