(* ===== verification/AES_FIPS.thy ===== *)
theory AES_FIPS
  imports AES
begin

text \<open>
  The cipher and the key schedule as FIPS 197 states them, and the refinement of both by the code of
  \<^verbatim>\<open>src/src/aes.c\<close>. The standard's state array is \<^verbatim>\<open>s[r, c] = in[r + 4c]\<close>; \<open>fips_state\<close> builds the 16 bytes of a
  state from such a function. The key schedule is the recurrence on 4-byte words, the cipher the sequence of
  transformations of the standard's pseudo code, each written without reference to the code's loops and
  in-place updates.
\<close>

section \<open>The standard\<close>

text \<open>Row \<open>r\<close> and column \<open>c\<close> of a state, and the state with given entries.\<close>

definition fips_at :: "u8 list \<Rightarrow> nat \<Rightarrow> nat \<Rightarrow> u8" where
  "fips_at s r c = s ! (r + 4 * c)"

definition fips_state :: "(nat \<Rightarrow> nat \<Rightarrow> u8) \<Rightarrow> u8 list" where
  "fips_state f = map (\<lambda>i. f (i mod 4) (i div 4)) [0..<16]"

definition fips_sub_bytes :: "u8 list \<Rightarrow> u8 list" where
  "fips_sub_bytes s = fips_state (\<lambda>r c. sbox ! unat (fips_at s r c))"

definition fips_shift_rows :: "u8 list \<Rightarrow> u8 list" where
  "fips_shift_rows s = fips_state (\<lambda>r c. fips_at s r ((c + r) mod 4))"

text \<open>The products \<^verbatim>\<open>{02} x\<close> and \<^verbatim>\<open>{03} x\<close> of FIPS 197 section 4.2.1.\<close>

definition gf_2 :: "u8 \<Rightarrow> u8" where
  "gf_2 x = (if bit x 7 then push_bit 1 x XOR 0x1b else push_bit 1 x)"

definition gf_3 :: "u8 \<Rightarrow> u8" where "gf_3 x = gf_2 x XOR x"

definition fips_mix_columns :: "u8 list \<Rightarrow> u8 list" where
  "fips_mix_columns s = fips_state (\<lambda>r c.
     gf_2 (fips_at s r c) XOR gf_3 (fips_at s ((r + 1) mod 4) c) XOR
     fips_at s ((r + 2) mod 4) c XOR fips_at s ((r + 3) mod 4) c)"

definition fips_add_round_key :: "(nat \<Rightarrow> u8 list) \<Rightarrow> nat \<Rightarrow> u8 list \<Rightarrow> u8 list" where
  "fips_add_round_key w round s = fips_state (\<lambda>r c. fips_at s r c XOR w (4 * round + c) ! r)"

definition fips_round :: "(nat \<Rightarrow> u8 list) \<Rightarrow> nat \<Rightarrow> u8 list \<Rightarrow> u8 list" where
  "fips_round w round s = fips_add_round_key w round (fips_mix_columns (fips_shift_rows (fips_sub_bytes s)))"

definition fips_cipher :: "(nat \<Rightarrow> u8 list) \<Rightarrow> nat \<Rightarrow> u8 list \<Rightarrow> u8 list" where
  "fips_cipher w rounds s =
     fips_add_round_key w rounds (fips_shift_rows (fips_sub_bytes
       (fold (fips_round w) [1..<rounds] (fips_add_round_key w 0 s))))"

text \<open>The key schedule of section 5.2: word \<open>i\<close> of the expansion of a key of \<open>nk\<close> words.\<close>

definition fips_rcon :: "nat \<Rightarrow> u8 list" where
  "fips_rcon j = [(gf_2 ^^ (j - 1)) 1, 0, 0, 0]"

definition fips_sub_word :: "u8 list \<Rightarrow> u8 list" where
  "fips_sub_word t = map (\<lambda>b. sbox ! unat b) t"

function fips_word :: "nat \<Rightarrow> u8 list \<Rightarrow> nat \<Rightarrow> u8 list" where
  "fips_word nk k i =
     (if nk = 0 \<or> i < nk then take 4 (drop (4 * i) k)
      else let temp = fips_word nk k (i - 1)
           in xorl (fips_word nk k (i - nk))
                (if i mod nk = 0 then xorl (fips_sub_word (rotate1 temp)) (fips_rcon (i div nk))
                 else if nk > 6 \<and> i mod nk = 4 then fips_sub_word temp
                 else temp))"
  by pat_completeness auto
termination
  by (relation "measure (\<lambda>(nk, k, i). i)") auto

declare fips_word.simps [simp del]

section \<open>The transformations\<close>

lemma gf_2_xtime: "gf_2 = tc_aes_xtime"
  by (rule ext) (simp add: gf_2_def tc_aes_xtime_def drop_bit_7_u8)

lemmas fips_defs = fips_state_def fips_at_def upt_0_16

lemma length_fips_state [simp, len_simps]: "length (fips_state f) = 16"
  by (simp add: fips_state_def)

lemma sub_bytes_fips:
  "aes_env_ready e \<Longrightarrow> length s = 16 \<Longrightarrow> tc_aes_sub_bytes e s = fips_sub_bytes s"
  by (erule state_cases) (simp add: sub_bytes_eq sbox_value_eq fips_sub_bytes_def fips_defs)

lemma shift_rows_fips: "length s = 16 \<Longrightarrow> tc_aes_shift_rows s = fips_shift_rows s"
  by (erule state_cases) (simp add: tc_aes_shift_rows_def Let_def fips_shift_rows_def fips_defs)

lemma mix_columns_fips: "length s = 16 \<Longrightarrow> tc_aes_mix_columns s = fips_mix_columns s"
  by (erule state_cases)
    (simp add: tc_aes_mix_columns_def upt_0_4 mix_column_def Let_def fips_mix_columns_def fips_defs
      gf_3_def gf_2_xtime xtime_xor xor_ac)

text \<open>The words of a schedule stored as bytes.\<close>

definition schedule_word :: "u8 list \<Rightarrow> nat \<Rightarrow> u8 list" where
  "schedule_word rk i = take 4 (drop (4 * i) rk)"

lemma schedule_word_nth:
  "r < 4 \<Longrightarrow> 4 * i + 4 \<le> length rk \<Longrightarrow> schedule_word rk i ! r = rk ! (4 * i + r)"
  by (simp add: schedule_word_def)

lemma add_round_key_fips:
  assumes "length s = 16" "16 * unat r + 16 \<le> length rk"
  shows "tc_aes_add_round_key r s rk = fips_add_round_key (schedule_word rk) (unat r) s"
proof (rule nth_equalityI)
  fix i assume "i < length (tc_aes_add_round_key r s rk)"
  then have i: "i < 16" using assms by simp
  have m: "4 * (4 * unat r + i div 4) + i mod 4 = 16 * unat r + i" by simp
  have "i div 4 \<le> 3" using i by simp
  then have "4 * (4 * unat r + i div 4) + 4 \<le> length rk" using assms(2) by simp
  from schedule_word_nth [OF _ this, of "i mod 4"]
  have "schedule_word rk (4 * unat r + i div 4) ! (i mod 4) = rk ! (16 * unat r + i)"
    unfolding m by simp
  then show "tc_aes_add_round_key r s rk ! i = fips_add_round_key (schedule_word rk) (unat r) s ! i"
    using assms i by (simp add: add_round_key_eq fips_add_round_key_def fips_state_def fips_at_def)
qed (use assms in \<open>simp add: fips_add_round_key_def\<close>)

lemma fwd_rounds_fips:
  assumes "aes_env_ready e" "length s = 16" "16 * (r + m) + 16 \<le> length rk" "r + m < 256"
  shows "fwd_rounds e rk r m s =
    fips_shift_rows (fips_sub_bytes (fold (fips_round (schedule_word rk)) [r..<r + m] s))"
  using assms
proof (induction m arbitrary: r s)
  case 0
  then show ?case by (simp add: sub_bytes_fips shift_rows_fips fips_sub_bytes_def)
next
  case (Suc m)
  let ?t = "tc_aes_add_round_key (of_nat r) (tc_aes_mix_columns (tc_aes_shift_rows (tc_aes_sub_bytes e s))) rk"
  have r: "unat (of_nat r :: u8) = r" using Suc.prems by simp
  have t: "?t = fips_round (schedule_word rk) r s"
    using Suc.prems r by (simp add: add_round_key_fips sub_bytes_fips shift_rows_fips mix_columns_fips
        fips_round_def fips_sub_bytes_def fips_shift_rows_def fips_mix_columns_def)
  have "length ?t = 16" using Suc.prems by simp
  then have "fwd_rounds e rk (Suc r) m ?t =
      fips_shift_rows (fips_sub_bytes (fold (fips_round (schedule_word rk)) [Suc r..<Suc r + m] ?t))"
    using Suc.prems by (intro Suc.IH) simp_all
  then show ?case
    by (simp only: fwd_rounds.simps upt_add_Suc t fold_simps)
qed

lemma cipher_rounds_fips:
  assumes "schedule_ok e rk rounds" "length s = 16"
  shows "tc_aes_cipher_rounds e s rk rounds = (TC_OK, fips_cipher (schedule_word rk) (unat rounds) s)"
proof -
  let ?n = "unat rounds"
  have pos: "0 < ?n" and ready: "aes_env_ready e" and rk: "16 * ?n + 16 \<le> length rk"
    using assms(1) by (simp_all add: schedule_ok_def)
  let ?a = "tc_aes_add_round_key 0 s rk"
  have a: "?a = fips_add_round_key (schedule_word rk) 0 s"
    using add_round_key_fips [of s 0 rk] assms(2) rk by simp
  have "fwd_rounds e rk 1 (?n - 1) ?a =
      fips_shift_rows (fips_sub_bytes (fold (fips_round (schedule_word rk)) [1..<1 + (?n - 1)] ?a))"
    using ready rk assms(2) pos unat_u8_less [of rounds] by (intro fwd_rounds_fips) simp_all
  then show ?thesis
    using pos rk by (simp add: cipher_rounds_eq a fips_cipher_def add_round_key_fips
        fips_shift_rows_def)
qed

section \<open>The key schedule\<close>

lemma memcpy_at_4:
  assumes "i + 4 \<le> length xs"
  shows "xs[i := a, i + 1 := b, i + 2 := c, i + 3 := d] = memcpy_at xs i [a, b, c, d]"
proof -
  define p q where "p = take i xs" and "q = drop (i + 4) xs"
  have "take 4 (drop i xs) = map (\<lambda>j. xs ! (i + j)) [0..<4]"
    using assms by (rule take_drop_nth)
  then obtain x y z w where m: "take 4 (drop i xs) = [x, y, z, w]" by (simp add: upt_0_4)
  have "drop i xs = [x, y, z, w] @ q"
    using append_take_drop_id [of 4 "drop i xs"] by (simp add: m q_def add.commute)
  then have xs: "xs = p @ [x, y, z, w] @ q" by (metis append_take_drop_id p_def)
  have "length p = i" using assms by (simp add: p_def)
  then show ?thesis
    unfolding xs by (simp add: memcpy_at_def list_update_append)
qed

lemma schedule_word_list:
  "4 * i + 4 \<le> length rk \<Longrightarrow>
   schedule_word rk i = [rk ! (4 * i), rk ! (4 * i + 1), rk ! (4 * i + 2), rk ! (4 * i + 3)]"
  using take_drop_nth [of "4 * i" 4 rk] by (simp add: schedule_word_def upt_0_4)

lemma schedule_word_memcpy:
  assumes "length t = 4" "4 * i + 4 \<le> length rk"
  shows "schedule_word (memcpy_at rk (4 * i) t) i = t"
    and "j < i \<Longrightarrow> schedule_word (memcpy_at rk (4 * i) t) j = schedule_word rk j"
proof -
  show "schedule_word (memcpy_at rk (4 * i) t) i = t"
    using assms by (simp add: schedule_word_def memcpy_at_def)
  assume "j < i"
  then show "schedule_word (memcpy_at rk (4 * i) t) j = schedule_word rk j"
    using assms by (simp add: schedule_word_def memcpy_at_def take_drop min_def)
qed

lemma expansion_store:
  assumes "k + 4 \<le> j" "j + 4 \<le> length rk"
  shows "rk[j := rk ! k XOR a, j + 1 := rk[j := rk ! k XOR a] ! (k + 1) XOR b,
    j + 2 := rk[j := rk ! k XOR a, j + 1 := rk[j := rk ! k XOR a] ! (k + 1) XOR b] ! (k + 2) XOR c,
    j + 3 := rk[j := rk ! k XOR a, j + 1 := rk[j := rk ! k XOR a] ! (k + 1) XOR b,
      j + 2 := rk[j := rk ! k XOR a, j + 1 := rk[j := rk ! k XOR a] ! (k + 1) XOR b] ! (k + 2) XOR c]
      ! (k + 3) XOR d] =
    memcpy_at rk j (xorl [rk ! k, rk ! (k + 1), rk ! (k + 2), rk ! (k + 3)] [a, b, c, d])"
  using assms memcpy_at_4 [OF assms(2)] by simp

text \<open>One iteration writes word \<open>i\<close>; the round constant steps at every multiple of the key length.\<close>

lemma key_expansion_step_eq:
  assumes "words \<in> {4, 6, 8}" "words \<le> i" "4 * i + 4 \<le> length rk" "aes_env_ready e"
  defines "temp \<equiv> schedule_word rk (i - 1)"
  shows "key_expansion_step e words i (rk, rcon) =
    (memcpy_at rk (4 * i) (xorl (schedule_word rk (i - words))
       (if i mod words = 0 then xorl (fips_sub_word (rotate1 temp)) [rcon, 0, 0, 0]
        else if words > 6 \<and> i mod words = 4 then fips_sub_word temp else temp)),
     if i mod words = 0 then gf_2 rcon else rcon)"
proof -
  have w8: "words = 8 \<longleftrightarrow> words > 6" using assms(1) by auto
  have pos: "4 \<le> words" using assms(1) by auto
  have i1: "4 * (i - 1) + 4 \<le> length rk" "4 * (i - words) + 4 \<le> length rk" using assms pos by simp_all
  have lt: "4 * (i - words) + 4 \<le> 4 * i" using assms(2) pos by simp
  note store = expansion_store [OF lt assms(3), unfolded schedule_word_list [OF i1(2), symmetric]]
  obtain a b c d where t: "temp = [a, b, c, d]"
    and abcd: "rk ! (4 * (i - 1)) = a" "rk ! (4 * (i - 1) + 1) = b" "rk ! (4 * (i - 1) + 2) = c"
      "rk ! (4 * (i - 1) + 3) = d"
    using schedule_word_list [OF i1(1)] by (auto simp: temp_def)
  have k: "(i - 1) * 4 = 4 * (i - 1)" "(i - words) * 4 = 4 * (i - words)" "i * 4 = 4 * i" by simp_all
  have sw: "sub_word e [x, y, z, w] = fips_sub_word [x, y, z, w]" for x y z w
    by (simp add: sub_word_def fips_sub_word_def sbox_value_eq [OF assms(4)])
  consider "i mod words = 0" | "i mod words \<noteq> 0" "words > 6 \<and> i mod words = 4"
    | "i mod words \<noteq> 0" "\<not> (words > 6 \<and> i mod words = 4)" by blast
  then show ?thesis
  proof cases
    case 1
    then show ?thesis
      unfolding key_expansion_step_def k Let_def prod.case t add_0_right abcd
      by (simp add: w8 rot_word_def sw fips_sub_word_def gf_2_xtime store [simplified])
  next
    case 2
    then show ?thesis
      unfolding key_expansion_step_def k Let_def prod.case t add_0_right abcd
      by (simp add: w8 sw fips_sub_word_def store [simplified])
  next
    case 3
    then show ?thesis
      unfolding key_expansion_step_def k Let_def prod.case t add_0_right abcd
      by (auto simp: w8 store [simplified])
  qed
qed

text \<open>After the words below \<open>n\<close> are written, the schedule holds the words of the standard.\<close>

definition expansion_inv :: "nat \<Rightarrow> u8 list \<Rightarrow> nat \<Rightarrow> nat \<Rightarrow> u8 list \<times> u8 \<Rightarrow> bool" where
  "expansion_inv words k len n s \<longleftrightarrow>
     length (fst s) = len \<and> (\<forall>i < n. schedule_word (fst s) i = fips_word words k i) \<and>
     snd s = (gf_2 ^^ ((n - 1) div words)) 1"

lemma expansion_inv_step:
  assumes w: "words \<in> {4, 6, 8}" and n: "words \<le> n" "4 * n + 4 \<le> len"
    and e: "aes_env_ready e" and inv: "expansion_inv words k len n s"
  shows "expansion_inv words k len (Suc n) (key_expansion_step e words n s)"
proof -
  obtain rk rcon where s: "s = (rk, rcon)" by fastforce
  have pos: "0 < words" using w by auto
  have len: "length rk = len" and wd: "\<And>i. i < n \<Longrightarrow> schedule_word rk i = fips_word words k i"
    and rc: "rcon = (gf_2 ^^ ((n - 1) div words)) 1"
    using inv by (simp_all add: expansion_inv_def s)
  let ?temp = "fips_word words k (n - 1)"
  let ?t = "if n mod words = 0 then xorl (fips_sub_word (rotate1 ?temp)) [rcon, 0, 0, 0]
        else if words > 6 \<and> n mod words = 4 then fips_sub_word ?temp else ?temp"
  have dv: "n div words - 1 = (n - 1) div words" if z: "n mod words = 0"
  proof -
    from z obtain q where q: "n = words * q" by (auto elim: dvdE simp: mod_eq_0_iff_dvd)
    then have "0 < q" using n(1) pos by (cases q) auto
    moreover have "(words * q - 1) div words = q - 1"
      by (rule div_nat_eqI) (use \<open>0 < q\<close> pos in \<open>simp_all add: diff_mult_distrib2\<close>)
    ultimately show ?thesis using q pos by simp
  qed
  have nd: "n mod words \<noteq> 0 \<Longrightarrow> n div words = (n - 1) div words"
    by (metis Suc_pred' div_Suc mod_0 gr_zeroI)
  have rc': "(gf_2 ^^ (n div words)) 1 = (if n mod words = 0 then gf_2 rcon else rcon)"
  proof (cases "n mod words = 0")
    case True
    have "n div words \<noteq> 0" using n(1) pos by (simp add: div_eq_0_iff)
    then have "n div words = Suc ((n - 1) div words)" using dv [OF True] by linarith
    then show ?thesis using True rc by simp
  qed (use nd rc in simp)
  have "fips_word words k n = xorl (fips_word words k (n - words)) ?t"
    using n(1) pos dv by (subst fips_word.simps) (simp add: Let_def rc fips_rcon_def)
  moreover have step: "key_expansion_step e words n (rk, rcon) =
      (memcpy_at rk (4 * n) (xorl (fips_word words k (n - words)) ?t), if n mod words = 0 then gf_2 rcon else rcon)"
    using key_expansion_step_eq [OF w n(1) _ e, of rk rcon] n len wd pos by simp
  moreover have "length (xorl (fips_word words k (n - words)) ?t) = 4"
  proof -
    have l: "length (fips_word words k i) = 4" if "i < n" for i
      using wd [OF that, symmetric] that n len by (simp add: schedule_word_def)
    then show ?thesis using n(1) pos by (simp add: fips_sub_word_def)
  qed
  ultimately show ?thesis
    using n len wd rc'
    by (auto simp: expansion_inv_def s schedule_word_memcpy length_memcpy_at less_Suc_eq)
qed

lemma expansion_inv_fold:
  assumes "words \<in> {4, 6, 8}" "words \<le> m" "4 * (m + d) \<le> len" "aes_env_ready e"
    "expansion_inv words k len m s"
  shows "expansion_inv words k len (m + d) (fold (key_expansion_step e words) [m..<m + d] s)"
  using assms
proof (induction d)
  case 0
  then show ?case by simp
next
  case (Suc d)
  then show ?case
    using expansion_inv_step [of words "m + d" len e k "fold (key_expansion_step e words) [m..<m + d] s"]
    by simp
qed

lemma key_expansion_fips:
  assumes w: "words \<in> {4, 6, 8}" and k: "4 * words \<le> length k" and rk: "16 * (words + 7) \<le> length rk"
    and e: "aes_env_ready e"
  shows "length (tc_aes_key_expansion e rk k words) = length rk"
    and "i < 4 * (words + 7) \<Longrightarrow> schedule_word (tc_aes_key_expansion e rk k words) i = fips_word words k i"
proof -
  let ?s = "(memcpy_at rk 0 (take (words * 4) k), 1 :: u8)"
  have pos: "0 < words" using w by auto
  have init: "schedule_word (fst ?s) i = fips_word words k i" if i: "i < words" for i
  proof -
    have "take 4 (drop (4 * i) (take (words * 4) k)) = take 4 (drop (4 * i) k)"
      using i by (simp add: take_drop min_def)
    then show ?thesis
      using i k by (subst fips_word.simps) (simp add: schedule_word_def memcpy_at_def)
  qed
  have "expansion_inv words k (length rk) words ?s"
    using init k rk pos by (simp add: expansion_inv_def length_memcpy_at)
  then have "expansion_inv words k (length rk) (words + (3 * words + 28))
      (fold (key_expansion_step e words) [words..<words + (3 * words + 28)] ?s)"
    using w rk e by (intro expansion_inv_fold) simp_all
  then have inv: "expansion_inv words k (length rk) (4 * (words + 7))
      (fold (key_expansion_step e words) [words..<4 * (words + 6 + 1)] ?s)"
    by (simp add: algebra_simps)
  then show "length (tc_aes_key_expansion e rk k words) = length rk"
    by (simp add: tc_aes_key_expansion_def Nb_def expansion_inv_def)
  assume "i < 4 * (words + 7)"
  with inv show "schedule_word (tc_aes_key_expansion e rk k words) i = fips_word words k i"
    by (simp add: tc_aes_key_expansion_def Nb_def expansion_inv_def)
qed

text \<open>The cipher depends only on the words of the schedule it reads.\<close>

lemma fips_cipher_cong:
  assumes "\<And>i. i < 4 * rounds + 4 \<Longrightarrow> w i = w' i" "0 < rounds"
  shows "fips_cipher w rounds s = fips_cipher w' rounds s"
proof -
  have ark: "fips_add_round_key w r s = fips_add_round_key w' r s" if "r \<le> rounds" for r s
    using assms(1) that by (auto simp: fips_add_round_key_def fips_state_def intro!: map_cong)
  have "fold (fips_round w) [1..<rounds] s = fold (fips_round w') [1..<rounds] s" for s
    by (rule fold_cong) (auto simp: fips_round_def ark)
  then show ?thesis by (simp add: fips_cipher_def ark)
qed

text \<open>AES on a key as the standard defines it: the key selects the number of rounds.\<close>

definition fips_aes :: "u8 list \<Rightarrow> u8 list \<Rightarrow> u8 list" where
  "fips_aes k block = fips_cipher (fips_word (length k div 4) k) (length k div 4 + 6) block"

lemma cipher_expansion_fips:
  assumes "length k \<in> {16, 24, 32}" "4 * length k + 112 \<le> length rk" "length block = 16" "aes_env_ready e"
  shows "tc_aes_cipher_rounds e block (tc_aes_key_expansion e rk k (length k div 4)) (of_nat (length k div 4 + 6))
           = (TC_OK, fips_aes k block)"
proof -
  let ?w = "length k div 4" let ?rk = "tc_aes_key_expansion e rk k ?w"
  have w: "?w \<in> {4, 6, 8}" and k: "4 * ?w \<le> length k" "4 * ?w = length k" using assms(1) by auto
  have u: "unat (of_nat (?w + 6) :: u8) = ?w + 6" using w by (intro unat_of_nat_u8) auto
  have rk: "16 * (?w + 7) \<le> length rk" using assms(2) k by simp
  note exp = key_expansion_fips [OF w k(1) rk assms(4)]
  have "schedule_ok e ?rk (of_nat (?w + 6))"
    using assms(4) rk by (simp add: schedule_ok_def u exp(1) del: of_nat_add)
  from cipher_rounds_fips [OF this assms(3)] show ?thesis
    unfolding u fips_aes_def using exp(2) by (auto intro!: fips_cipher_cong)
qed

end
