(* ===== verification/AES_Modes.thy ===== *)
theory AES_Modes
  imports AES_FIPS
begin

text \<open>
  AES key contexts, dynamic-length keys and the public confidentiality modes: the context operations of
  \<^verbatim>\<open>src/src/aes.c\<close> and \<^verbatim>\<open>src/src/aes_modes.c\<close> (ECB, CBC, CTR, OFB, single blocks and CBC over dynamic keys).
  Every operation takes the context as an object (address, size, value) and the spans it is given, performs
  the argument checks of the source and returns the status with the new contents. The invariant
  \<open>aes_ctx_wf\<close> ties an active context to a complete schedule; the lemmas show that every operation keeps it,
  what each returns on every branch, and that the modes round trip.
\<close>

section \<open>Contexts\<close>

record TC_AES_key_ctx =
  kc_round_key :: "u8 list"
  kc_active :: u8

record TC_AES_ctx =
  ac_key :: TC_AES_key_ctx
  ac_iv :: "u8 list"
  ac_iv_loaded :: u8
  ac_ctr_stream :: "u8 list"
  ac_ctr_pos :: nat
  ac_ctr_exhausted :: u8
  ac_ofb_pos :: nat

record TC_AES_dynamic_key =
  dk_round_key :: "u8 list"
  dk_rounds :: u8

text \<open>The all-zero structures a wipe leaves behind.\<close>

definition key_ctx_zero :: "aes_env \<Rightarrow> TC_AES_key_ctx" where
  "key_ctx_zero e = \<lparr>kc_round_key = replicate (TC_AES_KEY_EXP_SIZE e) 0, kc_active = 0\<rparr>"

definition aes_ctx_zero :: "aes_env \<Rightarrow> TC_AES_ctx" where
  "aes_ctx_zero e =
     \<lparr>ac_key = key_ctx_zero e, ac_iv = replicate TC_AES_BLOCKLEN 0, ac_iv_loaded = 0,
      ac_ctr_stream = replicate TC_AES_BLOCKLEN 0, ac_ctr_pos = 0, ac_ctr_exhausted = 0, ac_ofb_pos = 0\<rparr>"

definition dynamic_key_zero :: TC_AES_dynamic_key where
  "dynamic_key_zero = \<lparr>dk_round_key = replicate 240 0, dk_rounds = 0\<rparr>"

definition sizeof_key_ctx :: "aes_env \<Rightarrow> nat" where
  "sizeof_key_ctx e = TC_AES_KEY_EXP_SIZE e + 1"

text \<open>\<^verbatim>\<open>sizeof(TC_AES_dynamic_key)\<close>: 240 schedule bytes and the round count.\<close>

definition sizeof_dynamic_key :: nat where "sizeof_dynamic_key = 241"

definition TC_AES_ctx_clear :: "aes_env \<Rightarrow> TC_AES_ctx obj \<Rightarrow> TC_AES_ctx obj" where
  "TC_AES_ctx_clear e ctx = (if o_addr ctx = NULL then ctx else ctx\<lparr>o_val := aes_ctx_zero e\<rparr>)"

definition TC_AES_key_ctx_clear :: "aes_env \<Rightarrow> TC_AES_key_ctx obj \<Rightarrow> TC_AES_key_ctx obj" where
  "TC_AES_key_ctx_clear e ctx = (if o_addr ctx = NULL then ctx else ctx\<lparr>o_val := key_ctx_zero e\<rparr>)"

definition TC_AES_key_init :: "aes_env \<Rightarrow> TC_AES_key_ctx obj \<Rightarrow> TC_bytes \<Rightarrow> TC_status \<times> TC_AES_key_ctx obj" where
  "TC_AES_key_init e ctx k =
     (if o_addr ctx = NULL then (TC_ERROR, ctx)
      else if b_length k \<noteq> TC_AES_KEYLEN e \<or> \<not> tc_internal_span_valid (b_data k) (b_length k) \<or>
              \<not> tc_internal_ranges_disjoint (o_addr ctx) (o_size ctx) (b_data k) (b_length k)
      then (TC_ERROR, TC_AES_key_ctx_clear e ctx)
      else let ctx = TC_AES_key_ctx_clear e ctx
           in if aes_mode e = SBOX_MODE_RUNTIME \<and> sbox_ready e = 0 then (TC_ERROR, ctx)
              else (TC_OK, ctx\<lparr>o_val := \<lparr>kc_round_key =
                      tc_aes_key_expansion e (kc_round_key (o_val ctx)) (b_mem k) (Nk e),
                      kc_active = 1\<rparr>\<rparr>))"

text \<open>\<^verbatim>\<open>&ctx->key\<close> is the first member of the context.\<close>

definition TC_AES_init :: "aes_env \<Rightarrow> TC_AES_ctx obj \<Rightarrow> TC_bytes \<Rightarrow> TC_status \<times> TC_AES_ctx obj" where
  "TC_AES_init e ctx k =
     (if o_addr ctx = NULL then (TC_ERROR, ctx)
      else if b_length k \<noteq> TC_AES_KEYLEN e \<or> \<not> tc_internal_span_valid (b_data k) (b_length k) \<or>
              \<not> tc_internal_ranges_disjoint (o_addr ctx) (o_size ctx) (b_data k) (b_length k)
      then (TC_ERROR, TC_AES_ctx_clear e ctx)
      else let ctx = TC_AES_ctx_clear e ctx;
               (status, key_ctx) = TC_AES_key_init e
                 \<lparr>o_addr = o_addr ctx, o_size = sizeof_key_ctx e, o_val = ac_key (o_val ctx)\<rparr> k
           in (status, ctx\<lparr>o_val := (o_val ctx)\<lparr>ac_key := o_val key_ctx\<rparr>\<rparr>))"

definition TC_AES_set_iv :: "TC_AES_ctx obj \<Rightarrow> TC_bytes \<Rightarrow> TC_status \<times> TC_AES_ctx obj" where
  "TC_AES_set_iv ctx iv =
     (if b_length iv \<noteq> TC_AES_BLOCKLEN \<or>
         \<not> tc_block_mode_args (o_addr ctx) (o_size ctx) (b_data iv) (b_length iv) 1 \<or>
         kc_active (ac_key (o_val ctx)) \<noteq> 1
      then (TC_ERROR, ctx)
      else (TC_OK, ctx\<lparr>o_val := (o_val ctx)\<lparr>ac_iv := b_mem iv, ac_iv_loaded := 1,
              ac_ctr_pos := TC_AES_BLOCKLEN, ac_ctr_exhausted := 0, ac_ofb_pos := TC_AES_BLOCKLEN\<rparr>\<rparr>))"

section \<open>Validity checks and descriptors of a context\<close>

definition AES_MODE_VALID :: "'a obj \<Rightarrow> TC_AES_key_ctx \<Rightarrow> TC_buffer \<Rightarrow> nat \<Rightarrow> bool" where
  "AES_MODE_VALID ctx key_ctx buf alignment \<longleftrightarrow>
     tc_block_mode_args (o_addr ctx) (o_size ctx) (w_data buf) (w_capacity buf) alignment \<and>
     kc_active key_ctx = 1"

definition AES_IV_MODE_VALID :: "TC_AES_ctx obj \<Rightarrow> TC_buffer \<Rightarrow> nat \<Rightarrow> bool" where
  "AES_IV_MODE_VALID ctx buf alignment \<longleftrightarrow>
     AES_MODE_VALID ctx (ac_key (o_val ctx)) buf alignment \<and> ac_iv_loaded (o_val ctx) = 1"

definition tc_aes_ctx_key :: "aes_env \<Rightarrow> TC_AES_ctx \<Rightarrow> tc_aes_block_key" where
  "tc_aes_ctx_key e c =
     \<lparr>bk_env = e, bk_round_key = kc_round_key (ac_key c), bk_rounds = TC_AES_FIXED_ROUNDS e\<rparr>"

definition tc_aes_block_result :: "TC_status \<times> u8 list \<Rightarrow> TC_status \<times> u8 list" where
  "tc_aes_block_result r =
     (case r of (status, buf) \<Rightarrow> (status, if status \<noteq> TC_OK then wipe_bytes buf TC_AES_BLOCKLEN else buf))"

section \<open>ECB\<close>

definition TC_AES_ECB_encrypt :: "aes_env \<Rightarrow> TC_AES_key_ctx obj \<Rightarrow> TC_buffer \<Rightarrow> TC_status \<times> TC_buffer" where
  "TC_AES_ECB_encrypt e ctx buf =
     (if w_capacity buf \<noteq> TC_AES_BLOCKLEN \<or> \<not> AES_MODE_VALID ctx (o_val ctx) buf 1 then (TC_ERROR, buf)
      else case tc_aes_block_result (tc_aes_cipher e (w_mem buf) (kc_round_key (o_val ctx)))
           of (status, m) \<Rightarrow> (status, buf\<lparr>w_mem := m\<rparr>))"

definition TC_AES_ECB_decrypt :: "aes_env \<Rightarrow> TC_AES_key_ctx obj \<Rightarrow> TC_buffer \<Rightarrow> TC_status \<times> TC_buffer" where
  "TC_AES_ECB_decrypt e ctx buf =
     (if w_capacity buf \<noteq> TC_AES_BLOCKLEN \<or> \<not> AES_MODE_VALID ctx (o_val ctx) buf 1 then (TC_ERROR, buf)
      else case tc_aes_block_result
                  (tc_aes_inverse_rounds e (w_mem buf) (kc_round_key (o_val ctx)) (TC_AES_FIXED_ROUNDS e))
           of (status, m) \<Rightarrow> (status, buf\<lparr>w_mem := m\<rparr>))"

section \<open>CBC\<close>

definition TC_AES_CBC_encrypt ::
  "aes_env \<Rightarrow> TC_AES_ctx obj \<Rightarrow> TC_buffer \<Rightarrow> TC_status \<times> TC_AES_ctx obj \<times> TC_buffer" where
  "TC_AES_CBC_encrypt e ctx buf =
     (if \<not> AES_IV_MODE_VALID ctx buf TC_AES_BLOCKLEN then (TC_ERROR, ctx, buf)
      else let cipher = tc_aes_block_cipher (tc_aes_ctx_key e (o_val ctx))
           in case tc_block_cbc_encrypt cipher (ac_iv (o_val ctx)) (w_mem buf) (w_capacity buf)
              of (status, iv, m) \<Rightarrow>
                let ctx = ctx\<lparr>o_val := (o_val ctx)\<lparr>ac_iv := iv\<rparr>\<rparr>; buf = buf\<lparr>w_mem := m\<rparr>
                in if status \<noteq> TC_OK then (TC_ERROR, TC_AES_ctx_clear e ctx, buf) else (TC_OK, ctx, buf))"

definition TC_AES_CBC_decrypt ::
  "aes_env \<Rightarrow> TC_AES_ctx obj \<Rightarrow> TC_buffer \<Rightarrow> TC_status \<times> TC_AES_ctx obj \<times> TC_buffer" where
  "TC_AES_CBC_decrypt e ctx buf =
     (if \<not> AES_IV_MODE_VALID ctx buf TC_AES_BLOCKLEN then (TC_ERROR, ctx, buf)
      else let cipher = tc_aes_block_cipher_inverse (tc_aes_ctx_key e (o_val ctx))
           in case tc_block_cbc_decrypt cipher (ac_iv (o_val ctx)) (w_mem buf) (w_capacity buf)
              of (status, iv, m) \<Rightarrow>
                let ctx = ctx\<lparr>o_val := (o_val ctx)\<lparr>ac_iv := iv\<rparr>\<rparr>; buf = buf\<lparr>w_mem := m\<rparr>
                in if status \<noteq> TC_OK then (TC_ERROR, TC_AES_ctx_clear e ctx, buf) else (TC_OK, ctx, buf))"

section \<open>CTR and OFB\<close>

text \<open>The CTR core works on the context through pointers; the model copies the members in and out.\<close>

definition aes_ctr_state :: "TC_AES_ctx \<Rightarrow> tc_block_ctr_state" where
  "aes_ctr_state c =
     \<lparr>counter = ac_iv c, keystream = ac_ctr_stream c, used = ac_ctr_pos c, exhausted = ac_ctr_exhausted c\<rparr>"

definition aes_put_ctr_state :: "tc_block_ctr_state \<Rightarrow> TC_AES_ctx \<Rightarrow> TC_AES_ctx" where
  "aes_put_ctr_state s c =
     c\<lparr>ac_iv := counter s, ac_ctr_stream := keystream s, ac_ctr_pos := used s, ac_ctr_exhausted := exhausted s\<rparr>"

definition TC_AES_CTR_crypt ::
  "aes_env \<Rightarrow> TC_AES_ctx obj \<Rightarrow> TC_buffer \<Rightarrow> TC_status \<times> TC_AES_ctx obj \<times> TC_buffer" where
  "TC_AES_CTR_crypt e ctx buf =
     (if \<not> AES_IV_MODE_VALID ctx buf 1 then (TC_ERROR, ctx, buf)
      else let state = aes_ctr_state (o_val ctx)
           in if \<not> tc_block_ctr_request_ok state TC_AES_BLOCKLEN (w_capacity buf) then (TC_ERROR, ctx, buf)
              else let cipher = tc_aes_block_cipher (tc_aes_ctx_key e (o_val ctx))
                   in case tc_block_ctr_crypt cipher state (w_mem buf) (w_capacity buf)
                      of (status, state, m) \<Rightarrow>
                        let ctx = ctx\<lparr>o_val := aes_put_ctr_state state (o_val ctx)\<rparr>; buf = buf\<lparr>w_mem := m\<rparr>
                        in if status \<noteq> TC_OK then (TC_ERROR, TC_AES_ctx_clear e ctx, buf)
                           else (TC_OK, ctx, buf))"

definition TC_AES_OFB_crypt ::
  "aes_env \<Rightarrow> TC_AES_ctx obj \<Rightarrow> TC_buffer \<Rightarrow> TC_status \<times> TC_AES_ctx obj \<times> TC_buffer" where
  "TC_AES_OFB_crypt e ctx buf =
     (if \<not> AES_IV_MODE_VALID ctx buf 1 \<or> ac_ofb_pos (o_val ctx) > TC_AES_BLOCKLEN then (TC_ERROR, ctx, buf)
      else let cipher = tc_aes_block_cipher (tc_aes_ctx_key e (o_val ctx))
           in case tc_block_ofb_crypt cipher (ac_iv (o_val ctx)) (ac_ofb_pos (o_val ctx)) (w_mem buf) (w_capacity buf)
              of (status, iv, pos, m) \<Rightarrow>
                let ctx = ctx\<lparr>o_val := (o_val ctx)\<lparr>ac_iv := iv, ac_ofb_pos := pos\<rparr>\<rparr>; buf = buf\<lparr>w_mem := m\<rparr>
                in if status \<noteq> TC_OK then (TC_ERROR, TC_AES_ctx_clear e ctx, buf) else (TC_OK, ctx, buf))"

section \<open>Dynamic-length keys\<close>

definition tc_aes_dynamic_key_valid :: "TC_AES_dynamic_key obj \<Rightarrow> bool" where
  "tc_aes_dynamic_key_valid ctx \<longleftrightarrow>
     o_addr ctx \<noteq> NULL \<and>
     (dk_rounds (o_val ctx) = 10 \<or> dk_rounds (o_val ctx) = 12 \<or> dk_rounds (o_val ctx) = 14)"

definition TC_AES_dynamic_key_clear :: "TC_AES_dynamic_key obj \<Rightarrow> TC_AES_dynamic_key obj" where
  "TC_AES_dynamic_key_clear ctx = (if o_addr ctx \<noteq> NULL then ctx\<lparr>o_val := dynamic_key_zero\<rparr> else ctx)"

definition TC_AES_dynamic_key_init ::
  "aes_env \<Rightarrow> TC_AES_dynamic_key obj \<Rightarrow> TC_bytes \<Rightarrow> TC_status \<times> TC_AES_dynamic_key obj" where
  "TC_AES_dynamic_key_init e ctx k =
     (if o_addr ctx = NULL then (TC_ERROR, ctx)
      else let valid = ((b_length k = 16 \<or> b_length k = 24 \<or> b_length k = 32) \<and>
                        tc_internal_span_valid (b_data k) (b_length k) \<and>
                        tc_internal_ranges_disjoint (o_addr ctx) (o_size ctx) (b_data k) (b_length k));
               ctx = TC_AES_dynamic_key_clear ctx
           in if \<not> valid then (TC_ERROR, ctx)
              else if aes_mode e = SBOX_MODE_RUNTIME \<and> sbox_ready e = 0 then (TC_ERROR, ctx)
              else let rk = tc_aes_key_expansion e (dk_round_key (o_val ctx)) (b_mem k) (b_length k div 4);
                       rounds = of_nat (b_length k div 4 + 6) :: u8;
                       tail = 16 * (unat rounds + 1)
                   in (TC_OK, ctx\<lparr>o_val := \<lparr>dk_round_key = take tail rk @ replicate (240 - tail) 0,
                                            dk_rounds = rounds\<rparr>\<rparr>))"

definition TC_AES_dynamic_encrypt ::
  "aes_env \<Rightarrow> TC_AES_dynamic_key obj \<Rightarrow> TC_buffer \<Rightarrow> TC_status \<times> TC_buffer" where
  "TC_AES_dynamic_encrypt e ctx block =
     (if w_capacity block \<noteq> TC_AES_BLOCKLEN \<or>
         \<not> tc_block_mode_args (o_addr ctx) (o_size ctx) (w_data block) (w_capacity block) 1 \<or>
         \<not> tc_aes_dynamic_key_valid ctx
      then (TC_ERROR, block)
      else case tc_aes_block_result
                  (tc_aes_cipher_rounds e (w_mem block) (dk_round_key (o_val ctx)) (dk_rounds (o_val ctx)))
           of (status, m) \<Rightarrow> (status, block\<lparr>w_mem := m\<rparr>))"

definition TC_AES_dynamic_decrypt ::
  "aes_env \<Rightarrow> TC_AES_dynamic_key obj \<Rightarrow> TC_buffer \<Rightarrow> TC_status \<times> TC_buffer" where
  "TC_AES_dynamic_decrypt e ctx block =
     (if w_capacity block \<noteq> TC_AES_BLOCKLEN \<or>
         \<not> tc_block_mode_args (o_addr ctx) (o_size ctx) (w_data block) (w_capacity block) 1 \<or>
         \<not> tc_aes_dynamic_key_valid ctx
      then (TC_ERROR, block)
      else case tc_aes_block_result
                  (tc_aes_inverse_rounds e (w_mem block) (dk_round_key (o_val ctx)) (dk_rounds (o_val ctx)))
           of (status, m) \<Rightarrow> (status, block\<lparr>w_mem := m\<rparr>))"

definition tc_aes_dynamic_cbc_valid :: "TC_AES_dynamic_key obj \<Rightarrow> addr \<Rightarrow> addr \<Rightarrow> nat \<Rightarrow> bool" where
  "tc_aes_dynamic_cbc_valid ctx iv buffer len \<longleftrightarrow>
     tc_block_mode_args (o_addr ctx) (o_size ctx) buffer len TC_AES_BLOCKLEN \<and>
     tc_block_mode_args (o_addr ctx) (o_size ctx) iv TC_AES_BLOCKLEN 1 \<and>
     tc_internal_ranges_disjoint iv TC_AES_BLOCKLEN buffer len \<and>
     tc_aes_dynamic_key_valid ctx"

definition dynamic_block_key :: "aes_env \<Rightarrow> TC_AES_dynamic_key \<Rightarrow> tc_aes_block_key" where
  "dynamic_block_key e k = \<lparr>bk_env = e, bk_round_key = dk_round_key k, bk_rounds = dk_rounds k\<rparr>"

definition TC_AES_dynamic_CBC_encrypt ::
  "aes_env \<Rightarrow> TC_AES_dynamic_key obj \<Rightarrow> TC_buffer \<Rightarrow> TC_buffer \<Rightarrow> TC_status \<times> TC_buffer \<times> TC_buffer" where
  "TC_AES_dynamic_CBC_encrypt e ctx iv buf =
     (if w_capacity iv \<noteq> TC_AES_BLOCKLEN \<or>
         \<not> tc_aes_dynamic_cbc_valid ctx (w_data iv) (w_data buf) (w_capacity buf)
      then (TC_ERROR, iv, buf)
      else case tc_block_cbc_encrypt (tc_aes_block_cipher (dynamic_block_key e (o_val ctx)))
                  (w_mem iv) (w_mem buf) (w_capacity buf)
           of (status, i, m) \<Rightarrow> (status, iv\<lparr>w_mem := i\<rparr>, buf\<lparr>w_mem := m\<rparr>))"

definition TC_AES_dynamic_CBC_decrypt ::
  "aes_env \<Rightarrow> TC_AES_dynamic_key obj \<Rightarrow> TC_buffer \<Rightarrow> TC_buffer \<Rightarrow> TC_status \<times> TC_buffer \<times> TC_buffer" where
  "TC_AES_dynamic_CBC_decrypt e ctx iv buf =
     (if w_capacity iv \<noteq> TC_AES_BLOCKLEN \<or>
         \<not> tc_aes_dynamic_cbc_valid ctx (w_data iv) (w_data buf) (w_capacity buf)
      then (TC_ERROR, iv, buf)
      else case tc_block_cbc_decrypt (tc_aes_block_cipher_inverse (dynamic_block_key e (o_val ctx)))
                  (w_mem iv) (w_mem buf) (w_capacity buf)
           of (status, i, m) \<Rightarrow> (status, iv\<lparr>w_mem := i\<rparr>, buf\<lparr>w_mem := m\<rparr>))"

section \<open>Invariants\<close>

text \<open>
  A context has arrays of their C sizes, positions within a block, and is active only in a build whose
  substitution tables are in place.
\<close>

definition key_ctx_wf :: "aes_env \<Rightarrow> TC_AES_key_ctx \<Rightarrow> bool" where
  "key_ctx_wf e c \<longleftrightarrow>
     length (kc_round_key c) = TC_AES_KEY_EXP_SIZE e \<and> (kc_active c = 1 \<longrightarrow> aes_env_ready e)"

definition aes_ctx_wf :: "aes_env \<Rightarrow> TC_AES_ctx \<Rightarrow> bool" where
  "aes_ctx_wf e c \<longleftrightarrow>
     key_ctx_wf e (ac_key c) \<and> length (ac_iv c) = 16 \<and> length (ac_ctr_stream c) = 16 \<and>
     ac_ctr_pos c \<le> 16 \<and> ac_ofb_pos c \<le> 16"

definition dynamic_key_wf :: "aes_env \<Rightarrow> TC_AES_dynamic_key \<Rightarrow> bool" where
  "dynamic_key_wf e k \<longleftrightarrow>
     length (dk_round_key k) = 240 \<and> (dk_rounds k \<in> {10, 12, 14} \<longrightarrow> aes_env_ready e)"

text \<open>The schedule in a context or a dynamic key is the expansion of a key.\<close>

definition aes_keyed :: "aes_env \<Rightarrow> u8 list \<Rightarrow> TC_AES_key_ctx \<Rightarrow> bool" where
  "aes_keyed e k c \<longleftrightarrow> kc_active c = 1 \<and> aes_env_ready e \<and> length k = TC_AES_KEYLEN e \<and>
     kc_round_key c = tc_aes_key_expansion e (replicate (TC_AES_KEY_EXP_SIZE e) 0) k (Nk e)"

definition dynamic_keyed :: "aes_env \<Rightarrow> u8 list \<Rightarrow> TC_AES_dynamic_key \<Rightarrow> bool" where
  "dynamic_keyed e k c \<longleftrightarrow> aes_env_ready e \<and> length k \<in> {16, 24, 32} \<and>
     length (dk_round_key c) = 240 \<and> dk_rounds c = of_nat (length k div 4 + 6) \<and>
     (\<forall>i < length k + 28. schedule_word (dk_round_key c) i = fips_word (length k div 4) k i)"

lemma aes_env_params:
  assumes "aes_env_wf e"
  shows "TC_AES_KEY_EXP_SIZE e = 16 * (Nk e + 7)" "TC_AES_KEYLEN e = 4 * Nk e" "Nk e \<in> {4, 6, 8}"
    "TC_AES_FIXED_ROUNDS e = of_nat (Nk e + 6)" "Nr e = TC_AES_FIXED_ROUNDS e"
    "unat (TC_AES_FIXED_ROUNDS e) = Nk e + 6"
  using assms
  by (auto simp: aes_env_wf_def TC_AES_KEY_EXP_SIZE_def TC_AES_KEYLEN_def Nk_def Nr_def TC_AES_FIXED_ROUNDS_def)

lemma aes_env_ready_flag:
  "aes_env_wf e \<Longrightarrow> \<not> (aes_mode e = SBOX_MODE_RUNTIME \<and> sbox_ready e = 0) \<Longrightarrow> aes_env_ready e"
  by (auto simp: aes_env_wf_def aes_env_ready_def)

lemma ctx_key_ok:
  assumes "aes_env_wf e" "key_ctx_wf e (ac_key c)" "kc_active (ac_key c) = 1"
  shows "aes_key_ok (tc_aes_ctx_key e c)"
  using assms aes_env_params(6) [OF assms(1)] aes_env_params(1) [OF assms(1)]
  by (simp add: aes_key_ok_def tc_aes_ctx_key_def schedule_ok_def key_ctx_wf_def)

lemma keyed_wf:
  assumes "aes_env_wf e" "aes_keyed e k c"
  shows "key_ctx_wf e c"
proof -
  have "length (tc_aes_key_expansion e (replicate (TC_AES_KEY_EXP_SIZE e) 0) k (Nk e)) =
      length (replicate (TC_AES_KEY_EXP_SIZE e) (0 :: u8))"
    using assms aes_env_params [OF assms(1)]
    by (intro key_expansion_fips(1)) (simp_all add: aes_keyed_def)
  then show ?thesis using assms(2) by (simp add: key_ctx_wf_def aes_keyed_def)
qed

text \<open>A keyed context encrypts blocks as FIPS 197 does under that key.\<close>

lemma keyed_cipher:
  assumes "aes_env_wf e" "aes_keyed e k (ac_key c)" "length b = 16"
  shows "cipher_fun (tc_aes_block_cipher (tc_aes_ctx_key e c)) b = fips_aes k b"
proof -
  have k: "Nk e = length k div 4" "length k \<in> {16, 24, 32}"
    using assms(1,2) by (auto simp: aes_keyed_def aes_env_params(2) dest: aes_env_params(3))
  have "tc_aes_cipher_rounds e b (tc_aes_key_expansion e (replicate (TC_AES_KEY_EXP_SIZE e) 0) k (length k div 4))
      (of_nat (length k div 4 + 6)) = (TC_OK, fips_aes k b)"
    using assms k aes_env_params(1) [OF assms(1)]
    by (intro cipher_expansion_fips) (auto simp: aes_keyed_def)
  then show ?thesis
    using assms(2) aes_env_params(4) [OF assms(1)] k
    by (simp add: aes_cipher_fun tc_aes_ctx_key_def aes_keyed_def)
qed

section \<open>Key contexts\<close>

lemma key_ctx_zero_wf [simp]: "key_ctx_wf e (key_ctx_zero e)"
  by (simp add: key_ctx_wf_def key_ctx_zero_def)

lemma aes_ctx_zero_wf [simp]: "aes_ctx_wf e (aes_ctx_zero e)"
  by (simp add: aes_ctx_wf_def aes_ctx_zero_def TC_AES_BLOCKLEN_def)

text \<open>What key setup does on every branch.\<close>

definition key_args_ok :: "aes_env \<Rightarrow> addr \<Rightarrow> nat \<Rightarrow> TC_bytes \<Rightarrow> bool" where
  "key_args_ok e ctx n k \<longleftrightarrow>
     b_length k = TC_AES_KEYLEN e \<and> tc_internal_span_valid (b_data k) (b_length k) \<and>
     tc_internal_ranges_disjoint ctx n (b_data k) (b_length k) \<and>
     \<not> (aes_mode e = SBOX_MODE_RUNTIME \<and> sbox_ready e = 0)"

definition keyed_ctx :: "aes_env \<Rightarrow> u8 list \<Rightarrow> TC_AES_key_ctx" where
  "keyed_ctx e k =
     \<lparr>kc_round_key = tc_aes_key_expansion e (replicate (TC_AES_KEY_EXP_SIZE e) 0) k (Nk e), kc_active = 1\<rparr>"

lemma key_init_eq:
  assumes "o_addr ctx \<noteq> NULL"
  shows "TC_AES_key_init e ctx k =
    (if key_args_ok e (o_addr ctx) (o_size ctx) k then (TC_OK, ctx\<lparr>o_val := keyed_ctx e (b_mem k)\<rparr>)
     else (TC_ERROR, ctx\<lparr>o_val := key_ctx_zero e\<rparr>))"
  using assms
  by (auto simp: TC_AES_key_init_def key_args_ok_def keyed_ctx_def TC_AES_key_ctx_clear_def key_ctx_zero_def Let_def)

lemma keyed_ctx_keyed:
  assumes "aes_env_wf e" "bytes_wf k" "key_args_ok e at n k"
  shows "aes_keyed e (b_mem k) (keyed_ctx e (b_mem k))"
  using assms(3) span_mem_length [OF assms(2)] aes_env_ready_flag [OF assms(1)]
  by (auto simp: aes_keyed_def keyed_ctx_def key_args_ok_def)

text \<open>The key member lies inside the context, so what is disjoint from the context is disjoint from it.\<close>

lemma ranges_disjoint_shrink:
  "tc_internal_ranges_disjoint a n b m \<Longrightarrow> n' \<le> n \<Longrightarrow> tc_internal_ranges_disjoint a n' b m"
  by (auto simp: ranges_disjoint_iff)

lemma aes_init_eq:
  assumes "o_addr ctx \<noteq> NULL" "sizeof_key_ctx e \<le> o_size ctx"
  shows "TC_AES_init e ctx k =
    (if key_args_ok e (o_addr ctx) (o_size ctx) k
     then (TC_OK, ctx\<lparr>o_val := (aes_ctx_zero e)\<lparr>ac_key := keyed_ctx e (b_mem k)\<rparr>\<rparr>)
     else (TC_ERROR, ctx\<lparr>o_val := aes_ctx_zero e\<rparr>))"
proof -
  let ?k = "\<lparr>o_addr = o_addr ctx, o_size = sizeof_key_ctx e, o_val = key_ctx_zero e\<rparr>"
  have init: "TC_AES_key_init e ?k k =
    (if key_args_ok e (o_addr ctx) (sizeof_key_ctx e) k
     then (TC_OK, ?k\<lparr>o_val := keyed_ctx e (b_mem k)\<rparr>) else (TC_ERROR, ?k\<lparr>o_val := key_ctx_zero e\<rparr>))"
    using key_init_eq [of ?k e k] assms(1) by simp
  have zero: "(aes_ctx_zero e)\<lparr>ac_key := key_ctx_zero e\<rparr> = aes_ctx_zero e" "ac_key (aes_ctx_zero e) = key_ctx_zero e"
    by (simp_all add: aes_ctx_zero_def)
  show ?thesis
  proof (cases "b_length k \<noteq> TC_AES_KEYLEN e \<or> \<not> tc_internal_span_valid (b_data k) (b_length k) \<or>
              \<not> tc_internal_ranges_disjoint (o_addr ctx) (o_size ctx) (b_data k) (b_length k)")
    case True
    then show ?thesis using assms(1) by (auto simp: TC_AES_init_def TC_AES_ctx_clear_def key_args_ok_def)
  next
    case False
    then have "key_args_ok e (o_addr ctx) (sizeof_key_ctx e) k = key_args_ok e (o_addr ctx) (o_size ctx) k"
      using ranges_disjoint_shrink [OF _ assms(2)] by (auto simp: key_args_ok_def)
    then show ?thesis
      using assms(1) unfolding TC_AES_init_def if_not_P [OF False]
      by (simp add: TC_AES_ctx_clear_def zero init)
  qed
qed

lemma aes_init_wf:
  assumes "aes_env_wf e" "bytes_wf k" "o_addr ctx \<noteq> NULL" "sizeof_key_ctx e \<le> o_size ctx"
  shows "aes_ctx_wf e (o_val (snd (TC_AES_init e ctx k)))"
  using keyed_wf [OF assms(1) keyed_ctx_keyed [OF assms(1,2)]] assms
  by (simp add: aes_init_eq aes_ctx_wf_def aes_ctx_zero_def TC_AES_BLOCKLEN_def)

section \<open>Argument checks of the modes\<close>

lemma mode_valid_facts:
  assumes "AES_MODE_VALID ctx c buf alignment" "buffer_wf buf"
  shows "length (w_mem buf) = w_capacity buf" "w_capacity buf mod alignment = 0" "kc_active c = 1"
  using assms buffer_mem_length by (auto simp: AES_MODE_VALID_def tc_block_mode_args_def)

text \<open>A mode operation on valid arguments: the facts every one of them uses.\<close>

lemma iv_mode_facts:
  assumes "AES_IV_MODE_VALID ctx buf alignment" "buffer_wf buf" "aes_env_wf e" "aes_ctx_wf e (o_val ctx)"
  shows "length (w_mem buf) = w_capacity buf" "alignment dvd w_capacity buf"
    "aes_key_ok (tc_aes_ctx_key e (o_val ctx))" "length (ac_iv (o_val ctx)) = 16"
  using assms mode_valid_facts [of ctx "ac_key (o_val ctx)" buf alignment]
    ctx_key_ok [OF assms(3), of "o_val ctx"]
  by (auto simp: AES_IV_MODE_VALID_def aes_ctx_wf_def mod_eq_0_iff_dvd)

lemma set_iv_wf:
  assumes "aes_ctx_wf e (o_val ctx)" "bytes_wf iv"
  shows "aes_ctx_wf e (o_val (snd (TC_AES_set_iv ctx iv)))"
  using assms span_mem_length [OF assms(2)]
  by (auto simp: TC_AES_set_iv_def aes_ctx_wf_def TC_AES_BLOCKLEN_def tc_block_mode_args_def)

section \<open>CBC\<close>

lemma cbc_encrypt_accepted:
  assumes "AES_IV_MODE_VALID ctx buf 16" "buffer_wf buf" "aes_env_wf e" "aes_ctx_wf e (o_val ctx)"
  defines "cs \<equiv> cbc_enc_spec (cipher_fun (tc_aes_block_cipher (tc_aes_ctx_key e (o_val ctx))))
                  (ac_iv (o_val ctx)) (chunks 16 (w_mem buf))"
  shows "TC_AES_CBC_encrypt e ctx buf =
    (TC_OK, ctx\<lparr>o_val := (o_val ctx)\<lparr>ac_iv := last (ac_iv (o_val ctx) # cs)\<rparr>\<rparr>, buf\<lparr>w_mem := concat cs\<rparr>)"
proof -
  note f = iv_mode_facts [OF assms(1-4)]
  have "tc_block_cbc_encrypt (tc_aes_block_cipher (tc_aes_ctx_key e (o_val ctx))) (ac_iv (o_val ctx))
      (w_mem buf) (w_capacity buf) = (TC_OK, last (ac_iv (o_val ctx) # cs), concat cs)"
    using aes.cbc_encrypt_eq [OF f(3,4), of "w_mem buf"] f(1,2) by (simp add: cs_def)
  then show ?thesis
    using assms(1) by (simp add: TC_AES_CBC_encrypt_def TC_AES_BLOCKLEN_def)
qed

lemma cbc_decrypt_accepted:
  assumes "AES_IV_MODE_VALID ctx buf 16" "buffer_wf buf" "aes_env_wf e" "aes_ctx_wf e (o_val ctx)"
  defines "ps \<equiv> cbc_dec_spec (inverse_fun (tc_aes_block_cipher_inverse (tc_aes_ctx_key e (o_val ctx))))
                  (ac_iv (o_val ctx)) (chunks 16 (w_mem buf))"
  shows "TC_AES_CBC_decrypt e ctx buf =
    (TC_OK, ctx\<lparr>o_val := (o_val ctx)\<lparr>ac_iv := last (ac_iv (o_val ctx) # chunks 16 (w_mem buf))\<rparr>\<rparr>,
     buf\<lparr>w_mem := concat ps\<rparr>)"
proof -
  note f = iv_mode_facts [OF assms(1-4)]
  have "tc_block_cbc_decrypt (tc_aes_block_cipher_inverse (tc_aes_ctx_key e (o_val ctx))) (ac_iv (o_val ctx))
      (w_mem buf) (w_capacity buf) = (TC_OK, last (ac_iv (o_val ctx) # chunks 16 (w_mem buf)), concat ps)"
    using aes.cbc_decrypt_eq [OF f(3,4), of "w_mem buf"] f(1,2) by (simp add: ps_def)
  then show ?thesis
    using assms(1) by (simp add: TC_AES_CBC_decrypt_def TC_AES_BLOCKLEN_def)
qed

lemma cbc_encrypt_wf:
  assumes "buffer_wf buf" "aes_env_wf e" "aes_ctx_wf e (o_val ctx)"
  shows "aes_ctx_wf e (o_val (fst (snd (TC_AES_CBC_encrypt e ctx buf))))"
    and "aes_ctx_wf e (o_val (fst (snd (TC_AES_CBC_decrypt e ctx buf))))"
proof -
  have "aes_ctx_wf e (o_val (fst (snd (TC_AES_CBC_encrypt e ctx buf)))) \<and>
      aes_ctx_wf e (o_val (fst (snd (TC_AES_CBC_decrypt e ctx buf))))"
  proof (cases "AES_IV_MODE_VALID ctx buf 16")
    case False
    then show ?thesis
      using assms by (simp add: TC_AES_CBC_encrypt_def TC_AES_CBC_decrypt_def TC_AES_BLOCKLEN_def)
  next
    case True
    note f = iv_mode_facts [OF True assms]
    have ch: "blocks_of 16 (chunks 16 (w_mem buf))" using f by (simp add: chunks_width)
    note lb = last_blocks [OF ch f(4)] last_blocks [OF aes.cbc_spec_width [OF f(3) ch f(4)] f(4)]
    show ?thesis
      using assms(3) lb by (simp add: cbc_encrypt_accepted [OF True assms]
          cbc_decrypt_accepted [OF True assms] aes_ctx_wf_def)
  qed
  then show "aes_ctx_wf e (o_val (fst (snd (TC_AES_CBC_encrypt e ctx buf))))"
    and "aes_ctx_wf e (o_val (fst (snd (TC_AES_CBC_decrypt e ctx buf))))" by auto
qed

lemma cbc_public_round_trip:
  assumes "AES_IV_MODE_VALID ctx buf 16" "buffer_wf buf" "aes_env_wf e" "aes_ctx_wf e (o_val ctx)"
  shows "\<exists>ctx' buf'. TC_AES_CBC_encrypt e ctx buf = (TC_OK, ctx', buf') \<and>
           TC_AES_CBC_decrypt e ctx buf' = (TC_OK, ctx', buf)"
proof -
  note f = iv_mode_facts [OF assms]
  let ?k = "tc_aes_ctx_key e (o_val ctx)"
  obtain iv m where enc: "tc_block_cbc_encrypt (tc_aes_block_cipher ?k) (ac_iv (o_val ctx)) (w_mem buf)
      (w_capacity buf) = (TC_OK, iv, m)" and len: "length m = w_capacity buf"
    and dec: "tc_block_cbc_decrypt (tc_aes_block_cipher_inverse ?k) (ac_iv (o_val ctx)) m (w_capacity buf) =
      (TC_OK, iv, w_mem buf)"
    using aes.cbc_round_trip [OF f(3,4), of "w_mem buf"] f(1,2) by auto
  have "AES_IV_MODE_VALID ctx (buf\<lparr>w_mem := m\<rparr>) 16"
    using assms(1) by (simp add: AES_IV_MODE_VALID_def AES_MODE_VALID_def)
  then show ?thesis
    using assms(1) enc dec
    by (simp add: TC_AES_CBC_encrypt_def TC_AES_CBC_decrypt_def TC_AES_BLOCKLEN_def)
qed

section \<open>CTR\<close>

text \<open>The context after \<open>p\<close> bytes of a CTR message under key \<open>k\<close> whose first counter block has the value \<open>t\<close>.\<close>

definition aes_ctr_at :: "aes_env \<Rightarrow> u8 list \<Rightarrow> nat \<Rightarrow> nat \<Rightarrow> TC_AES_ctx \<Rightarrow> bool" where
  "aes_ctr_at e k t p c \<longleftrightarrow>
     aes_keyed e k (ac_key c) \<and> ac_iv_loaded c = 1 \<and> ctr_state_at (fips_aes k) 16 t p (aes_ctr_state c)"

lemma set_iv_ctr_at:
  assumes "aes_keyed e k (ac_key (o_val ctx))" "bytes_wf iv" "fst (TC_AES_set_iv ctx iv) = TC_OK"
  shows "aes_ctr_at e k (be_val (b_mem iv)) 0 (o_val (snd (TC_AES_set_iv ctx iv)))"
proof -
  have ok: "\<not> (b_length iv \<noteq> TC_AES_BLOCKLEN \<or>
      \<not> tc_block_mode_args (o_addr ctx) (o_size ctx) (b_data iv) (b_length iv) 1 \<or>
      kc_active (ac_key (o_val ctx)) \<noteq> 1)"
    using assms(3) by (auto simp: TC_AES_set_iv_def split: if_splits)
  then have len: "length (b_mem iv) = 16"
    using span_mem_length [OF assms(2)] by (auto simp: tc_block_mode_args_def TC_AES_BLOCKLEN_def)
  have "be_val (b_mem iv) < 256 ^ 16" using be_val_less [of "b_mem iv"] len by simp
  then show ?thesis
    using assms(1) len unfolding TC_AES_set_iv_def if_not_P [OF ok]
    by (simp add: aes_ctr_at_def ctr_state_at_def aes_ctr_state_def blocks_after_def used_after_def
        TC_AES_BLOCKLEN_def)
qed

lemma put_ctr_state [simp]: "aes_ctr_state (aes_put_ctr_state s c) = s"
  by (cases s) (simp add: aes_ctr_state_def aes_put_ctr_state_def)

text \<open>One CTR request: accepted exactly when the counter range lasts, refused without any effect otherwise.\<close>

lemma ctr_crypt_step:
  assumes "aes_env_wf e" "aes_ctr_at e k t p (o_val ctx)" "buffer_wf buf"
    and args: "tc_block_mode_args (o_addr ctx) (o_size ctx) (w_data buf) (w_capacity buf) 1"
  shows "if w_capacity buf = 0 \<or> t + blocks_after 16 (p + w_capacity buf) \<le> 256 ^ 16
         then \<exists>ctx'. TC_AES_CTR_crypt e ctx buf =
                (TC_OK, ctx', buf\<lparr>w_mem := add_stream (ctr_stream (fips_aes k) 16 t) p (w_mem buf)\<rparr>) \<and>
                o_addr ctx' = o_addr ctx \<and> o_size ctx' = o_size ctx \<and>
                aes_ctr_at e k t (p + w_capacity buf) (o_val ctx')
         else TC_AES_CTR_crypt e ctx buf = (TC_ERROR, ctx, buf)"
proof -
  let ?c = "o_val ctx" and ?n = "w_capacity buf" and ?bk = "tc_aes_ctx_key e (o_val ctx)"
  let ?E = "cipher_fun (tc_aes_block_cipher ?bk)"
  have keyed: "aes_keyed e k (ac_key ?c)" and st: "ctr_state_at (fips_aes k) 16 t p (aes_ctr_state ?c)"
    using assms(2) by (simp_all add: aes_ctr_at_def)
  have valid: "AES_IV_MODE_VALID ctx buf 1"
    using assms(2) args by (simp add: AES_IV_MODE_VALID_def AES_MODE_VALID_def aes_ctr_at_def aes_keyed_def)
  have len: "length (w_mem buf) = ?n"
    using buffer_mem_length [OF assms(3)] args by (simp add: tc_block_mode_args_def)
  have n: "?n \<le> SIZE_MAX"
    using args by (auto simp: tc_block_mode_args_def tc_internal_span_valid_def SIZE_MAX_def UINTPTR_MAX_def)
  have ok: "aes_key_ok ?bk"
    using ctx_key_ok [OF assms(1) keyed_wf [OF assms(1) keyed]] keyed by (simp add: aes_keyed_def)
  note E = ctr_cong [where E = ?E and E' = "fips_aes k" and w = 16,
      OF keyed_cipher [OF assms(1) keyed], simplified]
  note req = aes.ctr_request_ok_iff [OF st n]
  show ?thesis
  proof (cases "?n = 0 \<or> t + blocks_after 16 (p + ?n) \<le> 256 ^ 16")
    case False
    then show ?thesis using valid req by (simp add: TC_AES_CTR_crypt_def TC_AES_BLOCKLEN_def)
  next
    case True
    have "t + blocks_after 16 (p + ?n) \<le> 256 ^ 16"
      using True st by (auto simp: ctr_state_at_def)
    then obtain s' where cr: "tc_block_ctr_crypt (tc_aes_block_cipher ?bk) (aes_ctr_state ?c) (w_mem buf) ?n =
          (TC_OK, s', add_stream (ctr_stream (fips_aes k) 16 t) p (w_mem buf))"
      and at: "ctr_state_at (fips_aes k) 16 t (p + ?n) s'"
      using aes.ctr_crypt_eq [OF ok, of t p "aes_ctr_state ?c" "w_mem buf"] st len by (auto simp: E)
    have "TC_AES_CTR_crypt e ctx buf =
        (TC_OK, ctx\<lparr>o_val := aes_put_ctr_state s' ?c\<rparr>,
         buf\<lparr>w_mem := add_stream (ctr_stream (fips_aes k) 16 t) p (w_mem buf)\<rparr>)"
      using valid req True cr by (simp add: TC_AES_CTR_crypt_def TC_AES_BLOCKLEN_def)
    moreover have "aes_ctr_at e k t (p + ?n) (aes_put_ctr_state s' ?c)"
      using at assms(2) by (simp add: aes_ctr_at_def) (simp add: aes_put_ctr_state_def)
    ultimately show ?thesis using True by simp
  qed
qed

text \<open>A message given in pieces: the requests one after the other, each on its own buffer.\<close>

fun aes_ctr_run :: "aes_env \<Rightarrow> TC_AES_ctx obj \<Rightarrow> TC_buffer list \<Rightarrow> TC_status \<times> TC_AES_ctx obj \<times> TC_buffer list" where
  "aes_ctr_run e ctx [] = (TC_OK, ctx, [])"
| "aes_ctr_run e ctx (b # bs) =
     (case TC_AES_CTR_crypt e ctx b of (status, ctx', b') \<Rightarrow>
        if status \<noteq> TC_OK then (status, ctx', b' # bs)
        else case aes_ctr_run e ctx' bs of (status, ctx'', bs') \<Rightarrow> (status, ctx'', b' # bs'))"

definition ctr_piece_ok :: "addr \<Rightarrow> nat \<Rightarrow> TC_buffer \<Rightarrow> bool" where
  "ctr_piece_ok at n b \<longleftrightarrow> buffer_wf b \<and> tc_block_mode_args at n (w_data b) (w_capacity b) 1"

lemma ctr_piece_length: "ctr_piece_ok at n b \<Longrightarrow> length (w_mem b) = w_capacity b"
  using buffer_mem_length by (auto simp: ctr_piece_ok_def tc_block_mode_args_def)

lemma ctr_run_eq:
  assumes "aes_env_wf e"
  shows "aes_ctr_at e k t p (o_val ctx) \<Longrightarrow> list_all (ctr_piece_ok (o_addr ctx) (o_size ctx)) bs \<Longrightarrow>
    t + blocks_after 16 (p + length (concat (map w_mem bs))) \<le> 256 ^ 16 \<Longrightarrow>
    \<exists>ctx' bs'. aes_ctr_run e ctx bs = (TC_OK, ctx', bs') \<and>
      concat (map w_mem bs') = add_stream (ctr_stream (fips_aes k) 16 t) p (concat (map w_mem bs)) \<and>
      aes_ctr_at e k t (p + length (concat (map w_mem bs))) (o_val ctx')"
proof (induction bs arbitrary: ctx p)
  case Nil
  then show ?case by simp
next
  case (Cons b bs)
  have b: "buffer_wf b" "tc_block_mode_args (o_addr ctx) (o_size ctx) (w_data b) (w_capacity b) 1"
    and len: "length (w_mem b) = w_capacity b"
    using Cons.prems(2) ctr_piece_length by (auto simp: ctr_piece_ok_def)
  have "t + blocks_after 16 (p + w_capacity b) \<le> 256 ^ 16"
    using Cons.prems(3) len blocks_after_mono [of "p + w_capacity b" "p + length (concat (map w_mem (b # bs)))" 16]
    by simp
  then obtain ctx1 where c1: "TC_AES_CTR_crypt e ctx b =
        (TC_OK, ctx1, b\<lparr>w_mem := add_stream (ctr_stream (fips_aes k) 16 t) p (w_mem b)\<rparr>)"
    and o1: "o_addr ctx1 = o_addr ctx" "o_size ctx1 = o_size ctx"
    and at1: "aes_ctr_at e k t (p + w_capacity b) (o_val ctx1)"
    using ctr_crypt_step [OF assms Cons.prems(1) b] by auto
  have "\<exists>ctx' bs'. aes_ctr_run e ctx1 bs = (TC_OK, ctx', bs') \<and>
      concat (map w_mem bs') =
        add_stream (ctr_stream (fips_aes k) 16 t) (p + w_capacity b) (concat (map w_mem bs)) \<and>
      aes_ctr_at e k t (p + w_capacity b + length (concat (map w_mem bs))) (o_val ctx')"
    using at1 Cons.prems(2,3) o1 len by (intro Cons.IH) (simp_all add: add.assoc)
  then show ?case
    using c1 len by (auto simp: add_stream_append add.assoc)
qed

lemma ctr_crypt_wf:
  assumes "buffer_wf buf" "aes_env_wf e" "aes_ctx_wf e (o_val ctx)"
  shows "aes_ctx_wf e (o_val (fst (snd (TC_AES_CTR_crypt e ctx buf))))"
proof (cases "AES_IV_MODE_VALID ctx buf 1 \<and>
    tc_block_ctr_request_ok (aes_ctr_state (o_val ctx)) TC_AES_BLOCKLEN (w_capacity buf)")
  case False
  then show ?thesis using assms(3) by (auto simp: TC_AES_CTR_crypt_def Let_def)
next
  case True
  note f = iv_mode_facts [OF _ assms, of 1]
  have st: "length (counter (aes_ctr_state (o_val ctx))) = 16" "length (keystream (aes_ctr_state (o_val ctx))) = 16"
    "used (aes_ctr_state (o_val ctx)) \<le> 16"
    using assms(3) by (simp_all add: aes_ctr_state_def aes_ctx_wf_def)
  have key: "aes_key_ok (tc_aes_ctx_key e (o_val ctx))" using f True by simp
  obtain s' m where "tc_block_ctr_crypt (tc_aes_block_cipher (tc_aes_ctx_key e (o_val ctx)))
      (aes_ctr_state (o_val ctx)) (w_mem buf) (w_capacity buf) = (TC_OK, s', m)"
    and "length (counter s') = 16" "length (keystream s') = 16" "used s' \<le> 16"
    using aes.ctr_crypt_total [OF key st] by metis
  then show ?thesis
    using assms(3) True by (simp add: TC_AES_CTR_crypt_def aes_ctx_wf_def aes_put_ctr_state_def)
qed

section \<open>OFB\<close>

definition aes_ofb_at :: "aes_env \<Rightarrow> u8 list \<Rightarrow> u8 list \<Rightarrow> nat \<Rightarrow> TC_AES_ctx \<Rightarrow> bool" where
  "aes_ofb_at e k iv p c \<longleftrightarrow>
     aes_keyed e k (ac_key c) \<and> ac_iv_loaded c = 1 \<and> length iv = 16 \<and>
     ofb_state_at (fips_aes k) 16 iv p (ac_iv c) (ac_ofb_pos c)"

lemma set_iv_ofb_at:
  assumes "aes_keyed e k (ac_key (o_val ctx))" "bytes_wf iv" "fst (TC_AES_set_iv ctx iv) = TC_OK"
  shows "aes_ofb_at e k (b_mem iv) 0 (o_val (snd (TC_AES_set_iv ctx iv)))"
proof -
  have ok: "\<not> (b_length iv \<noteq> TC_AES_BLOCKLEN \<or>
      \<not> tc_block_mode_args (o_addr ctx) (o_size ctx) (b_data iv) (b_length iv) 1 \<or>
      kc_active (ac_key (o_val ctx)) \<noteq> 1)"
    using assms(3) by (auto simp: TC_AES_set_iv_def split: if_splits)
  then have "length (b_mem iv) = 16"
    using span_mem_length [OF assms(2)] by (auto simp: tc_block_mode_args_def TC_AES_BLOCKLEN_def)
  then show ?thesis
    using assms(1) unfolding TC_AES_set_iv_def if_not_P [OF ok]
    by (simp add: aes_ofb_at_def ofb_state_at_def blocks_after_def used_after_def TC_AES_BLOCKLEN_def)
qed

lemma ofb_crypt_step:
  assumes "aes_env_wf e" "aes_ofb_at e k iv p (o_val ctx)" "buffer_wf buf"
    and args: "tc_block_mode_args (o_addr ctx) (o_size ctx) (w_data buf) (w_capacity buf) 1"
  shows "\<exists>ctx'. TC_AES_OFB_crypt e ctx buf =
           (TC_OK, ctx', buf\<lparr>w_mem := add_stream (ofb_stream (fips_aes k) 16 iv) p (w_mem buf)\<rparr>) \<and>
           aes_ofb_at e k iv (p + w_capacity buf) (o_val ctx')"
proof -
  let ?c = "o_val ctx" and ?n = "w_capacity buf" and ?bk = "tc_aes_ctx_key e (o_val ctx)"
  let ?E = "cipher_fun (tc_aes_block_cipher ?bk)"
  have keyed: "aes_keyed e k (ac_key ?c)" and iv: "length iv = 16"
    and st: "ofb_state_at (fips_aes k) 16 iv p (ac_iv ?c) (ac_ofb_pos ?c)"
    using assms(2) by (simp_all add: aes_ofb_at_def)
  have valid: "AES_IV_MODE_VALID ctx buf 1"
    using assms(2) args by (simp add: AES_IV_MODE_VALID_def AES_MODE_VALID_def aes_ofb_at_def aes_keyed_def)
  have pos: "\<not> ac_ofb_pos ?c > 16"
    using st used_after_bounds [of 16 p] by (simp add: ofb_state_at_def)
  have len: "length (w_mem buf) = ?n"
    using buffer_mem_length [OF assms(3)] args by (simp add: tc_block_mode_args_def)
  have ok: "aes_key_ok ?bk"
    using ctx_key_ok [OF assms(1) keyed_wf [OF assms(1) keyed]] keyed by (simp add: aes_keyed_def)
  note E = ofb_cong [where E = ?E and E' = "fips_aes k", OF keyed_cipher [OF assms(1) keyed]
      aes.fwd_length [OF ok] iv, simplified]
  obtain fb' u' where cr: "tc_block_ofb_crypt (tc_aes_block_cipher ?bk) (ac_iv ?c) (ac_ofb_pos ?c) (w_mem buf) ?n =
        (TC_OK, fb', u', add_stream (ofb_stream (fips_aes k) 16 iv) p (w_mem buf))"
    and at: "ofb_state_at (fips_aes k) 16 iv (p + ?n) fb' u'"
    using aes.ofb_crypt_eq [OF ok iv, of p "ac_iv ?c" "ac_ofb_pos ?c" "w_mem buf"] st len by (auto simp: E)
  then show ?thesis
    using valid pos assms(2) by (auto simp: TC_AES_OFB_crypt_def TC_AES_BLOCKLEN_def aes_ofb_at_def)
qed

lemma ofb_crypt_wf:
  assumes "buffer_wf buf" "aes_env_wf e" "aes_ctx_wf e (o_val ctx)"
  shows "aes_ctx_wf e (o_val (fst (snd (TC_AES_OFB_crypt e ctx buf))))"
proof (cases "AES_IV_MODE_VALID ctx buf 1")
  case False
  then show ?thesis using assms(3) by (simp add: TC_AES_OFB_crypt_def)
next
  case True
  note f = iv_mode_facts [OF True assms]
  have pos: "ac_ofb_pos (o_val ctx) \<le> 16" using assms(3) by (simp add: aes_ctx_wf_def)
  obtain fb' u' m where "tc_block_ofb_crypt (tc_aes_block_cipher (tc_aes_ctx_key e (o_val ctx)))
      (ac_iv (o_val ctx)) (ac_ofb_pos (o_val ctx)) (w_mem buf) (w_capacity buf) = (TC_OK, fb', u', m)"
    and "length fb' = 16" "u' \<le> 16"
    using aes.ofb_crypt_total [OF f(3,4) pos] by metis
  then show ?thesis
    using assms(3) True pos by (simp add: TC_AES_OFB_crypt_def aes_ctx_wf_def TC_AES_BLOCKLEN_def)
qed

section \<open>Single blocks\<close>

lemma ecb_accepted:
  assumes "aes_env_wf e" "aes_keyed e k (o_val ctx)" "buffer_wf buf" "w_capacity buf = 16"
    "AES_MODE_VALID ctx (o_val ctx) buf 1"
  shows "TC_AES_ECB_encrypt e ctx buf = (TC_OK, buf\<lparr>w_mem := fips_aes k (w_mem buf)\<rparr>)"
    and "TC_AES_ECB_decrypt e ctx (buf\<lparr>w_mem := fips_aes k (w_mem buf)\<rparr>) = (TC_OK, buf)"
proof -
  let ?c = "(aes_ctx_zero e)\<lparr>ac_key := o_val ctx\<rparr>" and ?rk = "kc_round_key (o_val ctx)"
  have len: "length (w_mem buf) = 16" using mode_valid_facts [OF assms(5,3)] assms(4) by simp
  have act: "kc_active (o_val ctx) = 1" using assms(2) by (simp add: aes_keyed_def)
  have ok: "aes_key_ok (tc_aes_ctx_key e ?c)"
    using ctx_key_ok [OF assms(1), of ?c] keyed_wf [OF assms(1,2)] act by simp
  have enc: "tc_aes_cipher e (w_mem buf) ?rk = (TC_OK, fips_aes k (w_mem buf))"
    using keyed_cipher [OF assms(1) _ len, of k ?c] assms(2) aes_env_params(5) [OF assms(1)]
    by (simp add: aes_cipher_fun tc_aes_ctx_key_def tc_aes_cipher_def prod_eq_iff)
      (simp add: tc_aes_cipher_rounds_def Let_def)
  have dec: "tc_aes_inverse_rounds e (fips_aes k (w_mem buf)) ?rk (TC_AES_FIXED_ROUNDS e) = (TC_OK, w_mem buf)"
    using aes.bwd_fwd [OF ok len] keyed_cipher [OF assms(1) _ len, of k ?c] assms(2)
    by (simp add: aes_cipher_fun tc_aes_ctx_key_def prod_eq_iff) (simp add: tc_aes_inverse_rounds_def)
  show "TC_AES_ECB_encrypt e ctx buf = (TC_OK, buf\<lparr>w_mem := fips_aes k (w_mem buf)\<rparr>)"
    using assms(4,5) enc by (simp add: TC_AES_ECB_encrypt_def TC_AES_BLOCKLEN_def tc_aes_block_result_def)
  show "TC_AES_ECB_decrypt e ctx (buf\<lparr>w_mem := fips_aes k (w_mem buf)\<rparr>) = (TC_OK, buf)"
    using assms(4,5) dec
    by (simp add: TC_AES_ECB_decrypt_def TC_AES_BLOCKLEN_def tc_aes_block_result_def AES_MODE_VALID_def)
qed

section \<open>Dynamic-length keys\<close>

definition dynamic_args_ok :: "aes_env \<Rightarrow> addr \<Rightarrow> nat \<Rightarrow> TC_bytes \<Rightarrow> bool" where
  "dynamic_args_ok e ctx n k \<longleftrightarrow>
     b_length k \<in> {16, 24, 32} \<and> tc_internal_span_valid (b_data k) (b_length k) \<and>
     tc_internal_ranges_disjoint ctx n (b_data k) (b_length k) \<and>
     \<not> (aes_mode e = SBOX_MODE_RUNTIME \<and> sbox_ready e = 0)"

lemma dynamic_init_refused:
  "o_addr ctx \<noteq> NULL \<Longrightarrow> \<not> dynamic_args_ok e (o_addr ctx) (o_size ctx) k \<Longrightarrow>
   TC_AES_dynamic_key_init e ctx k = (TC_ERROR, ctx\<lparr>o_val := dynamic_key_zero\<rparr>)"
  by (auto simp: TC_AES_dynamic_key_init_def TC_AES_dynamic_key_clear_def dynamic_args_ok_def Let_def)

lemma dynamic_init_keyed:
  assumes "aes_env_wf e" "bytes_wf k" "o_addr ctx \<noteq> NULL" "dynamic_args_ok e (o_addr ctx) (o_size ctx) k"
  shows "\<exists>c. TC_AES_dynamic_key_init e ctx k = (TC_OK, ctx\<lparr>o_val := c\<rparr>) \<and> dynamic_keyed e (b_mem k) c"
proof -
  let ?m = "b_mem k" and ?w = "b_length k div 4"
  let ?rk = "tc_aes_key_expansion e (replicate 240 0) ?m ?w" and ?n = "16 * (?w + 7)"
  have len: "length ?m = b_length k" and l3: "b_length k \<in> {16, 24, 32}"
    using assms(4) span_mem_length [OF assms(2)] by (auto simp: dynamic_args_ok_def)
  have ready: "aes_env_ready e" using assms(4) aes_env_ready_flag [OF assms(1)] by (simp add: dynamic_args_ok_def)
  have w: "?w \<in> {4, 6, 8}" "4 * ?w \<le> length ?m" "?n \<le> 240" "b_length k + 28 = 4 * (?w + 7)"
    using l3 len by auto
  have exp: "length ?rk = 240"
    "\<And>i. i < b_length k + 28 \<Longrightarrow> schedule_word ?rk i = fips_word ?w ?m i"
    using key_expansion_fips [OF w(1,2) _ ready, of "replicate 240 0"] w(3) unfolding w(4) by simp_all
  have u: "unat (of_nat (?w + 6) :: u8) = ?w + 6" using w(1) by (intro unat_of_nat_u8) auto
  have tk: "schedule_word (take ?n ?rk @ replicate (240 - ?n) 0) i = fips_word ?w ?m i" if "i < b_length k + 28" for i
  proof -
    have "4 * i + 4 \<le> ?n" using that w(4) by simp
    then have "schedule_word (take ?n ?rk @ replicate (240 - ?n) 0) i = schedule_word ?rk i"
      using exp(1) w(3) by (simp add: schedule_word_def take_drop min_def)
    then show ?thesis using exp(2) [OF that] by simp
  qed
  have l: "length (take ?n ?rk @ replicate (240 - ?n) 0) = 240" using exp(1) w(3) by simp
  have "TC_AES_dynamic_key_init e ctx k = (TC_OK, ctx\<lparr>o_val :=
      \<lparr>dk_round_key = take ?n ?rk @ replicate (240 - ?n) 0, dk_rounds = of_nat (?w + 6)\<rparr>\<rparr>)"
    using assms(3,4) u
    by (auto simp: TC_AES_dynamic_key_init_def TC_AES_dynamic_key_clear_def dynamic_args_ok_def Let_def
        dynamic_key_zero_def add.commute simp del: of_nat_add)
  then show ?thesis
    using ready len l3 l tk by (auto simp: dynamic_keyed_def)
qed

lemma dynamic_keyed_ok:
  assumes "dynamic_keyed e k c"
  shows "aes_key_ok (dynamic_block_key e c)" "unat (dk_rounds c) = length k div 4 + 6"
    "dk_rounds c \<in> {10, 12, 14}"
  using assms by (auto simp: aes_key_ok_def dynamic_block_key_def schedule_ok_def dynamic_keyed_def)

lemma dynamic_keyed_cipher:
  assumes "dynamic_keyed e k c" "length b = 16"
  shows "cipher_fun (tc_aes_block_cipher (dynamic_block_key e c)) b = fips_aes k b"
proof -
  have "schedule_ok e (dk_round_key c) (dk_rounds c)"
    using dynamic_keyed_ok(1) [OF assms(1)] by (simp add: aes_key_ok_def dynamic_block_key_def)
  note fips = cipher_rounds_fips [OF this assms(2), unfolded dynamic_keyed_ok(2) [OF assms(1)]]
  have "fips_cipher (schedule_word (dk_round_key c)) (length k div 4 + 6) b = fips_aes k b"
    unfolding fips_aes_def using assms(1) by (intro fips_cipher_cong) (auto simp: dynamic_keyed_def)
  then show ?thesis by (simp add: aes_cipher_fun dynamic_block_key_def fips)
qed

lemma dynamic_block_accepted:
  assumes "dynamic_keyed e k (o_val ctx)" "buffer_wf buf" "w_capacity buf = 16"
    "tc_block_mode_args (o_addr ctx) (o_size ctx) (w_data buf) (w_capacity buf) 1"
  shows "TC_AES_dynamic_encrypt e ctx buf = (TC_OK, buf\<lparr>w_mem := fips_aes k (w_mem buf)\<rparr>)"
    and "TC_AES_dynamic_decrypt e ctx (buf\<lparr>w_mem := fips_aes k (w_mem buf)\<rparr>) = (TC_OK, buf)"
proof -
  let ?bk = "dynamic_block_key e (o_val ctx)"
  have len: "length (w_mem buf) = 16"
    using buffer_mem_length [OF assms(2)] assms(3,4) by (simp add: tc_block_mode_args_def)
  note ok = dynamic_keyed_ok [OF assms(1)] and E = dynamic_keyed_cipher [OF assms(1) len]
  have valid: "tc_aes_dynamic_key_valid ctx"
    using ok(3) assms(4) by (simp add: tc_aes_dynamic_key_valid_def tc_block_mode_args_def)
  have enc: "tc_aes_cipher_rounds e (w_mem buf) (dk_round_key (o_val ctx)) (dk_rounds (o_val ctx)) =
      (TC_OK, fips_aes k (w_mem buf))"
    using E by (simp add: aes_cipher_fun dynamic_block_key_def prod_eq_iff) (simp add: tc_aes_cipher_rounds_def Let_def)
  have dec: "tc_aes_inverse_rounds e (fips_aes k (w_mem buf)) (dk_round_key (o_val ctx)) (dk_rounds (o_val ctx)) =
      (TC_OK, w_mem buf)"
    using aes.bwd_fwd [OF ok(1) len] E
    by (simp add: aes_cipher_fun dynamic_block_key_def prod_eq_iff) (simp add: tc_aes_inverse_rounds_def)
  show "TC_AES_dynamic_encrypt e ctx buf = (TC_OK, buf\<lparr>w_mem := fips_aes k (w_mem buf)\<rparr>)"
    and "TC_AES_dynamic_decrypt e ctx (buf\<lparr>w_mem := fips_aes k (w_mem buf)\<rparr>) = (TC_OK, buf)"
    using assms(3,4) valid enc dec
    by (simp_all add: TC_AES_dynamic_encrypt_def TC_AES_dynamic_decrypt_def TC_AES_BLOCKLEN_def
        tc_aes_block_result_def)
qed

lemma dynamic_cbc_round_trip:
  assumes "dynamic_keyed e k (o_val ctx)" "buffer_wf buf" "buffer_wf iv" "w_capacity iv = 16"
    "tc_aes_dynamic_cbc_valid ctx (w_data iv) (w_data buf) (w_capacity buf)"
  shows "\<exists>iv' buf'. TC_AES_dynamic_CBC_encrypt e ctx iv buf = (TC_OK, iv', buf') \<and>
           w_mem buf' = concat (cbc_enc_spec (fips_aes k) (w_mem iv) (chunks 16 (w_mem buf))) \<and>
           TC_AES_dynamic_CBC_decrypt e ctx iv buf' = (TC_OK, iv', buf)"
proof -
  let ?bk = "dynamic_block_key e (o_val ctx)"
  have args: "tc_internal_span_valid (w_data buf) (w_capacity buf)" "16 dvd w_capacity buf"
    "tc_internal_span_valid (w_data iv) (w_capacity iv)"
    using assms(4,5) by (auto simp: tc_aes_dynamic_cbc_valid_def tc_block_mode_args_def TC_AES_BLOCKLEN_def
        mod_eq_0_iff_dvd)
  have len: "length (w_mem buf) = w_capacity buf" "length (w_mem iv) = 16"
    using buffer_mem_length [OF assms(2)] buffer_mem_length [OF assms(3)] args assms(4) by simp_all
  note ok = dynamic_keyed_ok(1) [OF assms(1)]
  have cs: "cbc_enc_spec (cipher_fun (tc_aes_block_cipher ?bk)) (w_mem iv) (chunks 16 (w_mem buf)) =
      cbc_enc_spec (fips_aes k) (w_mem iv) (chunks 16 (w_mem buf))"
    using len args dynamic_keyed_cipher [OF assms(1)] aes.fwd_length [OF ok]
    by (intro cbc_spec_cong [where w = 16]) (simp_all add: chunks_width)
  obtain i m where enc: "tc_block_cbc_encrypt (tc_aes_block_cipher ?bk) (w_mem iv) (w_mem buf) (w_capacity buf) =
        (TC_OK, i, m)"
    and dec: "tc_block_cbc_decrypt (tc_aes_block_cipher_inverse ?bk) (w_mem iv) m (w_capacity buf) =
        (TC_OK, i, w_mem buf)"
    using aes.cbc_round_trip [OF ok len(2), of "w_mem buf"] len args(2) by auto
  moreover have "m = concat (cbc_enc_spec (fips_aes k) (w_mem iv) (chunks 16 (w_mem buf)))"
    using enc aes.cbc_encrypt_eq [OF ok len(2), of "w_mem buf"] len args(2) by (simp add: cs)
  ultimately show ?thesis
    using assms(4,5)
    by (simp add: TC_AES_dynamic_CBC_encrypt_def TC_AES_dynamic_CBC_decrypt_def TC_AES_BLOCKLEN_def)
qed

lemma cbc_encrypt_keyed:
  assumes "AES_IV_MODE_VALID ctx buf 16" "buffer_wf buf" "aes_env_wf e" "aes_ctx_wf e (o_val ctx)"
    "aes_keyed e k (ac_key (o_val ctx))"
  defines "cs \<equiv> cbc_enc_spec (fips_aes k) (ac_iv (o_val ctx)) (chunks 16 (w_mem buf))"
  shows "TC_AES_CBC_encrypt e ctx buf =
    (TC_OK, ctx\<lparr>o_val := (o_val ctx)\<lparr>ac_iv := last (ac_iv (o_val ctx) # cs)\<rparr>\<rparr>, buf\<lparr>w_mem := concat cs\<rparr>)"
proof -
  note f = iv_mode_facts [OF assms(1-4)]
  have "cbc_enc_spec (cipher_fun (tc_aes_block_cipher (tc_aes_ctx_key e (o_val ctx))))
      (ac_iv (o_val ctx)) (chunks 16 (w_mem buf)) = cs"
    unfolding cs_def using f keyed_cipher [OF assms(3,5)] aes.fwd_length [OF f(3)]
    by (intro cbc_spec_cong [where w = 16]) (simp_all add: chunks_width)
  then show ?thesis using cbc_encrypt_accepted [OF assms(1-4)] by simp
qed

end
