(* ===== verification/AES_Concrete.thy ===== *)
theory AES_Concrete
  imports Concrete AES_Modes
begin

text \<open>
  A build with 128-bit keys and fixed tables, and contexts at addresses clear of the spans and buffers.
\<close>

definition ex_env :: aes_env where
  "ex_env = \<lparr>aes_key_bits = 128, aes_mode = SBOX_MODE_FAST, ram_sbox = replicate 256 0,
             ram_rsbox = replicate 256 0, sbox_ready = 0\<rparr>"

definition ex_key_ctx :: "TC_AES_key_ctx obj" where
  "ex_key_ctx = \<lparr>o_addr = 4096, o_size = 177, o_val = key_ctx_zero ex_env\<rparr>"

definition ex_ctx :: "TC_AES_ctx obj" where
  "ex_ctx = \<lparr>o_addr = 4096, o_size = 256, o_val = aes_ctx_zero ex_env\<rparr>"

lemma ex_env_wf [simp]: "aes_env_wf ex_env" "aes_env_ready ex_env"
  by (simp_all add: aes_env_wf_def aes_env_ready_def ex_env_def)

lemma ex_ctx_simps [simp]:
  "o_addr ex_ctx = 4096" "o_size ex_ctx = 256" "o_val ex_ctx = aes_ctx_zero ex_env"
  "o_addr ex_key_ctx = 4096" "o_size ex_key_ctx = 177"
  by (simp_all add: ex_ctx_def ex_key_ctx_def)

lemma ex_sizes [simp]:
  "TC_AES_KEYLEN ex_env = 16" "sizeof_key_ctx ex_env = 177" "aes_mode ex_env = SBOX_MODE_FAST"
  by (simp_all add: TC_AES_KEYLEN_def sizeof_key_ctx_def TC_AES_KEY_EXP_SIZE_def ex_env_def)

lemma ex_key_args [simp]:
  "m \<le> 4096 \<Longrightarrow> key_args_ok ex_env 4096 m (ex_span 8192 16)"
  by (simp add: key_args_ok_def)

end
