(* ===== verification/AES_Session.thy ===== *)
theory AES_Session
  imports AES_Modes
begin

text \<open>
  The life of one IV-mode context of \<^verbatim>\<open>src/src/aes_modes.c\<close>: the public calls a program may make on it, in
  any order and with any arguments, as a step relation, and the contexts reachable from storage that
  went through \<^verbatim>\<open>TC_AES_init\<close>. The invariant holds after every call, accepted or refused: the members keep
  their sizes and positions their bounds, an IV is only ever held under a key, and the round keys of
  an active context are the expansion of a key that was passed to \<^verbatim>\<open>TC_AES_init\<close>.
\<close>

section \<open>Calls and reachable contexts\<close>

inductive aes_call :: "aes_env \<Rightarrow> TC_AES_ctx obj \<Rightarrow> TC_AES_ctx obj \<Rightarrow> bool" for e where
  call_init: "bytes_wf k \<Longrightarrow> aes_call e ctx (snd (TC_AES_init e ctx k))"
| call_set_iv: "bytes_wf iv \<Longrightarrow> aes_call e ctx (snd (TC_AES_set_iv ctx iv))"
| call_cbc_encrypt: "buffer_wf buf \<Longrightarrow> aes_call e ctx (fst (snd (TC_AES_CBC_encrypt e ctx buf)))"
| call_cbc_decrypt: "buffer_wf buf \<Longrightarrow> aes_call e ctx (fst (snd (TC_AES_CBC_decrypt e ctx buf)))"
| call_ctr: "buffer_wf buf \<Longrightarrow> aes_call e ctx (fst (snd (TC_AES_CTR_crypt e ctx buf)))"
| call_ofb: "buffer_wf buf \<Longrightarrow> aes_call e ctx (fst (snd (TC_AES_OFB_crypt e ctx buf)))"
| call_clear: "aes_call e ctx (TC_AES_ctx_clear e ctx)"

inductive aes_reachable :: "aes_env \<Rightarrow> TC_AES_ctx obj \<Rightarrow> bool" for e where
  start: "o_addr ctx \<noteq> NULL \<Longrightarrow> sizeof_key_ctx e \<le> o_size ctx \<Longrightarrow> bytes_wf k \<Longrightarrow>
    aes_reachable e (snd (TC_AES_init e ctx k))"
| step: "aes_reachable e ctx \<Longrightarrow> aes_call e ctx ctx' \<Longrightarrow> aes_reachable e ctx'"

inductive_cases aes_callE: "aes_call e ctx ctx'"

section \<open>The invariant\<close>

definition aes_session_ok :: "aes_env \<Rightarrow> TC_AES_ctx obj \<Rightarrow> bool" where
  "aes_session_ok e ctx \<longleftrightarrow>
     o_addr ctx \<noteq> NULL \<and> sizeof_key_ctx e \<le> o_size ctx \<and> aes_ctx_wf e (o_val ctx) \<and>
     (ac_iv_loaded (o_val ctx) = 1 \<longrightarrow> kc_active (ac_key (o_val ctx)) = 1) \<and>
     (kc_active (ac_key (o_val ctx)) = 1 \<longrightarrow> (\<exists>k. aes_keyed e k (ac_key (o_val ctx))))"

text \<open>What a call that leaves the key alone, or clears the whole context, does to the frame.\<close>

definition frame_ok :: "aes_env \<Rightarrow> TC_AES_ctx obj \<Rightarrow> TC_AES_ctx obj \<Rightarrow> bool" where
  "frame_ok e ctx ctx' \<longleftrightarrow>
     o_addr ctx' = o_addr ctx \<and> o_size ctx' = o_size ctx \<and>
     (ac_key (o_val ctx') = ac_key (o_val ctx) \<and> ac_iv_loaded (o_val ctx') = ac_iv_loaded (o_val ctx) \<or>
      o_val ctx' = aes_ctx_zero e)"

lemma clear_frame [simp]:
  "o_addr (TC_AES_ctx_clear e ctx) = o_addr ctx" "o_size (TC_AES_ctx_clear e ctx) = o_size ctx"
  "o_addr ctx \<noteq> NULL \<Longrightarrow> o_val (TC_AES_ctx_clear e ctx) = aes_ctx_zero e"
  by (simp_all add: TC_AES_ctx_clear_def)

lemma aes_ctx_zero_inactive [simp]:
  "kc_active (ac_key (aes_ctx_zero e)) \<noteq> 1" "ac_iv_loaded (aes_ctx_zero e) \<noteq> 1"
  by (simp_all add: aes_ctx_zero_def key_ctx_zero_def)

lemma cbc_frame:
  "o_addr ctx \<noteq> NULL \<Longrightarrow> frame_ok e ctx (fst (snd (TC_AES_CBC_encrypt e ctx buf)))"
  "o_addr ctx \<noteq> NULL \<Longrightarrow> frame_ok e ctx (fst (snd (TC_AES_CBC_decrypt e ctx buf)))"
  by (simp_all add: TC_AES_CBC_encrypt_def TC_AES_CBC_decrypt_def frame_ok_def Let_def split: prod.split)

lemma stream_frame:
  "o_addr ctx \<noteq> NULL \<Longrightarrow> frame_ok e ctx (fst (snd (TC_AES_CTR_crypt e ctx buf)))"
  "o_addr ctx \<noteq> NULL \<Longrightarrow> frame_ok e ctx (fst (snd (TC_AES_OFB_crypt e ctx buf)))"
  by (simp_all add: TC_AES_CTR_crypt_def TC_AES_OFB_crypt_def aes_put_ctr_state_def frame_ok_def Let_def
      split: prod.split)

lemma session_frame:
  "aes_session_ok e ctx \<Longrightarrow> frame_ok e ctx ctx' \<Longrightarrow> aes_ctx_wf e (o_val ctx') \<Longrightarrow> aes_session_ok e ctx'"
  by (auto simp: aes_session_ok_def frame_ok_def)

lemma session_init:
  assumes "aes_env_wf e" "bytes_wf k" "o_addr ctx \<noteq> NULL" "sizeof_key_ctx e \<le> o_size ctx"
  shows "aes_session_ok e (snd (TC_AES_init e ctx k))"
  using aes_init_wf [OF assms] keyed_ctx_keyed [OF assms(1,2), of "o_addr ctx" "o_size ctx"] assms
  by (auto simp: aes_session_ok_def aes_init_eq)

lemma session_set_iv:
  assumes "aes_session_ok e ctx" "bytes_wf iv"
  shows "aes_session_ok e (snd (TC_AES_set_iv ctx iv))"
  using assms set_iv_wf [of e ctx iv] by (auto simp: aes_session_ok_def TC_AES_set_iv_def)

lemma session_call:
  assumes "aes_env_wf e" "aes_session_ok e ctx" "aes_call e ctx ctx'"
  shows "aes_session_ok e ctx'"
proof -
  have c: "o_addr ctx \<noteq> NULL" "sizeof_key_ctx e \<le> o_size ctx" "aes_ctx_wf e (o_val ctx)"
    using assms(2) by (simp_all add: aes_session_ok_def)
  from assms(3) show ?thesis
  proof cases
    case (call_init k)
    then show ?thesis using session_init [OF assms(1) _ c(1,2)] by simp
  next
    case (call_set_iv iv)
    then show ?thesis using session_set_iv [OF assms(2)] by simp
  next
    case (call_cbc_encrypt buf)
    then show ?thesis
      using session_frame [OF assms(2) cbc_frame(1) [OF c(1)]] cbc_encrypt_wf(1) [OF _ assms(1) c(3)] by simp
  next
    case (call_cbc_decrypt buf)
    then show ?thesis
      using session_frame [OF assms(2) cbc_frame(2) [OF c(1)]] cbc_encrypt_wf(2) [OF _ assms(1) c(3)] by simp
  next
    case (call_ctr buf)
    then show ?thesis
      using session_frame [OF assms(2) stream_frame(1) [OF c(1)]] ctr_crypt_wf [OF _ assms(1) c(3)] by simp
  next
    case (call_ofb buf)
    then show ?thesis
      using session_frame [OF assms(2) stream_frame(2) [OF c(1)]] ofb_crypt_wf [OF _ assms(1) c(3)] by simp
  next
    case call_clear
    then show ?thesis using c by (auto simp: aes_session_ok_def)
  qed
qed

lemma session_reachable:
  assumes "aes_reachable e ctx" "aes_env_wf e"
  shows "aes_session_ok e ctx"
  using assms(1)
proof induction
  case (start ctx k)
  then show ?case using session_init [OF assms(2)] by simp
next
  case (step ctx ctx')
  then show ?case using session_call [OF assms(2)] by simp
qed

end
