(* ===== verification/AES_KW.thy ===== *)
theory AES_KW
  imports AES_Modes
begin

text \<open>
  AES key wrap, \<^verbatim>\<open>src/src/aes_kw.c\<close>: KW and KWP wrap and unwrap under a key-encryption key. The nested
  step loops keep their order and their early exits. The operations read their inputs before the first
  write, so the model takes the inputs as values and the output as storage with its old contents; the
  address of the local key schedule is the argument \<open>at\<close>, since key setup compares it with the key span.
  \<open>dyn\<close> is the build option \<^verbatim>\<open>TC_AES_ENABLE_DYNAMIC\<close>. The lemmas show that unwrapping undoes wrapping, that
  an unwrap succeeds only on a string that wrapping produces, and that every failure wipes the working area.
\<close>

section \<open>Limits and sizes (aes_kw.h)\<close>

definition TC_AES_KW_SEMIBLOCK :: nat where "TC_AES_KW_SEMIBLOCK = 8"

definition TC_AES_KW_KEK_LENGTH_SUPPORTED :: "bool \<Rightarrow> aes_env \<Rightarrow> nat \<Rightarrow> bool" where
  "TC_AES_KW_KEK_LENGTH_SUPPORTED dyn e n \<longleftrightarrow>
     (if dyn then n = 16 \<or> n = 24 \<or> n = 32 else n = TC_AES_KEYLEN e)"

definition TC_AES_KW_WRAPPED_BYTES :: "nat \<Rightarrow> nat" where "TC_AES_KW_WRAPPED_BYTES n = n + 8"

definition TC_AES_KWP_WRAPPED_BYTES :: "nat \<Rightarrow> nat" where
  "TC_AES_KWP_WRAPPED_BYTES n = ((n + 7) div 8) * 8 + 8"

definition TC_AES_KW_MAX_KEY_DATA_BYTES :: nat where "TC_AES_KW_MAX_KEY_DATA_BYTES = 2 ^ 57 - 8"

definition TC_AES_KW_MAX_WRAPPED_BYTES :: nat where "TC_AES_KW_MAX_WRAPPED_BYTES = 2 ^ 57"

definition TC_AES_KWP_MAX_KEY_DATA_BYTES :: nat where "TC_AES_KWP_MAX_KEY_DATA_BYTES = 2 ^ 32 - 8"

definition TC_AES_KWP_MAX_WRAPPED_BYTES :: nat where "TC_AES_KWP_MAX_WRAPPED_BYTES = 2 ^ 32"

section \<open>The wrapping function and its inverse\<close>

text \<open>Key setup clears the local schedule before it reads it, so its old contents do not matter.\<close>

definition tc_aes_kw_kek_init :: "bool \<Rightarrow> aes_env \<Rightarrow> addr \<Rightarrow> TC_bytes \<Rightarrow> TC_status \<times> tc_aes_block_key" where
  "tc_aes_kw_kek_init dyn e at kek =
     (if dyn
      then case TC_AES_dynamic_key_init e \<lparr>o_addr = at, o_size = sizeof_dynamic_key, o_val = dynamic_key_zero\<rparr> kek
           of (status, s) \<Rightarrow>
             (if status \<noteq> TC_OK then TC_ERROR else TC_OK,
              \<lparr>bk_env = e, bk_round_key = dk_round_key (o_val s), bk_rounds = dk_rounds (o_val s)\<rparr>)
      else case TC_AES_key_init e \<lparr>o_addr = at, o_size = sizeof_key_ctx e, o_val = key_ctx_zero e\<rparr>
                  (kek\<lparr>b_length := TC_AES_KEYLEN e\<rparr>)
           of (status, s) \<Rightarrow>
             (if status \<noteq> TC_OK then TC_ERROR else TC_OK,
              \<lparr>bk_env = e, bk_round_key = kc_round_key (o_val s), bk_rounds = TC_AES_FIXED_ROUNDS e\<rparr>))"

definition tc_aes_kw_xor_step :: "u8 list \<Rightarrow> nat \<Rightarrow> u8 list" where
  "tc_aes_kw_xor_step a t =
     fold (\<lambda>k a. a[7 - k := a ! (7 - k) XOR of_nat (t div 2 ^ (8 * k))]) [0..<8] a"

text \<open>
  The inner loop over the semiblocks and the outer loop of six passes. A failed block leaves both loops
  with its status.
\<close>

fun kw_seal_pass ::
  "'k tc_block_cipher \<Rightarrow> u8 list \<Rightarrow> nat \<Rightarrow> nat list \<Rightarrow> TC_status \<times> u8 list \<times> nat" where
  "kw_seal_pass cipher s t [] = (TC_OK, s, t)"
| "kw_seal_pass cipher s t (i # is) =
     (case encrypt cipher (key cipher) (take 8 s @ take 8 (drop (8 * i) s)) of (status, block) \<Rightarrow>
        if status \<noteq> TC_OK then (status, s, t)
        else let s = memcpy_at s 0 (take 8 block);
                 s = memcpy_at s 0 (tc_aes_kw_xor_step (take 8 s) t);
                 s = memcpy_at s (8 * i) (take 8 (drop 8 block))
             in kw_seal_pass cipher s (t + 1) is)"

fun kw_seal_passes ::
  "'k tc_block_cipher \<Rightarrow> nat \<Rightarrow> u8 list \<Rightarrow> nat \<Rightarrow> nat list \<Rightarrow> TC_status \<times> u8 list" where
  "kw_seal_passes cipher n s t [] = (TC_OK, s)"
| "kw_seal_passes cipher n s t (j # js) =
     (case kw_seal_pass cipher s t [1..<n + 1] of (status, s, t) \<Rightarrow>
        if status \<noteq> TC_OK then (status, s) else kw_seal_passes cipher n s t js)"

definition tc_aes_kw_seal :: "'k tc_block_cipher \<Rightarrow> u8 list \<Rightarrow> nat \<Rightarrow> TC_status \<times> u8 list" where
  "tc_aes_kw_seal cipher s len =
     (let n = len div TC_AES_KW_SEMIBLOCK - 1
      in if len = TC_AES_BLOCKLEN
         then case encrypt cipher (key cipher) (take 16 s) of (status, block) \<Rightarrow> (status, memcpy_at s 0 block)
         else kw_seal_passes cipher n s 1 [0..<6])"

fun kw_open_pass ::
  "'k tc_block_cipher \<Rightarrow> u8 list \<Rightarrow> u8 list \<Rightarrow> nat \<Rightarrow> nat list \<Rightarrow> TC_status \<times> u8 list \<times> u8 list \<times> nat" where
  "kw_open_pass cipher a r t [] = (TC_OK, a, r, t)"
| "kw_open_pass cipher a r t (i # is) =
     (let a = tc_aes_kw_xor_step a t;
          block = a @ take 8 (drop (8 * (i - 1)) r)
      in case (case decrypt cipher of None \<Rightarrow> (TC_ERROR, block) | Some d \<Rightarrow> d (key cipher) block)
         of (status, block) \<Rightarrow>
           if status \<noteq> TC_OK then (status, a, r, t)
           else kw_open_pass cipher (take 8 block) (memcpy_at r (8 * (i - 1)) (take 8 (drop 8 block))) (t - 1) is)"

fun kw_open_passes ::
  "'k tc_block_cipher \<Rightarrow> nat \<Rightarrow> u8 list \<Rightarrow> u8 list \<Rightarrow> nat \<Rightarrow> nat list \<Rightarrow> TC_status \<times> u8 list \<times> u8 list" where
  "kw_open_passes cipher n a r t [] = (TC_OK, a, r)"
| "kw_open_passes cipher n a r t (j # js) =
     (case kw_open_pass cipher a r t (rev [1..<n + 1]) of (status, a, r, t) \<Rightarrow>
        if status \<noteq> TC_OK then (status, a, r) else kw_open_passes cipher n a r t js)"

text \<open>\<open>r\<close> is the working area with its old contents; the result is the status, the header and the area.\<close>

definition tc_aes_kw_open ::
  "'k tc_block_cipher \<Rightarrow> u8 list \<Rightarrow> nat \<Rightarrow> u8 list \<Rightarrow> TC_status \<times> u8 list \<times> u8 list" where
  "tc_aes_kw_open cipher c len r =
     (let n = len div TC_AES_KW_SEMIBLOCK - 1;
          a = take 8 c;
          r = memcpy_at r 0 (take (len - TC_AES_KW_SEMIBLOCK) (drop 8 c))
      in if len = TC_AES_BLOCKLEN
         then let block = a @ take 8 r
              in case (case decrypt cipher of None \<Rightarrow> (TC_ERROR, block) | Some d \<Rightarrow> d (key cipher) block)
                 of (status, block) \<Rightarrow>
                   if status = TC_OK then (status, take 8 block, memcpy_at r 0 (take 8 (drop 8 block)))
                   else (status, a, r)
         else kw_open_passes cipher n a r (6 * n) [0..<6])"

section \<open>Integrity checks\<close>

text \<open>The check stores the length indicator only when it succeeds; \<open>len\<close> is the old value.\<close>

definition tc_aes_kwp_check :: "u8 list \<Rightarrow> u8 list \<Rightarrow> u32 \<Rightarrow> nat \<Rightarrow> TC_status \<times> nat" where
  "tc_aes_kwp_check a padded padded_length len =
     (let mli = tc_internal_load_be32 (drop 4 a);
          pad = padded_length - mli;
          last_at = unat padded_length - TC_AES_KW_SEMIBLOCK;
          bad = (ucast (a ! 0) XOR 0xa6) OR (ucast (a ! 1) XOR 0x59) OR
                (ucast (a ! 2) XOR 0x59) OR (ucast (a ! 3) XOR 0xa6) :: u32;
          bad = bad OR drop_bit 3 pad;
          bad = fold (\<lambda>k bad. bad OR (ucast (padded ! (last_at + k)) AND
                        (0 - drop_bit 3 (of_nat k + (pad AND 7))))) [0..<8] bad
      in if bad \<noteq> 0 then (TC_MISMATCH, len) else (TC_OK, unat mli))"

text \<open>\<open>at\<close> and \<open>icv_at\<close> are the addresses of the header and of the constant on the stack.\<close>

definition tc_aes_kw_check :: "addr \<Rightarrow> addr \<Rightarrow> u8 list \<Rightarrow> TC_status" where
  "tc_aes_kw_check at icv_at a =
     TC_ct_equal \<lparr>b_data = at, b_length = 8, b_mem = a\<rparr> \<lparr>b_data = icv_at, b_length = 8, b_mem = replicate 8 0xa6\<rparr>"

section \<open>Argument checks\<close>

definition tc_aes_kw_length_ok :: "nat \<Rightarrow> nat \<Rightarrow> nat \<Rightarrow> nat \<Rightarrow> bool" where
  "tc_aes_kw_length_ok len mn mx alignment \<longleftrightarrow> len \<ge> mn \<and> len mod alignment = 0 \<and> len \<le> mx"

definition tc_aes_kw_kek_ok :: "bool \<Rightarrow> aes_env \<Rightarrow> TC_bytes \<Rightarrow> bool" where
  "tc_aes_kw_kek_ok dyn e kek \<longleftrightarrow> b_data kek \<noteq> NULL \<and> TC_AES_KW_KEK_LENGTH_SUPPORTED dyn e (b_length kek)"

definition tc_aes_kw_wrap_args_ok :: "bool \<Rightarrow> aes_env \<Rightarrow> TC_bytes \<Rightarrow> TC_bytes \<Rightarrow> TC_buffer \<Rightarrow> bool \<Rightarrow> bool" where
  "tc_aes_kw_wrap_args_ok dyn e kek key_data wrapped padded =
     (if \<not> tc_aes_kw_kek_ok dyn e kek \<or> b_data key_data = NULL \<or> w_data wrapped = NULL then False
      else if padded
      then (if \<not> tc_aes_kw_length_ok (b_length key_data) 1 TC_AES_KWP_MAX_KEY_DATA_BYTES 1 \<or>
               b_length key_data > SIZE_MAX - 15 then False
            else w_capacity wrapped \<ge> TC_AES_KWP_WRAPPED_BYTES (b_length key_data))
      else (if \<not> tc_aes_kw_length_ok (b_length key_data) (2 * TC_AES_KW_SEMIBLOCK)
                 TC_AES_KW_MAX_KEY_DATA_BYTES TC_AES_KW_SEMIBLOCK \<or>
               b_length key_data > SIZE_MAX - TC_AES_KW_SEMIBLOCK then False
            else w_capacity wrapped \<ge> TC_AES_KW_WRAPPED_BYTES (b_length key_data)))"

definition tc_aes_kw_unwrap_args_ok :: "bool \<Rightarrow> aes_env \<Rightarrow> TC_bytes \<Rightarrow> TC_bytes \<Rightarrow> TC_buffer \<Rightarrow> bool \<Rightarrow> bool" where
  "tc_aes_kw_unwrap_args_ok dyn e kek wrapped key_data padded =
     (let mn = (if padded then 2 else 3) * TC_AES_KW_SEMIBLOCK;
          mx = (if padded then TC_AES_KWP_MAX_WRAPPED_BYTES else TC_AES_KW_MAX_WRAPPED_BYTES)
      in tc_aes_kw_kek_ok dyn e kek \<and> b_data wrapped \<noteq> NULL \<and> w_data key_data \<noteq> NULL \<and>
         tc_aes_kw_length_ok (b_length wrapped) mn mx TC_AES_KW_SEMIBLOCK \<and>
         w_capacity key_data \<ge> b_length wrapped - TC_AES_KW_SEMIBLOCK)"

section \<open>Wrap and unwrap\<close>

definition tc_aes_kw_wrap ::
  "bool \<Rightarrow> aes_env \<Rightarrow> addr \<Rightarrow> TC_bytes \<Rightarrow> TC_bytes \<Rightarrow> u8 list \<Rightarrow> bool \<Rightarrow> TC_status \<times> u8 list" where
  "tc_aes_kw_wrap dyn e at kek key_data out padded =
     (let len = b_length key_data;
          wrapped_length = (if padded then TC_AES_KWP_WRAPPED_BYTES len else TC_AES_KW_WRAPPED_BYTES len)
      in case tc_aes_kw_kek_init dyn e at kek of (status, block_key) \<Rightarrow>
        if status \<noteq> TC_OK then (status, out)
        else let out = memcpy_at out TC_AES_KW_SEMIBLOCK (b_mem key_data);
                 out = (if padded
                        then let out = memcpy_at out (TC_AES_KW_SEMIBLOCK + len)
                                         (replicate (wrapped_length - TC_AES_KW_SEMIBLOCK - len) 0);
                                 out = memcpy_at out 0 [0xa6, 0x59, 0x59, 0xa6]
                             in memcpy_at out 4 (tc_internal_store_be32 (of_nat len))
                        else memcpy_at out 0 (replicate TC_AES_KW_SEMIBLOCK 0xa6))
             in case tc_aes_kw_seal (tc_aes_block_cipher block_key) out wrapped_length of (status, out) \<Rightarrow>
               (status, if status \<noteq> TC_OK then wipe_bytes out wrapped_length else out))"

text \<open>
  The result is the status, the storage of \<open>key_data\<close> and of \<open>key_data_length\<close>; the latter is an object
  with address \<^verbatim>\<open>NULL\<close> in the KW case. \<open>a_at\<close> and \<open>icv_at\<close> are the stack addresses of the two arrays compared.
\<close>

definition tc_aes_kw_unwrap ::
  "bool \<Rightarrow> aes_env \<Rightarrow> addr \<Rightarrow> addr \<Rightarrow> addr \<Rightarrow> TC_bytes \<Rightarrow> TC_bytes \<Rightarrow> u8 list \<Rightarrow> nat obj \<Rightarrow>
   TC_status \<times> u8 list \<times> nat obj" where
  "tc_aes_kw_unwrap dyn e at a_at icv_at kek wrapped key_data key_data_length =
     (let area = b_length wrapped - TC_AES_KW_SEMIBLOCK
      in case tc_aes_kw_kek_init dyn e at kek of (status, block_key) \<Rightarrow>
        if status \<noteq> TC_OK then (status, key_data, key_data_length)
        else case tc_aes_kw_open (tc_aes_block_cipher_inverse block_key) (b_mem wrapped) (b_length wrapped) key_data
             of (status, a, key_data) \<Rightarrow>
               let (status, len) =
                     (if status = TC_OK
                      then (if o_addr key_data_length \<noteq> NULL
                            then tc_aes_kwp_check a key_data (of_nat area) area
                            else (tc_aes_kw_check a_at icv_at a, area))
                      else (status, area))
               in if status \<noteq> TC_OK then (status, wipe_bytes key_data area, key_data_length)
                  else (status, key_data,
                        if o_addr key_data_length \<noteq> NULL then key_data_length\<lparr>o_val := len\<rparr> else key_data_length))"

definition TC_AES_KW_wrap ::
  "bool \<Rightarrow> aes_env \<Rightarrow> addr \<Rightarrow> TC_bytes \<Rightarrow> TC_bytes \<Rightarrow> TC_buffer \<Rightarrow> TC_status \<times> TC_buffer" where
  "TC_AES_KW_wrap dyn e at kek key_data wrapped =
     (if \<not> tc_aes_kw_wrap_args_ok dyn e kek key_data wrapped False then (TC_ERROR, wrapped)
      else case tc_aes_kw_wrap dyn e at kek key_data (w_mem wrapped) False of (status, m) \<Rightarrow>
        (status, wrapped\<lparr>w_mem := m\<rparr>))"

definition TC_AES_KW_unwrap ::
  "bool \<Rightarrow> aes_env \<Rightarrow> addr \<Rightarrow> addr \<Rightarrow> addr \<Rightarrow> TC_bytes \<Rightarrow> TC_bytes \<Rightarrow> TC_buffer \<Rightarrow> TC_status \<times> TC_buffer" where
  "TC_AES_KW_unwrap dyn e at a_at icv_at kek wrapped key_data =
     (if \<not> tc_aes_kw_unwrap_args_ok dyn e kek wrapped key_data False then (TC_ERROR, key_data)
      else case tc_aes_kw_unwrap dyn e at a_at icv_at kek wrapped (w_mem key_data)
                  \<lparr>o_addr = NULL, o_size = sizeof_size_t, o_val = 0\<rparr>
           of (status, m, _) \<Rightarrow> (status, key_data\<lparr>w_mem := m\<rparr>))"

definition TC_AES_KWP_wrap ::
  "bool \<Rightarrow> aes_env \<Rightarrow> addr \<Rightarrow> TC_bytes \<Rightarrow> TC_bytes \<Rightarrow> TC_buffer \<Rightarrow> TC_status \<times> TC_buffer" where
  "TC_AES_KWP_wrap dyn e at kek key_data wrapped =
     (if \<not> tc_aes_kw_wrap_args_ok dyn e kek key_data wrapped True then (TC_ERROR, wrapped)
      else case tc_aes_kw_wrap dyn e at kek key_data (w_mem wrapped) True of (status, m) \<Rightarrow>
        (status, wrapped\<lparr>w_mem := m\<rparr>))"

definition TC_AES_KWP_unwrap ::
  "bool \<Rightarrow> aes_env \<Rightarrow> addr \<Rightarrow> addr \<Rightarrow> addr \<Rightarrow> TC_bytes \<Rightarrow> TC_bytes \<Rightarrow> TC_buffer \<Rightarrow> nat obj \<Rightarrow>
   TC_status \<times> TC_buffer \<times> nat obj" where
  "TC_AES_KWP_unwrap dyn e at a_at icv_at kek wrapped key_data key_data_length =
     (if \<not> tc_aes_kw_unwrap_args_ok dyn e kek wrapped key_data True \<or> o_addr key_data_length = NULL \<or>
         \<not> tc_internal_ranges_disjoint (o_addr key_data_length) (o_size key_data_length) (w_data key_data)
             (b_length wrapped - TC_AES_KW_SEMIBLOCK)
      then (TC_ERROR, key_data, key_data_length)
      else case tc_aes_kw_unwrap dyn e at a_at icv_at kek wrapped (w_mem key_data) key_data_length
           of (status, m, l) \<Rightarrow> (status, key_data\<lparr>w_mem := m\<rparr>, l))"

section \<open>The wrapping function as SP 800-38F states it\<close>

text \<open>
  One step on a string of semiblocks with the header first: semiblock \<open>i\<close> and the header go through the
  cipher and the step number is added to the header. \<open>kw_W\<close> runs the steps of all passes; on two semiblocks
  it is one block encryption (KWP).
\<close>

definition kw_step :: "(u8 list \<Rightarrow> u8 list) \<Rightarrow> nat \<times> nat \<Rightarrow> u8 list \<Rightarrow> u8 list" where
  "kw_step E ti s = (case ti of (t, i) \<Rightarrow>
     let b = E (take 8 s @ take 8 (drop (8 * i) s))
     in memcpy_at (memcpy_at s 0 (xorl (take 8 b) (be_bytes 8 t))) (8 * i) (drop 8 b))"

definition kw_unstep :: "(u8 list \<Rightarrow> u8 list) \<Rightarrow> nat \<times> nat \<Rightarrow> u8 list \<Rightarrow> u8 list" where
  "kw_unstep D ti s = (case ti of (t, i) \<Rightarrow>
     let b = D (xorl (take 8 s) (be_bytes 8 t) @ take 8 (drop (8 * i) s))
     in memcpy_at (memcpy_at s 0 (take 8 b)) (8 * i) (drop 8 b))"

primrec kw_steps :: "nat \<Rightarrow> nat \<Rightarrow> nat \<Rightarrow> (nat \<times> nat) list" where
  "kw_steps n t 0 = []"
| "kw_steps n t (Suc m) = zip [t..<t + n] [1..<n + 1] @ kw_steps n (t + n) m"

definition kw_W :: "(u8 list \<Rightarrow> u8 list) \<Rightarrow> u8 list \<Rightarrow> u8 list" where
  "kw_W E s = (if length s = 16 then E s else fold (kw_step E) (kw_steps (length s div 8 - 1) 1 6) s)"

definition kw_W_inverse :: "(u8 list \<Rightarrow> u8 list) \<Rightarrow> u8 list \<Rightarrow> u8 list" where
  "kw_W_inverse D s =
     (if length s = 16 then D s else fold (kw_unstep D) (rev (kw_steps (length s div 8 - 1) 1 6)) s)"

section \<open>Steps\<close>

text \<open>The steps touch the header and one other semiblock of the string.\<close>

definition step_in :: "nat \<Rightarrow> nat \<times> nat \<Rightarrow> bool" where
  "step_in len ti \<longleftrightarrow> 1 \<le> snd ti \<and> 8 * snd ti + 8 \<le> len"

lemma header_semiblock_cases:
  assumes "step_in (length s) (t, i)"
  obtains a p r q where "s = a @ p @ r @ q" "length a = 8" "length r = 8" "8 * i = 8 + length p"
proof -
  have i: "8 * i = 8 + (8 * i - 8)" "8 * i + 8 \<le> length s" using assms by (auto simp: step_in_def)
  have "drop 8 s = take (8 * i - 8) (drop 8 s) @ take 8 (drop (8 * i) s) @ drop 8 (drop (8 * i) s)"
    using i(1) by (metis append_take_drop_id drop_drop add.commute)
  then have "s = take 8 s @ take (8 * i - 8) (drop 8 s) @ take 8 (drop (8 * i) s) @ drop 8 (drop (8 * i) s)"
    by (metis append_take_drop_id)
  moreover have "length (take (8 * i - 8) (drop 8 s)) = 8 * i - 8" using i(2) by simp
  ultimately show ?thesis using i by (intro that) auto
qed

lemma header_semiblock:
  assumes "length a = 8" "length r = 8" "8 * i = 8 + length p"
  shows "take 8 (a @ p @ r @ q) = a" "take 8 (drop (8 * i) (a @ p @ r @ q)) = r"
    "length x = 8 \<Longrightarrow> length y = 8 \<Longrightarrow>
     memcpy_at (memcpy_at (a @ p @ r @ q) 0 x) (8 * i) y = x @ p @ y @ q"
proof -
  show "take 8 (a @ p @ r @ q) = a" "take 8 (drop (8 * i) (a @ p @ r @ q)) = r"
    using assms by simp_all
  assume x: "length x = 8" "length y = 8"
  have "memcpy_at (a @ p @ r @ q) 0 x = x @ p @ r @ q"
    using memcpy_at_append [of x a "[]" "p @ r @ q"] assms x by simp
  moreover have "length (x @ p) = 8 * i" using assms x by simp
  ultimately show "memcpy_at (memcpy_at (a @ p @ r @ q) 0 x) (8 * i) y = x @ p @ y @ q"
    using memcpy_at_append [of y r "x @ p" q] assms x by simp
qed

lemma kw_step_eq:
  assumes "length a = 8" "length r = 8" "8 * i = 8 + length p" "length (E (a @ r)) = 16"
  shows "kw_step E (t, i) (a @ p @ r @ q) =
    xorl (take 8 (E (a @ r))) (be_bytes 8 t) @ p @ drop 8 (E (a @ r)) @ q"
  unfolding kw_step_def prod.case Let_def header_semiblock(1,2) [OF assms(1-3)]
  using assms by (intro header_semiblock(3)) simp_all

lemma kw_unstep_eq:
  assumes "length a = 8" "length r = 8" "8 * i = 8 + length p" "length (D (xorl a (be_bytes 8 t) @ r)) = 16"
  shows "kw_unstep D (t, i) (a @ p @ r @ q) =
    take 8 (D (xorl a (be_bytes 8 t) @ r)) @ p @ drop 8 (D (xorl a (be_bytes 8 t) @ r)) @ q"
  unfolding kw_unstep_def prod.case Let_def header_semiblock(1,2) [OF assms(1-3)]
  using assms by (intro header_semiblock(3)) simp_all

text \<open>The two functions of a cipher on 16-byte blocks.\<close>

definition block_inverse :: "(u8 list \<Rightarrow> u8 list) \<Rightarrow> (u8 list \<Rightarrow> u8 list) \<Rightarrow> bool" where
  "block_inverse E D \<longleftrightarrow> (\<forall>b. length b = 16 \<longrightarrow> length (E b) = 16 \<and> length (D b) = 16 \<and> D (E b) = b)"

lemma block_inverseD:
  assumes "block_inverse E D" "length b = 16"
  shows "length (E b) = 16" "length (D b) = 16" "D (E b) = b"
  using assms by (simp_all add: block_inverse_def)

lemma kw_unstep_step:
  assumes "block_inverse E D" "step_in (length s) ti"
  shows "kw_unstep D ti (kw_step E ti s) = s" "length (kw_step E ti s) = length s"
proof -
  obtain t i where ti: "ti = (t, i)" by fastforce
  obtain a p r q where s: "s = a @ p @ r @ q" and l: "length a = 8" "length r = 8" "8 * i = 8 + length p"
    using header_semiblock_cases [OF assms(2) [unfolded ti]] .
  let ?b = "E (a @ r)"
  have b: "length ?b = 16" "D ?b = a @ r" using block_inverseD [OF assms(1), of "a @ r"] l by simp_all
  let ?a' = "xorl (take 8 ?b) (be_bytes 8 t)"
  have x: "xorl ?a' (be_bytes 8 t) @ drop 8 ?b = ?b" using b(1) by simp
  have st: "kw_step E ti s = ?a' @ p @ drop 8 ?b @ q"
    unfolding ti s using l b(1) by (intro kw_step_eq)
  show "length (kw_step E ti s) = length s" using l b by (simp add: st) (simp add: s)
  have "kw_unstep D (t, i) (?a' @ p @ drop 8 ?b @ q) =
      take 8 (D (xorl ?a' (be_bytes 8 t) @ drop 8 ?b)) @ p @ drop 8 (D (xorl ?a' (be_bytes 8 t) @ drop 8 ?b)) @ q"
    using l b by (intro kw_unstep_eq) (simp_all only: x, simp_all)
  then have "kw_unstep D ti (?a' @ p @ drop 8 ?b @ q) = s"
    unfolding x b(2) using l by (simp add: s ti)
  then show "kw_unstep D ti (kw_step E ti s) = s" by (simp only: st)
qed

lemma kw_step_unstep:
  assumes "block_inverse D E" "step_in (length s) ti"
  shows "kw_step E ti (kw_unstep D ti s) = s" "length (kw_unstep D ti s) = length s"
proof -
  obtain t i where ti: "ti = (t, i)" by fastforce
  obtain a p r q where s: "s = a @ p @ r @ q" and l: "length a = 8" "length r = 8" "8 * i = 8 + length p"
    using header_semiblock_cases [OF assms(2) [unfolded ti]] .
  let ?x = "xorl a (be_bytes 8 t)"
  let ?b = "D (?x @ r)"
  have b: "length ?b = 16" "E ?b = ?x @ r" using block_inverseD [OF assms(1), of "?x @ r"] l by simp_all
  have st: "kw_unstep D ti s = take 8 ?b @ p @ drop 8 ?b @ q"
    unfolding ti s using l b(1) by (intro kw_unstep_eq)
  show "length (kw_unstep D ti s) = length s" using l b by (simp add: st) (simp add: s)
  have "kw_step E (t, i) (take 8 ?b @ p @ drop 8 ?b @ q) =
      xorl (take 8 (E (take 8 ?b @ drop 8 ?b))) (be_bytes 8 t) @ p @ drop 8 (E (take 8 ?b @ drop 8 ?b)) @ q"
    using l b by (intro kw_step_eq) simp_all
  then have "kw_step E ti (take 8 ?b @ p @ drop 8 ?b @ q) = s"
    unfolding append_take_drop_id b(2) using l by (simp add: s ti)
  then show "kw_step E ti (kw_unstep D ti s) = s" by (simp only: st)
qed

text \<open>Runs of steps.\<close>

lemma fold_unstep_step:
  assumes "block_inverse E D"
  shows "list_all (step_in (length s)) xs \<Longrightarrow>
    fold (kw_unstep D) (rev xs) (fold (kw_step E) xs s) = s \<and> length (fold (kw_step E) xs s) = length s"
  by (induction xs arbitrary: s) (simp_all add: kw_unstep_step [OF assms])

lemma fold_step_unstep:
  assumes "block_inverse D E"
  shows "list_all (step_in (length s)) xs \<Longrightarrow>
    fold (kw_step E) (rev xs) (fold (kw_unstep D) xs s) = s \<and> length (fold (kw_unstep D) xs s) = length s"
  by (induction xs arbitrary: s) (simp_all add: kw_step_unstep [OF assms])

lemma kw_steps_in:
  "8 * n + 8 \<le> len \<Longrightarrow> list_all (step_in len) (kw_steps n t m)"
proof (induction m arbitrary: t)
  case (Suc m)
  have "step_in len ti" if "ti \<in> set (zip [t..<t + n] [1..<n + 1])" for ti
    using that Suc.prems set_zip_rightD [of "fst ti" "snd ti" "[t..<t + n]" "[1..<n + 1]"]
    by (auto simp: step_in_def simp del: upt_Suc)
  then show ?case using Suc by (auto simp: list_all_iff simp del: upt_Suc)
qed simp

lemma kw_steps_Suc: "kw_steps n t (Suc m) = kw_steps n t m @ zip [t + m * n..<t + m * n + n] [1..<n + 1]"
proof (induction m arbitrary: t)
  case 0
  then show ?case by simp
next
  case (Suc m)
  have "kw_steps n t (Suc (Suc m)) = zip [t..<t + n] [1..<n + 1] @ kw_steps n (t + n) (Suc m)" by (rule kw_steps.simps)
  also have "\<dots> = zip [t..<t + n] [1..<n + 1] @ kw_steps n (t + n) m @
      zip [t + n + m * n..<t + n + m * n + n] [1..<n + 1]"
    by (simp only: Suc.IH)
  also have "\<dots> = kw_steps n t (Suc m) @ zip [t + Suc m * n..<t + Suc m * n + n] [1..<n + 1]"
    by (simp only: kw_steps.simps append_assoc mult_Suc add.assoc)
  finally show ?case .
qed

lemma kw_W_inverse_W:
  assumes "block_inverse E D" "16 \<le> length s"
  shows "kw_W_inverse D (kw_W E s) = s" "length (kw_W E s) = length s"
proof -
  have "8 * (length s div 8 - 1) + 8 \<le> length s" using assms(2) by simp
  note steps = fold_unstep_step [OF assms(1) kw_steps_in [OF this, of 1 6]]
  show "kw_W_inverse D (kw_W E s) = s" "length (kw_W E s) = length s"
    using steps block_inverseD [OF assms(1), of s] by (auto simp: kw_W_def kw_W_inverse_def)
qed

lemma kw_W_W_inverse:
  assumes "block_inverse D E" "16 \<le> length s"
  shows "kw_W E (kw_W_inverse D s) = s" "length (kw_W_inverse D s) = length s"
proof -
  have "8 * (length s div 8 - 1) + 8 \<le> length s" using assms(2) by simp
  then have "list_all (step_in (length s)) (rev (kw_steps (length s div 8 - 1) 1 6))"
    by (simp add: kw_steps_in)
  note steps = fold_step_unstep [OF assms(1) this]
  show "kw_W E (kw_W_inverse D s) = s" "length (kw_W_inverse D s) = length s"
    using steps block_inverseD [OF assms(1), of s] by (auto simp: kw_W_def kw_W_inverse_def)
qed

section \<open>The loops compute these functions\<close>

lemma list_8_cases:
  assumes "length a = 8"
  obtains x0 x1 x2 x3 x4 x5 x6 x7 where "a = [x0, x1, x2, x3, x4, x5, x6, x7]"
proof -
  have "a = map ((!) a) [0..<8]" using assms by (metis map_nth)
  then show ?thesis using that by (simp add: upt_rec numeral_eq_Suc)
qed

lemma xor_step_eq: "length a = 8 \<Longrightarrow> tc_aes_kw_xor_step a t = xorl a (be_bytes 8 t)"
  by (erule list_8_cases) (simp add: tc_aes_kw_xor_step_def be_bytes_def upt_rec)

text \<open>A step does not see what follows its semiblock.\<close>

lemma kw_step_append:
  assumes "step_in (length s) ti" "\<And>b. length b = 16 \<Longrightarrow> length (E b) = 16"
  shows "kw_step E ti (s @ x) = kw_step E ti s @ x" "length (kw_step E ti s) = length s"
proof -
  obtain t i where ti: "ti = (t, i)" by fastforce
  obtain a p r q where s: "s = a @ p @ r @ q" and l: "length a = 8" "length r = 8" "8 * i = 8 + length p"
    using header_semiblock_cases [OF assms(1) [unfolded ti]] .
  have b: "length (E (a @ r)) = 16" using assms(2) l by simp
  note eq = kw_step_eq [OF l, of E t, OF b]
  show "kw_step E ti (s @ x) = kw_step E ti s @ x" using eq [of q] eq [of "q @ x"] by (simp add: s ti)
  show "length (kw_step E ti s) = length s" using eq [of q] l b by (simp add: s ti)
qed

lemma kw_unstep_append:
  assumes "step_in (length s) ti" "\<And>b. length b = 16 \<Longrightarrow> length (D b) = 16"
  shows "kw_unstep D ti (s @ x) = kw_unstep D ti s @ x" "length (kw_unstep D ti s) = length s"
proof -
  obtain t i where ti: "ti = (t, i)" by fastforce
  obtain a p r q where s: "s = a @ p @ r @ q" and l: "length a = 8" "length r = 8" "8 * i = 8 + length p"
    using header_semiblock_cases [OF assms(1) [unfolded ti]] .
  have b: "length (D (xorl a (be_bytes 8 t) @ r)) = 16" using assms(2) l by simp
  note eq = kw_unstep_eq [OF l, of D t, OF b]
  show "kw_unstep D ti (s @ x) = kw_unstep D ti s @ x" using eq [of q] eq [of "q @ x"] by (simp add: s ti)
  show "length (kw_unstep D ti s) = length s" using eq [of q] l b by (simp add: s ti)
qed

lemma fold_step_append:
  assumes "\<And>b. length b = 16 \<Longrightarrow> length (E b) = 16"
  shows "list_all (step_in (length s)) xs \<Longrightarrow> fold (kw_step E) xs (s @ x) = fold (kw_step E) xs s @ x"
  by (induction xs arbitrary: s) (simp_all add: kw_step_append [OF _ assms])

lemma fold_unstep_append:
  assumes "\<And>b. length b = 16 \<Longrightarrow> length (D b) = 16"
  shows "list_all (step_in (length s)) xs \<Longrightarrow> fold (kw_unstep D) xs (s @ x) = fold (kw_unstep D) xs s @ x"
  by (induction xs arbitrary: s) (simp_all add: kw_unstep_append [OF _ assms])

lemma seal_pass_eq:
  assumes "aes_key_ok k"
  defines "E \<equiv> cipher_fun (tc_aes_block_cipher k)"
  shows "list_all (\<lambda>i. step_in (length s) (0, i)) is \<Longrightarrow>
    kw_seal_pass (tc_aes_block_cipher k) s t is =
      (TC_OK, fold (kw_step E) (zip [t..<t + length is] is) s, t + length is)"
proof (induction "is" arbitrary: s t)
  case Nil
  then show ?case by simp
next
  case (Cons i "is")
  have E16: "\<And>b. length b = 16 \<Longrightarrow> length (E b) = 16" using aes.fwd_length [OF assms(1)] by (simp add: E_def)
  have i: "step_in (length s) (t, i)" using Cons.prems by (simp add: step_in_def)
  obtain a p r q where s: "s = a @ p @ r @ q" and l: "length a = 8" "length r = 8" "8 * i = 8 + length p"
    using header_semiblock_cases [OF i] .
  note hs = header_semiblock [OF l]
  let ?b = "E (a @ r)"
  have enc: "encrypt (tc_aes_block_cipher k) (key (tc_aes_block_cipher k)) (a @ r) = (TC_OK, ?b)"
    using aes.fwd_eq [OF assms(1), of "a @ r"] l by (simp add: E_def)
  have b: "length ?b = 16" using E16 l by simp
  have a': "length (xorl (take 8 ?b) (be_bytes 8 t)) = 8" using b by simp
  have m1: "memcpy_at (a @ p @ r @ q) 0 (take 8 ?b) = take 8 ?b @ p @ r @ q"
    using memcpy_at_append [of "take 8 ?b" a "[]" "p @ r @ q"] l b by simp
  have m2: "memcpy_at (take 8 ?b @ p @ r @ q) 0 x = memcpy_at (a @ p @ r @ q) 0 x" if "length x = 8" for x
    using l b that by (simp add: memcpy_at_def)
  have t8: "take 8 (take 8 ?b @ p @ r @ q) = take 8 ?b" using b by simp
  have step: "memcpy_at (memcpy_at (a @ p @ r @ q) 0 (xorl (take 8 ?b) (be_bytes 8 t))) (8 * i) (take 8 (drop 8 ?b))
      = kw_step E (t, i) (a @ p @ r @ q)"
    using kw_step_eq [OF l, of E, OF b] hs(3) [OF a', of "take 8 (drop 8 ?b)" q] b by simp
  have x8: "tc_aes_kw_xor_step (take 8 ?b) t = xorl (take 8 ?b) (be_bytes 8 t)"
    using b by (intro xor_step_eq) simp
  have "kw_seal_pass (tc_aes_block_cipher k) (a @ p @ r @ q) t (i # is) =
      kw_seal_pass (tc_aes_block_cipher k) (kw_step E (t, i) (a @ p @ r @ q)) (t + 1) is"
    by (simp only: kw_seal_pass.simps hs(1,2) enc prod.case Let_def m1 t8 x8 m2 [OF a'] step
        simp_thms if_False refl not_True_eq_False)
  moreover have "length (kw_step E (t, i) (a @ p @ r @ q)) = length s"
    using kw_step_append(2) [OF i E16] by (simp add: s)
  ultimately show ?case
    using Cons.IH [of "kw_step E (t, i) s" "t + 1"] Cons.prems
    by (simp only: s) (simp add: upt_conv_Cons del: upt_Suc)
qed

lemma passes_in:
  "8 * n + 8 \<le> len \<Longrightarrow> list_all (\<lambda>i. step_in len (0, i)) [1..<n + 1]"
  "8 * n + 8 \<le> len \<Longrightarrow> list_all (\<lambda>i. step_in len (0, i)) (rev [1..<n + 1])"
  by (auto simp: list_all_iff step_in_def)

lemma seal_passes_eq:
  assumes "aes_key_ok k"
  defines "E \<equiv> cipher_fun (tc_aes_block_cipher k)"
  shows "8 * n + 8 \<le> length s \<Longrightarrow>
    kw_seal_passes (tc_aes_block_cipher k) n s t js = (TC_OK, fold (kw_step E) (kw_steps n t (length js)) s)"
proof (induction js arbitrary: s t)
  case Nil
  then show ?case by simp
next
  case (Cons j js)
  have E16: "\<And>b. length b = 16 \<Longrightarrow> length (E b) = 16" using aes.fwd_length [OF assms(1)] by (simp add: E_def)
  let ?s = "fold (kw_step E) (zip [t..<t + n] [1..<n + 1]) s"
  have len: "list_all (step_in (length s)) xs \<Longrightarrow> length (fold (kw_step E) xs s) = length s" for xs s
    by (induction xs arbitrary: s) (simp_all add: kw_step_append [OF _ E16])
  have "list_all (step_in (length s)) (zip [t..<t + n] [1..<n + 1])"
    using kw_steps_in [OF Cons.prems, of t 1] by (simp del: upt_Suc)
  then have "8 * n + 8 \<le> length ?s" using len Cons.prems by simp
  then show ?case
    using seal_pass_eq [OF assms(1) passes_in(1) [OF Cons.prems], of t, folded E_def] Cons.IH [of ?s "t + n"]
    by (simp del: upt_Suc)
qed

lemma open_pass_eq:
  assumes "aes_key_ok k"
  defines "D \<equiv> inverse_fun (tc_aes_block_cipher_inverse k)"
  shows "length a = 8 \<Longrightarrow> list_all (\<lambda>i. step_in (length (a @ r)) (0, i)) is \<Longrightarrow> length is \<le> t \<Longrightarrow>
    kw_open_pass (tc_aes_block_cipher_inverse k) a r t is =
      (let s = fold (kw_unstep D) (zip (rev [t + 1 - length is..<t + 1]) is) (a @ r)
       in (TC_OK, take 8 s, drop 8 s, t - length is))"
proof (induction "is" arbitrary: a r t)
  case Nil
  then show ?case by simp
next
  case (Cons i "is")
  have D16: "\<And>b. length b = 16 \<Longrightarrow> length (D b) = 16" using aes.bwd_length [OF assms(1)] by (simp add: D_def)
  have i: "step_in (length (a @ r)) (t, i)" using Cons.prems by (simp add: step_in_def)
  then have off: "8 * i = 8 + 8 * (i - 1)" "8 * (i - 1) + 8 \<le> length r"
    using Cons.prems(1) by (auto simp: step_in_def)
  let ?p = "take (8 * (i - 1)) r" and ?r = "take 8 (drop (8 * (i - 1)) r)" and ?q = "drop (8 * (i - 1) + 8) r"
  have r: "r = ?p @ ?r @ ?q" by (metis append_take_drop_id drop_drop add.commute)
  have l: "length a = 8" "length ?r = 8" "8 * i = 8 + length ?p" using Cons.prems off by simp_all
  let ?x = "xorl a (be_bytes 8 t) @ ?r"
  have x: "length ?x = 16" using l by simp
  have b: "length (D ?x) = 16" using D16 x by simp
  obtain d where d: "decrypt (tc_aes_block_cipher_inverse k) = Some d"
    "d (key (tc_aes_block_cipher_inverse k)) ?x = (TC_OK, D ?x)"
    using aes.bwd_ok [OF assms(1) x] by (auto simp: D_def)
  let ?a' = "take 8 (D ?x)" and ?r' = "memcpy_at r (8 * (i - 1)) (take 8 (drop 8 (D ?x)))"
  have "?r' = ?p @ drop 8 (D ?x) @ ?q"
    using memcpy_at_append [of "drop 8 (D ?x)" ?r ?p ?q] l b off r by simp
  then have step: "?a' @ ?r' = kw_unstep D (t, i) (a @ r)"
    using kw_unstep_eq [OF l, of D t ?q] b r by simp
  have len: "length (?a' @ ?r') = length (a @ r)"
    unfolding step by (rule kw_unstep_append(2) [OF i D16])
  have "kw_open_pass (tc_aes_block_cipher_inverse k) a r t (i # is) =
      kw_open_pass (tc_aes_block_cipher_inverse k) ?a' ?r' (t - 1) is"
    using l(1) by (simp add: xor_step_eq d [simplified] Let_def)
  also have "\<dots> = (let s = fold (kw_unstep D) (zip (rev [t - 1 + 1 - length is..<t - 1 + 1]) is) (?a' @ ?r')
       in (TC_OK, take 8 s, drop 8 s, t - 1 - length is))"
    using Cons.prems b by (intro Cons.IH) (simp_all only: len, simp_all)
  also have "rev [t + 1 - length (i # is)..<t + 1] = t # rev [t - 1 + 1 - length is..<t - 1 + 1]"
    using Cons.prems(3) by simp
  then have "(let s = fold (kw_unstep D) (zip (rev [t - 1 + 1 - length is..<t - 1 + 1]) is) (?a' @ ?r')
       in (TC_OK, take 8 s, drop 8 s, t - 1 - length is)) =
    (let s = fold (kw_unstep D) (zip (rev [t + 1 - length (i # is)..<t + 1]) (i # is)) (a @ r)
       in (TC_OK, take 8 s, drop 8 s, t - length (i # is)))"
    by (simp only: step zip_Cons_Cons fold_simps) simp
  finally show ?case .
qed

lemma open_passes_eq:
  assumes "aes_key_ok k"
  defines "D \<equiv> inverse_fun (tc_aes_block_cipher_inverse k)"
  shows "length a = 8 \<Longrightarrow> 8 * n \<le> length r \<Longrightarrow>
    kw_open_passes (tc_aes_block_cipher_inverse k) n a r (length js * n) js =
      (let s = fold (kw_unstep D) (rev (kw_steps n 1 (length js))) (a @ r) in (TC_OK, take 8 s, drop 8 s))"
proof (induction js arbitrary: a r)
  case Nil
  then show ?case by simp
next
  case (Cons j js)
  have D16: "\<And>b. length b = 16 \<Longrightarrow> length (D b) = 16" using aes.bwd_length [OF assms(1)] by (simp add: D_def)
  let ?m = "length js" and ?xs = "zip [1 + length js * n..<1 + length js * n + n] [1..<n + 1]"
  let ?s = "fold (kw_unstep D) (rev ?xs) (a @ r)"
  have n: "8 * n + 8 \<le> length (a @ r)" using Cons.prems by simp
  have len: "list_all (step_in (length s)) xs \<Longrightarrow> length (fold (kw_unstep D) xs s) = length s" for xs s
    by (induction xs arbitrary: s) (simp_all add: kw_unstep_append [OF _ D16])
  have "list_all (step_in (length (a @ r))) (rev ?xs)"
    using kw_steps_in [OF n, of "1 + length js * n" 1] by (simp del: upt_Suc)
  from len [OF this] have ls: "length ?s = length (a @ r)" .
  have st: "rev (kw_steps n 1 (Suc ?m)) = rev ?xs @ rev (kw_steps n 1 ?m)"
    by (simp only: kw_steps_Suc rev_append)
  have z: "zip (rev [n + ?m * n + 1 - n..<n + ?m * n + 1]) (rev [1..<n + 1]) = rev ?xs"
    by (subst zip_rev) (simp_all add: add.commute del: upt_Suc)
  have "kw_open_pass (tc_aes_block_cipher_inverse k) a r (n + ?m * n) (rev [1..<n + 1]) =
      (TC_OK, take 8 ?s, drop 8 ?s, ?m * n)"
    using open_pass_eq [OF assms(1) Cons.prems(1) passes_in(2) [OF n], of "n + ?m * n", folded D_def] z
    by (simp add: Let_def del: upt_Suc)
  then show ?case
    using Cons.IH [of "take 8 ?s" "drop 8 ?s"] ls Cons.prems st
    by (simp add: Let_def del: upt_Suc kw_steps.simps)
qed

lemma seal_eq:
  assumes "aes_key_ok k" "length s = len" "16 \<le> len" "8 dvd len"
  shows "tc_aes_kw_seal (tc_aes_block_cipher k) (s @ x) len =
           (TC_OK, kw_W (cipher_fun (tc_aes_block_cipher k)) s @ x)"
proof (cases "len = 16")
  case True
  have "memcpy_at (s @ x) 0 b = b @ x" if "length b = 16" for b
    using memcpy_at_append [of b s "[]" x] that True assms(2) by simp
  then show ?thesis
    using True assms aes.fwd_eq [OF assms(1), of s] aes.fwd_length [OF assms(1), of s]
    by (simp add: tc_aes_kw_seal_def TC_AES_BLOCKLEN_def kw_W_def Let_def)
next
  case False
  have n: "8 * (len div 8 - 1) + 8 \<le> length s" using assms by simp
  have E16: "\<And>b. length b = 16 \<Longrightarrow> length (cipher_fun (tc_aes_block_cipher k) b) = 16"
    using aes.fwd_length [OF assms(1)] by simp
  have "8 * (len div 8 - 1) + 8 \<le> length (s @ x)" using n by simp
  from seal_passes_eq [OF assms(1) this, of 1 "[0..<6]"]
  show ?thesis
    using False assms(2) fold_step_append [OF E16 kw_steps_in [OF n]]
    by (simp add: tc_aes_kw_seal_def TC_AES_BLOCKLEN_def kw_W_def Let_def TC_AES_KW_SEMIBLOCK_def del: upt_Suc)
qed

lemma open_eq:
  assumes "aes_key_ok k" "length c = len" "16 \<le> len" "8 dvd len" "length r = len - 8"
  defines "s \<equiv> kw_W_inverse (inverse_fun (tc_aes_block_cipher_inverse k)) c"
  shows "tc_aes_kw_open (tc_aes_block_cipher_inverse k) c len (r @ x) = (TC_OK, take 8 s, drop 8 s @ x)"
proof -
  let ?D = "inverse_fun (tc_aes_block_cipher_inverse k)"
  have D16: "\<And>b. length b = 16 \<Longrightarrow> length (?D b) = 16" using aes.bwd_length [OF assms(1)] by simp
  have cp: "memcpy_at (r @ x) 0 (take (len - 8) (drop 8 c)) = drop 8 c @ x"
    using memcpy_at_append [of "drop 8 c" r "[]" x] assms(2,5) by simp
  show ?thesis
  proof (cases "len = 16")
    case True
    obtain d where d: "decrypt (tc_aes_block_cipher_inverse k) = Some d"
      "d (key (tc_aes_block_cipher_inverse k)) c = (TC_OK, ?D c)"
      using aes.bwd_ok [OF assms(1), of c] True assms(2) by auto
    have blk: "take 8 c @ take 8 (drop 8 c @ x) = c" using True assms(2) by (simp add: append_take_drop_id)
    have l: "length (?D c) = 16" using D16 True assms(2) by simp
    have "memcpy_at (drop 8 c @ x) 0 (take 8 (drop 8 (?D c))) = drop 8 (?D c) @ x"
      using memcpy_at_append [of "drop 8 (?D c)" "drop 8 c" "[]" x] True assms(2) l by simp
    then show ?thesis
      unfolding tc_aes_kw_open_def Let_def TC_AES_KW_SEMIBLOCK_def cp blk
      using True assms(2) d by (simp add: TC_AES_BLOCKLEN_def s_def kw_W_inverse_def)
  next
    case False
    let ?n = "len div 8 - 1"
    have n: "8 * ?n + 8 \<le> length c" using assms by simp
    have n': "8 * ?n \<le> length (drop 8 c @ x)" using assms by simp
    have a: "length (take 8 c) = 8" using assms by simp
    have ap: "take 8 c @ drop 8 c @ x = c @ x" by (simp flip: append_assoc)
    have st: "list_all (step_in (length c)) (rev (kw_steps ?n 1 6))" using kw_steps_in [OF n] by simp
    have fu: "fold (kw_unstep ?D) (rev (kw_steps ?n 1 6)) (c @ x) = s @ x"
      using fold_unstep_append [OF D16 st] False assms(2) by (simp add: s_def kw_W_inverse_def)
    have "list_all (step_in (length s)) xs \<Longrightarrow> length (fold (kw_unstep ?D) xs s) = length s" for xs s
      by (induction xs arbitrary: s) (simp_all add: kw_unstep_append [OF _ D16])
    then have "length s = len" using st False assms(2) by (simp add: s_def kw_W_inverse_def)
    then show ?thesis
      unfolding tc_aes_kw_open_def Let_def TC_AES_KW_SEMIBLOCK_def cp
      using False open_passes_eq [OF assms(1) a n', of "[0..<6]"] assms(3)
      by (simp add: TC_AES_BLOCKLEN_def ap fu [simplified] Let_def)
  qed
qed

section \<open>The integrity checks\<close>

lemma kw_check_eq:
  "at \<noteq> NULL \<Longrightarrow> icv_at \<noteq> NULL \<Longrightarrow> length a = 8 \<Longrightarrow>
   tc_aes_kw_check at icv_at a = (if a = replicate 8 0xa6 then TC_OK else TC_MISMATCH)"
  unfolding tc_aes_kw_check_def by (subst TC_ct_equal_valid) (simp_all add: bytes_wf_def)

lemma ucast_u8_u32_eq: "(ucast (x :: u8) :: u32) = ucast y \<longleftrightarrow> x = y"
proof
  assume "(ucast x :: u32) = ucast y"
  then have "unat (ucast x :: u32) = unat (ucast y :: u32)" by simp
  then show "x = y" by (simp add: unat_ucast_up unsigned_word_eqI)
qed simp

lemma drop_bit_3_eq_0: "drop_bit 3 (w :: u32) = 0 \<longleftrightarrow> unat w < 8"
proof -
  have "drop_bit 3 w = 0 \<longleftrightarrow> unat (drop_bit 3 w) = 0" by (simp add: unat_eq_0)
  also have "unat (drop_bit 3 w) = unat w div 8"
    by (simp add: drop_bit_eq_div unat_div_distrib)
  finally show ?thesis by (simp add: div_eq_0_iff)
qed

lemma pad_mask:
  assumes "k < 8" "unat pad < 8"
  shows "0 - drop_bit 3 (of_nat k + (pad AND 7 :: u32)) = (if 8 \<le> k + unat pad then - 1 else 0)"
proof -
  have "pad AND 7 = pad"
  proof -
    have "pad AND mask 3 = take_bit 3 pad" by (simp add: take_bit_eq_mask)
    also have "unat (take_bit 3 pad) = unat pad" using assms(2) by (simp add: take_bit_eq_mod unat_mod_distrib)
    then have "take_bit 3 pad = pad" by (rule unsigned_word_eqI)
    finally show ?thesis by (simp add: mask_eq_exp_minus_1)
  qed
  moreover have "unat (of_nat k + pad) = k + unat pad"
    using assms by (simp add: unat_word_ariths unsigned_of_nat take_bit_eq_mod)
  then have "unat (drop_bit 3 (of_nat k + pad)) = (if 8 \<le> k + unat pad then 1 else 0)"
    using assms by (auto simp: drop_bit_eq_div unat_div_distrib intro!: div_nat_eqI)
  then have "drop_bit 3 (of_nat k + pad) = (if 8 \<le> k + unat pad then 1 else 0)"
    by (metis unsigned_0 unsigned_1 unsigned_word_eqI)
  ultimately show ?thesis by simp
qed

text \<open>What the padded check accepts: the constant, a length indicator in the last semiblock, zero padding.\<close>

definition kwp_accepts :: "u8 list \<Rightarrow> u8 list \<Rightarrow> nat \<Rightarrow> bool" where
  "kwp_accepts a padded area \<longleftrightarrow>
     take 4 a = [0xa6, 0x59, 0x59, 0xa6] \<and> be_val (drop 4 a) \<le> area \<and> area < be_val (drop 4 a) + 8 \<and>
     (\<forall>i. be_val (drop 4 a) \<le> i \<and> i < area \<longrightarrow> padded ! i = 0)"

lemma kwp_check_eq:
  assumes a: "length a = 8" and area: "8 \<le> area" "area < 2 ^ 32"
  shows "tc_aes_kwp_check a padded (of_nat area) len =
    (if kwp_accepts a padded area then (TC_OK, be_val (drop 4 a)) else (TC_MISMATCH, len))"
proof -
  let ?m = "tc_internal_load_be32 (drop 4 a)" and ?mli = "be_val (drop 4 a)"
  let ?pad = "of_nat area - ?m :: u32"
  have mli: "unat ?m = ?mli" "?mli < 2 ^ 32"
    using unat_load_be32 [of "drop 4 a"] be_val_less [of "drop 4 a"] a by simp_all
  have ar: "unat (of_nat area :: u32) = area" using area by (simp add: unsigned_of_nat take_bit_nat_eq_self)
  have "unat ?pad = (if ?mli \<le> area then area - ?mli else 2 ^ 32 - ?mli + area)"
    using unat_sub_if' [of "of_nat area" ?m] mli(2) by (auto simp: ar mli(1))
  then have pad: "unat ?pad < 8 \<longleftrightarrow> ?mli \<le> area \<and> area < ?mli + 8"
    and padv: "?mli \<le> area \<Longrightarrow> unat ?pad = area - ?mli"
    using mli(2) area by auto
  have hd: "take 4 a = [0xa6, 0x59, 0x59, 0xa6] \<longleftrightarrow> a ! 0 = 0xa6 \<and> a ! 1 = 0x59 \<and> a ! 2 = 0x59 \<and> a ! 3 = 0xa6"
  proof -
    have "take 4 a = [a ! 0, a ! 1, a ! 2, a ! 3]"
      using take_drop_nth [of 0 4 a] a by (simp add: upt_0_4)
    then show ?thesis by simp
  qed
  have c: "(ucast x :: u32) XOR 0xa6 = 0 \<longleftrightarrow> x = 0xa6" "(ucast x :: u32) XOR 0x59 = 0 \<longleftrightarrow> x = 0x59" for x :: u8
    using ucast_u8_u32_eq [of x "0xa6"] ucast_u8_u32_eq [of x "0x59"] by (simp_all add: word_xor_eq_0_iff)
  have loop: "(\<forall>k \<in> set [0..<8]. ucast (padded ! (area - 8 + k)) AND
        (0 - drop_bit 3 (of_nat k + (?pad AND 7))) = (0 :: u32)) \<longleftrightarrow>
      (\<forall>i. ?mli \<le> i \<and> i < area \<longrightarrow> padded ! i = 0)" if p: "unat ?pad < 8"
  proof -
    have z: "(ucast x :: u32) = 0 \<longleftrightarrow> x = 0" for x :: u8 using ucast_u8_u32_eq [of x 0] by simp
    have m: "?mli \<le> area" "unat ?pad = area - ?mli" using p pad padv by simp_all
    have "(\<forall>k \<in> set [0..<8]. ucast (padded ! (area - 8 + k)) AND
        (0 - drop_bit 3 (of_nat k + (?pad AND 7))) = (0 :: u32)) \<longleftrightarrow>
        (\<forall>k < 8. 8 \<le> k + unat ?pad \<longrightarrow> padded ! (area - 8 + k) = 0)"
      using pad_mask [OF _ p] z by (auto simp del: diff_0)
    also have "\<dots> \<longleftrightarrow> (\<forall>i. ?mli \<le> i \<and> i < area \<longrightarrow> padded ! i = 0)"
    proof (intro iffI allI impI)
      fix i assume H: "\<forall>k < 8. 8 \<le> k + unat ?pad \<longrightarrow> padded ! (area - 8 + k) = 0"
        and i: "?mli \<le> i \<and> i < area"
      have "area < ?mli + 8" using p pad by simp
      then have "i + 8 - area < 8" "8 \<le> i + 8 - area + unat ?pad" "area - 8 + (i + 8 - area) = i"
        using i m area by linarith+
      then show "padded ! i = 0" using H by metis
    next
      fix k :: nat assume H: "\<forall>i. ?mli \<le> i \<and> i < area \<longrightarrow> padded ! i = 0" and k: "k < 8" "8 \<le> k + unat ?pad"
      then have "?mli \<le> area - 8 + k" "area - 8 + k < area" using m area by linarith+
      then show "padded ! (area - 8 + k) = 0" using H by blast
    qed
    finally show ?thesis .
  qed
  have "kwp_accepts a padded area \<longleftrightarrow>
      take 4 a = [0xa6, 0x59, 0x59, 0xa6] \<and> unat ?pad < 8 \<and>
      (\<forall>k \<in> set [0..<8]. ucast (padded ! (area - 8 + k)) AND
        (0 - drop_bit 3 (of_nat k + (?pad AND 7))) = (0 :: u32))"
    using loop pad unfolding kwp_accepts_def by blast
  then show ?thesis
    unfolding tc_aes_kwp_check_def Let_def fold_or_eq_0_iff or_eq_0_iff c drop_bit_3_eq_0 hd ar
      TC_AES_KW_SEMIBLOCK_def mli(1) by auto
qed

section \<open>Key setup\<close>

text \<open>The key span is readable, apart from the local schedule, and the tables are in place.\<close>

definition kek_setup_ok :: "bool \<Rightarrow> aes_env \<Rightarrow> addr \<Rightarrow> TC_bytes \<Rightarrow> bool" where
  "kek_setup_ok dyn e at kek \<longleftrightarrow>
     tc_internal_span_valid (b_data kek) (b_length kek) \<and>
     tc_internal_ranges_disjoint at (if dyn then sizeof_dynamic_key else sizeof_key_ctx e) (b_data kek) (b_length kek) \<and>
     \<not> (aes_mode e = SBOX_MODE_RUNTIME \<and> sbox_ready e = 0)"

lemma kek_init_ok:
  assumes "aes_env_wf e" "bytes_wf kek" "at \<noteq> NULL" "tc_aes_kw_kek_ok dyn e kek" "kek_setup_ok dyn e at kek"
  shows "\<exists>k. tc_aes_kw_kek_init dyn e at kek = (TC_OK, k) \<and> aes_key_ok k \<and>
           (\<forall>b. length b = 16 \<longrightarrow> cipher_fun (tc_aes_block_cipher k) b = fips_aes (b_mem kek) b)"
proof (cases dyn)
  case True
  let ?o = "\<lparr>o_addr = at, o_size = sizeof_dynamic_key, o_val = dynamic_key_zero\<rparr>"
  have "dynamic_args_ok e (o_addr ?o) (o_size ?o) kek"
    using assms(4,5) True by (auto simp: dynamic_args_ok_def kek_setup_ok_def tc_aes_kw_kek_ok_def
        TC_AES_KW_KEK_LENGTH_SUPPORTED_def)
  then obtain c where c: "TC_AES_dynamic_key_init e ?o kek = (TC_OK, ?o\<lparr>o_val := c\<rparr>)"
    and k: "dynamic_keyed e (b_mem kek) c"
    using dynamic_init_keyed [OF assms(1,2), of ?o] assms(3) by auto
  show ?thesis
    using c dynamic_keyed_ok(1) [OF k] dynamic_keyed_cipher [OF k] True
    by (simp add: tc_aes_kw_kek_init_def dynamic_block_key_def)
next
  case False
  let ?o = "\<lparr>o_addr = at, o_size = sizeof_key_ctx e, o_val = key_ctx_zero e\<rparr>"
  have len: "b_length kek = TC_AES_KEYLEN e"
    using assms(4) False by (simp add: tc_aes_kw_kek_ok_def TC_AES_KW_KEK_LENGTH_SUPPORTED_def)
  then have kk: "kek\<lparr>b_length := TC_AES_KEYLEN e\<rparr> = kek" by (cases kek) simp
  have args: "key_args_ok e at (sizeof_key_ctx e) kek"
    using assms(5) len False by (simp add: key_args_ok_def kek_setup_ok_def)
  have keyed: "aes_keyed e (b_mem kek) (keyed_ctx e (b_mem kek))"
    by (rule keyed_ctx_keyed [OF assms(1,2) args])
  let ?c = "(aes_ctx_zero e)\<lparr>ac_key := keyed_ctx e (b_mem kek)\<rparr>"
  have "aes_key_ok (tc_aes_ctx_key e ?c)"
    using ctx_key_ok [OF assms(1), of ?c] keyed_wf [OF assms(1) keyed] keyed by (simp add: aes_keyed_def)
  moreover have "tc_aes_kw_kek_init dyn e at kek = (TC_OK, tc_aes_ctx_key e ?c)"
    using False args assms(3) key_init_eq [of ?o e kek] by (simp add: tc_aes_kw_kek_init_def kk tc_aes_ctx_key_def)
  ultimately show ?thesis using keyed_cipher [OF assms(1), of "b_mem kek" ?c] keyed by auto
qed

lemma kek_init_refused:
  assumes "at \<noteq> NULL" "\<not> kek_setup_ok dyn e at kek" "tc_aes_kw_kek_ok dyn e kek"
  shows "fst (tc_aes_kw_kek_init dyn e at kek) = TC_ERROR"
  using assms
  by (cases dyn) (auto simp: tc_aes_kw_kek_init_def dynamic_init_refused key_init_eq dynamic_args_ok_def key_args_ok_def
      kek_setup_ok_def tc_aes_kw_kek_ok_def TC_AES_KW_KEK_LENGTH_SUPPORTED_def)

section \<open>Wrapping\<close>

lemma aes_block_inverse:
  assumes "aes_key_ok k"
  shows "block_inverse (cipher_fun (tc_aes_block_cipher k)) (inverse_fun (tc_aes_block_cipher_inverse k))"
    "block_inverse (inverse_fun (tc_aes_block_cipher_inverse k)) (cipher_fun (tc_aes_block_cipher k))"
  using aes.fwd_length [OF assms] aes.bwd_length [OF assms] aes.bwd_fwd [OF assms] aes.fwd_bwd [OF assms]
  by (simp_all add: block_inverse_def)

lemma kw_W_cong:
  assumes "\<And>b. length b = 16 \<Longrightarrow> E b = E' b" "\<And>b. length b = 16 \<Longrightarrow> length (E b) = 16" "16 \<le> length s"
  shows "kw_W E s = kw_W E' s"
proof -
  have step: "kw_step E ti s = kw_step E' ti s" if "step_in (length s) ti" for ti s
    using that assms(1) by (auto simp: kw_step_def step_in_def split: prod.split)
  have "fold (kw_step E) xs s = fold (kw_step E') xs s" if "list_all (step_in (length s)) xs" for xs s
    using that by (induction xs arbitrary: s) (auto simp: step kw_step_append(2) [OF _ assms(2)] simp flip: step)
  moreover have "8 * (length s div 8 - 1) + 8 \<le> length s" using assms(3) by simp
  ultimately show ?thesis using assms(1) by (simp add: kw_W_def kw_steps_in)
qed

text \<open>The string that is sealed: the constant and the key data, with length and zero padding in KWP.\<close>

definition kw_plain :: "bool \<Rightarrow> u8 list \<Rightarrow> u8 list" where
  "kw_plain padded p =
     (if padded
      then [0xa6, 0x59, 0x59, 0xa6] @ be_bytes 4 (length p) @ p @
           replicate (TC_AES_KWP_WRAPPED_BYTES (length p) - 8 - length p) 0
      else replicate 8 0xa6 @ p)"

definition kw_wrapped_length :: "bool \<Rightarrow> nat \<Rightarrow> nat" where
  "kw_wrapped_length padded n = (if padded then TC_AES_KWP_WRAPPED_BYTES n else TC_AES_KW_WRAPPED_BYTES n)"

lemma kwp_wrapped_bytes:
  "n + 8 \<le> TC_AES_KWP_WRAPPED_BYTES n" "TC_AES_KWP_WRAPPED_BYTES n < n + 16" "8 dvd TC_AES_KWP_WRAPPED_BYTES n"
  unfolding TC_AES_KWP_WRAPPED_BYTES_def by presburger+

lemma kwp_wrapped_unique:
  assumes "m \<le> w - 8" "w - 8 < m + 8" "16 \<le> w" "8 dvd w"
  shows "TC_AES_KWP_WRAPPED_BYTES m = w"
proof -
  obtain q where q: "w = 8 * q" using assms(4) by (rule dvdE)
  have "(m + 7) div 8 = q - 1"
    by (rule div_nat_eqI) (use assms q in auto)
  then show ?thesis using q assms(3) by (simp add: TC_AES_KWP_WRAPPED_BYTES_def diff_mult_distrib)
qed

lemma kwp_wrapped_max: "n \<le> 4294967288 \<Longrightarrow> TC_AES_KWP_WRAPPED_BYTES n \<le> 4294967296"
  unfolding TC_AES_KWP_WRAPPED_BYTES_def by presburger

lemma length_kw_plain [simp]: "length (kw_plain padded p) = kw_wrapped_length padded (length p)"
  using kwp_wrapped_bytes(1) [of "length p"]
  by (auto simp: kw_plain_def kw_wrapped_length_def TC_AES_KW_WRAPPED_BYTES_def)

lemma store_be32_of_nat: "n < 2 ^ 32 \<Longrightarrow> tc_internal_store_be32 (of_nat n) = be_bytes 4 n"
proof -
  assume n: "n < 2 ^ 32"
  have "be_val (tc_internal_store_be32 (of_nat n)) = n"
    using unat_load_be32 [of "tc_internal_store_be32 (of_nat n)"] n
    by (simp add: load_store_be32 unsigned_of_nat take_bit_nat_eq_self)
  then show ?thesis using be_bytes_be_val [of "tc_internal_store_be32 (of_nat n)" 4] by simp
qed

lemma memcpy_at_mid:
  "length xs = at \<Longrightarrow> length src = length ys \<Longrightarrow> memcpy_at (xs @ ys @ zs) at src = xs @ src @ zs"
  using memcpy_at_append by blast

lemma formatted_out:
  assumes "length p = n" "kw_wrapped_length padded n \<le> length out" "n < 2 ^ 32 \<or> \<not> padded"
  shows "(let out = memcpy_at out 8 p
          in if padded
             then memcpy_at (memcpy_at (memcpy_at out (8 + n)
                    (replicate (TC_AES_KWP_WRAPPED_BYTES n - 8 - n) 0)) 0 [0xa6, 0x59, 0x59, 0xa6])
                    4 (tc_internal_store_be32 (of_nat n))
             else memcpy_at out 0 (replicate 8 0xa6)) =
         kw_plain padded p @ drop (kw_wrapped_length padded n) out"
proof -
  let ?w = "kw_wrapped_length padded n"
  obtain h q r x where out: "out = h @ q @ r @ x" and l: "length h = 8" "length q = n" "length r = ?w - 8 - n"
    and w: "n + 8 \<le> ?w"
  proof
    have w: "n + 8 \<le> ?w" using kwp_wrapped_bytes(1) [of n]
      by (simp add: kw_wrapped_length_def TC_AES_KW_WRAPPED_BYTES_def)
    then show "n + 8 \<le> ?w" .
    show "out = take 8 out @ take n (drop 8 out) @ take (?w - 8 - n) (drop (8 + n) out) @ drop (?w - 8 - n) (drop (8 + n) out)"
      by (metis append_take_drop_id drop_drop add.commute)
    show "length (take 8 out) = 8" "length (take n (drop 8 out)) = n"
      "length (take (?w - 8 - n) (drop (8 + n) out)) = ?w - 8 - n" using w assms(2) by simp_all
  qed
  have m1: "memcpy_at out 8 p = h @ p @ r @ x"
    using memcpy_at_append [of p q h "r @ x"] l assms(1) out by simp
  have dr: "drop ?w out = x" using l w by (simp add: out)
  show ?thesis
  proof (cases padded)
    case True
    obtain h1 h2 where h: "h = h1 @ h2" "length h1 = 4" "length h2 = 4"
      using l(1) by (metis append_take_drop_id length_take length_drop min_absorb2 diff_add_inverse
          numeral_Bit0 le_add1)
    have n32: "n < 2 ^ 32" using True assms(3) by simp
    let ?z = "replicate (TC_AES_KWP_WRAPPED_BYTES n - 8 - n) (0 :: u8)"
    have r: "length ?z = length r" using l(3) True by (simp add: kw_wrapped_length_def)
    have m2: "memcpy_at (h @ p @ r @ x) (8 + n) ?z = h @ p @ ?z @ x"
      using memcpy_at_append [OF r, of "h @ p" x] l(1) assms(1) by simp
    have m3: "memcpy_at (h1 @ h2 @ p @ ?z @ x) 0 [0xa6, 0x59, 0x59, 0xa6] =
        [0xa6, 0x59, 0x59, 0xa6] @ h2 @ p @ ?z @ x"
      using memcpy_at_append [of "[0xa6, 0x59, 0x59, 0xa6]" h1 "[]"] h by simp
    have m4: "memcpy_at ([0xa6, 0x59, 0x59, 0xa6] @ h2 @ p @ ?z @ x) 4 (tc_internal_store_be32 (of_nat n)) =
        [0xa6, 0x59, 0x59, 0xa6] @ be_bytes 4 n @ p @ ?z @ x"
      unfolding store_be32_of_nat [OF n32] using h by (intro memcpy_at_mid) simp_all
    show ?thesis
      unfolding Let_def m1 m2 dr using True m3 m4 assms(1) by (simp add: h(1) kw_plain_def)
  next
    case False
    then have "r = []" using l(3) w by (simp add: kw_wrapped_length_def TC_AES_KW_WRAPPED_BYTES_def)
    moreover have "memcpy_at (h @ p @ x) 0 (replicate 8 0xa6) = replicate 8 0xa6 @ p @ x"
      using memcpy_at_append [of "replicate 8 0xa6" h "[]"] l(1) by simp
    ultimately show ?thesis unfolding Let_def m1 dr using False by (simp add: kw_plain_def)
  qed
qed

lemma kw_wrapped_length_facts:
  assumes "tc_aes_kw_wrap_args_ok dyn e kek key_data wrapped padded"
  defines "w \<equiv> kw_wrapped_length padded (b_length key_data)"
  shows "tc_aes_kw_kek_ok dyn e kek" "b_data key_data \<noteq> NULL" "w \<le> w_capacity wrapped" "16 \<le> w" "8 dvd w"
    "b_length key_data < 2 ^ 32 \<or> \<not> padded" "w_data wrapped \<noteq> NULL"
    "w \<le> (if padded then TC_AES_KWP_MAX_WRAPPED_BYTES else TC_AES_KW_MAX_WRAPPED_BYTES)"
    "padded \<or> 24 \<le> w"
  using assms(1) kwp_wrapped_bytes [of "b_length key_data"] kwp_wrapped_max [of "b_length key_data"]
    TC_AES_KWP_MAX_KEY_DATA_BYTES_def TC_AES_KWP_MAX_WRAPPED_BYTES_def
  unfolding w_def tc_aes_kw_wrap_args_ok_def kw_wrapped_length_def tc_aes_kw_length_ok_def
    TC_AES_KW_SEMIBLOCK_def TC_AES_KW_WRAPPED_BYTES_def TC_AES_KW_MAX_KEY_DATA_BYTES_def
    TC_AES_KW_MAX_WRAPPED_BYTES_def
  by (auto split: if_splits simp: mod_eq_0_iff_dvd)

lemma kw_wrap_eq:
  assumes "aes_env_wf e" "bytes_wf kek" "bytes_wf key_data" "at \<noteq> NULL" "buffer_wf wrapped"
    "tc_aes_kw_wrap_args_ok dyn e kek key_data wrapped padded" "kek_setup_ok dyn e at kek"
  shows "tc_aes_kw_wrap dyn e at kek key_data (w_mem wrapped) padded =
    (TC_OK, kw_W (fips_aes (b_mem kek)) (kw_plain padded (b_mem key_data)) @
            drop (kw_wrapped_length padded (b_length key_data)) (w_mem wrapped))"
proof -
  let ?n = "b_length key_data" and ?out = "w_mem wrapped"
  let ?w = "kw_wrapped_length padded ?n"
  note f = kw_wrapped_length_facts [OF assms(6)]
  have len: "length (b_mem key_data) = ?n" using assms(3) f(2) by (simp add: bytes_wf_def)
  have lo: "length ?out = w_capacity wrapped" using assms(5) f(7) by (simp add: buffer_wf_def)
  obtain k where k: "tc_aes_kw_kek_init dyn e at kek = (TC_OK, k)" "aes_key_ok k"
    and E: "\<And>b. length b = 16 \<Longrightarrow> cipher_fun (tc_aes_block_cipher k) b = fips_aes (b_mem kek) b"
    using kek_init_ok [OF assms(1,2,4) f(1) assms(7)] by auto
  let ?p = "kw_plain padded (b_mem key_data)"
  have lp: "length ?p = ?w" by (simp add: len)
  have seal: "tc_aes_kw_seal (tc_aes_block_cipher k) (?p @ drop ?w ?out) ?w =
      (TC_OK, kw_W (cipher_fun (tc_aes_block_cipher k)) ?p @ drop ?w ?out)"
    by (rule seal_eq [OF k(2) lp f(4,5)])
  have cong: "kw_W (cipher_fun (tc_aes_block_cipher k)) ?p = kw_W (fips_aes (b_mem kek)) ?p"
    using E aes.fwd_length [OF k(2)] f(4) by (intro kw_W_cong) (simp_all add: len)
  have out: "?w \<le> length ?out" using f(3) lo by simp
  note fmt = formatted_out [OF len out f(6), unfolded Let_def]
  have w: "(if padded then TC_AES_KWP_WRAPPED_BYTES ?n else TC_AES_KW_WRAPPED_BYTES ?n) = ?w"
    by (simp add: kw_wrapped_length_def)
  show ?thesis
  proof (cases padded)
    case True
    then show ?thesis
      using fmt seal cong w by (simp add: tc_aes_kw_wrap_def k(1) Let_def TC_AES_KW_SEMIBLOCK_def)
  next
    case False
    then show ?thesis
      using fmt seal cong w by (simp add: tc_aes_kw_wrap_def k(1) Let_def TC_AES_KW_SEMIBLOCK_def)
  qed
qed

section \<open>Unwrapping\<close>

text \<open>A header and a working area are accepted exactly when they are the formatted string of some key data.\<close>

lemma kwp_accepts_plain:
  assumes s: "length s = w" "16 \<le> w" "8 dvd w" "w \<le> 2 ^ 32"
  shows "kwp_accepts (take 8 s) (drop 8 s @ x) (w - 8) \<longleftrightarrow>
    (\<exists>p. s = kw_plain True p \<and> TC_AES_KWP_WRAPPED_BYTES (length p) = w \<and> length p = be_val (take 4 (drop 4 s)))"
    (is "?acc \<longleftrightarrow> ?ex")
proof
  define m where "m = be_val (take 4 (drop 4 s))"
  have hd: "drop 4 (take 8 s) = take 4 (drop 4 s)" by (simp add: drop_take)
  assume ?acc
  then have icv: "take 4 s = [0xa6, 0x59, 0x59, 0xa6]" and mb: "m \<le> w - 8" "w - 8 < m + 8"
    and z: "\<And>i. m \<le> i \<Longrightarrow> i < w - 8 \<Longrightarrow> (drop 8 s @ x) ! i = 0"
    using hd by (auto simp: kwp_accepts_def m_def)
  let ?p = "take m (drop 8 s)"
  have lp: "length ?p = m" using mb s by simp
  have wb: "TC_AES_KWP_WRAPPED_BYTES m = w"
    using mb s(2,3) by (rule kwp_wrapped_unique)
  have pad: "drop m (drop 8 s) = replicate (w - 8 - m) 0"
  proof (rule nth_equalityI)
    fix i assume "i < length (drop m (drop 8 s))"
    then show "drop m (drop 8 s) ! i = replicate (w - 8 - m) 0 ! i"
      using z [of "m + i"] s mb by (simp add: nth_append add.assoc add.commute add.left_commute)
  qed (use s mb in simp)
  have "s = take 4 s @ take 4 (drop 4 s) @ take m (drop 8 s) @ drop m (drop 8 s)"
    using append_take_drop_id [of 4 s] append_take_drop_id [of 4 "drop 4 s"] append_take_drop_id [of m "drop 8 s"]
    by simp
  moreover have "take 4 (drop 4 s) = be_bytes 4 m" using s by (simp add: m_def)
  ultimately have "s = [0xa6, 0x59, 0x59, 0xa6] @ be_bytes 4 m @ ?p @ replicate (w - 8 - m) 0"
    by (simp only: icv pad)
  then have "s = kw_plain True ?p" unfolding kw_plain_def lp wb by simp
  then show ?ex using lp wb m_def by metis
next
  assume ?ex
  then obtain p where p: "s = kw_plain True p" "TC_AES_KWP_WRAPPED_BYTES (length p) = w"
    "length p = be_val (take 4 (drop 4 s))" by blast
  let ?z = "replicate (w - 8 - length p) (0 :: u8)"
  have l: "length p + 8 \<le> w" "w < length p + 16" using kwp_wrapped_bytes [of "length p"] p(2) by simp_all
  have s': "s = [0xa6, 0x59, 0x59, 0xa6] @ be_bytes 4 (length p) @ p @ ?z"
    using p(1,2) by (simp add: kw_plain_def)
  have t4: "take 4 (take 8 s) = [0xa6, 0x59, 0x59, 0xa6]" and d8: "drop 8 s = p @ ?z"
    by (simp_all add: s')
  have "drop 4 (take 8 s) = take 4 (drop 4 s)" by (simp add: drop_take)
  then show ?acc
    unfolding kwp_accepts_def t4 d8 p(3) [symmetric]
    using l p(3) by (auto simp: nth_append)
qed

text \<open>What the checks of one unwrap accept.\<close>

definition kw_is_wrapped :: "bool \<Rightarrow> u8 list \<Rightarrow> u8 list \<Rightarrow> u8 list \<Rightarrow> bool" where
  "kw_is_wrapped padded kek p c \<longleftrightarrow>
     c = kw_W (fips_aes kek) (kw_plain padded p) \<and> kw_wrapped_length padded (length p) = length c \<and>
     (padded \<longrightarrow> length p < 2 ^ 32)"

text \<open>Key data that fill the working area with the zero padding after them.\<close>

definition kw_area :: "bool \<Rightarrow> u8 list \<Rightarrow> u8 list" where
  "kw_area padded p = drop 8 (kw_plain padded p)"

lemma kw_unwrap_facts:
  assumes "tc_aes_kw_unwrap_args_ok dyn e kek wrapped key_data padded" "bytes_wf wrapped" "buffer_wf key_data"
  shows "tc_aes_kw_kek_ok dyn e kek" "length (b_mem wrapped) = b_length wrapped" "16 \<le> b_length wrapped"
    "8 dvd b_length wrapped" "b_length wrapped - 8 \<le> length (w_mem key_data)"
    "padded \<Longrightarrow> b_length wrapped \<le> 2 ^ 32" "\<not> padded \<Longrightarrow> 24 \<le> b_length wrapped"
  using assms
  by (auto simp: tc_aes_kw_unwrap_args_ok_def Let_def tc_aes_kw_length_ok_def TC_AES_KW_SEMIBLOCK_def
      bytes_wf_def buffer_wf_def TC_AES_KWP_MAX_WRAPPED_BYTES_def mod_eq_0_iff_dvd split: if_splits)

lemma kw_plain_inject:
  assumes "kw_plain padded p = kw_plain padded q" "padded \<longrightarrow> length p < 2 ^ 32 \<and> length q < 2 ^ 32"
  shows "p = q"
proof (cases padded)
  case True
  have eq: "be_bytes 4 (length p) @ p @ replicate (TC_AES_KWP_WRAPPED_BYTES (length p) - 8 - length p) 0 =
      be_bytes 4 (length q) @ q @ replicate (TC_AES_KWP_WRAPPED_BYTES (length q) - 8 - length q) 0"
    using assms(1) True by (simp add: kw_plain_def)
  then have "be_bytes 4 (length p) = be_bytes 4 (length q)" by simp
  then have "length p = length q" using assms(2) True be_bytes_eq_iff [of "length p" 4 "length q"] by simp
  then show ?thesis using eq by simp
next
  case False
  then show ?thesis using assms(1) by (simp add: kw_plain_def)
qed

text \<open>The core of an unwrap on a working key: the inverse of the wrapping function, then the check.\<close>

lemma kw_unwrap_core:
  assumes env: "aes_env_wf e" "bytes_wf kek" "at \<noteq> NULL" "kek_setup_ok dyn e at kek" "a_at \<noteq> NULL" "icv_at \<noteq> NULL"
    and args: "tc_aes_kw_unwrap_args_ok dyn e kek wrapped key_data padded" "bytes_wf wrapped" "buffer_wf key_data"
    and l: "padded \<longleftrightarrow> o_addr lenp \<noteq> NULL"
  obtains s where "length s = b_length wrapped" "b_mem wrapped = kw_W (fips_aes (b_mem kek)) s"
    "\<And>s'. length s' = b_length wrapped \<Longrightarrow> b_mem wrapped = kw_W (fips_aes (b_mem kek)) s' \<Longrightarrow> s' = s"
    "tc_aes_kw_unwrap dyn e at a_at icv_at kek wrapped (w_mem key_data) lenp =
       (let area = b_length wrapped - 8; x = drop area (w_mem key_data);
            ok = (if padded then kwp_accepts (take 8 s) (drop 8 s @ x) area else take 8 s = replicate 8 0xa6)
        in if ok then (TC_OK, drop 8 s @ x, if padded then lenp\<lparr>o_val := be_val (take 4 (drop 4 s))\<rparr> else lenp)
           else (TC_MISMATCH, replicate area 0 @ x, lenp))"
proof -
  let ?n = "b_length wrapped" and ?c = "b_mem wrapped" and ?m = "w_mem key_data"
  let ?x = "drop (?n - 8) ?m"
  note f = kw_unwrap_facts [OF args]
  obtain k where k: "tc_aes_kw_kek_init dyn e at kek = (TC_OK, k)" "aes_key_ok k"
    and E: "\<And>b. length b = 16 \<Longrightarrow> cipher_fun (tc_aes_block_cipher k) b = fips_aes (b_mem kek) b"
    using kek_init_ok [OF env(1,2,3) f(1) env(4)] by auto
  let ?E = "cipher_fun (tc_aes_block_cipher k)" and ?D = "inverse_fun (tc_aes_block_cipher_inverse k)"
  define s where "s = kw_W_inverse ?D ?c"
  note inv = aes_block_inverse [OF k(2)]
  have ls: "length s = ?n" and Ws: "kw_W ?E s = ?c"
    using kw_W_W_inverse [OF inv(2), of ?c] f(2,3) by (simp_all add: s_def)
  have cong: "kw_W ?E s' = kw_W (fips_aes (b_mem kek)) s'" if "length s' = ?n" for s'
    using E aes.fwd_length [OF k(2)] f(3) that by (intro kw_W_cong) simp_all
  have m: "?m = take (?n - 8) ?m @ ?x" "length (take (?n - 8) ?m) = ?n - 8" using f(5) by simp_all
  have op: "tc_aes_kw_open (tc_aes_block_cipher_inverse k) ?c ?n ?m = (TC_OK, take 8 s, drop 8 s @ ?x)"
    using open_eq [OF k(2) f(2,3,4) m(2), of ?x] by (simp add: s_def)
  have wipe: "wipe_bytes (drop 8 s @ ?x) (?n - 8) = replicate (?n - 8) 0 @ ?x"
    using ls by (simp add: wipe_bytes_eq)
  have hd: "drop 4 (take 8 s) = take 4 (drop 4 s)" by (simp add: drop_take)
  have t8: "length (take 8 s) = 8" using ls f(3) by simp
  have kwp: "tc_aes_kwp_check (take 8 s) (drop 8 s @ ?x) (of_nat (?n - 8)) (?n - 8) =
      (if kwp_accepts (take 8 s) (drop 8 s @ ?x) (?n - 8) then (TC_OK, be_val (take 4 (drop 4 s)))
       else (TC_MISMATCH, ?n - 8))" if "padded"
    using kwp_check_eq [OF t8, of "?n - 8" "drop 8 s @ ?x" "?n - 8"] f(3,6) that by (simp add: hd)
  have eq: "tc_aes_kw_unwrap dyn e at a_at icv_at kek wrapped ?m lenp =
       (let area = ?n - 8; x = drop area ?m;
            ok = (if padded then kwp_accepts (take 8 s) (drop 8 s @ x) area else take 8 s = replicate 8 0xa6)
        in if ok then (TC_OK, drop 8 s @ x, if padded then lenp\<lparr>o_val := be_val (take 4 (drop 4 s))\<rparr> else lenp)
           else (TC_MISMATCH, replicate area 0 @ x, lenp))"
  proof (cases padded)
    case True
    then show ?thesis
      using l kwp op wipe unfolding tc_aes_kw_unwrap_def Let_def TC_AES_KW_SEMIBLOCK_def k(1) prod.case op by simp
  next
    case False
    then show ?thesis
      using l kw_check_eq [OF env(5,6) t8] wipe
      unfolding tc_aes_kw_unwrap_def Let_def TC_AES_KW_SEMIBLOCK_def k(1) prod.case op by simp
  qed
  have uniq: "s' = s" if "length s' = ?n" "?c = kw_W (fips_aes (b_mem kek)) s'" for s'
    using that kw_W_inverse_W(1) [OF inv(1), of s'] cong [of s'] f(3) by (simp add: s_def)
  show ?thesis using that [OF ls _ uniq eq] Ws cong [OF ls] by simp
qed

lemma kw_unwrap_result:
  assumes env: "aes_env_wf e" "bytes_wf kek" "at \<noteq> NULL" "kek_setup_ok dyn e at kek" "a_at \<noteq> NULL" "icv_at \<noteq> NULL"
    and args: "tc_aes_kw_unwrap_args_ok dyn e kek wrapped key_data padded" "bytes_wf wrapped" "buffer_wf key_data"
    and l: "padded \<longleftrightarrow> o_addr lenp \<noteq> NULL"
  defines "area \<equiv> b_length wrapped - 8"
  defines "x \<equiv> drop area (w_mem key_data)"
  shows "kw_is_wrapped padded (b_mem kek) p (b_mem wrapped) \<Longrightarrow>
      tc_aes_kw_unwrap dyn e at a_at icv_at kek wrapped (w_mem key_data) lenp =
        (TC_OK, kw_area padded p @ x, if padded then lenp\<lparr>o_val := length p\<rparr> else lenp)"
    and "\<nexists>p. kw_is_wrapped padded (b_mem kek) p (b_mem wrapped) \<Longrightarrow>
      tc_aes_kw_unwrap dyn e at a_at icv_at kek wrapped (w_mem key_data) lenp =
        (TC_MISMATCH, replicate area 0 @ x, lenp)"
proof -
  let ?n = "b_length wrapped" and ?c = "b_mem wrapped"
  note f = kw_unwrap_facts [OF args]
  obtain s where ls: "length s = ?n" and c: "?c = kw_W (fips_aes (b_mem kek)) s"
    and uniq: "\<And>s'. length s' = ?n \<Longrightarrow> ?c = kw_W (fips_aes (b_mem kek)) s' \<Longrightarrow> s' = s"
    and eq: "tc_aes_kw_unwrap dyn e at a_at icv_at kek wrapped (w_mem key_data) lenp =
       (let area = ?n - 8; x = drop area (w_mem key_data);
            ok = (if padded then kwp_accepts (take 8 s) (drop 8 s @ x) area else take 8 s = replicate 8 0xa6)
        in if ok then (TC_OK, drop 8 s @ x, if padded then lenp\<lparr>o_val := be_val (take 4 (drop 4 s))\<rparr> else lenp)
           else (TC_MISMATCH, replicate area 0 @ x, lenp))"
    using kw_unwrap_core [OF env args l] by blast
  define ok where "ok = (if padded then kwp_accepts (take 8 s) (drop 8 s @ x) area else take 8 s = replicate 8 0xa6)"
  have eq': "tc_aes_kw_unwrap dyn e at a_at icv_at kek wrapped (w_mem key_data) lenp =
      (if ok then (TC_OK, drop 8 s @ x, if padded then lenp\<lparr>o_val := be_val (take 4 (drop 4 s))\<rparr> else lenp)
       else (TC_MISMATCH, replicate area 0 @ x, lenp))"
    using eq by (simp only: ok_def area_def x_def Let_def)
  have accepts: "ok \<longleftrightarrow> (\<exists>p. s = kw_plain True p \<and> TC_AES_KWP_WRAPPED_BYTES (length p) = ?n \<and>
      length p = be_val (take 4 (drop 4 s)))" if "padded"
    using kwp_accepts_plain [OF ls f(3,4) f(6) [OF that], of x] that by (simp add: ok_def area_def)
  show "tc_aes_kw_unwrap dyn e at a_at icv_at kek wrapped (w_mem key_data) lenp =
        (TC_OK, kw_area padded p @ x, if padded then lenp\<lparr>o_val := length p\<rparr> else lenp)"
    if w: "kw_is_wrapped padded (b_mem kek) p ?c"
  proof -
    have s: "s = kw_plain padded p"
      using w f(2) uniq [of "kw_plain padded p"] by (simp add: kw_is_wrapped_def)
    have m: "be_val (take 4 (drop 4 s)) = length p" if "padded"
      using that w s by (simp add: kw_plain_def kw_is_wrapped_def)
    have "ok"
    proof (cases padded)
      case True
      then show ?thesis using accepts [OF True] s m w f(2) by (auto simp: kw_is_wrapped_def kw_wrapped_length_def)
    next
      case False
      then show ?thesis by (simp add: ok_def s kw_plain_def)
    qed
    then show ?thesis using eq' m by (simp add: kw_area_def s)
  qed
  show "tc_aes_kw_unwrap dyn e at a_at icv_at kek wrapped (w_mem key_data) lenp =
        (TC_MISMATCH, replicate area 0 @ x, lenp)"
    if no: "\<nexists>p. kw_is_wrapped padded (b_mem kek) p ?c"
  proof -
    have "\<not> ok"
    proof
      assume ok
      have "\<exists>p. kw_is_wrapped padded (b_mem kek) p ?c"
      proof (cases padded)
        case True
        then obtain p where p: "s = kw_plain True p" "TC_AES_KWP_WRAPPED_BYTES (length p) = ?n"
          using accepts [OF True] \<open>ok\<close> by auto
        have "length p < 2 ^ 32" using kwp_wrapped_bytes(1) [of "length p"] p(2) f(6) [OF True] by simp
        then show ?thesis using p c True f(2) by (auto simp: kw_is_wrapped_def kw_wrapped_length_def)
      next
        case False
        then have "s = kw_plain False (drop 8 s)"
          using \<open>ok\<close> append_take_drop_id [of 8 s] by (simp add: ok_def kw_plain_def)
        then have "kw_is_wrapped False (b_mem kek) (drop 8 s) ?c"
          using c ls f(2,3) unfolding kw_is_wrapped_def
          by (simp add: kw_wrapped_length_def TC_AES_KW_WRAPPED_BYTES_def)
        then show ?thesis using False by auto
      qed
      with no show False by blast
    qed
    then show ?thesis by (simp add: eq')
  qed
qed

end
