(* ===== verification/MAC_Core.thy ===== *)
theory MAC_Core
  imports Block_Modes
begin

text \<open>
  The block-cipher MAC building blocks of \<^verbatim>\<open>src/src/mac_core.c\<close>, which AES and DES share: doubling in
  \<^verbatim>\<open>GF(2^n)\<close>, CMAC subkeys, CBC-MAC chaining with a partial block, CMAC finalization, and the one-shot CMAC
  and its verification. A chaining value and a partial block are arrays of at least the block size, as in
  the source, where the one-shot functions use arrays of the largest block. The lemmas, proved in the
  locale \<open>mac_cipher\<close>, show that absorbing a message in any number of pieces gives the CBC-MAC chain of
  the whole message and that the final step gives the CMAC of NIST SP 800-38B.
\<close>

section \<open>Doubling and subkeys\<close>

definition gf_double_step :: "u8 list \<Rightarrow> nat \<Rightarrow> u8 list \<times> u8 \<Rightarrow> u8 list \<times> u8" where
  "gf_double_step input offset s =
     (case s of (output, carry) \<Rightarrow>
       let nxt = drop_bit 7 (input ! offset)
       in (output[offset := push_bit 1 (input ! offset) OR carry], nxt))"

definition tc_mac_gf_double :: "u8 list \<Rightarrow> u8 list \<Rightarrow> nat \<Rightarrow> u8 \<Rightarrow> u8 list" where
  "tc_mac_gf_double output input size_b reduction =
     (case fold (gf_double_step input) (rev [0..<size_b]) (output, 0) of (output, carry) \<Rightarrow>
        output[size_b - 1 := output ! (size_b - 1) XOR (reduction AND (0 - carry))])"

definition tc_mac_gf_double_reversed :: "u8 list \<Rightarrow> u8 list \<Rightarrow> nat \<Rightarrow> u8 \<Rightarrow> u8 list" where
  "tc_mac_gf_double_reversed output input size_b reduction =
     (case fold (gf_double_step input) [0..<size_b] (output, 0) of (output, carry) \<Rightarrow>
        output[0 := output ! 0 XOR (reduction AND (0 - carry))])"

definition tc_mac_derive_subkeys ::
  "'k tc_block_cipher \<Rightarrow> u8 \<Rightarrow> bool \<Rightarrow> u8 list \<Rightarrow> u8 list \<Rightarrow> TC_status \<times> u8 list \<times> u8 list" where
  "tc_mac_derive_subkeys cipher reduction reversed k1 k2 =
     (let width = block_size cipher
      in case encrypt cipher (key cipher) (take width (replicate TC_BLOCK_MAX 0)) of (status, l) \<Rightarrow>
        if status = TC_OK
        then if reversed
             then let k1 = tc_mac_gf_double_reversed k1 l width reduction;
                      k2 = tc_mac_gf_double_reversed k2 k1 width reduction in (status, k1, k2)
             else let k1 = tc_mac_gf_double k1 l width reduction;
                      k2 = tc_mac_gf_double k2 k1 width reduction in (status, k1, k2)
        else (status, wipe_bytes k1 width, wipe_bytes k2 width))"

section \<open>CBC-MAC chaining\<close>

definition tc_mac_cbc_block :: "'k tc_block_cipher \<Rightarrow> u8 list \<Rightarrow> u8 list \<Rightarrow> TC_status \<times> u8 list" where
  "tc_mac_cbc_block cipher mac block =
     (let width = block_size cipher;
          mac = fold (\<lambda>i m. m[i := m ! i XOR block ! i]) [0..<width] mac
      in case encrypt cipher (key cipher) (take width mac) of (status, m) \<Rightarrow> (status, memcpy_at mac 0 m))"

text \<open>
  The absorbing loop; \<open>fill\<close> is \<^verbatim>\<open>*used\<close>, the number of bytes in the partial block. The code requires \<^verbatim>\<open>*used <= block_size\<close> of its caller and a positive block size;
  outside this contract the loop writes past the block or does not end, and the model stops with an error.
\<close>

function cbc_update_loop ::
  "'k tc_block_cipher \<Rightarrow> u8 list \<Rightarrow> u8 list \<Rightarrow> nat \<Rightarrow> u8 list \<Rightarrow> bool \<Rightarrow> TC_status \<times> u8 list \<times> u8 list \<times> nat" where
  "cbc_update_loop cipher mac block fill data retain_last =
     (let width = block_size cipher
      in if data = [] then (TC_OK, mac, block, fill)
         else if width = 0 \<or> width < fill then (TC_ERROR, mac, block, fill)
         else case (if fill = width
                    then case tc_mac_cbc_block cipher mac block of (status, mac) \<Rightarrow> (status, mac, 0)
                    else (TC_OK, mac, fill))
              of (status, mac, fill) \<Rightarrow>
                if status \<noteq> TC_OK then (TC_ERROR, mac, block, width)
                else if fill = 0 \<and> (if retain_last then length data > width else length data \<ge> width)
                then case tc_mac_cbc_block cipher mac data of (status, mac) \<Rightarrow>
                       if status \<noteq> TC_OK then (TC_ERROR, mac, block, fill)
                       else cbc_update_loop cipher mac block fill (drop width data) retain_last
                else let tk = width - fill;
                         tk = (if tk > length data then length data else tk)
                     in cbc_update_loop cipher mac (memcpy_at block fill (take tk data)) (fill + tk)
                          (drop tk data) retain_last)"
  by pat_completeness auto
termination
  by (relation "measure (\<lambda>(cipher, mac, block, fill, data, retain_last). length data)")
    (auto split: if_splits prod.splits)

declare cbc_update_loop.simps [simp del]

definition tc_mac_cbc_update ::
  "'k tc_block_cipher \<Rightarrow> u8 list \<Rightarrow> u8 list \<Rightarrow> nat \<Rightarrow> u8 list \<Rightarrow> bool \<Rightarrow> TC_status \<times> u8 list \<times> u8 list \<times> nat" where
  "tc_mac_cbc_update cipher mac block fill data retain_last =
     (case cbc_update_loop cipher mac block fill data retain_last of (status, mac, block, fill) \<Rightarrow>
        if status \<noteq> TC_OK then (TC_ERROR, mac, block, fill)
        else if \<not> retain_last \<and> fill = block_size cipher
        then case tc_mac_cbc_block cipher mac block of (status, mac) \<Rightarrow>
               if status \<noteq> TC_OK then (TC_ERROR, mac, block, fill) else (TC_OK, mac, block, 0)
        else (TC_OK, mac, block, fill))"

definition tc_mac_cbc_pad ::
  "'k tc_block_cipher \<Rightarrow> u8 list \<Rightarrow> u8 list \<Rightarrow> nat \<Rightarrow> TC_status \<times> u8 list \<times> u8 list \<times> nat" where
  "tc_mac_cbc_pad cipher mac block fill =
     (if fill \<noteq> 0
      then let block = memcpy_at block fill (replicate (block_size cipher - fill) 0)
           in case tc_mac_cbc_block cipher mac block of (status, mac) \<Rightarrow>
                if status \<noteq> TC_OK then (TC_ERROR, mac, block, fill)
                else (TC_OK, mac, memcpy_at block 0 (replicate (block_size cipher) 0), 0)
      else (TC_OK, mac, block, fill))"

section \<open>CMAC\<close>

definition tc_mac_cmac_final ::
  "'k tc_block_cipher \<Rightarrow> u8 list \<Rightarrow> u8 list \<Rightarrow> nat \<Rightarrow> u8 list \<Rightarrow> u8 list \<Rightarrow> u8 list \<Rightarrow>
   TC_status \<times> u8 list \<times> u8 list \<times> u8 list" where
  "tc_mac_cmac_final cipher mac block fill complete_subkey partial_subkey tag =
     (let width = block_size cipher;
          block = (if fill \<noteq> width
                   then (memcpy_at block fill (replicate (width - fill) 0))[fill := 0x80] else block);
          subkey = (if fill = width then complete_subkey else partial_subkey);
          block = fold (\<lambda>i b. b[i := b ! i XOR subkey ! i]) [0..<width] block
      in case tc_mac_cbc_block cipher mac block of (status, mac) \<Rightarrow>
           if status \<noteq> TC_OK then (TC_ERROR, mac, block, tag)
           else (TC_OK, mac, block, memcpy_at tag 0 (take width mac)))"

fun cmac_parts_loop ::
  "'k tc_block_cipher \<Rightarrow> u8 list \<Rightarrow> u8 list \<Rightarrow> nat \<Rightarrow> TC_bytes list \<Rightarrow> TC_status \<times> u8 list \<times> u8 list \<times> nat" where
  "cmac_parts_loop cipher mac block fill [] = (TC_OK, mac, block, fill)"
| "cmac_parts_loop cipher mac block fill (p # ps) =
     (case tc_mac_cbc_update cipher mac block fill (b_mem p) True of (status, mac, block, fill) \<Rightarrow>
        if status \<noteq> TC_OK then (status, mac, block, fill) else cmac_parts_loop cipher mac block fill ps)"

text \<open>\<open>initial\<close> is \<open>None\<close> for the null pointer.\<close>

definition tc_mac_cmac_parts ::
  "'k tc_block_cipher \<Rightarrow> u8 list option \<Rightarrow> TC_bytes list \<Rightarrow> nat \<Rightarrow> u8 list \<Rightarrow> u8 list \<Rightarrow> u8 list \<Rightarrow>
   TC_status \<times> u8 list" where
  "tc_mac_cmac_parts cipher initial parts count complete_subkey partial_subkey tag =
     (let mac = replicate TC_BLOCK_MAX 0;
          mac = (case initial of None \<Rightarrow> mac | Some iv \<Rightarrow> memcpy_at mac 0 (take (block_size cipher) iv))
      in case cmac_parts_loop cipher mac (replicate TC_BLOCK_MAX 0) 0 (take count parts)
         of (status, mac, block, fill) \<Rightarrow>
           if status = TC_OK
           then case tc_mac_cmac_final cipher mac block fill complete_subkey partial_subkey tag
                of (status, _, _, tag) \<Rightarrow> (status, tag)
           else (status, tag))"

text \<open>
  The local arrays \<^verbatim>\<open>k1\<close>, \<^verbatim>\<open>k2\<close> and \<^verbatim>\<open>full\<close> are uninitialized in C; every byte that is read is written first, so
  their contents on entry, here zero, do not matter.
\<close>

definition tc_mac_cmac_oneshot ::
  "nat \<Rightarrow> 'k tc_block_cipher \<Rightarrow> u8 \<Rightarrow> TC_bytes \<Rightarrow> TC_buffer \<Rightarrow> bool \<Rightarrow> TC_status \<times> TC_buffer" where
  "tc_mac_cmac_oneshot MIN_TAG_LEN cipher reduction msg tag short_tag =
     (let blk = replicate TC_BLOCK_MAX 0
      in if w_data tag = NULL \<or>
            \<not> tc_internal_tag_length_allowed MIN_TAG_LEN (w_capacity tag) (block_size cipher) short_tag \<or>
            \<not> tc_internal_span_valid (b_data msg) (b_length msg)
         then (TC_ERROR, tag)
         else case tc_mac_derive_subkeys cipher reduction False blk blk of (status, k1, k2) \<Rightarrow>
           if status \<noteq> TC_OK then (status, tag)
           else case tc_mac_cmac_parts cipher None [msg] 1 k1 k2 blk of (status, full) \<Rightarrow>
             if status = TC_OK then (status, tag\<lparr>w_mem := memcpy_at (w_mem tag) 0 (take (w_capacity tag) full)\<rparr>)
             else (status, tag))"

text \<open>\<open>at\<close> is the address of the local array \<^verbatim>\<open>computed\<close>.\<close>

definition tc_mac_cmac_verify ::
  "nat \<Rightarrow> addr \<Rightarrow> 'k tc_block_cipher \<Rightarrow> u8 \<Rightarrow> TC_bytes \<Rightarrow> TC_bytes \<Rightarrow> bool \<Rightarrow> TC_status" where
  "tc_mac_cmac_verify MIN_TAG_LEN at cipher reduction msg tag short_tag =
     (if b_data tag = NULL \<or>
         \<not> tc_internal_tag_length_allowed MIN_TAG_LEN (b_length tag) (block_size cipher) short_tag
      then TC_ERROR
      else case tc_mac_cmac_oneshot MIN_TAG_LEN cipher reduction msg
                  \<lparr>w_data = at, w_capacity = b_length tag, w_mem = replicate TC_BLOCK_MAX 0\<rparr> short_tag
           of (status, computed) \<Rightarrow>
             fst (tc_internal_verify_tag status at (w_mem computed) TC_BLOCK_MAX tag))"

text \<open>The absent argument of the one-shot forms, \<^verbatim>\<open>{NULL, 0}\<close>.\<close>

definition no_bytes :: TC_bytes where "no_bytes = \<lparr>b_data = NULL, b_length = 0, b_mem = []\<rparr>"

definition no_buffer :: TC_buffer where "no_buffer = \<lparr>w_data = NULL, w_capacity = 0, w_mem = []\<rparr>"

section \<open>CBC-MAC and CMAC as SP 800-38B defines them\<close>

definition cbc_mac :: "(u8 list \<Rightarrow> u8 list) \<Rightarrow> u8 list \<Rightarrow> u8 list list \<Rightarrow> u8 list" where
  "cbc_mac E init bs = fold (\<lambda>b m. E (xorl m b)) bs init"

text \<open>The doubling: shift the block left by one bit and add the reduction when a bit falls out.\<close>

definition gf_dbl :: "nat \<Rightarrow> u8 \<Rightarrow> u8 list \<Rightarrow> u8 list" where
  "gf_dbl w reduction b =
     (let d = be_bytes w (2 * be_val b)
      in if 256 ^ w \<le> 2 * be_val b then d[w - 1 := d ! (w - 1) XOR reduction] else d)"

text \<open>The last block, complete or padded, is masked with a subkey; the blocks before it are chained.\<close>

definition cmac_spec :: "(u8 list \<Rightarrow> u8 list) \<Rightarrow> nat \<Rightarrow> u8 list \<Rightarrow> u8 list \<Rightarrow> u8 list \<Rightarrow> u8 list \<Rightarrow> u8 list" where
  "cmac_spec E w init k1 k2 msg =
     (let q = (length msg - 1) div w;
          chain = cbc_mac E init (chunks w (take (w * q) msg));
          last = drop (w * q) msg;
          last = (if length last = w then xorl last k1
                  else xorl (last @ 0x80 # replicate (w - length last - 1) 0) k2)
      in E (xorl chain last))"

definition cmac :: "(u8 list \<Rightarrow> u8 list) \<Rightarrow> nat \<Rightarrow> u8 \<Rightarrow> u8 list \<Rightarrow> u8 list" where
  "cmac E w reduction msg =
     (let k1 = gf_dbl w reduction (E (replicate w 0)); k2 = gf_dbl w reduction k1
      in cmac_spec E w (replicate w 0) k1 k2 msg)"

text \<open>
  The absorbing state after a message: \<open>q\<close> blocks are chained, the other bytes wait in the partial block.
\<close>

definition mac_state :: "(u8 list \<Rightarrow> u8 list) \<Rightarrow> nat \<Rightarrow> u8 list \<Rightarrow> u8 list \<Rightarrow> u8 list \<Rightarrow> u8 list \<Rightarrow> nat \<Rightarrow> bool" where
  "mac_state E w init msg mac block fill \<longleftrightarrow>
     w \<le> length mac \<and> w \<le> length block \<and> fill \<le> w \<and>
     (\<exists>q. w * q + fill = length msg \<and> take w mac = cbc_mac E init (chunks w (take (w * q) msg)) \<and>
          take fill block = drop (w * q) msg)"

section \<open>Doubling\<close>

lemma shift_or_carry:
  assumes "c \<le> (1 :: u8)"
  shows "unat (push_bit 1 (b :: u8) OR c) = (2 * unat b) mod 256 + unat c"
    and "unat (drop_bit 7 b) = 2 * unat b div 256"
proof -
  have c: "c = 0 \<or> c = 1"
  proof -
    have "unat c \<le> 1" using assms by (simp add: word_le_nat_alt)
    then have "unat c = 0 \<or> unat c = unat (1 :: u8)" by auto
    then show ?thesis by (metis unsigned_word_eqI unsigned_0)
  qed
  have u: "unat (push_bit 1 b) = (2 * unat b) mod 256"
    by (simp add: push_bit_eq_mult unat_word_ariths mult.commute)
  show "unat (push_bit 1 b OR c) = (2 * unat b) mod 256 + unat c"
  proof (cases "c = 0")
    case True
    then show ?thesis using u by simp
  next
    case False
    then have c1: "c = 1" using c by simp
    have "push_bit 1 b AND 1 = 0" by (simp add: and_one_eq flip: even_iff_mod_2_eq_zero)
    then have "push_bit 1 b OR 1 = push_bit 1 b + 1" by (simp add: disjunctive_add_eq_or)
    moreover have "(2 * unat b) mod 256 + 1 < 256"
    proof -
      have lt: "(2 * unat b) mod 256 < 256" by simp
      have "2 dvd (2 * unat b) mod 256" by (rule dvd_mod) simp_all
      then obtain j where "(2 * unat b) mod 256 = 2 * j" ..
      moreover from this lt have "j < 128" by simp
      ultimately show ?thesis by simp
    qed
    ultimately show ?thesis using c1 u by (simp add: unat_word_ariths)
  qed
  show "unat (drop_bit 7 b) = 2 * unat b div 256"
    by (simp add: drop_bit_eq_div unat_div_distrib)
qed

lemma add_carry_div_mod:
  fixes a c :: nat
  assumes "a mod 256 + c < 256"
  shows "(a + c) div 256 = a div 256" "(a + c) mod 256 = a mod 256 + c"
proof -
  have "a + c = (a mod 256 + c) + 256 * (a div 256)" using mult_div_mod_eq [of 256 a] by linarith
  then show "(a + c) div 256 = a div 256" "(a + c) mod 256 = a mod 256 + c"
    using assms by (simp_all only: mod_mult_self2 div_mult_self2 mod_less div_less)
qed

lemma double_carry:
  fixes b v m c :: nat
  assumes "0 < m" "c = 2 * v div m" "2 * b mod 256 + c < 256"
  shows "2 * (b * m + v) div (m * 256) = 2 * b div 256"
    and "2 * (b * m + v) mod (m * 256) = (2 * b mod 256 + c) * m + 2 * v mod m"
proof -
  have x: "2 * (b * m + v) = 2 * v + m * (2 * b)" by (simp add: algebra_simps)
  have d: "2 * (b * m + v) div m = 2 * b + c" and r: "2 * (b * m + v) mod m = 2 * v mod m"
    unfolding x assms(2) using assms(1) by (simp_all only: div_mult_self2 mod_mult_self2)
  note dm = add_carry_div_mod [OF assms(3)]
  show "2 * (b * m + v) div (m * 256) = 2 * b div 256" by (simp only: div_mult2_eq d dm)
  show "2 * (b * m + v) mod (m * 256) = (2 * b mod 256 + c) * m + 2 * v mod m"
    unfolding mod_mult2_eq d r dm by (simp only: mult.commute)
qed

lemma gf_double_fold:
  assumes "k \<le> w" "w \<le> length input" "w \<le> length out"
  defines "v \<equiv> be_val (drop (w - k) (take w input))"
  shows "\<exists>r. fold (gf_double_step input) (rev [w - k..<w]) (out, 0) =
           (take (w - k) out @ r @ drop w out, of_nat (2 * v div 256 ^ k)) \<and>
         length r = k \<and> be_val r = 2 * v mod 256 ^ k \<and> 2 * v div 256 ^ k \<le> 1"
  using assms(1) unfolding v_def
proof (induction k)
  case 0
  then show ?case using assms by simp
next
  case (Suc k)
  let ?i = "w - Suc k" and ?s = "drop (w - k) (take w input)"
  let ?v = "be_val ?s" and ?b = "input ! ?i"
  have i: "Suc ?i = w - k" "?i < w" using Suc.prems by simp_all
  from Suc obtain r where
    IH: "fold (gf_double_step input) (rev [w - k..<w]) (out, 0) =
           (take (w - k) out @ r @ drop w out, of_nat (2 * ?v div 256 ^ k))"
    and r: "length r = k" "be_val r = 2 * ?v mod 256 ^ k" "2 * ?v div 256 ^ k \<le> 1"
    by auto
  let ?c = "2 * ?v div 256 ^ k"
  have upt: "rev [?i..<w] = rev [w - k..<w] @ [?i]" using i by (simp add: upt_conv_Cons)
  have sfx: "drop ?i (take w input) = ?b # ?s" using i assms by (simp add: Cons_nth_drop_Suc [symmetric])
  have ls: "length ?s = k" using Suc.prems assms by simp
  have cw: "(of_nat ?c :: u8) \<le> 1" "unat (of_nat ?c :: u8) = ?c"
    using r(3) by (simp_all add: word_le_nat_alt)
  have upd: "(take (w - k) out @ ys)[?i := x] = take ?i out @ x # ys" for x ys
  proof -
    have "take (w - k) out = take ?i out @ [out ! ?i]"
      using i assms by (metis take_Suc_conv_app_nth less_le_trans)
    then show ?thesis using i assms by (simp add: list_update_append)
  qed
  let ?x = "push_bit 1 ?b OR of_nat ?c"
  have fold: "fold (gf_double_step input) (rev [?i..<w]) (out, 0) =
      (take ?i out @ (?x # r) @ drop w out, drop_bit 7 ?b)"
    by (simp add: upt IH gf_double_step_def upd)
  note sc = shift_or_carry [OF cw(1), of ?b]
  have v: "be_val (?b # ?s) = unat ?b * 256 ^ k + ?v" using ls by simp
  have "2 * unat ?b mod 256 + ?c < 256"
    using unat_u8_less [of ?x] unfolding sc(1) cw(2) .
  from double_carry [OF _ refl this]
  have d2: "2 * be_val (?b # ?s) div 256 ^ Suc k = 2 * unat ?b div 256"
    and m2: "2 * be_val (?b # ?s) mod 256 ^ Suc k = (2 * unat ?b mod 256 + ?c) * 256 ^ k + 2 * ?v mod 256 ^ k"
    unfolding v power_Suc2 by simp_all
  have val: "be_val (?x # r) = 2 * be_val (?b # ?s) mod 256 ^ Suc k"
    unfolding m2 be_val.simps(2) [of ?x r] sc(1) cw(2) r(1,2) by (rule refl)
  have "drop_bit 7 ?b = of_nat (2 * be_val (?b # ?s) div 256 ^ Suc k)"
    unfolding d2 sc(2) [symmetric] by simp
  with fold have fold': "fold (gf_double_step input) (rev [?i..<w]) (out, 0) =
      (take ?i out @ (?x # r) @ drop w out, of_nat (2 * be_val (?b # ?s) div 256 ^ Suc k))"
    by (simp only:)
  have "2 * unat ?b < 2 * 256" using unat_u8_less [of ?b] by linarith
  from less_mult_imp_div_less [OF this]
  have le: "2 * be_val (?b # ?s) div 256 ^ Suc k \<le> 1" unfolding d2 by linarith
  have len: "length (?x # r) = Suc k" using r(1) by simp
  show ?case unfolding sfx using fold' len val le by blast
qed

lemma gf_double_eq:
  assumes "0 < w" "w \<le> length input" "w \<le> length out"
  shows "tc_mac_gf_double out input w reduction = gf_dbl w reduction (take w input) @ drop w out"
proof -
  let ?v = "be_val (take w input)"
  obtain r where fold: "fold (gf_double_step input) (rev [0..<w]) (out, 0) =
      (r @ drop w out, of_nat (2 * ?v div 256 ^ w))"
    and r: "length r = w" "be_val r = 2 * ?v mod 256 ^ w" "2 * ?v div 256 ^ w \<le> 1"
    using gf_double_fold [of w w input out] assms by auto
  have rb: "r = be_bytes w (2 * ?v)" using r(1,2) by (intro be_val_inject) simp_all
  have c: "256 ^ w \<le> 2 * ?v \<longleftrightarrow> 2 * ?v div 256 ^ w = 1"
  proof
    assume "256 ^ w \<le> 2 * ?v"
    then have "2 * ?v div 256 ^ w \<noteq> 0" by (simp add: div_eq_0_iff)
    then show "2 * ?v div 256 ^ w = 1" using r(3) by linarith
  next
    assume "2 * ?v div 256 ^ w = 1"
    then show "256 ^ w \<le> 2 * ?v" by (metis div_less not_less zero_neq_one)
  qed
  show ?thesis
  proof (cases "256 ^ w \<le> 2 * ?v")
    case True
    then show ?thesis
      using assms(1) r(1) c
      by (simp add: tc_mac_gf_double_def fold gf_dbl_def Let_def flip: rb)
        (simp add: nth_append list_update_append)
  next
    case False
    then have "2 * ?v div 256 ^ w = 0" by simp
    then show ?thesis
      using False assms(1) r(1)
      by (simp add: tc_mac_gf_double_def fold gf_dbl_def Let_def flip: rb)
  qed
qed

lemma length_gf_dbl [simp, len_simps]: "length (gf_dbl w reduction b) = w"
  by (simp add: gf_dbl_def Let_def)

section \<open>Chaining\<close>

lemma cbc_mac_simps [simp]:
  "cbc_mac E init [] = init" "cbc_mac E init (b # bs) = cbc_mac E (E (xorl init b)) bs"
  by (simp_all add: cbc_mac_def)

lemma cbc_mac_append: "cbc_mac E init (bs @ cs) = cbc_mac E (cbc_mac E init bs) cs"
  by (simp add: cbc_mac_def)

lemma chunks_block: "0 < w \<Longrightarrow> length b = w \<Longrightarrow> chunks w b = [b]"
  using chunks_append_block [of w b "[]"] by simp

text \<open>The chained blocks of a message extended by one block.\<close>

lemma cbc_mac_snoc_block:
  assumes "0 < w" "w dvd length p" "length b = w"
  shows "cbc_mac E init (chunks w (p @ b)) = E (xorl (cbc_mac E init (chunks w p)) b)"
  using assms by (simp add: chunks_append chunks_block cbc_mac_append)

text \<open>A cipher that the MACs run on; AES and DES interpret it.\<close>

text \<open>The byte-reversed doubling is the doubling of the reversed block.\<close>

lemma gf_double_step_rev:
  assumes "i < w" "length input = w" "length out = w"
  shows "gf_double_step input (w - Suc i) (rev out, c) = map_prod rev id (gf_double_step (rev input) i (out, c))"
  using assms by (simp add: gf_double_step_def Let_def rev_nth rev_update)

lemma gf_double_fold_rev:
  "list_all (\<lambda>i. i < w) is \<Longrightarrow> length input = w \<Longrightarrow> length out = w \<Longrightarrow>
    fold (gf_double_step input) (map (\<lambda>i. w - Suc i) is) (rev out, c) = map_prod rev id (fold (gf_double_step (rev input)) is (out, c))"
proof (induction "is" arbitrary: out c)
  case (Cons i "is")
  obtain out' c' where s: "gf_double_step (rev input) i (out, c) = (out', c')" by fastforce
  then have "length out' = w" using Cons.prems by (auto simp: gf_double_step_def Let_def)
  with Cons s show ?case by (simp add: gf_double_step_rev)
qed simp

lemma gf_double_reversed_eq:
  assumes "0 < w" "length input = w" "length out = w"
  shows "tc_mac_gf_double_reversed out input w reduction = rev (gf_dbl w reduction (rev input))"
proof -
  have idx: "map (\<lambda>i. w - Suc i) (rev [0..<w]) = [0..<w]" by (rule nth_equalityI) (simp_all add: rev_nth)
  obtain o2 c2 where f: "fold (gf_double_step (rev input)) (rev [0..<w]) (rev out, 0) = (o2, c2)" by fastforce
  have "length o2 = w"
  proof -
    have "length (fst (fold (gf_double_step x) is s)) = length (fst s)" for x "is" s
      by (induction "is" arbitrary: s) (auto simp: gf_double_step_def Let_def split: prod.splits)
    from this [of "rev input" "rev [0..<w]" "(rev out, 0)"] show ?thesis using f assms(3) by simp
  qed
  have "fold (gf_double_step input) [0..<w] (out, 0) = (rev o2, c2)"
    using gf_double_fold_rev [of w "rev [0..<w]" input "rev out" 0] f assms idx by (simp add: list_all_iff)
  moreover have "tc_mac_gf_double (rev out) (rev input) w reduction = o2[w - 1 := o2 ! (w - 1) XOR (reduction AND (0 - c2))]"
    using f by (simp add: tc_mac_gf_double_def)
  then have "gf_dbl w reduction (rev input) = o2[w - 1 := o2 ! (w - 1) XOR (reduction AND (0 - c2))]"
    using gf_double_eq [OF assms(1), of "rev input" "rev out" reduction] assms by simp
  ultimately show ?thesis
    using assms(1) \<open>length o2 = w\<close> by (simp add: tc_mac_gf_double_reversed_def rev_update rev_nth)
qed

locale mac_cipher = block_cipher fwd key_ok width
  for fwd :: "'k \<Rightarrow> 'k tc_block_cipher" and key_ok :: "'k \<Rightarrow> bool" and width :: nat
begin

lemma cbc_block_eq:
  assumes "key_ok k" "width \<le> length mac" "width \<le> length block"
  shows "tc_mac_cbc_block (fwd k) mac block =
    (TC_OK, cipher_fun (fwd k) (xorl (take width mac) (take width block)) @ drop width mac)"
proof -
  let ?x = "xorl (take width mac) (take width block)"
  have x: "fold (\<lambda>i m. m[i := m ! i XOR block ! i]) [0..<width] mac = ?x @ drop width mac"
    using tc_internal_xor_eq [of width mac block] assms(2,3) by (simp add: tc_internal_xor_def)
  have lx: "length ?x = width" using assms by simp
  have "memcpy_at (?x @ drop width mac) 0 y = y @ drop width mac" if "length y = width" for y
    using memcpy_at_append [of y ?x "[]"] that lx by simp
  then show ?thesis
    using fwd_eq [OF assms(1) lx] fwd_length [OF assms(1) lx] lx
    by (simp add: tc_mac_cbc_block_def fwd_size x)
qed

text \<open>Processing a full partial block, and processing a whole block of the input.\<close>

lemma mac_state_flush:
  assumes "key_ok k" "mac_state (cipher_fun (fwd k)) width init msg mac block width"
  shows "\<exists>mac'. tc_mac_cbc_block (fwd k) mac block = (TC_OK, mac') \<and> length mac' = length mac \<and>
    mac_state (cipher_fun (fwd k)) width init msg mac' block 0"
proof -
  let ?E = "cipher_fun (fwd k)"
  obtain q where q: "width * q + width = length msg" "take width mac = cbc_mac ?E init (chunks width (take (width * q) msg))"
    "take width block = drop (width * q) msg" and l: "width \<le> length mac" "width \<le> length block"
    using assms(2) by (auto simp: mac_state_def)
  let ?m = "?E (xorl (take width mac) (take width block))"
  have lm: "length ?m = width" using fwd_length [OF assms(1)] l by simp
  have "?m = cbc_mac ?E init (chunks width (take (width * q) msg @ drop (width * q) msg))"
    using cbc_mac_snoc_block [of width "take (width * q) msg" "drop (width * q) msg" ?E init] width_pos q
    by simp
  then have "?m = cbc_mac ?E init (chunks width (take (width * Suc q) msg))" using q(1) by simp
  then have "mac_state ?E width init msg (?m @ drop width mac) block 0"
    using q(1) l lm by (auto simp: mac_state_def intro!: exI [of _ "Suc q"])
  then show ?thesis using cbc_block_eq [OF assms(1) l] lm l by simp
qed

lemma mac_state_block:
  assumes "key_ok k" "mac_state (cipher_fun (fwd k)) width init msg mac block 0" "width \<le> length data"
  shows "\<exists>mac'. tc_mac_cbc_block (fwd k) mac data = (TC_OK, mac') \<and> length mac' = length mac \<and>
    mac_state (cipher_fun (fwd k)) width init (msg @ take width data) mac' block 0"
proof -
  let ?E = "cipher_fun (fwd k)"
  obtain q where q: "width * q = length msg" "take width mac = cbc_mac ?E init (chunks width msg)"
    and l: "width \<le> length mac" "width \<le> length block"
    using assms(2) by (auto simp: mac_state_def)
  let ?m = "?E (xorl (take width mac) (take width data))"
  have lm: "length ?m = width" using fwd_length [OF assms(1)] l assms(3) by simp
  have "width dvd length msg" using q(1) by (metis dvd_triv_left)
  then have "?m = cbc_mac ?E init (chunks width (msg @ take width data))"
    using cbc_mac_snoc_block [of width msg "take width data" ?E init] width_pos q(2) assms(3) by simp
  then have "mac_state ?E width init (msg @ take width data) (?m @ drop width mac) block 0"
    using q(1) l lm assms(3) by (auto simp: mac_state_def intro!: exI [of _ "Suc q"])
  then show ?thesis using cbc_block_eq [OF assms(1) l(1) assms(3)] lm l by simp
qed

lemma mac_state_fill:
  assumes "mac_state E width init msg mac block fill" "fill + length d \<le> width"
  shows "mac_state E width init (msg @ d) mac (memcpy_at block fill d) (fill + length d)"
    and "length (memcpy_at block fill d) = length block"
proof -
  obtain q where q: "width * q + fill = length msg" "take width mac = cbc_mac E init (chunks width (take (width * q) msg))"
    "take fill block = drop (width * q) msg" and l: "width \<le> length mac" "width \<le> length block"
    using assms(1) by (auto simp: mac_state_def)
  show lb: "length (memcpy_at block fill d) = length block" using l assms(2) by (simp add: length_memcpy_at)
  have "take (fill + length d) (memcpy_at block fill d) = drop (width * q) (msg @ d)"
    using q l assms(2) by (simp add: memcpy_at_def flip: q(1))
  then show "mac_state E width init (msg @ d) mac (memcpy_at block fill d) (fill + length d)"
    using q l lb assms(2) by (auto simp: mac_state_def intro!: exI [of _ q])
qed

lemma cbc_update_loop_step:
  assumes "0 < width" "data \<noteq> []" "fill \<le> width"
  shows "cbc_update_loop (fwd k) mac block fill data retain_last =
    (case (if fill = width
           then case tc_mac_cbc_block (fwd k) mac block of (status, mac) \<Rightarrow> (status, mac, 0)
           else (TC_OK, mac, fill))
     of (status, mac, fill) \<Rightarrow>
       if status \<noteq> TC_OK then (TC_ERROR, mac, block, width)
       else if fill = 0 \<and> (if retain_last then length data > width else length data \<ge> width)
       then case tc_mac_cbc_block (fwd k) mac data of (status, mac) \<Rightarrow>
              if status \<noteq> TC_OK then (TC_ERROR, mac, block, fill)
              else cbc_update_loop (fwd k) mac block fill (drop width data) retain_last
       else cbc_update_loop (fwd k) mac (memcpy_at block fill (take (min (width - fill) (length data)) data))
              (fill + min (width - fill) (length data)) (drop (min (width - fill) (length data)) data) retain_last)"
proof -
  have "data = [] \<longleftrightarrow> False" "width = 0 \<or> width < fill \<longleftrightarrow> False" using assms by auto
  moreover have "(if width - f > length data then length data else width - f) = min (width - f) (length data)" for f
    by (simp add: min_def)
  ultimately show ?thesis
    by (subst cbc_update_loop.simps) (simp only: fwd_size Let_def if_False)
qed

text \<open>
  Absorbing bytes extends the message of the state. A nonempty piece leaves bytes in the partial block when
  the last block is retained.
\<close>

lemma cbc_update_loop_eq:
  assumes "key_ok k"
  defines "E \<equiv> cipher_fun (fwd k)"
  shows "mac_state E width init msg mac block fill \<Longrightarrow>
    \<exists>mac' block' fill'. cbc_update_loop (fwd k) mac block fill data retain_last = (TC_OK, mac', block', fill') \<and>
      length mac' = length mac \<and> length block' = length block \<and>
      mac_state E width init (msg @ data) mac' block' fill' \<and>
      (retain_last \<and> data \<noteq> [] \<longrightarrow> fill' \<noteq> 0) \<and> (data = [] \<longrightarrow> fill' = fill)"
proof (induction data arbitrary: msg mac block fill rule: length_induct)
  case (1 data)
  show ?case
  proof (cases "data = []")
    case True
    then show ?thesis using 1(2) by (simp add: cbc_update_loop.simps)
  next
    case ne: False
    have fill: "fill \<le> width" using 1(2) by (simp add: mac_state_def)
    obtain mac1 fill1 where flush: "(if fill = width
           then case tc_mac_cbc_block (fwd k) mac block of (status, mac) \<Rightarrow> (status, mac, 0)
           else (TC_OK, mac, fill)) = (TC_OK, mac1, fill1)"
      and st1: "mac_state E width init msg mac1 block fill1" and f1: "fill1 < width" and lm: "length mac1 = length mac"
    proof (cases "fill = width")
      case True
      then show thesis
        using mac_state_flush [OF assms(1), of init msg mac block] 1(2) width_pos that
        by (auto simp: E_def)
    next
      case False
      then show thesis using fill 1(2) that by auto
    qed
    note step = cbc_update_loop_step [OF width_pos ne fill, of k mac block retain_last,
        unfolded flush prod.case]
    show ?thesis
    proof (cases "fill1 = 0 \<and> (if retain_last then length data > width else length data \<ge> width)")
      case True
      then have ge: "width \<le> length data" by (auto split: if_splits)
      obtain mac2 where b: "tc_mac_cbc_block (fwd k) mac1 data = (TC_OK, mac2)" "length mac2 = length mac1"
        and st2: "mac_state E width init (msg @ take width data) mac2 block 0"
        using mac_state_block [OF assms(1), of init msg mac1 block data] st1 True ge by (auto simp: E_def)
      have "length (drop width data) < length data" using ge width_pos by simp
      from 1(1) [rule_format, OF this st2] obtain mac' block' fill' where
        r: "cbc_update_loop (fwd k) mac2 block 0 (drop width data) retain_last = (TC_OK, mac', block', fill')"
          "length mac' = length mac2" "length block' = length block"
          "mac_state E width init ((msg @ take width data) @ drop width data) mac' block' fill'"
          "retain_last \<and> drop width data \<noteq> [] \<longrightarrow> fill' \<noteq> 0" by blast
      have "cbc_update_loop (fwd k) mac block fill data retain_last = (TC_OK, mac', block', fill')"
        unfolding step using True by (simp add: b(1) r(1))
      moreover have "retain_last \<longrightarrow> drop width data \<noteq> []" using True by auto
      ultimately show ?thesis using r lm b(2) ne by simp
    next
      case False
      let ?t = "min (width - fill1) (length data)"
      have t: "0 < ?t" "fill1 + length (take ?t data) \<le> width" "length (take ?t data) = ?t" using f1 ne by auto
      note st2 = mac_state_fill [OF st1 t(2), unfolded t(3)]
      have "length (drop ?t data) < length data" using t(1) ne by simp
      from 1(1) [rule_format, OF this st2(1)] obtain mac' block' fill' where
        r: "cbc_update_loop (fwd k) mac1 (memcpy_at block fill1 (take ?t data)) (fill1 + ?t) (drop ?t data) retain_last =
            (TC_OK, mac', block', fill')"
          "length mac' = length mac1" "length block' = length (memcpy_at block fill1 (take ?t data))"
          "mac_state E width init ((msg @ take ?t data) @ drop ?t data) mac' block' fill'"
          "retain_last \<and> drop ?t data \<noteq> [] \<longrightarrow> fill' \<noteq> 0" "drop ?t data = [] \<longrightarrow> fill' = fill1 + ?t" by blast
      have "cbc_update_loop (fwd k) mac block fill data retain_last = (TC_OK, mac', block', fill')"
        unfolding step if_not_P [OF False] by (simp add: r(1))
      moreover have "retain_last \<longrightarrow> fill' \<noteq> 0" using r(5,6) t(1) by linarith
      moreover have "length block' = length block" using r(3) st2(2) by simp
      moreover have "mac_state E width init (msg @ data) mac' block' fill'" using r(4) by simp
      ultimately show ?thesis using r(2) lm ne by auto
    qed
  qed
qed

lemma cbc_update_eq:
  assumes "key_ok k" "mac_state (cipher_fun (fwd k)) width init msg mac block fill"
  shows "\<exists>mac' block' fill'. tc_mac_cbc_update (fwd k) mac block fill data retain_last = (TC_OK, mac', block', fill') \<and>
      length mac' = length mac \<and> length block' = length block \<and>
      mac_state (cipher_fun (fwd k)) width init (msg @ data) mac' block' fill' \<and>
      (if retain_last then (data \<noteq> [] \<longrightarrow> fill' \<noteq> 0) \<and> (data = [] \<longrightarrow> fill' = fill) else fill' < width)"
proof -
  obtain m b f where l: "cbc_update_loop (fwd k) mac block fill data retain_last = (TC_OK, m, b, f)"
      "length m = length mac" "length b = length block"
    and st: "mac_state (cipher_fun (fwd k)) width init (msg @ data) m b f"
      "retain_last \<and> data \<noteq> [] \<longrightarrow> f \<noteq> 0" "data = [] \<longrightarrow> f = fill"
    using cbc_update_loop_eq [OF assms, of data retain_last] by auto
  have f: "f \<le> width" using st(1) by (simp add: mac_state_def)
  show ?thesis
  proof (cases "\<not> retain_last \<and> f = width")
    case True
    then obtain m' where "tc_mac_cbc_block (fwd k) m b = (TC_OK, m')" "length m' = length m"
      "mac_state (cipher_fun (fwd k)) width init (msg @ data) m' b 0"
      using mac_state_flush [OF assms(1), of init "msg @ data" m b] st(1) by auto
    then show ?thesis using True l width_pos by (simp add: tc_mac_cbc_update_def fwd_size)
  next
    case False
    then show ?thesis using l st f by (auto simp: tc_mac_cbc_update_def fwd_size)
  qed
qed

text \<open>The final step of CMAC on a state that kept its last block.\<close>

lemma cmac_final_eq:
  assumes "key_ok k" "mac_state (cipher_fun (fwd k)) width init msg mac block fill" "fill = 0 \<longrightarrow> msg = []"
    "width \<le> length k1" "width \<le> length k2" "width \<le> length tag"
  shows "\<exists>mac' block'. tc_mac_cmac_final (fwd k) mac block fill k1 k2 tag =
    (TC_OK, mac', block', cmac_spec (cipher_fun (fwd k)) width init (take width k1) (take width k2) msg @ drop width tag)"
proof -
  let ?E = "cipher_fun (fwd k)"
  obtain q where q: "width * q + fill = length msg" "take width mac = cbc_mac ?E init (chunks width (take (width * q) msg))"
    "take fill block = drop (width * q) msg" and l: "width \<le> length mac" "width \<le> length block" "fill \<le> width"
    using assms(2) by (auto simp: mac_state_def)
  have qq: "(length msg - 1) div width = q"
  proof (cases "fill = 0")
    case True
    then show ?thesis using assms(3) q(1) width_pos by simp
  next
    case False
    then show ?thesis using l(3) width_pos by (intro div_nat_eqI) (auto simp flip: q(1))
  qed
  let ?last = "drop (width * q) msg"
  have ll: "length ?last = fill" using q(1) by simp
  define blk sub where "blk = (if fill \<noteq> width then (memcpy_at block fill (replicate (width - fill) 0))[fill := 0x80] else block)"
    and "sub = (if fill = width then k1 else k2)"
  have lb: "length blk = length block" "width \<le> length sub"
    using l assms(4,5) by (simp_all add: blk_def sub_def length_memcpy_at)
  have tb: "take width blk = (if fill = width then ?last else ?last @ 0x80 # replicate (width - fill - 1) 0)"
  proof (cases "fill = width")
    case True
    then show ?thesis using q(3) by (simp add: blk_def)
  next
    case False
    then obtain n where n: "width - fill = Suc n" using l(3) by (metis Suc_diff_Suc le_neq_implies_less)
    have "blk = ?last @ 0x80 # replicate n 0 @ drop (fill + (width - fill)) block"
      using False n ll l by (simp add: blk_def memcpy_at_def q(3) list_update_append)
    then show ?thesis using False n ll l by simp
  qed
  have x: "fold (\<lambda>i b. b[i := b ! i XOR sub ! i]) [0..<width] blk = xorl (take width blk) (take width sub) @ drop width blk"
    using tc_internal_xor_eq [of width blk sub] l lb by (simp add: tc_internal_xor_def)
  let ?y = "xorl (take width blk) (take width sub)"
  have ly: "length ?y = width" using l lb by simp
  have cb: "tc_mac_cbc_block (fwd k) mac (?y @ drop width blk) = (TC_OK, ?E (xorl (take width mac) ?y) @ drop width mac)"
    using cbc_block_eq [OF assms(1) l(1), of "?y @ drop width blk"] ly by simp
  have lt: "length (?E (xorl (take width mac) ?y)) = width" using fwd_length [OF assms(1)] l ly by simp
  have "?E (xorl (take width mac) ?y) = cmac_spec ?E width init (take width k1) (take width k2) msg"
    unfolding cmac_spec_def qq Let_def ll tb sub_def q(2) by simp
  moreover have "memcpy_at tag 0 y = y @ drop width tag" if "length y = width" for y
    using that by (simp add: memcpy_at_def)
  ultimately show ?thesis
    unfolding tc_mac_cmac_final_def Let_def fwd_size
    using x cb lt by (simp add: blk_def [symmetric] sub_def [symmetric])
qed

text \<open>The whole one-shot computation.\<close>

lemma mac_state_init:
  "width \<le> length mac \<Longrightarrow> width \<le> length block \<Longrightarrow> mac_state E width (take width mac) [] mac block 0"
  by (auto simp: mac_state_def intro!: exI [of _ 0])

lemma cmac_parts_loop_eq:
  assumes "key_ok k"
  shows "mac_state (cipher_fun (fwd k)) width init msg mac block fill \<Longrightarrow> fill = 0 \<longrightarrow> msg = [] \<Longrightarrow>
    \<exists>mac' block' fill'. cmac_parts_loop (fwd k) mac block fill ps = (TC_OK, mac', block', fill') \<and>
      length mac' = length mac \<and> length block' = length block \<and>
      mac_state (cipher_fun (fwd k)) width init (msg @ concat (map b_mem ps)) mac' block' fill' \<and>
      (fill' = 0 \<longrightarrow> msg @ concat (map b_mem ps) = [])"
proof (induction ps arbitrary: msg mac block fill)
  case Nil
  then show ?case by simp
next
  case (Cons p ps)
  obtain m b f where u: "tc_mac_cbc_update (fwd k) mac block fill (b_mem p) True = (TC_OK, m, b, f)"
    "length m = length mac" "length b = length block"
    "mac_state (cipher_fun (fwd k)) width init (msg @ b_mem p) m b f"
    and f: "b_mem p \<noteq> [] \<longrightarrow> f \<noteq> 0" "b_mem p = [] \<longrightarrow> f = fill"
    using cbc_update_eq [OF assms Cons.prems(1), of "b_mem p" True] by auto
  have "f = 0 \<longrightarrow> msg @ b_mem p = []" using f Cons.prems(2) by auto
  from Cons.IH [OF u(4) this] show ?case using u(1-3) by (auto simp: append_assoc)
qed

definition cmac_subkeys :: "'k \<Rightarrow> u8 \<Rightarrow> u8 list \<times> u8 list" where
  "cmac_subkeys k reduction =
     (let k1 = gf_dbl width reduction (cipher_fun (fwd k) (replicate width 0)) in (k1, gf_dbl width reduction k1))"

lemma derive_subkeys_eq:
  assumes "key_ok k" "width \<le> length a" "width \<le> length b"
  shows "tc_mac_derive_subkeys (fwd k) reduction False a b =
    (TC_OK, fst (cmac_subkeys k reduction) @ drop width a, snd (cmac_subkeys k reduction) @ drop width b)"
proof -
  have z: "take width (replicate TC_BLOCK_MAX (0 :: u8)) = replicate width 0" using width_max by simp
  let ?l = "cipher_fun (fwd k) (replicate width 0)"
  have l: "encrypt (fwd k) (key (fwd k)) (replicate width 0) = (TC_OK, ?l)" "length ?l = width"
    using fwd_eq [OF assms(1), of "replicate width 0"] fwd_length [OF assms(1), of "replicate width 0"] by simp_all
  show ?thesis
    unfolding tc_mac_derive_subkeys_def fwd_size z Let_def l(1) prod.case
    using assms(2,3) l(2) width_pos by (simp add: gf_double_eq cmac_subkeys_def Let_def)
qed

lemma cmac_parts_eq:
  assumes "key_ok k" "width \<le> length k1" "width \<le> length k2" "width \<le> length tag"
  shows "tc_mac_cmac_parts (fwd k) None ps (length ps) k1 k2 tag =
    (TC_OK, cmac_spec (cipher_fun (fwd k)) width (replicate width 0) (take width k1) (take width k2)
              (concat (map b_mem ps)) @ drop width tag)"
proof -
  let ?z = "replicate TC_BLOCK_MAX (0 :: u8)"
  have "mac_state (cipher_fun (fwd k)) width (replicate width 0) [] ?z ?z 0"
    using mac_state_init [of ?z ?z] width_max by (simp add: min_absorb2 min.commute)
  then obtain m b f where l: "cmac_parts_loop (fwd k) ?z ?z 0 ps = (TC_OK, m, b, f)"
    and st: "mac_state (cipher_fun (fwd k)) width (replicate width 0) (concat (map b_mem ps)) m b f"
      "f = 0 \<longrightarrow> concat (map b_mem ps) = []"
    using cmac_parts_loop_eq [OF assms(1), of "replicate width 0" "[]" ?z ?z 0 ps] by auto
  obtain m' b' where "tc_mac_cmac_final (fwd k) m b f k1 k2 tag =
      (TC_OK, m', b', cmac_spec (cipher_fun (fwd k)) width (replicate width 0) (take width k1) (take width k2)
              (concat (map b_mem ps)) @ drop width tag)"
    using cmac_final_eq [OF assms(1) st assms(2-4)] by auto
  then show ?thesis using l by (simp add: tc_mac_cmac_parts_def)
qed

lemma cmac_parts_from_eq:
  assumes "key_ok k" "width \<le> length k1" "width \<le> length k2" "width \<le> length tag" "width \<le> length iv"
  shows "tc_mac_cmac_parts (fwd k) (Some iv) ps (length ps) k1 k2 tag =
    (TC_OK, cmac_spec (cipher_fun (fwd k)) width (take width iv) (take width k1) (take width k2)
              (concat (map b_mem ps)) @ drop width tag)"
proof -
  let ?z = "replicate TC_BLOCK_MAX (0 :: u8)" let ?m = "memcpy_at ?z 0 (take width iv)"
  have m: "take width ?m = take width iv" "width \<le> length ?m" using assms(5) width_max by (simp_all add: memcpy_at_def)
  have "mac_state (cipher_fun (fwd k)) width (take width iv) [] ?m ?z 0"
    using mac_state_init [OF m(2), of ?z] width_max m(1) by simp
  then obtain mm b f where l: "cmac_parts_loop (fwd k) ?m ?z 0 ps = (TC_OK, mm, b, f)"
    and st: "mac_state (cipher_fun (fwd k)) width (take width iv) (concat (map b_mem ps)) mm b f"
      "f = 0 \<longrightarrow> concat (map b_mem ps) = []"
    using cmac_parts_loop_eq [OF assms(1), of "take width iv" "[]" ?m ?z 0 ps] by auto
  obtain m' b' where "tc_mac_cmac_final (fwd k) mm b f k1 k2 tag =
      (TC_OK, m', b', cmac_spec (cipher_fun (fwd k)) width (take width iv) (take width k1) (take width k2)
              (concat (map b_mem ps)) @ drop width tag)"
    using cmac_final_eq [OF assms(1) st assms(2-4)] by auto
  then show ?thesis using l by (simp add: tc_mac_cmac_parts_def fwd_size)
qed

lemma derive_reversed_eq:
  fixes reduction :: u8
  assumes "key_ok k" "length a = width" "length b = width"
  defines "d \<equiv> rev (gf_dbl width reduction (rev (cipher_fun (fwd k) (replicate width 0))))"
  shows "tc_mac_derive_subkeys (fwd k) reduction True a b = (TC_OK, d, rev (gf_dbl width reduction (rev d)))"
proof -
  have z: "take width (replicate TC_BLOCK_MAX (0 :: u8)) = replicate width 0" using width_max by simp
  let ?l = "cipher_fun (fwd k) (replicate width 0)"
  have l: "encrypt (fwd k) (key (fwd k)) (replicate width 0) = (TC_OK, ?l)" "length ?l = width"
    using fwd_eq [OF assms(1), of "replicate width 0"] fwd_length [OF assms(1), of "replicate width 0"] by simp_all
  have "length d = width" by (simp add: d_def)
  then show ?thesis
    unfolding tc_mac_derive_subkeys_def fwd_size z Let_def l(1) prod.case
    using assms(2,3) l(2) width_pos by (simp add: gf_double_reversed_eq d_def)
qed

lemma length_cmac:
  assumes "key_ok k" shows "length (cmac (cipher_fun (fwd k)) width reduction msg) = width"
proof -
  let ?E = "cipher_fun (fwd k)" and ?q = "(length msg - 1) div width"
  have chain: "blocks_of width bs \<Longrightarrow> length init = width \<Longrightarrow> length (cbc_mac ?E init bs) = width" for bs init
    by (induction bs arbitrary: init) (simp_all add: fwd_length [OF assms])
  have le: "width * ?q \<le> length msg"
    using times_div_less_eq_dividend [of width "length msg - 1"] by linarith
  then have "blocks_of width (chunks width (take (width * ?q) msg))"
    using width_pos by (intro chunks_width) (simp_all add: min_absorb2)
  then have c: "length (cbc_mac ?E (replicate width 0) (chunks width (take (width * ?q) msg))) = width"
    using chain by simp
  have "length msg - width * ?q \<le> width"
  proof (cases "msg = []")
    case False
    have "length msg - 1 < width * ?q + width"
      using width_pos dividend_less_times_div [of width "length msg - 1"] by simp
    then show ?thesis using False by (cases msg) auto
  qed simp
  then have "length (if length msg - width * ?q = width then xorl (drop (width * ?q) msg) k1
       else xorl (drop (width * ?q) msg @ 0x80 # replicate (width - (length msg - width * ?q) - 1) 0) k2) = width"
    if "length k1 = width" "length k2 = width" for k1 k2 using that by auto
  then show ?thesis
    unfolding cmac_def cmac_spec_def Let_def length_drop
    using c by (intro fwd_length [OF assms]) simp
qed

lemma cmac_oneshot_eq:
  assumes "key_ok k" "bytes_wf msg"
  shows "tc_mac_cmac_oneshot MTL (fwd k) reduction msg tag short_tag =
    (if w_data tag = NULL \<or> \<not> tc_internal_tag_length_allowed MTL (w_capacity tag) width short_tag \<or>
        \<not> tc_internal_span_valid (b_data msg) (b_length msg) then (TC_ERROR, tag)
     else (TC_OK, tag\<lparr>w_mem := memcpy_at (w_mem tag) 0
             (take (w_capacity tag) (cmac (cipher_fun (fwd k)) width reduction (b_mem msg)))\<rparr>))"
proof (cases "w_data tag = NULL \<or> \<not> tc_internal_tag_length_allowed MTL (w_capacity tag) width short_tag \<or>
        \<not> tc_internal_span_valid (b_data msg) (b_length msg)")
  case True
  then show ?thesis unfolding tc_mac_cmac_oneshot_def Let_def fwd_size by (simp only: if_True)
next
  case False
  let ?z = "replicate TC_BLOCK_MAX (0 :: u8)"
  have cap: "w_capacity tag \<le> width" using False by (auto simp: tc_internal_tag_length_allowed_def split: if_splits)
  have z: "width \<le> length ?z" using width_max by simp
  let ?k1 = "fst (cmac_subkeys k reduction) @ drop width ?z" and ?k2 = "snd (cmac_subkeys k reduction) @ drop width ?z"
  have l: "length (fst (cmac_subkeys k reduction)) = width" "length (snd (cmac_subkeys k reduction)) = width"
    by (simp_all add: cmac_subkeys_def Let_def)
  have full: "tc_mac_cmac_parts (fwd k) None [msg] 1 ?k1 ?k2 ?z =
      (TC_OK, cmac (cipher_fun (fwd k)) width reduction (b_mem msg) @ drop width ?z)"
    using cmac_parts_eq [OF assms(1) _ _ z, of ?k1 ?k2 "[msg]"] l
    by (simp add: cmac_def cmac_subkeys_def Let_def)
  show ?thesis
    unfolding tc_mac_cmac_oneshot_def Let_def fwd_size if_not_P [OF False]
    using derive_subkeys_eq [OF assms(1) z z] full cap length_cmac [OF assms(1), of reduction "b_mem msg"] by simp
qed

lemma cmac_verify_eq:
  assumes "key_ok k" "bytes_wf msg" "bytes_wf tag" "at \<noteq> NULL"
  shows "tc_mac_cmac_verify MTL at (fwd k) reduction msg tag short_tag =
    (if b_data tag = NULL \<or> \<not> tc_internal_tag_length_allowed MTL (b_length tag) width short_tag \<or>
        \<not> tc_internal_span_valid (b_data msg) (b_length msg) then TC_ERROR
     else if b_mem tag = take (b_length tag) (cmac (cipher_fun (fwd k)) width reduction (b_mem msg)) then TC_OK
     else TC_MISMATCH)"
proof (cases "b_data tag = NULL \<or> \<not> tc_internal_tag_length_allowed MTL (b_length tag) width short_tag \<or>
        \<not> tc_internal_span_valid (b_data msg) (b_length msg)")
  case True
  then show ?thesis
    by (auto simp: tc_mac_cmac_verify_def fwd_size cmac_oneshot_eq [OF assms(1,2)] tc_internal_verify_tag_def)
next
  case False
  let ?n = "b_length tag" and ?c = "cmac (cipher_fun (fwd k)) width reduction (b_mem msg)"
  have cap: "?n \<le> width" and n: "?n \<noteq> 0" using False by (auto simp: tc_internal_tag_length_allowed_def split: if_splits)
  have lc: "length ?c = width" by (rule length_cmac [OF assms(1)])
  have "take ?n (memcpy_at (replicate TC_BLOCK_MAX 0) 0 (take ?n ?c)) = take ?n ?c"
    using cap lc width_max by (simp add: memcpy_at_def)
  moreover have "TC_ct_equal \<lparr>b_data = at, b_length = ?n, b_mem = take ?n ?c\<rparr> tag =
      (if take ?n ?c = b_mem tag then TC_OK else TC_MISMATCH)"
    using assms(3,4) False cap lc n by (subst TC_ct_equal_valid) (auto simp: bytes_wf_def)
  ultimately show ?thesis
    using False assms(4) by (auto simp: tc_mac_cmac_verify_def fwd_size cmac_oneshot_eq [OF assms(1,2)]
        tc_internal_verify_tag_def)
qed

end

section \<open>Only the values on blocks matter\<close>

lemma cbc_mac_cong:
  assumes "\<And>b. length b = w \<Longrightarrow> E b = E' b" "\<And>b. length b = w \<Longrightarrow> length (E b) = w"
  shows "blocks_of w bs \<Longrightarrow> length init = w \<Longrightarrow> cbc_mac E init bs = cbc_mac E' init bs \<and> length (cbc_mac E init bs) = w"
proof (induction bs arbitrary: init)
  case (Cons b bs)
  have "length (xorl init b) = w" using Cons.prems by simp
  note x = assms(1) [OF this] assms(2) [OF this]
  have "cbc_mac E (E (xorl init b)) bs = cbc_mac E' (E (xorl init b)) bs \<and>
      length (cbc_mac E (E (xorl init b)) bs) = w"
    using Cons.prems x(2) by (intro Cons.IH) simp_all
  then show ?case by (metis cbc_mac_simps(2) x(1))
qed simp

lemma last_block_length:
  assumes "0 < w"
  shows "length msg - w * ((length msg - 1) div w) \<le> w" "w * ((length msg - 1) div w) \<le> length msg"
proof -
  show "w * ((length msg - 1) div w) \<le> length msg"
    using times_div_less_eq_dividend [of w "length msg - 1"] by linarith
  have "length msg - 1 < w * ((length msg - 1) div w) + w"
    using dividend_less_times_div [OF assms, of "length msg - 1"] by simp
  then show "length msg - w * ((length msg - 1) div w) \<le> w" by linarith
qed

lemma cmac_spec_cong:
  assumes E: "\<And>b. length b = w \<Longrightarrow> E b = E' b" "\<And>b. length b = w \<Longrightarrow> length (E b) = w"
    and w: "0 < w" and l: "length init = w" "length k1 = w" "length k2 = w"
  shows "cmac_spec E w init k1 k2 msg = cmac_spec E' w init k1 k2 msg"
proof -
  let ?q = "(length msg - 1) div w"
  let ?p = "take (w * ?q) msg" and ?last = "drop (w * ?q) msg"
  let ?x = "if length ?last = w then xorl ?last k1 else xorl (?last @ 0x80 # replicate (w - length ?last - 1) 0) k2"
  note lb = last_block_length [OF w, of msg]
  have "blocks_of w (chunks w ?p)" using w lb(2) by (intro chunks_width) (simp_all add: min_absorb2)
  then have "cbc_mac E init (chunks w ?p) = cbc_mac E' init (chunks w ?p) \<and> length (cbc_mac E init (chunks w ?p)) = w"
    using E l(1) by (intro cbc_mac_cong) auto
  then have c: "cbc_mac E init (chunks w ?p) = cbc_mac E' init (chunks w ?p)" "length (cbc_mac E init (chunks w ?p)) = w"
    by blast+
  have "length ?x = w" using lb(1) l by auto
  then have "length (xorl (cbc_mac E init (chunks w ?p)) ?x) = w" using c(2) by simp
  from E(1) [OF this] show ?thesis unfolding cmac_spec_def Let_def c(1) .
qed

lemma cmac_cong:
  assumes "\<And>b. length b = w \<Longrightarrow> E b = E' b" "\<And>b. length b = w \<Longrightarrow> length (E b) = w" "0 < w"
  shows "cmac E w reduction msg = cmac E' w reduction msg"
proof -
  have "E (replicate w 0) = E' (replicate w 0)" using assms(1) by simp
  then show ?thesis
    unfolding cmac_def Let_def using assms by (simp only:) (rule cmac_spec_cong, simp_all)
qed

end
