(* ===== verification/AES_CMAC.thy ===== *)
theory AES_CMAC
  imports AES_Modes MAC_Core
begin

text \<open>
  AES-CMAC, \<^verbatim>\<open>src/src/aes_cmac.c\<close>: one-shot computation and verification, the streaming context with a fixed and
  with a dynamic-length key, and the primitives of \<^verbatim>\<open>src/src/aes_mac.c\<close> (the AEAD keystream and the subkeys).
  The lemmas show that every form computes the CMAC of SP 800-38B over AES of FIPS 197, that the streaming
  forms do so for any division of the message, and what each call does on its error branches.
\<close>

section \<open>Primitives (aes_mac.c, aes_mac_core_internal.h)\<close>

definition tc_aes_gf128_double :: "u8 list \<Rightarrow> u8 list" where
  "tc_aes_gf128_double value = tc_mac_gf_double value value TC_AES_BLOCKLEN 0x87"

record tc_aes_mac_ctr_bits =
  first_clear_bit :: nat
  second_clear_bit :: nat
  enabled :: u8

function mac_ctr_xor_loop ::
  "aes_env \<Rightarrow> u8 list \<Rightarrow> u8 list \<Rightarrow> u8 list \<Rightarrow> u8 list \<Rightarrow> nat \<Rightarrow> nat \<Rightarrow> TC_status \<times> u8 list" where
  "mac_ctr_xor_loop e round_key ctr input output len offset =
     (if offset < len
      then let n = (if len - offset < TC_AES_BLOCKLEN then len - offset else TC_AES_BLOCKLEN)
           in case tc_aes_cipher e ctr round_key of (status, stream) \<Rightarrow>
                if status \<noteq> TC_OK then (status, output)
                else let output = fold (\<lambda>i out. out[offset + i := input ! (offset + i) XOR stream ! i]) [0..<n] output;
                         ctr = fst (tc_internal_increment_be ctr TC_AES_BLOCKLEN)
                     in mac_ctr_xor_loop e round_key ctr input output len (offset + n)
      else (TC_OK, output))"
  by pat_completeness auto
termination
  by (relation "measure (\<lambda>(e, round_key, ctr, input, output, len, offset). len - offset)")
    (auto simp: TC_AES_BLOCKLEN_def)

declare mac_ctr_xor_loop.simps [simp del]

definition tc_aes_mac_ctr_xor ::
  "aes_env \<Rightarrow> u8 list \<Rightarrow> u8 list \<Rightarrow> u8 list \<Rightarrow> u8 list \<Rightarrow> nat \<Rightarrow> tc_aes_mac_ctr_bits \<Rightarrow> TC_status \<times> u8 list" where
  "tc_aes_mac_ctr_xor e round_key initial input output len bits =
     (let ctr = initial;
          ctr = (if enabled bits \<noteq> 0
                     then let c = ctr[first_clear_bit bits := ctr ! first_clear_bit bits AND 0x7f]
                          in c[second_clear_bit bits := c ! second_clear_bit bits AND 0x7f]
                     else ctr)
      in mac_ctr_xor_loop e round_key ctr input output len 0)"

definition tc_aes_cmac_generate_subkeys ::
  "tc_aes_block_key \<Rightarrow> u8 list \<Rightarrow> u8 list \<Rightarrow> TC_status \<times> u8 list \<times> u8 list" where
  "tc_aes_cmac_generate_subkeys k k1 k2 = tc_mac_derive_subkeys (tc_aes_block_cipher k) 0x87 False k1 k2"

section \<open>Absorbing and finalization over a schedule\<close>

definition tc_aes_cmac_update ::
  "tc_aes_block_key \<Rightarrow> u8 list \<Rightarrow> u8 list \<Rightarrow> nat \<Rightarrow> u8 list \<Rightarrow> TC_status \<times> u8 list \<times> u8 list \<times> nat" where
  "tc_aes_cmac_update k mac buffer fill data = tc_mac_cbc_update (tc_aes_block_cipher k) mac buffer fill data True"

definition tc_aes_cmac_final ::
  "tc_aes_block_key \<Rightarrow> u8 list \<Rightarrow> u8 list \<Rightarrow> nat \<Rightarrow> u8 list \<Rightarrow> u8 list \<Rightarrow> u8 list \<Rightarrow>
   TC_status \<times> u8 list \<times> u8 list \<times> u8 list" where
  "tc_aes_cmac_final k mac buffer fill k1 k2 tag = tc_mac_cmac_final (tc_aes_block_cipher k) mac buffer fill k1 k2 tag"

section \<open>Streaming with a fixed key\<close>

record TC_AES_CMAC_ctx =
  cm_key :: TC_AES_key_ctx
  cm_k1 :: "u8 list"
  cm_k2 :: "u8 list"
  cm_mac :: "u8 list"
  cm_buf :: "u8 list"
  cm_buf_len :: nat
  cm_active :: u8

definition TC_AES_CMAC_TAG_MAX :: nat where "TC_AES_CMAC_TAG_MAX = TC_AES_BLOCKLEN"

definition cmac_ctx_zero :: "aes_env \<Rightarrow> TC_AES_CMAC_ctx" where
  "cmac_ctx_zero e =
     \<lparr>cm_key = key_ctx_zero e, cm_k1 = replicate 16 0, cm_k2 = replicate 16 0, cm_mac = replicate 16 0,
      cm_buf = replicate 16 0, cm_buf_len = 0, cm_active = 0\<rparr>"

definition TC_AES_CMAC_ctx_clear :: "aes_env \<Rightarrow> TC_AES_CMAC_ctx obj \<Rightarrow> TC_AES_CMAC_ctx obj" where
  "TC_AES_CMAC_ctx_clear e ctx = (if o_addr ctx \<noteq> NULL then ctx\<lparr>o_val := cmac_ctx_zero e\<rparr> else ctx)"

definition cmac_block_key :: "aes_env \<Rightarrow> TC_AES_CMAC_ctx \<Rightarrow> tc_aes_block_key" where
  "cmac_block_key e c = \<lparr>bk_env = e, bk_round_key = kc_round_key (cm_key c), bk_rounds = TC_AES_FIXED_ROUNDS e\<rparr>"

definition TC_AES_CMAC_init :: "aes_env \<Rightarrow> TC_AES_CMAC_ctx obj \<Rightarrow> TC_bytes \<Rightarrow> TC_status \<times> TC_AES_CMAC_ctx obj" where
  "TC_AES_CMAC_init e ctx k =
     (if o_addr ctx = NULL then (TC_ERROR, ctx)
      else let disjoint = (b_length k = TC_AES_KEYLEN e \<and>
                 tc_internal_ranges_disjoint (o_addr ctx) (o_size ctx) (b_data k) (b_length k));
               ctx = TC_AES_CMAC_ctx_clear e ctx
           in if \<not> disjoint then (TC_ERROR, ctx)
              else case TC_AES_key_init e
                     \<lparr>o_addr = o_addr ctx, o_size = sizeof_key_ctx e, o_val = cm_key (o_val ctx)\<rparr> k
                   of (status, kc) \<Rightarrow>
                     let ctx = ctx\<lparr>o_val := (o_val ctx)\<lparr>cm_key := o_val kc\<rparr>\<rparr>
                     in if status \<noteq> TC_OK then (TC_ERROR, ctx)
                        else case tc_aes_cmac_generate_subkeys (cmac_block_key e (o_val ctx))
                                    (cm_k1 (o_val ctx)) (cm_k2 (o_val ctx))
                             of (status, k1, k2) \<Rightarrow>
                               if status \<noteq> TC_OK then (TC_ERROR, TC_AES_CMAC_ctx_clear e ctx)
                               else (TC_OK, ctx\<lparr>o_val := (o_val ctx)\<lparr>cm_k1 := k1, cm_k2 := k2, cm_active := 1\<rparr>\<rparr>))"

definition TC_AES_CMAC_update ::
  "aes_env \<Rightarrow> TC_AES_CMAC_ctx obj \<Rightarrow> TC_bytes \<Rightarrow> TC_status \<times> TC_AES_CMAC_ctx obj" where
  "TC_AES_CMAC_update e ctx data =
     (if \<not> tc_block_mode_args (o_addr ctx) (o_size ctx) (b_data data) (b_length data) 1 \<or>
         cm_active (o_val ctx) \<noteq> 1 \<or> cm_buf_len (o_val ctx) > TC_AES_BLOCKLEN
      then (TC_ERROR, ctx)
      else case tc_aes_cmac_update (cmac_block_key e (o_val ctx)) (cm_mac (o_val ctx)) (cm_buf (o_val ctx))
                  (cm_buf_len (o_val ctx)) (b_mem data)
           of (status, mac, buf, n) \<Rightarrow>
             let ctx = ctx\<lparr>o_val := (o_val ctx)\<lparr>cm_mac := mac, cm_buf := buf, cm_buf_len := n\<rparr>\<rparr>
             in if status \<noteq> TC_OK then (TC_ERROR, TC_AES_CMAC_ctx_clear e ctx) else (TC_OK, ctx))"

definition TC_AES_CMAC_final ::
  "aes_env \<Rightarrow> TC_AES_CMAC_ctx obj \<Rightarrow> TC_buffer \<Rightarrow> TC_status \<times> TC_AES_CMAC_ctx obj \<times> TC_buffer" where
  "TC_AES_CMAC_final e ctx tag =
     (if w_capacity tag < TC_AES_CMAC_TAG_MAX \<or>
         \<not> tc_block_mode_args (o_addr ctx) (o_size ctx) (w_data tag) TC_AES_CMAC_TAG_MAX 1 \<or>
         cm_active (o_val ctx) \<noteq> 1 \<or> cm_buf_len (o_val ctx) > TC_AES_BLOCKLEN
      then (TC_ERROR, ctx, tag)
      else case tc_aes_cmac_final (cmac_block_key e (o_val ctx)) (cm_mac (o_val ctx)) (cm_buf (o_val ctx))
                  (cm_buf_len (o_val ctx)) (cm_k1 (o_val ctx)) (cm_k2 (o_val ctx)) (w_mem tag)
           of (status, mac, buf, t) \<Rightarrow>
             (status, TC_AES_CMAC_ctx_clear e ctx, tag\<lparr>w_mem := t\<rparr>))"

section \<open>Streaming with a dynamic-length key\<close>

record TC_AES_dynamic_CMAC =
  dm_key :: TC_AES_dynamic_key
  dm_k1 :: "u8 list"
  dm_k2 :: "u8 list"
  dm_mac :: "u8 list"
  dm_buffer :: "u8 list"
  dm_used :: nat

definition dynamic_cmac_zero :: TC_AES_dynamic_CMAC where
  "dynamic_cmac_zero =
     \<lparr>dm_key = dynamic_key_zero, dm_k1 = replicate 16 0, dm_k2 = replicate 16 0, dm_mac = replicate 16 0,
      dm_buffer = replicate 16 0, dm_used = 0\<rparr>"

definition TC_AES_dynamic_CMAC_clear :: "TC_AES_dynamic_CMAC obj \<Rightarrow> TC_AES_dynamic_CMAC obj" where
  "TC_AES_dynamic_CMAC_clear ctx = (if o_addr ctx \<noteq> NULL then ctx\<lparr>o_val := dynamic_cmac_zero\<rparr> else ctx)"

definition TC_AES_dynamic_CMAC_init ::
  "aes_env \<Rightarrow> TC_AES_dynamic_CMAC obj \<Rightarrow> TC_bytes \<Rightarrow> TC_status \<times> TC_AES_dynamic_CMAC obj" where
  "TC_AES_dynamic_CMAC_init e ctx k =
     (if o_addr ctx = NULL then (TC_ERROR, ctx)
      else let disjoint = tc_internal_ranges_disjoint (o_addr ctx) (o_size ctx) (b_data k) (b_length k);
               ctx = TC_AES_dynamic_CMAC_clear ctx
           in if \<not> disjoint then (TC_ERROR, ctx)
              else case TC_AES_dynamic_key_init e
                     \<lparr>o_addr = o_addr ctx, o_size = sizeof_dynamic_key, o_val = dm_key (o_val ctx)\<rparr> k
                   of (status, kc) \<Rightarrow>
                     let ctx = ctx\<lparr>o_val := (o_val ctx)\<lparr>dm_key := o_val kc\<rparr>\<rparr>
                     in if status \<noteq> TC_OK then (TC_ERROR, ctx)
                        else case tc_aes_cmac_generate_subkeys (dynamic_block_key e (dm_key (o_val ctx)))
                                    (dm_k1 (o_val ctx)) (dm_k2 (o_val ctx))
                             of (status, k1, k2) \<Rightarrow>
                               if status \<noteq> TC_OK then (TC_ERROR, TC_AES_dynamic_CMAC_clear ctx)
                               else (TC_OK, ctx\<lparr>o_val := (o_val ctx)\<lparr>dm_k1 := k1, dm_k2 := k2\<rparr>\<rparr>))"

text \<open>The key member is the first of the context, so it has the address of the context.\<close>

definition dm_key_obj :: "TC_AES_dynamic_CMAC obj \<Rightarrow> TC_AES_dynamic_key obj" where
  "dm_key_obj ctx = \<lparr>o_addr = o_addr ctx, o_size = sizeof_dynamic_key, o_val = dm_key (o_val ctx)\<rparr>"

definition TC_AES_dynamic_CMAC_update ::
  "aes_env \<Rightarrow> TC_AES_dynamic_CMAC obj \<Rightarrow> TC_bytes \<Rightarrow> TC_status \<times> TC_AES_dynamic_CMAC obj" where
  "TC_AES_dynamic_CMAC_update e ctx data =
     (if \<not> tc_block_mode_args (o_addr ctx) (o_size ctx) (b_data data) (b_length data) 1 \<or>
         \<not> tc_aes_dynamic_key_valid (dm_key_obj ctx) \<or> dm_used (o_val ctx) > TC_AES_BLOCKLEN
      then (TC_ERROR, ctx)
      else case tc_aes_cmac_update (dynamic_block_key e (dm_key (o_val ctx))) (dm_mac (o_val ctx))
                  (dm_buffer (o_val ctx)) (dm_used (o_val ctx)) (b_mem data)
           of (status, mac, buf, n) \<Rightarrow>
             let ctx = ctx\<lparr>o_val := (o_val ctx)\<lparr>dm_mac := mac, dm_buffer := buf, dm_used := n\<rparr>\<rparr>
             in if status \<noteq> TC_OK then (TC_ERROR, TC_AES_dynamic_CMAC_clear ctx) else (TC_OK, ctx))"

definition TC_AES_dynamic_CMAC_final ::
  "aes_env \<Rightarrow> TC_AES_dynamic_CMAC obj \<Rightarrow> TC_buffer \<Rightarrow> TC_status \<times> TC_AES_dynamic_CMAC obj \<times> TC_buffer" where
  "TC_AES_dynamic_CMAC_final e ctx tag =
     (if w_capacity tag < TC_AES_BLOCKLEN \<or>
         \<not> tc_block_mode_args (o_addr ctx) (o_size ctx) (w_data tag) TC_AES_BLOCKLEN 1 \<or>
         \<not> tc_aes_dynamic_key_valid (dm_key_obj ctx) \<or> dm_used (o_val ctx) > TC_AES_BLOCKLEN
      then (TC_ERROR, ctx, tag)
      else case tc_aes_cmac_final (dynamic_block_key e (dm_key (o_val ctx))) (dm_mac (o_val ctx))
                  (dm_buffer (o_val ctx)) (dm_used (o_val ctx)) (dm_k1 (o_val ctx)) (dm_k2 (o_val ctx)) (w_mem tag)
           of (status, mac, buf, t) \<Rightarrow>
             (status, TC_AES_dynamic_CMAC_clear ctx, tag\<lparr>w_mem := t\<rparr>))"

section \<open>One-shot forms\<close>

text \<open>
  \<open>at\<close> and \<open>tag_at\<close> are the stack addresses of the schedule and of the recomputed tag. The result is the
  status and the storage of \<open>tag\<close>.
\<close>

definition tc_aes_cmac_oneshot ::
  "nat \<Rightarrow> aes_env \<Rightarrow> addr \<Rightarrow> addr \<Rightarrow> TC_bytes \<Rightarrow> TC_bytes \<Rightarrow> TC_buffer \<Rightarrow> TC_bytes \<Rightarrow> bool \<Rightarrow> bool \<Rightarrow>
   TC_status \<times> TC_buffer" where
  "tc_aes_cmac_oneshot MIN_TAG_LEN e at tag_at k msg tag expected verify short_tag =
     (if b_length k = TC_AES_KEYLEN e
      then case TC_AES_key_init e \<lparr>o_addr = at, o_size = sizeof_key_ctx e, o_val = key_ctx_zero e\<rparr> k
           of (status, schedule) \<Rightarrow>
             if status = TC_OK
             then let cipher = tc_aes_block_cipher \<lparr>bk_env = e, bk_round_key = kc_round_key (o_val schedule),
                                 bk_rounds = TC_AES_FIXED_ROUNDS e\<rparr>
                  in if verify
                     then (tc_mac_cmac_verify MIN_TAG_LEN tag_at cipher 0x87 msg expected short_tag, tag)
                     else tc_mac_cmac_oneshot MIN_TAG_LEN cipher 0x87 msg tag short_tag
             else (TC_ERROR, tag)
      else (TC_ERROR, tag))"

definition TC_AES_CMAC ::
  "nat \<Rightarrow> aes_env \<Rightarrow> addr \<Rightarrow> addr \<Rightarrow> TC_bytes \<Rightarrow> TC_bytes \<Rightarrow> TC_buffer \<Rightarrow> TC_status \<times> TC_buffer" where
  "TC_AES_CMAC MIN_TAG_LEN e at tag_at k msg tag =
     tc_aes_cmac_oneshot MIN_TAG_LEN e at tag_at k msg tag no_bytes False False"

definition TC_AES_CMAC_verify ::
  "nat \<Rightarrow> aes_env \<Rightarrow> addr \<Rightarrow> addr \<Rightarrow> TC_bytes \<Rightarrow> TC_bytes \<Rightarrow> TC_bytes \<Rightarrow> TC_status" where
  "TC_AES_CMAC_verify MIN_TAG_LEN e at tag_at k msg tag =
     fst (tc_aes_cmac_oneshot MIN_TAG_LEN e at tag_at k msg no_buffer tag True False)"

definition TC_AES_CMAC_short_tag ::
  "nat \<Rightarrow> aes_env \<Rightarrow> addr \<Rightarrow> addr \<Rightarrow> TC_bytes \<Rightarrow> TC_bytes \<Rightarrow> TC_buffer \<Rightarrow> TC_status \<times> TC_buffer" where
  "TC_AES_CMAC_short_tag MIN_TAG_LEN e at tag_at k msg tag =
     tc_aes_cmac_oneshot MIN_TAG_LEN e at tag_at k msg tag no_bytes False True"

definition TC_AES_CMAC_verify_short_tag ::
  "nat \<Rightarrow> aes_env \<Rightarrow> addr \<Rightarrow> addr \<Rightarrow> TC_bytes \<Rightarrow> TC_bytes \<Rightarrow> TC_bytes \<Rightarrow> TC_status" where
  "TC_AES_CMAC_verify_short_tag MIN_TAG_LEN e at tag_at k msg tag =
     fst (tc_aes_cmac_oneshot MIN_TAG_LEN e at tag_at k msg no_buffer tag True True)"

section \<open>CMAC over AES\<close>

interpretation aes_mac: mac_cipher tc_aes_block_cipher aes_key_ok 16
  by unfold_locales

definition aes_cmac :: "u8 list \<Rightarrow> u8 list \<Rightarrow> u8 list" where
  "aes_cmac k msg = cmac (fips_aes k) 16 0x87 msg"

text \<open>A schedule that encrypts as AES does under a key.\<close>

definition block_key_for :: "u8 list \<Rightarrow> tc_aes_block_key \<Rightarrow> bool" where
  "block_key_for k bk \<longleftrightarrow>
     aes_key_ok bk \<and> (\<forall>b. length b = 16 \<longrightarrow> cipher_fun (tc_aes_block_cipher bk) b = fips_aes k b)"

lemma block_key_forD:
  assumes "block_key_for k bk"
  shows "aes_key_ok bk" "length b = 16 \<Longrightarrow> cipher_fun (tc_aes_block_cipher bk) b = fips_aes k b"
    "length b = 16 \<Longrightarrow> length (fips_aes k b) = 16"
  using assms aes.fwd_length [of bk b] by (auto simp: block_key_for_def)

lemma keyed_block_key:
  assumes "aes_env_wf e" "aes_keyed e k c"
  shows "block_key_for k \<lparr>bk_env = e, bk_round_key = kc_round_key c, bk_rounds = TC_AES_FIXED_ROUNDS e\<rparr>"
proof -
  let ?c = "(aes_ctx_zero e)\<lparr>ac_key := c\<rparr>"
  have "aes_key_ok (tc_aes_ctx_key e ?c)"
    using ctx_key_ok [OF assms(1), of ?c] keyed_wf [OF assms] assms(2) by (simp add: aes_keyed_def)
  then show ?thesis
    using keyed_cipher [OF assms(1), of k ?c] assms(2) by (simp add: block_key_for_def tc_aes_ctx_key_def)
qed

lemma dynamic_block_key_for: "dynamic_keyed e k c \<Longrightarrow> block_key_for k (dynamic_block_key e c)"
  using dynamic_keyed_ok(1) dynamic_keyed_cipher by (auto simp: block_key_for_def)

lemma block_key_cmac:
  assumes "block_key_for k bk"
  shows "cmac (cipher_fun (tc_aes_block_cipher bk)) 16 0x87 msg = aes_cmac k msg"
  unfolding aes_cmac_def
  using block_key_forD [OF assms] aes.fwd_length [OF block_key_forD(1) [OF assms]] by (intro cmac_cong) simp_all

section \<open>One-shot forms\<close>

lemma cmac_oneshot_public:
  assumes "aes_env_wf e" "bytes_wf k" "bytes_wf msg" "bytes_wf expected" "at \<noteq> NULL" "tag_at \<noteq> NULL"
    "key_args_ok e at (sizeof_key_ctx e) k"
  shows "tc_aes_cmac_oneshot MTL e at tag_at k msg tag expected False short_tag =
    (if w_data tag = NULL \<or> \<not> tc_internal_tag_length_allowed MTL (w_capacity tag) 16 short_tag \<or>
        \<not> tc_internal_span_valid (b_data msg) (b_length msg) then (TC_ERROR, tag)
     else (TC_OK, tag\<lparr>w_mem := memcpy_at (w_mem tag) 0 (take (w_capacity tag) (aes_cmac (b_mem k) (b_mem msg)))\<rparr>))"
    and "tc_aes_cmac_oneshot MTL e at tag_at k msg tag expected True short_tag =
    (if b_data expected = NULL \<or> \<not> tc_internal_tag_length_allowed MTL (b_length expected) 16 short_tag \<or>
        \<not> tc_internal_span_valid (b_data msg) (b_length msg) then TC_ERROR
     else if b_mem expected = take (b_length expected) (aes_cmac (b_mem k) (b_mem msg)) then TC_OK
     else TC_MISMATCH, tag)"
proof -
  let ?o = "\<lparr>o_addr = at, o_size = sizeof_key_ctx e, o_val = key_ctx_zero e\<rparr>"
  let ?bk = "\<lparr>bk_env = e, bk_round_key = kc_round_key (keyed_ctx e (b_mem k)), bk_rounds = TC_AES_FIXED_ROUNDS e\<rparr>"
  have init: "TC_AES_key_init e ?o k = (TC_OK, ?o\<lparr>o_val := keyed_ctx e (b_mem k)\<rparr>)"
    using key_init_eq [of ?o e k] assms(5,7) by simp
  have bk: "block_key_for (b_mem k) ?bk"
    by (rule keyed_block_key [OF assms(1) keyed_ctx_keyed [OF assms(1,2,7)]])
  note ok = block_key_forD(1) [OF bk]
  have len: "b_length k = TC_AES_KEYLEN e" using assms(7) by (simp add: key_args_ok_def)
  show "tc_aes_cmac_oneshot MTL e at tag_at k msg tag expected False short_tag =
    (if w_data tag = NULL \<or> \<not> tc_internal_tag_length_allowed MTL (w_capacity tag) 16 short_tag \<or>
        \<not> tc_internal_span_valid (b_data msg) (b_length msg) then (TC_ERROR, tag)
     else (TC_OK, tag\<lparr>w_mem := memcpy_at (w_mem tag) 0 (take (w_capacity tag) (aes_cmac (b_mem k) (b_mem msg)))\<rparr>))"
    using aes_mac.cmac_oneshot_eq [OF ok assms(3), of MTL "0x87" tag short_tag]
    by (simp only: tc_aes_cmac_oneshot_def len init prod.case if_True refl Let_def if_False
        block_key_cmac [OF bk] obj.simps)
  show "tc_aes_cmac_oneshot MTL e at tag_at k msg tag expected True short_tag =
    (if b_data expected = NULL \<or> \<not> tc_internal_tag_length_allowed MTL (b_length expected) 16 short_tag \<or>
        \<not> tc_internal_span_valid (b_data msg) (b_length msg) then TC_ERROR
     else if b_mem expected = take (b_length expected) (aes_cmac (b_mem k) (b_mem msg)) then TC_OK
     else TC_MISMATCH, tag)"
    using aes_mac.cmac_verify_eq [OF ok assms(3,4,6), of MTL "0x87" short_tag]
    by (simp only: tc_aes_cmac_oneshot_def len init prod.case if_True refl Let_def if_False
        block_key_cmac [OF bk] obj.simps)
qed

section \<open>Streaming\<close>

text \<open>The context after a message, under a key.\<close>

definition cmac_at :: "aes_env \<Rightarrow> u8 list \<Rightarrow> u8 list \<Rightarrow> TC_AES_CMAC_ctx \<Rightarrow> bool" where
  "cmac_at e k msg c \<longleftrightarrow>
     cm_active c = 1 \<and> block_key_for k (cmac_block_key e c) \<and>
     mac_state (cipher_fun (tc_aes_block_cipher (cmac_block_key e c))) 16 (replicate 16 0) msg
       (cm_mac c) (cm_buf c) (cm_buf_len c) \<and>
     (cm_buf_len c = 0 \<longrightarrow> msg = []) \<and>
     (cm_k1 c, cm_k2 c) = aes_mac.cmac_subkeys (cmac_block_key e c) 0x87"

definition dynamic_cmac_at :: "aes_env \<Rightarrow> u8 list \<Rightarrow> u8 list \<Rightarrow> TC_AES_dynamic_CMAC \<Rightarrow> bool" where
  "dynamic_cmac_at e k msg c \<longleftrightarrow>
     dynamic_keyed e k (dm_key c) \<and>
     mac_state (cipher_fun (tc_aes_block_cipher (dynamic_block_key e (dm_key c)))) 16 (replicate 16 0) msg
       (dm_mac c) (dm_buffer c) (dm_used c) \<and>
     (dm_used c = 0 \<longrightarrow> msg = []) \<and>
     (dm_k1 c, dm_k2 c) = aes_mac.cmac_subkeys (dynamic_block_key e (dm_key c)) 0x87"

lemma subkeys_eq:
  assumes "block_key_for k bk"
  shows "tc_aes_cmac_generate_subkeys bk (replicate 16 0) (replicate 16 0) =
    (TC_OK, fst (aes_mac.cmac_subkeys bk 0x87), snd (aes_mac.cmac_subkeys bk 0x87))"
  using aes_mac.derive_subkeys_eq [OF block_key_forD(1) [OF assms], of "replicate 16 0" "replicate 16 0" "0x87"]
  by (simp add: tc_aes_cmac_generate_subkeys_def)

lemma cmac_update_step:
  assumes "block_key_for k bk"
    "mac_state (cipher_fun (tc_aes_block_cipher bk)) 16 init msg mac buf fill" "fill = 0 \<longrightarrow> msg = []"
  shows "\<exists>mac' buf' fill'. tc_aes_cmac_update bk mac buf fill data = (TC_OK, mac', buf', fill') \<and>
    mac_state (cipher_fun (tc_aes_block_cipher bk)) 16 init (msg @ data) mac' buf' fill' \<and>
    (fill' = 0 \<longrightarrow> msg @ data = [])"
  using aes_mac.cbc_update_eq [OF block_key_forD(1) [OF assms(1)] assms(2), of data True] assms(3)
  by (auto simp: tc_aes_cmac_update_def)

lemma cmac_final_step:
  assumes "block_key_for k bk" "fill = 0 \<longrightarrow> msg = []" "16 \<le> length tag"
    "mac_state (cipher_fun (tc_aes_block_cipher bk)) 16 (replicate 16 0) msg mac buf fill"
    "(k1, k2) = aes_mac.cmac_subkeys bk 0x87"
  shows "\<exists>mac' buf'. tc_aes_cmac_final bk mac buf fill k1 k2 tag = (TC_OK, mac', buf', aes_cmac k msg @ drop 16 tag)"
proof -
  let ?E = "cipher_fun (tc_aes_block_cipher bk)"
  have l: "k1 = gf_dbl 16 0x87 (?E (replicate 16 0))" "k2 = gf_dbl 16 0x87 k1"
    using assms(5) by (simp_all add: aes_mac.cmac_subkeys_def Let_def)
  have "cmac_spec ?E 16 (replicate 16 0) k1 k2 msg = aes_cmac k msg"
    using block_key_cmac [OF assms(1), of msg] by (simp add: cmac_def Let_def l)
  then show ?thesis
    using aes_mac.cmac_final_eq [OF block_key_forD(1) [OF assms(1)] assms(4,2), of k1 k2 tag] assms(3) l
    by (auto simp: tc_aes_cmac_final_def)
qed

lemma cmac_init_at:
  assumes "aes_env_wf e" "bytes_wf k" "o_addr ctx \<noteq> NULL" "sizeof_key_ctx e \<le> o_size ctx"
    "key_args_ok e (o_addr ctx) (o_size ctx) k"
  shows "\<exists>c. TC_AES_CMAC_init e ctx k = (TC_OK, ctx\<lparr>o_val := c\<rparr>) \<and> cmac_at e (b_mem k) [] c"
proof -
  let ?c = "(cmac_ctx_zero e)\<lparr>cm_key := keyed_ctx e (b_mem k)\<rparr>"
  let ?o = "\<lparr>o_addr = o_addr ctx, o_size = sizeof_key_ctx e, o_val = key_ctx_zero e\<rparr>"
  have args: "key_args_ok e (o_addr ctx) (sizeof_key_ctx e) k"
    using assms(5) ranges_disjoint_shrink [OF _ assms(4)] by (auto simp: key_args_ok_def)
  have init: "TC_AES_key_init e ?o k = (TC_OK, ?o\<lparr>o_val := keyed_ctx e (b_mem k)\<rparr>)"
    using key_init_eq [of ?o e k] args assms(3) by simp
  have bk: "block_key_for (b_mem k) (cmac_block_key e ?c)"
    using keyed_block_key [OF assms(1) keyed_ctx_keyed [OF assms(1,2,5)]] by (simp add: cmac_block_key_def)
  let ?s = "aes_mac.cmac_subkeys (cmac_block_key e ?c) 0x87"
  let ?c' = "?c\<lparr>cm_k1 := fst ?s, cm_k2 := snd ?s, cm_active := 1\<rparr>"
  have z: "cm_key (cmac_ctx_zero e) = key_ctx_zero e" "cm_k1 (cmac_ctx_zero e) = replicate 16 0"
    "cm_k2 (cmac_ctx_zero e) = replicate 16 0"
    by (simp_all add: cmac_ctx_zero_def)
  have d: "b_length k = TC_AES_KEYLEN e" "tc_internal_ranges_disjoint (o_addr ctx) (o_size ctx) (b_data k) (TC_AES_KEYLEN e)"
    using assms(5) by (auto simp: key_args_ok_def)
  have "TC_AES_CMAC_init e ctx k = (TC_OK, ctx\<lparr>o_val := ?c'\<rparr>)"
    using assms(3) d init subkeys_eq [OF bk]
    by (simp add: TC_AES_CMAC_init_def TC_AES_CMAC_ctx_clear_def z Let_def case_prod_beta)
  moreover have "cmac_block_key e ?c' = cmac_block_key e ?c" by (simp add: cmac_block_key_def)
  moreover have "mac_state E 16 (replicate 16 0) [] (replicate 16 0) (replicate 16 0) 0" for E
    using aes_mac.mac_state_init [of "replicate 16 0" "replicate 16 0" E] by simp
  ultimately show ?thesis using bk by (auto simp: cmac_at_def cmac_ctx_zero_def)
qed

lemma cmac_update_at:
  assumes "cmac_at e k msg (o_val ctx)"
    "tc_block_mode_args (o_addr ctx) (o_size ctx) (b_data data) (b_length data) 1"
  shows "\<exists>c. TC_AES_CMAC_update e ctx data = (TC_OK, ctx\<lparr>o_val := c\<rparr>) \<and> cmac_at e k (msg @ b_mem data) c"
proof -
  let ?c = "o_val ctx" and ?bk = "cmac_block_key e (o_val ctx)"
  have st: "block_key_for k ?bk"
    "mac_state (cipher_fun (tc_aes_block_cipher ?bk)) 16 (replicate 16 0) msg (cm_mac ?c) (cm_buf ?c) (cm_buf_len ?c)"
    "cm_buf_len ?c = 0 \<longrightarrow> msg = []" "cm_active ?c = 1" "\<not> cm_buf_len ?c > 16"
    using assms(1) by (auto simp: cmac_at_def mac_state_def)
  obtain mac buf n where u: "tc_aes_cmac_update ?bk (cm_mac ?c) (cm_buf ?c) (cm_buf_len ?c) (b_mem data) = (TC_OK, mac, buf, n)"
    "mac_state (cipher_fun (tc_aes_block_cipher ?bk)) 16 (replicate 16 0) (msg @ b_mem data) mac buf n"
    "n = 0 \<longrightarrow> msg @ b_mem data = []"
    using cmac_update_step [OF st(1-3), of "b_mem data"] by auto
  have "cmac_block_key e (?c\<lparr>cm_mac := mac, cm_buf := buf, cm_buf_len := n\<rparr>) = ?bk" by (simp add: cmac_block_key_def)
  then have "cmac_at e k (msg @ b_mem data) (?c\<lparr>cm_mac := mac, cm_buf := buf, cm_buf_len := n\<rparr>)"
    using assms(1) u(2,3) by (simp add: cmac_at_def)
  then show ?thesis
    using assms(2) st(4,5) u(1) by (auto simp: TC_AES_CMAC_update_def TC_AES_BLOCKLEN_def Let_def)
qed

lemma cmac_final_at:
  assumes "cmac_at e k msg (o_val ctx)" "buffer_wf tag" "16 \<le> w_capacity tag"
    "tc_block_mode_args (o_addr ctx) (o_size ctx) (w_data tag) 16 1"
  shows "TC_AES_CMAC_final e ctx tag =
    (TC_OK, ctx\<lparr>o_val := cmac_ctx_zero e\<rparr>, tag\<lparr>w_mem := aes_cmac k msg @ drop 16 (w_mem tag)\<rparr>)"
proof -
  let ?c = "o_val ctx" and ?bk = "cmac_block_key e (o_val ctx)"
  have st: "block_key_for k ?bk" "cm_buf_len ?c = 0 \<longrightarrow> msg = []"
    "mac_state (cipher_fun (tc_aes_block_cipher ?bk)) 16 (replicate 16 0) msg (cm_mac ?c) (cm_buf ?c) (cm_buf_len ?c)"
    "(cm_k1 ?c, cm_k2 ?c) = aes_mac.cmac_subkeys ?bk 0x87"  "cm_active ?c = 1" "\<not> cm_buf_len ?c > 16"
    using assms(1) by (auto simp: cmac_at_def mac_state_def)
  have "w_data tag \<noteq> NULL" "o_addr ctx \<noteq> NULL"
    using assms(4) by (auto simp: tc_block_mode_args_def tc_internal_span_valid_def)
  then have "16 \<le> length (w_mem tag)" using assms(2,3) by (simp add: buffer_wf_def)
  from cmac_final_step [OF st(1,2) this st(3,4)]
  show ?thesis
    using assms(3,4) st(5,6) \<open>o_addr ctx \<noteq> NULL\<close>
    by (auto simp: TC_AES_CMAC_final_def TC_AES_CMAC_TAG_MAX_def TC_AES_BLOCKLEN_def TC_AES_CMAC_ctx_clear_def)
qed

text \<open>The same for a dynamic-length key.\<close>

lemma dynamic_cmac_init_at:
  assumes "aes_env_wf e" "bytes_wf k" "o_addr ctx \<noteq> NULL" "sizeof_dynamic_key \<le> o_size ctx"
    "dynamic_args_ok e (o_addr ctx) (o_size ctx) k"
  shows "\<exists>c. TC_AES_dynamic_CMAC_init e ctx k = (TC_OK, ctx\<lparr>o_val := c\<rparr>) \<and> dynamic_cmac_at e (b_mem k) [] c"
proof -
  let ?o = "\<lparr>o_addr = o_addr ctx, o_size = sizeof_dynamic_key, o_val = dynamic_key_zero\<rparr>"
  have "dynamic_args_ok e (o_addr ?o) (o_size ?o) k"
    using assms(5) ranges_disjoint_shrink [OF _ assms(4)] by (auto simp: dynamic_args_ok_def)
  then obtain d where init: "TC_AES_dynamic_key_init e ?o k = (TC_OK, ?o\<lparr>o_val := d\<rparr>)"
    and keyed: "dynamic_keyed e (b_mem k) d"
    using dynamic_init_keyed [OF assms(1,2), of ?o] assms(3) by auto
  note bk = dynamic_block_key_for [OF keyed]
  let ?s = "aes_mac.cmac_subkeys (dynamic_block_key e d) 0x87"
  let ?c = "dynamic_cmac_zero\<lparr>dm_key := d, dm_k1 := fst ?s, dm_k2 := snd ?s\<rparr>"
  have z: "dm_key dynamic_cmac_zero = dynamic_key_zero" "dm_k1 dynamic_cmac_zero = replicate 16 0"
    "dm_k2 dynamic_cmac_zero = replicate 16 0"
    by (simp_all add: dynamic_cmac_zero_def)
  have "tc_internal_ranges_disjoint (o_addr ctx) (o_size ctx) (b_data k) (b_length k)"
    using assms(5) by (simp add: dynamic_args_ok_def)
  then have "TC_AES_dynamic_CMAC_init e ctx k = (TC_OK, ctx\<lparr>o_val := ?c\<rparr>)"
    using assms(3) init subkeys_eq [OF bk]
    by (simp add: TC_AES_dynamic_CMAC_init_def TC_AES_dynamic_CMAC_clear_def z Let_def case_prod_beta)
  moreover have "mac_state E 16 (replicate 16 0) [] (replicate 16 0) (replicate 16 0) 0" for E
    using aes_mac.mac_state_init [of "replicate 16 0" "replicate 16 0" E] by simp
  ultimately show ?thesis using keyed by (auto simp: dynamic_cmac_at_def dynamic_cmac_zero_def)
qed

lemma dynamic_cmac_facts:
  assumes "dynamic_cmac_at e k msg (o_val ctx)" "o_addr ctx \<noteq> NULL"
  shows "block_key_for k (dynamic_block_key e (dm_key (o_val ctx)))" "tc_aes_dynamic_key_valid (dm_key_obj ctx)"
    "\<not> dm_used (o_val ctx) > 16"
  using assms dynamic_block_key_for dynamic_keyed_ok(3) [of e k "dm_key (o_val ctx)"]
  by (auto simp: dynamic_cmac_at_def tc_aes_dynamic_key_valid_def dm_key_obj_def mac_state_def)

lemma dynamic_cmac_update_at:
  assumes "dynamic_cmac_at e k msg (o_val ctx)"
    "tc_block_mode_args (o_addr ctx) (o_size ctx) (b_data data) (b_length data) 1"
  shows "\<exists>c. TC_AES_dynamic_CMAC_update e ctx data = (TC_OK, ctx\<lparr>o_val := c\<rparr>) \<and>
    dynamic_cmac_at e k (msg @ b_mem data) c"
proof -
  let ?c = "o_val ctx" and ?bk = "dynamic_block_key e (dm_key (o_val ctx))"
  have "o_addr ctx \<noteq> NULL" using assms(2) by (simp add: tc_block_mode_args_def)
  note f = dynamic_cmac_facts [OF assms(1) this]
  have st: "mac_state (cipher_fun (tc_aes_block_cipher ?bk)) 16 (replicate 16 0) msg (dm_mac ?c) (dm_buffer ?c) (dm_used ?c)"
    "dm_used ?c = 0 \<longrightarrow> msg = []"
    using assms(1) by (auto simp: dynamic_cmac_at_def)
  obtain mac buf n where u: "tc_aes_cmac_update ?bk (dm_mac ?c) (dm_buffer ?c) (dm_used ?c) (b_mem data) = (TC_OK, mac, buf, n)"
    "mac_state (cipher_fun (tc_aes_block_cipher ?bk)) 16 (replicate 16 0) (msg @ b_mem data) mac buf n"
    "n = 0 \<longrightarrow> msg @ b_mem data = []"
    using cmac_update_step [OF f(1) st, of "b_mem data"] by auto
  then have "dynamic_cmac_at e k (msg @ b_mem data) (?c\<lparr>dm_mac := mac, dm_buffer := buf, dm_used := n\<rparr>)"
    using assms(1) by (simp add: dynamic_cmac_at_def)
  then show ?thesis
    using assms(2) f(2,3) u(1) by (auto simp: TC_AES_dynamic_CMAC_update_def TC_AES_BLOCKLEN_def Let_def)
qed

lemma dynamic_cmac_final_at:
  assumes "dynamic_cmac_at e k msg (o_val ctx)" "buffer_wf tag" "16 \<le> w_capacity tag"
    "tc_block_mode_args (o_addr ctx) (o_size ctx) (w_data tag) 16 1"
  shows "TC_AES_dynamic_CMAC_final e ctx tag =
    (TC_OK, ctx\<lparr>o_val := dynamic_cmac_zero\<rparr>, tag\<lparr>w_mem := aes_cmac k msg @ drop 16 (w_mem tag)\<rparr>)"
proof -
  let ?c = "o_val ctx" and ?bk = "dynamic_block_key e (dm_key (o_val ctx))"
  have nn: "w_data tag \<noteq> NULL" "o_addr ctx \<noteq> NULL"
    using assms(4) by (auto simp: tc_block_mode_args_def tc_internal_span_valid_def)
  note f = dynamic_cmac_facts [OF assms(1) nn(2)]
  have st: "dm_used ?c = 0 \<longrightarrow> msg = []"
    "mac_state (cipher_fun (tc_aes_block_cipher ?bk)) 16 (replicate 16 0) msg (dm_mac ?c) (dm_buffer ?c) (dm_used ?c)"
    "(dm_k1 ?c, dm_k2 ?c) = aes_mac.cmac_subkeys ?bk 0x87"
    using assms(1) by (auto simp: dynamic_cmac_at_def)
  have "16 \<le> length (w_mem tag)" using assms(2,3) nn by (simp add: buffer_wf_def)
  from cmac_final_step [OF f(1) st(1) this st(2,3)]
  show ?thesis
    using assms(3,4) f(2,3) nn
    by (auto simp: TC_AES_dynamic_CMAC_final_def TC_AES_BLOCKLEN_def TC_AES_dynamic_CMAC_clear_def)
qed

section \<open>The AEAD keystream\<close>

lemma increment_be_bytes_wrap: "fst (tc_internal_increment_be (be_bytes w n) w) = be_bytes w (Suc n)"
proof -
  let ?r = "increment_be_loop (be_bytes w n) w"
  have "be_val (fst ?r) = Suc n mod 256 ^ w"
    using increment_be_loop_val(1) [of w "be_bytes w n"] by (simp add: mod_simps)
  then show ?thesis
    unfolding tc_internal_increment_be_def by (intro be_val_inject) simp_all
qed

text \<open>The loop adds the CTR keystream of SP 800-38A, with the counter taken modulo \<^verbatim>\<open>2^128\<close>.\<close>

lemma mac_ctr_xor_loop_eq:
  assumes "aes_env_wf e" "aes_keyed e k c" "len \<le> length input" "len \<le> length outp"
  shows "offset \<le> len \<Longrightarrow> 16 dvd offset \<or> offset = len \<Longrightarrow>
    mac_ctr_xor_loop e (kc_round_key c) (be_bytes 16 (t + offset div 16)) input outp len offset =
      (TC_OK, take offset outp @ add_stream (ctr_stream (fips_aes k) 16 t) offset (drop offset (take len input)) @
         drop len outp)"
  using assms(4)
proof (induction "len - offset" arbitrary: offset outp rule: less_induct)
  case less
  show ?case
  proof (cases "offset < len")
    case False
    then show ?thesis using less.prems by (simp add: mac_ctr_xor_loop.simps)
  next
    case True
    then have dvd: "16 dvd offset" using less.prems(2) by auto
    define n where "n = (if len - offset < 16 then len - offset else 16)"
    let ?t = "t + offset div 16"
    let ?ks = "fips_aes k (be_bytes 16 ?t)" and ?cs = "ctr_stream (fips_aes k) 16 t"
    have nb: "0 < n" "n \<le> 16" "offset + n \<le> len" using True by (auto simp: n_def)
    let ?bk = "\<lparr>bk_env = e, bk_round_key = kc_round_key c, bk_rounds = TC_AES_FIXED_ROUNDS e\<rparr>"
    note bk = keyed_block_key [OF assms(1,2)]
    have enc: "tc_aes_cipher e (be_bytes 16 ?t) (kc_round_key c) = (TC_OK, ?ks)"
      using block_key_forD(2) [OF bk, of "be_bytes 16 ?t"] aes.fwd_eq [OF block_key_forD(1) [OF bk], of "be_bytes 16 ?t"]
        aes_env_params(5) [OF assms(1)]
      by (simp add: tc_aes_cipher_def tc_aes_block_cipher_def tc_aes_block_encrypt_def)
    have ks: "?ks ! i = ?cs (offset + i)" if "i < 16" for i
      using dvd that by (auto simp: ctr_stream_def elim!: dvdE)
    let ?f = "\<lambda>i out. out[offset + i := input ! (offset + i) XOR ?ks ! i]"
    let ?chunk = "add_stream ?cs offset (take n (drop offset input))"
    have fold: "fold ?f [0..<m] out = take offset out @ add_stream ?cs offset (take m (drop offset input)) @ drop (offset + m) out"
      if "m \<le> n" "len \<le> length out" for m out
      using that
    proof (induction m)
      case (Suc m)
      have l: "offset + m < length input" "offset + m < length out" using Suc.prems nb(3) assms(3) by linarith+
      have "drop (offset + m) out = out ! (offset + m) # drop (Suc (offset + m)) out"
        using l(2) by (simp add: Cons_nth_drop_Suc)
      moreover have "take (Suc m) (drop offset input) = take m (drop offset input) @ [input ! (offset + m)]"
        using l(1) by (simp add: take_Suc_conv_app_nth)
      moreover have "length (take m (drop offset input)) = m" "length (take offset out) = offset"
        using l by simp_all
      moreover have "?ks ! m = ?cs (offset + m)" using Suc.prems nb(2) by (intro ks) simp
      ultimately show ?case
        using Suc by (simp add: add_stream_append list_update_append)
    qed simp
    let ?out = "fold ?f [0..<n] outp"
    have out: "?out = take offset outp @ ?chunk @ drop (offset + n) outp"
      using fold [of n outp] less.prems(3) by simp
    have lc: "length ?chunk = n" using nb(3) assms(3) by simp
    have lo: "length ?out = length outp" unfolding out using lc nb(3) less.prems(3) by simp
    have div: "Suc (offset div 16) = (offset + n) div 16" if "offset + n < len"
      using that dvd by (auto simp: n_def elim!: dvdE split: if_splits)
    have nxt: "mac_ctr_xor_loop e (kc_round_key c) (be_bytes 16 (Suc ?t)) input ?out len (offset + n) =
      (TC_OK, take (offset + n) ?out @ add_stream ?cs (offset + n) (drop (offset + n) (take len input)) @ drop len ?out)"
    proof (cases "offset + n < len")
      case lt: True
      then have "n = 16" by (auto simp: n_def split: if_splits)
      then have "16 dvd offset + n" using dvd by simp
      then show ?thesis
        using less.hyps [of "offset + n" ?out] nb lt lo less.prems(3) True
        by (simp flip: div [OF lt])
    next
      case False
      then have "offset + n = len" using nb(3) by linarith
      then show ?thesis using lo by (simp add: mac_ctr_xor_loop.simps)
    qed
    have "mac_ctr_xor_loop e (kc_round_key c) (be_bytes 16 ?t) input outp len offset =
        mac_ctr_xor_loop e (kc_round_key c) (be_bytes 16 (Suc ?t)) input ?out len (offset + n)"
      using True enc by (subst mac_ctr_xor_loop.simps)
        (simp add: TC_AES_BLOCKLEN_def increment_be_bytes_wrap [of 16 ?t] Let_def n_def)
    moreover have "take (offset + n) ?out = take offset outp @ ?chunk"
      unfolding out using lc less.prems(1,3) by simp
    moreover have "drop len ?out = drop len outp"
      unfolding out using lc nb(3) less.prems(3) by (simp add: drop_append)
    moreover have "drop offset (take len input) =
        take n (drop offset input) @ drop (offset + n) (take len input)"
      using append_take_drop_id [of n "drop offset (take len input)"] nb(3)
      by (simp add: drop_take min_absorb1 add.commute)
    moreover have "length (take n (drop offset input)) = n" using nb(3) assms(3) by simp
    ultimately show ?thesis using nxt by (simp only: add_stream_append append_assoc)
  qed
qed

text \<open>The counter block after the bits the mode excludes are cleared.\<close>

definition ctr_cleared :: "tc_aes_mac_ctr_bits \<Rightarrow> u8 list \<Rightarrow> u8 list" where
  "ctr_cleared bits b =
     (if enabled bits \<noteq> 0
      then let c = b[first_clear_bit bits := b ! first_clear_bit bits AND 0x7f]
           in c[second_clear_bit bits := c ! second_clear_bit bits AND 0x7f]
      else b)"

lemma length_ctr_cleared [simp]: "length (ctr_cleared bits b) = length b"
  by (simp add: ctr_cleared_def Let_def)

lemma mac_ctr_xor_eq:
  assumes "aes_env_wf e" "aes_keyed e k c" "len \<le> length input" "len \<le> length outp" "length initial = 16"
  shows "tc_aes_mac_ctr_xor e (kc_round_key c) initial input outp len bits =
    (TC_OK, add_stream (ctr_stream (fips_aes k) 16 (be_val (ctr_cleared bits initial))) 0 (take len input) @ drop len outp)"
proof -
  have b: "be_bytes 16 (be_val (ctr_cleared bits initial)) = ctr_cleared bits initial" using assms(5) by simp
  have "mac_ctr_xor_loop e (kc_round_key c) (ctr_cleared bits initial) input outp len 0 =
    (TC_OK, add_stream (ctr_stream (fips_aes k) 16 (be_val (ctr_cleared bits initial))) 0 (take len input) @ drop len outp)"
    using mac_ctr_xor_loop_eq [OF assms(1-4), of 0 "be_val (ctr_cleared bits initial)"] b by simp
  then show ?thesis by (simp add: tc_aes_mac_ctr_xor_def ctr_cleared_def Let_def)
qed

end
