(* ===== verification/AES_AEAD.thy ===== *)
theory AES_AEAD
  imports AES_CMAC
begin

text \<open>
  What the one-shot authenticated modes of AES share: the argument check of the text buffers
  (\<^verbatim>\<open>src/src/aes_internal.h\<close>), the key schedule on the stack and the rule that a failure after the argument
  checks wipes the text output.
\<close>

definition tc_aes_text_ok :: "TC_bytes \<Rightarrow> TC_buffer \<Rightarrow> bool" where
  "tc_aes_text_ok input output =
     (if \<not> tc_internal_span_valid (b_data input) (b_length input) \<or> w_capacity output < b_length input then False
      else if b_length input = 0 then True
      else w_data output \<noteq> NULL \<and>
           (b_data input = w_data output \<or>
            tc_internal_ranges_disjoint (b_data input) (b_length input) (w_data output) (b_length input)))"

text \<open>
  The statement at the label \<^verbatim>\<open>done\<close>. The input and the output may be the same storage: every mode reads an input byte
  no later than it writes the output byte at the same place, so the input is a value here.
\<close>

definition aead_done :: "TC_status \<Rightarrow> TC_buffer \<Rightarrow> nat \<Rightarrow> TC_buffer" where
  "aead_done status output n =
     (if status \<noteq> TC_OK \<and> n \<noteq> 0 then output\<lparr>w_mem := TC_secure_zero (w_data output) (w_mem output) n\<rparr> else output)"

text \<open>The key pointer is a span whose length the callers have compared with the configured key length.\<close>

definition aead_key_init :: "aes_env \<Rightarrow> addr \<Rightarrow> TC_bytes \<Rightarrow> TC_status \<times> TC_AES_key_ctx obj" where
  "aead_key_init e at k =
     TC_AES_key_init e \<lparr>o_addr = at, o_size = sizeof_key_ctx e, o_val = key_ctx_zero e\<rparr>
       \<lparr>b_data = b_data k, b_length = TC_AES_KEYLEN e, b_mem = b_mem k\<rparr>"

definition aead_block_key :: "aes_env \<Rightarrow> TC_AES_key_ctx \<Rightarrow> tc_aes_block_key" where
  "aead_block_key e c = \<lparr>bk_env = e, bk_round_key = kc_round_key c, bk_rounds = TC_AES_FIXED_ROUNDS e\<rparr>"

section \<open>Facts\<close>

lemma text_ok_facts:
  assumes "tc_aes_text_ok input output" "bytes_wf input" "buffer_wf output"
  shows "length (b_mem input) = b_length input" "b_length input \<le> length (w_mem output)"
  using assms span_mem_length [OF assms(2)] by (auto simp: tc_aes_text_ok_def buffer_wf_def split: if_splits)

lemma aead_done_ok [simp]: "aead_done TC_OK output n = output"
  by (simp add: aead_done_def)

lemma aead_done_error:
  assumes "tc_aes_text_ok input output" "buffer_wf output" "status \<noteq> TC_OK"
  shows "aead_done status output (b_length input) =
    output\<lparr>w_mem := replicate (b_length input) 0 @ drop (b_length input) (w_mem output)\<rparr>"
proof (cases "b_length input = 0")
  case True
  then show ?thesis by (simp add: aead_done_def)
next
  case False
  then have "w_data output \<noteq> NULL" "b_length input \<le> length (w_mem output)"
    using assms(1,2) by (auto simp: tc_aes_text_ok_def buffer_wf_def split: if_splits)
  then show ?thesis using assms(3) False by (simp add: aead_done_def TC_secure_zero_eq)
qed

lemma aead_key_keyed:
  assumes "aes_env_wf e" "bytes_wf k" "at \<noteq> NULL" "key_args_ok e at (sizeof_key_ctx e) k"
  shows "\<exists>c. aead_key_init e at k = (TC_OK, c) \<and> aes_keyed e (b_mem k) (o_val c)"
proof -
  let ?o = "\<lparr>o_addr = at, o_size = sizeof_key_ctx e, o_val = key_ctx_zero e\<rparr>"
  have len: "b_length k = TC_AES_KEYLEN e" using assms(4) by (simp add: key_args_ok_def)
  then have k: "\<lparr>b_data = b_data k, b_length = TC_AES_KEYLEN e, b_mem = b_mem k\<rparr> = k" by simp
  show ?thesis
    unfolding aead_key_init_def k
    using key_init_eq [of ?o e k] assms(3,4) keyed_ctx_keyed [OF assms(1,2,4)] by simp
qed

lemma aead_block_key_for: "aes_env_wf e \<Longrightarrow> aes_keyed e k c \<Longrightarrow> block_key_for k (aead_block_key e c)"
  unfolding aead_block_key_def by (rule keyed_block_key)

lemma length_fips_aes [simp]: "length (fips_aes k b) = 16"
  by (simp add: fips_aes_def fips_cipher_def fips_add_round_key_def)

lemma length_aes_cmac [simp]: "length (aes_cmac k msg) = 16"
  by (simp add: aes_cmac_def cmac_def cmac_spec_def Let_def)

lemma cipher_keyed:
  assumes "aes_env_wf e" "aes_keyed e k c" "length b = 16"
  shows "tc_aes_cipher e b (kc_round_key c) = (TC_OK, fips_aes k b)"
proof -
  note bk = keyed_block_key [OF assms(1,2)]
  show ?thesis
    using block_key_forD(2) [OF bk assms(3)] aes.fwd_eq [OF block_key_forD(1) [OF bk] assms(3)] aes_env_params(5) [OF assms(1)]
    by (simp add: tc_aes_cipher_def tc_aes_block_cipher_def tc_aes_block_encrypt_def)
qed

section \<open>Zero padding to whole blocks\<close>

definition pad16 :: "u8 list \<Rightarrow> u8 list" where
  "pad16 x = x @ replicate ((16 - length x mod 16) mod 16) 0"

lemma dvd_pad16: "16 dvd length (pad16 x)"
proof -
  have "16 dvd n + (16 - n mod 16) mod 16" for n :: nat
  proof (cases "n mod 16 = 0")
    case False
    have "(16 * q + r) + (16 - r) = 16 * (q + 1)" if "r < 16" for q r :: nat using that by simp
    from this [of "n mod 16" "n div 16"] have "n + (16 - n mod 16) = 16 * (n div 16 + 1)" by simp
    then show ?thesis using False by simp
  qed auto
  then show ?thesis by (simp add: pad16_def)
qed

lemma pad16_append: "16 dvd length x \<Longrightarrow> pad16 (x @ y) = x @ pad16 y"
  by (auto simp: pad16_def elim!: dvdE)

end
