(* ===== verification/AES_Properties.thy ===== *)
theory AES_Properties
  imports AES_Concrete AES_Session AES_KW AES_AEAD
begin

text \<open>
  The contracts of the shared helpers and of the AES modules, each stated over the public operations of
  the sources and each followed by an application at a concrete key, context and buffer.
\<close>

section \<open>Shared helpers\<close>

text \<open>\<^verbatim>\<open>TC_ct_equal\<close> reports an error exactly for a span without storage, and otherwise decides equality of
  the two byte strings, the lengths included.\<close>

theorem ct_equal_decides:
  assumes "bytes_wf a" "bytes_wf b"
  shows "TC_ct_equal a b =
    (if (b_length a \<noteq> 0 \<and> b_data a = NULL) \<or> (b_length b \<noteq> 0 \<and> b_data b = NULL) then TC_ERROR
     else if b_mem a = b_mem b then TC_OK else TC_MISMATCH)"
  using TC_ct_equal_valid [OF assms] by (auto simp: TC_ct_equal_def)

text \<open>C23: The storage plan check accepts exactly the plans in which every span is valid, no two writable spans
  share an address and no writable span shares one with an input.\<close>

theorem writes_disjoint_decides:
  "tc_internal_writes_disjoint writable count input inputs \<longleftrightarrow>
     (count \<noteq> 0 \<longrightarrow> writable \<noteq> None) \<and> (inputs \<noteq> 0 \<longrightarrow> input \<noteq> None) \<and>
     (let ws = take count (case writable of None \<Rightarrow> [] | Some l \<Rightarrow> l);
          ins = take inputs (case input of None \<Rightarrow> [] | Some l \<Rightarrow> l)
      in (\<forall>v \<in> set ws \<union> set ins. tc_internal_span_valid (b_data v) (b_length v)) \<and>
         (\<forall>w \<in> set ws. \<forall>v \<in> set ins. span_range v \<inter> span_range w = {}) \<and>
         sorted_wrt (\<lambda>v w. span_range v \<inter> span_range w = {}) ws)"
proof -
  have s: "(\<lambda>v w. span_range v \<inter> span_range w = {}) = spans_apart"
    by (simp add: fun_eq_iff spans_apart_def)
  show ?thesis
    by (cases writable; cases input)
      (auto simp: tc_internal_writes_disjoint_def Let_def writes_disjoint_loop_iff list_all_iff s
        simp flip: spans_apart_def)
qed

theorem writes_disjoint_decides_witness:
  "tc_internal_writes_disjoint (Some [ex_span 8192 16, ex_span 8208 16]) 2 (Some [ex_span 4096 8]) 1 \<and>
   \<not> tc_internal_writes_disjoint (Some [ex_span 8192 16, ex_span 8200 16]) 2 None 0"
  by (subst (1 2) writes_disjoint_decides) (auto simp: span_range_def tc_internal_span_valid_def UINTPTR_MAX_def)

text \<open>C22: The counter range check answers whether the counter still has the requested number of values before
  it wraps, for every width up to 16 bytes; a counter that already wrapped grants nothing.\<close>

theorem counter_range_check:
  assumes "length ctr = len" "len \<le> 16" "needed \<le> SIZE_MAX"
  shows "tc_internal_counter_has_blocks ctr len needed wrapped \<longleftrightarrow>
           (if wrapped \<noteq> 0 then needed = 0 else be_val ctr + needed \<le> 256 ^ len)"
  using counter_has_blocks_iff [OF assms] be_val_less [of ctr] assms(1) by auto

theorem counter_range_check_witness:
  "tc_internal_counter_has_blocks [0xff, 0xfe] 2 2 0 \<and> \<not> tc_internal_counter_has_blocks [0xff, 0xfe] 2 3 0"
  using counter_range_check [of "[0xff, 0xfe]" 2 2 0] counter_range_check [of "[0xff, 0xfe]" 2 3 0]
  by (simp add: SIZE_MAX_def)

section \<open>The substitution and the block cipher\<close>

text \<open>C19: The three S-box builds (fixed tables, computation in the field, generated tables read by a full scan)
  compute the same substitution, which is the affine map of the field inverse, and the inverse
  substitution undoes it; \<^verbatim>\<open>TC_AES_init_sbox\<close> makes the generated tables usable.\<close>

theorem sbox_builds_agree:
  assumes "aes_env_wf e" "aes_mode e = SBOX_MODE_RUNTIME \<longrightarrow> sbox_ready e \<noteq> 0"
  shows "tc_aes_sbox_value e x = sbox_affine (tc_aes_sbox_inverse x) \<and>
         tc_aes_sbox_value e x = sbox ! unat x \<and>
         tc_aes_inverse_sbox_value e (tc_aes_sbox_value e x) = x \<and>
         tc_aes_sbox_value e (tc_aes_inverse_sbox_value e x) = x"
proof -
  have "aes_env_ready e" using assms by (auto simp: aes_env_wf_def aes_env_ready_def)
  then show ?thesis
    by (simp add: sbox_value_eq inverse_sbox_value_eq rsbox_sbox sbox_rsbox sbox_affine_of_inverse)
qed

theorem sbox_builds_agree_witness:
  "tc_aes_inverse_sbox_value (TC_AES_init_sbox (ex_env\<lparr>aes_mode := SBOX_MODE_RUNTIME\<rparr>))
     (tc_aes_sbox_value (TC_AES_init_sbox (ex_env\<lparr>aes_mode := SBOX_MODE_RUNTIME\<rparr>)) 0x53) = 0x53"
proof -
  let ?e = "TC_AES_init_sbox (ex_env\<lparr>aes_mode := SBOX_MODE_RUNTIME\<rparr>)"
  have "aes_env_wf ?e" "aes_mode ?e = SBOX_MODE_RUNTIME \<longrightarrow> sbox_ready ?e \<noteq> 0"
    by (simp_all add: init_sbox_tables ex_env_def aes_env_wf_def)
  from sbox_builds_agree [OF this, of "0x53"] show ?thesis by blast
qed

text \<open>C15: The iterative key expansion writes the schedule of FIPS 197: word \<open>i\<close> of the round keys is the word the
  recursive definition of the standard gives, for 128, 192 and 256-bit keys.\<close>

theorem key_expansion_is_fips197:
  assumes "length k \<in> {16, 24, 32}" "4 * length k + 112 \<le> length rk" "aes_env_ready e" "i < length k + 28"
  shows "take 4 (drop (4 * i) (tc_aes_key_expansion e rk k (length k div 4))) = fips_word (length k div 4) k i"
  using key_expansion_fips(2) [of "length k div 4" k rk e i] assms by (auto simp: schedule_word_def)

theorem key_expansion_is_fips197_witness:
  "take 4 (drop 16 (tc_aes_key_expansion ex_env (replicate 176 0) (replicate 16 0) 4)) =
     fips_word 4 (replicate 16 0) 4"
  using key_expansion_is_fips197 [of "replicate 16 0" "replicate 176 0" ex_env 4] by simp

text \<open>For any round keys of the right size the inverse rounds undo the forward rounds, and the two never fail;
  with the expansion of a key the forward rounds are the cipher of FIPS 197.\<close>

theorem inverse_rounds_undo_cipher:
  assumes "aes_env_ready e" "0 < unat rounds" "16 * unat rounds + 16 \<le> length rk" "length s = 16"
  shows "\<exists>c. tc_aes_cipher_rounds e s rk rounds = (TC_OK, c) \<and> tc_aes_inverse_rounds e c rk rounds = (TC_OK, s)"
proof -
  have ok: "schedule_ok e rk rounds" using assms by (simp add: schedule_ok_def)
  then show ?thesis
    using inverse_cipher_rounds [OF ok assms(4)] cipher_rounds_fips [OF ok assms(4)]
    by (simp add: tc_aes_inverse_rounds_def)
qed

text \<open>C1: After \<^verbatim>\<open>TC_AES_key_init\<close> has accepted a key, \<^verbatim>\<open>TC_AES_ECB_encrypt\<close> on a block that does not overlap the
  context replaces it by its FIPS 197 encryption under that key, and \<^verbatim>\<open>TC_AES_ECB_decrypt\<close> restores it.\<close>

theorem aes_ecb_is_fips197:
  assumes "aes_env_wf e" "bytes_wf k" "TC_AES_key_init e ctx k = (TC_OK, ctx')"
    "buffer_wf buf" "w_capacity buf = 16"
    "tc_block_mode_args (o_addr ctx) (o_size ctx) (w_data buf) 16 1"
  shows "TC_AES_ECB_encrypt e ctx' buf = (TC_OK, buf\<lparr>w_mem := fips_aes (b_mem k) (w_mem buf)\<rparr>) \<and>
         TC_AES_ECB_decrypt e ctx' (buf\<lparr>w_mem := fips_aes (b_mem k) (w_mem buf)\<rparr>) = (TC_OK, buf)"
proof -
  have nn: "o_addr ctx \<noteq> NULL" using assms(6) by (simp add: tc_block_mode_args_def)
  from assms(3) have a: "key_args_ok e (o_addr ctx) (o_size ctx) k"
    and c: "ctx' = ctx\<lparr>o_val := keyed_ctx e (b_mem k)\<rparr>"
    by (auto simp: key_init_eq [OF nn] split: if_splits)
  from keyed_ctx_keyed [OF assms(1,2) a] have "aes_keyed e (b_mem k) (o_val ctx')" by (simp add: c)
  from ecb_accepted [OF assms(1) this assms(4,5)] show ?thesis
    using assms(5,6) by (simp add: AES_MODE_VALID_def c keyed_ctx_def)
qed

theorem aes_ecb_is_fips197_witness:
  "TC_AES_ECB_encrypt ex_env (snd (TC_AES_key_init ex_env ex_key_ctx (ex_span 8192 16))) (ex_buf 9000 16) =
     (TC_OK, (ex_buf 9000 16)\<lparr>w_mem := fips_aes (replicate 16 0) (replicate 16 0)\<rparr>)"
  using aes_ecb_is_fips197 [of ex_env "ex_span 8192 16" ex_key_ctx _ "ex_buf 9000 16"]
  by (simp add: key_init_eq)

section \<open>Contexts and modes\<close>

text \<open>C21: A refused key leaves nothing behind: \<^verbatim>\<open>TC_AES_init\<close> succeeds exactly for a key of the configured length in
  valid storage that does not overlap the context (with the tables ready), and otherwise returns an
  error with every member of the context zero, so that no mode accepts it.\<close>

theorem aes_init_error_wipes:
  assumes "o_addr ctx \<noteq> NULL" "sizeof_key_ctx e \<le> o_size ctx" "TC_AES_init e ctx k = (status, ctx')"
  shows "(status = TC_OK \<longleftrightarrow> key_args_ok e (o_addr ctx) (o_size ctx) k) \<and>
         (status \<noteq> TC_OK \<longrightarrow> status = TC_ERROR \<and> o_val ctx' = aes_ctx_zero e \<and>
            (\<forall>buf. fst (TC_AES_CBC_encrypt e ctx' buf) = TC_ERROR \<and> fst (TC_AES_CBC_decrypt e ctx' buf) = TC_ERROR \<and>
                   fst (TC_AES_CTR_crypt e ctx' buf) = TC_ERROR \<and> fst (TC_AES_OFB_crypt e ctx' buf) = TC_ERROR))"
  using assms(3)
  by (auto simp: aes_init_eq [OF assms(1,2)] TC_AES_CBC_encrypt_def TC_AES_CBC_decrypt_def TC_AES_CTR_crypt_def
      TC_AES_OFB_crypt_def AES_IV_MODE_VALID_def split: if_splits)

theorem aes_init_error_wipes_witness:
  "TC_AES_init ex_env ex_ctx (ex_span 8192 15) = (TC_ERROR, ex_ctx)"
  using aes_init_error_wipes [of ex_ctx ex_env "ex_span 8192 15"
      "fst (TC_AES_init ex_env ex_ctx (ex_span 8192 15))" "snd (TC_AES_init ex_env ex_ctx (ex_span 8192 15))"]
  by (simp add: aes_init_eq key_args_ok_def ex_ctx_def)

text \<open>C12: Whatever calls a program makes on a context, in any order and with any spans, the context stays well
  formed, an IV is loaded only under a key, and the round keys of an active context are the FIPS 197
  expansion of some key.\<close>

theorem aes_session_invariant:
  assumes "aes_env_wf e" "aes_reachable e ctx"
  shows "aes_ctx_wf e (o_val ctx) \<and>
         (ac_iv_loaded (o_val ctx) = 1 \<longrightarrow> kc_active (ac_key (o_val ctx)) = 1) \<and>
         (kc_active (ac_key (o_val ctx)) = 1 \<longrightarrow> (\<exists>k. aes_keyed e k (ac_key (o_val ctx))))"
  using session_reachable [OF assms(2,1)] by (simp add: aes_session_ok_def)

theorem aes_session_invariant_witness:
  "aes_ctx_wf ex_env (o_val (fst (snd (TC_AES_CTR_crypt ex_env
     (snd (TC_AES_set_iv (snd (TC_AES_init ex_env ex_ctx (ex_span 8192 16))) (ex_span 8300 16))) (ex_buf 9000 5)))))"
proof -
  have "aes_reachable ex_env (fst (snd (TC_AES_CTR_crypt ex_env
     (snd (TC_AES_set_iv (snd (TC_AES_init ex_env ex_ctx (ex_span 8192 16))) (ex_span 8300 16))) (ex_buf 9000 5))))"
    by (intro aes_reachable.step [OF _ call_ctr] aes_reachable.step [OF _ call_set_iv] aes_reachable.start) simp_all
  from aes_session_invariant [OF _ this] show ?thesis by simp
qed

lemma keyed_after_init:
  assumes "aes_env_wf e" "bytes_wf k" "sizeof_key_ctx e \<le> o_size ctx" "o_addr ctx \<noteq> NULL"
    "TC_AES_init e ctx k = (TC_OK, ctx')"
  shows "aes_keyed e (b_mem k) (ac_key (o_val ctx'))" "o_addr ctx' = o_addr ctx" "o_size ctx' = o_size ctx"
    "aes_ctx_wf e (o_val ctx')"
  using assms keyed_ctx_keyed [OF assms(1,2), of "o_addr ctx" "o_size ctx"] aes_init_wf [OF assms(1,2,4,3)]
  by (auto simp: aes_init_eq split: if_splits)

lemma set_iv_frame:
  assumes "TC_AES_set_iv ctx iv = (TC_OK, ctx')"
  shows "o_addr ctx' = o_addr ctx" "o_size ctx' = o_size ctx" "ac_key (o_val ctx') = ac_key (o_val ctx)"
    "ac_iv (o_val ctx') = b_mem iv" "ac_iv_loaded (o_val ctx') = 1"
  using assms by (auto simp: TC_AES_set_iv_def split: if_splits)

lemma ex_init [simp]:
  "TC_AES_init ex_env ex_ctx (ex_span 8192 16) =
    (TC_OK, ex_ctx\<lparr>o_val := (aes_ctx_zero ex_env)\<lparr>ac_key := keyed_ctx ex_env (replicate 16 0)\<rparr>\<rparr>)"
  by (simp add: aes_init_eq)

lemma ex_set_iv:
  "\<exists>c. TC_AES_set_iv (snd (TC_AES_init ex_env ex_ctx (ex_span 8192 16))) (ex_span 8300 16) = (TC_OK, c)"
  by (simp add: TC_AES_set_iv_def TC_AES_BLOCKLEN_def keyed_ctx_def)

text \<open>C17: CBC over whole blocks is the chaining of SP 800-38A over FIPS 197: with a key and an IV loaded,
  \<^verbatim>\<open>TC_AES_CBC_encrypt\<close> leaves the chained ciphertext blocks in the buffer, and \<^verbatim>\<open>TC_AES_CBC_decrypt\<close> from the same
  IV restores the plaintext and ends in the same context.\<close>

theorem aes_cbc_refines_sp800_38a:
  assumes "aes_env_wf e" "bytes_wf k" "bytes_wf iv" "buffer_wf buf" "sizeof_key_ctx e \<le> o_size ctx"
    "TC_AES_init e ctx k = (TC_OK, c1)" "TC_AES_set_iv c1 iv = (TC_OK, c2)"
    "tc_block_mode_args (o_addr ctx) (o_size ctx) (w_data buf) (w_capacity buf) 16"
  defines "cs \<equiv> cbc_enc_spec (fips_aes (b_mem k)) (b_mem iv) (chunks 16 (w_mem buf))"
  shows "\<exists>c3. TC_AES_CBC_encrypt e c2 buf = (TC_OK, c3, buf\<lparr>w_mem := concat cs\<rparr>) \<and>
              ac_iv (o_val c3) = last (b_mem iv # cs) \<and>
              TC_AES_CBC_decrypt e c2 (buf\<lparr>w_mem := concat cs\<rparr>) = (TC_OK, c3, buf)"
proof -
  have nn: "o_addr ctx \<noteq> NULL" using assms(8) by (simp add: tc_block_mode_args_def)
  note i = keyed_after_init [OF assms(1,2,5) nn assms(6)] and s = set_iv_frame [OF assms(7)]
  have keyed: "aes_keyed e (b_mem k) (ac_key (o_val c2))" using i(1) s(3) by simp
  have wf: "aes_ctx_wf e (o_val c2)" using set_iv_wf [OF i(4) assms(3)] assms(7) by simp
  have valid: "AES_IV_MODE_VALID c2 buf 16"
    using assms(8) keyed s i by (simp add: AES_IV_MODE_VALID_def AES_MODE_VALID_def aes_keyed_def)
  from cbc_encrypt_keyed [OF valid assms(4,1) wf keyed] cbc_public_round_trip [OF valid assms(4,1) wf]
  show ?thesis by (auto simp: cs_def s(4))
qed

theorem aes_cbc_refines_sp800_38a_witness:
  "\<exists>c2 c3 buf'. TC_AES_CBC_encrypt ex_env c2 (ex_buf 9000 32) = (TC_OK, c3, buf') \<and>
     TC_AES_CBC_decrypt ex_env c2 buf' = (TC_OK, c3, ex_buf 9000 32) \<and>
     w_mem buf' = concat (cbc_enc_spec (fips_aes (replicate 16 0)) (replicate 16 0) (chunks 16 (replicate 32 0)))"
proof -
  obtain c2 where "TC_AES_set_iv (snd (TC_AES_init ex_env ex_ctx (ex_span 8192 16))) (ex_span 8300 16) = (TC_OK, c2)"
    using ex_set_iv by blast
  from aes_cbc_refines_sp800_38a [OF _ _ _ _ _ _ this, of ex_env "ex_span 8192 16" "ex_buf 9000 32" ex_ctx]
  show ?thesis by fastforce
qed

text \<open>CTR is a stream: however a message is split into buffers, one \<^verbatim>\<open>TC_AES_CTR_crypt\<close> call each after loading
  the initial counter block adds the keystream of SP 800-38A (the FIPS 197 encryptions of the counter
  values) to the message as one string, as long as the counter does not wrap.\<close>

theorem aes_ctr_chunking:
  assumes "aes_env_wf e" "bytes_wf k" "bytes_wf iv" "o_addr ctx \<noteq> NULL" "sizeof_key_ctx e \<le> o_size ctx"
    "TC_AES_init e ctx k = (TC_OK, c1)" "TC_AES_set_iv c1 iv = (TC_OK, c2)"
    "list_all (ctr_piece_ok (o_addr ctx) (o_size ctx)) bufs"
    "be_val (b_mem iv) + (length (concat (map w_mem bufs)) + 15) div 16 \<le> 256 ^ 16"
  shows "\<exists>c3 bufs'. aes_ctr_run e c2 bufs = (TC_OK, c3, bufs') \<and>
           concat (map w_mem bufs') =
             add_stream (ctr_stream (fips_aes (b_mem k)) 16 (be_val (b_mem iv))) 0 (concat (map w_mem bufs))"
proof -
  note i = keyed_after_init [OF assms(1,2,5,4,6)] and s = set_iv_frame [OF assms(7)]
  have "aes_ctr_at e (b_mem k) (be_val (b_mem iv)) 0 (o_val c2)"
    using set_iv_ctr_at [OF i(1) assms(3)] assms(7) by simp
  from ctr_run_eq [OF assms(1) this, of bufs] assms(8,9) show ?thesis
    unfolding s(1,2) i(2,3) blocks_after_def by (auto simp: algebra_simps)
qed

text \<open>C9: No counter block is used twice: at position \<open>p\<close> of the stream a CTR request is served, in full, exactly
  when the counter has a fresh value for every block it needs, and a request that would run past the
  last counter value is refused before any byte of the buffer or of the context changes.\<close>

theorem aes_ctr_never_wraps:
  assumes "aes_env_wf e" "aes_ctr_at e k t p (o_val ctx)" "buffer_wf buf"
    "tc_block_mode_args (o_addr ctx) (o_size ctx) (w_data buf) (w_capacity buf) 1"
  shows "if w_capacity buf = 0 \<or> t + (p + w_capacity buf + 15) div 16 \<le> 256 ^ 16
         then \<exists>ctx'. TC_AES_CTR_crypt e ctx buf =
                (TC_OK, ctx', buf\<lparr>w_mem := add_stream (ctr_stream (fips_aes k) 16 t) p (w_mem buf)\<rparr>) \<and>
                aes_ctr_at e k t (p + w_capacity buf) (o_val ctx')
         else TC_AES_CTR_crypt e ctx buf = (TC_ERROR, ctx, buf)"
  using ctr_crypt_step [OF assms] unfolding blocks_after_def by (auto split: if_splits simp: algebra_simps)

definition ex_last_iv :: TC_bytes where
  "ex_last_iv = \<lparr>b_data = 8300, b_length = 16, b_mem = be_bytes 16 (256 ^ 16 - 1)\<rparr>"

theorem aes_ctr_never_wraps_witness:
  "\<exists>c. aes_ctr_at ex_env (replicate 16 0) (256 ^ 16 - 1) 0 (o_val c) \<and>
       TC_AES_CTR_crypt ex_env c (ex_buf 9000 17) = (TC_ERROR, c, ex_buf 9000 17)"
proof -
  let ?c1 = "snd (TC_AES_init ex_env ex_ctx (ex_span 8192 16))"
  have iv: "bytes_wf ex_last_iv" "b_mem ex_last_iv = be_bytes 16 (256 ^ 16 - 1)"
    by (simp_all add: ex_last_iv_def bytes_wf_def)
  obtain c where c: "TC_AES_set_iv ?c1 ex_last_iv = (TC_OK, c)"
    by (simp add: TC_AES_set_iv_def TC_AES_BLOCKLEN_def keyed_ctx_def ex_last_iv_def)
  have k: "aes_keyed ex_env (replicate 16 0) (ac_key (o_val ?c1))"
    using keyed_after_init(1) [of ex_env "ex_span 8192 16" ex_ctx ?c1] by simp
  have at: "aes_ctr_at ex_env (replicate 16 0) (256 ^ 16 - 1) 0 (o_val c)"
    using set_iv_ctr_at [OF k iv(1)] c iv(2) by simp
  have "o_addr c = 4096" "o_size c = 256" using set_iv_frame(1,2) [OF c] by simp_all
  with aes_ctr_never_wraps [OF _ at, of "ex_buf 9000 17"] at show ?thesis by (intro exI [of _ c]) simp
qed

text \<open>OFB is a stream too: a call at position \<open>p\<close> adds the next bytes of the keystream of SP 800-38A (the iterated
  FIPS 197 encryptions of the IV) and leaves the context at the position after them, and the same call on
  the result from the same position restores the message.\<close>

theorem aes_ofb_stream:
  assumes "aes_env_wf e" "aes_ofb_at e k iv p (o_val ctx)" "buffer_wf buf"
    "tc_block_mode_args (o_addr ctx) (o_size ctx) (w_data buf) (w_capacity buf) 1"
  shows "\<exists>ctx' ctx'' buf'. TC_AES_OFB_crypt e ctx buf = (TC_OK, ctx', buf') \<and>
           w_mem buf' = add_stream (ofb_stream (fips_aes k) 16 iv) p (w_mem buf) \<and>
           aes_ofb_at e k iv (p + w_capacity buf) (o_val ctx') \<and>
           TC_AES_OFB_crypt e ctx buf' = (TC_OK, ctx'', buf)"
proof -
  let ?b = "buf\<lparr>w_mem := add_stream (ofb_stream (fips_aes k) 16 iv) p (w_mem buf)\<rparr>"
  have wf: "buffer_wf ?b" using assms(3) by (simp add: buffer_wf_def)
  from ofb_crypt_step [OF assms] ofb_crypt_step [OF assms(1,2) wf] assms(4) show ?thesis by auto
qed

text \<open>C20: A dynamic-length key behaves like the fixed-length build for its size: after \<^verbatim>\<open>TC_AES_dynamic_key_init\<close>
  accepted a key of 16, 24 or 32 bytes, block encryption is FIPS 197 under that key, block decryption
  inverts it, and any other key is refused with the key storage zeroed.\<close>

theorem dynamic_key_is_fips197:
  assumes "aes_env_wf e" "bytes_wf k" "o_addr ctx \<noteq> NULL" "buffer_wf buf" "w_capacity buf = 16"
    "tc_block_mode_args (o_addr ctx) (o_size ctx) (w_data buf) 16 1"
  shows "if dynamic_args_ok e (o_addr ctx) (o_size ctx) k
         then \<exists>ctx'. TC_AES_dynamic_key_init e ctx k = (TC_OK, ctx') \<and>
           TC_AES_dynamic_encrypt e ctx' buf = (TC_OK, buf\<lparr>w_mem := fips_aes (b_mem k) (w_mem buf)\<rparr>) \<and>
           TC_AES_dynamic_decrypt e ctx' (buf\<lparr>w_mem := fips_aes (b_mem k) (w_mem buf)\<rparr>) = (TC_OK, buf)
         else TC_AES_dynamic_key_init e ctx k = (TC_ERROR, ctx\<lparr>o_val := dynamic_key_zero\<rparr>)"
proof (cases "dynamic_args_ok e (o_addr ctx) (o_size ctx) k")
  case True
  from dynamic_init_keyed [OF assms(1-3) True] obtain c
    where c: "TC_AES_dynamic_key_init e ctx k = (TC_OK, ctx\<lparr>o_val := c\<rparr>)" "dynamic_keyed e (b_mem k) c" by blast
  have "dynamic_keyed e (b_mem k) (o_val (ctx\<lparr>o_val := c\<rparr>))" using c(2) by simp
  from dynamic_block_accepted [OF this assms(4,5)] assms(5,6) c(1) True show ?thesis by auto
next
  case False
  then show ?thesis using dynamic_init_refused [OF assms(3) False] by simp
qed

theorem dynamic_key_is_fips197_witness:
  "\<exists>c. TC_AES_dynamic_encrypt ex_env c (ex_buf 9000 16) =
     (TC_OK, (ex_buf 9000 16)\<lparr>w_mem := fips_aes (replicate 24 0) (replicate 16 0)\<rparr>)"
  using dynamic_key_is_fips197 [of ex_env "ex_span 8192 24"
      "\<lparr>o_addr = 4096, o_size = 241, o_val = dynamic_key_zero\<rparr>" "ex_buf 9000 16"]
  by (auto simp: dynamic_args_ok_def)

section \<open>Key wrapping\<close>

lemma ex_kek [simp]: "tc_aes_kw_kek_ok dyn ex_env (ex_span 8192 16)" "kek_setup_ok dyn ex_env 4096 (ex_span 8192 16)"
  by (auto simp: tc_aes_kw_kek_ok_def TC_AES_KW_KEK_LENGTH_SUPPORTED_def kek_setup_ok_def sizeof_dynamic_key_def)

lemma length_kw_W_aes:
  assumes "16 \<le> length s"
  shows "length (kw_W (fips_aes k) s) = length s"
proof -
  have "length (fold (kw_step (fips_aes k)) xs s) = length s" if "list_all (step_in (length s)) xs" for xs s
    using that by (induction xs arbitrary: s) (auto simp: kw_step_append(2))
  moreover have "8 * (length s div 8 - 1) + 8 \<le> length s" using assms by simp
  ultimately show ?thesis by (simp add: kw_W_def kw_steps_in)
qed

text \<open>C18: \<^verbatim>\<open>TC_AES_KW_wrap\<close> computes the wrapping function of SP 800-38F over FIPS 197, and \<^verbatim>\<open>TC_AES_KW_unwrap\<close> of the
  result returns the key data and success.\<close>

theorem kw_round_trip:
  assumes "aes_env_wf e" "bytes_wf kek" "bytes_wf key_data" "at \<noteq> NULL" "a_at \<noteq> NULL" "icv_at \<noteq> NULL"
    "kek_setup_ok dyn e at kek" "buffer_wf wrapped" "buffer_wf out"
    "tc_aes_kw_wrap_args_ok dyn e kek key_data wrapped False" "w_capacity wrapped = b_length key_data + 8"
    "w_data out \<noteq> NULL" "w_capacity out = b_length key_data"
  shows "\<exists>wrapped'. TC_AES_KW_wrap dyn e at kek key_data wrapped = (TC_OK, wrapped') \<and>
           w_mem wrapped' = kw_W (fips_aes (b_mem kek)) (replicate 8 0xa6 @ b_mem key_data) \<and>
           TC_AES_KW_unwrap dyn e at a_at icv_at kek
             \<lparr>b_data = w_data wrapped', b_length = w_capacity wrapped', b_mem = w_mem wrapped'\<rparr> out =
             (TC_OK, out\<lparr>w_mem := b_mem key_data\<rparr>)"
proof -
  let ?c = "kw_W (fips_aes (b_mem kek)) (kw_plain False (b_mem key_data))"
  let ?w = "\<lparr>b_data = w_data wrapped, b_length = w_capacity wrapped, b_mem = ?c\<rparr>"
  have len: "length (b_mem key_data) = b_length key_data"
    using assms(3,10) by (auto simp: tc_aes_kw_wrap_args_ok_def bytes_wf_def split: if_splits)
  have lc: "length ?c = b_length key_data + 8"
    using length_kw_W_aes [of "kw_plain False (b_mem key_data)"] len assms(10)
    by (auto simp: kw_wrapped_length_def TC_AES_KW_WRAPPED_BYTES_def tc_aes_kw_wrap_args_ok_def
        tc_aes_kw_length_ok_def TC_AES_KW_SEMIBLOCK_def split: if_splits)
  have "length (w_mem wrapped) = b_length key_data + 8"
    using assms(8,10,11) by (auto simp: tc_aes_kw_wrap_args_ok_def buffer_wf_def split: if_splits)
  then have wrap: "TC_AES_KW_wrap dyn e at kek key_data wrapped = (TC_OK, wrapped\<lparr>w_mem := ?c\<rparr>)"
    using kw_wrap_eq [OF assms(1,2,3,4,8,10,7)] assms(10)
    by (simp add: TC_AES_KW_wrap_def kw_wrapped_length_def TC_AES_KW_WRAPPED_BYTES_def)
  have args: "tc_aes_kw_unwrap_args_ok dyn e kek ?w out False"
    using assms(10-13)
    by (auto simp: tc_aes_kw_unwrap_args_ok_def tc_aes_kw_wrap_args_ok_def tc_aes_kw_length_ok_def
        TC_AES_KW_SEMIBLOCK_def TC_AES_KW_MAX_KEY_DATA_BYTES_def TC_AES_KW_MAX_WRAPPED_BYTES_def split: if_splits)
  have wf: "bytes_wf ?w" and lo: "length (w_mem out) = b_length key_data"
    using lc assms(9,11-13) by (simp_all add: bytes_wf_def buffer_wf_def)
  have isw: "kw_is_wrapped False (b_mem kek) (b_mem key_data) (b_mem ?w)"
    using lc len by (simp add: kw_is_wrapped_def kw_wrapped_length_def TC_AES_KW_WRAPPED_BYTES_def)
  have ar: "kw_area False (b_mem key_data) @ drop (b_length ?w - 8) (w_mem out) = b_mem key_data"
    using lo assms(11) by (simp add: kw_area_def kw_plain_def)
  have "tc_aes_kw_unwrap dyn e at a_at icv_at kek ?w (w_mem out) \<lparr>o_addr = NULL, o_size = sizeof_size_t, o_val = 0\<rparr> =
      (TC_OK, b_mem key_data, \<lparr>o_addr = NULL, o_size = sizeof_size_t, o_val = 0\<rparr>)"
    using kw_unwrap_result(1) [OF assms(1,2,4,7,5,6) args wf assms(9) _ isw,
        of "\<lparr>o_addr = NULL, o_size = sizeof_size_t, o_val = 0\<rparr>"]
    unfolding ar by simp
  then have "TC_AES_KW_unwrap dyn e at a_at icv_at kek ?w out = (TC_OK, out\<lparr>w_mem := b_mem key_data\<rparr>)"
    using args by (simp add: TC_AES_KW_unwrap_def)
  with wrap show ?thesis by (simp add: kw_plain_def)
qed

theorem kw_round_trip_witness:
  "\<exists>w'. TC_AES_KW_wrap False ex_env 4096 (ex_span 8192 16) (ex_span 8300 16) (ex_buf 9000 24) = (TC_OK, w') \<and>
     TC_AES_KW_unwrap False ex_env 4096 5000 5100 (ex_span 8192 16)
       \<lparr>b_data = w_data w', b_length = w_capacity w', b_mem = w_mem w'\<rparr> (ex_buf 9500 16) =
       (TC_OK, (ex_buf 9500 16)\<lparr>w_mem := replicate 16 0\<rparr>)"
proof -
  have "tc_aes_kw_wrap_args_ok False ex_env (ex_span 8192 16) (ex_span 8300 16) (ex_buf 9000 24) False"
    by (simp add: tc_aes_kw_wrap_args_ok_def tc_aes_kw_length_ok_def TC_AES_KW_SEMIBLOCK_def
        TC_AES_KW_MAX_KEY_DATA_BYTES_def TC_AES_KW_WRAPPED_BYTES_def SIZE_MAX_def)
  from kw_round_trip [OF _ _ _ _ _ _ _ _ _ this, of 4096 5000 5100 "ex_buf 9500 16"] show ?thesis by auto
qed

text \<open>C4: Unwrapping with padding accepts exactly the wrapped strings: if the input is the SP 800-38F wrapping of
  some key data, \<^verbatim>\<open>TC_AES_KWP_unwrap\<close> returns that key data followed by its zero padding and stores its
  length; for every other input it reports a mismatch, leaves the length unchanged and wipes the whole
  output area.\<close>

theorem kwp_unwrap_accepts_exactly_wrapped:
  assumes "aes_env_wf e" "bytes_wf kek" "at \<noteq> NULL" "a_at \<noteq> NULL" "icv_at \<noteq> NULL" "kek_setup_ok dyn e at kek"
    "bytes_wf wrapped" "buffer_wf key_data" "o_addr lenp \<noteq> NULL"
    "tc_aes_kw_unwrap_args_ok dyn e kek wrapped key_data True"
    "tc_internal_ranges_disjoint (o_addr lenp) (o_size lenp) (w_data key_data) (b_length wrapped - 8)"
  defines "n \<equiv> b_length wrapped - 8"
  defines "out \<equiv> \<lambda>m. key_data\<lparr>w_mem := m @ drop n (w_mem key_data)\<rparr>"
  shows "(\<exists>p. kw_is_wrapped True (b_mem kek) p (b_mem wrapped) \<and>
            TC_AES_KWP_unwrap dyn e at a_at icv_at kek wrapped key_data lenp =
              (TC_OK, out (p @ replicate (n - length p) 0), lenp\<lparr>o_val := length p\<rparr>)) \<or>
         (\<nexists>p. kw_is_wrapped True (b_mem kek) p (b_mem wrapped)) \<and>
            TC_AES_KWP_unwrap dyn e at a_at icv_at kek wrapped key_data lenp =
              (TC_MISMATCH, out (replicate n 0), lenp)"
proof -
  have lw: "length (b_mem wrapped) = b_length wrapped" using kw_unwrap_facts(2) [OF assms(10,7,8)] .
  have eq: "TC_AES_KWP_unwrap dyn e at a_at icv_at kek wrapped key_data lenp =
      (case tc_aes_kw_unwrap dyn e at a_at icv_at kek wrapped (w_mem key_data) lenp
       of (status, m, l) \<Rightarrow> (status, key_data\<lparr>w_mem := m\<rparr>, l))"
    using assms(9-11) by (simp add: TC_AES_KWP_unwrap_def TC_AES_KW_SEMIBLOCK_def)
  note r = kw_unwrap_result [OF assms(1-3,6,4,5,10,7,8), of lenp, simplified assms(9), simplified]
  show ?thesis
  proof (cases "\<exists>p. kw_is_wrapped True (b_mem kek) p (b_mem wrapped)")
    case True
    then obtain p where p: "kw_is_wrapped True (b_mem kek) p (b_mem wrapped)" by blast
    then have "kw_area True p = p @ replicate (n - length p) 0"
      by (simp add: kw_area_def kw_plain_def kw_is_wrapped_def kw_wrapped_length_def n_def lw)
    with r(1) [OF p] p show ?thesis by (auto simp: eq out_def n_def)
  next
    case False
    with r(2) show ?thesis by (simp add: eq out_def n_def)
  qed
qed

definition ex_wrapped :: TC_bytes where
  "ex_wrapped = \<lparr>b_data = 9000, b_length = 16, b_mem = kw_W (fips_aes (replicate 16 0)) (kw_plain True [1, 2, 3])\<rparr>"

theorem kwp_unwrap_accepts_exactly_wrapped_witness:
  "\<exists>p. TC_AES_KWP_unwrap True ex_env 4096 5000 5100 (ex_span 8192 16) ex_wrapped (ex_buf 9500 8)
         \<lparr>o_addr = 6000, o_size = 8, o_val = 0\<rparr> =
       (TC_OK, (ex_buf 9500 8)\<lparr>w_mem := p @ replicate (8 - length p) 0\<rparr>,
        \<lparr>o_addr = 6000, o_size = 8, o_val = length p\<rparr>)"
proof -
  have l: "length (b_mem ex_wrapped) = 16"
    by (simp add: ex_wrapped_def kw_W_def kw_wrapped_length_def TC_AES_KWP_WRAPPED_BYTES_def)
  then have wf: "bytes_wf ex_wrapped" by (auto simp: bytes_wf_def ex_wrapped_def)
  have w: "kw_is_wrapped True (replicate 16 0) [1, 2, 3] (b_mem ex_wrapped)"
    using l by (simp add: kw_is_wrapped_def ex_wrapped_def kw_wrapped_length_def TC_AES_KWP_WRAPPED_BYTES_def)
  have args: "tc_aes_kw_unwrap_args_ok True ex_env (ex_span 8192 16) ex_wrapped (ex_buf 9500 8) True"
    by (simp add: tc_aes_kw_unwrap_args_ok_def tc_aes_kw_length_ok_def TC_AES_KW_SEMIBLOCK_def
        TC_AES_KWP_MAX_WRAPPED_BYTES_def ex_wrapped_def)
  have "tc_internal_ranges_disjoint 6000 8 9500 8" by (simp add: tc_internal_ranges_disjoint_def)
  with kwp_unwrap_accepts_exactly_wrapped [OF _ _ _ _ _ _ wf _ _ args, of 4096 5000 5100
      "\<lparr>o_addr = 6000, o_size = 8, o_val = 0\<rparr>"] w
  show ?thesis by (auto simp: ex_wrapped_def)
qed

section \<open>Message authentication\<close>

text \<open>The one-shot CMAC writes the leftmost bytes of the SP 800-38B CMAC of the message, refuses tag lengths
  outside the policy, and verification accepts a tag exactly when it is the prefix of that CMAC.\<close>

theorem cmac_oneshot_is_sp800_38b:
  assumes "aes_env_wf e" "bytes_wf k" "bytes_wf msg" "bytes_wf expected" "buffer_wf tag"
    "at \<noteq> NULL" "tag_at \<noteq> NULL" "key_args_ok e at (sizeof_key_ctx e) k"
    "tc_internal_span_valid (b_data msg) (b_length msg)"
  shows "TC_AES_CMAC MTL e at tag_at k msg tag =
      (if w_data tag \<noteq> NULL \<and> 0 < w_capacity tag \<and> MTL \<le> w_capacity tag \<and> w_capacity tag \<le> 16
       then (TC_OK, tag\<lparr>w_mem := take (w_capacity tag) (aes_cmac (b_mem k) (b_mem msg))\<rparr>) else (TC_ERROR, tag)) \<and>
    TC_AES_CMAC_verify MTL e at tag_at k msg expected =
      (if b_data expected = NULL \<or> b_length expected = 0 \<or> b_length expected < MTL \<or> 16 < b_length expected then TC_ERROR
       else if b_mem expected = take (b_length expected) (aes_cmac (b_mem k) (b_mem msg)) then TC_OK
       else TC_MISMATCH)"
proof -
  have no: "bytes_wf no_bytes" by (simp add: no_bytes_def bytes_wf_def)
  have l: "length (aes_cmac (b_mem k) (b_mem msg)) = 16" by simp
  note one = cmac_oneshot_public(1) [OF assms(1-3) no assms(6-8), of MTL tag False]
  note ver = cmac_oneshot_public(2) [OF assms(1-4) assms(6-8), of MTL no_buffer False]
  have "TC_AES_CMAC MTL e at tag_at k msg tag =
      (if w_data tag \<noteq> NULL \<and> 0 < w_capacity tag \<and> MTL \<le> w_capacity tag \<and> w_capacity tag \<le> 16
       then (TC_OK, tag\<lparr>w_mem := take (w_capacity tag) (aes_cmac (b_mem k) (b_mem msg))\<rparr>) else (TC_ERROR, tag))"
    using one assms(5,9) l
    by (auto simp: TC_AES_CMAC_def tc_internal_tag_length_allowed_def buffer_wf_def memcpy_at_def split: if_splits)
  moreover have "TC_AES_CMAC_verify MTL e at tag_at k msg expected =
      (if b_data expected = NULL \<or> b_length expected = 0 \<or> b_length expected < MTL \<or> 16 < b_length expected then TC_ERROR
       else if b_mem expected = take (b_length expected) (aes_cmac (b_mem k) (b_mem msg)) then TC_OK
       else TC_MISMATCH)"
    using ver assms(9) by (auto simp: TC_AES_CMAC_verify_def tc_internal_tag_length_allowed_def split: if_splits)
  ultimately show ?thesis by blast
qed

text \<open>A sequence of update calls that stops at the first refusal.\<close>

fun cmac_feed :: "aes_env \<Rightarrow> TC_AES_CMAC_ctx obj \<Rightarrow> TC_bytes list \<Rightarrow> TC_status \<times> TC_AES_CMAC_ctx obj" where
  "cmac_feed e ctx [] = (TC_OK, ctx)"
| "cmac_feed e ctx (d # ds) =
     (case TC_AES_CMAC_update e ctx d of (status, ctx') \<Rightarrow>
        if status \<noteq> TC_OK then (status, ctx') else cmac_feed e ctx' ds)"

lemma cmac_feed_at:
  assumes "cmac_at e k msg (o_val ctx)"
    "list_all (\<lambda>d. tc_block_mode_args (o_addr ctx) (o_size ctx) (b_data d) (b_length d) 1) ds"
  shows "\<exists>c. cmac_feed e ctx ds = (TC_OK, ctx\<lparr>o_val := c\<rparr>) \<and> cmac_at e k (msg @ concat (map b_mem ds)) c"
  using assms
proof (induction ds arbitrary: ctx msg)
  case Nil
  then show ?case by (intro exI [of _ "o_val ctx"]) simp
next
  case (Cons d ds)
  from cmac_update_at [OF Cons.prems(1), of d] Cons.prems(2) obtain c
    where c: "TC_AES_CMAC_update e ctx d = (TC_OK, ctx\<lparr>o_val := c\<rparr>)" "cmac_at e k (msg @ b_mem d) c" by auto
  from Cons.IH [of "msg @ b_mem d" "ctx\<lparr>o_val := c\<rparr>"] c Cons.prems(2) show ?case by auto
qed

text \<open>C11: Streaming CMAC does not depend on how the message is cut: after \<^verbatim>\<open>TC_AES_CMAC_init\<close> and any sequence of
  updates, \<^verbatim>\<open>TC_AES_CMAC_final\<close> writes the SP 800-38B CMAC of the concatenated message and clears the context.\<close>

theorem cmac_streaming:
  assumes "aes_env_wf e" "bytes_wf k" "o_addr ctx \<noteq> NULL" "sizeof_key_ctx e \<le> o_size ctx"
    "key_args_ok e (o_addr ctx) (o_size ctx) k"
    "list_all (\<lambda>d. tc_block_mode_args (o_addr ctx) (o_size ctx) (b_data d) (b_length d) 1) ds"
    "buffer_wf tag" "w_capacity tag = 16" "tc_block_mode_args (o_addr ctx) (o_size ctx) (w_data tag) 16 1"
  shows "\<exists>c1 c2. TC_AES_CMAC_init e ctx k = (TC_OK, c1) \<and> cmac_feed e c1 ds = (TC_OK, c2) \<and>
           TC_AES_CMAC_final e c2 tag =
             (TC_OK, ctx\<lparr>o_val := cmac_ctx_zero e\<rparr>, tag\<lparr>w_mem := aes_cmac (b_mem k) (concat (map b_mem ds))\<rparr>)"
proof -
  from cmac_init_at [OF assms(1-5)] obtain c
    where c: "TC_AES_CMAC_init e ctx k = (TC_OK, ctx\<lparr>o_val := c\<rparr>)" "cmac_at e (b_mem k) [] c" by blast
  from cmac_feed_at [of e "b_mem k" "[]" "ctx\<lparr>o_val := c\<rparr>" ds] c(2) assms(6) obtain c2
    where c2: "cmac_feed e (ctx\<lparr>o_val := c\<rparr>) ds = (TC_OK, ctx\<lparr>o_val := c2\<rparr>)"
      "cmac_at e (b_mem k) (concat (map b_mem ds)) c2" by auto
  have "w_data tag \<noteq> NULL" using assms(9) by (auto simp: tc_block_mode_args_def tc_internal_span_valid_def)
  then have "drop 16 (w_mem tag) = []" using assms(7,8) by (simp add: buffer_wf_def)
  with cmac_final_at [of e "b_mem k" _ "ctx\<lparr>o_val := c2\<rparr>" tag] c c2 assms(7-9) show ?thesis by auto
qed

theorem cmac_streaming_witness:
  "\<exists>c1 c2 c3. TC_AES_CMAC_init ex_env \<lparr>o_addr = 4096, o_size = 300, o_val = cmac_ctx_zero ex_env\<rparr> (ex_span 8192 16) = (TC_OK, c1) \<and>
     cmac_feed ex_env c1 [ex_span 8300 7, ex_span 8400 0, ex_span 8500 30] = (TC_OK, c2) \<and>
     TC_AES_CMAC_final ex_env c2 (ex_buf 9000 16) =
       (TC_OK, c3, (ex_buf 9000 16)\<lparr>w_mem := aes_cmac (replicate 16 0) (replicate 37 0)\<rparr>)"
  using cmac_streaming [of ex_env "ex_span 8192 16"
      "\<lparr>o_addr = 4096, o_size = 300, o_val = cmac_ctx_zero ex_env\<rparr>"
      "[ex_span 8300 7, ex_span 8400 0, ex_span 8500 30]" "ex_buf 9000 16"]
  by (fastforce simp flip: replicate_add)
end
