(* ===== verification/AES_EAX.thy ===== *)
theory AES_EAX
  imports AES_AEAD
begin

text \<open>
  AES-EAX and EAX' (ANSI C12.22), \<^verbatim>\<open>src/src/aes_eax.c\<close>. The lemmas show that both compute the composition of
  OMAC and counter mode their definitions give, that a decryption returns the text exactly for the genuine tag, and
  that any other tag wipes the output.
\<close>

section \<open>Constants, OMAC and counter mode\<close>

definition tc_aes_eax_constants ::
  "aes_env \<Rightarrow> TC_AES_key_ctx \<Rightarrow> bool \<Rightarrow> u8 list \<Rightarrow> u8 list \<Rightarrow> TC_status \<times> u8 list \<times> u8 list" where
  "tc_aes_eax_constants e aes prime d q = tc_mac_derive_subkeys (tc_aes_block_cipher (aead_block_key e aes)) 0x87 prime d q"

text \<open>The prefix is a local array; only its bytes are read.\<close>

definition tc_aes_eax_cmac ::
  "aes_env \<Rightarrow> TC_AES_key_ctx \<Rightarrow> u8 list option \<Rightarrow> int \<Rightarrow> TC_bytes \<Rightarrow> u8 list \<Rightarrow> u8 list \<Rightarrow> u8 list \<Rightarrow> TC_status \<times> u8 list" where
  "tc_aes_eax_cmac e aes initial domain data complete_subkey partial_subkey result =
     (let prefix = (replicate TC_AES_BLOCKLEN 0)[TC_AES_BLOCKLEN - 1 := of_int domain];
          parts = [\<lparr>b_data = NULL, b_length = TC_AES_BLOCKLEN, b_mem = prefix\<rparr>, data];
          cipher = tc_aes_block_cipher (aead_block_key e aes)
      in if domain \<ge> 0
         then tc_mac_cmac_parts cipher None parts 2 complete_subkey partial_subkey result
         else tc_mac_cmac_parts cipher initial (drop 1 parts) 1 complete_subkey partial_subkey result)"

definition tc_aes_eax_ctr_xor ::
  "aes_env \<Rightarrow> TC_AES_key_ctx \<Rightarrow> u8 list \<Rightarrow> u8 list \<Rightarrow> u8 list \<Rightarrow> nat \<Rightarrow> bool \<Rightarrow> TC_status \<times> u8 list" where
  "tc_aes_eax_ctr_xor e aes initial input output len prime =
     tc_aes_mac_ctr_xor e (kc_round_key aes) initial input output len
       \<lparr>first_clear_bit = 1, second_clear_bit = 3, enabled = (if prime then 1 else 0)\<rparr>"

section \<open>EAX\<close>

text \<open>
  A pointer to a tag is the null pointer in a span or buffer when it is not set. \<open>at\<close> and \<open>tag_at\<close> are the stack
  addresses of the key schedule and of \<^verbatim>\<open>st.full_tag\<close>; the other members of \<^verbatim>\<open>st\<close> are written before they are read. The
  result is the status, the text output and the tag output.
\<close>

definition tc_aes_eax_crypt ::
  "aes_env \<Rightarrow> addr \<Rightarrow> addr \<Rightarrow> TC_bytes \<Rightarrow> TC_bytes \<Rightarrow> TC_bytes \<Rightarrow> TC_bytes \<Rightarrow> TC_buffer \<Rightarrow> TC_bytes \<Rightarrow> TC_buffer \<Rightarrow> nat \<Rightarrow>
   TC_status \<times> TC_buffer \<times> TC_buffer" where
  "tc_aes_eax_crypt e at tag_at k nonce aad input output expected_tag output_tag tag_len =
     (let backwards = (b_data expected_tag \<noteq> NULL); n = b_length input; block = replicate TC_AES_BLOCKLEN 0;
          failed = (TC_ERROR, aead_done TC_ERROR output n, output_tag)
      in if b_data k = NULL \<or> \<not> tc_internal_span_valid (b_data nonce) (b_length nonce) \<or>
            \<not> tc_internal_span_valid (b_data aad) (b_length aad) \<or> \<not> tc_aes_text_ok input output \<or>
            (b_data expected_tag = NULL \<and> w_data output_tag = NULL) \<or> tag_len = 0 \<or> tag_len > TC_AES_BLOCKLEN \<or>
            \<not> tc_internal_ranges_disjoint (w_data output) n
                (if backwards then b_data expected_tag else w_data output_tag) tag_len
         then (TC_ERROR, output, output_tag)
         else case aead_key_init e at k of (status, aes) \<Rightarrow>
           if status \<noteq> TC_OK then failed
           else case tc_aes_eax_constants e (o_val aes) False block block of (status, d, q) \<Rightarrow>
           if status \<noteq> TC_OK then failed
           else case tc_aes_eax_cmac e (o_val aes) None 0 nonce d q block of (status, nonce_mac) \<Rightarrow>
           if status \<noteq> TC_OK then failed
           else case tc_aes_eax_cmac e (o_val aes) None 1 aad d q block of (status, header_mac) \<Rightarrow>
           if status \<noteq> TC_OK then failed
           else if backwards
           then case tc_aes_eax_cmac e (o_val aes) None 2 input d q block of (status, message_mac) \<Rightarrow>
             if status \<noteq> TC_OK then failed
             else let full_tag = map (\<lambda>i. nonce_mac ! i XOR header_mac ! i XOR message_mac ! i) [0..<TC_AES_BLOCKLEN];
                      status = TC_ct_equal \<lparr>b_data = tag_at, b_length = tag_len, b_mem = take tag_len full_tag\<rparr>
                                 \<lparr>b_data = b_data expected_tag, b_length = tag_len, b_mem = take tag_len (b_mem expected_tag)\<rparr>
                  in if status = TC_OK
                     then case tc_aes_eax_ctr_xor e (o_val aes) nonce_mac (b_mem input) (w_mem output) n False of (status, m) \<Rightarrow>
                            (status, aead_done status (output\<lparr>w_mem := m\<rparr>) n, output_tag)
                     else (status, aead_done status output n, output_tag)
           else case tc_aes_eax_ctr_xor e (o_val aes) nonce_mac (b_mem input) (w_mem output) n False of (status, m) \<Rightarrow>
             let output = output\<lparr>w_mem := m\<rparr>
             in if status \<noteq> TC_OK then (TC_ERROR, aead_done TC_ERROR output n, output_tag)
                else case tc_aes_eax_cmac e (o_val aes) None 2
                            \<lparr>b_data = w_data output, b_length = n, b_mem = take n (w_mem output)\<rparr> d q block of (status, message_mac) \<Rightarrow>
                  if status \<noteq> TC_OK then (TC_ERROR, aead_done TC_ERROR output n, output_tag)
                  else let full_tag = map (\<lambda>i. nonce_mac ! i XOR header_mac ! i XOR message_mac ! i) [0..<TC_AES_BLOCKLEN]
                       in (TC_OK, output, output_tag\<lparr>w_mem := memcpy_at (w_mem output_tag) 0 (take tag_len full_tag)\<rparr>))"

definition tc_aes_eax_encrypt_with_policy ::
  "nat \<Rightarrow> aes_env \<Rightarrow> addr \<Rightarrow> addr \<Rightarrow> TC_bytes \<Rightarrow> TC_bytes \<Rightarrow> TC_bytes \<Rightarrow> TC_bytes \<Rightarrow> TC_buffer \<Rightarrow> TC_buffer \<Rightarrow> bool \<Rightarrow>
   TC_status \<times> TC_buffer \<times> TC_buffer" where
  "tc_aes_eax_encrypt_with_policy MIN_TAG_LEN e at tag_at k nonce aad plaintext ciphertext tag short_tag =
     (if \<not> tc_internal_tag_length_allowed MIN_TAG_LEN (w_capacity tag) TC_AES_BLOCKLEN short_tag then (TC_ERROR, ciphertext, tag)
      else tc_aes_eax_crypt e at tag_at k nonce aad plaintext ciphertext no_bytes tag (w_capacity tag))"

definition tc_aes_eax_decrypt_with_policy ::
  "nat \<Rightarrow> aes_env \<Rightarrow> addr \<Rightarrow> addr \<Rightarrow> TC_bytes \<Rightarrow> TC_bytes \<Rightarrow> TC_bytes \<Rightarrow> TC_bytes \<Rightarrow> TC_bytes \<Rightarrow> TC_buffer \<Rightarrow> bool \<Rightarrow>
   TC_status \<times> TC_buffer" where
  "tc_aes_eax_decrypt_with_policy MIN_TAG_LEN e at tag_at k nonce aad ciphertext tag plaintext short_tag =
     (if b_data tag = NULL \<or> \<not> tc_internal_tag_length_allowed MIN_TAG_LEN (b_length tag) TC_AES_BLOCKLEN short_tag then (TC_ERROR, plaintext)
      else case tc_aes_eax_crypt e at tag_at k nonce aad ciphertext plaintext tag no_buffer (b_length tag)
           of (status, plaintext, _) \<Rightarrow> (status, plaintext))"

definition TC_AES_EAX_encrypt ::
  "nat \<Rightarrow> aes_env \<Rightarrow> addr \<Rightarrow> addr \<Rightarrow> TC_bytes \<Rightarrow> TC_bytes \<Rightarrow> TC_bytes \<Rightarrow> TC_bytes \<Rightarrow> TC_buffer \<Rightarrow> TC_buffer \<Rightarrow>
   TC_status \<times> TC_buffer \<times> TC_buffer" where
  "TC_AES_EAX_encrypt MIN_TAG_LEN e at tag_at k nonce aad plaintext ciphertext tag =
     (if b_length k \<noteq> TC_AES_KEYLEN e then (TC_ERROR, ciphertext, tag)
      else tc_aes_eax_encrypt_with_policy MIN_TAG_LEN e at tag_at k nonce aad plaintext ciphertext tag False)"

definition TC_AES_EAX_decrypt ::
  "nat \<Rightarrow> aes_env \<Rightarrow> addr \<Rightarrow> addr \<Rightarrow> TC_bytes \<Rightarrow> TC_bytes \<Rightarrow> TC_bytes \<Rightarrow> TC_bytes \<Rightarrow> TC_bytes \<Rightarrow> TC_buffer \<Rightarrow> TC_status \<times> TC_buffer" where
  "TC_AES_EAX_decrypt MIN_TAG_LEN e at tag_at k nonce aad ciphertext tag plaintext =
     (if b_length k \<noteq> TC_AES_KEYLEN e then (TC_ERROR, plaintext)
      else tc_aes_eax_decrypt_with_policy MIN_TAG_LEN e at tag_at k nonce aad ciphertext tag plaintext False)"

definition TC_AES_EAX_encrypt_short_tag ::
  "nat \<Rightarrow> aes_env \<Rightarrow> addr \<Rightarrow> addr \<Rightarrow> TC_bytes \<Rightarrow> TC_bytes \<Rightarrow> TC_bytes \<Rightarrow> TC_bytes \<Rightarrow> TC_buffer \<Rightarrow> TC_buffer \<Rightarrow>
   TC_status \<times> TC_buffer \<times> TC_buffer" where
  "TC_AES_EAX_encrypt_short_tag MIN_TAG_LEN e at tag_at k nonce aad plaintext ciphertext tag =
     (if b_length k \<noteq> TC_AES_KEYLEN e then (TC_ERROR, ciphertext, tag)
      else tc_aes_eax_encrypt_with_policy MIN_TAG_LEN e at tag_at k nonce aad plaintext ciphertext tag True)"

definition TC_AES_EAX_decrypt_short_tag ::
  "nat \<Rightarrow> aes_env \<Rightarrow> addr \<Rightarrow> addr \<Rightarrow> TC_bytes \<Rightarrow> TC_bytes \<Rightarrow> TC_bytes \<Rightarrow> TC_bytes \<Rightarrow> TC_bytes \<Rightarrow> TC_buffer \<Rightarrow> TC_status \<times> TC_buffer" where
  "TC_AES_EAX_decrypt_short_tag MIN_TAG_LEN e at tag_at k nonce aad ciphertext tag plaintext =
     (if b_length k \<noteq> TC_AES_KEYLEN e then (TC_ERROR, plaintext)
      else tc_aes_eax_decrypt_with_policy MIN_TAG_LEN e at tag_at k nonce aad ciphertext tag plaintext True)"

section \<open>EAX'\<close>

definition TC_AES_EAX_PRIME_TAG_LEN :: nat where "TC_AES_EAX_PRIME_TAG_LEN = 4"

definition tc_aes_eax_prime_crypt ::
  "aes_env \<Rightarrow> addr \<Rightarrow> addr \<Rightarrow> TC_bytes \<Rightarrow> TC_bytes \<Rightarrow> TC_bytes \<Rightarrow> TC_buffer \<Rightarrow> TC_bytes \<Rightarrow> TC_buffer \<Rightarrow>
   TC_status \<times> TC_buffer \<times> TC_buffer" where
  "tc_aes_eax_prime_crypt e at tag_at k cleartext input output expected_tag output_tag =
     (let backwards = (b_data expected_tag \<noteq> NULL); n = b_length input; block = replicate TC_AES_BLOCKLEN 0;
          failed = (TC_ERROR, aead_done TC_ERROR output n, output_tag)
      in if b_data k = NULL \<or> \<not> tc_internal_span_valid (b_data cleartext) (b_length cleartext) \<or>
            \<not> tc_aes_text_ok input output \<or> (b_data expected_tag = NULL \<and> w_data output_tag = NULL) \<or>
            \<not> tc_internal_ranges_disjoint (w_data output) n
                (if backwards then b_data expected_tag else w_data output_tag) TC_AES_EAX_PRIME_TAG_LEN
         then (TC_ERROR, output, output_tag)
         else case aead_key_init e at k of (status, aes) \<Rightarrow>
           if status \<noteq> TC_OK then failed
           else case tc_aes_eax_constants e (o_val aes) True block block of (status, d, q) \<Rightarrow>
           if status \<noteq> TC_OK then failed
           else case tc_aes_eax_cmac e (o_val aes) (Some d) (-1) cleartext d q block of (status, nonce_mac) \<Rightarrow>
           if status \<noteq> TC_OK then failed
           else if backwards
           then case tc_aes_eax_cmac e (o_val aes) (Some q) (-1) input d q block of (status, message_mac) \<Rightarrow>
             if status \<noteq> TC_OK then failed
             else let full_tag = map (\<lambda>i. nonce_mac ! i XOR message_mac ! i) [0..<TC_AES_BLOCKLEN];
                      reversed = map (\<lambda>i. full_tag ! (TC_AES_BLOCKLEN - 1 - i)) [0..<TC_AES_EAX_PRIME_TAG_LEN];
                      status = TC_ct_equal \<lparr>b_data = tag_at, b_length = TC_AES_EAX_PRIME_TAG_LEN, b_mem = reversed\<rparr>
                                 \<lparr>b_data = b_data expected_tag, b_length = TC_AES_EAX_PRIME_TAG_LEN,
                                  b_mem = take TC_AES_EAX_PRIME_TAG_LEN (b_mem expected_tag)\<rparr>
                  in if status = TC_OK
                     then case tc_aes_eax_ctr_xor e (o_val aes) nonce_mac (b_mem input) (w_mem output) n True of (status, m) \<Rightarrow>
                            (status, aead_done status (output\<lparr>w_mem := m\<rparr>) n, output_tag)
                     else (status, aead_done status output n, output_tag)
           else case tc_aes_eax_ctr_xor e (o_val aes) nonce_mac (b_mem input) (w_mem output) n True of (status, m) \<Rightarrow>
             let output = output\<lparr>w_mem := m\<rparr>
             in if status \<noteq> TC_OK then (TC_ERROR, aead_done TC_ERROR output n, output_tag)
                else case tc_aes_eax_cmac e (o_val aes) (Some q) (-1)
                            \<lparr>b_data = w_data output, b_length = n, b_mem = take n (w_mem output)\<rparr> d q block of (status, message_mac) \<Rightarrow>
                  if status \<noteq> TC_OK then (TC_ERROR, aead_done TC_ERROR output n, output_tag)
                  else let full_tag = map (\<lambda>i. nonce_mac ! i XOR message_mac ! i) [0..<TC_AES_BLOCKLEN]
                       in (TC_OK, output,
                           output_tag\<lparr>w_mem := fold (\<lambda>i m. m[i := full_tag ! (TC_AES_BLOCKLEN - 1 - i)])
                             [0..<TC_AES_EAX_PRIME_TAG_LEN] (w_mem output_tag)\<rparr>))"

definition TC_AES_EAX_PRIME_encrypt ::
  "aes_env \<Rightarrow> addr \<Rightarrow> addr \<Rightarrow> TC_bytes \<Rightarrow> TC_bytes \<Rightarrow> TC_bytes \<Rightarrow> TC_buffer \<Rightarrow> TC_buffer \<Rightarrow> TC_status \<times> TC_buffer \<times> TC_buffer" where
  "TC_AES_EAX_PRIME_encrypt e at tag_at k cleartext plaintext ciphertext tag =
     (if b_length k \<noteq> TC_AES_KEYLEN e \<or> w_capacity tag < TC_AES_EAX_PRIME_TAG_LEN then (TC_ERROR, ciphertext, tag)
      else tc_aes_eax_prime_crypt e at tag_at k cleartext plaintext ciphertext no_bytes tag)"

definition TC_AES_EAX_PRIME_decrypt ::
  "aes_env \<Rightarrow> addr \<Rightarrow> addr \<Rightarrow> TC_bytes \<Rightarrow> TC_bytes \<Rightarrow> TC_bytes \<Rightarrow> TC_bytes \<Rightarrow> TC_buffer \<Rightarrow> TC_status \<times> TC_buffer" where
  "TC_AES_EAX_PRIME_decrypt e at tag_at k cleartext ciphertext tag plaintext =
     (if b_length k \<noteq> TC_AES_KEYLEN e \<or> b_data tag = NULL \<or> b_length tag \<noteq> TC_AES_EAX_PRIME_TAG_LEN then (TC_ERROR, plaintext)
      else case tc_aes_eax_prime_crypt e at tag_at k cleartext ciphertext plaintext tag no_buffer
           of (status, plaintext, _) \<Rightarrow> (status, plaintext))"

section \<open>EAX and EAX' as their definitions give them\<close>

definition eax_omac :: "u8 list \<Rightarrow> u8 \<Rightarrow> u8 list \<Rightarrow> u8 list" where
  "eax_omac k t m = aes_cmac k (replicate 15 0 @ t # m)"

definition eax_text :: "u8 list \<Rightarrow> u8 list \<Rightarrow> u8 list \<Rightarrow> u8 list" where
  "eax_text k nonce text = add_stream (ctr_stream (fips_aes k) 16 (be_val (eax_omac k 0 nonce))) 0 text"

definition eax_tag :: "u8 list \<Rightarrow> u8 list \<Rightarrow> u8 list \<Rightarrow> u8 list \<Rightarrow> u8 list" where
  "eax_tag k nonce aad ciphertext = xorl (eax_omac k 0 nonce) (xorl (eax_omac k 1 aad) (eax_omac k 2 ciphertext))"

text \<open>EAX' has no nonce of its own: the chain starts from a constant, and the doubling is byte-reversed.\<close>

definition prime_d :: "u8 list \<Rightarrow> u8 list" where
  "prime_d k = rev (gf_dbl 16 0x87 (rev (fips_aes k (replicate 16 0))))"

definition prime_q :: "u8 list \<Rightarrow> u8 list" where
  "prime_q k = rev (gf_dbl 16 0x87 (rev (prime_d k)))"

definition prime_cmac :: "u8 list \<Rightarrow> u8 list \<Rightarrow> u8 list \<Rightarrow> u8 list" where
  "prime_cmac k init m = cmac_spec (fips_aes k) 16 init (prime_d k) (prime_q k) m"

definition prime_bits :: tc_aes_mac_ctr_bits where
  "prime_bits = \<lparr>first_clear_bit = 1, second_clear_bit = 3, enabled = 1\<rparr>"

definition prime_text :: "u8 list \<Rightarrow> u8 list \<Rightarrow> u8 list \<Rightarrow> u8 list" where
  "prime_text k cleartext text =
     add_stream (ctr_stream (fips_aes k) 16 (be_val (ctr_cleared prime_bits (prime_cmac k (prime_d k) cleartext)))) 0 text"

definition prime_tag :: "u8 list \<Rightarrow> u8 list \<Rightarrow> u8 list \<Rightarrow> u8 list" where
  "prime_tag k cleartext ciphertext =
     take 4 (rev (xorl (prime_cmac k (prime_d k) cleartext) (prime_cmac k (prime_q k) ciphertext)))"

lemma text_twice [simp]: "eax_text k nonce (eax_text k nonce text) = text" "prime_text k c (prime_text k c text) = text"
  by (simp_all add: eax_text_def prime_text_def add_stream_twice)

lemma length_eax_text [simp]: "length (eax_text k nonce text) = length text" "length (prime_text k c text) = length text"
  by (simp_all add: eax_text_def prime_text_def)

section \<open>The steps on a keyed schedule\<close>

lemma length_eax_omac [simp]: "length (eax_omac k t m) = 16" "length (prime_cmac k init m) = 16" "length (prime_d k) = 16" "length (prime_q k) = 16"
  by (simp_all add: eax_omac_def aes_cmac_def cmac_def cmac_spec_def Let_def prime_cmac_def prime_d_def prime_q_def)

lemma eax_steps:
  assumes "aes_env_wf e" "aes_keyed e k c"
  shows "\<exists>d q. tc_aes_eax_constants e c False (replicate 16 0) (replicate 16 0) = (TC_OK, d, q) \<and>
    (\<forall>domain data. domain \<ge> 0 \<longrightarrow> tc_aes_eax_cmac e c None domain data d q (replicate 16 0) = (TC_OK, eax_omac k (of_int domain) (b_mem data)))"
proof -
  let ?bk = "aead_block_key e c" let ?E = "cipher_fun (tc_aes_block_cipher ?bk)"
  note bk = aead_block_key_for [OF assms]
  obtain d q where s: "aes_mac.cmac_subkeys ?bk 0x87 = (d, q)" by fastforce
  then have dq: "d = gf_dbl 16 0x87 (?E (replicate 16 0))" "q = gf_dbl 16 0x87 d"
    by (auto simp: aes_mac.cmac_subkeys_def Let_def)
  have const: "tc_aes_eax_constants e c False (replicate 16 0) (replicate 16 0) = (TC_OK, d, q)"
    using aes_mac.derive_subkeys_eq [OF block_key_forD(1) [OF bk], of "replicate 16 0" "replicate 16 0" "0x87"] s
    by (simp add: tc_aes_eax_constants_def)
  have pre: "(replicate 16 0)[15 := x] = replicate 15 0 @ [x]" for x :: u8
    by (simp add: list_update_append replicate_append_same [symmetric] numeral_eq_Suc)
  have "tc_aes_eax_cmac e c None domain data d q (replicate 16 0) = (TC_OK, eax_omac k (of_int domain) (b_mem data))" if "domain \<ge> 0" for domain data
  proof -
    let ?p = "\<lparr>b_data = NULL, b_length = 16, b_mem = replicate 15 0 @ [of_int domain]\<rparr>"
    have "cmac_spec ?E 16 (replicate 16 0) d q (replicate 15 0 @ of_int domain # b_mem data) = eax_omac k (of_int domain) (b_mem data)"
      using block_key_cmac [OF bk, of "replicate 15 0 @ of_int domain # b_mem data"] by (simp add: cmac_def Let_def dq eax_omac_def)
    then show ?thesis
      using aes_mac.cmac_parts_eq [OF block_key_forD(1) [OF bk], of d q "replicate 16 0" "[?p, data]"] that dq
      by (simp add: tc_aes_eax_cmac_def TC_AES_BLOCKLEN_def pre Let_def numeral_2_eq_2)
  qed
  with const show ?thesis by blast
qed

lemma prime_steps:
  assumes "aes_env_wf e" "aes_keyed e k c"
  shows "tc_aes_eax_constants e c True (replicate 16 0) (replicate 16 0) = (TC_OK, prime_d k, prime_q k)"
    and "length init = 16 \<Longrightarrow> tc_aes_eax_cmac e c (Some init) (-1) data (prime_d k) (prime_q k) (replicate 16 0) = (TC_OK, prime_cmac k init (b_mem data))"
proof -
  let ?bk = "aead_block_key e c" let ?E = "cipher_fun (tc_aes_block_cipher ?bk)"
  note bk = aead_block_key_for [OF assms]
  have E: "length b = 16 \<Longrightarrow> ?E b = fips_aes k b" for b by (rule block_key_forD(2) [OF bk])
  show "tc_aes_eax_constants e c True (replicate 16 0) (replicate 16 0) = (TC_OK, prime_d k, prime_q k)"
    using aes_mac.derive_reversed_eq [OF block_key_forD(1) [OF bk], of "replicate 16 0" "replicate 16 0" "0x87"]
    by (simp add: tc_aes_eax_constants_def E prime_d_def prime_q_def)
  assume l: "length init = 16"
  have "cmac_spec ?E 16 init (prime_d k) (prime_q k) (b_mem data) = prime_cmac k init (b_mem data)"
    unfolding prime_cmac_def by (rule cmac_spec_cong) (simp_all add: E l)
  then show "tc_aes_eax_cmac e c (Some init) (-1) data (prime_d k) (prime_q k) (replicate 16 0) = (TC_OK, prime_cmac k init (b_mem data))"
    using aes_mac.cmac_parts_from_eq [OF block_key_forD(1) [OF bk], of "prime_d k" "prime_q k" "replicate 16 0" init "[data]"] l
    by (simp add: tc_aes_eax_cmac_def)
qed

section \<open>Whole messages\<close>

lemma xor3_tag:
  assumes "length a = 16" "length b = 16" "length c = 16"
  shows "map (\<lambda>i. a ! i XOR b ! i XOR c ! i) [0..<16] = xorl a (xorl b c)"
  by (rule nth_equalityI) (simp_all add: assms)

text \<open>The argument checks of both directions, for the tag at its address.\<close>

definition eax_args :: "TC_bytes \<Rightarrow> TC_bytes \<Rightarrow> TC_bytes \<Rightarrow> TC_bytes \<Rightarrow> TC_buffer \<Rightarrow> addr \<Rightarrow> nat \<Rightarrow> bool" where
  "eax_args k nonce aad input out tag tag_len \<longleftrightarrow>
     b_data k \<noteq> NULL \<and> tc_internal_span_valid (b_data nonce) (b_length nonce) \<and> tc_internal_span_valid (b_data aad) (b_length aad) \<and>
     tc_aes_text_ok input out \<and> tag \<noteq> NULL \<and> 0 < tag_len \<and> tag_len \<le> 16 \<and>
     tc_internal_ranges_disjoint (w_data out) (b_length input) tag tag_len"

lemma eax_encrypt_core:
  assumes "aes_env_wf e" "bytes_wf k" "at \<noteq> NULL" "key_args_ok e at (sizeof_key_ctx e) k" "bytes_wf input" "buffer_wf out"
    "eax_args k nonce aad input out (w_data tag) tag_len" "b_data expected = NULL"
  defines "c \<equiv> eax_text (b_mem k) (b_mem nonce) (b_mem input)"
  shows "tc_aes_eax_crypt e at tag_at k nonce aad input out expected tag tag_len =
    (TC_OK, out\<lparr>w_mem := c @ drop (b_length input) (w_mem out)\<rparr>,
     tag\<lparr>w_mem := memcpy_at (w_mem tag) 0 (take tag_len (eax_tag (b_mem k) (b_mem nonce) (b_mem aad) c))\<rparr>)"
proof -
  obtain ko where ko: "aead_key_init e at k = (TC_OK, ko)" "aes_keyed e (b_mem k) (o_val ko)"
    using aead_key_keyed [OF assms(1-4)] by blast
  obtain d q where steps: "tc_aes_eax_constants e (o_val ko) False (replicate 16 0) (replicate 16 0) = (TC_OK, d, q)"
    "\<And>domain data. domain \<ge> 0 \<Longrightarrow> tc_aes_eax_cmac e (o_val ko) None domain data d q (replicate 16 0) = (TC_OK, eax_omac (b_mem k) (of_int domain) (b_mem data))"
    using eax_steps [OF assms(1) ko(2)] by blast
  have args: "tc_aes_text_ok input out" using assms(7) by (simp add: eax_args_def)
  note len = text_ok_facts [OF args assms(5,6)]
  have ctr: "tc_aes_eax_ctr_xor e (o_val ko) (eax_omac (b_mem k) 0 (b_mem nonce)) (b_mem input) (w_mem out) (b_length input) False =
      (TC_OK, c @ drop (b_length input) (w_mem out))"
    using mac_ctr_xor_eq [OF assms(1) ko(2), of "b_length input" "b_mem input" "w_mem out" "eax_omac (b_mem k) 0 (b_mem nonce)"
        "\<lparr>first_clear_bit = 1, second_clear_bit = 3, enabled = 0\<rparr>"] len
    by (simp add: tc_aes_eax_ctr_xor_def ctr_cleared_def c_def eax_text_def)
  have lc: "length c = b_length input" using len by (simp add: c_def)
  show ?thesis
    using assms(7,8)
    by (simp add: tc_aes_eax_crypt_def Let_def TC_AES_BLOCKLEN_def eax_args_def ko(1) steps ctr lc xor3_tag eax_tag_def)
qed

lemma eax_decrypt_core:
  assumes "aes_env_wf e" "bytes_wf k" "at \<noteq> NULL" "tag_at \<noteq> NULL" "key_args_ok e at (sizeof_key_ctx e) k" "bytes_wf input" "buffer_wf out"
    "eax_args k nonce aad input out (b_data expected) tag_len" "bytes_wf expected" "tag_len = b_length expected"
  shows "tc_aes_eax_crypt e at tag_at k nonce aad input out expected tag tag_len =
    (if b_mem expected = take tag_len (eax_tag (b_mem k) (b_mem nonce) (b_mem aad) (b_mem input))
     then (TC_OK, out\<lparr>w_mem := eax_text (b_mem k) (b_mem nonce) (b_mem input) @ drop (b_length input) (w_mem out)\<rparr>, tag)
     else (TC_MISMATCH, out\<lparr>w_mem := replicate (b_length input) 0 @ drop (b_length input) (w_mem out)\<rparr>, tag))"
proof -
  obtain ko where ko: "aead_key_init e at k = (TC_OK, ko)" "aes_keyed e (b_mem k) (o_val ko)"
    using aead_key_keyed [OF assms(1-3,5)] by blast
  obtain d q where steps: "tc_aes_eax_constants e (o_val ko) False (replicate 16 0) (replicate 16 0) = (TC_OK, d, q)"
    "\<And>domain data. domain \<ge> 0 \<Longrightarrow> tc_aes_eax_cmac e (o_val ko) None domain data d q (replicate 16 0) = (TC_OK, eax_omac (b_mem k) (of_int domain) (b_mem data))"
    using eax_steps [OF assms(1) ko(2)] by blast
  have args: "tc_aes_text_ok input out" using assms(8) by (simp add: eax_args_def)
  note len = text_ok_facts [OF args assms(6,7)]
  have ctr: "tc_aes_eax_ctr_xor e (o_val ko) (eax_omac (b_mem k) 0 (b_mem nonce)) (b_mem input) (w_mem out) (b_length input) False =
      (TC_OK, eax_text (b_mem k) (b_mem nonce) (b_mem input) @ drop (b_length input) (w_mem out))"
    using mac_ctr_xor_eq [OF assms(1) ko(2), of "b_length input" "b_mem input" "w_mem out" "eax_omac (b_mem k) 0 (b_mem nonce)"
        "\<lparr>first_clear_bit = 1, second_clear_bit = 3, enabled = 0\<rparr>"] len
    by (simp add: tc_aes_eax_ctr_xor_def ctr_cleared_def eax_text_def)
  let ?t = "take tag_len (eax_tag (b_mem k) (b_mem nonce) (b_mem aad) (b_mem input))"
  have lx: "length (b_mem expected) = tag_len" "tag_len \<le> 16" "0 < tag_len" "b_data expected \<noteq> NULL"
    using assms(8-10) by (auto simp: eax_args_def bytes_wf_def)
  have ct: "TC_ct_equal \<lparr>b_data = tag_at, b_length = tag_len, b_mem = ?t\<rparr> \<lparr>b_data = b_data expected, b_length = tag_len, b_mem = take tag_len (b_mem expected)\<rparr> =
      (if b_mem expected = ?t then TC_OK else TC_MISMATCH)"
    using lx assms(4) by (subst TC_ct_equal_valid) (auto simp: bytes_wf_def eax_tag_def)
  note wipe = aead_done_error [OF args assms(7), of TC_MISMATCH]
  show ?thesis
    using assms(8) lx(4) ct wipe
    by (auto simp: tc_aes_eax_crypt_def Let_def TC_AES_BLOCKLEN_def eax_args_def ko(1) steps ctr xor3_tag eax_tag_def)
qed

lemma xor2_tag:
  assumes "length a = 16" "length b = 16"
  shows "map (\<lambda>i. a ! i XOR b ! i) [0..<16] = xorl a b"
  by (rule nth_equalityI) (simp_all add: assms)

lemma reversed_tag:
  assumes "length a = 16" "length b = 16"
  shows "map (\<lambda>i. a ! (15 - i) XOR b ! (15 - i)) [0..<4] = take 4 (rev (xorl a b))"
    and "4 \<le> length m \<Longrightarrow> fold (\<lambda>i m. m[i := a ! (15 - i) XOR b ! (15 - i)]) [0..<4] m = take 4 (rev (xorl a b)) @ drop 4 m"
proof -
  show t: "map (\<lambda>i. a ! (15 - i) XOR b ! (15 - i)) [0..<4] = take 4 (rev (xorl a b))"
    by (rule nth_equalityI) (simp_all add: assms rev_nth)
  assume "4 \<le> length m"
  then show "fold (\<lambda>i m. m[i := a ! (15 - i) XOR b ! (15 - i)]) [0..<4] m = take 4 (rev (xorl a b)) @ drop 4 m"
    using fold_update_upt [of 4 m "\<lambda>i _. a ! (15 - i) XOR b ! (15 - i)"] t by simp
qed

definition prime_args :: "TC_bytes \<Rightarrow> TC_bytes \<Rightarrow> TC_bytes \<Rightarrow> TC_buffer \<Rightarrow> addr \<Rightarrow> bool" where
  "prime_args k cleartext input out tag \<longleftrightarrow>
     b_data k \<noteq> NULL \<and> tc_internal_span_valid (b_data cleartext) (b_length cleartext) \<and> tc_aes_text_ok input out \<and> tag \<noteq> NULL \<and>
     tc_internal_ranges_disjoint (w_data out) (b_length input) tag 4"

lemma prime_ctr:
  assumes "aes_env_wf e" "aes_keyed e k c" "tc_aes_text_ok input out" "bytes_wf input" "buffer_wf out"
  shows "tc_aes_eax_ctr_xor e c (prime_cmac k (prime_d k) clear) (b_mem input) (w_mem out) (b_length input) True =
      (TC_OK, prime_text k clear (b_mem input) @ drop (b_length input) (w_mem out))"
  using mac_ctr_xor_eq [OF assms(1,2), of "b_length input" "b_mem input" "w_mem out" "prime_cmac k (prime_d k) clear" prime_bits]
    text_ok_facts [OF assms(3-5)]
  by (simp add: tc_aes_eax_ctr_xor_def prime_text_def prime_bits_def)

lemma prime_encrypt_core:
  assumes "aes_env_wf e" "bytes_wf k" "at \<noteq> NULL" "key_args_ok e at (sizeof_key_ctx e) k" "bytes_wf input" "buffer_wf out"
    "prime_args k cleartext input out (w_data tag)" "b_data expected = NULL" "4 \<le> length (w_mem tag)"
  defines "c \<equiv> prime_text (b_mem k) (b_mem cleartext) (b_mem input)"
  shows "tc_aes_eax_prime_crypt e at tag_at k cleartext input out expected tag =
    (TC_OK, out\<lparr>w_mem := c @ drop (b_length input) (w_mem out)\<rparr>,
     tag\<lparr>w_mem := prime_tag (b_mem k) (b_mem cleartext) c @ drop 4 (w_mem tag)\<rparr>)"
proof -
  obtain ko where ko: "aead_key_init e at k = (TC_OK, ko)" "aes_keyed e (b_mem k) (o_val ko)"
    using aead_key_keyed [OF assms(1-4)] by blast
  note steps = prime_steps [OF assms(1) ko(2)]
  have args: "tc_aes_text_ok input out" using assms(7) by (simp add: prime_args_def)
  note ctr = prime_ctr [OF assms(1) ko(2) args assms(5,6), of "b_mem cleartext", folded c_def]
  have lc: "length c = b_length input" using text_ok_facts(1) [OF args assms(5,6)] by (simp add: c_def)
  show ?thesis
    using assms(7-9)
    by (simp add: tc_aes_eax_prime_crypt_def Let_def TC_AES_BLOCKLEN_def TC_AES_EAX_PRIME_TAG_LEN_def prime_args_def ko(1) steps ctr lc
        xor2_tag reversed_tag(2) prime_tag_def del: take_rev)
qed

lemma prime_decrypt_core:
  assumes "aes_env_wf e" "bytes_wf k" "at \<noteq> NULL" "tag_at \<noteq> NULL" "key_args_ok e at (sizeof_key_ctx e) k" "bytes_wf input" "buffer_wf out"
    "prime_args k cleartext input out (b_data expected)" "bytes_wf expected" "b_length expected = 4"
  shows "tc_aes_eax_prime_crypt e at tag_at k cleartext input out expected tag =
    (if b_mem expected = prime_tag (b_mem k) (b_mem cleartext) (b_mem input)
     then (TC_OK, out\<lparr>w_mem := prime_text (b_mem k) (b_mem cleartext) (b_mem input) @ drop (b_length input) (w_mem out)\<rparr>, tag)
     else (TC_MISMATCH, out\<lparr>w_mem := replicate (b_length input) 0 @ drop (b_length input) (w_mem out)\<rparr>, tag))"
proof -
  obtain ko where ko: "aead_key_init e at k = (TC_OK, ko)" "aes_keyed e (b_mem k) (o_val ko)"
    using aead_key_keyed [OF assms(1-3,5)] by blast
  note steps = prime_steps [OF assms(1) ko(2)]
  have args: "tc_aes_text_ok input out" using assms(8) by (simp add: prime_args_def)
  note ctr = prime_ctr [OF assms(1) ko(2) args assms(6,7), of "b_mem cleartext"]
  let ?t = "take 4 (rev (xorl (prime_cmac (b_mem k) (prime_d (b_mem k)) (b_mem cleartext)) (prime_cmac (b_mem k) (prime_q (b_mem k)) (b_mem input))))"
  have lx: "length (b_mem expected) = 4" "b_data expected \<noteq> NULL" using assms(8-10) by (auto simp: prime_args_def bytes_wf_def)
  have ct: "TC_ct_equal \<lparr>b_data = tag_at, b_length = 4, b_mem = ?t\<rparr> \<lparr>b_data = b_data expected, b_length = 4, b_mem = take 4 (b_mem expected)\<rparr> =
      (if b_mem expected = ?t then TC_OK else TC_MISMATCH)"
    using lx assms(4) by (subst TC_ct_equal_valid) (auto simp: bytes_wf_def)
  note wipe = aead_done_error [OF args assms(7), of TC_MISMATCH]
  show ?thesis
    using assms(8) lx(2) ct wipe
    by (auto simp: tc_aes_eax_prime_crypt_def Let_def TC_AES_BLOCKLEN_def TC_AES_EAX_PRIME_TAG_LEN_def prime_args_def ko(1) steps ctr
        xor2_tag reversed_tag(1) prime_tag_def simp del: take_rev)
qed

end
