(* ===== verification/AES_SIV.thy ===== *)
theory AES_SIV
  imports AES_AEAD
begin

text \<open>
  AES-SIV, \<^verbatim>\<open>src/src/aes_siv.c\<close>: the string-to-vector function S2V over CMAC and the deterministic
  encryption of RFC 5297. The lemmas show that both directions compute the functions of the RFC and that a
  decryption whose synthetic IV does not match leaves no plaintext behind.
\<close>

section \<open>S2V\<close>

definition tc_aes_siv_cmac ::
  "aes_env \<Rightarrow> TC_AES_key_ctx \<Rightarrow> u8 list \<Rightarrow> u8 list \<Rightarrow> TC_bytes list \<Rightarrow> nat \<Rightarrow> u8 list \<Rightarrow> TC_status \<times> u8 list" where
  "tc_aes_siv_cmac e aes k1 k2 parts count out =
     tc_mac_cmac_parts (tc_aes_block_cipher (aead_block_key e aes)) None parts count k1 k2 out"

text \<open>The loop over the associated data: \<open>d\<close> is doubled and takes in the CMAC of each component.\<close>

fun siv_ad_loop :: "aes_env \<Rightarrow> TC_AES_key_ctx \<Rightarrow> u8 list \<Rightarrow> u8 list \<Rightarrow> u8 list \<Rightarrow> u8 list \<Rightarrow> TC_bytes list \<Rightarrow> TC_status \<times> u8 list \<times> u8 list" where
  "siv_ad_loop e aes k1 k2 d tmp [] = (TC_OK, d, tmp)"
| "siv_ad_loop e aes k1 k2 d tmp (p # ps) =
     (case tc_aes_siv_cmac e aes k1 k2 [p] 1 tmp of (status, tmp) \<Rightarrow>
        if status \<noteq> TC_OK then (status, d, tmp)
        else let d = tc_aes_gf128_double d;
                 d = fold (\<lambda>j d. d[j := d ! j XOR tmp ! j]) [0..<TC_AES_BLOCKLEN] d
             in siv_ad_loop e aes k1 k2 d tmp ps)"

text \<open>
  Local arrays passed as message parts carry the null address: only their bytes are read.
\<close>

definition tc_aes_siv_s2v ::
  "aes_env \<Rightarrow> TC_AES_key_ctx \<Rightarrow> TC_bytes list \<Rightarrow> nat \<Rightarrow> TC_bytes \<Rightarrow> u8 list \<Rightarrow> TC_status \<times> u8 list" where
  "tc_aes_siv_s2v e aes ad ad_count final v =
     (let last = b_mem final; last_len = b_length final; block = replicate TC_AES_BLOCKLEN 0;
          part = (\<lambda>m. \<lparr>b_data = NULL, b_length = length m, b_mem = m\<rparr>)
      in case tc_aes_cmac_generate_subkeys (aead_block_key e aes) block block of (status, k1, k2) \<Rightarrow>
        if status \<noteq> TC_OK then (status, v)
        else case tc_aes_siv_cmac e aes k1 k2 [part block] 1 block of (status, d) \<Rightarrow>
        if status \<noteq> TC_OK then (status, v)
        else case siv_ad_loop e aes k1 k2 d block (take ad_count ad) of (status, d, tmp) \<Rightarrow>
        if status \<noteq> TC_OK then (status, v)
        else if last_len \<ge> TC_AES_BLOCKLEN
        then let last_block = take TC_AES_BLOCKLEN (drop (last_len - TC_AES_BLOCKLEN) last);
                 last_block = fold (\<lambda>i b. b[i := b ! i XOR d ! i]) [0..<TC_AES_BLOCKLEN] last_block
             in tc_aes_siv_cmac e aes k1 k2 [part (take (last_len - TC_AES_BLOCKLEN) last), part last_block] 2 v
        else let t = tc_aes_gf128_double d;
                 tmp = replicate TC_AES_BLOCKLEN 0;
                 tmp = (if last_len \<noteq> 0 \<and> b_data final \<noteq> NULL then memcpy_at tmp 0 (take last_len last) else tmp);
                 tmp = tmp[last_len := 0x80];
                 t = fold (\<lambda>j t. t[j := t ! j XOR tmp ! j]) [0..<TC_AES_BLOCKLEN] t
             in tc_aes_siv_cmac e aes k1 k2 [part t] 1 v)"

definition tc_aes_siv_ctr ::
  "aes_env \<Rightarrow> TC_AES_key_ctx \<Rightarrow> u8 list \<Rightarrow> u8 list \<Rightarrow> u8 list \<Rightarrow> nat \<Rightarrow> TC_status \<times> u8 list" where
  "tc_aes_siv_ctr e aes v input output len =
     tc_aes_mac_ctr_xor e (kc_round_key aes) v input output len \<lparr>first_clear_bit = 8, second_clear_bit = 12, enabled = 1\<rparr>"

section \<open>Encryption and decryption\<close>

definition TC_AES_SIV_KEYLEN :: "aes_env \<Rightarrow> nat" where "TC_AES_SIV_KEYLEN e = TC_AES_KEYLEN e * 2"

definition TC_AES_SIV_V_LEN :: nat where "TC_AES_SIV_V_LEN = TC_AES_BLOCKLEN"

definition TC_AES_SIV_MAX_AD :: nat where "TC_AES_SIV_MAX_AD = 126"

definition siv_first_key :: "aes_env \<Rightarrow> TC_bytes \<Rightarrow> TC_bytes" where
  "siv_first_key e k = \<lparr>b_data = b_data k, b_length = TC_AES_KEYLEN e, b_mem = take (TC_AES_KEYLEN e) (b_mem k)\<rparr>"

definition siv_second_key :: "aes_env \<Rightarrow> TC_bytes \<Rightarrow> TC_bytes" where
  "siv_second_key e k =
     \<lparr>b_data = b_data k + TC_AES_KEYLEN e, b_length = TC_AES_KEYLEN e, b_mem = take (TC_AES_KEYLEN e) (drop (TC_AES_KEYLEN e) (b_mem k))\<rparr>"

text \<open>
  \<open>at1\<close>, \<open>at2\<close> and \<open>c_at\<close> are the stack addresses of the schedules and of \<^verbatim>\<open>st.computed\<close>, \<open>ad_at\<close> that of the array of
  descriptors and \<open>v_at\<close> that of the synthetic IV. The result is the status, the output and the IV.
\<close>

definition tc_aes_siv_crypt ::
  "aes_env \<Rightarrow> addr \<Rightarrow> addr \<Rightarrow> addr \<Rightarrow> TC_bytes \<Rightarrow> addr \<Rightarrow> TC_bytes list \<Rightarrow> nat \<Rightarrow> TC_bytes \<Rightarrow> TC_buffer \<Rightarrow> addr \<Rightarrow> u8 list \<Rightarrow> bool \<Rightarrow>
   TC_status \<times> TC_buffer \<times> u8 list" where
  "tc_aes_siv_crypt e at1 at2 c_at k ad_at ad ad_count input output v_at v backwards =
     (let n = b_length input; failed = (TC_ERROR, aead_done TC_ERROR output n, v)
      in if b_data k = NULL \<or> ad_count > TC_AES_SIV_MAX_AD \<or> v_at = NULL \<or> \<not> tc_aes_text_ok input output \<or>
            \<not> tc_internal_parts_valid ad_at ad ad_count (w_data output) n
         then (TC_ERROR, output, v)
         else case aead_key_init e at1 (siv_first_key e k) of (status, key1) \<Rightarrow>
           if status \<noteq> TC_OK then failed
           else case aead_key_init e at2 (siv_second_key e k) of (status, key2) \<Rightarrow>
           if status \<noteq> TC_OK then failed
           else if backwards
           then case tc_aes_siv_ctr e (o_val key2) v (b_mem input) (w_mem output) n of (status, m) \<Rightarrow>
             let output = output\<lparr>w_mem := m\<rparr>
             in if status \<noteq> TC_OK then (status, aead_done status output n, v)
                else case tc_aes_siv_s2v e (o_val key1) ad ad_count
                            \<lparr>b_data = w_data output, b_length = n, b_mem = take n (w_mem output)\<rparr> (replicate TC_AES_BLOCKLEN 0)
                     of (status, computed) \<Rightarrow>
                       if status \<noteq> TC_OK then (status, aead_done status output n, v)
                       else let status = TC_ct_equal \<lparr>b_data = c_at, b_length = TC_AES_BLOCKLEN, b_mem = computed\<rparr>
                                           \<lparr>b_data = v_at, b_length = TC_AES_BLOCKLEN, b_mem = take TC_AES_BLOCKLEN v\<rparr>
                            in (status, aead_done status output n, v)
           else case tc_aes_siv_s2v e (o_val key1) ad ad_count input v of (status, v) \<Rightarrow>
             if status \<noteq> TC_OK then (status, aead_done status output n, v)
             else case tc_aes_siv_ctr e (o_val key2) v (b_mem input) (w_mem output) n of (status, m) \<Rightarrow>
               (status, aead_done status (output\<lparr>w_mem := m\<rparr>) n, v))"

text \<open>\<open>v_at\<close> is the address of \<^verbatim>\<open>local_v\<close>.\<close>

definition TC_AES_SIV_encrypt ::
  "aes_env \<Rightarrow> addr \<Rightarrow> addr \<Rightarrow> addr \<Rightarrow> addr \<Rightarrow> TC_bytes \<Rightarrow> addr \<Rightarrow> TC_bytes list \<Rightarrow> nat \<Rightarrow> TC_bytes \<Rightarrow> TC_buffer \<Rightarrow> TC_buffer \<Rightarrow>
   TC_status \<times> TC_buffer \<times> TC_buffer" where
  "TC_AES_SIV_encrypt e at1 at2 c_at v_at k ad_at ad ad_count plaintext v ciphertext =
     (if b_length k \<noteq> TC_AES_SIV_KEYLEN e \<or> w_data v = NULL \<or> w_capacity v < TC_AES_SIV_V_LEN then (TC_ERROR, v, ciphertext)
      else if \<not> tc_internal_ranges_disjoint (w_data v) TC_AES_SIV_V_LEN (w_data ciphertext) (b_length plaintext) then (TC_ERROR, v, ciphertext)
      else case tc_aes_siv_crypt e at1 at2 c_at k ad_at ad ad_count plaintext ciphertext v_at (replicate TC_AES_SIV_V_LEN 0) False
           of (status, ciphertext, local_v) \<Rightarrow>
             (status, if status = TC_OK then v\<lparr>w_mem := memcpy_at (w_mem v) 0 (take TC_AES_SIV_V_LEN local_v)\<rparr> else v, ciphertext))"

definition TC_AES_SIV_decrypt ::
  "aes_env \<Rightarrow> addr \<Rightarrow> addr \<Rightarrow> addr \<Rightarrow> addr \<Rightarrow> TC_bytes \<Rightarrow> addr \<Rightarrow> TC_bytes list \<Rightarrow> nat \<Rightarrow> TC_bytes \<Rightarrow> TC_bytes \<Rightarrow> TC_buffer \<Rightarrow>
   TC_status \<times> TC_buffer" where
  "TC_AES_SIV_decrypt e at1 at2 c_at v_at k ad_at ad ad_count v ciphertext plaintext =
     (if b_length k \<noteq> TC_AES_SIV_KEYLEN e \<or> b_data v = NULL \<or> b_length v \<noteq> TC_AES_SIV_V_LEN then (TC_ERROR, plaintext)
      else if \<not> tc_internal_ranges_disjoint (b_data v) TC_AES_SIV_V_LEN (w_data plaintext) (b_length ciphertext) then (TC_ERROR, plaintext)
      else case tc_aes_siv_crypt e at1 at2 c_at k ad_at ad ad_count ciphertext plaintext v_at (take TC_AES_SIV_V_LEN (b_mem v)) True
           of (status, plaintext, _) \<Rightarrow> (status, plaintext))"

section \<open>RFC 5297\<close>

definition siv_dbl_all :: "u8 list \<Rightarrow> u8 list list \<Rightarrow> u8 list" where
  "siv_dbl_all k ads = fold (\<lambda>s d. xorl (gf_dbl 16 0x87 d) (aes_cmac k s)) ads (aes_cmac k (replicate 16 0))"

definition siv_s2v :: "u8 list \<Rightarrow> u8 list list \<Rightarrow> u8 list \<Rightarrow> u8 list" where
  "siv_s2v k ads final =
     (let d = siv_dbl_all k ads; n = length final - 16
      in aes_cmac k (if 16 \<le> length final then take n final @ xorl (drop n final) d
                     else xorl (gf_dbl 16 0x87 d) (final @ 0x80 # replicate (15 - length final) 0)))"

definition siv_bits :: tc_aes_mac_ctr_bits where
  "siv_bits = \<lparr>first_clear_bit = 8, second_clear_bit = 12, enabled = 1\<rparr>"

definition siv_text :: "u8 list \<Rightarrow> u8 list \<Rightarrow> u8 list \<Rightarrow> u8 list" where
  "siv_text k v text = add_stream (ctr_stream (fips_aes k) 16 (be_val (ctr_cleared siv_bits v))) 0 text"

lemma siv_text_simps [simp]: "siv_text k v (siv_text k v text) = text" "length (siv_text k v text) = length text"
  by (simp_all add: siv_text_def add_stream_twice)

lemma length_siv_s2v [simp]: "length (siv_s2v k ads final) = 16"
  by (simp add: siv_s2v_def Let_def)

lemma length_siv_dbl_all [simp]: "length (siv_dbl_all k ads) = 16"
  unfolding siv_dbl_all_def by (induction ads rule: rev_induct) simp_all

section \<open>The steps on a keyed schedule\<close>

lemma gf128_double_eq: "length d = 16 \<Longrightarrow> tc_aes_gf128_double d = gf_dbl 16 0x87 d"
  using gf_double_eq [of 16 d d "0x87"] by (simp add: tc_aes_gf128_double_def TC_AES_BLOCKLEN_def)

lemma xor_into:
  fixes a b :: "u8 list"
  assumes "length a = 16" "length b = 16"
  shows "fold (\<lambda>i a. a[i := a ! i XOR b ! i]) [0..<16] a = xorl a b"
  using tc_internal_xor_eq [of 16 a b] assms by (simp add: tc_internal_xor_def)

lemma siv_cmac_eq:
  assumes "block_key_for k (aead_block_key e c)" "(k1, k2) = aes_mac.cmac_subkeys (aead_block_key e c) 0x87" "length out = 16" "count = length ps"
  shows "tc_aes_siv_cmac e c k1 k2 ps count out = (TC_OK, aes_cmac k (concat (map b_mem ps)))"
proof -
  let ?E = "cipher_fun (tc_aes_block_cipher (aead_block_key e c))"
  have l: "k1 = gf_dbl 16 0x87 (?E (replicate 16 0))" "k2 = gf_dbl 16 0x87 k1"
    using assms(2) by (simp_all add: aes_mac.cmac_subkeys_def Let_def)
  then have "cmac_spec ?E 16 (replicate 16 0) k1 k2 m = aes_cmac k m" for m
    using block_key_cmac [OF assms(1), of m] by (simp add: cmac_def Let_def)
  then show ?thesis
    using aes_mac.cmac_parts_eq [OF block_key_forD(1) [OF assms(1)], of k1 k2 out ps] assms(3,4) l by (simp add: tc_aes_siv_cmac_def)
qed

lemma siv_ad_loop_eq:
  assumes "block_key_for k (aead_block_key e c)" "(k1, k2) = aes_mac.cmac_subkeys (aead_block_key e c) 0x87"
  shows "length d = 16 \<Longrightarrow> length tmp = 16 \<Longrightarrow>
    \<exists>tmp'. siv_ad_loop e c k1 k2 d tmp ps = (TC_OK, fold (\<lambda>s d. xorl (gf_dbl 16 0x87 d) (aes_cmac k s)) (map b_mem ps) d, tmp')"
proof (induction ps arbitrary: d tmp)
  case (Cons p ps)
  have x: "fold (\<lambda>j d. d[j := d ! j XOR aes_cmac k (b_mem p) ! j]) [0..<16] (gf_dbl 16 0x87 d) = xorl (gf_dbl 16 0x87 d) (aes_cmac k (b_mem p))"
    by (rule xor_into) simp_all
  from Cons.IH [of "xorl (gf_dbl 16 0x87 d) (aes_cmac k (b_mem p))" "aes_cmac k (b_mem p)"] Cons.prems show ?case
    using siv_cmac_eq [OF assms Cons.prems(2), of 1 "[p]"] x by (simp add: gf128_double_eq TC_AES_BLOCKLEN_def Let_def)
qed simp

lemma siv_s2v_eq:
  assumes "aes_env_wf e" "aes_keyed e k c" "length (b_mem final) = b_length final" "b_data final \<noteq> NULL \<or> b_length final = 0" "length v = 16"
    "ad_count = length ad"
  shows "tc_aes_siv_s2v e c ad ad_count final v = (TC_OK, siv_s2v k (map b_mem ad) (b_mem final))"
proof -
  note bk = aead_block_key_for [OF assms(1,2)]
  obtain k1 k2 where s: "(k1, k2) = aes_mac.cmac_subkeys (aead_block_key e c) 0x87" by (metis surj_pair)
  have sub: "tc_aes_cmac_generate_subkeys (aead_block_key e c) (replicate 16 0) (replicate 16 0) = (TC_OK, k1, k2)"
    using subkeys_eq [OF bk] by (simp flip: s)
  note len = assms(3)
  have cm1: "length u = 16 \<Longrightarrow> tc_aes_siv_cmac e c k1 k2 [p] (Suc 0) u = (TC_OK, aes_cmac k (b_mem p))" for p u
    using siv_cmac_eq [OF bk s, of u 1 "[p]"] by simp
  have cm2: "tc_aes_siv_cmac e c k1 k2 [p, p'] 2 v = (TC_OK, aes_cmac k (b_mem p @ b_mem p'))" for p p'
    using siv_cmac_eq [OF bk s, of v 2 "[p, p']"] assms(5) by simp
  let ?d = "siv_dbl_all k (map b_mem ad)"
  obtain tmp' where loop: "siv_ad_loop e c k1 k2 (aes_cmac k (replicate 16 0)) (replicate 16 0) ad = (TC_OK, ?d, tmp')"
    using siv_ad_loop_eq [OF bk s, of "aes_cmac k (replicate 16 0)" "replicate 16 0" ad] by (auto simp: siv_dbl_all_def)
  let ?n = "b_length final - 16"
  show ?thesis
  proof (cases "16 \<le> b_length final")
    case True
    have x: "fold (\<lambda>i b. b[i := b ! i XOR ?d ! i]) [0..<16] (take 16 (drop ?n (b_mem final))) = xorl (drop ?n (b_mem final)) ?d"
    proof -
      have "take 16 (drop ?n (b_mem final)) = drop ?n (b_mem final)" using True len by simp
      then show ?thesis using True len by (simp add: xor_into)
    qed
    show ?thesis
      using True len sub loop cm1 cm2 assms(5,6) x
      by (simp add: tc_aes_siv_s2v_def TC_AES_BLOCKLEN_def Let_def siv_s2v_def)
  next
    case False
    let ?p = "b_mem final @ 0x80 # replicate (15 - b_length final) 0"
    have tmp: "(if b_length final \<noteq> 0 \<and> b_data final \<noteq> NULL then memcpy_at (replicate 16 0) 0 (take (b_length final) (b_mem final)) else replicate 16 0)[b_length final := 0x80] = ?p"
    proof -
      have n: "b_data final \<noteq> NULL \<or> b_length final = 0" by (rule assms(4))
      have r: "16 - b_length final = Suc (15 - b_length final)" using False by simp
      have "(replicate (Suc m) 0)[0 := x] = x # replicate m 0" for m and x :: u8 by simp
      from this [of 15] show ?thesis using n len r by (auto simp: memcpy_at_def list_update_append)
    qed
    have "length ?p = 16" using False len by simp
    then have x: "fold (\<lambda>j t. t[j := t ! j XOR ?p ! j]) [0..<16] (gf_dbl 16 0x87 ?d) = xorl (gf_dbl 16 0x87 ?d) ?p"
      by (intro xor_into) simp_all
    show ?thesis
      using False len sub loop cm1 assms(5,6) x tmp
      by (simp add: tc_aes_siv_s2v_def TC_AES_BLOCKLEN_def Let_def siv_s2v_def gf128_double_eq)
  qed
qed

section \<open>Whole messages\<close>

text \<open>The argument checks of both directions, and that both halves of the key pass those of the key schedule.\<close>

definition siv_args ::
  "aes_env \<Rightarrow> addr \<Rightarrow> addr \<Rightarrow> TC_bytes \<Rightarrow> addr \<Rightarrow> TC_bytes list \<Rightarrow> TC_bytes \<Rightarrow> TC_buffer \<Rightarrow> bool" where
  "siv_args e at1 at2 k ad_at ad input out \<longleftrightarrow>
     at1 \<noteq> NULL \<and> at2 \<noteq> NULL \<and> b_data k \<noteq> NULL \<and> b_length k = 2 * TC_AES_KEYLEN e \<and> bytes_wf k \<and> length ad \<le> 126 \<and>
     tc_aes_text_ok input out \<and> tc_internal_parts_valid ad_at ad (length ad) (w_data out) (b_length input) \<and> bytes_wf input \<and> buffer_wf out \<and>
     key_args_ok e at1 (sizeof_key_ctx e) (siv_first_key e k) \<and> key_args_ok e at2 (sizeof_key_ctx e) (siv_second_key e k)"

lemma siv_keys:
  assumes "aes_env_wf e" "siv_args e at1 at2 k ad_at ad input out"
  shows "\<exists>c. aead_key_init e at1 (siv_first_key e k) = (TC_OK, c) \<and> aes_keyed e (b_mem (siv_first_key e k)) (o_val c)"
    and "\<exists>c. aead_key_init e at2 (siv_second_key e k) = (TC_OK, c) \<and> aes_keyed e (b_mem (siv_second_key e k)) (o_val c)"
proof -
  have l: "length (b_mem k) = 2 * TC_AES_KEYLEN e" using assms(2) by (simp add: siv_args_def bytes_wf_def)
  have "bytes_wf (siv_first_key e k)" "bytes_wf (siv_second_key e k)"
    using l by (auto simp: bytes_wf_def siv_first_key_def siv_second_key_def)
  then show "\<exists>c. aead_key_init e at1 (siv_first_key e k) = (TC_OK, c) \<and> aes_keyed e (b_mem (siv_first_key e k)) (o_val c)"
    and "\<exists>c. aead_key_init e at2 (siv_second_key e k) = (TC_OK, c) \<and> aes_keyed e (b_mem (siv_second_key e k)) (o_val c)"
    using assms by (auto simp: siv_args_def intro!: aead_key_keyed)
qed

lemma siv_ctr_eq:
  assumes "aes_env_wf e" "aes_keyed e k c" "length (b_mem input) = b_length input" "b_length input \<le> length m" "length v = 16"
  shows "tc_aes_siv_ctr e c v (b_mem input) m (b_length input) = (TC_OK, siv_text k v (b_mem input) @ drop (b_length input) m)"
  using mac_ctr_xor_eq [OF assms(1,2) _ assms(4,5), of "b_mem input" siv_bits] assms(3)
  by (simp add: tc_aes_siv_ctr_def siv_text_def siv_bits_def)

lemma siv_encrypt_core:
  assumes "aes_env_wf e" "siv_args e at1 at2 k ad_at ad input out" "v_at \<noteq> NULL" "length v = 16"
  defines "iv \<equiv> siv_s2v (b_mem (siv_first_key e k)) (map b_mem ad) (b_mem input)"
  shows "tc_aes_siv_crypt e at1 at2 c_at k ad_at ad (length ad) input out v_at v False =
    (TC_OK, out\<lparr>w_mem := siv_text (b_mem (siv_second_key e k)) iv (b_mem input) @ drop (b_length input) (w_mem out)\<rparr>, iv)"
proof -
  obtain c1 where k1: "aead_key_init e at1 (siv_first_key e k) = (TC_OK, c1)" "aes_keyed e (b_mem (siv_first_key e k)) (o_val c1)"
    using siv_keys(1) [OF assms(1,2)] by blast
  obtain c2 where k2: "aead_key_init e at2 (siv_second_key e k) = (TC_OK, c2)" "aes_keyed e (b_mem (siv_second_key e k)) (o_val c2)"
    using siv_keys(2) [OF assms(1,2)] by blast
  have ok: "tc_aes_text_ok input out" "bytes_wf input" "buffer_wf out" using assms(2) by (simp_all add: siv_args_def)
  note len = text_ok_facts [OF ok(1-3)]
  have nn: "b_data input \<noteq> NULL \<or> b_length input = 0" using ok(1) by (auto simp: tc_aes_text_ok_def tc_internal_span_valid_def split: if_splits)
  have s2v: "tc_aes_siv_s2v e (o_val c1) ad (length ad) input v = (TC_OK, iv)"
    unfolding iv_def by (rule siv_s2v_eq [OF assms(1) k1(2) len(1) nn assms(4) refl])
  have ctr: "tc_aes_siv_ctr e (o_val c2) iv (b_mem input) (w_mem out) (b_length input) =
      (TC_OK, siv_text (b_mem (siv_second_key e k)) iv (b_mem input) @ drop (b_length input) (w_mem out))"
    by (rule siv_ctr_eq [OF assms(1) k2(2) len]) (simp add: iv_def)
  show ?thesis
    using assms(2,3) by (simp add: tc_aes_siv_crypt_def Let_def siv_args_def TC_AES_SIV_MAX_AD_def k1(1) k2(1) s2v ctr)
qed

lemma siv_decrypt_core:
  assumes "aes_env_wf e" "siv_args e at1 at2 k ad_at ad input out" "v_at \<noteq> NULL" "c_at \<noteq> NULL" "length v = 16"
  defines "p \<equiv> siv_text (b_mem (siv_second_key e k)) v (b_mem input)"
  shows "tc_aes_siv_crypt e at1 at2 c_at k ad_at ad (length ad) input out v_at v True =
    (if v = siv_s2v (b_mem (siv_first_key e k)) (map b_mem ad) p
     then (TC_OK, out\<lparr>w_mem := p @ drop (b_length input) (w_mem out)\<rparr>, v)
     else (TC_MISMATCH, out\<lparr>w_mem := replicate (b_length input) 0 @ drop (b_length input) (w_mem out)\<rparr>, v))"
proof -
  obtain c1 where k1: "aead_key_init e at1 (siv_first_key e k) = (TC_OK, c1)" "aes_keyed e (b_mem (siv_first_key e k)) (o_val c1)"
    using siv_keys(1) [OF assms(1,2)] by blast
  obtain c2 where k2: "aead_key_init e at2 (siv_second_key e k) = (TC_OK, c2)" "aes_keyed e (b_mem (siv_second_key e k)) (o_val c2)"
    using siv_keys(2) [OF assms(1,2)] by blast
  have ok: "tc_aes_text_ok input out" "bytes_wf input" "buffer_wf out" using assms(2) by (simp_all add: siv_args_def)
  note len = text_ok_facts [OF ok(1-3)]
  let ?out = "out\<lparr>w_mem := p @ drop (b_length input) (w_mem out)\<rparr>"
  have lp: "length p = b_length input" using len by (simp add: p_def)
  note ctr = siv_ctr_eq [OF assms(1) k2(2) len assms(5), folded p_def]
  have nn: "w_data out \<noteq> NULL \<or> b_length input = 0" using ok(1) by (auto simp: tc_aes_text_ok_def split: if_splits)
  let ?s = "siv_s2v (b_mem (siv_first_key e k)) (map b_mem ad) p"
  have s2v: "tc_aes_siv_s2v e (o_val c1) ad (length ad) \<lparr>b_data = w_data out, b_length = b_length input, b_mem = p\<rparr> (replicate 16 0) = (TC_OK, ?s)"
    using siv_s2v_eq [OF assms(1) k1(2), of "\<lparr>b_data = w_data out, b_length = b_length input, b_mem = p\<rparr>" "replicate 16 0"] lp nn by simp
  have ct: "TC_ct_equal \<lparr>b_data = c_at, b_length = 16, b_mem = ?s\<rparr> \<lparr>b_data = v_at, b_length = 16, b_mem = v\<rparr> = (if v = ?s then TC_OK else TC_MISMATCH)"
    using assms(3-5) by (subst TC_ct_equal_valid) (auto simp: bytes_wf_def)
  have wf: "tc_aes_text_ok input ?out" "buffer_wf ?out"
    using ok(1,3) lp len by (auto simp: tc_aes_text_ok_def buffer_wf_def split: if_splits)
  note wipe = aead_done_error [OF wf, of TC_MISMATCH]
  show ?thesis
    using assms(2,3,5) wipe lp
    by (simp add: tc_aes_siv_crypt_def Let_def siv_args_def TC_AES_SIV_MAX_AD_def TC_AES_BLOCKLEN_def k1(1) k2(1) s2v ctr ct)
qed

end
