(* ===== verification/AES_CCM.thy ===== *)
theory AES_CCM
  imports AES_AEAD
begin

text \<open>
  AES-CCM, \<^verbatim>\<open>src/src/aes_ccm.c\<close>. The lemmas show that both directions compute the generation-encryption and
  decryption-verification processes of SP 800-38C, that a decryption returns the text exactly for the genuine tag, and
  that any other tag wipes the output.
\<close>

section \<open>Formatting\<close>

definition TC_AES_CCM_MIN_NONCE_LEN :: nat where "TC_AES_CCM_MIN_NONCE_LEN = 7"

definition TC_AES_CCM_MAX_NONCE_LEN :: nat where "TC_AES_CCM_MAX_NONCE_LEN = 13"

definition tc_aes_ccm_tag_length_allowed :: "nat \<Rightarrow> nat \<Rightarrow> bool \<Rightarrow> bool" where
  "tc_aes_ccm_tag_length_allowed MIN_TAG_LEN tag_len short_tag \<longleftrightarrow>
     tc_internal_tag_length_allowed MIN_TAG_LEN tag_len TC_AES_BLOCKLEN short_tag \<and> tag_len \<ge> 4 \<and> tag_len mod 2 = 0"

definition tc_aes_ccm_length_field_size :: "nat \<Rightarrow> nat" where
  "tc_aes_ccm_length_field_size nonce_len = 15 - nonce_len"

definition tc_aes_ccm_payload_length_is_valid :: "nat \<Rightarrow> nat \<Rightarrow> bool" where
  "tc_aes_ccm_payload_length_is_valid nonce_len len =
     (let q = tc_aes_ccm_length_field_size nonce_len
      in if q = 8 then True else len \<le> 2 ^ (8 * q) - 1)"

text \<open>The destination is the array \<open>dst\<close> from index \<open>i\<close> on.\<close>

definition tc_aes_ccm_store_length :: "u8 list \<Rightarrow> nat \<Rightarrow> nat \<Rightarrow> nat \<Rightarrow> u8 list" where
  "tc_aes_ccm_store_length dst i v len =
     fst (fold (\<lambda>j (d, v). (d[i + j := of_nat v], v div 256)) (rev [0..<len]) (dst, v))"

definition tc_aes_ccm_make_counter :: "u8 list \<Rightarrow> nat \<Rightarrow> u8 list" where
  "tc_aes_ccm_make_counter nonce v =
     (let q = tc_aes_ccm_length_field_size (length nonce);
          ctr = (replicate TC_AES_BLOCKLEN 0)[0 := of_nat (q - 1)];
          ctr = memcpy_at ctr 1 nonce
      in tc_aes_ccm_store_length ctr (1 + length nonce) v q)"

definition tc_aes_ccm_counter_bits :: tc_aes_mac_ctr_bits where
  "tc_aes_ccm_counter_bits = \<lparr>first_clear_bit = 0, second_clear_bit = 0, enabled = 0\<rparr>"

text \<open>The first block, and the encoding of the length of the associated data.\<close>

definition ccm_first_block :: "u8 list \<Rightarrow> nat \<Rightarrow> nat \<Rightarrow> nat \<Rightarrow> u8 list" where
  "ccm_first_block nonce aad_len tag_len input_len =
     (let q = tc_aes_ccm_length_field_size (length nonce);
          work = (replicate TC_AES_BLOCKLEN 0)[0 := (if aad_len \<noteq> 0 then 0x40 else 0) OR push_bit 3 (of_nat ((tag_len - 2) div 2)) OR of_nat (q - 1)];
          work = memcpy_at work 1 nonce
      in tc_aes_ccm_store_length work (1 + length nonce) input_len q)"

definition ccm_aad_header :: "nat \<Rightarrow> u8 list" where
  "ccm_aad_header aad_len =
     (let h = replicate 10 0
      in if aad_len < 0xff00 then take 2 (tc_aes_ccm_store_length h 0 aad_len 2)
         else if aad_len \<le> 2 ^ 32 - 1 then take 6 (tc_aes_ccm_store_length (h[0 := 0xff, 1 := 0xfe]) 2 aad_len 4)
         else take 10 (tc_aes_ccm_store_length (h[0 := 0xff, 1 := 0xff]) 2 aad_len 8))"

section \<open>Encryption and decryption\<close>

text \<open>
  The associated data: the header, the data and the padding. The results are the status, \<^verbatim>\<open>st.mac\<close>, \<^verbatim>\<open>st.block\<close> and \<^verbatim>\<open>used\<close>.
\<close>

definition ccm_absorb_aad ::
  "tc_aes_block_key tc_block_cipher \<Rightarrow> u8 list \<Rightarrow> u8 list \<Rightarrow> nat \<Rightarrow> TC_bytes \<Rightarrow> TC_status \<times> u8 list \<times> u8 list \<times> nat" where
  "ccm_absorb_aad cipher mac block fill aad =
     (if b_length aad \<noteq> 0
      then case tc_mac_cbc_update cipher mac block fill (ccm_aad_header (b_length aad)) False of (status, mac, block, fill) \<Rightarrow>
             if status \<noteq> TC_OK then (TC_ERROR, mac, block, fill)
             else case tc_mac_cbc_update cipher mac block fill (b_mem aad) False of (status, mac, block, fill) \<Rightarrow>
               if status \<noteq> TC_OK then (TC_ERROR, mac, block, fill)
               else case tc_mac_cbc_pad cipher mac block fill of (status, mac, block, fill) \<Rightarrow>
                 if status \<noteq> TC_OK then (TC_ERROR, mac, block, fill) else (TC_OK, mac, block, fill)
      else (TC_OK, mac, block, fill))"

text \<open>The first pass of a decryption: each block is decrypted into \<^verbatim>\<open>st.plain\<close> and absorbed.\<close>

function ccm_decrypt_loop ::
  "aes_env \<Rightarrow> TC_AES_key_ctx \<Rightarrow> u8 list \<Rightarrow> u8 list \<Rightarrow> u8 list \<Rightarrow> nat \<Rightarrow> u8 list \<Rightarrow> u8 list \<Rightarrow> TC_status \<times> u8 list \<times> u8 list \<times> nat" where
  "ccm_decrypt_loop e aes work mac block fill plain input =
     (if input = [] then (TC_OK, mac, block, fill)
      else let len = (if length input < TC_AES_BLOCKLEN then length input else TC_AES_BLOCKLEN)
           in case tc_aes_mac_ctr_xor e (kc_round_key aes) work input plain len tc_aes_ccm_counter_bits of (status, plain) \<Rightarrow>
                if status \<noteq> TC_OK then (TC_ERROR, mac, block, fill)
                else case tc_mac_cbc_update (tc_aes_block_cipher (aead_block_key e aes)) mac block fill (take len plain) False of (status, mac, block, fill) \<Rightarrow>
                  if status \<noteq> TC_OK then (TC_ERROR, mac, block, fill)
                  else ccm_decrypt_loop e aes (fst (tc_internal_increment_be work TC_AES_BLOCKLEN)) mac block fill plain (drop len input))"
  by pat_completeness auto
termination
  by (relation "measure (\<lambda>(e, aes, work, mac, block, fill, plain, input). length input)") (auto simp: TC_AES_BLOCKLEN_def)

declare ccm_decrypt_loop.simps [simp del]

definition tc_aes_ccm_crypt ::
  "aes_env \<Rightarrow> addr \<Rightarrow> addr \<Rightarrow> TC_bytes \<Rightarrow> TC_bytes \<Rightarrow> TC_bytes \<Rightarrow> TC_bytes \<Rightarrow> TC_buffer \<Rightarrow> TC_bytes \<Rightarrow> TC_buffer \<Rightarrow> nat \<Rightarrow>
   TC_status \<times> TC_buffer \<times> TC_buffer" where
  "tc_aes_ccm_crypt e at tag_at k nonce aad input output expected_tag output_tag tag_len =
     (let backwards = (b_data expected_tag \<noteq> NULL); n = b_length input; block = replicate TC_AES_BLOCKLEN 0;
          failed = (\<lambda>output. (TC_ERROR, aead_done TC_ERROR output n, output_tag))
      in if b_data k = NULL \<or> b_data nonce = NULL \<or> (b_data expected_tag = NULL \<and> w_data output_tag = NULL) \<or>
            \<not> tc_internal_span_valid (b_data aad) (b_length aad) \<or> \<not> tc_aes_text_ok input output \<or>
            b_length nonce < TC_AES_CCM_MIN_NONCE_LEN \<or> b_length nonce > TC_AES_CCM_MAX_NONCE_LEN \<or>
            \<not> tc_aes_ccm_payload_length_is_valid (b_length nonce) n \<or>
            \<not> tc_internal_ranges_disjoint (w_data output) n (if backwards then b_data expected_tag else w_data output_tag) tag_len
         then (TC_ERROR, output, output_tag)
         else let work = ccm_first_block (b_mem nonce) (b_length aad) tag_len n
         in case aead_key_init e at k of (status, aes) \<Rightarrow>
           if status \<noteq> TC_OK then failed output
           else let cipher = tc_aes_block_cipher (aead_block_key e (o_val aes))
           in case tc_mac_cbc_block cipher block work of (status, mac) \<Rightarrow>
           if status \<noteq> TC_OK then failed output
           else case ccm_absorb_aad cipher mac block 0 aad of (status, mac, block, fill) \<Rightarrow>
           if status \<noteq> TC_OK then failed output
           else let ctr = tc_aes_ccm_make_counter (b_mem nonce) 0
           in case tc_aes_cipher e ctr (kc_round_key (o_val aes)) of (status, s0) \<Rightarrow>
           if status \<noteq> TC_OK then failed output
           else let ctr = fst (tc_internal_increment_be ctr TC_AES_BLOCKLEN)
           in case (if \<not> backwards
                    then case tc_mac_cbc_update cipher mac block fill (b_mem input) False of (status, mac, block, fill) \<Rightarrow>
                           if status \<noteq> TC_OK then (TC_ERROR, mac, block, fill, output)
                           else case tc_aes_mac_ctr_xor e (kc_round_key (o_val aes)) ctr (b_mem input) (w_mem output) n tc_aes_ccm_counter_bits
                                of (status, m) \<Rightarrow> (if status \<noteq> TC_OK then TC_ERROR else TC_OK, mac, block, fill, output\<lparr>w_mem := m\<rparr>)
                    else case ccm_decrypt_loop e (o_val aes) ctr mac block fill (replicate TC_AES_BLOCKLEN 0) (b_mem input)
                         of (status, mac, block, fill) \<Rightarrow> (status, mac, block, fill, output))
              of (status, mac, block, fill, output) \<Rightarrow>
                if status \<noteq> TC_OK then failed output
                else case tc_mac_cbc_pad cipher mac block fill of (status, mac, block, fill) \<Rightarrow>
                  if status \<noteq> TC_OK then failed output
                  else let work = map (\<lambda>i. mac ! i XOR s0 ! i) [0..<TC_AES_BLOCKLEN]
                       in if backwards
                          then let status = TC_ct_equal \<lparr>b_data = tag_at, b_length = tag_len, b_mem = take tag_len work\<rparr>
                                     \<lparr>b_data = b_data expected_tag, b_length = tag_len, b_mem = take tag_len (b_mem expected_tag)\<rparr>
                               in if status = TC_OK
                                  then case tc_aes_mac_ctr_xor e (kc_round_key (o_val aes)) ctr (b_mem input) (w_mem output) n tc_aes_ccm_counter_bits
                                       of (status, m) \<Rightarrow> (status, aead_done status (output\<lparr>w_mem := m\<rparr>) n, output_tag)
                                  else (status, aead_done status output n, output_tag)
                          else (TC_OK, output, output_tag\<lparr>w_mem := memcpy_at (w_mem output_tag) 0 (take tag_len work)\<rparr>))"

definition tc_aes_ccm_encrypt_with_policy ::
  "nat \<Rightarrow> aes_env \<Rightarrow> addr \<Rightarrow> addr \<Rightarrow> TC_bytes \<Rightarrow> TC_bytes \<Rightarrow> TC_bytes \<Rightarrow> TC_bytes \<Rightarrow> TC_buffer \<Rightarrow> TC_buffer \<Rightarrow> bool \<Rightarrow>
   TC_status \<times> TC_buffer \<times> TC_buffer" where
  "tc_aes_ccm_encrypt_with_policy MIN_TAG_LEN e at tag_at k nonce aad plaintext ciphertext tag short_tag =
     (if \<not> tc_aes_ccm_tag_length_allowed MIN_TAG_LEN (w_capacity tag) short_tag then (TC_ERROR, ciphertext, tag)
      else tc_aes_ccm_crypt e at tag_at k nonce aad plaintext ciphertext no_bytes tag (w_capacity tag))"

definition tc_aes_ccm_decrypt_with_policy ::
  "nat \<Rightarrow> aes_env \<Rightarrow> addr \<Rightarrow> addr \<Rightarrow> TC_bytes \<Rightarrow> TC_bytes \<Rightarrow> TC_bytes \<Rightarrow> TC_bytes \<Rightarrow> TC_bytes \<Rightarrow> TC_buffer \<Rightarrow> bool \<Rightarrow>
   TC_status \<times> TC_buffer" where
  "tc_aes_ccm_decrypt_with_policy MIN_TAG_LEN e at tag_at k nonce aad ciphertext tag plaintext short_tag =
     (if b_data tag = NULL \<or> \<not> tc_aes_ccm_tag_length_allowed MIN_TAG_LEN (b_length tag) short_tag then (TC_ERROR, plaintext)
      else case tc_aes_ccm_crypt e at tag_at k nonce aad ciphertext plaintext tag no_buffer (b_length tag)
           of (status, plaintext, _) \<Rightarrow> (status, plaintext))"

definition TC_AES_CCM_encrypt ::
  "nat \<Rightarrow> aes_env \<Rightarrow> addr \<Rightarrow> addr \<Rightarrow> TC_bytes \<Rightarrow> TC_bytes \<Rightarrow> TC_bytes \<Rightarrow> TC_bytes \<Rightarrow> TC_buffer \<Rightarrow> TC_buffer \<Rightarrow>
   TC_status \<times> TC_buffer \<times> TC_buffer" where
  "TC_AES_CCM_encrypt MIN_TAG_LEN e at tag_at k nonce aad plaintext ciphertext tag =
     (if b_length k \<noteq> TC_AES_KEYLEN e then (TC_ERROR, ciphertext, tag)
      else tc_aes_ccm_encrypt_with_policy MIN_TAG_LEN e at tag_at k nonce aad plaintext ciphertext tag False)"

definition TC_AES_CCM_decrypt ::
  "nat \<Rightarrow> aes_env \<Rightarrow> addr \<Rightarrow> addr \<Rightarrow> TC_bytes \<Rightarrow> TC_bytes \<Rightarrow> TC_bytes \<Rightarrow> TC_bytes \<Rightarrow> TC_bytes \<Rightarrow> TC_buffer \<Rightarrow> TC_status \<times> TC_buffer" where
  "TC_AES_CCM_decrypt MIN_TAG_LEN e at tag_at k nonce aad ciphertext tag plaintext =
     (if b_length k \<noteq> TC_AES_KEYLEN e then (TC_ERROR, plaintext)
      else tc_aes_ccm_decrypt_with_policy MIN_TAG_LEN e at tag_at k nonce aad ciphertext tag plaintext False)"

definition TC_AES_CCM_encrypt_short_tag ::
  "nat \<Rightarrow> aes_env \<Rightarrow> addr \<Rightarrow> addr \<Rightarrow> TC_bytes \<Rightarrow> TC_bytes \<Rightarrow> TC_bytes \<Rightarrow> TC_bytes \<Rightarrow> TC_buffer \<Rightarrow> TC_buffer \<Rightarrow>
   TC_status \<times> TC_buffer \<times> TC_buffer" where
  "TC_AES_CCM_encrypt_short_tag MIN_TAG_LEN e at tag_at k nonce aad plaintext ciphertext tag =
     (if b_length k \<noteq> TC_AES_KEYLEN e then (TC_ERROR, ciphertext, tag)
      else tc_aes_ccm_encrypt_with_policy MIN_TAG_LEN e at tag_at k nonce aad plaintext ciphertext tag True)"

definition TC_AES_CCM_decrypt_short_tag ::
  "nat \<Rightarrow> aes_env \<Rightarrow> addr \<Rightarrow> addr \<Rightarrow> TC_bytes \<Rightarrow> TC_bytes \<Rightarrow> TC_bytes \<Rightarrow> TC_bytes \<Rightarrow> TC_bytes \<Rightarrow> TC_buffer \<Rightarrow> TC_status \<times> TC_buffer" where
  "TC_AES_CCM_decrypt_short_tag MIN_TAG_LEN e at tag_at k nonce aad ciphertext tag plaintext =
     (if b_length k \<noteq> TC_AES_KEYLEN e then (TC_ERROR, plaintext)
      else tc_aes_ccm_decrypt_with_policy MIN_TAG_LEN e at tag_at k nonce aad ciphertext tag plaintext True)"

section \<open>SP 800-38C\<close>

definition ccm_counter :: "u8 list \<Rightarrow> nat \<Rightarrow> u8 list" where
  "ccm_counter nonce i = of_nat (14 - length nonce) # nonce @ be_bytes (15 - length nonce) i"

definition ccm_b0 :: "u8 list \<Rightarrow> nat \<Rightarrow> nat \<Rightarrow> nat \<Rightarrow> u8 list" where
  "ccm_b0 nonce aad_len t n =
     ((if aad_len \<noteq> 0 then 0x40 else 0) OR push_bit 3 (of_nat ((t - 2) div 2)) OR of_nat (14 - length nonce)) # nonce @ be_bytes (15 - length nonce) n"

definition ccm_aad :: "u8 list \<Rightarrow> u8 list" where
  "ccm_aad a =
     (if a = [] then []
      else pad16 ((if length a < 0xff00 then be_bytes 2 (length a) else if length a < 2 ^ 32 then [0xff, 0xfe] @ be_bytes 4 (length a)
                   else [0xff, 0xff] @ be_bytes 8 (length a)) @ a))"

definition ccm_mac :: "u8 list \<Rightarrow> u8 list \<Rightarrow> u8 list \<Rightarrow> nat \<Rightarrow> u8 list \<Rightarrow> u8 list" where
  "ccm_mac k nonce aad t p = cbc_mac (fips_aes k) (replicate 16 0) (chunks 16 (ccm_b0 nonce (length aad) t (length p) @ ccm_aad aad @ pad16 p))"

definition ccm_text :: "u8 list \<Rightarrow> u8 list \<Rightarrow> u8 list \<Rightarrow> u8 list" where
  "ccm_text k nonce x = add_stream (\<lambda>p. fips_aes k (ccm_counter nonce (Suc (p div 16))) ! (p mod 16)) 0 x"

definition ccm_tag :: "u8 list \<Rightarrow> u8 list \<Rightarrow> u8 list \<Rightarrow> nat \<Rightarrow> u8 list \<Rightarrow> u8 list" where
  "ccm_tag k nonce aad t p = take t (xorl (ccm_mac k nonce aad t p) (fips_aes k (ccm_counter nonce 0)))"

lemma ccm_text_simps [simp]: "ccm_text k nonce (ccm_text k nonce x) = x" "length (ccm_text k nonce x) = length x"
  by (simp_all add: ccm_text_def)

section \<open>Formatting as the standard has it\<close>

lemma be_bytes_snoc: "be_bytes (Suc w) n = be_bytes w (n div 256) @ [of_nat n]"
proof -
  have "be_val (be_bytes w (n div 256) @ [of_nat n :: u8]) = n mod 256 ^ Suc w"
    by (simp add: be_val_append unat_of_nat mod_mult2_eq mult.commute)
  then show ?thesis by (intro be_val_inject) simp_all
qed

lemma store_length_eq: "i + len \<le> length dst \<Longrightarrow> tc_aes_ccm_store_length dst i v len = memcpy_at dst i (be_bytes len v)"
proof (induction len arbitrary: dst v)
  case 0
  then show ?case by (simp add: tc_aes_ccm_store_length_def memcpy_at_def be_bytes_def)
next
  case (Suc len)
  let ?d = "dst[i + len := of_nat v]"
  have "tc_aes_ccm_store_length dst i v (Suc len) = tc_aes_ccm_store_length ?d i (v div 256) len" by (simp add: tc_aes_ccm_store_length_def)
  also have "\<dots> = memcpy_at ?d i (be_bytes len (v div 256))" using Suc by simp
  also have "\<dots> = memcpy_at dst i (be_bytes (Suc len) v)"
  proof -
    have "?d = take (i + len) dst @ of_nat v # drop (Suc (i + len)) dst" using Suc.prems by (simp add: upd_conv_take_nth_drop)
    then show ?thesis using Suc.prems by (simp add: memcpy_at_def be_bytes_snoc)
  qed
  finally show ?case .
qed

lemma block_layout:
  assumes "length nonce \<le> 13"
  shows "tc_aes_ccm_store_length (memcpy_at ((replicate 16 0)[0 := x]) 1 nonce) (1 + length nonce) v (15 - length nonce) =
    x # nonce @ be_bytes (15 - length nonce) v"
proof -
  have r: "(replicate 16 0)[0 := x] = x # replicate 15 0" by (simp add: numeral_eq_Suc)
  have "memcpy_at (x # replicate 15 0) 1 nonce = x # nonce @ replicate (15 - length nonce) 0" using assms by (simp add: memcpy_at_def)
  then show ?thesis using assms by (simp add: r store_length_eq) (simp add: memcpy_at_def)
qed

lemma make_counter_eq: "length nonce \<le> 13 \<Longrightarrow> tc_aes_ccm_make_counter nonce v = ccm_counter nonce v"
  using block_layout [of nonce _ v]
  by (simp add: tc_aes_ccm_make_counter_def tc_aes_ccm_length_field_size_def TC_AES_BLOCKLEN_def Let_def ccm_counter_def)

lemma first_block_eq: "length nonce \<le> 13 \<Longrightarrow> ccm_first_block nonce a t n = ccm_b0 nonce a t n"
  using block_layout [of nonce _ n]
  by (simp add: ccm_first_block_def tc_aes_ccm_length_field_size_def TC_AES_BLOCKLEN_def Let_def ccm_b0_def)

lemma aad_header_eq:
  "a \<noteq> [] \<Longrightarrow> pad16 (ccm_aad_header (length a) @ a) = ccm_aad a"
proof -
  have h: "(replicate 10 0)[0 := x, 1 := y] = x # y # replicate 8 0" for x y :: u8 by (simp add: numeral_eq_Suc)
  have c: "take 2 (tc_aes_ccm_store_length (replicate 10 0) 0 n 2) = be_bytes 2 n"
    "take 6 (tc_aes_ccm_store_length (x # y # replicate 8 0) 2 n 4) = [x, y] @ be_bytes 4 n"
    "take 10 (tc_aes_ccm_store_length (x # y # replicate 8 0) 2 n 8) = [x, y] @ be_bytes 8 n" for x y n
    by (simp_all add: store_length_eq memcpy_at_def)
  have "n \<le> 2 ^ 32 - 1 \<longleftrightarrow> n < 2 ^ 32" for n :: nat by auto
  then show "a \<noteq> [] \<Longrightarrow> pad16 (ccm_aad_header (length a) @ a) = ccm_aad a"
    unfolding ccm_aad_header_def ccm_aad_def Let_def h c by simp
qed

lemma length_ccm_blocks [simp]: "length nonce \<le> 13 \<Longrightarrow> length (ccm_counter nonce i) = 16" "length nonce \<le> 13 \<Longrightarrow> length (ccm_b0 nonce a t n) = 16"
  by (simp_all add: ccm_counter_def ccm_b0_def)

lemma dvd_ccm_aad: "16 dvd length (ccm_aad a)"
  using dvd_pad16 by (simp add: ccm_aad_def)

lemma length_ccm_mac [simp]:
  assumes "length nonce \<le> 13"
  shows "length (ccm_mac k nonce a t p) = 16"
proof -
  have "16 dvd length (ccm_b0 nonce (length a) t (length p) @ ccm_aad a @ pad16 p)"
    using dvd_add [OF dvd_ccm_aad [of a] dvd_pad16 [of p]] assms by simp
  from chunks_width [OF _ this] show ?thesis
    using cbc_mac_cong [of 16 "fips_aes k" "fips_aes k" _ "replicate 16 0"] by (simp add: ccm_mac_def)
qed

section \<open>The MAC over the formatted message\<close>

lemma pad_state:
  assumes "aes_key_ok bk" "mac_state (cipher_fun (tc_aes_block_cipher bk)) 16 init msg mac block fill" "fill < 16"
  shows "\<exists>mac' block'. tc_mac_cbc_pad (tc_aes_block_cipher bk) mac block fill = (TC_OK, mac', block', 0) \<and> length mac' = length mac \<and>
    mac_state (cipher_fun (tc_aes_block_cipher bk)) 16 init (pad16 msg) mac' block' 0"
proof -
  let ?E = "cipher_fun (tc_aes_block_cipher bk)"
  obtain q where q: "16 * q + fill = length msg" using assms(2) by (auto simp: mac_state_def)
  then have r: "length msg mod 16 = fill" using assms(3) mod_mult_self2 [of fill 16 q] by (simp add: add.commute)
  show ?thesis
  proof (cases "fill = 0")
    case True
    then show ?thesis using assms(2) r by (simp add: tc_mac_cbc_pad_def pad16_def)
  next
    case False
    let ?z = "replicate (16 - fill) 0" let ?b = "memcpy_at block fill ?z"
    have p: "pad16 msg = msg @ ?z" using False r assms(3) by (simp add: pad16_def)
    have "mac_state ?E 16 init (msg @ ?z) mac ?b (fill + length ?z)"
      using aes_mac.mac_state_fill(1) [OF assms(2), of ?z] assms(3) by simp
    then have "mac_state ?E 16 init (pad16 msg) mac ?b 16" using assms(3) by (simp add: p)
    from aes_mac.mac_state_flush [OF assms(1) this] obtain mac' where
      m: "tc_mac_cbc_block (tc_aes_block_cipher bk) mac ?b = (TC_OK, mac')" "length mac' = length mac" "mac_state ?E 16 init (pad16 msg) mac' ?b 0" by blast
    have "16 \<le> length ?b" using m(3) by (simp add: mac_state_def)
    then have "mac_state ?E 16 init (pad16 msg) mac' (memcpy_at ?b 0 (replicate 16 0)) 0"
      using m(3) by (simp add: mac_state_def length_memcpy_at)
    then show ?thesis using False m by (simp add: tc_mac_cbc_pad_def aes.fwd_size)
  qed
qed

lemma absorb_aad_state:
  assumes "aes_key_ok bk" "mac_state (cipher_fun (tc_aes_block_cipher bk)) 16 init msg mac block 0" "length (b_mem aad) = b_length aad"
    "16 dvd length msg"
  shows "\<exists>mac' block'. ccm_absorb_aad (tc_aes_block_cipher bk) mac block 0 aad = (TC_OK, mac', block', 0) \<and> length mac' = length mac \<and>
    mac_state (cipher_fun (tc_aes_block_cipher bk)) 16 init (msg @ ccm_aad (b_mem aad)) mac' block' 0"
proof (cases "b_length aad = 0")
  case True
  then show ?thesis using assms(2,3) by (simp add: ccm_absorb_aad_def ccm_aad_def)
next
  case False
  let ?c = "tc_aes_block_cipher bk" let ?E = "cipher_fun ?c" let ?h = "ccm_aad_header (b_length aad)"
  obtain m1 b1 f1 where u1: "tc_mac_cbc_update ?c mac block 0 ?h False = (TC_OK, m1, b1, f1)" "length m1 = length mac" "mac_state ?E 16 init (msg @ ?h) m1 b1 f1"
    using aes_mac.cbc_update_eq [OF assms(1,2), of ?h False] by auto
  obtain m2 b2 f2 where u2: "tc_mac_cbc_update ?c m1 b1 f1 (b_mem aad) False = (TC_OK, m2, b2, f2)" "length m2 = length m1"
    "mac_state ?E 16 init ((msg @ ?h) @ b_mem aad) m2 b2 f2" "f2 < 16"
    using aes_mac.cbc_update_eq [OF assms(1) u1(3), of "b_mem aad" False] by auto
  obtain m3 b3 where u3: "tc_mac_cbc_pad ?c m2 b2 f2 = (TC_OK, m3, b3, 0)" "length m3 = length m2"
    "mac_state ?E 16 init (pad16 ((msg @ ?h) @ b_mem aad)) m3 b3 0" using pad_state [OF assms(1) u2(3,4)] by blast
  have ne: "b_mem aad \<noteq> []" using False assms(3) by auto
  have "pad16 ((msg @ ?h) @ b_mem aad) = msg @ ccm_aad (b_mem aad)"
    using aad_header_eq [OF ne] assms(3) pad16_append [OF assms(4), of "?h @ b_mem aad"] by simp
  then show ?thesis using False u1 u2 u3 by (simp add: ccm_absorb_aad_def)
qed

lemma ctr_stream_next:
  assumes "be_val w' = (be_val w + 1) mod 256 ^ 16"
  shows "ctr_stream E 16 (be_val w') p = ctr_stream E 16 (be_val w) (16 + p)"
proof -
  have "(be_val w' + p div 16) mod 256 ^ 16 = (be_val w + (16 + p) div 16) mod 256 ^ 16"
    unfolding assms using div_add_self1 [of 16 p] by (simp add: mod_add_left_eq add.assoc)
  then have "be_bytes 16 (be_val w' + p div 16) = be_bytes 16 (be_val w + (16 + p) div 16)"
    by (intro be_val_inject) (simp_all only: length_be_bytes be_val_be_bytes)
  then show ?thesis by (simp add: ctr_stream_def)
qed

lemma increment_val: "length w = 16 \<Longrightarrow> be_val (fst (tc_internal_increment_be w 16)) = (be_val w + 1) mod 256 ^ 16"
  using increment_be_loop_val(1) [of 16 w] by (simp add: tc_internal_increment_be_def)

lemma add_stream_shift: "add_stream f (n + p) xs = add_stream (\<lambda>i. f (n + i)) p xs"
  by (simp add: add_stream_def add.assoc)

lemma decrypt_loop_state:
  assumes "aes_env_wf e" "aes_keyed e k c"
  defines "bk \<equiv> aead_block_key e c"
  shows "length work = 16 \<Longrightarrow> length plain = 16 \<Longrightarrow> mac_state (cipher_fun (tc_aes_block_cipher bk)) 16 init msg mac block fill \<Longrightarrow> fill < 16 \<Longrightarrow>
    \<exists>mac' block' fill'. ccm_decrypt_loop e c work mac block fill plain input = (TC_OK, mac', block', fill') \<and> length mac' = length mac \<and> fill' < 16 \<and>
      mac_state (cipher_fun (tc_aes_block_cipher bk)) 16 init (msg @ add_stream (ctr_stream (fips_aes k) 16 (be_val work)) 0 input) mac' block' fill'"
proof (induction input arbitrary: work plain msg mac block fill rule: length_induct)
  case (1 input)
  let ?c = "tc_aes_block_cipher bk" let ?E = "cipher_fun ?c" let ?s = "ctr_stream (fips_aes k) 16 (be_val work)"
  have bk: "aes_key_ok bk" using block_key_forD(1) [OF aead_block_key_for [OF assms(1,2)]] by (simp add: bk_def)
  show ?case
  proof (cases "input = []")
    case True
    then show ?thesis using 1 by (simp add: ccm_decrypt_loop.simps)
  next
    case False
    define n where "n = (if length input < 16 then length input else 16)"
    have n: "0 < n" "n \<le> length input" "n \<le> 16" using False by (auto simp: n_def)
    let ?p = "add_stream ?s 0 (take n input)"
    have x: "tc_aes_mac_ctr_xor e (kc_round_key c) work input plain n tc_aes_ccm_counter_bits = (TC_OK, ?p @ drop n plain)"
      using mac_ctr_xor_eq [OF assms(1,2) n(2), of plain work tc_aes_ccm_counter_bits] 1(2,3) n
      by (simp add: ctr_cleared_def tc_aes_ccm_counter_bits_def)
    obtain m b f where u: "tc_mac_cbc_update ?c mac block fill ?p False = (TC_OK, m, b, f)" "length m = length mac" "mac_state ?E 16 init (msg @ ?p) m b f" "f < 16"
      using aes_mac.cbc_update_eq [OF bk 1(4), of ?p False] by auto
    let ?w = "fst (tc_internal_increment_be work 16)"
    have lw: "length ?w = 16" using 1(2) by (simp add: tc_internal_increment_be_def)
    have step: "ccm_decrypt_loop e c work mac block fill plain input = ccm_decrypt_loop e c ?w m b f (?p @ drop n plain) (drop n input)"
      unfolding ccm_decrypt_loop.simps [of e c work mac block fill plain input] TC_AES_BLOCKLEN_def n_def [symmetric] bk_def [symmetric] Let_def x
      using False u(1) n(2) by simp
    have "length (drop n input) < length input" "length (?p @ drop n plain) = 16" using n False 1(3) by simp_all
    from 1(1) [rule_format, OF this(1) lw this(2) u(3,4)] obtain mac' block' fill' where
      r: "ccm_decrypt_loop e c ?w m b f (?p @ drop n plain) (drop n input) = (TC_OK, mac', block', fill')" "length mac' = length m" "fill' < 16"
        "mac_state ?E 16 init ((msg @ ?p) @ add_stream (ctr_stream (fips_aes k) 16 (be_val ?w)) 0 (drop n input)) mac' block' fill'" by blast
    have "?p @ add_stream (ctr_stream (fips_aes k) 16 (be_val ?w)) 0 (drop n input) = add_stream ?s 0 input"
    proof (cases "n = 16")
      case True
      have "ctr_stream (fips_aes k) 16 (be_val ?w) = (\<lambda>p. ?s (16 + p))"
        by (rule ext) (rule ctr_stream_next [OF increment_val [OF 1(2)]])
      then show ?thesis
        using add_stream_append [of ?s 0 "take n input" "drop n input"] add_stream_shift [of ?s 16 0 "drop n input"] True n(2) by simp
    next
      case False
      then have "n = length input" by (auto simp: n_def split: if_splits)
      then show ?thesis by simp
    qed
    then show ?thesis unfolding step using r u(2) by auto
  qed
qed

section \<open>The counter blocks\<close>

lemma be_val_counter:
  assumes "i < 256 ^ (15 - length nonce)"
  shows "be_val (ccm_counter nonce i) = be_val (of_nat (14 - length nonce) # nonce) * 256 ^ (15 - length nonce) + i"
  using assms be_val_append [of "of_nat (14 - length nonce) # nonce" "be_bytes (15 - length nonce) i"] by (simp add: ccm_counter_def)

lemma counter_next:
  assumes "length nonce \<le> 13" "Suc i < 256 ^ (15 - length nonce)"
  shows "fst (tc_internal_increment_be (ccm_counter nonce i) 16) = ccm_counter nonce (Suc i)"
proof (rule be_val_inject)
  have "be_val (ccm_counter nonce (Suc i)) = be_val (ccm_counter nonce i) + 1" using assms(2) by (simp add: be_val_counter)
  moreover have "be_val (ccm_counter nonce (Suc i)) < 256 ^ 16" using be_val_less [of "ccm_counter nonce (Suc i)"] assms(1) by simp
  ultimately show "be_val (fst (tc_internal_increment_be (ccm_counter nonce i) 16)) = be_val (ccm_counter nonce (Suc i))"
    using increment_val [of "ccm_counter nonce i"] assms(1) by simp
  show "length (fst (tc_internal_increment_be (ccm_counter nonce i) 16)) = length (ccm_counter nonce (Suc i))"
    using assms(1) by (simp add: tc_internal_increment_be_def)
qed

text \<open>The payload limit keeps the counter out of the nonce.\<close>

lemma ccm_stream_eq:
  assumes "length nonce \<le> 13" "length x < 256 ^ (15 - length nonce)"
  shows "add_stream (ctr_stream (fips_aes k) 16 (be_val (ccm_counter nonce 1))) 0 x = ccm_text k nonce x"
proof -
  have "ctr_stream (fips_aes k) 16 (be_val (ccm_counter nonce 1)) p = fips_aes k (ccm_counter nonce (Suc (p div 16))) ! (p mod 16)" if "p < length x" for p
  proof -
    have "p div 16 \<le> p" by (rule div_le_dividend)
    then have s: "Suc (p div 16) < 256 ^ (15 - length nonce)" using that assms(2) by linarith
    then have "1 < (256 :: nat) ^ (15 - length nonce)" by linarith
    then have v: "be_val (ccm_counter nonce (Suc (p div 16))) = be_val (ccm_counter nonce 1) + p div 16" using s by (simp add: be_val_counter)
    have "be_bytes 16 (be_val (ccm_counter nonce (Suc (p div 16)))) = ccm_counter nonce (Suc (p div 16))"
      using assms(1) by (intro be_bytes_be_val) simp
    then show ?thesis unfolding ctr_stream_def v by simp
  qed
  then show ?thesis by (simp add: ccm_text_def add_stream_def)
qed

section \<open>Whole messages\<close>

definition ccm_args :: "TC_bytes \<Rightarrow> TC_bytes \<Rightarrow> TC_bytes \<Rightarrow> TC_bytes \<Rightarrow> TC_buffer \<Rightarrow> addr \<Rightarrow> nat \<Rightarrow> bool" where
  "ccm_args k nonce aad input out tag t \<longleftrightarrow>
     b_data k \<noteq> NULL \<and> b_data nonce \<noteq> NULL \<and> tag \<noteq> NULL \<and> tc_internal_span_valid (b_data aad) (b_length aad) \<and> tc_aes_text_ok input out \<and>
     7 \<le> b_length nonce \<and> b_length nonce \<le> 13 \<and> b_length input < 256 ^ (15 - b_length nonce) \<and>
     tc_internal_ranges_disjoint (w_data out) (b_length input) tag t"

lemma payload_valid_iff:
  assumes "7 \<le> m" "m \<le> 13" "n < 2 ^ 64"
  shows "tc_aes_ccm_payload_length_is_valid m n \<longleftrightarrow> n < 256 ^ (15 - m)"
proof -
  have "(256 :: nat) ^ j = 2 ^ (8 * j)" for j by (simp add: power_mult)
  moreover have "(n \<le> x - 1) = (n < x)" if "0 < x" for x :: nat using that by linarith
  ultimately show ?thesis
    using assms by (cases "15 - m = 8") (simp_all add: tc_aes_ccm_payload_length_is_valid_def tc_aes_ccm_length_field_size_def Let_def)
qed

lemma ccm_refused:
  assumes "\<not> ccm_args k nonce aad input out a n" "a = (if b_data x \<noteq> NULL then b_data x else w_data t)"
  shows "tc_aes_ccm_crypt e at tag_at k nonce aad input out x t n = (TC_ERROR, out, t)"
proof (rule ccontr)
  assume r: "tc_aes_ccm_crypt e at tag_at k nonce aad input out x t n \<noteq> (TC_ERROR, out, t)"
  then have ok: "tc_aes_text_ok input out" "7 \<le> b_length nonce" "b_length nonce \<le> 13" "tc_aes_ccm_payload_length_is_valid (b_length nonce) (b_length input)"
    by (auto simp: tc_aes_ccm_crypt_def Let_def TC_AES_CCM_MIN_NONCE_LEN_def TC_AES_CCM_MAX_NONCE_LEN_def split: if_splits)
  have "b_length input < 2 ^ 64" using ok(1) by (auto simp: tc_aes_text_ok_def tc_internal_span_valid_def UINTPTR_MAX_def split: if_splits)
  then have "b_length input < 256 ^ (15 - b_length nonce)" using ok payload_valid_iff by simp
  with assms r ok show False by (auto simp: tc_aes_ccm_crypt_def Let_def ccm_args_def split: if_splits)
qed

lemma ccm_tag_length_le: "tc_aes_ccm_tag_length_allowed mtl n short \<Longrightarrow> n \<le> 16"
  by (auto simp: tc_aes_ccm_tag_length_allowed_def tc_internal_tag_length_allowed_def TC_AES_BLOCKLEN_def split: if_splits)

text \<open>The MAC and the mask, common to both directions.\<close>

lemma ccm_steps:
  fixes t n :: nat
  assumes "aes_env_wf e" "aes_keyed e k c" "length (b_mem aad) = b_length aad" "length nonce \<le> 13"
  defines "cipher \<equiv> tc_aes_block_cipher (aead_block_key e c)"
  defines "b0 \<equiv> ccm_b0 nonce (b_length aad) t n"
  shows "\<exists>m1 m2 b2. tc_mac_cbc_block cipher (replicate 16 0) b0 = (TC_OK, m1) \<and> ccm_absorb_aad cipher m1 (replicate 16 0) 0 aad = (TC_OK, m2, b2, 0) \<and>
    length m2 = 16 \<and> mac_state (cipher_fun cipher) 16 (replicate 16 0) (b0 @ ccm_aad (b_mem aad)) m2 b2 0"
proof -
  let ?z = "replicate 16 0"
  have bk: "aes_key_ok (aead_block_key e c)" by (rule block_key_forD(1) [OF aead_block_key_for [OF assms(1,2)]])
  have lb: "length b0 = 16" using assms(4) by (simp add: b0_def)
  have "mac_state (cipher_fun cipher) 16 ?z [] ?z ?z 0" by (simp add: mac_state_def)
  from aes_mac.mac_state_block [OF bk this [unfolded cipher_def], of b0] lb obtain m1 where
    m1: "tc_mac_cbc_block cipher ?z b0 = (TC_OK, m1)" "length m1 = 16" "mac_state (cipher_fun cipher) 16 ?z b0 m1 ?z 0" by (auto simp: cipher_def)
  have "16 dvd length b0" using lb by simp
  from absorb_aad_state [OF bk m1(3) [unfolded cipher_def] assms(3) this] m1 show ?thesis by (auto simp: cipher_def)
qed

lemma ccm_final:
  assumes "aes_env_wf e" "aes_keyed e k c" "mac_state (cipher_fun cipher) 16 (replicate 16 0) ((b0 @ ccm_aad aad) @ p) mac block fill"
    "fill < 16" "length mac = 16" "cipher = tc_aes_block_cipher (aead_block_key e c)" "b0 = ccm_b0 nonce (length aad) t (length p)" "length nonce \<le> 13"
  shows "\<exists>block'. tc_mac_cbc_pad cipher mac block fill = (TC_OK, ccm_mac k nonce aad t p, block', 0) \<and> length (ccm_mac k nonce aad t p) = 16"
proof -
  note bkf = aead_block_key_for [OF assms(1,2)]
  have bk: "aes_key_ok (aead_block_key e c)" by (rule block_key_forD(1) [OF bkf])
  let ?E = "cipher_fun cipher" let ?m = "b0 @ ccm_aad aad @ pad16 p"
  from pad_state [OF bk assms(3,4) [unfolded assms(6)]] obtain mac' block' where
    s: "tc_mac_cbc_pad cipher mac block fill = (TC_OK, mac', block', 0)" "length mac' = 16" "mac_state ?E 16 (replicate 16 0) (pad16 ((b0 @ ccm_aad aad) @ p)) mac' block' 0"
    using assms(5,6) by auto
  have d: "16 dvd length (b0 @ ccm_aad aad)" using dvd_ccm_aad [of aad] assms(7,8) by simp
  have p: "pad16 ((b0 @ ccm_aad aad) @ p) = ?m" using pad16_append [OF d, of p] by simp
  have dm: "16 dvd length ?m" using dvd_add [OF d dvd_pad16 [of p]] by (simp add: add.assoc)
  have "mac' = cbc_mac ?E (replicate 16 0) (chunks 16 ?m)" using s(2,3) unfolding p by (auto simp: mac_state_def)
  moreover have "cbc_mac ?E (replicate 16 0) (chunks 16 ?m) = cbc_mac (fips_aes k) (replicate 16 0) (chunks 16 ?m)"
    using cbc_mac_cong [of 16 ?E "fips_aes k" "chunks 16 ?m" "replicate 16 0"] block_key_forD(2) [OF bkf] aes.fwd_length [OF bk] chunks_width [OF _ dm]
    by (simp add: assms(6))
  ultimately have "mac' = ccm_mac k nonce aad t p" by (simp add: ccm_mac_def assms(7))
  then show ?thesis using s(1,2) by blast
qed

lemma ccm_args_facts:
  assumes "ccm_args k nonce aad input out tag t" "bytes_wf nonce" "bytes_wf aad" "bytes_wf input" "buffer_wf out"
  shows "length (b_mem nonce) = b_length nonce" "length (b_mem aad) = b_length aad" "length (b_mem input) = b_length input"
    "b_length input \<le> length (w_mem out)" "b_length nonce \<le> 13" "tc_aes_ccm_payload_length_is_valid (b_length nonce) (b_length input)"
    "1 < (256 :: nat) ^ (15 - b_length nonce)"
proof -
  show "length (b_mem nonce) = b_length nonce" "length (b_mem aad) = b_length aad" "b_length nonce \<le> 13"
    using assms span_mem_length by (auto simp: ccm_args_def bytes_wf_def)
  show "length (b_mem input) = b_length input" "b_length input \<le> length (w_mem out)"
    using text_ok_facts assms(1,4,5) by (auto simp: ccm_args_def)
  have "b_length input < 2 ^ 64"
    using assms(1) by (auto simp: ccm_args_def tc_aes_text_ok_def tc_internal_span_valid_def UINTPTR_MAX_def split: if_splits)
  then show "tc_aes_ccm_payload_length_is_valid (b_length nonce) (b_length input)"
    using assms(1) payload_valid_iff by (simp add: ccm_args_def)
  have "15 - b_length nonce \<noteq> 0" using assms(1) by (auto simp: ccm_args_def)
  then show "1 < (256 :: nat) ^ (15 - b_length nonce)" using one_less_power [of "256 :: nat" "15 - b_length nonce"] by simp
qed

lemma ccm_ctr:
  assumes "aes_env_wf e" "aes_keyed e k c" "length nonce \<le> 13" "length x = n" "n < 256 ^ (15 - length nonce)" "n \<le> length m"
  shows "tc_aes_mac_ctr_xor e (kc_round_key c) (ccm_counter nonce 1) x m n tc_aes_ccm_counter_bits = (TC_OK, ccm_text k nonce x @ drop n m)"
  using mac_ctr_xor_eq [OF assms(1,2), of n x m "ccm_counter nonce 1" tc_aes_ccm_counter_bits] assms(3-6) ccm_stream_eq [of nonce x k]
  by (simp add: ctr_cleared_def tc_aes_ccm_counter_bits_def)

lemma ccm_mask:
  assumes "aes_env_wf e" "aes_keyed e k c" "length nonce \<le> 13"
  shows "tc_aes_cipher e (ccm_counter nonce 0) (kc_round_key c) = (TC_OK, fips_aes k (ccm_counter nonce 0))"
  using cipher_keyed [OF assms(1,2)] assms(3) by simp

lemma ccm_encrypt_core:
  assumes "aes_env_wf e" "bytes_wf k" "at \<noteq> NULL" "key_args_ok e at (sizeof_key_ctx e) k" "bytes_wf nonce" "bytes_wf aad" "bytes_wf input" "buffer_wf out"
    "ccm_args k nonce aad input out (w_data tag) t" "b_data expected = NULL"
  shows "tc_aes_ccm_crypt e at tag_at k nonce aad input out expected tag t =
    (TC_OK, out\<lparr>w_mem := ccm_text (b_mem k) (b_mem nonce) (b_mem input) @ drop (b_length input) (w_mem out)\<rparr>,
     tag\<lparr>w_mem := memcpy_at (w_mem tag) 0 (ccm_tag (b_mem k) (b_mem nonce) (b_mem aad) t (b_mem input))\<rparr>)"
proof -
  let ?N = "b_mem nonce" and ?K = "b_mem k" and ?P = "b_mem input" and ?A = "b_mem aad"
  obtain ko where ko: "aead_key_init e at k = (TC_OK, ko)" "aes_keyed e ?K (o_val ko)" using aead_key_keyed [OF assms(1-4)] by blast
  note f = ccm_args_facts [OF assms(9,5-8)]
  let ?c = "tc_aes_block_cipher (aead_block_key e (o_val ko))" let ?b0 = "ccm_b0 ?N (b_length aad) t (b_length input)"
  have n13: "length ?N \<le> 13" using f(1,5) by simp
  obtain m1 m2 b2 where s: "tc_mac_cbc_block ?c (replicate 16 0) ?b0 = (TC_OK, m1)" "ccm_absorb_aad ?c m1 (replicate 16 0) 0 aad = (TC_OK, m2, b2, 0)"
    "length m2 = 16" "mac_state (cipher_fun ?c) 16 (replicate 16 0) (?b0 @ ccm_aad ?A) m2 b2 0"
    using ccm_steps [OF assms(1) ko(2) f(2) n13, of t "b_length input"] by blast
  have bk: "aes_key_ok (aead_block_key e (o_val ko))" by (rule block_key_forD(1) [OF aead_block_key_for [OF assms(1) ko(2)]])
  obtain m3 b3 f3 where u: "tc_mac_cbc_update ?c m2 b2 0 ?P False = (TC_OK, m3, b3, f3)" "length m3 = 16" "f3 < 16"
    "mac_state (cipher_fun ?c) 16 (replicate 16 0) ((?b0 @ ccm_aad ?A) @ ?P) m3 b3 f3"
    using aes_mac.cbc_update_eq [OF bk s(4), of ?P False] s(3) by auto
  obtain b4 where p: "tc_mac_cbc_pad ?c m3 b3 f3 = (TC_OK, ccm_mac ?K ?N ?A t ?P, b4, 0)" "length (ccm_mac ?K ?N ?A t ?P) = 16"
    using ccm_final [OF assms(1) ko(2) u(4,3,2) refl _ n13] f(2,3) by auto
  note mask = ccm_mask [OF assms(1) ko(2) n13]
  have nxt: "fst (tc_internal_increment_be (ccm_counter ?N 0) 16) = ccm_counter ?N 1" using counter_next [OF n13, of 0] f(1,7) by simp
  have "b_length input < 256 ^ (15 - length ?N)" using assms(9) f(1) by (simp add: ccm_args_def)
  note ctr = ccm_ctr [OF assms(1) ko(2) n13 f(3) this f(4)]
  have tg: "map (\<lambda>i. ccm_mac ?K ?N ?A t ?P ! i XOR fips_aes ?K (ccm_counter ?N 0) ! i) [0..<16] = xorl (ccm_mac ?K ?N ?A t ?P) (fips_aes ?K (ccm_counter ?N 0))"
    by (rule nth_equalityI) (simp_all add: p(2))
  show ?thesis
    using assms(9,10) f s(1,2) u(1) p(1) mask ctr nxt tg ko(1)
    by (simp add: tc_aes_ccm_crypt_def Let_def TC_AES_BLOCKLEN_def ccm_args_def TC_AES_CCM_MIN_NONCE_LEN_def TC_AES_CCM_MAX_NONCE_LEN_def
        first_block_eq [OF n13] make_counter_eq [OF n13] ccm_tag_def)
qed

lemma ccm_decrypt_core:
  assumes "aes_env_wf e" "bytes_wf k" "at \<noteq> NULL" "tag_at \<noteq> NULL" "key_args_ok e at (sizeof_key_ctx e) k" "bytes_wf nonce" "bytes_wf aad" "bytes_wf input"
    "buffer_wf out" "ccm_args k nonce aad input out (b_data expected) t" "bytes_wf expected" "t = b_length expected" "t \<le> 16"
  defines "p \<equiv> ccm_text (b_mem k) (b_mem nonce) (b_mem input)"
  shows "tc_aes_ccm_crypt e at tag_at k nonce aad input out expected tag t =
    (if b_mem expected = ccm_tag (b_mem k) (b_mem nonce) (b_mem aad) t p
     then (TC_OK, out\<lparr>w_mem := p @ drop (b_length input) (w_mem out)\<rparr>, tag)
     else (TC_MISMATCH, out\<lparr>w_mem := replicate (b_length input) 0 @ drop (b_length input) (w_mem out)\<rparr>, tag))"
proof -
  let ?N = "b_mem nonce" and ?K = "b_mem k" and ?A = "b_mem aad"
  obtain ko where ko: "aead_key_init e at k = (TC_OK, ko)" "aes_keyed e ?K (o_val ko)" using aead_key_keyed [OF assms(1-3,5)] by blast
  note f = ccm_args_facts [OF assms(10,6-9)]
  let ?c = "tc_aes_block_cipher (aead_block_key e (o_val ko))" let ?b0 = "ccm_b0 ?N (b_length aad) t (b_length input)"
  have n13: "length ?N \<le> 13" using f(1,5) by simp
  have lp: "length p = b_length input" using f(3) by (simp add: p_def)
  obtain m1 m2 b2 where s: "tc_mac_cbc_block ?c (replicate 16 0) ?b0 = (TC_OK, m1)" "ccm_absorb_aad ?c m1 (replicate 16 0) 0 aad = (TC_OK, m2, b2, 0)"
    "length m2 = 16" "mac_state (cipher_fun ?c) 16 (replicate 16 0) (?b0 @ ccm_aad ?A) m2 b2 0"
    using ccm_steps [OF assms(1) ko(2) f(2) n13, of t "b_length input"] by blast
  have lim: "b_length input < 256 ^ (15 - length ?N)" using assms(10) f(1) by (simp add: ccm_args_def)
  have "add_stream (ctr_stream (fips_aes ?K) 16 (be_val (ccm_counter ?N 1))) 0 (b_mem input) = p"
    using ccm_stream_eq [OF n13, of "b_mem input" ?K] lim f(3) by (simp add: p_def)
  with decrypt_loop_state [OF assms(1) ko(2) _ _ s(4), of "ccm_counter ?N 1" "replicate 16 0" "b_mem input"] n13 s(3)
  obtain m3 b3 f3 where u: "ccm_decrypt_loop e (o_val ko) (ccm_counter ?N 1) m2 b2 0 (replicate 16 0) (b_mem input) = (TC_OK, m3, b3, f3)" "length m3 = 16" "f3 < 16"
    "mac_state (cipher_fun ?c) 16 (replicate 16 0) ((?b0 @ ccm_aad ?A) @ p) m3 b3 f3" by auto
  obtain b4 where pd: "tc_mac_cbc_pad ?c m3 b3 f3 = (TC_OK, ccm_mac ?K ?N ?A t p, b4, 0)" "length (ccm_mac ?K ?N ?A t p) = 16"
    using ccm_final [OF assms(1) ko(2) u(4,3,2) refl _ n13] f(2) lp by auto
  note mask = ccm_mask [OF assms(1) ko(2) n13]
  have nxt: "fst (tc_internal_increment_be (ccm_counter ?N 0) 16) = ccm_counter ?N 1" using counter_next [OF n13, of 0] f(1,7) by simp
  note ctr = ccm_ctr [OF assms(1) ko(2) n13 f(3) lim f(4), folded p_def]
  have tg: "map (\<lambda>i. ccm_mac ?K ?N ?A t p ! i XOR fips_aes ?K (ccm_counter ?N 0) ! i) [0..<16] = xorl (ccm_mac ?K ?N ?A t p) (fips_aes ?K (ccm_counter ?N 0))"
    by (rule nth_equalityI) (simp_all add: pd(2))
  have lx: "length (b_mem expected) = t" "b_data expected \<noteq> NULL" using assms(10-12) by (auto simp: ccm_args_def bytes_wf_def)
  let ?T = "ccm_tag ?K ?N ?A t p"
  have ct: "TC_ct_equal \<lparr>b_data = tag_at, b_length = t, b_mem = ?T\<rparr> \<lparr>b_data = b_data expected, b_length = t, b_mem = b_mem expected\<rparr> =
      (if b_mem expected = ?T then TC_OK else TC_MISMATCH)"
    using lx assms(4,13) pd(2) by (subst TC_ct_equal_valid) (auto simp: bytes_wf_def ccm_tag_def)
  have ok: "tc_aes_text_ok input out" using assms(10) by (simp add: ccm_args_def)
  note wipe = aead_done_error [OF ok assms(9), of TC_MISMATCH]
  have dec: "tc_aes_ccm_crypt e at tag_at k nonce aad input out expected tag t =
      (let status = (if b_mem expected = ?T then TC_OK else TC_MISMATCH)
       in if status = TC_OK then (TC_OK, out\<lparr>w_mem := p @ drop (b_length input) (w_mem out)\<rparr>, tag) else (status, aead_done status out (b_length input), tag))"
    using assms(10) lx f s(1,2) u(1) pd(1) mask ctr nxt tg ko(1) ct
    by (simp add: tc_aes_ccm_crypt_def Let_def TC_AES_BLOCKLEN_def ccm_args_def TC_AES_CCM_MIN_NONCE_LEN_def TC_AES_CCM_MAX_NONCE_LEN_def
        first_block_eq [OF n13] make_counter_eq [OF n13] ccm_tag_def)
  show ?thesis unfolding dec using wipe by (simp add: Let_def)
qed

end
