(* ===== verification/AES_GHASH.thy ===== *)
theory AES_GHASH
  imports AES_AEAD
begin

text \<open>
  GHASH of AES-GCM, \<^verbatim>\<open>src/src/aes_ghash.c\<close>, with the GCM context it runs on. The lemmas show that each multiplier a
  build can select computes the product of SP 800-38D section 6.3.
\<close>

section \<open>Build options and the context (aes.h)\<close>

datatype ghash_mode =
  TC_AES_GCM_GHASH_MODE_AUTO | TC_AES_GCM_GHASH_MODE_BITWISE | TC_AES_GCM_GHASH_MODE_WIDE |
  TC_AES_GCM_GHASH_MODE_FAST_TABLE | TC_AES_GCM_GHASH_MODE_HARDWARE

text \<open>
  \<open>gb_hardware\<close> is \<^verbatim>\<open>TC_AES_GCM_hardware_multiply\<close>, which the platform supplies. The type \<^verbatim>\<open>uint64_t\<close> exists in the modelled
  builds.
\<close>

record gcm_build =
  gb_mode :: ghash_mode
  gb_wide_ops :: bool
  gb_hardware :: "u8 list \<Rightarrow> u8 list \<Rightarrow> u8 list"

text \<open>The members of type \<^verbatim>\<open>uint8_t\<close> and \<^verbatim>\<open>uint64_t\<close> that count are natural numbers; additions carry their modulus.\<close>

record TC_AES_GCM_ctx =
  gc_key :: TC_AES_key_ctx
  gc_h :: "u8 list"
  gc_j0 :: "u8 list"
  gc_counter :: "u8 list"
  gc_stream :: "u8 list"
  gc_s :: "u8 list"
  gc_ghash :: "u8 list"
  gc_ghash_table :: "u8 list list"
  gc_aad_len :: nat
  gc_text_len :: nat
  gc_stream_pos :: nat
  gc_ghash_len :: nat
  gc_tag_len :: nat
  gc_phase :: u8

section \<open>Multiplication\<close>

definition multiply_x_step :: "nat \<Rightarrow> u8 list \<times> u8 \<Rightarrow> u8 list \<times> u8" where
  "multiply_x_step i s =
     (case s of (value, carry) \<Rightarrow>
       (value[i := drop_bit 1 (value ! i) OR push_bit 7 carry], value ! i AND 1))"

definition tc_aes_gcm_multiply_x :: "u8 list \<Rightarrow> u8 list" where
  "tc_aes_gcm_multiply_x value =
     (case fold multiply_x_step [0..<TC_AES_BLOCKLEN] (value, 0) of (value, carry) \<Rightarrow>
        value[0 := value ! 0 XOR (0xe1 AND (0 - carry))])"

definition multiply_bitwise_step :: "u8 list \<Rightarrow> nat \<Rightarrow> u8 list \<times> u8 list \<Rightarrow> u8 list \<times> u8 list" where
  "multiply_bitwise_step left n s =
     (case s of (z, v) \<Rightarrow>
       let bit_mask = 0 - (drop_bit (7 - n mod 8) (left ! (n div 8)) AND 1)
       in (fold (\<lambda>i z. z[i := z ! i XOR (v ! i AND bit_mask)]) [0..<TC_AES_BLOCKLEN] z, tc_aes_gcm_multiply_x v))"

definition tc_aes_gcm_multiply_bitwise :: "u8 list \<Rightarrow> u8 list \<Rightarrow> u8 list" where
  "tc_aes_gcm_multiply_bitwise left right =
     fst (fold (multiply_bitwise_step left) [0..<128] (replicate TC_AES_BLOCKLEN 0, take TC_AES_BLOCKLEN right))"

text \<open>The state of the wide loop is \<open>xh, xl, zh, zl, vh, vl\<close>.\<close>

definition multiply_wide_step :: "u64 \<times> u64 \<times> u64 \<times> u64 \<times> u64 \<times> u64 \<Rightarrow> u64 \<times> u64 \<times> u64 \<times> u64 \<times> u64 \<times> u64" where
  "multiply_wide_step s =
     (case s of (xh, xl, zh, zl, vh, vl) \<Rightarrow>
       let bit_mask = 0 - drop_bit 63 xh;
           reduction = 0xe100000000000000 AND (0 - (vl AND 1))
       in (push_bit 1 xh OR drop_bit 63 xl, push_bit 1 xl, zh XOR (vh AND bit_mask), zl XOR (vl AND bit_mask),
           drop_bit 1 vh XOR reduction, drop_bit 1 vl OR push_bit 63 vh))"

definition tc_aes_gcm_multiply_wide :: "u8 list \<Rightarrow> u8 list \<Rightarrow> u8 list" where
  "tc_aes_gcm_multiply_wide left right =
     (case (multiply_wide_step ^^ 128)
             (tc_internal_load_be64 left, tc_internal_load_be64 (drop 8 left), 0, 0,
              tc_internal_load_be64 right, tc_internal_load_be64 (drop 8 right))
      of (xh, xl, zh, zl, vh, vl) \<Rightarrow> tc_internal_store_be64 zh @ tc_internal_store_be64 zl)"

definition tc_aes_gcm_init_table :: "TC_AES_GCM_ctx \<Rightarrow> TC_AES_GCM_ctx" where
  "tc_aes_gcm_init_table ctx =
     ctx\<lparr>gc_ghash_table := map (\<lambda>entry. tc_aes_gcm_multiply_bitwise
           ((replicate TC_AES_BLOCKLEN 0)[0 := push_bit 4 (of_nat entry)]) (gc_h ctx)) [0..<16]\<rparr>"

text \<open>\<open>n\<close> is \<^verbatim>\<open>nibble_position\<close>, which counts down from 31.\<close>

definition multiply_table_step :: "u8 list list \<Rightarrow> u8 list \<Rightarrow> nat \<Rightarrow> u8 list \<Rightarrow> u8 list" where
  "multiply_table_step table left n value =
     (let nibble = (if n mod 2 = 0 then drop_bit 4 (left ! (n div 2)) else left ! (n div 2) AND 0x0f);
          value = (tc_aes_gcm_multiply_x ^^ 4) value
      in fold (\<lambda>i value. value[i := value ! i XOR table ! unat nibble ! i]) [0..<TC_AES_BLOCKLEN] value)"

definition tc_aes_gcm_multiply_fast_table :: "u8 list \<Rightarrow> TC_AES_GCM_ctx \<Rightarrow> u8 list" where
  "tc_aes_gcm_multiply_fast_table left ctx =
     fold (multiply_table_step (gc_ghash_table ctx) left) (rev [0..<32]) (replicate TC_AES_BLOCKLEN 0)"

definition tc_aes_gcm_multiply :: "gcm_build \<Rightarrow> u8 list \<Rightarrow> TC_AES_GCM_ctx \<Rightarrow> u8 list" where
  "tc_aes_gcm_multiply g left ctx =
     (if gb_mode g = TC_AES_GCM_GHASH_MODE_HARDWARE then gb_hardware g left (gc_h ctx)
      else if gb_mode g = TC_AES_GCM_GHASH_MODE_FAST_TABLE then tc_aes_gcm_multiply_fast_table left ctx
      else if gb_mode g = TC_AES_GCM_GHASH_MODE_WIDE \<or> (gb_mode g = TC_AES_GCM_GHASH_MODE_AUTO \<and> gb_wide_ops g)
      then tc_aes_gcm_multiply_wide left (gc_h ctx)
      else tc_aes_gcm_multiply_bitwise left (gc_h ctx))"

definition tc_aes_gcm_ghash_block :: "gcm_build \<Rightarrow> TC_AES_GCM_ctx \<Rightarrow> u8 list \<Rightarrow> TC_AES_GCM_ctx" where
  "tc_aes_gcm_ghash_block g ctx block =
     ctx\<lparr>gc_s := tc_aes_gcm_multiply g (map (\<lambda>i. gc_s ctx ! i XOR block ! i) [0..<TC_AES_BLOCKLEN]) ctx\<rparr>"

section \<open>The product of SP 800-38D\<close>

text \<open>
  A block is a 128-bit string; its leftmost bit is bit 127 of the word. \<open>gcm_x\<close> is the step \<open>V \<mapsto> V'\<close> of algorithm 1 and
  \<open>gcm_mul\<close> the sum it forms.
\<close>

type_synonym block128 = "128 word"

definition gcm_x :: "block128 \<Rightarrow> block128" where
  "gcm_x v = (if bit v 0 then drop_bit 1 v XOR push_bit 120 0xe1 else drop_bit 1 v)"

fun gcm_sum :: "block128 \<Rightarrow> block128 \<Rightarrow> nat \<Rightarrow> block128" where
  "gcm_sum x y 0 = 0"
| "gcm_sum x y (Suc i) = gcm_sum x y i XOR (if bit x (127 - i) then (gcm_x ^^ i) y else 0)"

definition gcm_mul :: "block128 \<Rightarrow> block128 \<Rightarrow> block128" where
  "gcm_mul x y = gcm_sum x y 128"

definition be_word :: "nat \<Rightarrow> u8 list \<Rightarrow> 'a::len word" where
  "be_word k src = fold (\<lambda>i value. push_bit 8 value OR ucast (src ! i)) [0..<k] 0"

definition word_be :: "nat \<Rightarrow> 'a::len word \<Rightarrow> u8 list" where
  "word_be k w = map (\<lambda>i. ucast (drop_bit (8 * (k - 1 - i)) w)) [0..<k]"

definition gcm_mult :: "u8 list \<Rightarrow> u8 list \<Rightarrow> u8 list" where
  "gcm_mult x y = word_be 16 (gcm_mul (be_word 16 x) (be_word 16 y))"

section \<open>Bytes and words\<close>

lemma bit_be_word:
  "bit (be_word k src :: 'a::len word) n \<longleftrightarrow> n < 8 * k \<and> n < LENGTH('a) \<and> bit (src ! (k - 1 - n div 8)) (n mod 8)"
proof (induction k arbitrary: n)
  case (Suc k)
  have "be_word (Suc k) src = push_bit 8 (be_word k src :: 'a word) OR ucast (src ! k)" by (simp add: be_word_def)
  moreover have "n div 8 = 0" if "n < 8" using that by simp
  moreover have "(n - 8) div 8 = n div 8 - 1" "(n - 8) mod 8 = n mod 8" "1 \<le> n div 8" if "8 \<le> n"
    using that by (auto simp: le_div_geq le_mod_geq)
  moreover have "\<not> bit (src ! k) n" if "8 \<le> n" using that by (simp add: bit_imp_le_length not_less [symmetric]) (use bit_imp_le_length in fastforce)
  moreover have "n < 8 * Suc k \<longleftrightarrow> n - 8 < 8 * k" if "8 \<le> n" using that by auto
  ultimately show ?case
    using Suc.IH [of "n - 8"] by (cases "n < 8") (auto simp: bit_simps)
qed (simp add: be_word_def)

lemma nth_word_be: "i < k \<Longrightarrow> word_be k w ! i = ucast (drop_bit (8 * (k - 1 - i)) w)"
  by (simp add: word_be_def)

lemma length_word_be [simp]: "length (word_be k w) = k"
  by (simp add: word_be_def)

lemma be_word_word_be [simp]:
  assumes "8 * k = LENGTH('a)"
  shows "be_word k (word_be k w) = (w :: 'a::len word)"
proof (rule bit_word_eqI)
  fix n assume "n < LENGTH('a)"
  then have n: "n div 8 < k" using assms by (simp add: div_less_iff_less_mult mult.commute)
  then have "k - 1 - (k - 1 - n div 8) = n div 8" by simp
  then show "bit (be_word k (word_be k w) :: 'a word) n = bit w n"
    using n assms \<open>n < LENGTH('a)\<close> by (simp add: bit_be_word nth_word_be bit_simps)
qed

lemma word_be_be_word [simp]:
  assumes "8 * k = LENGTH('a)" "length bs = k"
  shows "word_be k (be_word k bs :: 'a::len word) = bs"
proof (rule nth_equalityI)
  fix i assume "i < length (word_be k (be_word k bs :: 'a word))"
  then have i: "i < k" by simp
  have "8 * (k - 1 - i) + n < 8 * k" if "n < 8" for n using that i by auto
  moreover have "(8 * (k - 1 - i) + n) div 8 = k - 1 - i" "(8 * (k - 1 - i) + n) mod 8 = n" if "n < 8" for n
    using that by simp_all
  moreover have "k - 1 - (k - 1 - i) = i" using i by simp
  ultimately show "word_be k (be_word k bs :: 'a word) ! i = bs ! i"
    using i assms by (intro bit_word_eqI) (simp add: nth_word_be bit_be_word bit_simps)
qed (simp add: assms)

lemma be_word_xorl: "length a = k \<Longrightarrow> length b = k \<Longrightarrow> be_word k (xorl a b) = be_word k a XOR be_word k b"
  by (rule bit_word_eqI) (auto simp: bit_be_word bit_simps)

lemma be_word_zero [simp]: "be_word k (replicate k 0) = 0"
  by (rule bit_word_eqI) (simp add: bit_be_word)

lemma be_word_inject:
  assumes "be_word 16 a = (be_word 16 b :: block128)" "length a = 16" "length b = 16"
  shows "a = b"
proof -
  have "word_be 16 (be_word 16 a :: block128) = word_be 16 (be_word 16 b :: block128)" using assms(1) by simp
  then show ?thesis using assms(2,3) by simp
qed

section \<open>One step of the shift\<close>

lemma multiply_x_fold:
  assumes "n \<le> length v"
  shows "fold multiply_x_step [0..<n] (v, 0) =
    (map (\<lambda>i. drop_bit 1 (v ! i) OR push_bit 7 (if i = 0 then 0 else v ! (i - 1) AND 1)) [0..<n] @ drop n v,
     if n = 0 then 0 else v ! (n - 1) AND 1)"
  using assms
proof (induction n)
  case (Suc n)
  then have "drop n v = v ! n # drop (Suc n) v" by (simp add: Cons_nth_drop_Suc)
  with Suc show ?case by (simp add: multiply_x_step_def nth_append list_update_append)
qed simp

lemma mask_bit: "bit (0 - (of_bool p :: 'a::len word)) n \<longleftrightarrow> n < LENGTH('a) \<and> p"
  by (simp add: bit_simps)

lemma and_1_of_bool: "w AND 1 = (of_bool (bit w 0) :: 'a::len word)"
  by (simp add: and_one_eq mod_2_eq_odd bit_0)

lemma multiply_x_bytes:
  assumes "length v = 16" "i < 16"
  shows "tc_aes_gcm_multiply_x v ! i =
    (drop_bit 1 (v ! i) OR push_bit 7 (if i = 0 then 0 else of_bool (bit (v ! (i - 1)) 0))) XOR
    (if i = 0 then 0xe1 AND (0 - of_bool (bit (v ! 15) 0)) else 0)"
  using assms
  by (simp add: tc_aes_gcm_multiply_x_def multiply_x_fold TC_AES_BLOCKLEN_def and_1_of_bool nth_list_update)

lemma length_multiply_x [simp]: "length v = 16 \<Longrightarrow> length (tc_aes_gcm_multiply_x v) = 16"
  by (simp add: tc_aes_gcm_multiply_x_def multiply_x_fold TC_AES_BLOCKLEN_def)

lemma multiply_x_eq:
  assumes "length v = 16"
  shows "be_word 16 (tc_aes_gcm_multiply_x v) = gcm_x (be_word 16 v)"
proof (rule bit_word_eqI)
  fix n assume "n < LENGTH(128)"
  then have n: "n < 128" by simp
  let ?i = "15 - n div 8"
  have d: "n div 8 < 16" "n mod 8 < 8" using n by simp_all
  have zero: "?i = 0 \<longleftrightarrow> 120 \<le> n" using n by auto
  have up: "(Suc n) div 8 = (if n mod 8 = 7 then Suc (n div 8) else n div 8)" "(Suc n) mod 8 = (if n mod 8 = 7 then 0 else Suc (n mod 8))"
    by (simp_all add: div_Suc mod_Suc)
  have red: "bit (push_bit 120 0xe1 :: block128) n \<longleftrightarrow> 120 \<le> n \<and> bit (0xe1 :: u8) (n mod 8)"
  proof (cases "120 \<le> n")
    case True
    then have "n mod 8 = n - 120" using n by (simp add: mod_if)
    moreover have "n - 120 < 8" "n - 120 < 128" using n by simp_all
    ultimately show ?thesis using True n unfolding bit_push_bit_iff bit_numeral_word_iff by simp
  qed (simp only: bit_push_bit_iff, simp)
  define m where "m = (0xe1 :: u8)"
  define R where "R = (push_bit 120 0xe1 :: block128)"
  have byte: "bit (tc_aes_gcm_multiply_x v ! ?i) (n mod 8) \<longleftrightarrow>
      (bit (v ! ?i) (Suc (n mod 8)) \<or> n mod 8 = 7 \<and> ?i \<noteq> 0 \<and> bit (v ! (?i - 1)) 0) \<noteq> (?i = 0 \<and> bit m (n mod 8) \<and> bit (v ! 15) 0)"
    using d by (auto simp: multiply_x_bytes assms bit_simps simp flip: m_def)
  have shift: "bit (be_word 16 v :: block128) (Suc n) \<longleftrightarrow> bit (v ! ?i) (Suc (n mod 8)) \<or> n mod 8 = 7 \<and> ?i \<noteq> 0 \<and> bit (v ! (?i - 1)) 0"
  proof (cases "n mod 8 = 7")
    case True
    then have "Suc n < 128 \<longleftrightarrow> ?i \<noteq> 0" using n zero by presburger
    moreover have "\<not> bit (v ! ?i) 8" using bit_imp_le_length [of "v ! ?i" 8] by auto
    ultimately show ?thesis using True up by (simp add: bit_be_word)
  next
    case False
    then have "Suc n < 128" using n by presburger
    then show ?thesis using False up by (simp add: bit_be_word)
  qed
  have "bit (be_word 16 v :: block128) 0 \<longleftrightarrow> bit (v ! 15) 0" by (simp add: bit_be_word)
  then have "bit (gcm_x (be_word 16 v)) n \<longleftrightarrow> bit (be_word 16 v :: block128) (Suc n) \<noteq> (?i = 0 \<and> bit m (n mod 8) \<and> bit (v ! 15) 0)"
    using red zero unfolding gcm_x_def R_def [symmetric] m_def [symmetric] by (auto simp: bit_simps)
  then show "bit (be_word 16 (tc_aes_gcm_multiply_x v) :: block128) n = bit (gcm_x (be_word 16 v)) n"
    using n byte shift by (simp add: bit_be_word)
qed

section \<open>The multipliers\<close>

lemma xor_masked:
  assumes "length z = 16" "length v = 16"
  shows "fold (\<lambda>i z. z[i := z ! i XOR (v ! i AND (0 - of_bool p))]) [0..<16] z = (if p then xorl z v else z)"
proof -
  have "fold (\<lambda>i z. z[i := z ! i XOR (v ! i AND (0 - of_bool p))]) [0..<16] z = map (\<lambda>i. z ! i XOR (v ! i AND (0 - of_bool p))) [0..<16]"
    using fold_update_upt [of 16 z "\<lambda>i x. x XOR (v ! i AND (0 - of_bool p))"] assms by simp
  also have "\<dots> = (if p then xorl z v else z)" by (rule nth_equalityI) (auto simp: assms)
  finally show ?thesis .
qed

lemma bitwise_fold:
  assumes "length x = 16" "length y = 16"
  shows "n \<le> 128 \<Longrightarrow> \<exists>z v. fold (multiply_bitwise_step x) [0..<n] (replicate 16 0, y) = (z, v) \<and> length z = 16 \<and> length v = 16 \<and>
    be_word 16 z = gcm_sum (be_word 16 x) (be_word 16 y) n \<and> be_word 16 v = (gcm_x ^^ n) (be_word 16 y)"
proof (induction n)
  case 0
  then show ?case using assms by simp
next
  case (Suc n)
  then obtain z v where f: "fold (multiply_bitwise_step x) [0..<n] (replicate 16 0, y) = (z, v)" and l: "length z = 16" "length v = 16"
    and z: "be_word 16 z = gcm_sum (be_word 16 x) (be_word 16 y) n" and v: "be_word 16 v = (gcm_x ^^ n) (be_word 16 y)"
    by (metis Suc_leD)
  have "127 - n = 8 * (15 - n div 8) + (7 - n mod 8)" using Suc.prems mult_div_mod_eq [of 8 n] by linarith
  moreover have "(8 * a + r) div 8 = a" "(8 * a + r) mod 8 = r" if "r < 8" for a r :: nat using that by simp_all
  ultimately have q: "(127 - n) div 8 = 15 - n div 8" "(127 - n) mod 8 = 7 - n mod 8" "n div 8 < 16" using Suc.prems by (simp_all only:)
  then have b: "bit (be_word 16 x :: block128) (127 - n) = bit (x ! (n div 8)) (7 - n mod 8)"
    by (simp add: bit_be_word less_imp_diff_less)
  have m: "drop_bit (7 - n mod 8) (x ! (n div 8)) AND 1 = of_bool (bit (be_word 16 x :: block128) (127 - n))"
    by (simp add: and_1_of_bool b bit_simps)
  let ?p = "bit (be_word 16 x :: block128) (127 - n)"
  have "multiply_bitwise_step x n (z, v) = (if ?p then xorl z v else z, tc_aes_gcm_multiply_x v)"
    using xor_masked [OF l, of ?p] by (simp only: multiply_bitwise_step_def TC_AES_BLOCKLEN_def m Let_def prod.case)
  then have "fold (multiply_bitwise_step x) [0..<Suc n] (replicate 16 0, y) = (if ?p then xorl z v else z, tc_aes_gcm_multiply_x v)"
    using f by simp
  then show ?case using l z v by (simp add: be_word_xorl multiply_x_eq)
qed

lemma multiply_bitwise_eq:
  assumes "length x = 16" "length y = 16"
  shows "tc_aes_gcm_multiply_bitwise x y = gcm_mult x y"
proof -
  from bitwise_fold [OF assms, of 128] obtain z v where
    f: "fold (multiply_bitwise_step x) [0..<128] (replicate 16 0, y) = (z, v)" "length z = 16"
    "be_word 16 z = gcm_mul (be_word 16 x) (be_word 16 y)" by (auto simp: gcm_mul_def)
  have "word_be 16 (be_word 16 z :: block128) = z" using f(2) by simp
  then show ?thesis using f assms by (simp add: tc_aes_gcm_multiply_bitwise_def TC_AES_BLOCKLEN_def gcm_mult_def)
qed

text \<open>Two halves of 64 bits.\<close>

definition join64 :: "u64 \<Rightarrow> u64 \<Rightarrow> block128" where
  "join64 h l = push_bit 64 (ucast h) OR ucast l"

lemma bit_join64: "bit (join64 h l) n \<longleftrightarrow> (if n < 64 then bit l n else bit h (n - 64))"
proof -
  have "n < 128" if "64 \<le> n" "bit h (n - 64)" using bit_imp_le_length [OF that(2)] by simp
  then show ?thesis by (auto simp: join64_def bit_simps dest: bit_imp_le_length)
qed

lemma join64_zero: "join64 0 0 = 0"
  by (simp add: join64_def)

lemma join64_xor: "join64 (a XOR b) (c XOR d) = join64 a c XOR join64 b d"
  by (rule bit_word_eqI) (simp add: bit_join64 bit_simps)

lemma join64_load:
  assumes "length x = 16"
  shows "join64 (tc_internal_load_be64 x) (tc_internal_load_be64 (drop 8 x)) = be_word 16 x"
proof (rule bit_word_eqI)
  have load: "tc_internal_load_be64 y = be_word 8 y" for y by (simp add: tc_internal_load_be64_def be_word_def)
  fix n assume "n < LENGTH(128)"
  then have n: "n < 128" by simp
  show "bit (join64 (tc_internal_load_be64 x) (tc_internal_load_be64 (drop 8 x))) n = bit (be_word 16 x :: block128) n"
  proof (cases "n < 64")
    case True
    then have "8 + (7 - n div 8) = 15 - n div 8" by auto
    with True assms show ?thesis by (simp add: bit_join64 load bit_be_word)
  next
    case False
    then obtain m where m: "n = 64 + m" using le_Suc_ex not_less by blast
    have "(64 + m) div 8 = 8 + m div 8" "(64 + m) mod 8 = m mod 8" using div_mult_self1 [of 8 m 8] mod_mult_self1 [of m 8 8] by (simp_all add: add.commute)
    with False n m show ?thesis by (simp add: bit_join64 load bit_be_word)
  qed
qed

lemma wide_shift_right:
  "join64 (drop_bit 1 c XOR (0xe100000000000000 AND (0 - (d AND 1)))) (drop_bit 1 d OR push_bit 63 c) = gcm_x (join64 c d)"
proof -
  have h: "(0xe100000000000000 :: u64) = push_bit 56 0xe1" by simp
  have r: "join64 (push_bit 56 0xe1) 0 = push_bit 120 0xe1" by (simp add: join64_def)
  have s: "join64 (drop_bit 1 c) (drop_bit 1 d OR push_bit 63 c) = drop_bit 1 (join64 c d)"
  proof (rule bit_word_eqI)
    fix m show "bit (join64 (drop_bit 1 c) (drop_bit 1 d OR push_bit 63 c)) m = bit (drop_bit 1 (join64 c d)) m"
      using bit_imp_le_length [of d "Suc m"] Suc_diff_le [of 64 m] by (cases "m = 63") (auto simp: bit_join64 bit_simps)
  qed
  have "bit (join64 c d) 0 = bit d 0" by (simp add: bit_join64)
  moreover have "join64 (drop_bit 1 c XOR w) (drop_bit 1 d OR push_bit 63 c) = drop_bit 1 (join64 c d) XOR join64 w 0" for w
    using join64_xor [of "drop_bit 1 c" w "drop_bit 1 d OR push_bit 63 c" 0] s by simp
  ultimately show ?thesis
    using s unfolding h gcm_x_def r [symmetric] and_1_of_bool by (cases "bit d 0") (simp_all add: join64_zero del: push_bit_numeral)
qed

lemma wide_steps:
  assumes "join64 xh xl = x" "join64 vh vl = y"
  shows "n \<le> 128 \<Longrightarrow> \<exists>xh' xl' zh zl vh' vl'. (multiply_wide_step ^^ n) (xh, xl, 0, 0, vh, vl) = (xh', xl', zh, zl, vh', vl') \<and>
    join64 xh' xl' = push_bit n x \<and> join64 zh zl = gcm_sum x y n \<and> join64 vh' vl' = (gcm_x ^^ n) y"
proof (induction n)
  case 0
  then show ?case using assms by (simp add: join64_zero)
next
  case (Suc n)
  then obtain a b zh zl c d where s: "(multiply_wide_step ^^ n) (xh, xl, 0, 0, vh, vl) = (a, b, zh, zl, c, d)"
    and x: "join64 a b = push_bit n x" and z: "join64 zh zl = gcm_sum x y n" and v: "join64 c d = (gcm_x ^^ n) y"
    by (metis Suc_leD)
  have ba: "bit a 63 \<longleftrightarrow> bit x (127 - n)"
  proof -
    have "bit a 63 = bit (push_bit n x) 127" using bit_join64 [of a b 127] x by simp
    then show ?thesis using Suc.prems by (simp add: bit_push_bit_iff)
  qed
  have top: "drop_bit 63 a = of_bool (bit a 63)"
  proof (rule bit_word_eqI)
    fix m show "bit (drop_bit 63 a) m = bit (of_bool (bit a 63) :: u64) m"
      using bit_imp_le_length [of a "63 + m"] by (cases m) (auto simp: bit_simps)
  qed
  have sel: "join64 (zh XOR (c AND (0 - of_bool p))) (zl XOR (d AND (0 - of_bool p))) =
      join64 zh zl XOR (if p then join64 c d else 0)" for p
    by (rule bit_word_eqI) (auto simp: bit_join64 bit_simps dest: bit_imp_le_length)
  have shl: "join64 (push_bit 1 a OR drop_bit 63 b) (push_bit 1 b) = push_bit 1 (join64 a b)"
  proof (rule bit_word_eqI)
    fix m show "bit (join64 (push_bit 1 a OR drop_bit 63 b) (push_bit 1 b)) m = bit (push_bit 1 (join64 a b)) m" if "m < LENGTH(128)"
      using that bit_imp_le_length [of b "63 + (m - 64)"]
      by (cases "m = 64") (auto simp: bit_join64 bit_simps simp del: push_bit_of_Suc_0 push_bit_Suc)
  qed
  have shr: "join64 (drop_bit 1 c XOR (0xe100000000000000 AND (0 - (d AND 1)))) (drop_bit 1 d OR push_bit 63 c) = gcm_x (join64 c d)" by (rule wide_shift_right)
  have st: "multiply_wide_step (a, b, zh, zl, c, d) =
      (push_bit 1 a OR drop_bit 63 b, push_bit 1 b, zh XOR (c AND (0 - of_bool (bit a 63))), zl XOR (d AND (0 - of_bool (bit a 63))),
       drop_bit 1 c XOR (0xe100000000000000 AND (0 - (d AND 1))), drop_bit 1 d OR push_bit 63 c)"
    by (simp add: multiply_wide_step_def Let_def top)
  have "(multiply_wide_step ^^ Suc n) (xh, xl, 0, 0, vh, vl) = multiply_wide_step (a, b, zh, zl, c, d)" using s by simp
  moreover have "join64 (push_bit 1 a OR drop_bit 63 b) (push_bit 1 b) = push_bit (Suc n) x" using shl x by (simp add: push_bit_push_bit)
  moreover note sel [of "bit a 63"] shr v z ba
  ultimately show ?case unfolding st by simp
qed

lemma store_join64: "tc_internal_store_be64 h @ tc_internal_store_be64 l = word_be 16 (join64 h l)"
proof (rule nth_equalityI)
  fix i assume "i < length (tc_internal_store_be64 h @ tc_internal_store_be64 l)"
  then have i: "i < 16" by (simp add: tc_internal_store_be64_def)
  show "(tc_internal_store_be64 h @ tc_internal_store_be64 l) ! i = word_be 16 (join64 h l) ! i"
  proof (rule bit_word_eqI)
    fix m assume "m < LENGTH(8)"
    then have m: "m < 8" by simp
    show "bit ((tc_internal_store_be64 h @ tc_internal_store_be64 l) ! i) m = bit (word_be 16 (join64 h l) ! i) m"
    proof (cases "i < 8")
      case True
      then have "8 * (15 - i) + m - 64 = 56 - 8 * i + m" "\<not> 8 * (15 - i) + m < 64" by auto
      then show ?thesis using True m by (simp add: nth_append tc_internal_store_be64_def nth_word_be bit_simps bit_join64)
    next
      case False
      then have "56 - 8 * (i - 8) = 8 * (15 - i)" "8 * (15 - i) + m < 64" "i - 8 < 8" using i m by auto
      then show ?thesis using False i m
        by (simp add: nth_append tc_internal_store_be64_def nth_word_be bit_ucast_iff bit_drop_bit_eq bit_join64)
    qed
  qed
qed (simp add: tc_internal_store_be64_def)

lemma multiply_wide_eq:
  assumes "length x = 16" "length y = 16"
  shows "tc_aes_gcm_multiply_wide x y = gcm_mult x y"
  using wide_steps [OF join64_load join64_load, OF assms, of 128]
  by (auto simp: tc_aes_gcm_multiply_wide_def store_join64 gcm_mult_def gcm_mul_def)

text \<open>The product is additive in its left factor, and shifting the left factor right multiplies by \<open>x\<close>.\<close>

lemma gcm_x_xor: "gcm_x (a XOR b) = gcm_x a XOR gcm_x b"
  by (rule bit_word_eqI) (auto simp: gcm_x_def bit_simps)

lemma gcm_x_zero [simp]: "gcm_x 0 = 0" "(gcm_x ^^ n) 0 = 0"
proof -
  show z: "gcm_x 0 = 0" by (simp add: gcm_x_def)
  show "(gcm_x ^^ n) 0 = 0" by (induction n) (simp_all add: z)
qed

lemma gcm_x_pow_xor: "(gcm_x ^^ n) (a XOR b) = (gcm_x ^^ n) a XOR (gcm_x ^^ n) b"
  by (induction n) (simp_all add: gcm_x_xor)

lemma gcm_sum_xor: "gcm_sum (a XOR b) y n = gcm_sum a y n XOR gcm_sum b y n"
  by (induction n) (auto simp: bit_simps xor.assoc xor.left_commute)

lemma gcm_sum_zero [simp]: "gcm_sum 0 y n = 0"
  by (induction n) simp_all

lemma gcm_sum_trunc: "(\<And>i. m \<le> i \<Longrightarrow> i < n \<Longrightarrow> \<not> bit a (127 - i)) \<Longrightarrow> m \<le> n \<Longrightarrow> gcm_sum a y n = gcm_sum a y m"
proof (induction n)
  case (Suc n)
  then show ?case by (cases "m = Suc n") simp_all
qed simp

lemma gcm_sum_shift: "n + k \<le> 128 \<Longrightarrow> gcm_sum (drop_bit k a) y (k + n) = (gcm_x ^^ k) (gcm_sum a y n)"
proof (induction n)
  case 0
  have "\<not> bit (drop_bit k a) (127 - i)" if "i < k" for i
    using bit_imp_le_length [of a "k + (127 - i)"] that by (auto simp: bit_simps)
  from gcm_sum_trunc [of 0 k "drop_bit k a" y, OF this] show ?case by simp
next
  case (Suc n)
  then have b: "bit (drop_bit k a) (127 - (k + n)) = bit a (127 - n)" by (simp add: bit_simps)
  have "(gcm_x ^^ (k + n)) y = (gcm_x ^^ k) ((gcm_x ^^ n) y)" by (simp add: funpow_add)
  then show ?case using Suc b by (simp add: gcm_x_pow_xor)
qed

lemma gcm_mul_shift4:
  assumes "\<And>i. i < 4 \<Longrightarrow> \<not> bit a i"
  shows "gcm_mul (drop_bit 4 a) y = (gcm_x ^^ 4) (gcm_mul a y)"
proof -
  have "\<not> bit a (127 - i)" if "124 \<le> i" "i < 128" for i using assms [of "127 - i"] that by simp
  from gcm_sum_trunc [of 124 128 a y, OF this] have "gcm_sum a y 128 = gcm_sum a y 124" by simp
  then show ?thesis using gcm_sum_shift [of 124 4 a y] by (simp add: gcm_mul_def)
qed

lemma gcm_mul_xor: "gcm_mul (a XOR b) y = gcm_mul a y XOR gcm_mul b y"
  by (simp add: gcm_mul_def gcm_sum_xor)

definition nibble_of :: "u8 list \<Rightarrow> nat \<Rightarrow> u8" where
  "nibble_of left n = (if n mod 2 = 0 then drop_bit 4 (left ! (n div 2)) else left ! (n div 2) AND 0x0f)"

lemma nibble_less: "unat (nibble_of left n) < 16"
proof -
  have "unat (drop_bit 4 b) < 16" for b :: u8
  proof -
    have "unat (drop_bit 4 b) = unat b div 2 ^ 4" by (simp add: drop_bit_eq_div unat_div)
    then show ?thesis using unat_u8_less [of b] by (simp add: less_mult_imp_div_less)
  qed
  moreover have "unat (b AND 0x0f) < 16" for b :: u8
    using word_and_le1 [of b "0x0f"] by (simp add: word_le_nat_alt)
  ultimately show ?thesis by (simp add: nibble_of_def)
qed

lemma bit_nibble:
  assumes "n < 32" "j < 4"
  shows "bit (nibble_of left n) j \<longleftrightarrow> bit (be_word 16 left :: block128) (124 - 4 * n + j)"
proof -
  define q where "q = n div 2"
  show ?thesis
  proof (cases "n mod 2 = 0")
    case True
    then have "n = 2 * q" by (auto simp: q_def)
    then have "124 - 4 * n + j = 8 * (15 - q) + (4 + j)" using assms by simp
    moreover have "(8 * (15 - q) + (4 + j)) div 8 = 15 - q" "(8 * (15 - q) + (4 + j)) mod 8 = 4 + j" using assms by simp_all
    moreover have "q \<le> 15" "8 * (15 - q) + (4 + j) < 128" using assms \<open>n = 2 * q\<close> by auto
    ultimately show ?thesis using True assms by (simp add: bit_be_word nibble_of_def bit_simps flip: q_def)
  next
    case False
    then have "n = 2 * q + 1" using mult_div_mod_eq [of 2 n] by (simp add: q_def)
    then have "124 - 4 * n + j = 8 * (15 - q) + j" using assms by simp
    moreover have "(8 * (15 - q) + j) div 8 = 15 - q" "(8 * (15 - q) + j) mod 8 = j" using assms by simp_all
    moreover have "q \<le> 15" "8 * (15 - q) + j < 128" using assms \<open>n = 2 * q + 1\<close> by auto
    moreover have "bit (0x0f :: u8) j" using assms by (auto simp: less_Suc_eq numeral_eq_Suc)
    ultimately show ?thesis using False assms by (simp add: bit_be_word nibble_of_def bit_simps flip: q_def)
  qed
qed

lemma nibble_high: "4 \<le> j \<Longrightarrow> \<not> bit (nibble_of left n) j"
proof -
  assume j: "4 \<le> j"
  have "(0x0f :: u8) = mask 4" by (simp add: mask_eq_exp_minus_1)
  then have "\<not> bit (0x0f :: u8) j" using j by (simp only: bit_mask_iff) simp
  then show ?thesis using j bit_imp_le_length [of "left ! (n div 2)" "4 + j"] by (auto simp: nibble_of_def bit_simps)
qed

text \<open>An entry of the table is the product with the nibble in the leftmost place.\<close>

lemma be_word_nibble:
  "be_word 16 ((replicate 16 0)[0 := push_bit 4 x]) = (push_bit 124 (ucast (x :: u8)) :: block128)"
proof (rule bit_word_eqI)
  fix i assume "i < LENGTH(128)"
  then have i: "i < 128" by simp
  show "bit (be_word 16 ((replicate 16 0)[0 := push_bit 4 x]) :: block128) i = bit (push_bit 124 (ucast x) :: block128) i"
  proof (cases "120 \<le> i")
    case True
    then obtain j where j: "i = 120 + j" "j < 8" using i le_Suc_ex by fastforce
    then have "i div 8 = 15" "i mod 8 = j" using div_mult_self1 [of 8 j 15] mod_mult_self1 [of j 15 8] by (simp_all add: add.commute)
    then show ?thesis using j by (auto simp: bit_be_word bit_simps)
  next
    case False
    then have "15 - i div 8 \<noteq> 0" "15 - i div 8 < 16" by auto
    then show ?thesis using False by (simp add: bit_be_word bit_simps)
  qed
qed

lemma table_entry:
  assumes "length (gc_h ctx) = 16"
  shows "gc_ghash_table (tc_aes_gcm_init_table ctx) ! unat (nibble_of left n) =
    word_be 16 (gcm_mul (push_bit 124 (ucast (nibble_of left n))) (be_word 16 (gc_h ctx)))"
  using nibble_less [of left n] multiply_bitwise_eq [OF _ assms, of "(replicate 16 0)[0 := push_bit 4 (nibble_of left n)]"]
  by (simp add: tc_aes_gcm_init_table_def TC_AES_BLOCKLEN_def gcm_mult_def be_word_nibble)

lemma nibble_split:
  assumes "n < 32"
  shows "push_bit (4 * n) (be_word 16 left :: block128) =
    drop_bit 4 (push_bit (4 * Suc n) (be_word 16 left)) XOR push_bit 124 (ucast (nibble_of left n))"
proof (rule bit_word_eqI)
  fix i assume "i < LENGTH(128)"
  then have i: "i < 128" by simp
  show "bit (push_bit (4 * n) (be_word 16 left :: block128)) i =
    bit (drop_bit 4 (push_bit (4 * Suc n) (be_word 16 left)) XOR push_bit 124 (ucast (nibble_of left n)) :: block128) i"
  proof (cases "124 \<le> i")
    case True
    then obtain j where j: "i = 124 + j" "j < 4" using i le_Suc_ex by fastforce
    then have "i - 4 * n = 124 - 4 * n + j" using assms by simp
    then show ?thesis using j assms bit_nibble [OF assms j(2), of left] by (simp add: bit_xor_iff bit_push_bit_iff bit_drop_bit_eq bit_ucast_iff)
  next
    case False
    then show ?thesis using i by (simp add: bit_xor_iff bit_push_bit_iff bit_drop_bit_eq)
  qed
qed

lemma multiply_x_pow: "length v = 16 \<Longrightarrow> length ((tc_aes_gcm_multiply_x ^^ n) v) = 16 \<and> be_word 16 ((tc_aes_gcm_multiply_x ^^ n) v) = (gcm_x ^^ n) (be_word 16 v)"
  by (induction n) (simp_all add: multiply_x_eq)

lemma table_step:
  assumes "length v = 16" "n < 32" "length (gc_h ctx) = 16"
    "be_word 16 v = gcm_mul (push_bit (4 * Suc n) (be_word 16 left)) (be_word 16 (gc_h ctx))"
  defines "v' \<equiv> multiply_table_step (gc_ghash_table (tc_aes_gcm_init_table ctx)) left n v"
  shows "length v' = 16" "be_word 16 v' = gcm_mul (push_bit (4 * n) (be_word 16 left)) (be_word 16 (gc_h ctx))"
proof -
  let ?t = "word_be 16 (gcm_mul (push_bit 124 (ucast (nibble_of left n))) (be_word 16 (gc_h ctx)))"
  let ?v = "(tc_aes_gcm_multiply_x ^^ 4) v"
  have l: "length ?v = 16" "be_word 16 ?v = (gcm_x ^^ 4) (be_word 16 v)" using multiply_x_pow [OF assms(1), of 4] by simp_all
  have "v' = xorl ?v ?t"
    using tc_internal_xor_eq [of 16 ?v ?t] l(1)
    unfolding v'_def multiply_table_step_def Let_def nibble_of_def [symmetric] table_entry [OF assms(3)] TC_AES_BLOCKLEN_def tc_internal_xor_def
    by simp
  moreover have "be_word 16 ?v = gcm_mul (drop_bit 4 (push_bit (4 * Suc n) (be_word 16 left))) (be_word 16 (gc_h ctx))"
    unfolding l(2) assms(4) by (rule gcm_mul_shift4 [symmetric]) (simp only: bit_push_bit_iff, simp)
  ultimately show "length v' = 16" "be_word 16 v' = gcm_mul (push_bit (4 * n) (be_word 16 left)) (be_word 16 (gc_h ctx))"
    using l(1) unfolding nibble_split [OF assms(2)] gcm_mul_xor by (simp_all add: be_word_xorl)
qed

lemma multiply_fast_table_eq:
  assumes "length x = 16" "length (gc_h ctx) = 16"
  shows "tc_aes_gcm_multiply_fast_table x (tc_aes_gcm_init_table ctx) = gcm_mult x (gc_h ctx)"
proof -
  let ?T = "gc_ghash_table (tc_aes_gcm_init_table ctx)"
  have "k \<le> 32 \<Longrightarrow> (let v = fold (multiply_table_step ?T x) (rev [32 - k..<32]) (replicate 16 0) in
      length v = 16 \<and> be_word 16 v = gcm_mul (push_bit (4 * (32 - k)) (be_word 16 x)) (be_word 16 (gc_h ctx)))" for k
  proof (induction k)
    case 0
    have "push_bit 128 (be_word 16 x :: block128) = 0" by (rule bit_word_eqI) (simp add: bit_push_bit_iff)
    then show ?case by (simp add: gcm_mul_def)
  next
    case (Suc k)
    then have s: "Suc (32 - Suc k) = 32 - k" by simp
    moreover have "[32 - Suc k..<32] = (32 - Suc k) # [32 - k..<32]" using upt_conv_Cons [of "32 - Suc k" 32] unfolding s by simp
    ultimately show ?case using Suc table_step [OF _ _ assms(2), of _ "32 - Suc k" x] by (simp add: Let_def)
  qed
  from this [of 32] obtain v where v: "fold (multiply_table_step ?T x) (rev [0..<32]) (replicate 16 0) = v" "length v = 16"
    "be_word 16 v = gcm_mul (be_word 16 x) (be_word 16 (gc_h ctx))" by (simp add: Let_def)
  have "word_be 16 (be_word 16 v :: block128) = v" using v(2) by simp
  then show ?thesis using v by (simp add: tc_aes_gcm_multiply_fast_table_def TC_AES_BLOCKLEN_def gcm_mult_def)
qed

section \<open>Every build\<close>

text \<open>
  What a build needs: the documented behaviour of the platform's multiplier, and the table of the key where the table
  is used.
\<close>

definition gcm_build_ok :: "gcm_build \<Rightarrow> bool" where
  "gcm_build_ok g \<longleftrightarrow> (gb_mode g = TC_AES_GCM_GHASH_MODE_HARDWARE \<longrightarrow>
     (\<forall>x y. length x = 16 \<longrightarrow> length y = 16 \<longrightarrow> gb_hardware g x y = gcm_mult x y))"

definition gcm_table_ok :: "gcm_build \<Rightarrow> TC_AES_GCM_ctx \<Rightarrow> bool" where
  "gcm_table_ok g ctx \<longleftrightarrow>
     (gb_mode g = TC_AES_GCM_GHASH_MODE_FAST_TABLE \<longrightarrow> gc_ghash_table ctx = gc_ghash_table (tc_aes_gcm_init_table ctx))"

lemma length_gcm_mult [simp]: "length (gcm_mult x y) = 16"
  by (simp add: gcm_mult_def)

lemma gcm_multiply_eq:
  assumes "gcm_build_ok g" "gcm_table_ok g ctx" "length x = 16" "length (gc_h ctx) = 16"
  shows "tc_aes_gcm_multiply g x ctx = gcm_mult x (gc_h ctx)"
proof -
  have "tc_aes_gcm_multiply_fast_table x ctx = gcm_mult x (gc_h ctx)" if "gb_mode g = TC_AES_GCM_GHASH_MODE_FAST_TABLE"
    using multiply_fast_table_eq [OF assms(3,4)] assms(2) that by (simp add: tc_aes_gcm_multiply_fast_table_def gcm_table_ok_def)
  then show ?thesis
    using assms(1) by (simp add: tc_aes_gcm_multiply_def gcm_build_ok_def multiply_wide_eq multiply_bitwise_eq assms(3,4))
qed

lemma ghash_block_eq:
  assumes "gcm_build_ok g" "gcm_table_ok g ctx" "length (gc_h ctx) = 16" "length (gc_s ctx) = 16" "16 \<le> length b"
  shows "tc_aes_gcm_ghash_block g ctx b = ctx\<lparr>gc_s := gcm_mult (xorl (gc_s ctx) (take 16 b)) (gc_h ctx)\<rparr>"
proof -
  have "map (\<lambda>i. gc_s ctx ! i XOR b ! i) [0..<16] = xorl (gc_s ctx) (take 16 b)"
    by (rule nth_equalityI) (simp_all add: assms)
  then show ?thesis using gcm_multiply_eq [OF assms(1,2) _ assms(3)] assms(4,5) by (simp add: tc_aes_gcm_ghash_block_def TC_AES_BLOCKLEN_def)
qed

end
