(* ===== verification/AES_GCM.thy ===== *)
theory AES_GCM
  imports AES_GHASH
begin

text \<open>
  AES-GCM, \<^verbatim>\<open>src/src/aes_gcm.c\<close>: streaming and one-shot encryption, one-shot decryption and the short-tag packet limits.
  The lemmas show that the streaming calls compute SP 800-38D for any division of the associated data and the text,
  and what the one-shot operations return on every branch.
\<close>

section \<open>Limits and phases\<close>

definition TC_AES_GCM_PHASE_UNINIT :: u8 where "TC_AES_GCM_PHASE_UNINIT = 0"

definition TC_AES_GCM_PHASE_AAD :: u8 where "TC_AES_GCM_PHASE_AAD = 1"

definition TC_AES_GCM_PHASE_TEXT :: u8 where "TC_AES_GCM_PHASE_TEXT = 2"

definition TC_AES_GCM_PHASE_FINAL :: u8 where "TC_AES_GCM_PHASE_FINAL = 3"

definition UINT64_MAX :: nat where "UINT64_MAX = 2 ^ 64 - 1"

definition TC_AES_GCM_MAX_PLAINTEXT_BYTES :: nat where "TC_AES_GCM_MAX_PLAINTEXT_BYTES = 2 ^ 36 - 32"

definition TC_AES_GCM_MAX_AAD_BYTES :: nat where "TC_AES_GCM_MAX_AAD_BYTES = UINT64_MAX div 8"

definition TC_AES_GCM_MAX_IV_BYTES :: nat where "TC_AES_GCM_MAX_IV_BYTES = UINT64_MAX div 8"

definition TC_AES_GCM_SHORT_TAG4_MAX_PACKET :: nat where "TC_AES_GCM_SHORT_TAG4_MAX_PACKET = 2 ^ 10"

definition TC_AES_GCM_SHORT_TAG8_MAX_PACKET :: nat where "TC_AES_GCM_SHORT_TAG8_MAX_PACKET = 2 ^ 25"

definition gcm_ctx_zero :: "aes_env \<Rightarrow> TC_AES_GCM_ctx" where
  "gcm_ctx_zero e =
     \<lparr>gc_key = key_ctx_zero e, gc_h = replicate 16 0, gc_j0 = replicate 16 0, gc_counter = replicate 16 0,
      gc_stream = replicate 16 0, gc_s = replicate 16 0, gc_ghash = replicate 16 0,
      gc_ghash_table = replicate 16 (replicate 16 0), gc_aad_len = 0, gc_text_len = 0, gc_stream_pos = 0,
      gc_ghash_len = 0, gc_tag_len = 0, gc_phase = TC_AES_GCM_PHASE_UNINIT\<rparr>"

text \<open>The subtraction is that of \<^verbatim>\<open>uint64_t\<close>.\<close>

definition tc_aes_gcm_length_is_valid :: "nat \<Rightarrow> nat \<Rightarrow> nat \<Rightarrow> bool" where
  "tc_aes_gcm_length_is_valid current additional limit \<longleftrightarrow> additional \<le> (limit + 2 ^ 64 - current) mod 2 ^ 64"

section \<open>Absorbing\<close>

definition tc_aes_gcm_pad_ghash :: "gcm_build \<Rightarrow> TC_AES_GCM_ctx \<Rightarrow> TC_AES_GCM_ctx" where
  "tc_aes_gcm_pad_ghash g ctx =
     (if gc_ghash_len ctx \<noteq> 0
      then let ctx = ctx\<lparr>gc_ghash := memcpy_at (gc_ghash ctx) (gc_ghash_len ctx) (replicate (TC_AES_BLOCKLEN - gc_ghash_len ctx) 0)\<rparr>;
               ctx = tc_aes_gcm_ghash_block g ctx (gc_ghash ctx)
           in ctx\<lparr>gc_ghash_len := 0, gc_ghash := replicate TC_AES_BLOCKLEN 0\<rparr>
      else ctx)"

definition tc_aes_gcm_start_text :: "gcm_build \<Rightarrow> TC_AES_GCM_ctx \<Rightarrow> TC_AES_GCM_ctx" where
  "tc_aes_gcm_start_text g ctx =
     (if gc_phase ctx \<noteq> TC_AES_GCM_PHASE_AAD then ctx
      else (tc_aes_gcm_pad_ghash g ctx)\<lparr>gc_phase := TC_AES_GCM_PHASE_TEXT\<rparr>)"

text \<open>
  The absorbing loop over the bytes still to read. Every caller has a partial block of fewer than 16 bytes; with a
  full one the loop would not end, and the model stops.
\<close>

function tc_aes_gcm_absorb :: "gcm_build \<Rightarrow> TC_AES_GCM_ctx \<Rightarrow> u8 list \<Rightarrow> TC_AES_GCM_ctx" where
  "tc_aes_gcm_absorb g ctx data =
     (if data = [] \<or> gc_ghash_len ctx \<ge> TC_AES_BLOCKLEN then ctx
      else if gc_ghash_len ctx = 0 \<and> length data \<ge> TC_AES_BLOCKLEN
      then tc_aes_gcm_absorb g (tc_aes_gcm_ghash_block g ctx data) (drop TC_AES_BLOCKLEN data)
      else let available = TC_AES_BLOCKLEN - gc_ghash_len ctx;
               count = (if length data < available then length data else available);
               ctx = ctx\<lparr>gc_ghash := memcpy_at (gc_ghash ctx) (gc_ghash_len ctx) (take count data),
                         gc_ghash_len := (gc_ghash_len ctx + count) mod 256\<rparr>;
               ctx = (if gc_ghash_len ctx = TC_AES_BLOCKLEN
                      then (tc_aes_gcm_ghash_block g ctx (gc_ghash ctx))\<lparr>gc_ghash_len := 0, gc_ghash := replicate TC_AES_BLOCKLEN 0\<rparr>
                      else ctx)
           in tc_aes_gcm_absorb g ctx (drop count data))"
  by pat_completeness auto
termination
  by (relation "measure (\<lambda>(g, ctx, data). length data)") (auto simp: TC_AES_BLOCKLEN_def)

declare tc_aes_gcm_absorb.simps [simp del]

definition tc_aes_gcm_make_j0 :: "gcm_build \<Rightarrow> TC_AES_GCM_ctx \<Rightarrow> u8 list \<Rightarrow> TC_AES_GCM_ctx" where
  "tc_aes_gcm_make_j0 g ctx iv =
     (let zero = replicate TC_AES_BLOCKLEN 0;
          ctx = ctx\<lparr>gc_s := zero, gc_ghash := zero, gc_ghash_len := 0\<rparr>;
          ctx = (if length iv = 12 then ctx\<lparr>gc_j0 := (memcpy_at zero 0 iv)[15 := 1]\<rparr>
                 else let ctx = tc_aes_gcm_pad_ghash g (tc_aes_gcm_absorb g ctx iv);
                          length_block = memcpy_at zero 8 (tc_internal_store_be64 (of_nat (length iv * 8)));
                          ctx = tc_aes_gcm_ghash_block g ctx length_block
                      in ctx\<lparr>gc_j0 := gc_s ctx\<rparr>)
      in ctx\<lparr>gc_s := zero\<rparr>)"

section \<open>The counter keystream\<close>

definition tc_aes_gcm_increment32 :: "u8 list \<Rightarrow> u8 list" where
  "tc_aes_gcm_increment32 ctr = memcpy_at ctr 12 (fst (tc_internal_increment_be (drop 12 ctr) 4))"

text \<open>
  \<open>dn\<close> is the part of the buffer already processed. A position past the block does not occur; the code would read past
  the keystream, and the model stops.
\<close>

function gctr_loop :: "aes_env \<Rightarrow> TC_AES_GCM_ctx \<Rightarrow> u8 list \<Rightarrow> u8 list \<Rightarrow> TC_status \<times> TC_AES_GCM_ctx \<times> u8 list" where
  "gctr_loop e ctx dn buf =
     (if buf = [] then (TC_OK, ctx, dn)
      else case (if gc_stream_pos ctx = TC_AES_BLOCKLEN
                 then let ctr = tc_aes_gcm_increment32 (gc_counter ctx)
                      in case tc_aes_cipher e ctr (kc_round_key (gc_key ctx)) of (status, stream) \<Rightarrow>
                           let ctx = ctx\<lparr>gc_counter := ctr, gc_stream := stream\<rparr>
                           in if status \<noteq> TC_OK then (TC_ERROR, ctx) else (TC_OK, ctx\<lparr>gc_stream_pos := 0\<rparr>)
                 else (TC_OK, ctx))
           of (status, ctx) \<Rightarrow>
             if status \<noteq> TC_OK \<or> gc_stream_pos ctx \<ge> TC_AES_BLOCKLEN then (TC_ERROR, ctx, dn @ buf)
             else let available = TC_AES_BLOCKLEN - gc_stream_pos ctx;
                      count = (if length buf < available then length buf else available);
                      buf = fold (\<lambda>i b. b[i := b ! i XOR gc_stream ctx ! (gc_stream_pos ctx + i)]) [0..<count] buf
                  in gctr_loop e (ctx\<lparr>gc_stream_pos := (gc_stream_pos ctx + count) mod 256\<rparr>) (dn @ take count buf) (drop count buf))"
  by pat_completeness auto
termination
proof (relation "measure (\<lambda>(e, ctx, dn, buf). length buf)")
  have l: "length (fold (\<lambda>i b. b[i := b ! i XOR f i]) [0..<n] buf) = length buf" for f n and buf :: "u8 list"
    by (induction n) simp_all
  show "((e, ctx'\<lparr>gc_stream_pos := (gc_stream_pos ctx' + count) mod 256\<rparr>, dn @ take count buf', drop count buf'), e, ctx, dn, buf)
      \<in> measure (\<lambda>(e, ctx, dn, buf). length buf)"
    if "buf \<noteq> []" "\<not> (status \<noteq> TC_OK \<or> gc_stream_pos ctx' \<ge> TC_AES_BLOCKLEN)" "available = TC_AES_BLOCKLEN - gc_stream_pos ctx'"
      "count = (if length buf < available then length buf else available)"
      "buf' = fold (\<lambda>i b. b[i := b ! i XOR gc_stream ctx' ! (gc_stream_pos ctx' + i)]) [0..<count] buf" for e ctx dn buf status ctx' available count buf'
    using that by (auto simp: l)
qed auto

declare gctr_loop.simps [simp del]

definition tc_aes_gcm_gctr :: "aes_env \<Rightarrow> TC_AES_GCM_ctx \<Rightarrow> u8 list \<Rightarrow> TC_status \<times> TC_AES_GCM_ctx \<times> u8 list" where
  "tc_aes_gcm_gctr e ctx buf = gctr_loop e ctx [] buf"

section \<open>Lengths and the tag\<close>

definition tc_aes_gcm_finish_ghash :: "gcm_build \<Rightarrow> TC_AES_GCM_ctx \<Rightarrow> TC_AES_GCM_ctx" where
  "tc_aes_gcm_finish_ghash g ctx =
     (let ctx = tc_aes_gcm_pad_ghash g ctx;
          length_block = memcpy_at (replicate TC_AES_BLOCKLEN 0) 0 (tc_internal_store_be64 (of_nat (gc_aad_len ctx * 8)));
          length_block = memcpy_at length_block 8 (tc_internal_store_be64 (of_nat (gc_text_len ctx * 8)))
      in tc_aes_gcm_ghash_block g ctx length_block)"

definition tc_aes_gcm_tag_length_is_allowed :: "nat \<Rightarrow> bool \<Rightarrow> bool" where
  "tc_aes_gcm_tag_length_is_allowed tag_len short_tag \<longleftrightarrow>
     (if short_tag then tag_len = 4 \<or> tag_len = 8 else tag_len \<ge> 12 \<and> tag_len \<le> 16)"

definition tc_aes_gcm_packet_lengths_ok :: "nat \<Rightarrow> nat \<Rightarrow> nat \<Rightarrow> nat \<Rightarrow> bool" where
  "tc_aes_gcm_packet_lengths_ok tag_len aad_len text_len extra_text =
     (if tag_len \<noteq> 4 \<and> tag_len \<noteq> 8 then True
      else let limit = (if tag_len = 4 then TC_AES_GCM_SHORT_TAG4_MAX_PACKET else TC_AES_GCM_SHORT_TAG8_MAX_PACKET)
           in if aad_len > limit \<or> text_len > limit - aad_len then False
              else extra_text \<le> limit - aad_len - text_len)"

definition tc_aes_gcm_packet_length_ok :: "TC_AES_GCM_ctx \<Rightarrow> nat \<Rightarrow> bool" where
  "tc_aes_gcm_packet_length_ok ctx extra_text =
     tc_aes_gcm_packet_lengths_ok (gc_tag_len ctx) (gc_aad_len ctx) (gc_text_len ctx) extra_text"

definition TC_AES_GCM_ctx_clear :: "aes_env \<Rightarrow> TC_AES_GCM_ctx obj \<Rightarrow> TC_AES_GCM_ctx obj" where
  "TC_AES_GCM_ctx_clear e ctx = (if o_addr ctx = NULL then ctx else ctx\<lparr>o_val := gcm_ctx_zero e\<rparr>)"

definition tc_aes_gcm_invalidate :: "aes_env \<Rightarrow> TC_AES_GCM_ctx obj \<Rightarrow> TC_AES_GCM_ctx obj" where
  "tc_aes_gcm_invalidate e ctx =
     (let ctx = TC_AES_GCM_ctx_clear e ctx in ctx\<lparr>o_val := (o_val ctx)\<lparr>gc_phase := TC_AES_GCM_PHASE_FINAL\<rparr>\<rparr>)"

definition tc_aes_gcm_make_tag :: "aes_env \<Rightarrow> TC_AES_GCM_ctx \<Rightarrow> u8 list \<Rightarrow> TC_status \<times> u8 list" where
  "tc_aes_gcm_make_tag e ctx tag =
     (case tc_aes_cipher e (gc_j0 ctx) (kc_round_key (gc_key ctx)) of (status, mask_block) \<Rightarrow>
        if status \<noteq> TC_OK then (status, tag)
        else (status, fold (\<lambda>i tag. tag[i := mask_block ! i XOR gc_s ctx ! i]) [0..<gc_tag_len ctx] tag))"

section \<open>The streaming calls\<close>

definition tc_aes_gcm_init_impl ::
  "gcm_build \<Rightarrow> aes_env \<Rightarrow> TC_AES_GCM_ctx obj \<Rightarrow> TC_bytes \<Rightarrow> TC_bytes \<Rightarrow> nat \<Rightarrow> bool \<Rightarrow> TC_status \<times> TC_AES_GCM_ctx obj" where
  "tc_aes_gcm_init_impl g e ctx k nonce tag_len short_tag =
     (let iv = b_data nonce; iv_len = b_length nonce
      in if o_addr ctx = NULL then (TC_ERROR, ctx)
         else if (b_data k \<noteq> NULL \<and> \<not> tc_internal_ranges_disjoint (o_addr ctx) (o_size ctx) (b_data k) (b_length k)) \<or>
                 (iv \<noteq> NULL \<and> iv_len \<le> TC_AES_GCM_MAX_IV_BYTES \<and>
                  \<not> tc_internal_ranges_disjoint (o_addr ctx) (o_size ctx) iv iv_len)
         then (TC_ERROR, TC_AES_GCM_ctx_clear e ctx)
         else let ctx = TC_AES_GCM_ctx_clear e ctx
              in if b_length k \<noteq> TC_AES_KEYLEN e \<or> b_data k = NULL \<or> iv = NULL \<or> iv_len = 0 \<or>
                    iv_len > TC_AES_GCM_MAX_IV_BYTES \<or> \<not> tc_aes_gcm_tag_length_is_allowed tag_len short_tag
                 then (TC_ERROR, ctx)
                 else case TC_AES_key_init e \<lparr>o_addr = o_addr ctx, o_size = sizeof_key_ctx e, o_val = gc_key (o_val ctx)\<rparr> k
                      of (status, ko) \<Rightarrow>
                        let c = (o_val ctx)\<lparr>gc_key := o_val ko\<rparr>
                        in if status \<noteq> TC_OK then (TC_ERROR, ctx\<lparr>o_val := c\<rparr>)
                           else case tc_aes_cipher e (replicate TC_AES_BLOCKLEN 0) (kc_round_key (gc_key c)) of (status, h) \<Rightarrow>
                             let c = c\<lparr>gc_h := h\<rparr>
                             in if status \<noteq> TC_OK then (TC_ERROR, tc_aes_gcm_invalidate e (ctx\<lparr>o_val := c\<rparr>))
                                else let c = (if gb_mode g = TC_AES_GCM_GHASH_MODE_FAST_TABLE then tc_aes_gcm_init_table c else c);
                                         c = tc_aes_gcm_make_j0 g c (b_mem nonce)
                                     in (TC_OK, ctx\<lparr>o_val := c\<lparr>gc_counter := gc_j0 c, gc_aad_len := 0, gc_text_len := 0,
                                           gc_stream_pos := TC_AES_BLOCKLEN, gc_tag_len := tag_len mod 256,
                                           gc_phase := TC_AES_GCM_PHASE_AAD\<rparr>\<rparr>))"

definition TC_AES_GCM_init ::
  "gcm_build \<Rightarrow> aes_env \<Rightarrow> TC_AES_GCM_ctx obj \<Rightarrow> TC_bytes \<Rightarrow> TC_bytes \<Rightarrow> nat \<Rightarrow> TC_status \<times> TC_AES_GCM_ctx obj" where
  "TC_AES_GCM_init g e ctx k iv tag_len = tc_aes_gcm_init_impl g e ctx k iv tag_len False"

definition TC_AES_GCM_init_short_tag ::
  "gcm_build \<Rightarrow> aes_env \<Rightarrow> TC_AES_GCM_ctx obj \<Rightarrow> TC_bytes \<Rightarrow> TC_bytes \<Rightarrow> nat \<Rightarrow> TC_status \<times> TC_AES_GCM_ctx obj" where
  "TC_AES_GCM_init_short_tag g e ctx k iv tag_len = tc_aes_gcm_init_impl g e ctx k iv tag_len True"

definition TC_AES_GCM_aad_update ::
  "gcm_build \<Rightarrow> TC_AES_GCM_ctx obj \<Rightarrow> TC_bytes \<Rightarrow> TC_status \<times> TC_AES_GCM_ctx obj" where
  "TC_AES_GCM_aad_update g ctx aad =
     (let c = o_val ctx; len = b_length aad
      in if o_addr ctx = NULL \<or> gc_phase c \<noteq> TC_AES_GCM_PHASE_AAD \<or> (len \<noteq> 0 \<and> b_data aad = NULL) \<or>
            \<not> tc_internal_ranges_disjoint (o_addr ctx) (o_size ctx) (b_data aad) len \<or>
            \<not> tc_aes_gcm_length_is_valid (gc_aad_len c) len TC_AES_GCM_MAX_AAD_BYTES
         then (TC_ERROR, ctx)
         else if \<not> tc_aes_gcm_packet_length_ok c len then (TC_ERROR, ctx)
         else let c = tc_aes_gcm_absorb g c (b_mem aad)
              in (TC_OK, ctx\<lparr>o_val := c\<lparr>gc_aad_len := (gc_aad_len c + len) mod 2 ^ 64\<rparr>\<rparr>))"

definition TC_AES_GCM_encrypt_update ::
  "gcm_build \<Rightarrow> aes_env \<Rightarrow> TC_AES_GCM_ctx obj \<Rightarrow> TC_buffer \<Rightarrow> TC_status \<times> TC_AES_GCM_ctx obj \<times> TC_buffer" where
  "TC_AES_GCM_encrypt_update g e ctx buf =
     (let c = o_val ctx; len = w_capacity buf
      in if o_addr ctx = NULL \<or> gc_phase c = TC_AES_GCM_PHASE_UNINIT \<or> gc_phase c = TC_AES_GCM_PHASE_FINAL \<or>
            (len \<noteq> 0 \<and> w_data buf = NULL) \<or>
            \<not> tc_internal_ranges_disjoint (o_addr ctx) (o_size ctx) (w_data buf) len \<or>
            \<not> tc_aes_gcm_length_is_valid (gc_text_len c) len TC_AES_GCM_MAX_PLAINTEXT_BYTES \<or>
            \<not> tc_aes_gcm_packet_length_ok c len
         then (TC_ERROR, ctx, buf)
         else case tc_aes_gcm_gctr e (tc_aes_gcm_start_text g c) (w_mem buf) of (status, c, m) \<Rightarrow>
           if status \<noteq> TC_OK
           then (TC_ERROR, tc_aes_gcm_invalidate e (ctx\<lparr>o_val := c\<rparr>), buf\<lparr>w_mem := TC_secure_zero (w_data buf) m len\<rparr>)
           else let c = tc_aes_gcm_absorb g c m
                in (TC_OK, ctx\<lparr>o_val := c\<lparr>gc_text_len := (gc_text_len c + len) mod 2 ^ 64\<rparr>\<rparr>, buf\<lparr>w_mem := m\<rparr>))"

definition TC_AES_GCM_encrypt_finish ::
  "gcm_build \<Rightarrow> aes_env \<Rightarrow> TC_AES_GCM_ctx obj \<Rightarrow> TC_buffer \<Rightarrow> TC_status \<times> TC_AES_GCM_ctx obj \<times> TC_buffer" where
  "TC_AES_GCM_encrypt_finish g e ctx tag =
     (let c = o_val ctx
      in if o_addr ctx = NULL \<or> w_data tag = NULL \<or> gc_phase c = TC_AES_GCM_PHASE_UNINIT \<or>
            gc_phase c = TC_AES_GCM_PHASE_FINAL \<or> w_capacity tag < gc_tag_len c \<or>
            \<not> tc_internal_ranges_disjoint (o_addr ctx) (o_size ctx) (w_data tag) (gc_tag_len c) \<or>
            \<not> tc_aes_gcm_packet_length_ok c 0
         then (TC_ERROR, ctx, tag)
         else let c = tc_aes_gcm_finish_ghash g (tc_aes_gcm_start_text g c)
              in case tc_aes_gcm_make_tag e c (w_mem tag) of (status, m) \<Rightarrow>
                   (status, tc_aes_gcm_invalidate e (ctx\<lparr>o_val := c\<rparr>), tag\<lparr>w_mem := m\<rparr>))"

section \<open>The one-shot calls\<close>

text \<open>\<open>at\<close> and \<open>sz\<close> are the stack address and the size of the context, \<open>x_at\<close> the address of the array \<^verbatim>\<open>expected\<close>.\<close>

definition tc_aes_gcm_oneshot_args_ok ::
  "aes_env \<Rightarrow> TC_bytes \<Rightarrow> TC_bytes \<Rightarrow> TC_bytes \<Rightarrow> TC_bytes \<Rightarrow> TC_buffer \<Rightarrow> addr \<Rightarrow> nat \<Rightarrow> bool \<Rightarrow> bool" where
  "tc_aes_gcm_oneshot_args_ok e k iv aad input output tag tag_len short_tag \<longleftrightarrow>
     b_data k \<noteq> NULL \<and> b_length k = TC_AES_KEYLEN e \<and> b_data iv \<noteq> NULL \<and> b_length iv \<noteq> 0 \<and>
     tc_internal_span_valid (b_data aad) (b_length aad) \<and> tag \<noteq> NULL \<and>
     tc_aes_gcm_tag_length_is_allowed tag_len short_tag \<and> b_length iv \<le> TC_AES_GCM_MAX_IV_BYTES \<and>
     b_length aad \<le> TC_AES_GCM_MAX_AAD_BYTES \<and> b_length input \<le> TC_AES_GCM_MAX_PLAINTEXT_BYTES \<and>
     tc_aes_text_ok input output \<and> tc_internal_ranges_disjoint (w_data output) (b_length input) tag tag_len \<and>
     tc_aes_gcm_packet_lengths_ok tag_len (b_length aad) (b_length input) 0"

text \<open>
  The in-place call on the first bytes of the output; the copy before it is skipped where input and output are the same
  storage, which then holds the input.
\<close>

definition gcm_copied :: "TC_bytes \<Rightarrow> TC_buffer \<Rightarrow> TC_buffer" where
  "gcm_copied input output =
     (if b_length input \<noteq> 0 then output\<lparr>w_mem := memcpy_at (w_mem output) 0 (b_mem input)\<rparr> else output)"

definition tc_aes_gcm_encrypt_impl ::
  "gcm_build \<Rightarrow> aes_env \<Rightarrow> addr \<Rightarrow> nat \<Rightarrow> TC_bytes \<Rightarrow> TC_bytes \<Rightarrow> TC_bytes \<Rightarrow> TC_bytes \<Rightarrow> TC_buffer \<Rightarrow> TC_buffer \<Rightarrow> bool \<Rightarrow>
   TC_status \<times> TC_buffer \<times> TC_buffer" where
  "tc_aes_gcm_encrypt_impl g e at sz k iv aad plaintext ciphertext tag short_tag =
     (let n = b_length plaintext
      in if \<not> tc_aes_gcm_oneshot_args_ok e k iv aad plaintext ciphertext (w_data tag) (w_capacity tag) short_tag
         then (TC_ERROR, ciphertext, tag)
         else case tc_aes_gcm_init_impl g e \<lparr>o_addr = at, o_size = sz, o_val = gcm_ctx_zero e\<rparr> k iv (w_capacity tag) short_tag
              of (status, ctx) \<Rightarrow>
           case (if status = TC_OK then TC_AES_GCM_aad_update g ctx aad else (status, ctx)) of (status, ctx) \<Rightarrow>
           case (if status = TC_OK
                 then let ciphertext = gcm_copied plaintext ciphertext
                      in case TC_AES_GCM_encrypt_update g e ctx
                                \<lparr>w_data = w_data ciphertext, w_capacity = n, w_mem = take n (w_mem ciphertext)\<rparr>
                         of (status, ctx, b) \<Rightarrow> (status, ctx, ciphertext\<lparr>w_mem := memcpy_at (w_mem ciphertext) 0 (w_mem b)\<rparr>)
                 else (status, ctx, ciphertext))
           of (status, ctx, ciphertext) \<Rightarrow>
           case (if status = TC_OK then TC_AES_GCM_encrypt_finish g e ctx tag else (status, ctx, tag)) of (status, ctx, tag) \<Rightarrow>
             (status, aead_done status ciphertext n, tag))"

definition tc_aes_gcm_decrypt_impl ::
  "gcm_build \<Rightarrow> aes_env \<Rightarrow> addr \<Rightarrow> nat \<Rightarrow> addr \<Rightarrow> TC_bytes \<Rightarrow> TC_bytes \<Rightarrow> TC_bytes \<Rightarrow> TC_bytes \<Rightarrow> TC_bytes \<Rightarrow> TC_buffer \<Rightarrow> bool \<Rightarrow>
   TC_status \<times> TC_buffer" where
  "tc_aes_gcm_decrypt_impl g e at sz x_at k iv aad ciphertext tag plaintext short_tag =
     (let n = b_length ciphertext
      in if \<not> tc_aes_gcm_oneshot_args_ok e k iv aad ciphertext plaintext (b_data tag) (b_length tag) short_tag
         then (TC_ERROR, plaintext)
         else case tc_aes_gcm_init_impl g e \<lparr>o_addr = at, o_size = sz, o_val = gcm_ctx_zero e\<rparr> k iv (b_length tag) short_tag
              of (status, ctx) \<Rightarrow>
           case (if status = TC_OK then TC_AES_GCM_aad_update g ctx aad else (status, ctx)) of (status, ctx) \<Rightarrow>
           case (if status = TC_OK
                 then let c = tc_aes_gcm_absorb g (tc_aes_gcm_start_text g (o_val ctx)) (b_mem ciphertext);
                          c = tc_aes_gcm_finish_ghash g (c\<lparr>gc_text_len := n\<rparr>)
                      in case tc_aes_gcm_make_tag e c (replicate TC_AES_BLOCKLEN 0) of (status, expected) \<Rightarrow> (status, c, expected)
                 else (status, o_val ctx, replicate TC_AES_BLOCKLEN 0))
           of (status, c, expected) \<Rightarrow>
           let status = (if status = TC_OK
                         then TC_ct_equal \<lparr>b_data = x_at, b_length = gc_tag_len c, b_mem = take (gc_tag_len c) expected\<rparr> tag
                         else status)
           in case (if status = TC_OK \<and> n \<noteq> 0
                    then let plaintext = gcm_copied ciphertext plaintext
                         in case tc_aes_gcm_gctr e c (take n (w_mem plaintext)) of (status, c, m) \<Rightarrow>
                              (status, plaintext\<lparr>w_mem := memcpy_at (w_mem plaintext) 0 m\<rparr>)
                    else (status, plaintext))
              of (status, plaintext) \<Rightarrow> (status, aead_done status plaintext n))"

definition TC_AES_GCM_encrypt ::
  "gcm_build \<Rightarrow> aes_env \<Rightarrow> addr \<Rightarrow> nat \<Rightarrow> TC_bytes \<Rightarrow> TC_bytes \<Rightarrow> TC_bytes \<Rightarrow> TC_bytes \<Rightarrow> TC_buffer \<Rightarrow> TC_buffer \<Rightarrow> TC_status \<times> TC_buffer \<times> TC_buffer" where
  "TC_AES_GCM_encrypt g e at sz k iv aad plaintext ciphertext tag =
     tc_aes_gcm_encrypt_impl g e at sz k iv aad plaintext ciphertext tag False"

definition TC_AES_GCM_encrypt_short_tag ::
  "gcm_build \<Rightarrow> aes_env \<Rightarrow> addr \<Rightarrow> nat \<Rightarrow> TC_bytes \<Rightarrow> TC_bytes \<Rightarrow> TC_bytes \<Rightarrow> TC_bytes \<Rightarrow> TC_buffer \<Rightarrow> TC_buffer \<Rightarrow> TC_status \<times> TC_buffer \<times> TC_buffer" where
  "TC_AES_GCM_encrypt_short_tag g e at sz k iv aad plaintext ciphertext tag =
     tc_aes_gcm_encrypt_impl g e at sz k iv aad plaintext ciphertext tag True"

definition TC_AES_GCM_decrypt ::
  "gcm_build \<Rightarrow> aes_env \<Rightarrow> addr \<Rightarrow> nat \<Rightarrow> addr \<Rightarrow> TC_bytes \<Rightarrow> TC_bytes \<Rightarrow> TC_bytes \<Rightarrow> TC_bytes \<Rightarrow> TC_bytes \<Rightarrow> TC_buffer \<Rightarrow> TC_status \<times> TC_buffer" where
  "TC_AES_GCM_decrypt g e at sz x_at k iv aad ciphertext tag plaintext =
     tc_aes_gcm_decrypt_impl g e at sz x_at k iv aad ciphertext tag plaintext False"

definition TC_AES_GCM_decrypt_short_tag ::
  "gcm_build \<Rightarrow> aes_env \<Rightarrow> addr \<Rightarrow> nat \<Rightarrow> addr \<Rightarrow> TC_bytes \<Rightarrow> TC_bytes \<Rightarrow> TC_bytes \<Rightarrow> TC_bytes \<Rightarrow> TC_bytes \<Rightarrow> TC_buffer \<Rightarrow> TC_status \<times> TC_buffer" where
  "TC_AES_GCM_decrypt_short_tag g e at sz x_at k iv aad ciphertext tag plaintext =
     tc_aes_gcm_decrypt_impl g e at sz x_at k iv aad ciphertext tag plaintext True"

section \<open>SP 800-38D\<close>

definition ghash :: "u8 list \<Rightarrow> u8 list \<Rightarrow> u8 list" where
  "ghash h msg = fold (\<lambda>b s. gcm_mult (xorl s b) h) (chunks 16 msg) (replicate 16 0)"

definition gcm_j0 :: "u8 list \<Rightarrow> u8 list \<Rightarrow> u8 list" where
  "gcm_j0 h iv =
     (if length iv = 12 then iv @ [0, 0, 0, 1] else ghash h (pad16 iv @ replicate 8 0 @ be_bytes 8 (8 * length iv)))"

definition gcm_inc32 :: "u8 list \<Rightarrow> u8 list" where
  "gcm_inc32 b = take 12 b @ be_bytes 4 (be_val (drop 12 b) + 1)"

definition gcm_stream :: "(u8 list \<Rightarrow> u8 list) \<Rightarrow> u8 list \<Rightarrow> nat \<Rightarrow> u8" where
  "gcm_stream E j0 p = E ((gcm_inc32 ^^ Suc (p div 16)) j0) ! (p mod 16)"

definition gcm_subkey :: "u8 list \<Rightarrow> u8 list" where
  "gcm_subkey k = fips_aes k (replicate 16 0)"

definition gcm_text :: "u8 list \<Rightarrow> u8 list \<Rightarrow> u8 list \<Rightarrow> u8 list" where
  "gcm_text k iv text = add_stream (gcm_stream (fips_aes k) (gcm_j0 (gcm_subkey k) iv)) 0 text"

definition gcm_tag :: "u8 list \<Rightarrow> u8 list \<Rightarrow> u8 list \<Rightarrow> u8 list \<Rightarrow> u8 list" where
  "gcm_tag k iv aad c =
     xorl (fips_aes k (gcm_j0 (gcm_subkey k) iv))
       (ghash (gcm_subkey k) (pad16 aad @ pad16 c @ be_bytes 8 (8 * length aad) @ be_bytes 8 (8 * length c)))"

lemma length_gcm_text [simp]: "length (gcm_text k iv text) = length text"
  by (simp add: gcm_text_def)

lemma gcm_text_twice [simp]: "gcm_text k iv (gcm_text k iv text) = text"
  by (simp add: gcm_text_def)

lemma length_gcm_subkey [simp]: "length (gcm_subkey k) = 16"
  by (simp add: gcm_subkey_def)

lemma length_ghash [simp]: "length (ghash h msg) = 16"
proof -
  have "length s = 16 \<Longrightarrow> length (fold (\<lambda>b s. gcm_mult (xorl s b) h) bs s) = 16" for bs s
    by (induction bs arbitrary: s) simp_all
  then show ?thesis by (simp add: ghash_def)
qed

lemma ghash_snoc:
  assumes "16 dvd length m" "length b = 16"
  shows "ghash h (m @ b) = gcm_mult (xorl (ghash h m) b) h"
  using assms chunks_append [of 16 m b] chunks_append_block [of 16 b "[]"] by (simp add: ghash_def)

lemma length_gcm_j0 [simp]: "length (gcm_j0 h iv) = 16"
  by (simp add: gcm_j0_def)

lemma length_gcm_inc32 [simp]: "12 \<le> length b \<Longrightarrow> length (gcm_inc32 b) = 16"
  by (simp add: gcm_inc32_def)

lemma length_inc32_pow [simp]: "length b = 16 \<Longrightarrow> length ((gcm_inc32 ^^ n) b) = 16"
  by (induction n) simp_all

lemma store_be64_bytes: "tc_internal_store_be64 (of_nat n) = be_bytes 8 n"
proof -
  have "(ucast (drop_bit k (of_nat n :: u64)) :: u8) = of_nat (n div 2 ^ k)" if "k \<le> 56" for k
    using that by (intro bit_word_eqI) (simp add: bit_simps bit_of_nat_iff flip: drop_bit_eq_div)
  moreover have "(256 :: nat) ^ j = 2 ^ (8 * j)" for j by (simp add: power_mult)
  ultimately show ?thesis by (simp add: tc_internal_store_be64_def be_bytes_def diff_mult_distrib2)
qed

section \<open>The absorbing state\<close>

text \<open>The blocks of \<open>m\<close> are in the running tag, the bytes of \<open>r\<close> wait in the partial block.\<close>

definition ghash_at :: "u8 list \<Rightarrow> u8 list \<Rightarrow> TC_AES_GCM_ctx \<Rightarrow> bool" where
  "ghash_at h msg c \<longleftrightarrow> length (gc_ghash c) = 16 \<and> gc_ghash_len c < 16 \<and>
     (\<exists>m r. msg = m @ r \<and> 16 dvd length m \<and> length r = gc_ghash_len c \<and> take (gc_ghash_len c) (gc_ghash c) = r \<and> gc_s c = ghash h m)"

text \<open>What the absorbing functions leave alone.\<close>

definition ghash_fields :: "TC_AES_GCM_ctx \<Rightarrow> TC_AES_GCM_ctx \<Rightarrow> bool" where
  "ghash_fields c c' \<longleftrightarrow> c' = c\<lparr>gc_s := gc_s c', gc_ghash := gc_ghash c', gc_ghash_len := gc_ghash_len c'\<rparr>"

definition gcm_hash_ok :: "gcm_build \<Rightarrow> u8 list \<Rightarrow> TC_AES_GCM_ctx \<Rightarrow> bool" where
  "gcm_hash_ok g h c \<longleftrightarrow> gcm_build_ok g \<and> gcm_table_ok g c \<and> gc_h c = h \<and> length h = 16"

lemma ghash_fields_refl [simp]: "ghash_fields c c"
  by (simp add: ghash_fields_def)

lemma ghash_fields_trans: "ghash_fields a b \<Longrightarrow> ghash_fields b c \<Longrightarrow> ghash_fields a c"
  by (cases a; cases b; cases c) (simp add: ghash_fields_def)

lemma ghash_fields_ok: "ghash_fields c c' \<Longrightarrow> gcm_hash_ok g h c \<Longrightarrow> gcm_hash_ok g h c'"
  by (cases c; cases c') (simp add: ghash_fields_def gcm_hash_ok_def gcm_table_ok_def tc_aes_gcm_init_table_def)

lemma ghash_block_at:
  assumes "gcm_hash_ok g h c" "length (gc_s c) = 16" "16 \<le> length b"
  shows "tc_aes_gcm_ghash_block g c b = c\<lparr>gc_s := gcm_mult (xorl (gc_s c) (take 16 b)) h\<rparr>"
  using assms ghash_block_eq [of g c b] by (simp add: gcm_hash_ok_def)

lemma ghash_at_block:
  assumes "gcm_hash_ok g h c" "ghash_at h msg c" "gc_ghash_len c = 0" "16 \<le> length d"
  shows "ghash_at h (msg @ take 16 d) (tc_aes_gcm_ghash_block g c d)" "ghash_fields c (tc_aes_gcm_ghash_block g c d)"
proof -
  have m: "16 dvd length msg" "gc_s c = ghash h msg" using assms(2,3) by (auto simp: ghash_at_def)
  have b: "tc_aes_gcm_ghash_block g c d = c\<lparr>gc_s := ghash h (msg @ take 16 d)\<rparr>"
    using ghash_block_at [OF assms(1) _ assms(4)] m ghash_snoc [of msg "take 16 d" h] assms(4) by simp
  have "16 dvd length (msg @ take 16 d)" using m assms(4) by simp
  then show "ghash_at h (msg @ take 16 d) (tc_aes_gcm_ghash_block g c d)"
    using assms(2,3) unfolding b ghash_at_def by (auto intro!: exI [of _ "msg @ take 16 d"])
  show "ghash_fields c (tc_aes_gcm_ghash_block g c d)" unfolding b ghash_fields_def by simp
qed

lemma ghash_at_fill:
  assumes "ghash_at h msg c" "gc_ghash_len c + length d < 16"
  shows "ghash_at h (msg @ d) (c\<lparr>gc_ghash := memcpy_at (gc_ghash c) (gc_ghash_len c) d, gc_ghash_len := gc_ghash_len c + length d\<rparr>)"
proof -
  obtain m r where m: "msg = m @ r" "16 dvd length m" "length r = gc_ghash_len c" "take (gc_ghash_len c) (gc_ghash c) = r" "gc_s c = ghash h m"
    and l: "length (gc_ghash c) = 16" using assms(1) unfolding ghash_at_def by blast
  have "take (gc_ghash_len c + length d) (memcpy_at (gc_ghash c) (gc_ghash_len c) d) = r @ d"
    using m l assms(2) by (simp add: memcpy_at_def)
  then show ?thesis using m l assms(2) unfolding ghash_at_def by (auto simp: length_memcpy_at intro!: exI [of _ m] exI [of _ "r @ d"])
qed

lemma ghash_at_full:
  fixes n :: nat
  assumes "gcm_hash_ok g h c" "ghash_at h msg c" "gc_ghash_len c + length d = 16"
  defines "c1 \<equiv> c\<lparr>gc_ghash := memcpy_at (gc_ghash c) (gc_ghash_len c) d, gc_ghash_len := n\<rparr>"
  shows "ghash_at h (msg @ d) ((tc_aes_gcm_ghash_block g c1 (gc_ghash c1))\<lparr>gc_ghash_len := 0, gc_ghash := replicate 16 0\<rparr>)"
    and "ghash_fields c ((tc_aes_gcm_ghash_block g c1 (gc_ghash c1))\<lparr>gc_ghash_len := 0, gc_ghash := replicate 16 0\<rparr>)"
proof -
  obtain m r where m: "msg = m @ r" "16 dvd length m" "length r = gc_ghash_len c" "take (gc_ghash_len c) (gc_ghash c) = r" "gc_s c = ghash h m"
    and l: "length (gc_ghash c) = 16" using assms(2) unfolding ghash_at_def by blast
  have b: "gc_ghash c1 = r @ d" using m l assms(3) by (simp add: c1_def memcpy_at_def)
  have f1: "ghash_fields c c1" by (simp add: c1_def ghash_fields_def)
  have s: "gc_s c1 = ghash h m" "length (r @ d) = 16" using m assms(3) by (simp_all add: c1_def)
  have blk: "tc_aes_gcm_ghash_block g c1 (gc_ghash c1) = c1\<lparr>gc_s := ghash h (msg @ d)\<rparr>"
    using ghash_block_at [OF ghash_fields_ok [OF f1 assms(1)], of "r @ d"] ghash_snoc [OF m(2) s(2), of h] s m(1) by (simp add: b)
  have "16 dvd length (msg @ d)" using m s(2) by simp
  then show "ghash_at h (msg @ d) ((tc_aes_gcm_ghash_block g c1 (gc_ghash c1))\<lparr>gc_ghash_len := 0, gc_ghash := replicate 16 0\<rparr>)"
    unfolding blk ghash_at_def by simp
  show "ghash_fields c ((tc_aes_gcm_ghash_block g c1 (gc_ghash c1))\<lparr>gc_ghash_len := 0, gc_ghash := replicate 16 0\<rparr>)"
    unfolding blk ghash_fields_def by (simp add: c1_def)
qed

lemma absorb_at:
  "gcm_hash_ok g h c \<Longrightarrow> ghash_at h msg c \<Longrightarrow> ghash_at h (msg @ data) (tc_aes_gcm_absorb g c data) \<and> ghash_fields c (tc_aes_gcm_absorb g c data)"
proof (induction data arbitrary: c msg rule: length_induct)
  case (1 data)
  have f: "gc_ghash_len c < 16" using 1(3) by (simp add: ghash_at_def)
  show ?case
  proof (cases "data = []")
    case True
    then show ?thesis using 1(3) by (simp add: tc_aes_gcm_absorb.simps)
  next
    case ne: False
    show ?thesis
    proof (cases "gc_ghash_len c = 0 \<and> 16 \<le> length data")
      case True
      let ?c = "tc_aes_gcm_ghash_block g c data"
      have g: "gc_ghash_len c = 0" "16 \<le> length data" using True by simp_all
      note b = ghash_at_block [OF 1(2,3) g]
      have "tc_aes_gcm_absorb g c data = tc_aes_gcm_absorb g ?c (drop 16 data)"
        using True ne by (subst tc_aes_gcm_absorb.simps) (simp add: TC_AES_BLOCKLEN_def)
      moreover have "length (drop 16 data) < length data" using True ne by simp
      from 1(1) [rule_format, OF this ghash_fields_ok [OF b(2) 1(2)] b(1)] True
      have "ghash_at h ((msg @ take 16 data) @ drop 16 data) (tc_aes_gcm_absorb g ?c (drop 16 data))"
        "ghash_fields ?c (tc_aes_gcm_absorb g ?c (drop 16 data))" by simp_all
      ultimately show ?thesis using ghash_fields_trans [OF b(2)] True by simp
    next
      case False
      define n where "n = (if length data < 16 - gc_ghash_len c then length data else 16 - gc_ghash_len c)"
      let ?d = "take n data"
      have n: "0 < n" "length ?d = n" "gc_ghash_len c + n \<le> 16" using f ne by (auto simp: n_def)
      define c1 where "c1 = c\<lparr>gc_ghash := memcpy_at (gc_ghash c) (gc_ghash_len c) ?d, gc_ghash_len := gc_ghash_len c + n\<rparr>"
      define c2 where "c2 = (if gc_ghash_len c + n = 16 then (tc_aes_gcm_ghash_block g c1 (gc_ghash c1))\<lparr>gc_ghash_len := 0, gc_ghash := replicate 16 0\<rparr> else c1)"
      have step: "tc_aes_gcm_absorb g c data = tc_aes_gcm_absorb g c2 (drop n data)"
      proof -
        have m: "(gc_ghash_len c + n) mod 256 = gc_ghash_len c + n" using n(3) by simp
        have q: "(data = [] \<or> 16 \<le> gc_ghash_len c) = False" "(gc_ghash_len c = 0 \<and> 16 \<le> length data) = False" using ne f False by simp_all
        show ?thesis
          unfolding tc_aes_gcm_absorb.simps [of g c data] TC_AES_BLOCKLEN_def q if_False n_def [symmetric] Let_def m c2_def c1_def
          by simp
      qed
      have c2: "ghash_at h (msg @ ?d) c2 \<and> ghash_fields c c2"
      proof (cases "gc_ghash_len c + n = 16")
        case True
        then show ?thesis using ghash_at_full [OF 1(2,3), of ?d "gc_ghash_len c + n"] n by (simp add: c2_def c1_def)
      next
        case False
        then show ?thesis using ghash_at_fill [OF 1(3), of ?d] n by (simp add: c2_def c1_def ghash_fields_def)
      qed
      have "length (drop n data) < length data" using n ne by simp
      from 1(1) [rule_format, OF this ghash_fields_ok [OF _ 1(2)]] c2
      have "ghash_at h ((msg @ ?d) @ drop n data) (tc_aes_gcm_absorb g c2 (drop n data))" "ghash_fields c2 (tc_aes_gcm_absorb g c2 (drop n data))"
        by blast+
      then show ?thesis unfolding step using c2 ghash_fields_trans by auto
    qed
  qed
qed

lemma pad_at:
  assumes "gcm_hash_ok g h c" "ghash_at h msg c"
  shows "ghash_at h (pad16 msg) (tc_aes_gcm_pad_ghash g c)" "ghash_fields c (tc_aes_gcm_pad_ghash g c)"
    "gc_ghash_len (tc_aes_gcm_pad_ghash g c) = 0"
proof -
  obtain m r where m: "msg = m @ r" "16 dvd length m" "length r = gc_ghash_len c" and f: "gc_ghash_len c < 16"
    using assms(2) unfolding ghash_at_def by blast
  then have r: "length msg mod 16 = gc_ghash_len c" by (auto elim!: dvdE)
  have "ghash_at h (pad16 msg) (tc_aes_gcm_pad_ghash g c) \<and> ghash_fields c (tc_aes_gcm_pad_ghash g c) \<and> gc_ghash_len (tc_aes_gcm_pad_ghash g c) = 0"
  proof (cases "gc_ghash_len c = 0")
    case True
    then show ?thesis using assms(2) r by (simp add: tc_aes_gcm_pad_ghash_def pad16_def)
  next
    case False
    then have "pad16 msg = msg @ replicate (16 - gc_ghash_len c) 0" using r by (simp add: pad16_def)
    then show ?thesis
      using False f ghash_at_full [OF assms, of "replicate (16 - gc_ghash_len c) 0" "gc_ghash_len c"]
      by (simp add: tc_aes_gcm_pad_ghash_def TC_AES_BLOCKLEN_def Let_def)
  qed
  then show "ghash_at h (pad16 msg) (tc_aes_gcm_pad_ghash g c)" "ghash_fields c (tc_aes_gcm_pad_ghash g c)"
    "gc_ghash_len (tc_aes_gcm_pad_ghash g c) = 0" by simp_all
qed

text \<open>A full block after padding closes the hash.\<close>

lemma close_at:
  assumes "gcm_hash_ok g h c" "ghash_at h msg c" "length b = 16"
  shows "gc_s (tc_aes_gcm_ghash_block g (tc_aes_gcm_pad_ghash g c) b) = ghash h (pad16 msg @ b)"
    and "ghash_fields c (tc_aes_gcm_ghash_block g (tc_aes_gcm_pad_ghash g c) b)"
proof -
  note p = pad_at [OF assms(1,2)]
  note b = ghash_at_block [OF ghash_fields_ok [OF p(2) assms(1)] p(1,3), of b]
  have "gc_ghash_len (tc_aes_gcm_ghash_block g (tc_aes_gcm_pad_ghash g c) b) = 0"
    using p(3) by (simp add: tc_aes_gcm_ghash_block_def)
  then show "gc_s (tc_aes_gcm_ghash_block g (tc_aes_gcm_pad_ghash g c) b) = ghash h (pad16 msg @ b)"
    using b(1) assms(3) by (auto simp: ghash_at_def)
  show "ghash_fields c (tc_aes_gcm_ghash_block g (tc_aes_gcm_pad_ghash g c) b)"
    using ghash_fields_trans [OF p(2) b(2)] assms(3) by simp
qed

lemma ghash_at_start: "gc_s c = replicate 16 0 \<Longrightarrow> length (gc_ghash c) = 16 \<Longrightarrow> gc_ghash_len c = 0 \<Longrightarrow> ghash_at h [] c"
  by (simp add: ghash_at_def ghash_def)

text \<open>The pre-counter block; the hash starts empty afterwards.\<close>

lemma make_j0_at:
  assumes "gcm_hash_ok g h c"
  shows "\<exists>b. tc_aes_gcm_make_j0 g c iv = c\<lparr>gc_s := replicate 16 0, gc_ghash := b, gc_ghash_len := 0, gc_j0 := gcm_j0 h iv\<rparr> \<and> length b = 16"
proof -
  define c0 where "c0 = c\<lparr>gc_s := replicate 16 0, gc_ghash := replicate 16 0, gc_ghash_len := 0\<rparr>"
  have f0: "ghash_fields c c0" by (simp add: c0_def ghash_fields_def)
  have a0: "ghash_at h [] c0" by (rule ghash_at_start) (simp_all add: c0_def)
  show ?thesis
  proof (cases "length iv = 12")
    case True
    have "(memcpy_at (replicate 16 0) 0 iv)[15 := 1] = iv @ [0, 0, 0, 1]"
      using True by (simp add: memcpy_at_def list_update_append numeral_eq_Suc)
    then show ?thesis using True
      by (intro exI [of _ "replicate 16 0"]) (simp add: tc_aes_gcm_make_j0_def gcm_j0_def TC_AES_BLOCKLEN_def Let_def)
  next
    case False
    define lb where "lb = memcpy_at (replicate 16 0) 8 (be_bytes 8 (8 * length iv))"
    have lb: "lb = replicate 8 0 @ be_bytes 8 (8 * length iv)" by (simp add: lb_def memcpy_at_def)
    note a1 = absorb_at [OF ghash_fields_ok [OF f0 assms] a0, of iv]
    define c1 where "c1 = tc_aes_gcm_absorb g c0 iv"
    have f1: "ghash_fields c c1" using a1 ghash_fields_trans [OF f0] by (simp add: c1_def)
    have a1': "ghash_at h iv c1" using a1 by (simp add: c1_def)
    define c2 where "c2 = tc_aes_gcm_ghash_block g (tc_aes_gcm_pad_ghash g c1) lb"
    note cl = close_at [OF ghash_fields_ok [OF f1 assms] a1', of lb, folded c2_def]
    have s: "gc_s c2 = gcm_j0 h iv" using cl(1) False by (simp add: gcm_j0_def lb)
    have f2: "ghash_fields c c2" using ghash_fields_trans [OF f1 cl(2)] by (simp add: lb)
    have p: "gc_ghash_len c2 = 0" "length (gc_ghash c2) = 16"
      using pad_at(1,3) [OF ghash_fields_ok [OF f1 assms] a1'] by (simp_all add: c2_def tc_aes_gcm_ghash_block_def ghash_at_def)
    have "tc_aes_gcm_make_j0 g c iv = c2\<lparr>gc_j0 := gc_s c2, gc_s := replicate 16 0\<rparr>"
      using False by (simp add: tc_aes_gcm_make_j0_def TC_AES_BLOCKLEN_def Let_def store_be64_bytes mult.commute
          c2_def c1_def c0_def lb_def del: of_nat_mult)
    also have "\<dots> = c\<lparr>gc_s := replicate 16 0, gc_ghash := gc_ghash c2, gc_ghash_len := 0, gc_j0 := gcm_j0 h iv\<rparr>"
      using f2 p(1) s by (cases c; cases c2) (simp add: ghash_fields_def)
    finally show ?thesis using p(2) by blast
  qed
qed

section \<open>The keystream position\<close>

definition gctr_at :: "(u8 list \<Rightarrow> u8 list) \<Rightarrow> u8 list \<Rightarrow> nat \<Rightarrow> TC_AES_GCM_ctx \<Rightarrow> bool" where
  "gctr_at E j0 p c \<longleftrightarrow>
     (if p mod 16 = 0 then gc_counter c = (gcm_inc32 ^^ (p div 16)) j0 \<and> gc_stream_pos c = 16
      else gc_counter c = (gcm_inc32 ^^ Suc (p div 16)) j0 \<and> gc_stream_pos c = p mod 16 \<and> gc_stream c = E (gc_counter c))"

definition gctr_fields :: "TC_AES_GCM_ctx \<Rightarrow> TC_AES_GCM_ctx \<Rightarrow> bool" where
  "gctr_fields c c' \<longleftrightarrow> c' = c\<lparr>gc_counter := gc_counter c', gc_stream := gc_stream c', gc_stream_pos := gc_stream_pos c'\<rparr>"

lemma gctr_fields_refl [simp]: "gctr_fields c c"
  by (simp add: gctr_fields_def)

lemma gctr_fields_trans: "gctr_fields a b \<Longrightarrow> gctr_fields b c \<Longrightarrow> gctr_fields a c"
  by (cases a; cases b; cases c) (simp add: gctr_fields_def)

lemma gctr_fields_key: "gctr_fields c c' \<Longrightarrow> gc_key c' = gc_key c"
  by (cases c; cases c') (simp add: gctr_fields_def)

lemma increment32_eq:
  assumes "length b = 16"
  shows "tc_aes_gcm_increment32 b = gcm_inc32 b"
proof -
  let ?c = "fst (increment_be_loop (drop 12 b) 4)"
  have "be_val ?c = (be_val (drop 12 b) + 1) mod 256 ^ 4"
    using increment_be_loop_val(1) [of 4 "drop 12 b"] assms by simp
  then have "be_bytes 4 (be_val (drop 12 b) + 1) = ?c"
    using be_val_inject [of "be_bytes 4 (be_val (drop 12 b) + 1)" ?c] assms by simp
  then show ?thesis using assms by (simp add: tc_aes_gcm_increment32_def tc_internal_increment_be_def gcm_inc32_def memcpy_at_def)
qed

lemma div_mod_add:
  assumes "(p :: nat) mod 16 + i < 16"
  shows "(p + i) div 16 = p div 16" "(p + i) mod 16 = p mod 16 + i"
proof -
  have "p + i = 16 * (p div 16) + (p mod 16 + i)" by simp
  moreover have "(16 * q + r) div 16 = q" "(16 * q + r) mod 16 = r" if "r < 16" for q r :: nat using that by simp_all
  ultimately show "(p + i) div 16 = p div 16" "(p + i) mod 16 = p mod 16 + i" using assms by metis+
qed

lemma div_mod_full:
  assumes "(p :: nat) mod 16 + i = 16"
  shows "(p + i) div 16 = Suc (p div 16)" "(p + i) mod 16 = 0"
proof -
  have "p + i = 16 * (p div 16) + (p mod 16 + i)" by simp
  then have "p + i = 16 * Suc (p div 16)" unfolding assms by simp
  then show "(p + i) div 16 = Suc (p div 16)" "(p + i) mod 16 = 0" by simp_all
qed

lemma gctr_loop_eq:
  assumes "aes_env_wf e" "aes_keyed e k (gc_key c)" "length j0 = 16"
  shows "gctr_at (fips_aes k) j0 p c \<Longrightarrow> aes_keyed e k (gc_key c) \<Longrightarrow>
    \<exists>c'. gctr_loop e c dn buf = (TC_OK, c', dn @ add_stream (gcm_stream (fips_aes k) j0) p buf) \<and>
         gctr_at (fips_aes k) j0 (p + length buf) c' \<and> gctr_fields c c'"
proof (induction buf arbitrary: c dn p rule: length_induct)
  case (1 buf)
  let ?E = "fips_aes k" and ?ks = "gcm_stream (fips_aes k) j0"
  show ?case
  proof (cases "buf = []")
    case True
    then show ?thesis using 1(2) by (intro exI [of _ c]) (simp add: gctr_loop.simps)
  next
    case ne: False
    let ?ctr = "(gcm_inc32 ^^ Suc (p div 16)) j0"
    obtain c1 where pre: "(if gc_stream_pos c = TC_AES_BLOCKLEN
                 then let ctr = tc_aes_gcm_increment32 (gc_counter c)
                      in case tc_aes_cipher e ctr (kc_round_key (gc_key c)) of (status, stream) \<Rightarrow>
                           let c = c\<lparr>gc_counter := ctr, gc_stream := stream\<rparr>
                           in if status \<noteq> TC_OK then (TC_ERROR, c) else (TC_OK, c\<lparr>gc_stream_pos := 0\<rparr>)
                 else (TC_OK, c)) = (TC_OK, c1)"
      and c1: "gc_counter c1 = ?ctr" "gc_stream c1 = ?E ?ctr" "gc_stream_pos c1 = p mod 16" "gctr_fields c c1"
    proof (cases "p mod 16 = 0")
      case True
      then have "gc_counter c = (gcm_inc32 ^^ (p div 16)) j0" "gc_stream_pos c = 16" using 1(2) by (simp_all add: gctr_at_def)
      moreover have "tc_aes_gcm_increment32 ((gcm_inc32 ^^ (p div 16)) j0) = ?ctr" using assms(3) by (simp add: increment32_eq)
      moreover have "tc_aes_cipher e ?ctr (kc_round_key (gc_key c)) = (TC_OK, ?E ?ctr)"
        by (rule cipher_keyed [OF assms(1) 1(3)]) (use assms(3) length_inc32_pow in blast)
      ultimately show thesis
        using that [of "c\<lparr>gc_counter := ?ctr, gc_stream := ?E ?ctr, gc_stream_pos := 0\<rparr>"] True
        by (simp add: TC_AES_BLOCKLEN_def gctr_fields_def Let_def del: funpow.simps)
    next
      case False
      then have "gc_counter c = ?ctr" "gc_stream c = ?E ?ctr" "gc_stream_pos c = p mod 16" using 1(2) by (simp_all add: gctr_at_def del: funpow.simps)
      moreover have "p mod 16 \<noteq> 16" using mod_less_divisor [of 16 p] by linarith
      ultimately show thesis using that [of c] by (simp add: TC_AES_BLOCKLEN_def del: funpow.simps)
    qed
    define n where "n = (if length buf < 16 - p mod 16 then length buf else 16 - p mod 16)"
    have n: "0 < n" "n \<le> length buf" "p mod 16 + n \<le> 16" using ne by (auto simp: n_def)
    have nth: "?E ?ctr ! (p mod 16 + i) = ?ks (p + i)" if "i < n" for i
    proof -
      have "p mod 16 + i < 16" using that n(3) by simp
      from div_mod_add [OF this] show ?thesis by (simp add: gcm_stream_def del: funpow.simps)
    qed
    have x: "fold (\<lambda>i b. b[i := b ! i XOR gc_stream c1 ! (gc_stream_pos c1 + i)]) [0..<n] buf = add_stream ?ks p (take n buf) @ drop n buf"
    proof -
      have "map (\<lambda>i. buf ! i XOR ?E ?ctr ! (p mod 16 + i)) [0..<n] = add_stream ?ks p (take n buf)"
        using n(2) nth by (simp add: add_stream_def)
      then show ?thesis
        using fold_update_upt [of n buf "\<lambda>i x. x XOR ?E ?ctr ! (p mod 16 + i)"] n(2) unfolding c1(2,3) by simp
    qed
    define c2 where "c2 = c1\<lparr>gc_stream_pos := p mod 16 + n\<rparr>"
    have step: "gctr_loop e c dn buf = gctr_loop e c2 (dn @ add_stream ?ks p (take n buf)) (drop n buf)"
    proof -
      have q: "(buf = []) = False" "(TC_OK \<noteq> TC_OK \<or> 16 \<le> p mod 16) = False" using ne by simp_all
      have m: "(p mod 16 + n) mod 256 = p mod 16 + n" using n(3) by simp
      show ?thesis
        unfolding gctr_loop.simps [of e c dn buf] pre
        unfolding prod.case q if_False TC_AES_BLOCKLEN_def c1(3) Let_def n_def [symmetric] x [unfolded c1(3)] m
        using n(2) by (simp add: c2_def)
    qed
    have at2: "gctr_at ?E j0 (p + n) c2"
    proof (cases "p mod 16 + n = 16")
      case True
      then show ?thesis using div_mod_full [OF True] c1(1) by (simp add: gctr_at_def c2_def del: funpow.simps)
    next
      case False
      then have "p mod 16 + n < 16" using n(3) by simp
      from div_mod_add [OF this] show ?thesis using c1 n(1) by (simp add: gctr_at_def c2_def del: funpow.simps)
    qed
    have f2: "gctr_fields c c2" using c1(4) by (rule gctr_fields_trans) (simp add: c2_def gctr_fields_def)
    have "length (drop n buf) < length buf" using n ne by simp
    from 1(1) [rule_format, OF this at2, of "dn @ add_stream ?ks p (take n buf)"] gctr_fields_key [OF f2] 1(3)
    obtain c' where c': "gctr_loop e c2 (dn @ add_stream ?ks p (take n buf)) (drop n buf) =
        (TC_OK, c', (dn @ add_stream ?ks p (take n buf)) @ add_stream ?ks (p + n) (drop n buf))"
      "gctr_at ?E j0 (p + n + length (drop n buf)) c'" "gctr_fields c2 c'" by auto
    moreover have "add_stream ?ks p (take n buf) @ add_stream ?ks (p + n) (drop n buf) = add_stream ?ks p buf"
      using add_stream_append [of ?ks p "take n buf" "drop n buf"] n(2) by simp
    moreover have "p + n + length (drop n buf) = p + length buf" using n(2) by simp
    ultimately show ?thesis unfolding step using gctr_fields_trans [OF f2] by auto
  qed
qed

section \<open>The streaming context\<close>

text \<open>
  The context after the associated data \<open>aad\<close> and the plaintext \<open>text\<close> under key \<open>k\<close> and initialization vector \<open>iv\<close>, with tags of
  \<open>t\<close> bytes.
\<close>

definition gcm_within :: "nat \<Rightarrow> nat \<Rightarrow> nat \<Rightarrow> bool" where
  "gcm_within t a x \<longleftrightarrow> a \<le> TC_AES_GCM_MAX_AAD_BYTES \<and> x \<le> TC_AES_GCM_MAX_PLAINTEXT_BYTES \<and>
     (t = 4 \<longrightarrow> a + x \<le> 2 ^ 10) \<and> (t = 8 \<longrightarrow> a + x \<le> 2 ^ 25)"

definition gcm_at ::
  "gcm_build \<Rightarrow> aes_env \<Rightarrow> u8 list \<Rightarrow> u8 list \<Rightarrow> nat \<Rightarrow> u8 list \<Rightarrow> u8 list \<Rightarrow> TC_AES_GCM_ctx \<Rightarrow> bool" where
  "gcm_at g e k iv t aad text c \<longleftrightarrow>
     gcm_hash_ok g (gcm_subkey k) c \<and> aes_keyed e k (gc_key c) \<and> gc_j0 c = gcm_j0 (gcm_subkey k) iv \<and>
     gctr_at (fips_aes k) (gcm_j0 (gcm_subkey k) iv) (length text) c \<and> gc_aad_len c = length aad \<and>
     gc_text_len c = length text \<and> gc_tag_len c = t \<and> t \<le> 16 \<and> gcm_within t (length aad) (length text) \<and>
     (if gc_phase c = TC_AES_GCM_PHASE_AAD then text = [] \<and> ghash_at (gcm_subkey k) aad c
      else gc_phase c = TC_AES_GCM_PHASE_TEXT \<and> ghash_at (gcm_subkey k) (pad16 aad @ gcm_text k iv text) c)"

lemmas gcm_phases = TC_AES_GCM_PHASE_UNINIT_def TC_AES_GCM_PHASE_AAD_def TC_AES_GCM_PHASE_TEXT_def TC_AES_GCM_PHASE_FINAL_def

lemma packet_lengths_iff:
  "tc_aes_gcm_packet_lengths_ok t a x y \<longleftrightarrow> (t = 4 \<longrightarrow> a + x + y \<le> 2 ^ 10) \<and> (t = 8 \<longrightarrow> a + x + y \<le> 2 ^ 25)"
  by (auto simp: tc_aes_gcm_packet_lengths_ok_def TC_AES_GCM_SHORT_TAG4_MAX_PACKET_def TC_AES_GCM_SHORT_TAG8_MAX_PACKET_def Let_def)

lemma length_is_valid_iff:
  assumes "current \<le> limit" "limit < 2 ^ 64"
  shows "tc_aes_gcm_length_is_valid current additional limit \<longleftrightarrow> current + additional \<le> limit"
proof -
  have "(limit + 2 ^ 64 - current) mod 2 ^ 64 = ((limit - current) + 2 ^ 64) mod 2 ^ 64" using assms(1) by simp
  also have "\<dots> = limit - current" using assms(2) by (simp only: mod_add_self2 mod_less less_imp_diff_less)
  finally show ?thesis using assms(1) by (auto simp: tc_aes_gcm_length_is_valid_def)
qed

lemma max_aad_less: "TC_AES_GCM_MAX_AAD_BYTES < 2 ^ 64" and max_plaintext_less: "TC_AES_GCM_MAX_PLAINTEXT_BYTES < 2 ^ 64"
  by (simp_all add: TC_AES_GCM_MAX_AAD_BYTES_def TC_AES_GCM_MAX_PLAINTEXT_BYTES_def UINT64_MAX_def)

lemma within_bounds: "gcm_within t a x \<Longrightarrow> a < 2 ^ 64 \<and> x < 2 ^ 64"
  using max_aad_less max_plaintext_less unfolding gcm_within_def by linarith

lemma ghash_fields_keep:
  assumes "ghash_fields c c'"
  shows "gc_key c' = gc_key c" "gc_h c' = gc_h c" "gc_j0 c' = gc_j0 c" "gc_aad_len c' = gc_aad_len c" "gc_text_len c' = gc_text_len c"
    "gc_tag_len c' = gc_tag_len c" "gc_phase c' = gc_phase c" "gctr_at E j0 p c' = gctr_at E j0 p c"
  using assms by (cases c; cases c'; simp add: ghash_fields_def gctr_at_def)+

lemma gctr_fields_keep:
  assumes "gctr_fields c c'"
  shows "gc_key c' = gc_key c" "gc_h c' = gc_h c" "gc_j0 c' = gc_j0 c" "gc_aad_len c' = gc_aad_len c" "gc_text_len c' = gc_text_len c"
    "gc_tag_len c' = gc_tag_len c" "gc_phase c' = gc_phase c" "ghash_at h m c' = ghash_at h m c" "gcm_hash_ok g h c' = gcm_hash_ok g h c"
  using assms by (cases c; cases c'; simp add: gctr_fields_def ghash_at_def gcm_hash_ok_def gcm_table_ok_def tc_aes_gcm_init_table_def)+

lemma meta_fields [simp]:
  "gctr_at E j0 p (c\<lparr>gc_aad_len := n\<rparr>) = gctr_at E j0 p c" "gctr_at E j0 p (c\<lparr>gc_text_len := n\<rparr>) = gctr_at E j0 p c"
  "gctr_at E j0 p (c\<lparr>gc_phase := f\<rparr>) = gctr_at E j0 p c"
  "ghash_at h m (c\<lparr>gc_aad_len := n\<rparr>) = ghash_at h m c" "ghash_at h m (c\<lparr>gc_text_len := n\<rparr>) = ghash_at h m c"
  "ghash_at h m (c\<lparr>gc_phase := f\<rparr>) = ghash_at h m c"
  "gcm_hash_ok g h (c\<lparr>gc_aad_len := n\<rparr>) = gcm_hash_ok g h c" "gcm_hash_ok g h (c\<lparr>gc_text_len := n\<rparr>) = gcm_hash_ok g h c"
  "gcm_hash_ok g h (c\<lparr>gc_phase := f\<rparr>) = gcm_hash_ok g h c"
  by (simp_all add: gctr_at_def ghash_at_def gcm_hash_ok_def gcm_table_ok_def tc_aes_gcm_init_table_def)

definition gcm_piece_ok :: "TC_AES_GCM_ctx obj \<Rightarrow> addr \<Rightarrow> nat \<Rightarrow> bool" where
  "gcm_piece_ok ctx data len \<longleftrightarrow> (len \<noteq> 0 \<longrightarrow> data \<noteq> NULL) \<and> tc_internal_ranges_disjoint (o_addr ctx) (o_size ctx) data len"

lemma aad_update_at:
  assumes "gcm_at g e k iv t aad [] (o_val ctx)" "gc_phase (o_val ctx) = TC_AES_GCM_PHASE_AAD" "o_addr ctx \<noteq> NULL"
    "gcm_piece_ok ctx (b_data a) (b_length a)" "bytes_wf a"
  shows "if gcm_within t (length aad + b_length a) 0
    then \<exists>c. TC_AES_GCM_aad_update g ctx a = (TC_OK, ctx\<lparr>o_val := c\<rparr>) \<and> gcm_at g e k iv t (aad @ b_mem a) [] c \<and> gc_phase c = TC_AES_GCM_PHASE_AAD
    else TC_AES_GCM_aad_update g ctx a = (TC_ERROR, ctx)"
proof -
  let ?c = "o_val ctx" and ?h = "gcm_subkey k"
  have len: "length (b_mem a) = b_length a" using assms(4,5) by (auto simp: gcm_piece_ok_def bytes_wf_def)
  have st: "gcm_hash_ok g ?h ?c" "ghash_at ?h aad ?c" "gc_aad_len ?c = length aad" "gc_text_len ?c = 0" "gc_tag_len ?c = t"
    "gcm_within t (length aad) 0" using assms(1,2) by (auto simp: gcm_at_def)
  have "length aad \<le> TC_AES_GCM_MAX_AAD_BYTES" using st(6) by (simp add: gcm_within_def)
  note lv = length_is_valid_iff [OF this max_aad_less]
  have ok: "tc_aes_gcm_length_is_valid (length aad) (b_length a) TC_AES_GCM_MAX_AAD_BYTES \<and> tc_aes_gcm_packet_length_ok ?c (b_length a) \<longleftrightarrow>
      gcm_within t (length aad + b_length a) 0"
    using st by (auto simp: lv tc_aes_gcm_packet_length_ok_def packet_lengths_iff gcm_within_def)
  define c where "c = tc_aes_gcm_absorb g ?c (b_mem a)"
  have ab: "ghash_at ?h (aad @ b_mem a) c" "ghash_fields ?c c" using absorb_at [OF st(1,2), of "b_mem a"] by (simp_all add: c_def)
  note keep = ghash_fields_keep [OF ab(2)] ghash_fields_ok [OF ab(2) st(1)]
  show ?thesis
  proof (cases "gcm_within t (length aad + b_length a) 0")
    case True
    have m: "(length aad + b_length a) mod 2 ^ 64 = length aad + b_length a" using within_bounds [OF True] by simp
    have "gcm_at g e k iv t (aad @ b_mem a) [] (c\<lparr>gc_aad_len := length aad + b_length a\<rparr>)"
      using assms(1,2) keep ab(1) True len by (simp add: gcm_at_def)
    then show ?thesis
      using True ok assms(2-4) st keep m
      by (auto simp: TC_AES_GCM_aad_update_def Let_def gcm_piece_ok_def simp flip: c_def)
  next
    case False
    then show ?thesis using ok st(3) by (auto simp: TC_AES_GCM_aad_update_def Let_def)
  qed
qed

lemma start_text_at:
  assumes "gcm_at g e k iv t aad text c"
  shows "gcm_at g e k iv t aad text (tc_aes_gcm_start_text g c)" "gc_phase (tc_aes_gcm_start_text g c) = TC_AES_GCM_PHASE_TEXT"
proof -
  let ?h = "gcm_subkey k"
  have "gcm_at g e k iv t aad text (tc_aes_gcm_start_text g c) \<and> gc_phase (tc_aes_gcm_start_text g c) = TC_AES_GCM_PHASE_TEXT"
  proof (cases "gc_phase c = TC_AES_GCM_PHASE_AAD")
    case True
    then have st: "gcm_hash_ok g ?h c" "ghash_at ?h aad c" "text = []" using assms by (auto simp: gcm_at_def)
    note p = pad_at [OF st(1,2)]
    note keep = ghash_fields_keep [OF p(2)] ghash_fields_ok [OF p(2) st(1)]
    have "TC_AES_GCM_PHASE_TEXT \<noteq> TC_AES_GCM_PHASE_AAD" by (simp add: gcm_phases)
    then show ?thesis using assms True keep p(1) st(3) by (simp add: tc_aes_gcm_start_text_def gcm_at_def gcm_text_def)
  next
    case False
    then show ?thesis using assms by (simp add: tc_aes_gcm_start_text_def gcm_at_def)
  qed
  then show "gcm_at g e k iv t aad text (tc_aes_gcm_start_text g c)" "gc_phase (tc_aes_gcm_start_text g c) = TC_AES_GCM_PHASE_TEXT"
    by simp_all
qed

lemma gcm_at_phase: "gcm_at g e k iv t aad text c \<Longrightarrow> gc_phase c \<noteq> TC_AES_GCM_PHASE_UNINIT \<and> gc_phase c \<noteq> TC_AES_GCM_PHASE_FINAL"
  by (auto simp: gcm_at_def gcm_phases split: if_splits)

lemma gcm_text_append:
  "gcm_text k iv (a @ b) = gcm_text k iv a @ add_stream (gcm_stream (fips_aes k) (gcm_j0 (gcm_subkey k) iv)) (length a) b"
  by (simp add: gcm_text_def add_stream_append)

lemma encrypt_update_at:
  assumes "aes_env_wf e" "gcm_at g e k iv t aad text (o_val ctx)" "o_addr ctx \<noteq> NULL"
    "gcm_piece_ok ctx (w_data b) (w_capacity b)" "buffer_wf b"
  shows "if gcm_within t (length aad) (length text + w_capacity b)
    then \<exists>c m. TC_AES_GCM_encrypt_update g e ctx b = (TC_OK, ctx\<lparr>o_val := c\<rparr>, b\<lparr>w_mem := m\<rparr>) \<and>
           gcm_at g e k iv t aad (text @ w_mem b) c \<and> gcm_text k iv (text @ w_mem b) = gcm_text k iv text @ m
    else TC_AES_GCM_encrypt_update g e ctx b = (TC_ERROR, ctx, b)"
proof -
  let ?c = "o_val ctx" and ?h = "gcm_subkey k"
  let ?j = "gcm_j0 ?h iv"
  have len: "length (w_mem b) = w_capacity b" using assms(4,5) by (auto simp: gcm_piece_ok_def buffer_wf_def)
  have st: "gc_aad_len ?c = length aad" "gc_text_len ?c = length text" "gc_tag_len ?c = t" "gcm_within t (length aad) (length text)"
    using assms(2) by (auto simp: gcm_at_def)
  have "length text \<le> TC_AES_GCM_MAX_PLAINTEXT_BYTES" using st(4) by (simp add: gcm_within_def)
  note lv = length_is_valid_iff [OF this max_plaintext_less]
  have ok: "tc_aes_gcm_length_is_valid (length text) (w_capacity b) TC_AES_GCM_MAX_PLAINTEXT_BYTES \<and> tc_aes_gcm_packet_length_ok ?c (w_capacity b) \<longleftrightarrow>
      gcm_within t (length aad) (length text + w_capacity b)"
    using st by (auto simp: lv tc_aes_gcm_packet_length_ok_def packet_lengths_iff gcm_within_def)
  define c0 where "c0 = tc_aes_gcm_start_text g ?c"
  have s0: "gcm_at g e k iv t aad text c0" and p0: "gc_phase c0 = TC_AES_GCM_PHASE_TEXT" using start_text_at [OF assms(2)] by (simp_all add: c0_def)
  then have s1: "gcm_hash_ok g ?h c0" "aes_keyed e k (gc_key c0)" "gctr_at (fips_aes k) ?j (length text) c0" "gc_text_len c0 = length text"
    "ghash_at ?h (pad16 aad @ gcm_text k iv text) c0" by (auto simp: gcm_at_def gcm_phases)
  let ?m = "add_stream (gcm_stream (fips_aes k) ?j) (length text) (w_mem b)"
  obtain c1 where g1: "tc_aes_gcm_gctr e c0 (w_mem b) = (TC_OK, c1, ?m)"
    "gctr_at (fips_aes k) ?j (length text + length (w_mem b)) c1" "gctr_fields c0 c1"
    using gctr_loop_eq [OF assms(1) s1(2) length_gcm_j0 s1(3,2), of "[]" "w_mem b"] by (auto simp: tc_aes_gcm_gctr_def)
  note k1 = gctr_fields_keep [OF g1(3)]
  define c2 where "c2 = tc_aes_gcm_absorb g c1 ?m"
  have a2: "ghash_at ?h (pad16 aad @ gcm_text k iv (text @ w_mem b)) c2" "ghash_fields c1 c2"
    using absorb_at [of g ?h c1 "pad16 aad @ gcm_text k iv text" ?m] s1 by (simp_all add: c2_def k1 gcm_text_append)
  note k2 = ghash_fields_keep [OF a2(2)]
  have h2: "gcm_hash_ok g ?h c2" using ghash_fields_ok [OF a2(2)] s1(1) by (simp add: k1)
  show ?thesis
  proof (cases "gcm_within t (length aad) (length text + w_capacity b)")
    case True
    have m: "(length text + w_capacity b) mod 2 ^ 64 = length text + w_capacity b" using within_bounds [OF True] by simp
    have at: "gcm_at g e k iv t aad (text @ w_mem b) (c2\<lparr>gc_text_len := length text + w_capacity b\<rparr>)"
      using s0 p0 True len a2(1) h2 g1(2) by (simp add: gcm_at_def k1 k2 gcm_phases)
    have up: "TC_AES_GCM_encrypt_update g e ctx b = (TC_OK, ctx\<lparr>o_val := c2\<lparr>gc_text_len := length text + w_capacity b\<rparr>\<rparr>, b\<lparr>w_mem := ?m\<rparr>)"
      using True ok assms(3,4) st gcm_at_phase [OF assms(2)] m s1(4)
      by (auto simp: TC_AES_GCM_encrypt_update_def Let_def gcm_piece_ok_def g1(1) k1 k2 simp flip: c0_def c2_def)
    show ?thesis
      unfolding if_P [OF True]
      by (rule exI [of _ "c2\<lparr>gc_text_len := length text + w_capacity b\<rparr>"], rule exI [of _ ?m]) (simp add: up at gcm_text_append)
  next
    case False
    then show ?thesis using ok st by (auto simp: TC_AES_GCM_encrypt_update_def Let_def)
  qed
qed

text \<open>The tag, and the context after it.\<close>

lemma hash_tag:
  assumes "aes_env_wf e" "gcm_hash_ok g (gcm_subkey k) c" "aes_keyed e k (gc_key c)" "gc_j0 c = gcm_j0 (gcm_subkey k) iv" "gc_aad_len c = length aad"
    "gc_text_len c = length ct" "gc_tag_len c = t" "t \<le> 16" "ghash_at (gcm_subkey k) (pad16 aad @ ct) c" "t \<le> length tag"
  shows "tc_aes_gcm_make_tag e (tc_aes_gcm_finish_ghash g c) tag = (TC_OK, take t (gcm_tag k iv aad ct) @ drop t tag)"
    and "ghash_fields c (tc_aes_gcm_finish_ghash g c)"
proof -
  let ?h = "gcm_subkey k" let ?j = "gcm_j0 ?h iv"
  define lb where "lb = be_bytes 8 (8 * length aad) @ be_bytes 8 (8 * length ct)"
  have llb: "length lb = 16" by (simp add: lb_def)
  note cl = close_at [OF assms(2,9) llb]
  have pk: "gc_aad_len (tc_aes_gcm_pad_ghash g c) = length aad" "gc_text_len (tc_aes_gcm_pad_ghash g c) = length ct"
    using ghash_fields_keep [OF pad_at(2) [OF assms(2,9)]] assms(5,6) by simp_all
  have f: "tc_aes_gcm_finish_ghash g c = tc_aes_gcm_ghash_block g (tc_aes_gcm_pad_ghash g c) lb"
    by (simp add: tc_aes_gcm_finish_ghash_def Let_def pk store_be64_bytes lb_def TC_AES_BLOCKLEN_def memcpy_at_def mult.commute del: of_nat_mult)
  show ff: "ghash_fields c (tc_aes_gcm_finish_ghash g c)" using cl(2) by (simp add: f)
  note keep = ghash_fields_keep [OF ff]
  have s: "gc_s (tc_aes_gcm_finish_ghash g c) = ghash ?h (pad16 aad @ pad16 ct @ lb)"
    using cl(1) by (simp add: f pad16_append [OF dvd_pad16])
  have tg: "gcm_tag k iv aad ct = xorl (fips_aes k ?j) (ghash ?h (pad16 aad @ pad16 ct @ lb))"
    by (simp add: gcm_tag_def lb_def)
  have "map (\<lambda>i. fips_aes k ?j ! i XOR ghash ?h (pad16 aad @ pad16 ct @ lb) ! i) [0..<t] = take t (gcm_tag k iv aad ct)"
    unfolding tg by (rule nth_equalityI) (use assms(8) in simp_all)
  then show "tc_aes_gcm_make_tag e (tc_aes_gcm_finish_ghash g c) tag = (TC_OK, take t (gcm_tag k iv aad ct) @ drop t tag)"
    using cipher_keyed [OF assms(1,3), of ?j] fold_update_upt [OF assms(10), of "\<lambda>i _. fips_aes k ?j ! i XOR ghash ?h (pad16 aad @ pad16 ct @ lb) ! i"]
    by (simp add: tc_aes_gcm_make_tag_def keep s assms(4,7))
qed

lemma finish_tag:
  assumes "aes_env_wf e" "gcm_at g e k iv t aad text c" "gc_phase c = TC_AES_GCM_PHASE_TEXT" "t \<le> length tag"
  shows "tc_aes_gcm_make_tag e (tc_aes_gcm_finish_ghash g c) tag = (TC_OK, take t (gcm_tag k iv aad (gcm_text k iv text)) @ drop t tag)"
  using assms by (intro hash_tag) (auto simp: gcm_at_def gcm_phases)

definition gcm_finished :: "aes_env \<Rightarrow> TC_AES_GCM_ctx" where
  "gcm_finished e = (gcm_ctx_zero e)\<lparr>gc_phase := TC_AES_GCM_PHASE_FINAL\<rparr>"

lemma finish_at:
  assumes "aes_env_wf e" "gcm_at g e k iv t aad text (o_val ctx)" "o_addr ctx \<noteq> NULL" "w_data tag \<noteq> NULL" "t \<le> w_capacity tag"
    "tc_internal_ranges_disjoint (o_addr ctx) (o_size ctx) (w_data tag) t" "buffer_wf tag"
  shows "TC_AES_GCM_encrypt_finish g e ctx tag =
    (TC_OK, ctx\<lparr>o_val := gcm_finished e\<rparr>, tag\<lparr>w_mem := take t (gcm_tag k iv aad (gcm_text k iv text)) @ drop t (w_mem tag)\<rparr>)"
proof -
  let ?c = "o_val ctx"
  have st: "gc_tag_len ?c = t" "tc_aes_gcm_packet_length_ok ?c 0"
    using assms(2) by (auto simp: gcm_at_def gcm_within_def tc_aes_gcm_packet_length_ok_def packet_lengths_iff)
  have "t \<le> length (w_mem tag)" using assms(4,5,7) by (simp add: buffer_wf_def)
  note f = finish_tag [OF assms(1) start_text_at [OF assms(2)] this]
  show ?thesis
    using assms(3-6) gcm_at_phase [OF assms(2)] st
    by (simp add: TC_AES_GCM_encrypt_finish_def Let_def f tc_aes_gcm_invalidate_def TC_AES_GCM_ctx_clear_def gcm_finished_def)
qed

text \<open>Initialization: which arguments are accepted, and the context then.\<close>

definition gcm_init_args :: "aes_env \<Rightarrow> TC_AES_GCM_ctx obj \<Rightarrow> TC_bytes \<Rightarrow> TC_bytes \<Rightarrow> nat \<Rightarrow> bool \<Rightarrow> bool" where
  "gcm_init_args e ctx k iv t short \<longleftrightarrow>
     b_data k \<noteq> NULL \<and> key_args_ok e (o_addr ctx) (o_size ctx) k \<and> b_data iv \<noteq> NULL \<and> 0 < b_length iv \<and>
     b_length iv \<le> TC_AES_GCM_MAX_IV_BYTES \<and> tc_internal_ranges_disjoint (o_addr ctx) (o_size ctx) (b_data iv) (b_length iv) \<and>
     tc_aes_gcm_tag_length_is_allowed t short"

lemma init_at:
  assumes "aes_env_wf e" "gcm_build_ok g" "o_addr ctx \<noteq> NULL" "sizeof_key_ctx e \<le> o_size ctx" "bytes_wf k" "gcm_init_args e ctx k iv t short"
  shows "\<exists>c. tc_aes_gcm_init_impl g e ctx k iv t short = (TC_OK, ctx\<lparr>o_val := c\<rparr>) \<and> gcm_at g e (b_mem k) (b_mem iv) t [] [] c \<and>
    gc_phase c = TC_AES_GCM_PHASE_AAD"
proof -
  let ?K = "b_mem k" let ?h = "gcm_subkey ?K"
  let ?ko = "\<lparr>o_addr = o_addr ctx, o_size = sizeof_key_ctx e, o_val = key_ctx_zero e\<rparr>"
  have args: "b_data k \<noteq> NULL" "key_args_ok e (o_addr ctx) (o_size ctx) k" "b_data iv \<noteq> NULL" "0 < b_length iv" "b_length iv \<le> TC_AES_GCM_MAX_IV_BYTES"
    "tc_internal_ranges_disjoint (o_addr ctx) (o_size ctx) (b_data iv) (b_length iv)" "tc_aes_gcm_tag_length_is_allowed t short"
    using assms(6) by (simp_all add: gcm_init_args_def)
  have ka: "b_length k = TC_AES_KEYLEN e" "tc_internal_ranges_disjoint (o_addr ctx) (o_size ctx) (b_data k) (b_length k)"
    "key_args_ok e (o_addr ctx) (sizeof_key_ctx e) k"
    using args(2) ranges_disjoint_shrink [OF _ assms(4)] by (auto simp: key_args_ok_def)
  have t: "t \<le> 16" using args(7) by (auto simp: tc_aes_gcm_tag_length_is_allowed_def split: if_splits)
  have ki: "TC_AES_key_init e ?ko k = (TC_OK, ?ko\<lparr>o_val := keyed_ctx e ?K\<rparr>)" using key_init_eq [of ?ko e k] assms(3) ka(3) by simp
  have keyed: "aes_keyed e ?K (keyed_ctx e ?K)" by (rule keyed_ctx_keyed [OF assms(1,5) ka(3)])
  have h: "tc_aes_cipher e (replicate 16 0) (kc_round_key (keyed_ctx e ?K)) = (TC_OK, ?h)"
    using cipher_keyed [OF assms(1) keyed, of "replicate 16 0"] by (simp add: gcm_subkey_def)
  define c1 where "c1 = (gcm_ctx_zero e)\<lparr>gc_key := keyed_ctx e ?K, gc_h := ?h\<rparr>"
  define c2 where "c2 = (if gb_mode g = TC_AES_GCM_GHASH_MODE_FAST_TABLE then tc_aes_gcm_init_table c1 else c1)"
  have h2: "gcm_hash_ok g ?h c2"
    using assms(2) by (simp add: gcm_hash_ok_def gcm_table_ok_def c2_def c1_def tc_aes_gcm_init_table_def)
  obtain b where j: "tc_aes_gcm_make_j0 g c2 (b_mem iv) = c2\<lparr>gc_s := replicate 16 0, gc_ghash := b, gc_ghash_len := 0, gc_j0 := gcm_j0 ?h (b_mem iv)\<rparr>"
    "length b = 16" using make_j0_at [OF h2] by blast
  define c3 where "c3 = c2\<lparr>gc_s := replicate 16 0, gc_ghash := b, gc_ghash_len := 0, gc_j0 := gcm_j0 ?h (b_mem iv),
      gc_counter := gcm_j0 ?h (b_mem iv), gc_aad_len := 0, gc_text_len := 0, gc_stream_pos := 16, gc_tag_len := t, gc_phase := TC_AES_GCM_PHASE_AAD\<rparr>"
  have "gcm_hash_ok g ?h c3" using h2 by (simp add: c3_def gcm_hash_ok_def gcm_table_ok_def tc_aes_gcm_init_table_def)
  moreover have "gc_key c3 = keyed_ctx e ?K" by (simp add: c3_def c2_def c1_def tc_aes_gcm_init_table_def)
  moreover have "ghash_at ?h [] c3" by (rule ghash_at_start) (simp_all add: c3_def j(2))
  ultimately have "gcm_at g e ?K (b_mem iv) t [] [] c3"
    using keyed t by (simp add: gcm_at_def gctr_at_def gcm_within_def) (simp add: c3_def)
  moreover have "tc_aes_gcm_init_impl g e ctx k iv t short = (TC_OK, ctx\<lparr>o_val := c3\<rparr>)"
  proof -
    have "gc_key (gcm_ctx_zero e) = key_ctx_zero e" by (simp add: gcm_ctx_zero_def)
    then show ?thesis
      using args ka(1,2) assms(3) ki h j(1) t
      by (cases "gb_mode g = TC_AES_GCM_GHASH_MODE_FAST_TABLE")
        (simp_all add: tc_aes_gcm_init_impl_def Let_def TC_AES_GCM_ctx_clear_def TC_AES_BLOCKLEN_def c3_def c2_def flip: c1_def)
  qed
  moreover have "gc_phase c3 = TC_AES_GCM_PHASE_AAD" by (simp add: c3_def)
  ultimately show ?thesis by blast
qed

section \<open>Messages in pieces\<close>

fun gcm_aad_run :: "gcm_build \<Rightarrow> TC_AES_GCM_ctx obj \<Rightarrow> TC_bytes list \<Rightarrow> TC_status \<times> TC_AES_GCM_ctx obj" where
  "gcm_aad_run g ctx [] = (TC_OK, ctx)"
| "gcm_aad_run g ctx (a # ps) =
     (case TC_AES_GCM_aad_update g ctx a of (status, ctx) \<Rightarrow> if status \<noteq> TC_OK then (status, ctx) else gcm_aad_run g ctx ps)"

fun gcm_text_run :: "gcm_build \<Rightarrow> aes_env \<Rightarrow> TC_AES_GCM_ctx obj \<Rightarrow> TC_buffer list \<Rightarrow> TC_status \<times> TC_AES_GCM_ctx obj \<times> u8 list" where
  "gcm_text_run g e ctx [] = (TC_OK, ctx, [])"
| "gcm_text_run g e ctx (b # bs) =
     (case TC_AES_GCM_encrypt_update g e ctx b of (status, ctx, b) \<Rightarrow>
        if status \<noteq> TC_OK then (status, ctx, [])
        else case gcm_text_run g e ctx bs of (status, ctx, m) \<Rightarrow> (status, ctx, w_mem b @ m))"

lemma within_mono: "gcm_within t a x \<Longrightarrow> a' \<le> a \<Longrightarrow> x' \<le> x \<Longrightarrow> gcm_within t a' x'"
  by (auto simp: gcm_within_def)

lemma piece_length:
  "gcm_piece_ok ctx (b_data a) (b_length a) \<Longrightarrow> bytes_wf a \<Longrightarrow> length (b_mem a) = b_length a"
  "gcm_piece_ok ctx (w_data b) (w_capacity b) \<Longrightarrow> buffer_wf b \<Longrightarrow> length (w_mem b) = w_capacity b"
  by (auto simp: gcm_piece_ok_def bytes_wf_def buffer_wf_def)

lemma aad_run_at:
  "gcm_at g e k iv t aad [] (o_val ctx) \<Longrightarrow> gc_phase (o_val ctx) = TC_AES_GCM_PHASE_AAD \<Longrightarrow> o_addr ctx \<noteq> NULL \<Longrightarrow>
   list_all (\<lambda>a. bytes_wf a \<and> gcm_piece_ok ctx (b_data a) (b_length a)) ps \<Longrightarrow> gcm_within t (length aad + length (concat (map b_mem ps))) 0 \<Longrightarrow>
   \<exists>c. gcm_aad_run g ctx ps = (TC_OK, ctx\<lparr>o_val := c\<rparr>) \<and> gcm_at g e k iv t (aad @ concat (map b_mem ps)) [] c \<and> gc_phase c = TC_AES_GCM_PHASE_AAD"
proof (induction ps arbitrary: ctx aad)
  case Nil
  then show ?case by (intro exI [of _ "o_val ctx"]) simp
next
  case (Cons a ps)
  then have a: "bytes_wf a" "gcm_piece_ok ctx (b_data a) (b_length a)" by simp_all
  note len = piece_length(1) [OF a(2,1)]
  have "gcm_within t (length aad + b_length a) 0" using Cons.prems(5) len by (auto elim: within_mono)
  with aad_update_at [OF Cons.prems(1-3) a(2,1)] obtain c where
    c: "TC_AES_GCM_aad_update g ctx a = (TC_OK, ctx\<lparr>o_val := c\<rparr>)" "gcm_at g e k iv t (aad @ b_mem a) [] c" "gc_phase c = TC_AES_GCM_PHASE_AAD" by auto
  have "list_all (\<lambda>a. bytes_wf a \<and> gcm_piece_ok (ctx\<lparr>o_val := c\<rparr>) (b_data a) (b_length a)) ps" using Cons.prems(4) by (simp add: gcm_piece_ok_def)
  with Cons.IH [of "aad @ b_mem a" "ctx\<lparr>o_val := c\<rparr>"] c Cons.prems(3,5) show ?case by (simp add: add.assoc)
qed

lemma text_run_at:
  assumes "aes_env_wf e"
  shows "gcm_at g e k iv t aad pt (o_val ctx) \<Longrightarrow> o_addr ctx \<noteq> NULL \<Longrightarrow>
   list_all (\<lambda>b. buffer_wf b \<and> gcm_piece_ok ctx (w_data b) (w_capacity b)) bs \<Longrightarrow> gcm_within t (length aad) (length pt + length (concat (map w_mem bs))) \<Longrightarrow>
   \<exists>c m. gcm_text_run g e ctx bs = (TC_OK, ctx\<lparr>o_val := c\<rparr>, m) \<and> gcm_at g e k iv t aad (pt @ concat (map w_mem bs)) c \<and>
     gcm_text k iv (pt @ concat (map w_mem bs)) = gcm_text k iv pt @ m"
proof (induction bs arbitrary: ctx pt)
  case Nil
  then show ?case by (intro exI [of _ "o_val ctx"]) simp
next
  case (Cons b bs)
  then have b: "buffer_wf b" "gcm_piece_ok ctx (w_data b) (w_capacity b)" by simp_all
  note len = piece_length(2) [OF b(2,1)]
  have "gcm_within t (length aad) (length pt + w_capacity b)" using Cons.prems(4) len by (auto elim: within_mono)
  with encrypt_update_at [OF assms Cons.prems(1,2) b(2,1)] obtain c m where
    c: "TC_AES_GCM_encrypt_update g e ctx b = (TC_OK, ctx\<lparr>o_val := c\<rparr>, b\<lparr>w_mem := m\<rparr>)" "gcm_at g e k iv t aad (pt @ w_mem b) c"
      "gcm_text k iv (pt @ w_mem b) = gcm_text k iv pt @ m" by auto
  have "list_all (\<lambda>b. buffer_wf b \<and> gcm_piece_ok (ctx\<lparr>o_val := c\<rparr>) (w_data b) (w_capacity b)) bs" using Cons.prems(3) by (simp add: gcm_piece_ok_def)
  with Cons.IH [of "pt @ w_mem b" "ctx\<lparr>o_val := c\<rparr>"] c Cons.prems(2,4) show ?case by (auto simp: add.assoc)
qed

section \<open>Whole messages\<close>

text \<open>The context on the stack is apart from the storage of the caller.\<close>

definition gcm_stack_ok :: "aes_env \<Rightarrow> addr \<Rightarrow> nat \<Rightarrow> TC_bytes \<Rightarrow> TC_bytes \<Rightarrow> TC_bytes \<Rightarrow> TC_buffer \<Rightarrow> nat \<Rightarrow> addr \<Rightarrow> nat \<Rightarrow> bool" where
  "gcm_stack_ok e at sz k iv aad out n tag t \<longleftrightarrow>
     at \<noteq> NULL \<and> sizeof_key_ctx e \<le> sz \<and> (b_data k \<noteq> NULL \<longrightarrow> b_length k = TC_AES_KEYLEN e \<longrightarrow> key_args_ok e at sz k) \<and>
     tc_internal_ranges_disjoint at sz (b_data iv) (b_length iv) \<and> tc_internal_ranges_disjoint at sz (b_data aad) (b_length aad) \<and>
     tc_internal_ranges_disjoint at sz (w_data out) n \<and> tc_internal_ranges_disjoint at sz tag t"

lemma oneshot_start:
  assumes "aes_env_wf e" "gcm_build_ok g" "bytes_wf k" "bytes_wf aad"
    "tc_aes_gcm_oneshot_args_ok e k iv aad input out tag t short" "gcm_stack_ok e at sz k iv aad out n tag t"
  shows "\<exists>c0 c1. tc_aes_gcm_init_impl g e \<lparr>o_addr = at, o_size = sz, o_val = gcm_ctx_zero e\<rparr> k iv t short = (TC_OK, \<lparr>o_addr = at, o_size = sz, o_val = c0\<rparr>) \<and>
    TC_AES_GCM_aad_update g \<lparr>o_addr = at, o_size = sz, o_val = c0\<rparr> aad = (TC_OK, \<lparr>o_addr = at, o_size = sz, o_val = c1\<rparr>) \<and>
    gcm_at g e (b_mem k) (b_mem iv) t (b_mem aad) [] c1 \<and> gc_phase c1 = TC_AES_GCM_PHASE_AAD"
proof -
  let ?o = "\<lparr>o_addr = at, o_size = sz, o_val = gcm_ctx_zero e\<rparr>"
  have args: "gcm_init_args e ?o k iv t short" "o_addr ?o \<noteq> NULL" "sizeof_key_ctx e \<le> o_size ?o"
    using assms(5,6) by (auto simp: gcm_init_args_def tc_aes_gcm_oneshot_args_ok_def gcm_stack_ok_def)
  obtain c0 where c0: "tc_aes_gcm_init_impl g e ?o k iv t short = (TC_OK, ?o\<lparr>o_val := c0\<rparr>)" "gcm_at g e (b_mem k) (b_mem iv) t [] [] c0"
    "gc_phase c0 = TC_AES_GCM_PHASE_AAD" using init_at [OF assms(1,2) args(2,3) assms(3) args(1)] by blast
  have pc: "gcm_piece_ok (?o\<lparr>o_val := c0\<rparr>) (b_data aad) (b_length aad)"
    using assms(5,6) by (auto simp: gcm_piece_ok_def tc_aes_gcm_oneshot_args_ok_def gcm_stack_ok_def tc_internal_span_valid_def)
  have "gcm_within t (b_length aad) 0"
    using assms(5) by (auto simp: gcm_within_def tc_aes_gcm_oneshot_args_ok_def packet_lengths_iff)
  with aad_update_at [of g e "b_mem k" "b_mem iv" t "[]" "?o\<lparr>o_val := c0\<rparr>" aad] c0(2,3) args(2) pc assms(4)
  obtain c1 where "TC_AES_GCM_aad_update g (?o\<lparr>o_val := c0\<rparr>) aad = (TC_OK, ?o\<lparr>o_val := c1\<rparr>)" "gcm_at g e (b_mem k) (b_mem iv) t (b_mem aad) [] c1"
    "gc_phase c1 = TC_AES_GCM_PHASE_AAD" by auto
  with c0(1) show ?thesis by auto
qed

lemma copied_mem:
  assumes "tc_aes_text_ok input out" "bytes_wf input" "buffer_wf out"
  shows "gcm_copied input out = out\<lparr>w_mem := b_mem input @ drop (b_length input) (w_mem out)\<rparr>"
  using text_ok_facts [OF assms] by (auto simp: gcm_copied_def memcpy_at_def)

lemma gcm_encrypt_core:
  assumes "aes_env_wf e" "gcm_build_ok g" "bytes_wf k" "bytes_wf aad" "bytes_wf input" "buffer_wf out" "buffer_wf tag"
    "tc_aes_gcm_oneshot_args_ok e k iv aad input out (w_data tag) (w_capacity tag) short"
    "gcm_stack_ok e at sz k iv aad out (b_length input) (w_data tag) (w_capacity tag)"
  defines "ct \<equiv> gcm_text (b_mem k) (b_mem iv) (b_mem input)"
  shows "tc_aes_gcm_encrypt_impl g e at sz k iv aad input out tag short =
    (TC_OK, out\<lparr>w_mem := ct @ drop (b_length input) (w_mem out)\<rparr>,
     tag\<lparr>w_mem := take (w_capacity tag) (gcm_tag (b_mem k) (b_mem iv) (b_mem aad) ct)\<rparr>)"
proof -
  let ?t = "w_capacity tag" and ?n = "b_length input" and ?o = "\<lambda>c. \<lparr>o_addr = at, o_size = sz, o_val = c\<rparr>"
  have ok: "tc_aes_text_ok input out" using assms(8) by (simp add: tc_aes_gcm_oneshot_args_ok_def)
  note len = text_ok_facts [OF ok assms(5,6)]
  obtain c0 c1 where c: "tc_aes_gcm_init_impl g e (?o (gcm_ctx_zero e)) k iv ?t short = (TC_OK, ?o c0)"
    "TC_AES_GCM_aad_update g (?o c0) aad = (TC_OK, ?o c1)" "gcm_at g e (b_mem k) (b_mem iv) ?t (b_mem aad) [] c1"
    using oneshot_start [OF assms(1-4,8,9)] by blast
  let ?b = "\<lparr>w_data = w_data out, w_capacity = ?n, w_mem = b_mem input\<rparr>"
  have at: "at \<noteq> NULL" using assms(9) by (simp add: gcm_stack_ok_def)
  have pc: "gcm_piece_ok (?o c1) (w_data ?b) (w_capacity ?b)" and bw: "buffer_wf ?b"
    using assms(9) ok len(1) by (auto simp: gcm_piece_ok_def gcm_stack_ok_def tc_aes_text_ok_def buffer_wf_def split: if_splits)
  have "length (b_mem aad) = b_length aad"
    using assms(4,8) span_mem_length by (auto simp: tc_aes_gcm_oneshot_args_ok_def)
  then have "gcm_within ?t (length (b_mem aad)) (length ([] :: u8 list) + w_capacity ?b)"
    using assms(8) by (auto simp: gcm_within_def tc_aes_gcm_oneshot_args_ok_def packet_lengths_iff)
  with encrypt_update_at [of e g "b_mem k" "b_mem iv" ?t "b_mem aad" "[]" "?o c1" ?b] assms(1) c(3) at pc bw
  obtain c2 m where up: "TC_AES_GCM_encrypt_update g e (?o c1) ?b = (TC_OK, ?o c2, ?b\<lparr>w_mem := m\<rparr>)"
    "gcm_at g e (b_mem k) (b_mem iv) ?t (b_mem aad) (b_mem input) c2" "ct = m" by (auto simp: ct_def gcm_text_def)
  have lm: "length m = ?n" using up(3) len(1) by (simp add: ct_def flip: up(3))
  have tg: "w_data tag \<noteq> NULL" "tc_internal_ranges_disjoint at sz (w_data tag) ?t" "length (w_mem tag) = ?t"
    using assms(7-9) by (auto simp: tc_aes_gcm_oneshot_args_ok_def gcm_stack_ok_def buffer_wf_def)
  have fin: "TC_AES_GCM_encrypt_finish g e (?o c2) tag = (TC_OK, ?o (gcm_finished e), tag\<lparr>w_mem := take ?t (gcm_tag (b_mem k) (b_mem iv) (b_mem aad) ct)\<rparr>)"
    using finish_at [of e g "b_mem k" "b_mem iv" ?t "b_mem aad" "b_mem input" "?o c2" tag] assms(1,7) up(2) at tg by (simp add: ct_def)
  show ?thesis
    using assms(8) c up(1,3) fin copied_mem [OF ok assms(5,6)] len lm
    by (simp add: tc_aes_gcm_encrypt_impl_def Let_def memcpy_at_def)
qed

lemma gcm_decrypt_core:
  assumes "aes_env_wf e" "gcm_build_ok g" "bytes_wf k" "bytes_wf aad" "bytes_wf input" "buffer_wf out" "bytes_wf tag" "x_at \<noteq> NULL"
    "tc_aes_gcm_oneshot_args_ok e k iv aad input out (b_data tag) (b_length tag) short"
    "gcm_stack_ok e at sz k iv aad out (b_length input) (b_data tag) (b_length tag)"
  shows "tc_aes_gcm_decrypt_impl g e at sz x_at k iv aad input tag out short =
    (if b_mem tag = take (b_length tag) (gcm_tag (b_mem k) (b_mem iv) (b_mem aad) (b_mem input))
     then (TC_OK, out\<lparr>w_mem := gcm_text (b_mem k) (b_mem iv) (b_mem input) @ drop (b_length input) (w_mem out)\<rparr>)
     else (TC_MISMATCH, out\<lparr>w_mem := replicate (b_length input) 0 @ drop (b_length input) (w_mem out)\<rparr>))"
proof -
  let ?t = "b_length tag" and ?n = "b_length input" and ?o = "\<lambda>c. \<lparr>o_addr = at, o_size = sz, o_val = c\<rparr>"
  let ?K = "b_mem k" and ?I = "b_mem iv" let ?h = "gcm_subkey ?K" let ?j = "gcm_j0 ?h ?I"
  have ok: "tc_aes_text_ok input out" using assms(9) by (simp add: tc_aes_gcm_oneshot_args_ok_def)
  note len = text_ok_facts [OF ok assms(5,6)]
  obtain c0 c1 where c: "tc_aes_gcm_init_impl g e (?o (gcm_ctx_zero e)) k iv ?t short = (TC_OK, ?o c0)"
    "TC_AES_GCM_aad_update g (?o c0) aad = (TC_OK, ?o c1)" "gcm_at g e ?K ?I ?t (b_mem aad) [] c1"
    using oneshot_start [OF assms(1-4,9,10)] by blast
  define c2 where "c2 = tc_aes_gcm_start_text g c1"
  have s2: "gcm_at g e ?K ?I ?t (b_mem aad) [] c2" "gc_phase c2 = TC_AES_GCM_PHASE_TEXT" using start_text_at [OF c(3)] by (simp_all add: c2_def)
  then have s2': "gcm_hash_ok g ?h c2" "ghash_at ?h (pad16 (b_mem aad)) c2" by (auto simp: gcm_at_def gcm_phases gcm_text_def)
  define c3 where "c3 = (tc_aes_gcm_absorb g c2 (b_mem input))\<lparr>gc_text_len := ?n\<rparr>"
  have a3: "ghash_at ?h (pad16 (b_mem aad) @ b_mem input) (tc_aes_gcm_absorb g c2 (b_mem input))"
    "ghash_fields c2 (tc_aes_gcm_absorb g c2 (b_mem input))" using absorb_at [OF s2'] by simp_all
  note k3 = ghash_fields_keep [OF a3(2)] ghash_fields_ok [OF a3(2) s2'(1)]
  define f where "f = tc_aes_gcm_finish_ghash g c3"
  have st: "gcm_hash_ok g ?h c3" "aes_keyed e ?K (gc_key c3)" "gc_j0 c3 = ?j" "gc_aad_len c3 = length (b_mem aad)" "gc_text_len c3 = length (b_mem input)"
    "gc_tag_len c3 = ?t" "?t \<le> 16" "ghash_at ?h (pad16 (b_mem aad) @ b_mem input) c3" "gctr_at (fips_aes ?K) ?j 0 c3"
    using s2 a3(1) k3 len(1) by (simp_all add: c3_def gcm_at_def)
  let ?T = "take ?t (gcm_tag ?K ?I (b_mem aad) (b_mem input))"
  have mk: "tc_aes_gcm_make_tag e f (replicate 16 0) = (TC_OK, ?T @ drop ?t (replicate 16 0))"
    using hash_tag(1) [OF assms(1) st(1-8), of "replicate 16 0"] st(7) by (simp add: f_def)
  note kf = ghash_fields_keep [OF hash_tag(2) [OF assms(1) st(1-8), of "replicate 16 0", folded f_def]]
  have lt: "length ?T = ?t" using st(7) by (simp add: gcm_tag_def)
  have tl: "gc_tag_len f = ?t" using kf(6) st(6,7) by simp
  have ct: "TC_ct_equal \<lparr>b_data = x_at, b_length = ?t, b_mem = ?T\<rparr> tag = (if b_mem tag = ?T then TC_OK else TC_MISMATCH)"
    using assms(7-9) lt by (subst TC_ct_equal_valid) (auto simp: bytes_wf_def tc_aes_gcm_oneshot_args_ok_def)
  obtain c' where gc: "tc_aes_gcm_gctr e f (b_mem input) = (TC_OK, c', gcm_text ?K ?I (b_mem input))"
    using gctr_loop_eq [OF assms(1) _ length_gcm_j0, of ?K f ?h ?I 0 "[]" "b_mem input"] st(2,7,9) kf by (auto simp: tc_aes_gcm_gctr_def gcm_text_def)
  note cp = copied_mem [OF ok assms(5,6)]
  note wipe = aead_done_error [OF ok assms(6), of TC_MISMATCH]
  have ab: "tc_aes_gcm_finish_ghash g ((tc_aes_gcm_absorb g (tc_aes_gcm_start_text g c1) (b_mem input))\<lparr>gc_text_len := ?n\<rparr>) = f"
    by (simp add: f_def c3_def c2_def)
  have dec: "tc_aes_gcm_decrypt_impl g e at sz x_at k iv aad input tag out short =
      (let status = (if b_mem tag = ?T then TC_OK else TC_MISMATCH)
       in case (if status = TC_OK \<and> ?n \<noteq> 0 then (TC_OK, out\<lparr>w_mem := gcm_text ?K ?I (b_mem input) @ drop ?n (w_mem out)\<rparr>) else (status, out))
          of (status, out) \<Rightarrow> (status, aead_done status out ?n))"
    using assms(9) c(1,2) mk lt tl ct gc cp len
    by (simp add: tc_aes_gcm_decrypt_impl_def Let_def ab TC_AES_BLOCKLEN_def memcpy_at_def)
  show ?thesis unfolding dec using wipe len(1) by (auto simp: Let_def gcm_text_def)
qed

section \<open>The counter blocks of one message\<close>

lemma inc32_pow_val:
  assumes "length b = 16"
  shows "be_val (drop 12 ((gcm_inc32 ^^ i) b)) = (be_val (drop 12 b) + i) mod 2 ^ 32"
proof (induction i)
  case 0
  have "be_val (drop 12 b) < 2 ^ 32" using be_val_less [of "drop 12 b"] assms by simp
  then show ?case by simp
next
  case (Suc i)
  have l: "length ((gcm_inc32 ^^ i) b) = 16" using assms by simp
  have "be_val (drop 12 ((gcm_inc32 ^^ Suc i) b)) = (be_val (drop 12 ((gcm_inc32 ^^ i) b)) + 1) mod 2 ^ 32"
    using l by (simp add: gcm_inc32_def)
  then show ?case unfolding Suc.IH by (simp add: mod_Suc_eq)
qed

lemma inc32_inj:
  assumes "length b = 16"
  shows "inj_on (\<lambda>i. (gcm_inc32 ^^ i) b) {..< 2 ^ 32}"
proof (rule inj_onI)
  fix i j assume ij: "i \<in> {..< 2 ^ 32}" "j \<in> {..< 2 ^ 32}" "(gcm_inc32 ^^ i) b = (gcm_inc32 ^^ j) b"
  then have "(be_val (drop 12 b) + i) mod 2 ^ 32 = (be_val (drop 12 b) + j) mod 2 ^ 32"
    using inc32_pow_val [OF assms, of i] inc32_pow_val [OF assms, of j] by simp
  moreover have "x = y" if "x \<le> y" "y < m" "(a + y) mod m = (a + x) mod m" for a x y m :: nat
    using that mod_eq_dvd_iff_nat [of "a + x" "a + y" m] by (auto dest: dvd_imp_le)
  ultimately show "i = j" using ij by (cases "i \<le> j") (metis lessThan_iff, metis lessThan_iff nat_le_linear)
qed

text \<open>The mask of the tag uses the block 0, the text the blocks from 1 on.\<close>

lemma gcm_blocks_distinct:
  assumes "n \<le> TC_AES_GCM_MAX_PLAINTEXT_BYTES"
  shows "inj_on (\<lambda>i. (gcm_inc32 ^^ i) (gcm_j0 h iv)) {.. (n + 15) div 16}"
proof (rule inj_on_subset [OF inc32_inj])
  have "(n + 15) div 16 < 2 ^ 32" using assms by (simp add: TC_AES_GCM_MAX_PLAINTEXT_BYTES_def)
  then show "{.. (n + 15) div 16} \<subseteq> {..< 2 ^ 32}" by auto
qed simp

end
