(* ===== verification/AEAD_Properties.thy ===== *)
theory AEAD_Properties
  imports AES_Concrete AES_EAX AES_SIV AES_CCM AES_GCM
begin

text \<open>
  The contracts of the one-shot authenticated modes of AES over their public operations: what each direction returns
  for every argument, in terms of the functions of the standards, and that decryption undoes encryption. Each is
  followed by an application at a concrete key and text.
\<close>

section \<open>EAX\<close>

text \<open>The public operations with the ordinary and with the short tag lengths.\<close>

abbreviation eax_seal where
  "eax_seal short \<equiv> (if short then TC_AES_EAX_encrypt_short_tag else TC_AES_EAX_encrypt)"

abbreviation eax_open where
  "eax_open short \<equiv> (if short then TC_AES_EAX_decrypt_short_tag else TC_AES_EAX_decrypt)"

text \<open>C33: \<^verbatim>\<open>TC_AES_EAX_encrypt\<close> and its short-tag variant write the counter mode encryption under the OMAC of the
  nonce and the leading bytes of the EAX tag, exactly when the arguments pass the checks, and change nothing
  otherwise. \<^verbatim>\<open>TC_AES_EAX_decrypt\<close> returns the text exactly for the leading bytes of the tag, and for any other tag
  reports a mismatch and leaves zeros; its text is the one that was encrypted.\<close>

theorem aes_eax_correct:
  fixes nonce aad :: TC_bytes and mtl :: nat and short :: bool
  assumes "aes_env_wf e" "at \<noteq> NULL" "tag_at \<noteq> NULL" "bytes_wf k" "bytes_wf input" "buffer_wf out" "buffer_wf tag" "bytes_wf expected"
    and "b_data k \<noteq> NULL \<Longrightarrow> b_length k = TC_AES_KEYLEN e \<Longrightarrow> key_args_ok e at (sizeof_key_ctx e) k"
  defines "text \<equiv> eax_text (b_mem k) (b_mem nonce)" and "rest \<equiv> drop (b_length input) (w_mem out)"
    and "auth \<equiv> eax_tag (b_mem k) (b_mem nonce) (b_mem aad)"
    and "accepts \<equiv> \<lambda>a n. b_length k = TC_AES_KEYLEN e \<and> tc_internal_tag_length_allowed mtl n TC_AES_BLOCKLEN short \<and>
                      eax_args k nonce aad input out a n"
  shows "eax_seal short mtl e at tag_at k nonce aad input out tag =
      (if accepts (w_data tag) (w_capacity tag)
       then (TC_OK, out\<lparr>w_mem := text (b_mem input) @ rest\<rparr>, tag\<lparr>w_mem := take (w_capacity tag) (auth (text (b_mem input)))\<rparr>)
       else (TC_ERROR, out, tag)) \<and>
    eax_open short mtl e at tag_at k nonce aad input expected out =
      (if accepts (b_data expected) (b_length expected)
       then if b_mem expected = take (b_length expected) (auth (b_mem input)) then (TC_OK, out\<lparr>w_mem := text (b_mem input) @ rest\<rparr>)
            else (TC_MISMATCH, out\<lparr>w_mem := replicate (b_length input) 0 @ rest\<rparr>)
       else (TC_ERROR, out)) \<and>
    text (text (b_mem input)) = b_mem input"
proof (intro conjI)
  note defs = text_def rest_def auth_def accepts_def
  have refused: "\<not> eax_args k nonce aad input out a n \<Longrightarrow> a = (if b_data x \<noteq> NULL then b_data x else w_data t) \<Longrightarrow>
      tc_aes_eax_crypt e at tag_at k nonce aad input out x t n = (TC_ERROR, out, t)" for a n x t
    by (auto simp: tc_aes_eax_crypt_def eax_args_def Let_def TC_AES_BLOCKLEN_def)
  have key: "key_args_ok e at (sizeof_key_ctx e) k" if "eax_args k nonce aad input out a n" "b_length k = TC_AES_KEYLEN e" for a n
    using that assms(9) by (simp add: eax_args_def)
  have tag_mem: "memcpy_at (w_mem tag) 0 (take (w_capacity tag) u) = take (w_capacity tag) u"
    if "eax_args k nonce aad input out (w_data tag) (w_capacity tag)" "length u = 16" for u
    using that assms(7) by (simp add: eax_args_def buffer_wf_def memcpy_at_def)
  have lt: "length (eax_tag a b c d) = 16" for a b c d by (simp add: eax_tag_def)
  show "eax_seal short mtl e at tag_at k nonce aad input out tag =
      (if accepts (w_data tag) (w_capacity tag)
       then (TC_OK, out\<lparr>w_mem := text (b_mem input) @ rest\<rparr>, tag\<lparr>w_mem := take (w_capacity tag) (auth (text (b_mem input)))\<rparr>)
       else (TC_ERROR, out, tag))"
    using eax_encrypt_core [OF assms(1,4,2) key assms(5,6), where nonce = nonce and aad = aad and tag_len = "w_capacity tag" and tag = tag and expected = no_bytes]
      refused [of "w_data tag" "w_capacity tag" no_bytes tag] tag_mem lt
    by (auto simp: TC_AES_EAX_encrypt_def TC_AES_EAX_encrypt_short_tag_def tc_aes_eax_encrypt_with_policy_def defs no_bytes_def)
  show "eax_open short mtl e at tag_at k nonce aad input expected out =
      (if accepts (b_data expected) (b_length expected)
       then if b_mem expected = take (b_length expected) (auth (b_mem input)) then (TC_OK, out\<lparr>w_mem := text (b_mem input) @ rest\<rparr>)
            else (TC_MISMATCH, out\<lparr>w_mem := replicate (b_length input) 0 @ rest\<rparr>)
       else (TC_ERROR, out))"
    using eax_decrypt_core [OF assms(1,4,2,3) key assms(5,6) _ assms(8) refl, where nonce = nonce and aad = aad and tag = no_buffer]
      refused [of "b_data expected" "b_length expected" expected no_buffer]
    by (auto simp: TC_AES_EAX_decrypt_def TC_AES_EAX_decrypt_short_tag_def tc_aes_eax_decrypt_with_policy_def defs no_buffer_def eax_args_def)
qed (simp add: text_def)

theorem aes_eax_correct_witness:
  "TC_AES_EAX_encrypt 12 ex_env 4096 5000 (ex_span 8192 16) (ex_span 8300 12) (ex_span 8400 0) (ex_span 9000 5) (ex_buf 9000 5) (ex_buf 9100 16) =
     (TC_OK, (ex_buf 9000 5)\<lparr>w_mem := eax_text (replicate 16 0) (replicate 12 0) (replicate 5 0)\<rparr>,
      (ex_buf 9100 16)\<lparr>w_mem := eax_tag (replicate 16 0) (replicate 12 0) [] (eax_text (replicate 16 0) (replicate 12 0) (replicate 5 0))\<rparr>)"
proof -
  have "eax_args (ex_span 8192 16) (ex_span 8300 12) (ex_span 8400 0) (ex_span 9000 5) (ex_buf 9000 5) 9100 16"
    by (simp add: eax_args_def tc_aes_text_ok_def tc_internal_ranges_disjoint_def)
  moreover have "tc_internal_tag_length_allowed 12 16 TC_AES_BLOCKLEN False"
    by (simp add: tc_internal_tag_length_allowed_def TC_AES_BLOCKLEN_def)
  ultimately show ?thesis
    using aes_eax_correct [where e = ex_env and at = 4096 and tag_at = 5000 and k = "ex_span 8192 16" and input = "ex_span 9000 5" and
        out = "ex_buf 9000 5" and tag = "ex_buf 9100 16" and expected = "ex_span 9100 16" and nonce = "ex_span 8300 12" and
        aad = "ex_span 8400 0" and short = False and mtl = 12] by (simp add: eax_tag_def)
qed

section \<open>EAX'\<close>

text \<open>C34: \<^verbatim>\<open>TC_AES_EAX_PRIME_encrypt\<close> writes the ANSI C12.22 ciphertext and the four bytes of its tag, last byte of the
  block first, exactly when the arguments pass the checks. \<^verbatim>\<open>TC_AES_EAX_PRIME_decrypt\<close> returns the text exactly for
  that tag, and for any other one reports a mismatch and leaves zeros; its text is the one that was encrypted.\<close>

theorem aes_eax_prime_correct:
  fixes cleartext :: TC_bytes
  assumes "aes_env_wf e" "at \<noteq> NULL" "tag_at \<noteq> NULL" "bytes_wf k" "bytes_wf input" "buffer_wf out" "buffer_wf tag" "bytes_wf expected"
    and "b_data k \<noteq> NULL \<Longrightarrow> b_length k = TC_AES_KEYLEN e \<Longrightarrow> key_args_ok e at (sizeof_key_ctx e) k"
  defines "text \<equiv> prime_text (b_mem k) (b_mem cleartext)" and "rest \<equiv> drop (b_length input) (w_mem out)"
    and "auth \<equiv> prime_tag (b_mem k) (b_mem cleartext)"
    and "accepts \<equiv> \<lambda>a. b_length k = TC_AES_KEYLEN e \<and> prime_args k cleartext input out a"
  shows "TC_AES_EAX_PRIME_encrypt e at tag_at k cleartext input out tag =
      (if accepts (w_data tag) \<and> 4 \<le> w_capacity tag
       then (TC_OK, out\<lparr>w_mem := text (b_mem input) @ rest\<rparr>, tag\<lparr>w_mem := auth (text (b_mem input)) @ drop 4 (w_mem tag)\<rparr>)
       else (TC_ERROR, out, tag)) \<and>
    TC_AES_EAX_PRIME_decrypt e at tag_at k cleartext input expected out =
      (if accepts (b_data expected) \<and> b_length expected = 4
       then if b_mem expected = auth (b_mem input) then (TC_OK, out\<lparr>w_mem := text (b_mem input) @ rest\<rparr>)
            else (TC_MISMATCH, out\<lparr>w_mem := replicate (b_length input) 0 @ rest\<rparr>)
       else (TC_ERROR, out)) \<and>
    text (text (b_mem input)) = b_mem input"
proof (intro conjI)
  note defs = text_def rest_def auth_def accepts_def TC_AES_EAX_PRIME_TAG_LEN_def
  have refused: "\<not> prime_args k cleartext input out a \<Longrightarrow> a = (if b_data x \<noteq> NULL then b_data x else w_data t) \<Longrightarrow>
      tc_aes_eax_prime_crypt e at tag_at k cleartext input out x t = (TC_ERROR, out, t)" for a x t
    by (auto simp: tc_aes_eax_prime_crypt_def prime_args_def Let_def TC_AES_BLOCKLEN_def TC_AES_EAX_PRIME_TAG_LEN_def)
  have key: "key_args_ok e at (sizeof_key_ctx e) k" if "prime_args k cleartext input out a" "b_length k = TC_AES_KEYLEN e" for a
    using that assms(9) by (simp add: prime_args_def)
  have tag_mem: "length (w_mem tag) = w_capacity tag" if "prime_args k cleartext input out (w_data tag)"
    using that assms(7) by (simp add: prime_args_def buffer_wf_def)
  show "TC_AES_EAX_PRIME_encrypt e at tag_at k cleartext input out tag =
      (if accepts (w_data tag) \<and> 4 \<le> w_capacity tag
       then (TC_OK, out\<lparr>w_mem := text (b_mem input) @ rest\<rparr>, tag\<lparr>w_mem := auth (text (b_mem input)) @ drop 4 (w_mem tag)\<rparr>)
       else (TC_ERROR, out, tag))"
    using prime_encrypt_core [OF assms(1,4,2) key assms(5,6), where cleartext = cleartext and tag = tag and expected = no_bytes]
      refused [of "w_data tag" no_bytes tag] tag_mem
    by (auto simp: TC_AES_EAX_PRIME_encrypt_def defs no_bytes_def)
  show "TC_AES_EAX_PRIME_decrypt e at tag_at k cleartext input expected out =
      (if accepts (b_data expected) \<and> b_length expected = 4
       then if b_mem expected = auth (b_mem input) then (TC_OK, out\<lparr>w_mem := text (b_mem input) @ rest\<rparr>)
            else (TC_MISMATCH, out\<lparr>w_mem := replicate (b_length input) 0 @ rest\<rparr>)
       else (TC_ERROR, out))"
    using prime_decrypt_core [OF assms(1,4,2,3) key assms(5,6) _ assms(8), where cleartext = cleartext and tag = no_buffer]
      refused [of "b_data expected" expected no_buffer]
    by (auto simp: TC_AES_EAX_PRIME_decrypt_def defs no_buffer_def prime_args_def)
qed (simp add: text_def)

theorem aes_eax_prime_correct_witness:
  "TC_AES_EAX_PRIME_decrypt ex_env 4096 5000 (ex_span 8192 16) (ex_span 8300 12) (ex_span 9000 5)
     \<lparr>b_data = 9100, b_length = 4, b_mem = prime_tag (replicate 16 0) (replicate 12 0) (replicate 5 0)\<rparr> (ex_buf 9200 7) =
     (TC_OK, (ex_buf 9200 7)\<lparr>w_mem := prime_text (replicate 16 0) (replicate 12 0) (replicate 5 0) @ replicate 2 0\<rparr>)"
proof -
  let ?t = "\<lparr>b_data = 9100, b_length = 4, b_mem = prime_tag (replicate 16 0) (replicate 12 0) (replicate 5 0)\<rparr>"
  have "prime_args (ex_span 8192 16) (ex_span 8300 12) (ex_span 9000 5) (ex_buf 9200 7) 9100"
    by (simp add: prime_args_def tc_aes_text_ok_def tc_internal_ranges_disjoint_def)
  moreover have "bytes_wf ?t" by (simp add: bytes_wf_def prime_tag_def)
  ultimately show ?thesis
    using aes_eax_prime_correct [where e = ex_env and at = 4096 and tag_at = 5000 and k = "ex_span 8192 16" and input = "ex_span 9000 5" and
        out = "ex_buf 9200 7" and tag = "ex_buf 9100 16" and expected = ?t and cleartext = "ex_span 8300 12"] by simp
qed

section \<open>SIV\<close>

text \<open>C35: \<^verbatim>\<open>TC_AES_SIV_encrypt\<close> writes the synthetic IV of RFC 5297, S2V of the associated data and the plaintext under
  the first half of the key, and the counter mode encryption from it under the second half.
  \<^verbatim>\<open>TC_AES_SIV_decrypt\<close> returns the text exactly when its S2V is the IV, reports a mismatch otherwise and then leaves no
  byte of the candidate text; its text is the one that was encrypted.\<close>

theorem aes_siv_correct:
  assumes "aes_env_wf e" "siv_args e at1 at2 k ad_at ad input out" "c_at \<noteq> NULL" "local_at \<noteq> NULL" "buffer_wf v" "bytes_wf iv"
    and "w_data v \<noteq> NULL" "16 \<le> w_capacity v" "tc_internal_ranges_disjoint (w_data v) 16 (w_data out) (b_length input)"
    and "b_data iv \<noteq> NULL" "b_length iv = 16" "tc_internal_ranges_disjoint (b_data iv) 16 (w_data out) (b_length input)"
  defines "mac \<equiv> siv_s2v (take (TC_AES_KEYLEN e) (b_mem k)) (map b_mem ad)"
    and "text \<equiv> siv_text (drop (TC_AES_KEYLEN e) (b_mem k))" and "rest \<equiv> drop (b_length input) (w_mem out)"
  shows "TC_AES_SIV_encrypt e at1 at2 c_at local_at k ad_at ad (length ad) input v out =
      (TC_OK, v\<lparr>w_mem := mac (b_mem input) @ drop 16 (w_mem v)\<rparr>, out\<lparr>w_mem := text (mac (b_mem input)) (b_mem input) @ rest\<rparr>) \<and>
    TC_AES_SIV_decrypt e at1 at2 c_at local_at k ad_at ad (length ad) iv input out =
      (if b_mem iv = mac (text (b_mem iv) (b_mem input)) then (TC_OK, out\<lparr>w_mem := text (b_mem iv) (b_mem input) @ rest\<rparr>)
       else (TC_MISMATCH, out\<lparr>w_mem := replicate (b_length input) 0 @ rest\<rparr>)) \<and>
    text (b_mem iv) (text (b_mem iv) (b_mem input)) = b_mem input"
proof -
  have "length (b_mem k) = 2 * TC_AES_KEYLEN e" and kl: "b_length k = 2 * TC_AES_KEYLEN e"
    using assms(2) by (auto simp: siv_args_def bytes_wf_def)
  then have keys: "b_mem (siv_first_key e k) = take (TC_AES_KEYLEN e) (b_mem k)" "b_mem (siv_second_key e k) = drop (TC_AES_KEYLEN e) (b_mem k)"
    by (simp_all add: siv_first_key_def siv_second_key_def)
  have lens: "length (b_mem iv) = 16" "16 \<le> length (w_mem v)" using assms(5-11) by (simp_all add: bytes_wf_def buffer_wf_def)
  note enc = siv_encrypt_core [OF assms(1,2,4), of "replicate 16 0" c_at, unfolded keys]
  note dec = siv_decrypt_core [OF assms(1,2,4,3) lens(1), unfolded keys]
  show ?thesis
    using enc dec assms(5-12) lens kl
    by (simp add: TC_AES_SIV_encrypt_def TC_AES_SIV_decrypt_def TC_AES_SIV_KEYLEN_def TC_AES_SIV_V_LEN_def TC_AES_BLOCKLEN_def
        mac_def text_def rest_def memcpy_at_def)
qed

theorem aes_siv_correct_witness:
  "TC_AES_SIV_encrypt ex_env 4096 5000 6000 6100 (ex_span 8192 32) 7000 [ex_span 8300 3] 1 (ex_span 9000 5) (ex_buf 9100 16) (ex_buf 9200 5) =
     (TC_OK, (ex_buf 9100 16)\<lparr>w_mem := siv_s2v (replicate 16 0) [replicate 3 0] (replicate 5 0)\<rparr>,
      (ex_buf 9200 5)\<lparr>w_mem := siv_text (replicate 16 0) (siv_s2v (replicate 16 0) [replicate 3 0] (replicate 5 0)) (replicate 5 0)\<rparr>)"
proof -
  have "siv_args ex_env 4096 5000 (ex_span 8192 32) 7000 [ex_span 8300 3] (ex_span 9000 5) (ex_buf 9200 5)"
    by (simp add: siv_args_def tc_aes_text_ok_def tc_internal_ranges_disjoint_def siv_first_key_def siv_second_key_def key_args_ok_def
        tc_internal_parts_valid_def tc_internal_span_valid_def UINTPTR_MAX_def SIZE_MAX_def sizeof_TC_bytes_def)
  then show ?thesis
    using aes_siv_correct [where e = ex_env and ?at1.0 = 4096 and ?at2.0 = 5000 and k = "ex_span 8192 32" and ad_at = 7000 and ad = "[ex_span 8300 3]" and
        input = "ex_span 9000 5" and out = "ex_buf 9200 5" and c_at = 6000 and local_at = 6100 and v = "ex_buf 9100 16" and iv = "ex_span 9100 16"]
    by (simp add: tc_internal_ranges_disjoint_def)
qed

section \<open>CCM\<close>

abbreviation ccm_seal where
  "ccm_seal short \<equiv> (if short then TC_AES_CCM_encrypt_short_tag else TC_AES_CCM_encrypt)"

abbreviation ccm_open where
  "ccm_open short \<equiv> (if short then TC_AES_CCM_decrypt_short_tag else TC_AES_CCM_decrypt)"

text \<open>C37: \<^verbatim>\<open>TC_AES_CCM_encrypt\<close> and its short-tag variant write the ciphertext and the tag of SP 800-38C over the formatted
  nonce, associated data and payload, exactly when the arguments pass the checks, and change nothing otherwise.
  \<^verbatim>\<open>TC_AES_CCM_decrypt\<close> returns the text exactly for its genuine tag, and for any other tag reports a mismatch and leaves
  zeros; its text is the one that was encrypted.\<close>

theorem aes_ccm_correct:
  fixes mtl :: nat and short :: bool
  assumes "aes_env_wf e" "at \<noteq> NULL" "tag_at \<noteq> NULL" "bytes_wf k" "bytes_wf nonce" "bytes_wf aad" "bytes_wf input" "buffer_wf out" "buffer_wf tag"
    "bytes_wf expected"
    and "b_data k \<noteq> NULL \<Longrightarrow> b_length k = TC_AES_KEYLEN e \<Longrightarrow> key_args_ok e at (sizeof_key_ctx e) k"
  defines "text \<equiv> ccm_text (b_mem k) (b_mem nonce)" and "rest \<equiv> drop (b_length input) (w_mem out)"
    and "auth \<equiv> ccm_tag (b_mem k) (b_mem nonce) (b_mem aad)"
    and "accepts \<equiv> \<lambda>a n. b_length k = TC_AES_KEYLEN e \<and> tc_aes_ccm_tag_length_allowed mtl n short \<and> ccm_args k nonce aad input out a n"
  shows "ccm_seal short mtl e at tag_at k nonce aad input out tag =
      (if accepts (w_data tag) (w_capacity tag)
       then (TC_OK, out\<lparr>w_mem := text (b_mem input) @ rest\<rparr>, tag\<lparr>w_mem := auth (w_capacity tag) (b_mem input)\<rparr>)
       else (TC_ERROR, out, tag)) \<and>
    ccm_open short mtl e at tag_at k nonce aad input expected out =
      (if accepts (b_data expected) (b_length expected)
       then if b_mem expected = auth (b_length expected) (text (b_mem input)) then (TC_OK, out\<lparr>w_mem := text (b_mem input) @ rest\<rparr>)
            else (TC_MISMATCH, out\<lparr>w_mem := replicate (b_length input) 0 @ rest\<rparr>)
       else (TC_ERROR, out)) \<and>
    text (text (b_mem input)) = b_mem input"
proof (intro conjI)
  note defs = text_def rest_def auth_def accepts_def
  note refused = ccm_refused [of k nonce aad input out]
  have key: "key_args_ok e at (sizeof_key_ctx e) k" if "ccm_args k nonce aad input out a n" "b_length k = TC_AES_KEYLEN e" for a n
    using that assms(11) by (simp add: ccm_args_def)
  note t16 = ccm_tag_length_le
  have tag_mem: "memcpy_at (w_mem tag) 0 (ccm_tag (b_mem k) (b_mem nonce) (b_mem aad) (w_capacity tag) p) = ccm_tag (b_mem k) (b_mem nonce) (b_mem aad) (w_capacity tag) p"
    if "ccm_args k nonce aad input out (w_data tag) (w_capacity tag)" "tc_aes_ccm_tag_length_allowed mtl (w_capacity tag) short" for p
  proof -
    have "length (w_mem tag) = w_capacity tag" "length (b_mem nonce) \<le> 13" using that(1) assms(5,9) by (auto simp: ccm_args_def buffer_wf_def bytes_wf_def)
    then show ?thesis using t16 [OF that(2)] by (intro memcpy_at_0) (simp add: ccm_tag_def)
  qed
  show "ccm_seal short mtl e at tag_at k nonce aad input out tag =
      (if accepts (w_data tag) (w_capacity tag)
       then (TC_OK, out\<lparr>w_mem := text (b_mem input) @ rest\<rparr>, tag\<lparr>w_mem := auth (w_capacity tag) (b_mem input)\<rparr>)
       else (TC_ERROR, out, tag))"
    using ccm_encrypt_core [OF assms(1,4,2) key assms(5-8), where tag = tag and expected = no_bytes and t = "w_capacity tag"]
      refused [of "w_data tag" "w_capacity tag" no_bytes tag] tag_mem
    by (auto simp: TC_AES_CCM_encrypt_def TC_AES_CCM_encrypt_short_tag_def tc_aes_ccm_encrypt_with_policy_def defs no_bytes_def)
  show "ccm_open short mtl e at tag_at k nonce aad input expected out =
      (if accepts (b_data expected) (b_length expected)
       then if b_mem expected = auth (b_length expected) (text (b_mem input)) then (TC_OK, out\<lparr>w_mem := text (b_mem input) @ rest\<rparr>)
            else (TC_MISMATCH, out\<lparr>w_mem := replicate (b_length input) 0 @ rest\<rparr>)
       else (TC_ERROR, out))"
  proof -
    let ?X = "tc_aes_ccm_crypt e at tag_at k nonce aad input out expected no_buffer (b_length expected)"
    have d: "?X = (if b_mem expected = auth (b_length expected) (text (b_mem input)) then (TC_OK, out\<lparr>w_mem := text (b_mem input) @ rest\<rparr>, no_buffer)
         else (TC_MISMATCH, out\<lparr>w_mem := replicate (b_length input) 0 @ rest\<rparr>, no_buffer))"
      if "accepts (b_data expected) (b_length expected)"
      unfolding text_def rest_def auth_def
      by (rule ccm_decrypt_core [OF assms(1,4,2,3) key assms(5-8) _ assms(10) refl]) (use that t16 in \<open>auto simp: accepts_def\<close>)
    have r: "?X = (TC_ERROR, out, no_buffer)" if "\<not> ccm_args k nonce aad input out (b_data expected) (b_length expected)" "b_data expected \<noteq> NULL"
      using refused [OF that(1), of expected no_buffer] that(2) by simp
    have nn: "ccm_args k nonce aad input out (b_data expected) (b_length expected) \<Longrightarrow> b_data expected \<noteq> NULL" by (simp add: ccm_args_def)
    show ?thesis
      using d r nn unfolding TC_AES_CCM_decrypt_def TC_AES_CCM_decrypt_short_tag_def tc_aes_ccm_decrypt_with_policy_def accepts_def
      by (cases short) auto
  qed
qed (simp add: text_def)

theorem aes_ccm_correct_witness:
  "TC_AES_CCM_encrypt 12 ex_env 4096 5000 (ex_span 8192 16) (ex_span 8300 12) (ex_span 8400 3) (ex_span 9000 5) (ex_buf 9000 5) (ex_buf 9100 16) =
     (TC_OK, (ex_buf 9000 5)\<lparr>w_mem := ccm_text (replicate 16 0) (replicate 12 0) (replicate 5 0)\<rparr>,
      (ex_buf 9100 16)\<lparr>w_mem := ccm_tag (replicate 16 0) (replicate 12 0) (replicate 3 0) 16 (replicate 5 0)\<rparr>)"
proof -
  have "ccm_args (ex_span 8192 16) (ex_span 8300 12) (ex_span 8400 3) (ex_span 9000 5) (ex_buf 9000 5) 9100 16"
    by (simp add: ccm_args_def tc_aes_text_ok_def tc_internal_ranges_disjoint_def)
  moreover have "tc_aes_ccm_tag_length_allowed 12 16 False"
    by (simp add: tc_aes_ccm_tag_length_allowed_def tc_internal_tag_length_allowed_def TC_AES_BLOCKLEN_def)
  ultimately show ?thesis
    using aes_ccm_correct [where e = ex_env and at = 4096 and tag_at = 5000 and k = "ex_span 8192 16" and input = "ex_span 9000 5" and
        out = "ex_buf 9000 5" and tag = "ex_buf 9100 16" and expected = "ex_span 9100 16" and nonce = "ex_span 8300 12" and
        aad = "ex_span 8400 3" and short = False and mtl = 12] by simp
qed

section \<open>GCM\<close>

text \<open>C36: In every build the multiplier of GHASH computes the product of SP 800-38D section 6.3: the bytewise loop, the
  64-bit loop, the nibble table of the key, and the platform's multiplier if it does what its contract says.\<close>

theorem ghash_builds_agree:
  assumes "length x = 16" "length (gc_h ctx) = 16"
    and "gb_mode g = TC_AES_GCM_GHASH_MODE_HARDWARE \<Longrightarrow> gb_hardware g x (gc_h ctx) = gcm_mult x (gc_h ctx)"
  shows "tc_aes_gcm_multiply g x (tc_aes_gcm_init_table ctx) = gcm_mult x (gc_h ctx)"
proof -
  have "gc_h (tc_aes_gcm_init_table ctx) = gc_h ctx" by (simp add: tc_aes_gcm_init_table_def)
  then show ?thesis
    using assms by (simp add: tc_aes_gcm_multiply_def multiply_fast_table_eq multiply_wide_eq multiply_bitwise_eq)
qed

text \<open>A build for each kind of multiplier, and a context with the given hash subkey.\<close>

definition ex_gcm :: "ghash_mode \<Rightarrow> gcm_build" where
  "ex_gcm m = \<lparr>gb_mode = m, gb_wide_ops = True, gb_hardware = gcm_mult\<rparr>"

theorem ghash_builds_agree_witness:
  "tc_aes_gcm_multiply (ex_gcm TC_AES_GCM_GHASH_MODE_FAST_TABLE) (replicate 16 0x42) (tc_aes_gcm_init_table ((gcm_ctx_zero ex_env)\<lparr>gc_h := replicate 16 0x81\<rparr>)) =
   tc_aes_gcm_multiply (ex_gcm TC_AES_GCM_GHASH_MODE_AUTO) (replicate 16 0x42) (tc_aes_gcm_init_table ((gcm_ctx_zero ex_env)\<lparr>gc_h := replicate 16 0x81\<rparr>))"
  using ghash_builds_agree [of "replicate 16 0x42" "(gcm_ctx_zero ex_env)\<lparr>gc_h := replicate 16 0x81\<rparr>" "ex_gcm TC_AES_GCM_GHASH_MODE_FAST_TABLE"]
    ghash_builds_agree [of "replicate 16 0x42" "(gcm_ctx_zero ex_env)\<lparr>gc_h := replicate 16 0x81\<rparr>" "ex_gcm TC_AES_GCM_GHASH_MODE_AUTO"]
  by (simp add: ex_gcm_def)

text \<open>C6: Streaming GCM does not depend on how the message is cut. After an accepted initialization, associated data in
  any pieces and then text in any pieces, within the limits of SP 800-38D and of the tag length, are all accepted;
  the pieces of ciphertext together are the GCM encryption of the whole text, the tag is that of the whole message, and
  the finished context holds nothing but its phase. No counter block of the message is used twice.\<close>

theorem aes_gcm_streaming:
  assumes "aes_env_wf e" "gcm_build_ok g" "o_addr ctx \<noteq> NULL" "sizeof_key_ctx e \<le> o_size ctx" "bytes_wf k" "gcm_init_args e ctx k iv t short"
    "list_all (\<lambda>a. bytes_wf a \<and> gcm_piece_ok ctx (b_data a) (b_length a)) aads"
    "list_all (\<lambda>b. buffer_wf b \<and> gcm_piece_ok ctx (w_data b) (w_capacity b)) texts"
    "gcm_within t (length aad) (length msg)" "aad = concat (map b_mem aads)" "msg = concat (map w_mem texts)"
    "buffer_wf tag" "w_data tag \<noteq> NULL" "t \<le> w_capacity tag" "tc_internal_ranges_disjoint (o_addr ctx) (o_size ctx) (w_data tag) t"
  defines "c \<equiv> gcm_text (b_mem k) (b_mem iv) msg"
  shows "\<exists>c1 c2 c3. (if short then TC_AES_GCM_init_short_tag else TC_AES_GCM_init) g e ctx k iv t = (TC_OK, c1) \<and>
      gcm_aad_run g c1 aads = (TC_OK, c2) \<and> gcm_text_run g e c2 texts = (TC_OK, c3, c) \<and>
      TC_AES_GCM_encrypt_finish g e c3 tag =
        (TC_OK, ctx\<lparr>o_val := gcm_finished e\<rparr>, tag\<lparr>w_mem := take t (gcm_tag (b_mem k) (b_mem iv) aad c) @ drop t (w_mem tag)\<rparr>) \<and>
      inj_on (\<lambda>i. (gcm_inc32 ^^ i) (gcm_j0 (gcm_subkey (b_mem k)) (b_mem iv))) {.. (length msg + 15) div 16}"
proof -
  obtain c1 where c1: "tc_aes_gcm_init_impl g e ctx k iv t short = (TC_OK, ctx\<lparr>o_val := c1\<rparr>)" "gcm_at g e (b_mem k) (b_mem iv) t [] [] c1"
    "gc_phase c1 = TC_AES_GCM_PHASE_AAD" using init_at [OF assms(1-6)] by blast
  have w: "gcm_within t (length aad) 0" using assms(9) by (rule within_mono) simp_all
  obtain c2 where c2: "gcm_aad_run g (ctx\<lparr>o_val := c1\<rparr>) aads = (TC_OK, ctx\<lparr>o_val := c2\<rparr>)" "gcm_at g e (b_mem k) (b_mem iv) t aad [] c2"
    using aad_run_at [of g e "b_mem k" "b_mem iv" t "[]" "ctx\<lparr>o_val := c1\<rparr>" aads] c1 assms(3,7,10) w by (auto simp: gcm_piece_ok_def)
  obtain c3 where c3: "gcm_text_run g e (ctx\<lparr>o_val := c2\<rparr>) texts = (TC_OK, ctx\<lparr>o_val := c3\<rparr>, c)" "gcm_at g e (b_mem k) (b_mem iv) t aad msg c3"
    using text_run_at [OF assms(1), of g "b_mem k" "b_mem iv" t aad "[]" "ctx\<lparr>o_val := c2\<rparr>" texts] c2(2) assms(3,8,9,11)
    by (auto simp: gcm_piece_ok_def c_def gcm_text_def)
  have "TC_AES_GCM_encrypt_finish g e (ctx\<lparr>o_val := c3\<rparr>) tag =
      (TC_OK, ctx\<lparr>o_val := gcm_finished e\<rparr>, tag\<lparr>w_mem := take t (gcm_tag (b_mem k) (b_mem iv) aad c) @ drop t (w_mem tag)\<rparr>)"
    using finish_at [of e g "b_mem k" "b_mem iv" t aad msg "ctx\<lparr>o_val := c3\<rparr>" tag] assms(1,3,12-15) c3(2) by (simp add: c_def)
  moreover have "inj_on (\<lambda>i. (gcm_inc32 ^^ i) (gcm_j0 (gcm_subkey (b_mem k)) (b_mem iv))) {.. (length msg + 15) div 16}"
    using assms(9) by (intro gcm_blocks_distinct) (simp add: gcm_within_def)
  ultimately show ?thesis using c1(1) c2(1) c3(1) by (auto simp: TC_AES_GCM_init_def TC_AES_GCM_init_short_tag_def)
qed

theorem aes_gcm_streaming_witness:
  "\<exists>c1 c2 c3. TC_AES_GCM_init (ex_gcm TC_AES_GCM_GHASH_MODE_WIDE) ex_env \<lparr>o_addr = 4096, o_size = 400, o_val = gcm_ctx_zero ex_env\<rparr>
       (ex_span 8192 16) (ex_span 8300 12) 16 = (TC_OK, c1) \<and>
     gcm_aad_run (ex_gcm TC_AES_GCM_GHASH_MODE_WIDE) c1 [ex_span 8400 3, ex_span 8500 20] = (TC_OK, c2) \<and>
     gcm_text_run (ex_gcm TC_AES_GCM_GHASH_MODE_WIDE) ex_env c2 [ex_buf 9000 5, ex_buf 9100 0, ex_buf 9200 30] =
       (TC_OK, c3, gcm_text (replicate 16 0) (replicate 12 0) (replicate 35 0))"
proof -
  let ?g = "ex_gcm TC_AES_GCM_GHASH_MODE_WIDE" and ?o = "\<lparr>o_addr = 4096, o_size = 400, o_val = gcm_ctx_zero ex_env\<rparr>"
    and ?aads = "[ex_span 8400 3, ex_span 8500 20]" and ?texts = "[ex_buf 9000 5, ex_buf 9100 0, ex_buf 9200 30]"
  have cat: "replicate 3 0 @ replicate 20 0 = replicate 23 (0::u8)" "replicate 5 0 @ replicate 30 0 = replicate 35 (0::u8)"
    by (simp_all flip: replicate_add)
  have args: "gcm_init_args ex_env ?o (ex_span 8192 16) (ex_span 8300 12) 16 False"
    by (simp add: gcm_init_args_def tc_aes_gcm_tag_length_is_allowed_def TC_AES_GCM_MAX_IV_BYTES_def UINT64_MAX_def)
  have within: "gcm_within 16 (length (replicate 23 (0::u8))) (length (replicate 35 (0::u8)))"
    by (simp add: gcm_within_def TC_AES_GCM_MAX_AAD_BYTES_def TC_AES_GCM_MAX_PLAINTEXT_BYTES_def UINT64_MAX_def)
  have build: "gcm_build_ok ?g" by (simp add: gcm_build_ok_def ex_gcm_def)
  have aads: "list_all (\<lambda>a. bytes_wf a \<and> gcm_piece_ok ?o (b_data a) (b_length a)) ?aads" by (simp add: gcm_piece_ok_def)
  have texts: "list_all (\<lambda>b. buffer_wf b \<and> gcm_piece_ok ?o (w_data b) (w_capacity b)) ?texts" by (simp add: gcm_piece_ok_def)
  have pieces: "replicate 23 0 = concat (map b_mem ?aads)" "replicate 35 0 = concat (map w_mem ?texts)" by (simp_all add: cat)
  have tag: "buffer_wf (ex_buf 9300 16)" "w_data (ex_buf 9300 16) \<noteq> NULL" "16 \<le> w_capacity (ex_buf 9300 16)"
    "tc_internal_ranges_disjoint (o_addr ?o) (o_size ?o) (w_data (ex_buf 9300 16)) 16" by (simp_all add: tc_internal_ranges_disjoint_def)
  have ctx: "o_addr ?o \<noteq> NULL" "sizeof_key_ctx ex_env \<le> o_size ?o" "bytes_wf (ex_span 8192 16)" by simp_all
  have mem: "b_mem (ex_span 8192 16) = replicate 16 0" "b_mem (ex_span 8300 12) = replicate 12 0" by simp_all
  show ?thesis
    using aes_gcm_streaming [OF ex_env_wf(1) build ctx args aads texts within pieces tag] unfolding mem if_False by blast
qed

abbreviation gcm_seal where
  "gcm_seal short \<equiv> (if short then TC_AES_GCM_encrypt_short_tag else TC_AES_GCM_encrypt)"

abbreviation gcm_open where
  "gcm_open short \<equiv> (if short then TC_AES_GCM_decrypt_short_tag else TC_AES_GCM_decrypt)"

text \<open>C5: \<^verbatim>\<open>TC_AES_GCM_encrypt\<close> and its short-tag variant write the ciphertext and the leading bytes of the tag of SP 800-38D
  exactly when the arguments pass the checks, in every build, and change nothing otherwise. \<^verbatim>\<open>TC_AES_GCM_decrypt\<close>
  returns the text exactly for the genuine tag, and for any other tag reports a mismatch and leaves zeros; its text is
  the one that was encrypted.\<close>

theorem aes_gcm_correct:
  fixes short :: bool
  assumes "aes_env_wf e" "gcm_build_ok g" "bytes_wf k" "bytes_wf aad" "bytes_wf input" "buffer_wf out" "buffer_wf tag" "bytes_wf expected" "x_at \<noteq> NULL"
    "gcm_stack_ok e at sz k iv aad out (b_length input) (w_data tag) (w_capacity tag)"
    "gcm_stack_ok e at sz k iv aad out (b_length input) (b_data expected) (b_length expected)"
  defines "text \<equiv> gcm_text (b_mem k) (b_mem iv)" and "rest \<equiv> drop (b_length input) (w_mem out)"
    and "auth \<equiv> gcm_tag (b_mem k) (b_mem iv) (b_mem aad)"
    and "accepts \<equiv> \<lambda>a n. tc_aes_gcm_oneshot_args_ok e k iv aad input out a n short"
  shows "gcm_seal short g e at sz k iv aad input out tag =
      (if accepts (w_data tag) (w_capacity tag)
       then (TC_OK, out\<lparr>w_mem := text (b_mem input) @ rest\<rparr>, tag\<lparr>w_mem := take (w_capacity tag) (auth (text (b_mem input)))\<rparr>)
       else (TC_ERROR, out, tag)) \<and>
    gcm_open short g e at sz x_at k iv aad input expected out =
      (if accepts (b_data expected) (b_length expected)
       then if b_mem expected = take (b_length expected) (auth (b_mem input)) then (TC_OK, out\<lparr>w_mem := text (b_mem input) @ rest\<rparr>)
            else (TC_MISMATCH, out\<lparr>w_mem := replicate (b_length input) 0 @ rest\<rparr>)
       else (TC_ERROR, out)) \<and>
    text (text (b_mem input)) = b_mem input"
proof -
  note defs = text_def rest_def auth_def accepts_def
  have "tc_aes_gcm_encrypt_impl g e at sz k iv aad input out tag short =
      (if accepts (w_data tag) (w_capacity tag)
       then (TC_OK, out\<lparr>w_mem := text (b_mem input) @ rest\<rparr>, tag\<lparr>w_mem := take (w_capacity tag) (auth (text (b_mem input)))\<rparr>)
       else (TC_ERROR, out, tag))"
    using gcm_encrypt_core [OF assms(1-7) _ assms(10), of short] by (auto simp: defs) (simp add: tc_aes_gcm_encrypt_impl_def)
  moreover have "tc_aes_gcm_decrypt_impl g e at sz x_at k iv aad input expected out short =
      (if accepts (b_data expected) (b_length expected)
       then if b_mem expected = take (b_length expected) (auth (b_mem input)) then (TC_OK, out\<lparr>w_mem := text (b_mem input) @ rest\<rparr>)
            else (TC_MISMATCH, out\<lparr>w_mem := replicate (b_length input) 0 @ rest\<rparr>)
       else (TC_ERROR, out))"
    using gcm_decrypt_core [OF assms(1-6,8,9) _ assms(11), of short] by (auto simp: defs) (simp add: tc_aes_gcm_decrypt_impl_def)
  moreover have "text (text (b_mem input)) = b_mem input" by (simp add: text_def)
  ultimately show ?thesis
    by (cases short) (simp_all add: TC_AES_GCM_encrypt_def TC_AES_GCM_encrypt_short_tag_def TC_AES_GCM_decrypt_def TC_AES_GCM_decrypt_short_tag_def)
qed

theorem aes_gcm_correct_witness:
  "TC_AES_GCM_encrypt (ex_gcm TC_AES_GCM_GHASH_MODE_FAST_TABLE) ex_env 4096 656 (ex_span 8192 16) (ex_span 8300 12) (ex_span 8400 3) (ex_span 9000 5)
       (ex_buf 9000 5) (ex_buf 9100 16) =
     (TC_OK, (ex_buf 9000 5)\<lparr>w_mem := gcm_text (replicate 16 0) (replicate 12 0) (replicate 5 0)\<rparr>,
      (ex_buf 9100 16)\<lparr>w_mem := gcm_tag (replicate 16 0) (replicate 12 0) (replicate 3 0) (gcm_text (replicate 16 0) (replicate 12 0) (replicate 5 0))\<rparr>)"
proof -
  have "tc_aes_gcm_oneshot_args_ok ex_env (ex_span 8192 16) (ex_span 8300 12) (ex_span 8400 3) (ex_span 9000 5) (ex_buf 9000 5) 9100 16 False"
    by (simp add: tc_aes_gcm_oneshot_args_ok_def tc_aes_text_ok_def tc_internal_ranges_disjoint_def tc_aes_gcm_tag_length_is_allowed_def
        TC_AES_GCM_MAX_IV_BYTES_def TC_AES_GCM_MAX_AAD_BYTES_def TC_AES_GCM_MAX_PLAINTEXT_BYTES_def UINT64_MAX_def packet_lengths_iff)
  moreover have "gcm_stack_ok ex_env 4096 656 (ex_span 8192 16) (ex_span 8300 12) (ex_span 8400 3) (ex_buf 9000 5) 5 9100 16"
    by (simp add: gcm_stack_ok_def)
  moreover have "gcm_build_ok (ex_gcm TC_AES_GCM_GHASH_MODE_FAST_TABLE)" by (simp add: gcm_build_ok_def ex_gcm_def)
  ultimately show ?thesis
    using aes_gcm_correct [where e = ex_env and g = "ex_gcm TC_AES_GCM_GHASH_MODE_FAST_TABLE" and at = 4096 and sz = 656 and x_at = 6000 and k = "ex_span 8192 16" and
        iv = "ex_span 8300 12" and aad = "ex_span 8400 3" and input = "ex_span 9000 5" and out = "ex_buf 9000 5" and tag = "ex_buf 9100 16" and
        expected = "ex_span 9100 16" and short = False] by (simp add: gcm_tag_def)
qed

end
