(* ===== verification/TLV.thy ===== *)
theory TLV
  imports TC_Common
begin

text \<open>
  The bounded TLV readers of \<^verbatim>\<open>src/src/tlv.c\<close>, the header writer of \<^verbatim>\<open>src/src/tlv_write.c\<close> and the tag tests of
  \<^verbatim>\<open>src/src/tlv_internal.h\<close>, with the types of \<^verbatim>\<open>src/src/tiny_crypto/tlv.h\<close>. The lemmas relate the header parser to
  the encoding rules of X.690: it accepts what the rules produce, what it accepts is a header the rules
  produce, and it never looks past the bytes it was given.

  A reader that succeeds returns \<open>Inr\<close> with the object it stores through its output pointer; \<open>Inl\<close> carries
  the result code of a failure, which leaves the output unchanged. The build option
  \<^verbatim>\<open>TC_TLV_ENABLE_BER\<close> is the argument \<open>ber\<close>. Tag numbers and lengths are naturals reduced to 32 and 64 bits
  where the source computes them.
\<close>

section \<open>Types (tlv.h, tlv_internal.h)\<close>

abbreviation TC_TLV_OK :: TC_result where "TC_TLV_OK \<equiv> TC_RESULT_OK"
abbreviation TC_TLV_END :: TC_result where "TC_TLV_END \<equiv> TC_RESULT_END"
abbreviation TC_TLV_MORE :: TC_result where "TC_TLV_MORE \<equiv> TC_RESULT_MORE"
abbreviation TC_TLV_INVALID :: TC_result where "TC_TLV_INVALID \<equiv> TC_RESULT_INVALID"
abbreviation TC_TLV_LIMIT :: TC_result where "TC_TLV_LIMIT \<equiv> TC_RESULT_LIMIT"
abbreviation TC_TLV_UNSUPPORTED :: TC_result where "TC_TLV_UNSUPPORTED \<equiv> TC_RESULT_UNSUPPORTED"
abbreviation TC_TLV_ARGUMENT :: TC_result where "TC_TLV_ARGUMENT \<equiv> TC_RESULT_ARGUMENT"

text \<open>
  A C enumeration object can hold a value that is none of its enumerators; the last constructor stands
  for all of them.
\<close>

datatype TC_TLV_profile =
    TC_TLV_DER | TC_TLV_ISO7816 | TC_TLV_BER | TC_TLV_ISO7816_PAD_ZERO | TC_TLV_ISO7816_PAD_ZERO_FF
  | TC_TLV_PROFILE_OTHER

record TC_TLV_limits =
  tl_max_input :: nat
  tl_max_value :: nat
  tl_max_elements :: nat
  tl_max_depth :: nat

definition TC_TLV_TAG_BYTES :: nat where "TC_TLV_TAG_BYTES = 6"

definition TC_TLV_HEADER_BYTES :: nat where "TC_TLV_HEADER_BYTES = TC_TLV_TAG_BYTES + 1 + sizeof_size_t"

record TC_TLV_header =
  th_number :: nat
  th_length :: nat
  th_tag :: "u8 list"
  th_tag_length :: nat
  th_header_length :: nat
  th_tag_class :: u8
  th_constructed :: u8
  th_indefinite :: u8

record tc_tlv_wide_header =
  wh_length :: nat
  wh_number :: nat
  wh_tag :: "u8 list"
  wh_tag_length :: nat
  wh_header_length :: nat
  wh_tag_class :: u8
  wh_constructed :: u8
  wh_indefinite :: u8

record TC_TLV_element =
  te_header :: TC_TLV_header
  te_encoded :: TC_bytes
  te_value :: TC_bytes

record TC_TLV_reader =
  tr_input :: TC_bytes
  tr_limits :: TC_TLV_limits
  tr_offset :: nat
  tr_elements :: nat
  tr_profile :: TC_TLV_profile
  tr_root :: u8

type_synonym 'a tlv_result = "TC_result + 'a"

text \<open>The address of a local variable of the caller, which is not \<^verbatim>\<open>NULL\<close>.\<close>

definition LOCAL :: addr where "LOCAL = 1"

section \<open>Configuration and padding (tlv.c)\<close>

definition tc_tlv_config :: "bool \<Rightarrow> TC_TLV_profile \<Rightarrow> TC_TLV_limits option \<Rightarrow> TC_result" where
  "tc_tlv_config ber profile limits =
     (if limits = None \<or> profile = TC_TLV_PROFILE_OTHER then TC_TLV_ARGUMENT
      else if \<not> ber \<and> profile = TC_TLV_BER then TC_TLV_UNSUPPORTED
      else TC_TLV_OK)"

definition tc_tlv_padding :: "TC_TLV_profile \<Rightarrow> u8 \<Rightarrow> bool" where
  "tc_tlv_padding profile byte \<longleftrightarrow>
     ((profile = TC_TLV_ISO7816_PAD_ZERO \<or> profile = TC_TLV_ISO7816_PAD_ZERO_FF) \<and> byte = 0) \<or>
     (profile = TC_TLV_ISO7816_PAD_ZERO_FF \<and> byte = 0xff)"

section \<open>Header parsing (tlv.c)\<close>

definition iso_profile :: "TC_TLV_profile \<Rightarrow> bool" where
  "iso_profile profile \<longleftrightarrow> profile \<noteq> TC_TLV_DER \<and> profile \<noteq> TC_TLV_BER"

definition UINT32_MAX :: nat where "UINT32_MAX = 2 ^ 32 - 1"

definition UINT64_MAX :: nat where "UINT64_MAX = 2 ^ 64 - 1"

text \<open>
  The \<^verbatim>\<open>do ... while\<close> loop over the subsequent tag octets. The list is what is left of the input after \<open>p\<close>
  octets, so that it is empty exactly when \<^verbatim>\<open>p == length\<close> and its head is \<^verbatim>\<open>data[p]\<close>.
\<close>

fun tag_number_loop :: "bool \<Rightarrow> nat \<Rightarrow> nat \<Rightarrow> u8 list \<Rightarrow> (nat \<times> nat) tlv_result" where
  "tag_number_loop isop p number [] = Inl TC_TLV_MORE"
| "tag_number_loop isop p number (b # rest) =
     (if p = TC_TLV_TAG_BYTES \<or> (isop \<and> p = 3) then Inl TC_TLV_LIMIT
      else if Suc p = 2 \<and> b AND 127 = 0 then Inl TC_TLV_INVALID
      else if number > (UINT32_MAX - unat (b AND 127)) div 128 then Inl TC_TLV_LIMIT
      else let number = (number * 128 + unat (b AND 127)) mod 2 ^ 32
           in if b AND 128 \<noteq> 0 then tag_number_loop isop (Suc p) number rest else Inr (Suc p, number))"

text \<open>The tag octets: the result is the number of octets read and the tag number.\<close>

definition tlv_tag_read :: "bool \<Rightarrow> u8 list \<Rightarrow> (nat \<times> nat) tlv_result" where
  "tlv_tag_read isop data =
     (let b = data ! 0
      in if b = 0 \<or> (isop \<and> b = 0xff) then Inl TC_TLV_INVALID
         else case (if unat (b AND 31) = 31
                    then case tag_number_loop isop 1 0 (drop 1 data) of
                           Inl r \<Rightarrow> Inl r
                         | Inr (p, number) \<Rightarrow> if number < 31 then Inl TC_TLV_INVALID else Inr (p, number)
                    else Inr (1, unat (b AND 31))) of
                Inl r \<Rightarrow> Inl r
              | Inr (p, number) \<Rightarrow>
                  if drop_bit 6 b = 0 \<and> number = 0 then Inl TC_TLV_INVALID else Inr (p, number))"

fun length_octets_loop :: "nat \<Rightarrow> u8 list \<Rightarrow> nat tlv_result" where
  "length_octets_loop len [] = Inr len"
| "length_octets_loop len (b # rest) =
     (if len > (UINT64_MAX - unat b) div 256 then Inl TC_TLV_LIMIT
      else length_octets_loop ((len * 256 + unat b) mod 2 ^ 64) rest)"

text \<open>
  The length octets, which start at offset \<open>p\<close> of the \<open>length data\<close> bytes: the result is the offset after them,
  the length and the indefinite flag.
\<close>

definition tlv_length_read ::
  "bool \<Rightarrow> TC_TLV_profile \<Rightarrow> nat \<Rightarrow> u8 \<Rightarrow> u8 list \<Rightarrow> nat \<Rightarrow> (nat \<times> nat \<times> u8) tlv_result" where
  "tlv_length_read ber profile length_octets constructed data p =
     (if p = length data then Inl TC_TLV_MORE
      else let b = data ! p; p = p + 1; isop = iso_profile profile
           in if b = 0xff then Inl TC_TLV_INVALID
              else if b = 0x80
              then (if \<not> ber \<or> profile \<noteq> TC_TLV_BER \<or> constructed = 0 then Inl TC_TLV_INVALID else Inr (p, 0, 1))
              else if b AND 128 \<noteq> 0
              then let n = unat (b AND 127)
                   in if isop \<and> n > 4 then Inl TC_TLV_INVALID
                      else if n > length_octets then Inl TC_TLV_LIMIT
                      else if n > length data - p then Inl TC_TLV_MORE
                      else if profile = TC_TLV_DER \<and> data ! p = 0 then Inl TC_TLV_INVALID
                      else case length_octets_loop 0 (take n (drop p data)) of
                             Inl r \<Rightarrow> Inl r
                           | Inr len \<Rightarrow> if profile = TC_TLV_DER \<and> len < 128 then Inl TC_TLV_INVALID
                                        else Inr (p + n, len, 0)
              else Inr (p, unat b, 0))"

definition tc_tlv_header_read ::
  "bool \<Rightarrow> addr \<Rightarrow> u8 list \<Rightarrow> nat \<Rightarrow> TC_TLV_profile \<Rightarrow> nat \<Rightarrow> nat \<Rightarrow> addr \<Rightarrow> tc_tlv_wide_header tlv_result" where
  "tc_tlv_header_read ber data mem len profile length_octets maxv out =
     (if out = NULL \<or> (data = NULL \<and> len \<noteq> 0) then Inl TC_TLV_ARGUMENT
      else if length_octets = 0 \<or> length_octets > 8 then Inl TC_TLV_ARGUMENT
      else if len = 0 then Inl TC_TLV_MORE
      else let bytes = take len mem; b = bytes ! 0; constructed = drop_bit 5 b AND 1
           in case tlv_tag_read (iso_profile profile) bytes of
                Inl r \<Rightarrow> Inl r
              | Inr (p, number) \<Rightarrow>
                  (case tlv_length_read ber profile length_octets constructed bytes p of
                     Inl r \<Rightarrow> Inl r
                   | Inr (q, value_length, indefinite) \<Rightarrow>
                       if value_length > maxv then Inl TC_TLV_LIMIT
                       else Inr \<lparr>wh_length = value_length, wh_number = number,
                                 wh_tag = take p bytes @ replicate (TC_TLV_TAG_BYTES - p) 0, wh_tag_length = p,
                                 wh_header_length = q, wh_tag_class = drop_bit 6 b, wh_constructed = constructed,
                                 wh_indefinite = indefinite\<rparr>))"

definition tc_tlv_header_parse ::
  "bool \<Rightarrow> addr \<Rightarrow> u8 list \<Rightarrow> nat \<Rightarrow> TC_TLV_profile \<Rightarrow> nat \<Rightarrow> TC_TLV_header tlv_result" where
  "tc_tlv_header_parse ber data mem len profile maxv =
     (case tc_tlv_header_read ber data mem len profile sizeof_size_t maxv LOCAL of
        Inl r \<Rightarrow> Inl r
      | Inr wide \<Rightarrow> Inr \<lparr>th_number = wh_number wide, th_length = wh_length wide mod 2 ^ 64, th_tag = wh_tag wide,
                         th_tag_length = wh_tag_length wide, th_header_length = wh_header_length wide,
                         th_tag_class = wh_tag_class wide, th_constructed = wh_constructed wide,
                         th_indefinite = wh_indefinite wide\<rparr>)"

section \<open>Single objects (tlv.c)\<close>

definition TC_TLV_header_read ::
  "bool \<Rightarrow> TC_bytes \<Rightarrow> TC_TLV_profile \<Rightarrow> TC_TLV_limits option \<Rightarrow> addr \<Rightarrow> TC_TLV_header tlv_result" where
  "TC_TLV_header_read ber input profile limits out =
     (let result = tc_tlv_config ber profile limits
      in if result \<noteq> TC_TLV_OK then Inl result
         else if out = NULL \<or> (b_data input = NULL \<and> b_length input \<noteq> 0) then Inl TC_TLV_ARGUMENT
         else if b_length input > tl_max_input (the limits) then Inl TC_TLV_LIMIT
         else tc_tlv_header_parse ber (b_data input) (b_mem input) (b_length input) profile (tl_max_value (the limits)))"

text \<open>The part of a span from an offset on.\<close>

definition span_from :: "TC_bytes \<Rightarrow> nat \<Rightarrow> nat \<Rightarrow> TC_bytes" where
  "span_from s p n = \<lparr>b_data = b_data s + p, b_length = n, b_mem = take n (drop p (b_mem s))\<rparr>"

definition TC_TLV_read ::
  "bool \<Rightarrow> TC_bytes \<Rightarrow> TC_TLV_profile \<Rightarrow> TC_TLV_limits option \<Rightarrow> addr \<Rightarrow> TC_TLV_element tlv_result" where
  "TC_TLV_read ber input profile limits out =
     (if out = NULL then Inl TC_TLV_ARGUMENT
      else case TC_TLV_header_read ber input profile limits LOCAL of
             Inl r \<Rightarrow> Inl r
           | Inr h \<Rightarrow>
               if th_indefinite h \<noteq> 0 then Inl TC_TLV_UNSUPPORTED
               else if th_length h > b_length input - th_header_length h then Inl TC_TLV_MORE
               else Inr \<lparr>te_header = h, te_encoded = span_from input 0 (th_header_length h + th_length h),
                         te_value = span_from input (th_header_length h) (th_length h)\<rparr>)"

section \<open>Sibling readers (tlv.c)\<close>

definition TC_TLV_reader_init ::
  "bool \<Rightarrow> TC_TLV_reader obj \<Rightarrow> TC_bytes \<Rightarrow> TC_TLV_profile \<Rightarrow> TC_TLV_limits option \<Rightarrow> TC_result \<times> TC_TLV_reader obj" where
  "TC_TLV_reader_init ber reader input profile limits =
     (let result = tc_tlv_config ber profile limits
      in if result \<noteq> TC_TLV_OK then (result, reader)
         else if o_addr reader = NULL \<or> (b_data input = NULL \<and> b_length input \<noteq> 0) \<or>
                 \<not> tc_internal_ranges_disjoint (o_addr reader) (o_size reader) (b_data input) (b_length input)
         then (TC_TLV_ARGUMENT, reader)
         else if b_length input > tl_max_input (the limits) then (TC_TLV_LIMIT, reader)
         else (TC_TLV_OK, reader\<lparr>o_val := \<lparr>tr_input = input, tr_limits = the limits, tr_offset = 0, tr_elements = 0,
                                  tr_profile = profile, tr_root = 1\<rparr>\<rparr>))"

definition TC_TLV_reader_child ::
  "TC_TLV_reader obj \<Rightarrow> TC_TLV_reader obj \<Rightarrow> TC_TLV_element obj \<Rightarrow> TC_result \<times> TC_TLV_reader obj" where
  "TC_TLV_reader_child child parent element =
     (let input = tr_input (o_val parent); v = te_value (o_val element); start = b_data input
      in if o_addr child = NULL \<or> o_addr parent = NULL \<or> o_addr element = NULL \<or>
            (b_data input = NULL \<and> b_length input \<noteq> 0) \<or> (b_data v = NULL \<and> b_length v \<noteq> 0)
         then (TC_TLV_ARGUMENT, child)
         else if b_length v \<noteq> 0 \<and>
                 (b_data v < start \<or> b_data v - start > b_length input \<or>
                  b_length v > b_length input - (b_data v - start))
         then (TC_TLV_ARGUMENT, child)
         else (TC_TLV_OK, child\<lparr>o_val := \<lparr>tr_input = v, tr_limits = tr_limits (o_val parent), tr_offset = 0,
                 tr_elements = 0, tr_profile = tr_profile (o_val parent), tr_root = 0\<rparr>\<rparr>))"

text \<open>The number of padding bytes at the head of what is left of a root reader's input.\<close>

fun padding_loop :: "TC_TLV_profile \<Rightarrow> u8 list \<Rightarrow> nat" where
  "padding_loop profile [] = 0"
| "padding_loop profile (b # rest) = (if tc_tlv_padding profile b then Suc (padding_loop profile rest) else 0)"

definition TC_TLV_next ::
  "bool \<Rightarrow> TC_TLV_reader obj \<Rightarrow> addr \<Rightarrow> TC_TLV_element tlv_result \<times> TC_TLV_reader obj" where
  "TC_TLV_next ber reader out =
     (let r = o_val reader; input = tr_input r
      in if o_addr reader = NULL \<or> out = NULL \<or> tr_offset r > b_length input \<or>
            (b_data input = NULL \<and> b_length input \<noteq> 0)
         then (Inl TC_TLV_ARGUMENT, reader)
         else let p = tr_offset r +
                    (if tr_root r \<noteq> 0 then padding_loop (tr_profile r) (drop (tr_offset r) (take (b_length input) (b_mem input))) else 0)
              in if p = b_length input then (Inl TC_TLV_END, reader\<lparr>o_val := r\<lparr>tr_offset := p\<rparr>\<rparr>)
                 else if tr_elements r \<ge> tl_max_elements (tr_limits r) then (Inl TC_TLV_LIMIT, reader)
                 else case TC_TLV_read ber (span_from input p (b_length input - p)) (tr_profile r) (Some (tr_limits r)) LOCAL of
                        Inl result \<Rightarrow>
                          (Inl (if result = TC_TLV_MORE \<and> tr_root r = 0 then TC_TLV_INVALID else result), reader)
                      | Inr e \<Rightarrow> (Inr e, reader\<lparr>o_val := r\<lparr>tr_offset := p + b_length (te_encoded e),
                                                            tr_elements := tr_elements r + 1\<rparr>\<rparr>))"

section \<open>The header writer (tlv_write.c)\<close>

definition SHORT_FORM_MAX :: nat where "SHORT_FORM_MAX = 0x7f"

definition MAX_LENGTH_OCTETS :: nat where "MAX_LENGTH_OCTETS = 3"

function long_form_octets :: "nat \<Rightarrow> nat" where
  "long_form_octets value = (if value \<noteq> 0 then Suc (long_form_octets (value div 256)) else 0)"
  by pat_completeness auto
termination
  by (relation "measure id") auto

declare long_form_octets.simps [simp del]

definition tc_tlv_header_size :: "nat \<Rightarrow> nat \<Rightarrow> nat" where
  "tc_tlv_header_size tag_length value_length =
     (if tag_length = 0 \<or> tag_length > TC_TLV_TAG_BYTES then 0
      else if value_length \<le> SHORT_FORM_MAX then tag_length + 1
      else let octets = long_form_octets value_length
           in if octets \<le> MAX_LENGTH_OCTETS then tag_length + 1 + octets else 0)"

text \<open>The bytes stored at \<^verbatim>\<open>out\<close>; the returned pointer is \<^verbatim>\<open>out\<close> advanced by their number.\<close>

definition tc_tlv_header_write :: "u8 list \<Rightarrow> u8 list \<Rightarrow> nat \<Rightarrow> nat \<Rightarrow> u8 list \<times> nat" where
  "tc_tlv_header_write out tag tag_length value_length =
     (let field = (if value_length \<le> SHORT_FORM_MAX then [of_nat value_length]
                   else let octets = long_form_octets value_length
                        in (0x80 OR of_nat octets) #
                           map (\<lambda>i. of_nat (value_length div 2 ^ (8 * (i - 1)))) (rev [1..<octets + 1]));
          bytes = take tag_length tag @ field
      in (memcpy_at out 0 bytes, length bytes))"

section \<open>Tag tests (tlv_internal.h)\<close>

definition tc_tlv_tag_bytes_is :: "u8 list \<Rightarrow> nat \<Rightarrow> nat \<Rightarrow> bool" where
  "tc_tlv_tag_bytes_is tag tag_length expected =
     (let len = (if expected \<le> 0xff then 1 else if expected \<le> 0xffff then 2 else 3)
      in if tag_length \<noteq> len then False
         else list_all (\<lambda>i. tag ! i = of_nat (expected div 2 ^ (8 * (len - 1 - i)))) [0..<len])"

definition tc_tlv_tag_is :: "TC_TLV_element \<Rightarrow> nat \<Rightarrow> bool" where
  "tc_tlv_tag_is element expected = tc_tlv_tag_bytes_is (th_tag (te_header element)) (th_tag_length (te_header element)) expected"

definition tc_tlv_tag_matches :: "TC_TLV_element \<Rightarrow> TC_bytes \<Rightarrow> bool" where
  "tc_tlv_tag_matches element tag \<longleftrightarrow>
     th_tag_length (te_header element) = b_length tag \<and>
     take (b_length tag) (th_tag (te_header element)) = take (b_length tag) (b_mem tag)"

section \<open>The encoding rules of X.690\<close>

text \<open>
  The identifier octets of section 8.1.2 for a class, the constructed bit and a tag number, and the
  shortest definite length octets of sections 8.1.3 and 10.1.
\<close>

function more_octets :: "nat \<Rightarrow> u8 list" where
  "more_octets m = (if m = 0 then [] else more_octets (m div 128) @ [of_nat (128 + m mod 128)])"
  by pat_completeness auto
termination
  by (relation "measure id") auto

declare more_octets.simps [simp del]

definition number_octets :: "nat \<Rightarrow> u8 list" where
  "number_octets n = more_octets (n div 128) @ [of_nat (n mod 128)]"

definition ber_identifier :: "nat \<Rightarrow> bool \<Rightarrow> nat \<Rightarrow> u8 list" where
  "ber_identifier c k n =
     of_nat (64 * c + (if k then 32 else 0) + min n 31) # (if n < 31 then [] else number_octets n)"

definition der_length :: "nat \<Rightarrow> u8 list" where
  "der_length n = (if n < 128 then [of_nat n] else of_nat (128 + long_form_octets n) # be_bytes (long_form_octets n) n)"

section \<open>Lemmas: bits of an octet\<close>

lemma octet_low [simp]:
  "unat ((b :: u8) AND 127) = unat b mod 128" "unat ((b :: u8) AND 31) = unat b mod 32"
  using take_bit_eq_mask [of 7 "unat b"] take_bit_eq_mask [of 5 "unat b"]
  by (simp_all add: unsigned_and_eq mask_eq_exp_minus_1 take_bit_eq_mod)

lemma octet_class [simp]: "unat (drop_bit 6 (b :: u8)) = unat b div 64" "unat (drop_bit 5 (b :: u8) AND 1) = unat b div 32 mod 2"
  using unat_drop_bit_eq [of 6 b] unat_drop_bit_eq [of 5 b]
  by (simp_all add: drop_bit_eq_div unsigned_and_eq and_one_eq unat_mod)

lemma unat_eq_iff_u8: "unat a = unat b \<longleftrightarrow> a = (b :: u8)"
proof
  assume "unat a = unat b"
  then show "a = b" by (rule unsigned_word_eqI)
qed simp

lemma octet_constructed: "drop_bit 5 (b :: u8) AND 1 = (if odd (unat b div 32) then 1 else 0)"
proof -
  have "unat (drop_bit 5 b AND 1) = (if odd (unat b div 32) then 1 else 0)"
    by (simp only: octet_class odd_iff_mod_2_eq_one split: if_split) presburger
  also have "\<dots> = unat (if odd (unat b div 32) then 1 else 0 :: u8)" by simp
  finally show ?thesis by (simp only: unat_eq_iff_u8)
qed

lemma octet_high: "(b :: u8) AND 128 = 0 \<longleftrightarrow> unat b < 128"
proof -
  have "b AND 128 = 0 \<longleftrightarrow> \<not> bit b 7"
    using and_exp_eq_0_iff_not_bit [of b 7] by simp
  also have "\<dots> \<longleftrightarrow> \<not> bit (unat b) 7" by (simp add: bit_unsigned_iff)
  also have "\<dots> \<longleftrightarrow> unat b < 128"
  proof -
    have "unat b div 128 < 2" using unat_u8_less [of b] by (simp add: less_mult_imp_div_less)
    then have "unat b div 128 = 0 \<or> unat b div 128 = 1" by linarith
    then have "even (unat b div 128) \<longleftrightarrow> unat b div 128 = 0" by auto
    then show ?thesis by (simp add: bit_iff_odd div_eq_0_iff)
  qed
  finally show ?thesis .
qed

lemma octet_add_128 [simp]: "d < 128 \<Longrightarrow> unat (128 + of_nat d :: u8) = 128 + d"
  using unat_of_nat_u8 [of "128 + d"] by simp

lemma octet_split: "128 \<le> unat (b :: u8) \<Longrightarrow> 128 + of_nat (unat b mod 128) = b"
proof -
  assume "128 \<le> unat b"
  then obtain r where r: "unat b = 128 + r" using le_Suc_ex by blast
  then have "r < 128" using unat_u8_less [of b] by simp
  with r have "unat b = 128 + unat b mod 128" by simp
  then have "of_nat (unat b) = (of_nat (128 + unat b mod 128) :: u8)" by simp
  then show ?thesis by simp
qed

section \<open>Lemmas: tag numbers\<close>

text \<open>The number a string of tag octets carries.\<close>

definition octets_number :: "u8 list \<Rightarrow> nat" where
  "octets_number xs = foldl (\<lambda>a b. a * 128 + unat b mod 128) 0 xs"

lemma octets_number_snoc [simp]:
  "octets_number [] = 0" "octets_number (xs @ [b]) = octets_number xs * 128 + unat b mod 128"
  by (simp_all add: octets_number_def)

lemma octets_number_prefix: "octets_number xs \<le> octets_number (xs @ ys)"
  by (induction ys rule: rev_induct) (simp_all flip: append_assoc)

lemma more_octets_0 [simp]: "more_octets 0 = []"
  by (simp add: more_octets.simps)

lemma octets_number_more [simp]: "octets_number (more_octets m) = m"
proof (induction m rule: more_octets.induct)
  case (1 m)
  then show ?case by (cases "m = 0") (simp_all add: more_octets.simps [of m])
qed

lemma octets_number_number [simp]: "octets_number (number_octets n) = n"
  by (simp add: number_octets_def)

lemma more_octets_high: "b \<in> set (more_octets m) \<Longrightarrow> 128 \<le> unat b"
proof (induction m rule: more_octets.induct)
  case (1 m)
  then show ?case by (cases "m = 0") (auto simp: more_octets.simps [of m])
qed

lemma more_octets_snoc:
  assumes "128 \<le> unat b" "m \<noteq> 0 \<or> unat b mod 128 \<noteq> 0"
  shows "more_octets (m * 128 + unat b mod 128) = more_octets m @ [b]"
  using assms octet_split [OF assms(1)]
  by (simp add: more_octets.simps [of "m * 128 + unat b mod 128"])

lemma number_octets_snoc:
  "unat b < 128 \<Longrightarrow> number_octets (m * 128 + unat b) = more_octets m @ [b]"
  by (simp add: number_octets_def)

lemma more_octets_lead: "more_octets m \<noteq> [] \<Longrightarrow> unat (hd (more_octets m)) mod 128 \<noteq> 0"
proof (induction m rule: more_octets.induct)
  case (1 m)
  then show ?case
    by (cases "m = 0"; cases "m div 128 = 0")
      (auto simp: more_octets.simps [of m] hd_append div_eq_0_iff more_octets.simps [of "m div 128"] split: if_splits)
qed

lemma length_more_octets_less: "m < 128 ^ k \<longleftrightarrow> length (more_octets m) \<le> k"
proof (induction k arbitrary: m)
  case 0
  then show ?case by (simp add: more_octets.simps [of m])
next
  case (Suc k)
  show ?case
    using Suc [of "m div 128"]
    by (cases "m = 0") (simp_all add: more_octets.simps [of m] less_mult_imp_div_less div_less_iff_less_mult mult.commute)
qed

lemma number_step_guard:
  "d < 128 \<Longrightarrow> m > (UINT32_MAX - d) div 128 \<longleftrightarrow> 2 ^ 32 \<le> m * 128 + d"
proof -
  assume "d < 128"
  then have "m \<le> (UINT32_MAX - d) div 128 \<longleftrightarrow> m * 128 \<le> UINT32_MAX - d"
    by (simp add: less_eq_div_iff_mult_less_eq)
  with \<open>d < 128\<close> show ?thesis by (auto simp: UINT32_MAX_def)
qed

lemma tag_number_loop_step:
  assumes "p = Suc (length (more_octets m))" "m < 2 ^ 32"
  shows "tag_number_loop isop p m (b # rest) =
    (if isop \<and> p = 3 then Inl TC_TLV_LIMIT
     else if p = 1 \<and> unat b mod 128 = 0 then Inl TC_TLV_INVALID
     else if 4294967296 \<le> m * 128 + unat b mod 128 then Inl TC_TLV_LIMIT
     else if 128 \<le> unat b then tag_number_loop isop (Suc p) (m * 128 + unat b mod 128) rest
     else Inr (Suc p, m * 128 + unat b mod 128))"
proof -
  let ?d = "unat b mod 128"
  have b0: "b AND 127 = 0 \<longleftrightarrow> ?d = 0" by (metis octet_low(1) unat_eq_0)
  have g: "(UINT32_MAX - ?d) div 128 < m \<longleftrightarrow> 4294967296 \<le> m * 128 + ?d"
    using number_step_guard [of ?d m] by simp
  have p2: "Suc p = 2 \<longleftrightarrow> p = 1" by simp
  have mod: "\<not> 4294967296 \<le> m * 128 + ?d \<Longrightarrow> (m * 128 + ?d) mod 2 ^ 32 = m * 128 + ?d" by simp
  show ?thesis
  proof (cases "p = 6")
    case True
    then have "\<not> m < 128 ^ 4" using assms(1) length_more_octets_less [of m 4] by simp
    then have "4294967296 \<le> m * 128 + ?d" by simp
    then show ?thesis using True by (simp add: TC_TLV_TAG_BYTES_def)
  next
    case False
    have h: "b AND 128 \<noteq> 0 \<longleftrightarrow> 128 \<le> unat b" using octet_high [of b] by (simp add: not_less)
    show ?thesis
      unfolding tag_number_loop.simps TC_TLV_TAG_BYTES_def b0 p2 h Let_def octet_low g
      using False mod by (cases "4294967296 \<le> m * 128 + ?d") (simp_all only: simp_thms if_False if_True)
  qed
qed

text \<open>What the loop accepts is the octets of a number, and it returns that number.\<close>

lemma tag_number_loop_sound:
  assumes "tag_number_loop isop p m rest = Inr (q, n)" "p = Suc (length (more_octets m))" "m < 2 ^ 32" "isop \<longrightarrow> p \<le> 3"
  shows "\<exists>xs ys. rest = xs @ ys \<and> more_octets m @ xs = number_octets n \<and> q = Suc (length (number_octets n)) \<and>
    n < 2 ^ 32 \<and> 0 < n \<and> (isop \<longrightarrow> length (number_octets n) \<le> 2)"
  using assms
proof (induction rest arbitrary: p m)
  case Nil
  then show ?case by simp
next
  case (Cons b rest)
  let ?m = "m * 128 + unat b mod 128"
  note step = tag_number_loop_step [OF Cons.prems(2,3), of isop b rest]
  have g: "\<not> (isop \<and> p = 3)" "\<not> (p = 1 \<and> unat b mod 128 = 0)" "?m < 2 ^ 32"
    using Cons.prems(1) unfolding step by (auto split: if_splits)
  have nz: "m \<noteq> 0 \<or> unat b mod 128 \<noteq> 0" using g(2) Cons.prems(2) by (cases "m = 0") auto
  show ?case
  proof (cases "128 \<le> unat b")
    case True
    note more = more_octets_snoc [OF True nz]
    have "tag_number_loop isop (Suc p) ?m rest = Inr (q, n)" using Cons.prems(1) g True unfolding step
      by (auto split: if_splits)
    from Cons.IH [OF this] more Cons.prems(2,4) g(1,3) obtain xs ys
      where "rest = xs @ ys" "more_octets ?m @ xs = number_octets n" "q = Suc (length (number_octets n))"
        "n < 2 ^ 32" "0 < n" "isop \<longrightarrow> length (number_octets n) \<le> 2" by auto
    then show ?thesis using more by (intro exI [of _ "b # xs"] exI [of _ ys]) simp
  next
    case False
    then have n: "q = Suc p" "n = ?m" "unat b mod 128 = unat b" using Cons.prems(1) g unfolding step
      by (auto split: if_splits)
    then have enc: "number_octets n = more_octets m @ [b]" using number_octets_snoc [of b m] False by simp
    have "isop \<longrightarrow> length (number_octets n) \<le> 2"
      using g(1) enc Cons.prems(2,4) by auto
    then show ?thesis using n enc g(3) nz Cons.prems(2) by (intro exI [of _ "[b]"] exI [of _ rest]) auto
  qed
qed

lemma tag_number_loop_complete:
  assumes "number_octets n = more_octets m @ xs" "xs \<noteq> []" "n < 2 ^ 32" "0 < n" "isop \<longrightarrow> length (number_octets n) \<le> 2"
  shows "tag_number_loop isop (Suc (length (more_octets m))) m (xs @ ys) = Inr (Suc (length (number_octets n)), n)"
  using assms(1,2)
proof (induction xs arbitrary: m)
  case Nil
  then show ?case by simp
next
  case (Cons b xs)
  let ?m = "m * 128 + unat b mod 128"
  have le: "?m \<le> n"
    using octets_number_prefix [of "more_octets m @ [b]" xs] Cons.prems(1) by (metis append_Cons append_Nil append_assoc
        octets_number_more octets_number_number octets_number_snoc(2))
  then have "m < 2 ^ 32" using assms(3) by linarith
  note step = tag_number_loop_step [OF refl this, of isop b "xs @ ys"]
  have iso: "\<not> (isop \<and> Suc (length (more_octets m)) = 3)" using assms(5) Cons.prems(1) by auto
  show ?case
  proof (cases "xs = []")
    case True
    then have b: "b = of_nat (n mod 128)" and "more_octets m = more_octets (n div 128)"
      using Cons.prems(1) by (auto simp: number_octets_def)
    then have m: "m = n div 128" by (metis octets_number_more)
    from b have d: "unat b mod 128 = n mod 128" "\<not> 128 \<le> unat b" by simp_all
    have n: "m * 128 + unat b mod 128 = n" by (simp add: m d(1))
    have "more_octets m = [] \<Longrightarrow> m = 0" by (metis octets_number_more octets_number_snoc(1))
    then have "\<not> (Suc (length (more_octets m)) = 1 \<and> unat b mod 128 = 0)" using n assms(4) by auto
    moreover have "\<not> 4294967296 \<le> n" using assms(3) by simp
    ultimately have "tag_number_loop isop (Suc (length (more_octets m))) m ((b # xs) @ ys) =
        Inr (Suc (Suc (length (more_octets m))), n)"
      using step iso d(2) by (simp only: n append_Cons if_False)
    then show ?thesis using Cons.prems(1) True by simp
  next
    case False
    then have "more_octets (n div 128) = more_octets m @ b # butlast xs"
      using Cons.prems(1) unfolding number_octets_def
      by (metis butlast.simps(2) butlast_append butlast_snoc list.distinct(1))
    then have h: "128 \<le> unat b" using more_octets_high [of b "n div 128"] by simp
    have lead: "m \<noteq> 0 \<or> unat b mod 128 \<noteq> 0"
      using more_octets_lead [of "n div 128"] \<open>more_octets (n div 128) = _\<close> by (cases "m = 0") auto
    note more = more_octets_snoc [OF h lead]
    have "Suc (length (more_octets m)) = 1 \<longrightarrow> unat b mod 128 \<noteq> 0"
      using lead by (metis One_nat_def Suc_inject length_0_conv octets_number_more octets_number_snoc(1))
    then show ?thesis
      using step iso le assms(3) h Cons.IH [of ?m] False Cons.prems(1) more by simp
  qed
qed

section \<open>Lemmas: identifier octets\<close>

text \<open>What a tag must satisfy to be accepted: a 32-bit number, not universal 0, and under ISO 7816 at most three octets.\<close>

definition tag_ok :: "bool \<Rightarrow> nat \<Rightarrow> bool \<Rightarrow> nat \<Rightarrow> bool" where
  "tag_ok isop c k n \<longleftrightarrow> c < 4 \<and> n < 2 ^ 32 \<and> (c \<noteq> 0 \<or> n \<noteq> 0) \<and>
     (isop \<longrightarrow> length (ber_identifier c k n) \<le> 3 \<and> ber_identifier c k n ! 0 \<noteq> 0xff)"

lemma octet_arith:
  fixes c m :: nat and k :: bool
  assumes "c < 4" "m < 32"
  defines "x \<equiv> 64 * c + (if k then 32 else 0) + m"
  shows "x div 64 = c" "x div 32 mod 2 = (if k then 1 else 0)" "x mod 32 = m" "x < 256"
proof -
  have x: "x = 32 * (2 * c + (if k then 1 else 0)) + m" by (simp add: x_def)
  have d: "x div 32 = 2 * c + (if k then 1 else 0)" unfolding x using assms(2) by simp
  show "x mod 32 = m" unfolding x mod_mult_self4 using assms(2) by simp
  show "x div 32 mod 2 = (if k then 1 else 0)" by (simp add: d)
  have "x div 64 = x div 32 div 2" by (simp add: div_mult2_eq)
  then show "x div 64 = c" by (simp add: d)
  show "x < 256" using assms by auto
qed

lemma ber_identifier_lead:
  assumes "c < 4"
  shows "unat (hd (ber_identifier c k n)) = 64 * c + (if k then 32 else 0) + min n 31"
  unfolding ber_identifier_def list.sel
  using octet_arith(4) [OF assms, of "min n 31" k] by (intro unat_of_nat_u8) simp

lemma tlv_tag_read_complete:
  assumes "tag_ok isop c k n"
  shows "tlv_tag_read isop (ber_identifier c k n @ ys) = Inr (length (ber_identifier c k n), n)"
proof -
  let ?b = "hd (ber_identifier c k n)" and ?x = "64 * c + (if k then 32 else 0) + min n 31"
  have c: "c < 4" using assms by (simp add: tag_ok_def)
  note b = ber_identifier_lead [OF c, of k n]
  have hd: "ber_identifier c k n ! 0 = ?b" "(ber_identifier c k n @ ys) ! 0 = ?b"
    by (simp_all add: ber_identifier_def)
  have "?x \<noteq> 0" using assms by (auto simp: tag_ok_def min_def split: if_splits)
  then have nz: "?b \<noteq> 0" using b by auto
  have low: "unat (?b AND 31) = min n 31" using octet_arith(3) [OF c, of "min n 31" k] by (simp add: b)
  have "unat (drop_bit 6 ?b) = c" using octet_arith(1) [OF c, of "min n 31" k] unfolding octet_class b by simp
  then have cls: "drop_bit 6 ?b = 0 \<longleftrightarrow> c = 0" using unat_eq_0 [of "drop_bit 6 ?b"] by simp
  show ?thesis
  proof (cases "n < 31")
    case True
    then show ?thesis using assms nz low cls hd
      by (auto simp: tlv_tag_read_def tag_ok_def Let_def ber_identifier_def)
  next
    case False
    have "tag_number_loop isop 1 0 (number_octets n @ ys) = Inr (Suc (length (number_octets n)), n)"
      using tag_number_loop_complete [of n 0 "number_octets n" isop ys] False assms
      by (simp add: tag_ok_def ber_identifier_def number_octets_def)
    moreover have "drop 1 (ber_identifier c k n @ ys) = number_octets n @ ys" using False by (simp add: ber_identifier_def)
    ultimately show ?thesis using assms nz low cls hd False
      by (auto simp: tlv_tag_read_def tag_ok_def Let_def ber_identifier_def)
  qed
qed

lemma octet_recompose:
  "unat (b :: u8) = 64 * (unat b div 64) + (if odd (unat b div 32) then 32 else 0) + unat b mod 32"
proof -
  have "unat b = 32 * (unat b div 32) + unat b mod 32" by simp
  also have "unat b div 32 = 2 * (unat b div 64) + (if odd (unat b div 32) then 1 else 0)"
    using div_mult2_eq [of "unat b" 32 2] by (auto elim!: oddE)
  finally show ?thesis by (auto split: if_splits)
qed

lemma tlv_tag_read_sound:
  assumes "tlv_tag_read isop data = Inr (p, n)" "data \<noteq> []"
  defines "c \<equiv> unat (data ! 0) div 64" and "k \<equiv> odd (unat (data ! 0) div 32)"
  shows "\<exists>ys. data = ber_identifier c k n @ ys \<and> p = length (ber_identifier c k n) \<and> tag_ok isop c k n"
proof -
  obtain b rest where data: "data = b # rest" using assms(2) by (cases data) auto
  have c: "c < 4" unfolding c_def using unat_u8_less [of "data ! 0"] by (simp add: less_mult_imp_div_less)
  have lead: "b = of_nat (64 * c + (if k then 32 else 0) + unat b mod 32)"
  proof -
    have "b = of_nat (unat b)" by simp
    also have "unat b = 64 * c + (if k then 32 else 0) + unat b mod 32"
      using octet_recompose [of b] by (simp only: c_def k_def data nth_Cons_0)
    finally show ?thesis .
  qed
  have nf: "\<not> (isop \<and> b = 0xff)" and b0: "drop_bit 6 b = 0 \<Longrightarrow> n \<noteq> 0"
    using assms(1) by (auto simp: tlv_tag_read_def data Let_def split: if_splits sum.splits)
  have cls: "c \<noteq> 0 \<or> n \<noteq> 0"
    using b0 octet_class(1) [of b] by (metis c_def data nth_Cons_0 unat_eq_0)
  show ?thesis
  proof (cases "unat b mod 32 = 31")
    case False
    then have pn: "p = 1" "n = unat b mod 32"
      using assms(1) by (auto simp: tlv_tag_read_def data Let_def split: if_splits)
    then have n: "n < 31" using False mod_less_divisor [of 32 "unat b"] by linarith
    then have id: "ber_identifier c k n = [b]" using lead pn by (simp add: ber_identifier_def min_def)
    show ?thesis
      using n c cls nf pn id by (intro exI [of _ rest]) (simp add: data tag_ok_def)
  next
    case True
    then have loop: "tag_number_loop isop 1 0 rest = Inr (p, n)" "31 \<le> n"
      using assms(1) by (auto simp: tlv_tag_read_def data Let_def split: if_splits sum.splits)
    from tag_number_loop_sound [OF loop(1)] obtain xs ys
      where "rest = xs @ ys" "xs = number_octets n" "p = Suc (length (number_octets n))" "n < 2 ^ 32"
        "isop \<longrightarrow> length (number_octets n) \<le> 2" by auto
    moreover have "ber_identifier c k n = b # number_octets n"
      using loop(2) lead True by (simp add: ber_identifier_def min_def)
    ultimately show ?thesis
      using c cls nf by (intro exI [of _ ys]) (simp add: data tag_ok_def)
  qed
qed

section \<open>Lemmas: length octets\<close>

lemma length_octets_loop_eq:
  "len * 256 ^ length xs + be_val xs < 2 ^ 64 \<Longrightarrow>
   length_octets_loop len xs = Inr (len * 256 ^ length xs + be_val xs)"
proof (induction xs arbitrary: len)
  case Nil
  then show ?case by simp
next
  case (Cons b xs)
  let ?l = "len * 256 + unat b"
  have eq: "len * 256 ^ length (b # xs) + be_val (b # xs) = ?l * 256 ^ length xs + be_val xs"
    by (simp add: algebra_simps)
  have "?l \<le> ?l * 256 ^ length xs" by simp
  also have "\<dots> \<le> ?l * 256 ^ length xs + be_val xs" by (rule le_add1)
  also have "\<dots> < 2 ^ 64" using Cons.prems unfolding eq .
  finally have l: "?l < 2 ^ 64" .
  then have "len * 256 \<le> UINT64_MAX - unat b" by (simp add: UINT64_MAX_def)
  then have "\<not> len > (UINT64_MAX - unat b) div 256"
    by (simp add: less_eq_div_iff_mult_less_eq not_less)
  then show ?case using Cons.IH [of ?l] Cons.prems l unfolding eq by simp
qed

lemma length_octets_loop_be_val:
  assumes "length xs \<le> 8"
  shows "length_octets_loop 0 xs = Inr (be_val xs)"
proof -
  have "be_val xs < 256 ^ length xs" by (rule be_val_less)
  also have "\<dots> \<le> 256 ^ 8" using assms by (intro power_increasing) simp_all
  finally show ?thesis using length_octets_loop_eq [of 0 xs] by simp
qed

lemma long_form_octets_less: "n < 256 ^ k \<longleftrightarrow> long_form_octets n \<le> k"
proof (induction k arbitrary: n)
  case 0
  then show ?case by (simp add: long_form_octets.simps [of n])
next
  case (Suc k)
  show ?case
    using Suc [of "n div 256"]
    by (cases "n = 0") (simp_all add: long_form_octets.simps [of n] less_mult_imp_div_less div_less_iff_less_mult mult.commute)
qed

lemma long_form_octets_be_val:
  assumes "xs \<noteq> []" "hd xs \<noteq> 0"
  shows "long_form_octets (be_val xs) = length xs"
proof -
  obtain b ys where xs: "xs = b # ys" using assms(1) by (cases xs) auto
  have "1 \<le> unat b" using assms(2) xs by (simp add: Suc_leI unat_gt_0)
  then have "1 * 256 ^ length ys \<le> unat b * 256 ^ length ys" by (rule mult_le_mono1)
  also have "\<dots> \<le> be_val xs" by (simp add: xs)
  finally have "\<not> be_val xs < 256 ^ length ys" by simp
  then have "\<not> long_form_octets (be_val xs) \<le> length ys" using long_form_octets_less by blast
  moreover have "long_form_octets (be_val xs) \<le> length xs" using be_val_less [of xs] long_form_octets_less by blast
  ultimately show ?thesis using xs by simp
qed

text \<open>Every profile reads back the shortest length octets; ISO 7816 stops at four subsequent octets.\<close>

lemma tlv_length_read_complete:
  assumes "data = xs @ der_length n @ ys" "n < 2 ^ 64" "iso_profile profile \<longrightarrow> n < 2 ^ 32"
  shows "tlv_length_read ber profile 8 k data (length xs) = Inr (length xs + length (der_length n), n, 0)"
proof (cases "n < 128")
  case True
  then have d: "data = xs @ of_nat n # ys" using assms(1) by (simp add: der_length_def)
  let ?b = "of_nat n :: u8"
  have b: "unat ?b = n" using True by simp
  then have "?b \<noteq> 0xff" "?b \<noteq> 0x80" "?b AND 128 = 0" using True octet_high [of ?b] by auto
  then show ?thesis using True b by (simp add: tlv_length_read_def d nth_append Let_def der_length_def)
next
  case False
  let ?o = "long_form_octets n" let ?b = "of_nat (128 + ?o) :: u8"
  have o8: "?o \<le> 8" using long_form_octets_less [of n 8] assms(2) by simp
  have o1: "0 < ?o" using False by (simp add: long_form_octets.simps [of n])
  have o4: "iso_profile profile \<longrightarrow> \<not> 4 < ?o" using long_form_octets_less [of n 4] assms(3) by (simp add: not_less)
  have b: "unat ?b = 128 + ?o" using o8 by (intro unat_of_nat_u8) simp
  have "unat ?b \<noteq> unat (0xff :: u8)" "unat ?b \<noteq> unat (0x80 :: u8)" unfolding b using o8 o1 by simp_all
  then have bs: "?b \<noteq> 0xff" "?b \<noteq> 0x80" by metis+
  have bh: "?b AND 128 \<noteq> 0" unfolding octet_high b by simp
  have n127: "unat (?b AND 127) = ?o" unfolding octet_low b using o8 by simp
  have d: "data = xs @ ?b # be_bytes ?o n @ ys" using assms(1) False by (simp add: der_length_def)
  have v: "be_val (be_bytes ?o n) = n" using long_form_octets_less [of n ?o] by simp
  have lead: "data ! (length xs + 1) \<noteq> 0"
  proof
    assume "data ! (length xs + 1) = 0"
    moreover have "be_bytes ?o n \<noteq> []" using o1 length_be_bytes [of ?o n] by (metis length_0_conv less_numeral_extra(3))
    ultimately have "hd (be_bytes ?o n) = 0" using o1 by (simp add: d nth_append hd_conv_nth)
    then obtain zs where "be_bytes ?o n = 0 # zs" "length zs = ?o - 1"
      using o1 by (metis length_be_bytes length_tl list.exhaust_sel list.size(3) less_numeral_extra(3))
    then have "n < 256 ^ (?o - 1)" using v be_val_less [of zs] by simp
    then show False using long_form_octets_less [of n "?o - 1"] o1 by simp
  qed
  have loop: "length_octets_loop 0 (take ?o (drop (length xs + 1) data)) = Inr n"
    using length_octets_loop_be_val [of "be_bytes ?o n"] o8 v by (simp add: d)
  have at: "data ! length xs = ?b" "length xs \<noteq> length data" "\<not> ?o > length data - (length xs + 1)" by (simp_all add: d)
  show ?thesis
    unfolding tlv_length_read_def Let_def at(1) n127 loop
    using bs bh at(2,3) o8 o4 lead False by (simp add: der_length_def)
qed

text \<open>Under DER only the shortest length octets are accepted.\<close>

lemma tlv_length_read_der:
  assumes "tlv_length_read ber TC_TLV_DER 8 k data p = Inr (q, n, i)" "p < length data"
  shows "i = 0 \<and> n < 2 ^ 64 \<and> q = p + length (der_length n) \<and> (\<exists>ys. drop p data = der_length n @ ys)"
proof -
  let ?b = "data ! p"
  have dp: "drop p data = ?b # drop (p + 1) data" using assms(2) by (simp add: Cons_nth_drop_Suc)
  note r = assms(1) [unfolded tlv_length_read_def Let_def]
  have nb: "?b \<noteq> 0xff" "?b \<noteq> 0x80" using r assms(2) by (auto split: if_splits)
  show ?thesis
  proof (cases "?b AND 128 = 0")
    case True
    then have "q = p + 1" "n = unat ?b" "i = 0" "unat ?b < 128"
      using r nb assms(2) octet_high [of ?b] by simp_all
    then show ?thesis using dp by (simp add: der_length_def)
  next
    case False
    let ?n = "unat ?b mod 128" let ?xs = "take ?n (drop (p + 1) data)"
    have h: "128 \<le> unat ?b" using False octet_high [of ?b] by simp
    have g: "\<not> ?n > 8" "\<not> ?n > length data - (p + 1)" "data ! (p + 1) \<noteq> 0"
      using r nb False assms(2) by (auto simp: iso_profile_def split: if_splits)
    have lx: "length ?xs = ?n" using g(2) by simp
    have "?n \<noteq> 0"
    proof
      assume "?n = 0" with octet_split [OF h] nb(2) show False by simp
    qed
    then have ne: "?xs \<noteq> []" and hd: "hd ?xs \<noteq> 0"
      using lx g(2,3) by (auto simp: hd_conv_nth)
    have loop: "length_octets_loop 0 ?xs = Inr (be_val ?xs)"
      using length_octets_loop_be_val [of ?xs] lx g(1) by simp
    have res: "q = p + 1 + ?n" "n = be_val ?xs" "i = 0" "128 \<le> n"
      using r nb False assms(2) g loop by (auto simp: iso_profile_def split: if_splits)
    have o: "long_form_octets n = ?n" using long_form_octets_be_val [OF ne hd] lx res(2) by simp
    have "n < 2 ^ 64" using be_val_less [of ?xs] long_form_octets_less [of n 8] o g(1) by simp
    moreover have "der_length n = ?b # ?xs"
      using res(4) octet_split [OF h] lx unfolding der_length_def o by (simp add: res(2))
    ultimately show ?thesis using res lx dp by (metis add.assoc append_Cons append_take_drop_id
          length_Cons plus_1_eq_Suc)
  qed
qed

text \<open>In every profile the length octets lie inside the input and are at most nine.\<close>

lemma tlv_length_read_bounds:
  assumes "tlv_length_read ber profile m k data p = Inr (q, n, i)" "p \<le> length data" "m \<le> 8"
  shows "p < q \<and> q \<le> length data \<and> q \<le> p + 1 + m \<and> n < 2 ^ 64 \<and>
    (i \<noteq> 0 \<longrightarrow> i = 1 \<and> n = 0 \<and> ber \<and> profile = TC_TLV_BER \<and> k \<noteq> 0)"
proof -
  let ?b = "data ! p"
  note r = assms(1) [unfolded tlv_length_read_def Let_def]
  have p: "p < length data" using r assms(2) by (auto split: if_splits)
  consider (indef) "?b = 0x80" | (short) "?b \<noteq> 0x80" "?b AND 128 = 0" | (long) "?b \<noteq> 0x80" "?b AND 128 \<noteq> 0" by blast
  then show ?thesis
  proof cases
    case indef
    then show ?thesis using r p by (auto split: if_splits)
  next
    case short
    moreover have "unat ?b < 18446744073709551616" using unat_u8_less [of ?b] by linarith
    ultimately show ?thesis using r p by (auto split: if_splits)
  next
    case long
    let ?n = "unat ?b mod 128" let ?xs = "take ?n (drop (p + 1) data)"
    have g: "\<not> ?n > m" "\<not> ?n > length data - (p + 1)" using r p long by (auto split: if_splits)
    have lx: "length ?xs = ?n" using g(2) by simp
    have loop: "length_octets_loop 0 ?xs = Inr (be_val ?xs)"
      using length_octets_loop_be_val [of ?xs] lx g(1) assms(3) by simp
    have res: "q = p + 1 + ?n" "n = be_val ?xs" "i = 0"
      using r p long g loop by (auto split: if_splits)
    have "be_val ?xs < 256 ^ ?n" using be_val_less [of ?xs] lx by simp
    also have "\<dots> \<le> 256 ^ 8" using g(1) assms(3) by (intro power_increasing) simp_all
    finally show ?thesis using res p g by simp
  qed
qed

section \<open>Lemmas: headers\<close>

text \<open>A header that was accepted, and the input it was read from.\<close>

definition header_of :: "TC_TLV_profile \<Rightarrow> u8 list \<Rightarrow> TC_TLV_header \<Rightarrow> bool" where
  "header_of profile data h \<longleftrightarrow>
     (let c = unat (th_tag_class h); k = th_constructed h = 1
      in tag_ok (iso_profile profile) c k (th_number h) \<and> th_constructed h \<in> {0, 1} \<and>
         (\<exists>ys. data = ber_identifier c k (th_number h) @ ys) \<and>
         th_tag_length h = length (ber_identifier c k (th_number h)) \<and>
         th_tag h = ber_identifier c k (th_number h) @ replicate (6 - th_tag_length h) 0)"

lemma header_parse_facts:
  assumes "tc_tlv_header_parse ber at mem len profile maxv = Inr h" "len \<le> length mem"
  obtains "header_of profile (take len mem) h"
    "tlv_length_read ber profile 8 (th_constructed h) (take len mem) (th_tag_length h) =
       Inr (th_header_length h, th_length h, th_indefinite h)"
    "th_length h \<le> maxv" "th_tag_length h < th_header_length h" "th_header_length h \<le> len"
    "th_header_length h \<le> th_tag_length h + 9" "0 < th_tag_length h" "th_length h < 2 ^ 64" "len \<noteq> 0"
proof -
  let ?d = "take len mem" let ?b = "?d ! 0" let ?k = "drop_bit 5 ?b AND 1"
  note a = assms(1) [unfolded tc_tlv_header_parse_def tc_tlv_header_read_def sizeof_size_t_def Let_def]
  have len: "len \<noteq> 0" using a by (auto split: if_splits)
  obtain p n where tag: "tlv_tag_read (iso_profile profile) ?d = Inr (p, n)"
    using a by (auto split: if_splits sum.splits)
  obtain q l i where lr: "tlv_length_read ber profile 8 ?k ?d p = Inr (q, l, i)"
    using a tag by (auto split: if_splits sum.splits)
  have ne: "?d \<noteq> []" using len assms(2) by auto
  from tlv_tag_read_sound [OF tag ne] obtain ys
    where t: "?d = ber_identifier (unat ?b div 64) (odd (unat ?b div 32)) n @ ys"
      "p = length (ber_identifier (unat ?b div 64) (odd (unat ?b div 32)) n)"
      "tag_ok (iso_profile profile) (unat ?b div 64) (odd (unat ?b div 32)) n" by blast
  have p: "p \<le> length ?d" "0 < p" using t(1,2) by (metis append_eq_conv_conj le_add1 length_append)
      (simp add: t(2) ber_identifier_def)
  note b = tlv_length_read_bounds [OF lr p(1)]
  have h: "h = \<lparr>th_number = n, th_length = l, th_tag = take p ?d @ replicate (6 - p) 0, th_tag_length = p,
      th_header_length = q, th_tag_class = drop_bit 6 ?b, th_constructed = ?k, th_indefinite = i\<rparr>" and l: "l \<le> maxv"
    using a tag lr b by (auto simp: TC_TLV_TAG_BYTES_def split: if_splits)
  have k1: "?k = 1 \<longleftrightarrow> odd (unat ?b div 32)" "?k \<in> {0, 1}"
    by (auto simp: octet_constructed)
  show thesis
  proof (rule that)
    have "take p ?d = ber_identifier (unat ?b div 64) (odd (unat ?b div 32)) n"
      using t(1,2) by (metis append_eq_conv_conj)
    then show "header_of profile ?d h"
      unfolding header_of_def h Let_def TC_TLV_header.simps octet_class k1(1)
      using t k1(2) by (intro conjI exI [of _ ys]) (simp_all only:)
  qed (use lr b l p len assms(2) in \<open>simp_all add: h\<close>)
qed

lemma length_number_octets: "n < 2 ^ 32 \<Longrightarrow> length (number_octets n) \<le> 5"
proof -
  assume "n < 2 ^ 32"
  then have "n div 128 < 128 ^ 4" by (simp add: less_mult_imp_div_less)
  then show ?thesis using length_more_octets_less [of "n div 128" 4] by (simp add: number_octets_def)
qed

lemma length_ber_identifier: "n < 2 ^ 32 \<Longrightarrow> length (ber_identifier c k n) \<le> 6"
  using length_number_octets [of n] by (simp add: ber_identifier_def)

lemma ber_identifier_nth_0:
  assumes "c < 4"
  shows "drop_bit 6 (ber_identifier c k n ! 0) = of_nat c" "drop_bit 5 (ber_identifier c k n ! 0) AND 1 = (if k then 1 else 0)"
proof -
  let ?b = "ber_identifier c k n ! 0" let ?x = "64 * c + (if k then 32 else 0) + min n 31"
  have b: "unat ?b = ?x"
    using ber_identifier_lead [OF assms, of k n] by (simp add: hd_conv_nth ber_identifier_def)
  note a = octet_arith [OF assms, of "min n 31" k]
  have "unat (drop_bit 6 ?b) = unat (of_nat c :: u8)" using a(1) assms by (simp add: b)
  then show "drop_bit 6 ?b = of_nat c" by (simp only: unat_eq_iff_u8)
  have "odd (?x div 32) \<longleftrightarrow> k" using a(2) by (simp add: odd_iff_mod_2_eq_one split: if_splits)
  then show "drop_bit 5 ?b AND 1 = (if k then 1 else 0)" unfolding octet_constructed b by simp
qed

text \<open>The header the encoding rules give for a tag and a length is read back by every profile.\<close>

lemma header_parse_complete:
  assumes mem: "take len mem = ber_identifier c k n @ der_length l @ ys" and tag: "tag_ok (iso_profile profile) c k n"
    and l: "l < 2 ^ 64" "l \<le> maxv" "iso_profile profile \<longrightarrow> l < 2 ^ 32" and at: "at \<noteq> NULL"
  shows "tc_tlv_header_parse ber at mem len profile maxv =
    Inr \<lparr>th_number = n, th_length = l,
         th_tag = ber_identifier c k n @ replicate (6 - length (ber_identifier c k n)) 0,
         th_tag_length = length (ber_identifier c k n),
         th_header_length = length (ber_identifier c k n @ der_length l), th_tag_class = of_nat c,
         th_constructed = (if k then 1 else 0), th_indefinite = 0\<rparr>"
proof -
  let ?id = "ber_identifier c k n"
  have "length (take len mem) \<noteq> 0" unfolding mem by (simp add: ber_identifier_def)
  then have len: "len \<noteq> 0" by auto
  have c: "c < 4" using tag by (simp add: tag_ok_def)
  have b: "(?id @ der_length l @ ys) ! 0 = ?id ! 0" by (simp add: ber_identifier_def)
  note t = tlv_tag_read_complete [OF tag, of "der_length l @ ys"]
  note r = tlv_length_read_complete [OF refl l(1,3), of ber "if k then 1 else 0" ?id ys]
  show ?thesis
    unfolding tc_tlv_header_parse_def tc_tlv_header_read_def sizeof_size_t_def Let_def mem t b
      ber_identifier_nth_0 [OF c] sum.case prod.case r
    using len at l by (simp add: LOCAL_def TC_TLV_TAG_BYTES_def)
qed

section \<open>Lemmas: the writer\<close>

lemma be_bytes_rev_map:
  "map (\<lambda>i. of_nat (v div 2 ^ (8 * (i - 1)))) (rev [1..<w + 1]) = be_bytes w v"
proof (rule nth_equalityI)
  fix i assume "i < length (map (\<lambda>i. of_nat (v div 2 ^ (8 * (i - 1)))) (rev [1..<w + 1]) :: u8 list)"
  then have i: "i < w" by (simp del: upt_Suc)
  have "(2 :: nat) ^ (8 * (w - Suc i)) = 256 ^ (w - Suc i)" by (simp add: power_mult)
  then show "map (\<lambda>i. of_nat (v div 2 ^ (8 * (i - 1)))) (rev [1..<w + 1]) ! i = be_bytes w v ! i"
    using i by (simp add: be_bytes_def rev_nth del: upt_Suc)
qed (simp del: upt_Suc)

lemma octet_or_128: "n < 128 \<Longrightarrow> (0x80 :: u8) OR of_nat n = of_nat (128 + n)"
proof -
  assume n: "n < 128"
  have "(0x80 :: u8) AND of_nat n = 0"
    using octet_high [of "of_nat n"] n by (simp add: and.commute)
  then have "0x80 OR of_nat n = (0x80 + of_nat n :: u8)"
    by (simp add: disjunctive_add_eq_or)
  then show ?thesis by simp
qed

lemma header_size_eq:
  "tc_tlv_header_size t n = (if 0 < t \<and> t \<le> 6 \<and> n < 2 ^ 24 then t + length (der_length n) else 0)"
  using long_form_octets_less [of n 3]
  by (auto simp: tc_tlv_header_size_def TC_TLV_TAG_BYTES_def SHORT_FORM_MAX_def MAX_LENGTH_OCTETS_def der_length_def Let_def)

lemma header_write_eq:
  assumes "tc_tlv_header_size (length tag) n \<noteq> 0" "tc_tlv_header_size (length tag) n \<le> length out"
  shows "tc_tlv_header_write out tag (length tag) n =
    ((tag @ der_length n) @ drop (tc_tlv_header_size (length tag) n) out, tc_tlv_header_size (length tag) n)"
proof -
  have n: "n < 2 ^ 24" and t: "0 < length tag" "length tag \<le> 6" using assms(1) by (auto simp: header_size_eq split: if_splits)
  have o: "long_form_octets n < 128" using long_form_octets_less [of n 3] n by simp
  have "(if n \<le> SHORT_FORM_MAX then [of_nat n]
      else (0x80 OR of_nat (long_form_octets n)) #
        map (\<lambda>i. of_nat (n div 2 ^ (8 * (i - 1)))) (rev [1..<long_form_octets n + 1])) = der_length n"
    unfolding be_bytes_rev_map octet_or_128 [OF o] by (auto simp: der_length_def SHORT_FORM_MAX_def)
  then show ?thesis
    using n t unfolding tc_tlv_header_write_def Let_def by (simp add: header_size_eq memcpy_at_def)
qed

section \<open>Lemmas: objects and sibling readers\<close>

text \<open>An object of one level: class, constructed bit, number and value, and its shortest encoding.\<close>

type_synonym tlv_item = "nat \<times> bool \<times> nat \<times> u8 list"

definition item_bytes :: "tlv_item \<Rightarrow> u8 list" where
  "item_bytes = (\<lambda>(c, k, n, v). ber_identifier c k n @ der_length (length v) @ v)"

definition item_ok :: "TC_TLV_profile \<Rightarrow> TC_TLV_limits \<Rightarrow> tlv_item \<Rightarrow> bool" where
  "item_ok profile lim = (\<lambda>(c, k, n, v). tag_ok (iso_profile profile) c k n \<and> length v < 2 ^ 64 \<and>
     length v \<le> tl_max_value lim \<and> (iso_profile profile \<longrightarrow> length v < 2 ^ 32))"

definition is_item :: "tlv_item \<Rightarrow> TC_TLV_element \<Rightarrow> bool" where
  "is_item = (\<lambda>(c, k, n, v) e. unat (th_tag_class (te_header e)) = c \<and> (th_constructed (te_header e) = 1) = k \<and>
     th_number (te_header e) = n \<and> b_mem (te_value e) = v \<and> b_length (te_value e) = length v)"

lemma read_complete:
  assumes "take (b_length input) (b_mem input) = item_bytes it @ ys" "item_ok profile lim it"
    "tc_tlv_config ber profile (Some lim) = TC_TLV_OK" "b_data input \<noteq> NULL" "out \<noteq> NULL"
    "b_length input \<le> tl_max_input lim" "b_length input = length (b_mem input)"
  shows "\<exists>e. TC_TLV_read ber input profile (Some lim) out = Inr e \<and> is_item it e \<and>
    te_encoded e = span_from input 0 (length (item_bytes it))"
proof -
  obtain c k n v where it: "it = (c, k, n, v)" by (metis surj_pair)
  let ?id = "ber_identifier c k n" and ?dl = "der_length (length v)"
  have mem: "b_mem input = ?id @ ?dl @ v @ ys" using assms(1,7) by (simp add: it item_bytes_def)
  have ok: "tag_ok (iso_profile profile) c k n" "length v < 2 ^ 64" "length v \<le> tl_max_value lim"
    "iso_profile profile \<longrightarrow> length v < 2 ^ 32" using assms(2) by (simp_all add: it item_ok_def)
  have "take (b_length input) (b_mem input) = ?id @ ?dl @ (v @ ys)" using mem assms(7) by simp
  note p = header_parse_complete [OF this ok assms(4), of ber]
  have c: "c < 4" using ok(1) by (simp add: tag_ok_def)
  then have uc: "unat (of_nat c :: u8) = c" by simp
  show ?thesis
    using assms(3-7) p uc
    by (simp add: TC_TLV_read_def TC_TLV_header_read_def LOCAL_def Let_def mem it is_item_def span_from_def item_bytes_def)
qed

lemma read_facts:
  assumes "TC_TLV_read ber input profile (Some lim) out = Inr e" "b_length input = length (b_mem input)"
  defines "h \<equiv> te_header e"
  shows "tc_tlv_header_parse ber (b_data input) (b_mem input) (b_length input) profile (tl_max_value lim) = Inr h"
    "th_indefinite h = 0" "th_header_length h + th_length h \<le> b_length input" "0 < th_header_length h"
    "te_encoded e = span_from input 0 (th_header_length h + th_length h)"
    "te_value e = span_from input (th_header_length h) (th_length h)" "th_length h \<le> tl_max_value lim"
proof -
  show h: "tc_tlv_header_parse ber (b_data input) (b_mem input) (b_length input) profile (tl_max_value lim) = Inr h"
    and r: "th_indefinite h = 0" "te_encoded e = span_from input 0 (th_header_length h + th_length h)"
      "te_value e = span_from input (th_header_length h) (th_length h)"
    using assms(1) unfolding h_def
    by (auto simp: TC_TLV_read_def TC_TLV_header_read_def Let_def split: if_splits sum.splits)
  have "\<not> th_length h > b_length input - th_header_length h"
    using assms(1) unfolding h_def
    by (auto simp: TC_TLV_read_def TC_TLV_header_read_def Let_def split: if_splits sum.splits)
  moreover have "th_header_length h \<le> b_length input" "0 < th_header_length h" "th_length h \<le> tl_max_value lim"
    using assms(2) by (auto intro: header_parse_facts [OF h])
  ultimately show "th_header_length h + th_length h \<le> b_length input" "0 < th_header_length h" "th_length h \<le> tl_max_value lim"
    by simp_all
qed

text \<open>The state a reader keeps: an offset inside an input that fits the limits.\<close>

definition reader_ok :: "bool \<Rightarrow> TC_TLV_reader obj \<Rightarrow> bool" where
  "reader_ok ber reader \<longleftrightarrow>
     o_addr reader \<noteq> NULL \<and> tr_offset (o_val reader) \<le> b_length (tr_input (o_val reader)) \<and>
     b_length (tr_input (o_val reader)) = length (b_mem (tr_input (o_val reader))) \<and>
     (b_data (tr_input (o_val reader)) = NULL \<longrightarrow> b_length (tr_input (o_val reader)) = 0) \<and>
     b_length (tr_input (o_val reader)) \<le> tl_max_input (tr_limits (o_val reader)) \<and>
     tr_elements (o_val reader) \<le> tl_max_elements (tr_limits (o_val reader)) \<and>
     tc_tlv_config ber (tr_profile (o_val reader)) (Some (tr_limits (o_val reader))) = TC_TLV_OK"

definition reader_rest :: "TC_TLV_reader obj \<Rightarrow> u8 list" where
  "reader_rest reader = drop (tr_offset (o_val reader)) (b_mem (tr_input (o_val reader)))"

lemma padding_loop_bound: "padding_loop profile xs \<le> length xs"
  by (induction xs) auto

lemma padding_loop_take: "list_all (tc_tlv_padding profile) (take (padding_loop profile xs) xs)"
  by (induction xs) auto

text \<open>A step of a reader: the skipped padding, the element read and what is left.\<close>

lemma next_step:
  assumes "reader_ok ber reader" "TC_TLV_next ber reader out = (Inr e, reader')"
  shows "reader_ok ber reader' \<and> tr_input (o_val reader') = tr_input (o_val reader) \<and>
    tr_offset (o_val reader) < tr_offset (o_val reader') \<and>
    tr_elements (o_val reader') = Suc (tr_elements (o_val reader)) \<and>
    b_data (te_encoded e) + b_length (te_encoded e) = b_data (tr_input (o_val reader)) + tr_offset (o_val reader') \<and>
    (\<exists>pad. list_all (tc_tlv_padding (tr_profile (o_val reader))) pad \<and> (tr_root (o_val reader) = 0 \<longrightarrow> pad = []) \<and>
       reader_rest reader = pad @ b_mem (te_encoded e) @ reader_rest reader')"
proof -
  define r where "r = o_val reader"
  let ?input = "tr_input r" let ?xs = "drop (tr_offset r) (b_mem ?input)"
  define n where "n = (if tr_root r \<noteq> 0 then padding_loop (tr_profile r) ?xs else 0)"
  let ?p = "tr_offset r + n" let ?span = "span_from ?input ?p (b_length ?input - ?p)"
  have ok: "tr_offset r \<le> b_length ?input" "b_length ?input = length (b_mem ?input)"
    using assms(1) by (simp_all add: reader_ok_def r_def)
  have n: "n \<le> length ?xs" using padding_loop_bound [of "tr_profile r" ?xs] by (simp add: n_def)
  have pad: "list_all (tc_tlv_padding (tr_profile r)) (take n ?xs)" "tr_root r = 0 \<longrightarrow> n = 0"
    using padding_loop_take [of "tr_profile r" ?xs] by (simp_all add: n_def)
  have p: "?p \<le> b_length ?input" using n ok by simp
  have rd: "TC_TLV_read ber ?span (tr_profile r) (Some (tr_limits r)) LOCAL = Inr e"
    and r': "reader' = reader\<lparr>o_val := r\<lparr>tr_offset := ?p + b_length (te_encoded e), tr_elements := tr_elements r + 1\<rparr>\<rparr>"
    and el: "tr_elements r < tl_max_elements (tr_limits r)"
    using assms(2) unfolding TC_TLV_next_def Let_def r_def [symmetric]
    by (auto simp: ok(2) n_def split: if_splits sum.splits)
  have span: "b_length ?span = length (b_mem ?span)" using p ok by (simp add: span_from_def)
  define h where "h = te_header e"
  note h = read_facts(3-5) [OF rd span, folded h_def]
  let ?m = "th_header_length h + th_length h"
  have m: "?p + ?m \<le> b_length ?input" using h(1) p by (simp add: span_from_def)
  have enc: "b_length (te_encoded e) = ?m" "b_mem (te_encoded e) = take ?m (drop ?p (b_mem ?input))"
    "b_data (te_encoded e) = b_data ?input + ?p"
    using h(1,3) p ok by (auto simp: span_from_def min_def)
  have "reader_rest reader = take n ?xs @ b_mem (te_encoded e) @ reader_rest reader'"
  proof -
    have "reader_rest reader' = drop ?m (drop n ?xs)" "b_mem (te_encoded e) = take ?m (drop n ?xs)"
      using enc by (simp_all add: reader_rest_def r' add.commute add.left_commute)
    then have "b_mem (te_encoded e) @ reader_rest reader' = drop n ?xs" by (simp only: append_take_drop_id)
    then show ?thesis by (simp only: append_take_drop_id reader_rest_def r_def)
  qed
  then show ?thesis
    using assms(1) m enc h(2) pad el by (auto simp: reader_ok_def r' r_def [symmetric])
qed

text \<open>The results a header can fail with. Only a reader reports the end of its siblings.\<close>

lemma tag_number_loop_results: "tag_number_loop isop p m xs = Inl r \<Longrightarrow> r \<in> {TC_TLV_MORE, TC_TLV_INVALID, TC_TLV_LIMIT}"
  by (induction isop p m xs rule: tag_number_loop.induct) (auto simp: Let_def split: if_splits)

lemma length_octets_loop_results: "length_octets_loop l xs = Inl r \<Longrightarrow> r = TC_TLV_LIMIT"
  by (induction l xs rule: length_octets_loop.induct) (auto split: if_splits)

lemma header_parse_results:
  assumes "tc_tlv_header_parse ber at mem len profile maxv = Inl r"
  shows "r \<in> {TC_TLV_ARGUMENT, TC_TLV_MORE, TC_TLV_INVALID, TC_TLV_LIMIT} \<and> (at \<noteq> NULL \<longrightarrow> r \<noteq> TC_TLV_ARGUMENT)"
proof -
  have "tlv_tag_read isop data = Inl r \<Longrightarrow> r \<in> {TC_TLV_MORE, TC_TLV_INVALID, TC_TLV_LIMIT}" for isop data
    using tag_number_loop_results [of isop 1 0 "drop 1 data" r]
    by (auto simp: tlv_tag_read_def Let_def split: if_splits sum.splits)
  moreover have "tlv_length_read ber profile m k data p = Inl r \<Longrightarrow> r \<in> {TC_TLV_MORE, TC_TLV_INVALID, TC_TLV_LIMIT}" for m k data p
    using length_octets_loop_results
    by (auto simp: tlv_length_read_def Let_def split: if_splits sum.splits)
  ultimately show ?thesis
    using assms
    by (auto simp: tc_tlv_header_parse_def tc_tlv_header_read_def sizeof_size_t_def LOCAL_def Let_def split: if_splits sum.splits)
qed

lemma read_not_end: "TC_TLV_read ber input profile limits out \<noteq> Inl TC_TLV_END"
  using header_parse_results [of ber _ _ _ profile _ TC_TLV_END]
  by (auto simp: TC_TLV_read_def TC_TLV_header_read_def tc_tlv_config_def Let_def split: if_splits sum.splits)

text \<open>The end of a run: what is left is padding, and the reader is moved past it.\<close>

lemma next_end:
  assumes "reader_ok ber reader" "TC_TLV_next ber reader out = (Inl TC_TLV_END, reader')"
  shows "reader_rest reader' = [] \<and> list_all (tc_tlv_padding (tr_profile (o_val reader))) (reader_rest reader) \<and>
    (tr_root (o_val reader) = 0 \<longrightarrow> reader_rest reader = [])"
proof -
  let ?r = "o_val reader" let ?input = "tr_input ?r"
  define n where "n = (if tr_root ?r \<noteq> 0 then padding_loop (tr_profile ?r) (reader_rest reader) else 0)"
  have ok: "b_length ?input = length (b_mem ?input)" "tr_offset ?r \<le> b_length ?input"
    using assms(1) by (simp_all add: reader_ok_def)
  have p: "tr_offset ?r + n = b_length ?input" and r': "reader' = reader\<lparr>o_val := ?r\<lparr>tr_offset := tr_offset ?r + n\<rparr>\<rparr>"
    using assms(2) read_not_end unfolding TC_TLV_next_def Let_def n_def reader_rest_def
    by (auto simp: ok split: if_splits sum.splits)
  have "length (reader_rest reader) = n" using p ok by (simp add: reader_rest_def)
  then show ?thesis
    using padding_loop_take [of "tr_profile ?r" "reader_rest reader"] p ok r'
    by (auto simp: reader_rest_def n_def split: if_splits)
qed

text \<open>A run of a reader to its end, with the elements it returned.\<close>

inductive reader_run :: "bool \<Rightarrow> addr \<Rightarrow> TC_TLV_reader obj \<Rightarrow> TC_TLV_element list \<Rightarrow> TC_TLV_reader obj \<Rightarrow> bool"
  for ber out where
  run_end: "TC_TLV_next ber reader out = (Inl TC_TLV_END, reader') \<Longrightarrow> reader_run ber out reader [] reader'"
| run_next: "TC_TLV_next ber reader out = (Inr e, reader') \<Longrightarrow> reader_run ber out reader' es reader'' \<Longrightarrow>
    reader_run ber out reader (e # es) reader''"

lemma item_head:
  assumes "item_ok profile lim it"
  shows "\<exists>b xs. item_bytes it = b # xs \<and> \<not> tc_tlv_padding profile b"
proof -
  obtain c k n v where it: "it = (c, k, n, v)" by (metis surj_pair)
  have tag: "tag_ok (iso_profile profile) c k n" using assms by (simp add: it item_ok_def)
  have "unat (ber_identifier c k n ! 0) = 64 * c + (if k then 32 else 0) + min n 31"
    using ber_identifier_lead [of c k n] tag by (simp add: hd_conv_nth ber_identifier_def tag_ok_def)
  moreover have "c \<noteq> 0 \<or> n \<noteq> 0" using tag by (simp add: tag_ok_def)
  ultimately have "unat (ber_identifier c k n ! 0) \<noteq> 0" by (simp add: min_def)
  then have "ber_identifier c k n ! 0 \<noteq> 0" by (simp add: unat_eq_0)
  moreover have "profile = TC_TLV_ISO7816_PAD_ZERO_FF \<Longrightarrow> ber_identifier c k n ! 0 \<noteq> 0xff"
    using tag by (simp add: tag_ok_def iso_profile_def)
  ultimately have "\<not> tc_tlv_padding profile (ber_identifier c k n ! 0)" by (auto simp: tc_tlv_padding_def)
  then show ?thesis by (simp add: it item_bytes_def ber_identifier_def)
qed

lemma next_complete:
  assumes "reader_ok ber reader" "reader_rest reader = item_bytes it @ ys" "out \<noteq> NULL"
    "item_ok (tr_profile (o_val reader)) (tr_limits (o_val reader)) it"
    "tr_elements (o_val reader) < tl_max_elements (tr_limits (o_val reader))"
  shows "\<exists>e reader'. TC_TLV_next ber reader out = (Inr e, reader') \<and> is_item it e \<and> reader_rest reader' = ys \<and>
    tr_profile (o_val reader') = tr_profile (o_val reader) \<and> tr_limits (o_val reader') = tr_limits (o_val reader) \<and>
    tr_elements (o_val reader') = Suc (tr_elements (o_val reader))"
proof -
  let ?r = "o_val reader" let ?input = "tr_input ?r" let ?p = "tr_offset ?r"
  let ?span = "span_from ?input ?p (b_length ?input - ?p)"
  obtain b xs where head: "item_bytes it = b # xs" "\<not> tc_tlv_padding (tr_profile ?r) b" using item_head [OF assms(4)] by blast
  have ok: "b_length ?input = length (b_mem ?input)" "?p \<le> b_length ?input" "o_addr reader \<noteq> NULL"
    "b_data ?input = NULL \<longrightarrow> b_length ?input = 0" "b_length ?input \<le> tl_max_input (tr_limits ?r)"
    "tc_tlv_config ber (tr_profile ?r) (Some (tr_limits ?r)) = TC_TLV_OK"
    using assms(1) unfolding reader_ok_def by blast+
  have lt: "?p \<noteq> b_length ?input" using assms(2) head ok by (auto simp: reader_rest_def)
  then have nn: "b_data ?input \<noteq> NULL" using ok by auto
  have pad: "padding_loop (tr_profile ?r) (drop ?p (b_mem ?input)) = 0"
    using assms(2) head by (simp add: reader_rest_def)
  have "b_mem ?span = drop ?p (b_mem ?input)" "b_length ?span = length (b_mem ?span)"
    using ok(1,2) by (simp_all add: span_from_def)
  then have sp: "b_mem ?span = item_bytes it @ ys" "b_length ?span = length (b_mem ?span)"
    using assms(2) by (simp_all only: reader_rest_def)
  have sp': "take (b_length ?span) (b_mem ?span) = item_bytes it @ ys" using sp by (simp only: take_all_iff order.refl)
  have span_nn: "b_data ?span \<noteq> NULL" and span_in: "b_length ?span \<le> tl_max_input (tr_limits ?r)"
    using nn ok(5) by (simp_all add: span_from_def)
  obtain e where e: "TC_TLV_read ber ?span (tr_profile ?r) (Some (tr_limits ?r)) LOCAL = Inr e" "is_item it e"
    "te_encoded e = span_from ?span 0 (length (item_bytes it))"
    using read_complete [OF sp' assms(4) ok(6) span_nn _ span_in sp(2), of LOCAL] unfolding LOCAL_def by blast
  have len: "b_length (te_encoded e) = length (item_bytes it)" by (simp add: e(3) span_from_def)
  have "TC_TLV_next ber reader out = (Inr e, reader\<lparr>o_val := ?r\<lparr>tr_offset := ?p + length (item_bytes it), tr_elements := Suc (tr_elements ?r)\<rparr>\<rparr>)"
    using ok assms(3,5) lt nn pad e(1) len by (simp add: TC_TLV_next_def Let_def)
  moreover have "drop (?p + length (item_bytes it)) (b_mem ?input) = ys"
    using assms(2) by (metis add.commute append_eq_conv_conj drop_drop reader_rest_def)
  ultimately show ?thesis using e(2) by (auto simp: reader_rest_def)
qed

text \<open>A run reads back a sequence of items, and the encodings a run returns tile the input.\<close>

lemma run_complete:
  assumes "reader_ok ber reader" "reader_rest reader = concat (map item_bytes its)" "out \<noteq> NULL"
    "list_all (item_ok (tr_profile (o_val reader)) (tr_limits (o_val reader))) its"
    "tr_elements (o_val reader) + length its \<le> tl_max_elements (tr_limits (o_val reader))"
  shows "\<exists>es reader'. reader_run ber out reader es reader' \<and> list_all2 is_item its es \<and> reader_rest reader' = []"
  using assms
proof (induction its arbitrary: reader)
  case Nil
  have ok: "tr_offset (o_val reader) = b_length (tr_input (o_val reader))" "o_addr reader \<noteq> NULL"
    "\<not> (b_data (tr_input (o_val reader)) = NULL \<and> b_length (tr_input (o_val reader)) \<noteq> 0)"
    using Nil.prems(1,2) by (auto simp: reader_ok_def reader_rest_def)
  then have "TC_TLV_next ber reader out = (Inl TC_TLV_END, reader)"
    using Nil.prems(1-3) by (simp add: TC_TLV_next_def Let_def reader_ok_def)
  then show ?case using Nil.prems(2) by (auto intro: run_end)
next
  case (Cons it its)
  from next_complete [OF Cons.prems(1), of it "concat (map item_bytes its)" out] Cons.prems
  obtain e r' where e: "TC_TLV_next ber reader out = (Inr e, r')" "is_item it e"
    and r': "reader_rest r' = concat (map item_bytes its)" "tr_profile (o_val r') = tr_profile (o_val reader)"
      "tr_limits (o_val r') = tr_limits (o_val reader)" "tr_elements (o_val r') = Suc (tr_elements (o_val reader))"
    by auto
  have "reader_ok ber r'" using next_step [OF Cons.prems(1) e(1)] by blast
  from Cons.IH [OF this r'(1) Cons.prems(3)] Cons.prems(4,5) r' obtain es r''
    where "reader_run ber out r' es r''" "list_all2 is_item its es" "reader_rest r'' = []" by auto
  with e show ?case by (auto intro: run_next)
qed

lemma run_tiles:
  assumes "reader_run ber out reader es reader'" "reader_ok ber reader"
    "\<And>b. \<not> tc_tlv_padding (tr_profile (o_val reader)) b"
  shows "reader_rest reader = concat (map (\<lambda>e. b_mem (te_encoded e)) es) \<and> reader_rest reader' = []"
  using assms
proof induction
  case (run_end reader reader')
  then show ?case using next_end [OF run_end(2,1)] by (cases "reader_rest reader") auto
next
  case (run_next reader e r' es r'')
  note s = next_step [OF run_next(4,1)]
  have "tr_profile (o_val r') = tr_profile (o_val reader)"
    using run_next(1) by (auto simp: TC_TLV_next_def Let_def split: if_splits sum.splits)
  with run_next(3) s run_next(5) have "reader_rest r' = concat (map (\<lambda>e. b_mem (te_encoded e)) es)" "reader_rest r'' = []"
    by auto
  moreover have "reader_rest reader = b_mem (te_encoded e) @ reader_rest r'"
    using s run_next(5) by (metis append_Nil list.pred_inject(2) list.exhaust)
  ultimately show ?case by simp
qed

lemma run_keeps:
  "reader_run ber out reader es reader' \<Longrightarrow> reader_ok ber reader \<Longrightarrow>
   reader_ok ber reader' \<and> tr_input (o_val reader') = tr_input (o_val reader)"
proof (induction rule: reader_run.induct)
  case (run_end reader reader')
  have "reader' = reader\<lparr>o_val := (o_val reader)\<lparr>tr_offset := b_length (tr_input (o_val reader))\<rparr>\<rparr>"
    using run_end(1) read_not_end by (auto simp: TC_TLV_next_def Let_def split: if_splits sum.splits)
  then show ?case using run_end(2) by (auto simp: reader_ok_def)
next
  case (run_next reader e r' es r'')
  then show ?case using next_step [OF run_next(4,1)] by auto
qed

end
