(* ===== verification/TLV_Walk.thy ===== *)
theory TLV_Walk
  imports TLV
begin

text \<open>
  The incremental decoder of \<^verbatim>\<open>src/src/tlv_walk.c\<close>: a stream that is fed chunks of a message, keeps the bytes of
  an unfinished header and a stack of open constructed objects in caller storage, and reports events;
  the whole-message walk and the reader of one complete object are built on it.

  The stream works on a \<^verbatim>\<open>TC_bytes\<close> chunk. The callback only observes, so an operation returns the list of
  events it delivered, in order (none when \<^verbatim>\<open>visit\<close> is \<^verbatim>\<open>NULL\<close>). \<open>header_at\<close> is the address of the stream's header
  accumulator. The frame storage of the caller is the list \<open>ts_frames\<close>, indexed as in the source.
\<close>

section \<open>Types (tlv.h)\<close>

datatype TC_TLV_event_kind = TC_TLV_BEGIN | TC_TLV_VALUE | TC_TLV_CLOSE

record TC_TLV_event =
  ev_kind :: TC_TLV_event_kind
  ev_offset :: nat
  ev_depth :: nat
  ev_header :: "TC_TLV_header option"
  ev_bytes :: TC_bytes

record TC_TLV_frame =
  tf_end :: nat
  tf_bound :: nat
  tf_start :: nat
  tf_indefinite :: u8
  tf_resource_bound :: u8

record TC_TLV_frames =
  tfs_data :: addr
  tfs_capacity :: nat
  tfs_mem :: "TC_TLV_frame list"

record TC_TLV_stream =
  ts_limits :: TC_TLV_limits
  ts_frames :: "TC_TLV_frame list"
  ts_capacity :: nat
  ts_depth :: nat
  ts_offset :: nat
  ts_elements :: nat
  ts_remaining :: nat
  ts_profile :: TC_TLV_profile
  ts_error :: TC_result
  ts_header :: "u8 list"
  ts_used :: nat
  ts_primitive :: bool
  ts_finished :: bool

section \<open>Helpers\<close>

definition fail :: "TC_TLV_stream \<Rightarrow> TC_result \<Rightarrow> TC_result \<times> TC_TLV_stream" where
  "fail s error = (error, s\<lparr>ts_error := error\<rparr>)"

text \<open>An event with no header carries the zeroed member, which is \<open>None\<close> here.\<close>

definition emit :: "bool \<Rightarrow> TC_TLV_event_kind \<Rightarrow> nat \<Rightarrow> nat \<Rightarrow> TC_TLV_header option \<Rightarrow> TC_bytes \<Rightarrow> TC_TLV_event list" where
  "emit visit kind offset depth h bytes =
     (if \<not> visit then []
      else [\<lparr>ev_kind = kind, ev_offset = offset, ev_depth = depth, ev_header = h, ev_bytes = bytes\<rparr>])"

definition null_span :: TC_bytes where "null_span = \<lparr>b_data = NULL, b_length = 0, b_mem = []\<rparr>"

definition initialize ::
  "bool \<Rightarrow> addr \<Rightarrow> TC_TLV_stream \<Rightarrow> TC_TLV_profile \<Rightarrow> TC_TLV_limits option \<Rightarrow> TC_TLV_frames \<Rightarrow> TC_result \<times> TC_TLV_stream" where
  "initialize ber at s profile limits frames =
     (let result = tc_tlv_config ber profile limits
      in if result \<noteq> TC_TLV_OK then (result, s)
         else if at = NULL \<or> (tfs_data frames = NULL \<and> tfs_capacity frames \<noteq> 0) then (TC_TLV_ARGUMENT, s)
         else (TC_TLV_OK,
               \<lparr>ts_limits = the limits, ts_frames = tfs_mem frames, ts_capacity = tfs_capacity frames, ts_depth = 0,
                ts_offset = 0, ts_elements = 0, ts_remaining = 0, ts_profile = profile, ts_error = TC_TLV_OK,
                ts_header = replicate TC_TLV_HEADER_BYTES 0, ts_used = 0, ts_primitive = False, ts_finished = False\<rparr>))"

definition top_frame :: "TC_TLV_stream \<Rightarrow> TC_TLV_frame" where
  "top_frame s = ts_frames s ! (ts_depth s - 1)"

definition bound :: "TC_TLV_stream \<Rightarrow> nat" where
  "bound s = (if ts_depth s \<noteq> 0 then tf_bound (top_frame s) else tl_max_input (ts_limits s))"

definition boundary_error :: "TC_TLV_stream \<Rightarrow> TC_result" where
  "boundary_error s =
     (if ts_depth s = 0 \<or> tf_resource_bound (top_frame s) \<noteq> 0 then TC_TLV_LIMIT else TC_TLV_INVALID)"

function close_definite :: "bool \<Rightarrow> TC_TLV_stream \<Rightarrow> TC_TLV_stream \<times> TC_TLV_event list" where
  "close_definite visit s =
     (if ts_depth s \<noteq> 0 \<and> tf_indefinite (top_frame s) = 0 \<and> ts_offset s = tf_end (top_frame s)
      then let s' = s\<lparr>ts_depth := ts_depth s - 1\<rparr>;
               (s'', events) = close_definite visit s'
           in (s'', emit visit TC_TLV_CLOSE (ts_offset s') (ts_depth s') None null_span @ events)
      else (s, []))"
  by pat_completeness auto
termination
  by (relation "measure (\<lambda>(visit, s). ts_depth s)") auto

declare close_definite.simps [simp del]

text \<open>Header bytes that end at position \<open>p\<close> of the chunk, or the accumulator when they are split.\<close>

definition header_bytes :: "addr \<Rightarrow> TC_TLV_stream \<Rightarrow> TC_bytes \<Rightarrow> nat \<Rightarrow> nat \<Rightarrow> TC_bytes" where
  "header_bytes header_at s chunk p n =
     (if n \<le> p then span_from chunk (p - n) n
      else \<lparr>b_data = header_at, b_length = n, b_mem = take n (ts_header s)\<rparr>)"

section \<open>The feeding loop\<close>

text \<open>
  One iteration of the loop either ends the call with an error or goes on at a later position of the
  chunk; both carry the events delivered in it.
\<close>

datatype feed_step =
    Feed_Fail TC_result TC_TLV_stream "TC_TLV_event list"
  | Feed_Next TC_TLV_stream nat "TC_TLV_event list"

definition feed_fail :: "TC_TLV_stream \<Rightarrow> TC_result \<Rightarrow> feed_step" where
  "feed_fail s error = Feed_Fail (fst (fail s error)) (snd (fail s error)) []"

text \<open>Contents of a primitive object.\<close>

definition feed_primitive :: "bool \<Rightarrow> TC_TLV_stream \<Rightarrow> TC_bytes \<Rightarrow> nat \<Rightarrow> feed_step" where
  "feed_primitive visit s chunk p =
     (let ceiling = bound s;
          n = (if b_length chunk - p > ts_remaining s then ts_remaining s else b_length chunk - p)
      in if n > ceiling - ts_offset s then feed_fail s (boundary_error s)
         else let events = emit visit TC_TLV_VALUE (ts_offset s) (ts_depth s) None (span_from chunk p n);
                  s = s\<lparr>ts_offset := ts_offset s + n, ts_remaining := ts_remaining s - n\<rparr>
              in if ts_remaining s = 0
                 then let s = s\<lparr>ts_primitive := False\<rparr>;
                          closed = emit visit TC_TLV_CLOSE (ts_offset s) (ts_depth s) None null_span;
                          (s, tail_events) = close_definite visit s
                      in Feed_Next s (p + n) (events @ closed @ tail_events)
                 else Feed_Next s (p + n) events)"

text \<open>An end-of-contents marker: \<open>s\<close> already holds the byte just read and \<open>p\<close> is the position after it.\<close>

definition feed_eoc :: "bool \<Rightarrow> addr \<Rightarrow> TC_TLV_stream \<Rightarrow> TC_bytes \<Rightarrow> nat \<Rightarrow> feed_step" where
  "feed_eoc visit header_at s chunk p =
     (if ts_profile s \<noteq> TC_TLV_BER \<or> ts_depth s = 0 \<or> tf_indefinite (top_frame s) = 0
      then feed_fail s TC_TLV_INVALID
      else if ts_used s = 1 then Feed_Next s p []
      else if ts_header s ! 1 \<noteq> 0 then feed_fail s TC_TLV_INVALID
      else if ts_offset s - 2 - tf_start (top_frame s) > tl_max_value (ts_limits s) then feed_fail s TC_TLV_LIMIT
      else let s = s\<lparr>ts_depth := ts_depth s - 1, ts_used := 0\<rparr>;
               events = emit visit TC_TLV_CLOSE (ts_offset s - 2) (ts_depth s) None (header_bytes header_at s chunk p 2);
               (s, tail_events) = close_definite visit s
           in Feed_Next s p (events @ tail_events))"

text \<open>The frame a constructed object opens.\<close>

definition open_frame :: "TC_TLV_stream \<Rightarrow> nat \<Rightarrow> TC_TLV_header \<Rightarrow> TC_TLV_frame" where
  "open_frame s ceiling h =
     (if th_indefinite h \<noteq> 0
      then let available = ceiling - ts_offset s
           in if available > 2 \<and> tl_max_value (ts_limits s) < available - 2
              then \<lparr>tf_end = 0, tf_bound = ts_offset s + tl_max_value (ts_limits s) + 2, tf_start = ts_offset s,
                    tf_indefinite = th_indefinite h, tf_resource_bound = 1\<rparr>
              else \<lparr>tf_end = 0, tf_bound = ceiling, tf_start = ts_offset s, tf_indefinite = th_indefinite h,
                    tf_resource_bound = (if boundary_error s = TC_TLV_LIMIT then 1 else 0)\<rparr>
      else \<lparr>tf_end = ts_offset s + th_length h, tf_bound = ts_offset s + th_length h, tf_start = ts_offset s,
            tf_indefinite = th_indefinite h, tf_resource_bound = 0\<rparr>)"

text \<open>A complete header: checks, the begin event, and the object it opens.\<close>

definition feed_header :: "bool \<Rightarrow> addr \<Rightarrow> nat \<Rightarrow> TC_TLV_stream \<Rightarrow> TC_bytes \<Rightarrow> nat \<Rightarrow> TC_TLV_header \<Rightarrow> feed_step" where
  "feed_header visit header_at ceiling s chunk p h =
     (if ts_elements s \<ge> tl_max_elements (ts_limits s) then feed_fail s TC_TLV_LIMIT
      else if th_length h > ceiling - ts_offset s then feed_fail s (boundary_error s)
      else if th_constructed h \<noteq> 0 \<and> (ts_depth s \<ge> tl_max_depth (ts_limits s) \<or> ts_depth s \<ge> ts_capacity s)
      then feed_fail s TC_TLV_LIMIT
      else let s = s\<lparr>ts_elements := ts_elements s + 1\<rparr>;
               start = ts_offset s - ts_used s;
               events = emit visit TC_TLV_BEGIN start (ts_depth s) (Some h) (header_bytes header_at s chunk p (ts_used s));
               s = s\<lparr>ts_used := 0\<rparr>
           in if th_constructed h \<noteq> 0
              then let s = s\<lparr>ts_frames := (ts_frames s)[ts_depth s := open_frame s ceiling h], ts_depth := ts_depth s + 1\<rparr>;
                       (s, tail_events) = close_definite visit s
                   in Feed_Next s p (events @ tail_events)
              else if th_length h \<noteq> 0
              then Feed_Next (s\<lparr>ts_remaining := th_length h, ts_primitive := True\<rparr>) p events
              else let closed = emit visit TC_TLV_CLOSE (ts_offset s) (ts_depth s) None null_span;
                       (s, tail_events) = close_definite visit s
                   in Feed_Next s p (events @ closed @ tail_events))"

definition feed_iteration :: "bool \<Rightarrow> bool \<Rightarrow> addr \<Rightarrow> TC_TLV_stream \<Rightarrow> TC_bytes \<Rightarrow> nat \<Rightarrow> feed_step" where
  "feed_iteration ber visit header_at s chunk p =
     (let ceiling = bound s
      in if ts_offset s \<ge> ceiling then feed_fail s (boundary_error s)
         else if ts_primitive s then feed_primitive visit s chunk p
         else if ts_depth s = 0 \<and> ts_used s = 0 \<and> tc_tlv_padding (ts_profile s) (b_mem chunk ! p)
         then Feed_Next (s\<lparr>ts_offset := ts_offset s + 1\<rparr>) (p + 1) []
         else if ts_used s = TC_TLV_HEADER_BYTES then feed_fail s TC_TLV_LIMIT
         else let s = s\<lparr>ts_header := (ts_header s)[ts_used s := b_mem chunk ! p], ts_used := ts_used s + 1,
                        ts_offset := ts_offset s + 1\<rparr>;
                  p = p + 1
              in if ber \<and> ts_header s ! 0 = 0 then feed_eoc visit header_at s chunk p
                 else case tc_tlv_header_parse ber header_at (ts_header s) (ts_used s) (ts_profile s) (tl_max_value (ts_limits s)) of
                        Inl result \<Rightarrow> if result = TC_TLV_MORE then Feed_Next s p [] else feed_fail s result
                      | Inr h \<Rightarrow> feed_header visit header_at ceiling s chunk p h)"

text \<open>
  The \<^verbatim>\<open>while\<close> loop. The position grows in every iteration (\<open>feed_progress\<close> below), so the number of bytes of the
  chunk plus one bounds the number of iterations; the fuel is never used up.
\<close>

fun feed_loop ::
  "nat \<Rightarrow> bool \<Rightarrow> bool \<Rightarrow> addr \<Rightarrow> TC_TLV_stream \<Rightarrow> TC_bytes \<Rightarrow> nat \<Rightarrow> (TC_result \<times> TC_TLV_stream \<times> TC_TLV_event list) option" where
  "feed_loop 0 ber visit header_at s chunk p = None"
| "feed_loop (Suc fuel) ber visit header_at s chunk p =
     (if p < b_length chunk
      then case feed_iteration ber visit header_at s chunk p of
             Feed_Fail result s events \<Rightarrow> Some (result, s, events)
           | Feed_Next s q events \<Rightarrow>
               (case feed_loop fuel ber visit header_at s chunk q of
                  None \<Rightarrow> None
                | Some (result, s, tail_events) \<Rightarrow> Some (result, s, events @ tail_events))
      else Some (if ts_used s \<noteq> 0 \<or> ts_primitive s \<or> ts_depth s \<noteq> 0 then TC_TLV_MORE else TC_TLV_OK, s, []))"

definition feed ::
  "bool \<Rightarrow> bool \<Rightarrow> addr \<Rightarrow> addr \<Rightarrow> TC_TLV_stream \<Rightarrow> TC_bytes \<Rightarrow> (TC_result \<times> TC_TLV_stream \<times> TC_TLV_event list) option" where
  "feed ber visit at header_at s chunk =
     (if at = NULL \<or> (b_data chunk = NULL \<and> b_length chunk \<noteq> 0) then Some (TC_TLV_ARGUMENT, s, [])
      else if ts_error s \<noteq> TC_TLV_OK then Some (ts_error s, s, [])
      else if ts_finished s then Some (TC_TLV_ARGUMENT, s, [])
      else if ts_offset s > tl_max_input (ts_limits s) \<or> b_length chunk > tl_max_input (ts_limits s) - ts_offset s
      then Some (TC_TLV_LIMIT, snd (fail s TC_TLV_LIMIT), [])
      else feed_loop (b_length chunk + 1) ber visit header_at s chunk 0)"

definition finish :: "addr \<Rightarrow> TC_TLV_stream \<Rightarrow> TC_result \<times> TC_TLV_stream" where
  "finish at s =
     (if at = NULL then (TC_TLV_ARGUMENT, s)
      else if ts_error s \<noteq> TC_TLV_OK then (ts_error s, s)
      else if ts_used s \<noteq> 0 \<or> ts_primitive s \<or> ts_depth s \<noteq> 0 then fail s TC_TLV_INVALID
      else (TC_TLV_OK, s\<lparr>ts_finished := True\<rparr>))"

section \<open>The public stream\<close>

definition TC_TLV_stream_init ::
  "bool \<Rightarrow> TC_TLV_stream obj \<Rightarrow> TC_TLV_profile \<Rightarrow> TC_TLV_limits option \<Rightarrow> TC_TLV_frames \<Rightarrow> TC_result \<times> TC_TLV_stream obj" where
  "TC_TLV_stream_init ber s profile limits frames =
     (case initialize ber (o_addr s) (o_val s) profile limits frames of (result, v) \<Rightarrow> (result, s\<lparr>o_val := v\<rparr>))"

text \<open>The header accumulator is a member of the stream, so it is not at \<^verbatim>\<open>NULL\<close>.\<close>

definition header_member :: "TC_TLV_stream obj \<Rightarrow> addr" where
  "header_member s = o_addr s + 1"

definition TC_TLV_stream_feed ::
  "bool \<Rightarrow> TC_TLV_stream obj \<Rightarrow> TC_bytes \<Rightarrow> bool \<Rightarrow> (TC_result \<times> TC_TLV_stream obj \<times> TC_TLV_event list) option" where
  "TC_TLV_stream_feed ber s chunk visit =
     (case feed ber visit (o_addr s) (header_member s) (o_val s) chunk of
        None \<Rightarrow> None
      | Some (result, v, events) \<Rightarrow> Some (result, s\<lparr>o_val := v\<rparr>, events))"

definition TC_TLV_stream_finish :: "TC_TLV_stream obj \<Rightarrow> TC_result \<times> TC_TLV_stream obj" where
  "TC_TLV_stream_finish s = (case finish (o_addr s) (o_val s) of (result, v) \<Rightarrow> (result, s\<lparr>o_val := v\<rparr>))"

section \<open>Whole messages and single objects\<close>

text \<open>The contents of a local stream before \<^verbatim>\<open>initialize\<close> overwrites them.\<close>

definition stream_local :: TC_TLV_stream where
  "stream_local = \<lparr>ts_limits = \<lparr>tl_max_input = 0, tl_max_value = 0, tl_max_elements = 0, tl_max_depth = 0\<rparr>, ts_frames = [],
     ts_capacity = 0, ts_depth = 0, ts_offset = 0, ts_elements = 0, ts_remaining = 0, ts_profile = TC_TLV_DER,
     ts_error = TC_TLV_OK, ts_header = [], ts_used = 0, ts_primitive = False, ts_finished = False\<rparr>"

text \<open>The result comes with the frame storage and the events.\<close>

definition TC_TLV_walk ::
  "bool \<Rightarrow> TC_bytes \<Rightarrow> TC_TLV_profile \<Rightarrow> TC_TLV_limits option \<Rightarrow> TC_TLV_frames \<Rightarrow> bool \<Rightarrow>
   (TC_result \<times> TC_TLV_frame list \<times> TC_TLV_event list) option" where
  "TC_TLV_walk ber input profile limits frames visit =
     (if b_data input = NULL \<and> b_length input \<noteq> 0 then Some (TC_TLV_ARGUMENT, tfs_mem frames, [])
      else case initialize ber LOCAL stream_local profile limits frames of (result, s) \<Rightarrow>
        if result \<noteq> TC_TLV_OK then Some (result, tfs_mem frames, [])
        else case feed ber visit LOCAL LOCAL s input of
               None \<Rightarrow> None
             | Some (result, s, events) \<Rightarrow>
                 if result \<noteq> TC_TLV_OK \<and> result \<noteq> TC_TLV_MORE then Some (result, ts_frames s, events)
                 else Some (fst (finish LOCAL s), ts_frames s, events))"

text \<open>
  The loop of \<^verbatim>\<open>TC_TLV_read_tree\<close>. Every iteration feeds at least one byte, so the length of the input plus two is
  enough fuel.
\<close>

fun read_tree_loop ::
  "nat \<Rightarrow> bool \<Rightarrow> TC_bytes \<Rightarrow> TC_result \<Rightarrow> TC_TLV_stream \<Rightarrow> (TC_result \<times> TC_TLV_stream) option" where
  "read_tree_loop 0 ber input result s = None"
| "read_tree_loop (Suc fuel) ber input result s =
     (if result \<noteq> TC_TLV_MORE then Some (result, s)
      else let chunk = (if ts_primitive s then ts_remaining s
                        else if ts_depth s \<noteq> 0 \<and> tf_indefinite (top_frame s) = 0 then tf_end (top_frame s) - ts_offset s
                        else 1)
           in if chunk = 0 then Some (TC_TLV_INVALID, s)
              else if ts_offset s = b_length input then Some (TC_TLV_MORE, s)
              else let chunk = (if chunk > b_length input - ts_offset s then b_length input - ts_offset s else chunk)
                   in case feed ber False LOCAL LOCAL s (span_from input (ts_offset s) chunk) of
                        None \<Rightarrow> None
                      | Some (result, s, _) \<Rightarrow> read_tree_loop fuel ber input result s)"

definition EOC_BYTES :: nat where "EOC_BYTES = 2"

definition TC_TLV_read_tree ::
  "bool \<Rightarrow> TC_bytes \<Rightarrow> TC_TLV_profile \<Rightarrow> TC_TLV_limits option \<Rightarrow> TC_TLV_frames \<Rightarrow> addr \<Rightarrow>
   (TC_TLV_element tlv_result) option" where
  "TC_TLV_read_tree ber input profile limits frames out =
     (if out = NULL then Some (Inl TC_TLV_ARGUMENT)
      else case TC_TLV_header_read ber input profile limits LOCAL of
             Inl result \<Rightarrow> Some (Inl result)
           | Inr h \<Rightarrow>
               (case initialize ber LOCAL stream_local profile limits frames of (result, s) \<Rightarrow>
                  if result \<noteq> TC_TLV_OK then Some (Inl result)
                  else case feed ber False LOCAL LOCAL s (span_from input 0 (th_header_length h)) of
                         None \<Rightarrow> None
                       | Some (result, s, _) \<Rightarrow>
                           (case read_tree_loop (b_length input + 2) ber input result s of
                              None \<Rightarrow> None
                            | Some (result, s) \<Rightarrow>
                                if result \<noteq> TC_TLV_OK then Some (Inl result)
                                else Some (Inr \<lparr>te_header = h, te_encoded = span_from input 0 (ts_offset s),
                                       te_value = span_from input (th_header_length h)
                                         (ts_offset s - th_header_length h - (if th_indefinite h \<noteq> 0 then EOC_BYTES else 0))\<rparr>))))"

end
