(* ===== verification/TLV_Stream.thy ===== *)
theory TLV_Stream
  imports TLV_Walk
begin

text \<open>
  Correctness of the incremental decoder: the invariant of a stream and its preservation by every call,
  whatever the bytes are; the loops end; and what a stream does depends only on the bytes it was fed, not
  on how they were cut into chunks.
\<close>

section \<open>The stack of open objects\<close>

text \<open>The open frames, innermost first.\<close>

definition open_frames :: "TC_TLV_stream \<Rightarrow> TC_TLV_frame list" where
  "open_frames s = rev (take (ts_depth s) (ts_frames s))"

fun stack_bound :: "nat \<Rightarrow> TC_TLV_frame list \<Rightarrow> nat" where
  "stack_bound m [] = m"
| "stack_bound m (f # fs) = tf_bound f"

fun stack_start :: "TC_TLV_frame list \<Rightarrow> nat" where
  "stack_start [] = 0"
| "stack_start (f # fs) = tf_start f"

text \<open>Each frame lies inside its parent.\<close>

fun stack_ok :: "nat \<Rightarrow> TC_TLV_frame list \<Rightarrow> bool" where
  "stack_ok m [] \<longleftrightarrow> True"
| "stack_ok m (f # fs) \<longleftrightarrow> tf_bound f \<le> stack_bound m fs \<and> stack_start fs \<le> tf_start f \<and> tf_start f \<le> tf_bound f \<and>
     (tf_indefinite f = 0 \<longrightarrow> tf_end f = tf_bound f) \<and> stack_ok m fs"

definition stream_ok :: "TC_TLV_stream \<Rightarrow> bool" where
  "stream_ok s \<longleftrightarrow>
     length (ts_frames s) = ts_capacity s \<and> ts_depth s \<le> ts_capacity s \<and> ts_depth s \<le> tl_max_depth (ts_limits s) \<and>
     ts_elements s \<le> tl_max_elements (ts_limits s) \<and> length (ts_header s) = TC_TLV_HEADER_BYTES \<and>
     ts_used s \<le> TC_TLV_HEADER_BYTES \<and> stack_ok (tl_max_input (ts_limits s)) (open_frames s) \<and>
     ts_offset s \<le> bound s \<and> stack_start (open_frames s) + ts_used s \<le> ts_offset s \<and>
     (ts_primitive s \<longrightarrow> ts_used s = 0 \<and> 0 < ts_remaining s \<and> ts_remaining s \<le> bound s - ts_offset s)"

lemma stack_bound_le: "stack_ok m fs \<Longrightarrow> stack_bound m fs \<le> m"
  by (induction fs) auto

lemma open_frames_Suc:
  "ts_depth s \<noteq> 0 \<Longrightarrow> ts_depth s \<le> length (ts_frames s) \<Longrightarrow>
   open_frames s = top_frame s # open_frames (s\<lparr>ts_depth := ts_depth s - 1\<rparr>)"
  by (cases "ts_depth s") (auto simp: open_frames_def top_frame_def take_Suc_conv_app_nth)

lemma open_frames_0 [simp]: "ts_depth s = 0 \<Longrightarrow> open_frames s = []"
  by (simp add: open_frames_def)

lemma bound_eq:
  "ts_depth s \<le> length (ts_frames s) \<Longrightarrow> bound s = stack_bound (tl_max_input (ts_limits s)) (open_frames s)"
  by (cases "ts_depth s = 0") (auto simp: bound_def open_frames_Suc)

text \<open>Members the frame stack does not depend on.\<close>

lemma open_frames_update [simp]:
  "open_frames (s\<lparr>ts_offset := a\<rparr>) = open_frames s" "open_frames (s\<lparr>ts_remaining := a\<rparr>) = open_frames s"
  "open_frames (s\<lparr>ts_primitive := b\<rparr>) = open_frames s" "open_frames (s\<lparr>ts_used := a\<rparr>) = open_frames s"
  "open_frames (s\<lparr>ts_header := l\<rparr>) = open_frames s" "open_frames (s\<lparr>ts_elements := a\<rparr>) = open_frames s"
  "open_frames (s\<lparr>ts_error := r\<rparr>) = open_frames s" "open_frames (s\<lparr>ts_finished := b\<rparr>) = open_frames s"
  by (simp_all add: open_frames_def)

lemma bound_update [simp]:
  "bound (s\<lparr>ts_offset := a\<rparr>) = bound s" "bound (s\<lparr>ts_remaining := a\<rparr>) = bound s"
  "bound (s\<lparr>ts_primitive := b\<rparr>) = bound s" "bound (s\<lparr>ts_used := a\<rparr>) = bound s"
  "bound (s\<lparr>ts_header := l\<rparr>) = bound s" "bound (s\<lparr>ts_elements := a\<rparr>) = bound s"
  "bound (s\<lparr>ts_error := r\<rparr>) = bound s" "bound (s\<lparr>ts_finished := b\<rparr>) = bound s"
  by (simp_all add: bound_def top_frame_def)

lemma stream_ok_bound: "stream_ok s \<Longrightarrow> bound s \<le> tl_max_input (ts_limits s)"
  by (auto simp: stream_ok_def bound_eq stack_bound_le)

lemma push_frame:
  assumes "ts_depth s < length (ts_frames s)"
  shows "open_frames (s\<lparr>ts_frames := (ts_frames s)[ts_depth s := f], ts_depth := ts_depth s + 1\<rparr>) = f # open_frames s"
  using assms by (simp add: open_frames_def take_Suc_conv_app_nth)

section \<open>Preservation\<close>

text \<open>Popping a frame between objects keeps the invariant.\<close>

lemma pop_ok:
  assumes "stream_ok s" "ts_depth s \<noteq> 0" "ts_used s = 0" "\<not> ts_primitive s"
  shows "stream_ok (s\<lparr>ts_depth := ts_depth s - 1\<rparr>)"
proof -
  let ?s = "s\<lparr>ts_depth := ts_depth s - 1\<rparr>"
  have fr: "open_frames s = top_frame s # open_frames ?s"
    using assms(1,2) by (intro open_frames_Suc) (auto simp: stream_ok_def)
  have "bound ?s = stack_bound (tl_max_input (ts_limits s)) (open_frames ?s)"
    "bound s = tf_bound (top_frame s)"
    using assms(1,2) fr by (auto simp: bound_eq stream_ok_def)
  then show ?thesis using assms fr unfolding stream_ok_def by auto
qed

lemma close_definite_depth: "\<exists>d \<le> ts_depth s. fst (close_definite visit s) = s\<lparr>ts_depth := d\<rparr>"
proof (induction visit s rule: close_definite.induct)
  case (1 visit s)
  show ?case
  proof (cases "ts_depth s \<noteq> 0 \<and> tf_indefinite (top_frame s) = 0 \<and> ts_offset s = tf_end (top_frame s)")
    case True
    from 1 [OF True refl] obtain d where d: "d \<le> ts_depth s - 1"
      "fst (close_definite visit (s\<lparr>ts_depth := ts_depth s - 1\<rparr>)) = s\<lparr>ts_depth := d\<rparr>" by auto
    then have "fst (close_definite visit s) = s\<lparr>ts_depth := d\<rparr>"
      using True by (subst close_definite.simps) (simp add: Let_def split_beta)
    then show ?thesis using d(1) by (intro exI [of _ d]) simp
  next
    case False
    then show ?thesis by (subst close_definite.simps) (auto intro!: exI [of _ "ts_depth s"])
  qed
qed

lemma close_definite_ok:
  "stream_ok s \<Longrightarrow> ts_used s = 0 \<Longrightarrow> \<not> ts_primitive s \<Longrightarrow> stream_ok (fst (close_definite visit s))"
proof (induction visit s rule: close_definite.induct)
  case (1 visit s)
  show ?case
  proof (cases "ts_depth s \<noteq> 0 \<and> tf_indefinite (top_frame s) = 0 \<and> ts_offset s = tf_end (top_frame s)")
    case True
    with 1 pop_ok [of s] show ?thesis by (subst close_definite.simps) (auto simp: Let_def split_beta)
  next
    case False
    then show ?thesis using 1 by (subst close_definite.simps) auto
  qed
qed

text \<open>What one iteration leaves alone, and how far it moves.\<close>

definition same_setup :: "TC_TLV_stream \<Rightarrow> TC_TLV_stream \<Rightarrow> bool" where
  "same_setup s s' \<longleftrightarrow> ts_limits s' = ts_limits s \<and> ts_profile s' = ts_profile s \<and> ts_capacity s' = ts_capacity s \<and>
     ts_finished s' = ts_finished s"

definition good_step :: "TC_TLV_stream \<Rightarrow> nat \<Rightarrow> nat \<Rightarrow> feed_step \<Rightarrow> bool" where
  "good_step s p len st \<longleftrightarrow> (case st of
       Feed_Fail r s' _ \<Rightarrow> stream_ok s' \<and> ts_error s' = r \<and> r \<in> {TC_TLV_INVALID, TC_TLV_LIMIT} \<and> same_setup s s'
     | Feed_Next s' q _ \<Rightarrow> stream_ok s' \<and> p < q \<and> q \<le> len \<and> ts_offset s' = ts_offset s + (q - p) \<and>
         ts_error s' = ts_error s \<and> same_setup s s')"

lemma good_fail:
  "stream_ok s' \<Longrightarrow> r \<in> {TC_TLV_INVALID, TC_TLV_LIMIT} \<Longrightarrow> same_setup s s' \<Longrightarrow> good_step s p len (feed_fail s' r)"
  by (auto simp: good_step_def feed_fail_def fail_def stream_ok_def same_setup_def)

lemma boundary_error_cases: "boundary_error s \<in> {TC_TLV_INVALID, TC_TLV_LIMIT}"
  by (simp add: boundary_error_def)

lemma good_close:
  assumes "stream_ok s'" "ts_used s' = 0" "\<not> ts_primitive s'" "same_setup s s'" "ts_error s' = ts_error s"
    "ts_offset s' = ts_offset s + (q - p)" "p < q" "q \<le> len"
  shows "good_step s p len (Feed_Next (fst (close_definite visit s')) q evs)"
  using assms close_definite_ok [OF assms(1-3), of visit] close_definite_depth [of s' visit]
  by (auto simp: good_step_def same_setup_def)

lemma feed_primitive_good:
  assumes "stream_ok s" "ts_primitive s" "p < b_length chunk"
  shows "good_step s p (b_length chunk) (feed_primitive visit s chunk p)"
proof -
  define n where "n = (if b_length chunk - p > ts_remaining s then ts_remaining s else b_length chunk - p)"
  let ?s = "s\<lparr>ts_offset := ts_offset s + n, ts_remaining := ts_remaining s - n\<rparr>"
  have ok: "0 < ts_remaining s" "ts_remaining s \<le> bound s - ts_offset s" "ts_used s = 0" "ts_offset s \<le> bound s"
    using assms(1,2) by (auto simp: stream_ok_def)
  have n: "0 < n" "n \<le> ts_remaining s" "p + n \<le> b_length chunk" using ok(1) assms(3) by (auto simp: n_def)
  have okp: "stream_ok (?s\<lparr>ts_primitive := False\<rparr>)"
    using assms(1) ok n(2) by (auto simp: stream_ok_def)
  show ?thesis
  proof (cases "n = ts_remaining s")
    case True
    have "feed_primitive visit s chunk p = Feed_Next (fst (close_definite visit (?s\<lparr>ts_primitive := False\<rparr>))) (p + n)
        (emit visit TC_TLV_VALUE (ts_offset s) (ts_depth s) None (span_from chunk p n) @
         emit visit TC_TLV_CLOSE (ts_offset s + n) (ts_depth s) None null_span @
         snd (close_definite visit (?s\<lparr>ts_primitive := False\<rparr>)))"
      unfolding feed_primitive_def Let_def n_def [symmetric] using ok n True by (simp add: split_beta)
    moreover have "good_step s p (b_length chunk) (Feed_Next (fst (close_definite visit (?s\<lparr>ts_primitive := False\<rparr>))) (p + n) evs)" for evs
      using okp ok n by (intro good_close) (auto simp: same_setup_def)
    ultimately show ?thesis by simp
  next
    case False
    then have "stream_ok ?s" using assms(1) ok n(2) by (auto simp: stream_ok_def)
    moreover have "feed_primitive visit s chunk p =
        Feed_Next ?s (p + n) (emit visit TC_TLV_VALUE (ts_offset s) (ts_depth s) None (span_from chunk p n))"
      unfolding feed_primitive_def Let_def n_def [symmetric] using ok n False by simp
    ultimately show ?thesis using n by (auto simp: good_step_def same_setup_def)
  qed
qed

lemma top_frame_update [simp]:
  "top_frame (s\<lparr>ts_used := a\<rparr>) = top_frame s" "top_frame (s\<lparr>ts_offset := a\<rparr>) = top_frame s"
  "top_frame (s\<lparr>ts_header := l\<rparr>) = top_frame s" "top_frame (s\<lparr>ts_elements := a\<rparr>) = top_frame s"
  by (simp_all add: top_frame_def)

lemma feed_eoc_good:
  assumes "stream_ok s" "\<not> ts_primitive s" "same_setup s0 s" "ts_error s = ts_error s0"
    "ts_offset s = ts_offset s0 + 1" "p < len"
  shows "good_step s0 p len (feed_eoc visit header_at s chunk (p + 1))"
proof -
  let ?s = "s\<lparr>ts_depth := ts_depth s - 1, ts_used := 0\<rparr>"
  have fail: "good_step s0 p len (feed_fail s r)" if "r \<in> {TC_TLV_INVALID, TC_TLV_LIMIT}" for r
    using good_fail [OF assms(1) that assms(3)] .
  have stay: "good_step s0 p len (Feed_Next s (p + 1) [])"
    using assms by (simp add: good_step_def)
  have ok0: "stream_ok (s\<lparr>ts_used := 0\<rparr>)" using assms(1) by (auto simp: stream_ok_def)
  have pop: "good_step s0 p len (Feed_Next (fst (close_definite visit ?s)) (p + 1) evs)" if "ts_depth s \<noteq> 0" for evs
  proof -
    have "?s = (s\<lparr>ts_used := 0\<rparr>)\<lparr>ts_depth := ts_depth s - 1\<rparr>" by (cases s) simp
    moreover have "stream_ok ((s\<lparr>ts_used := 0\<rparr>)\<lparr>ts_depth := ts_depth s - 1\<rparr>)"
      using pop_ok [OF ok0] that assms(2) by simp
    ultimately have "stream_ok ?s" by (simp only:)
    then show ?thesis using assms by (intro good_close) (auto simp: same_setup_def)
  qed
  show ?thesis
    unfolding feed_eoc_def Let_def split_beta
    using fail stay pop by (auto simp del: insert_iff intro: fail)
qed

lemma stream_ok_push:
  assumes "stream_ok s" "ts_used s = 0" "\<not> ts_primitive s" "ts_depth s < ts_capacity s" "ts_depth s < tl_max_depth (ts_limits s)"
    "tf_bound f \<le> bound s" "tf_start f = ts_offset s" "ts_offset s \<le> tf_bound f" "tf_indefinite f = 0 \<longrightarrow> tf_end f = tf_bound f"
  shows "stream_ok (s\<lparr>ts_frames := (ts_frames s)[ts_depth s := f], ts_depth := ts_depth s + 1\<rparr>)"
proof -
  let ?s = "s\<lparr>ts_frames := (ts_frames s)[ts_depth s := f], ts_depth := ts_depth s + 1\<rparr>"
  have l: "length (ts_frames s) = ts_capacity s" using assms(1) by (simp add: stream_ok_def)
  have fr: "open_frames ?s = f # open_frames s" using assms(4) l by (intro push_frame) simp
  have "bound ?s = tf_bound f" using fr l assms(4) by (simp add: bound_eq)
  moreover have "bound s = stack_bound (tl_max_input (ts_limits s)) (open_frames s)"
    using assms(1) by (intro bound_eq) (auto simp: stream_ok_def)
  ultimately show ?thesis using assms fr unfolding stream_ok_def by auto
qed

lemma open_frame_facts:
  assumes "ts_offset s \<le> c" "th_length h \<le> c - ts_offset s"
  shows "tf_bound (open_frame s c h) \<le> c" "tf_start (open_frame s c h) = ts_offset s" "ts_offset s \<le> tf_bound (open_frame s c h)"
    "tf_indefinite (open_frame s c h) = 0 \<longrightarrow> tf_end (open_frame s c h) = tf_bound (open_frame s c h)"
  using assms by (auto simp: open_frame_def Let_def)

lemma feed_header_good:
  assumes "stream_ok s" "\<not> ts_primitive s" "same_setup s0 s" "ts_error s = ts_error s0"
    "ts_offset s = ts_offset s0 + 1" "p < len"
  shows "good_step s0 p len (feed_header visit header_at (bound s) s chunk (p + 1) h)"
proof -
  let ?s = "s\<lparr>ts_elements := ts_elements s + 1, ts_used := 0\<rparr>"
  let ?f = "open_frame ?s (bound s) h"
  let ?push = "?s\<lparr>ts_frames := (ts_frames s)[ts_depth s := ?f], ts_depth := ts_depth s + 1\<rparr>"
  have fail: "good_step s0 p len (feed_fail s r)" if "r \<in> {TC_TLV_INVALID, TC_TLV_LIMIT}" for r
    using good_fail [OF assms(1) that assms(3)] .
  show ?thesis
  proof (cases "ts_elements s \<ge> tl_max_elements (ts_limits s) \<or> th_length h > bound s - ts_offset s \<or>
      (th_constructed h \<noteq> 0 \<and> (ts_depth s \<ge> tl_max_depth (ts_limits s) \<or> ts_depth s \<ge> ts_capacity s))")
    case True
    then show ?thesis
      using fail boundary_error_cases [of s] unfolding feed_header_def by (auto simp del: insert_iff intro: fail)
  next
    case False
    have ok: "stream_ok ?s" using assms(1,2) False by (auto simp: stream_ok_def)
    have off: "ts_offset s \<le> bound s" using assms(1) by (simp add: stream_ok_def)
    have next_ok: "good_step s0 p len (Feed_Next (fst (close_definite visit s')) (p + 1) evs)"
      if "stream_ok s'" "ts_used s' = 0" "\<not> ts_primitive s'" "same_setup s s'" "ts_error s' = ts_error s" "ts_offset s' = ts_offset s"
      for s' evs
      using that assms by (intro good_close) (auto simp: same_setup_def)
    consider (node) "th_constructed h \<noteq> 0" | (leaf) "th_constructed h = 0" "th_length h \<noteq> 0" | (empty) "th_constructed h = 0" "th_length h = 0"
      by blast
    then show ?thesis
    proof cases
      case node
      have "stream_ok ?push"
        using stream_ok_push [OF ok, of ?f] open_frame_facts [of ?s "bound s" h] off assms(2) False node by simp
      then have "good_step s0 p len (Feed_Next (fst (close_definite visit ?push)) (p + 1) evs)" for evs
        using assms(2) by (intro next_ok) (auto simp: same_setup_def)
      then show ?thesis using node False unfolding feed_header_def Let_def split_beta by simp
    next
      case leaf
      have "stream_ok (?s\<lparr>ts_remaining := th_length h, ts_primitive := True\<rparr>)"
        using ok leaf False by (auto simp: stream_ok_def)
      then show ?thesis
        using leaf False assms unfolding feed_header_def Let_def by (simp add: good_step_def same_setup_def)
    next
      case empty
      have "good_step s0 p len (Feed_Next (fst (close_definite visit ?s)) (p + 1) evs)" for evs
        using ok assms(2) by (intro next_ok) (auto simp: same_setup_def)
      then show ?thesis using empty False unfolding feed_header_def Let_def split_beta by simp
    qed
  qed
qed

text \<open>A byte of a header goes to the accumulator; the iteration then looks at the accumulator only.\<close>

definition take_byte :: "TC_TLV_stream \<Rightarrow> u8 \<Rightarrow> TC_TLV_stream" where
  "take_byte s b = s\<lparr>ts_header := (ts_header s)[ts_used s := b], ts_used := ts_used s + 1, ts_offset := ts_offset s + 1\<rparr>"

lemma feed_byte_eq:
  assumes "ts_offset s < bound s" "\<not> ts_primitive s" "\<not> (ts_depth s = 0 \<and> ts_used s = 0 \<and> tc_tlv_padding (ts_profile s) (b_mem chunk ! p))"
    "ts_used s \<noteq> TC_TLV_HEADER_BYTES"
  shows "feed_iteration ber visit header_at s chunk p =
    (let s' = take_byte s (b_mem chunk ! p)
     in if ber \<and> ts_header s' ! 0 = 0 then feed_eoc visit header_at s' chunk (p + 1)
        else case tc_tlv_header_parse ber header_at (ts_header s') (ts_used s') (ts_profile s) (tl_max_value (ts_limits s)) of
               Inl result \<Rightarrow> if result = TC_TLV_MORE then Feed_Next s' (p + 1) [] else feed_fail s' result
             | Inr h \<Rightarrow> feed_header visit header_at (bound s) s' chunk (p + 1) h)"
proof -
  have nb: "\<not> bound s \<le> ts_offset s" using assms(1) by simp
  show ?thesis
    unfolding feed_iteration_def Let_def take_byte_def using nb assms(2-4)
    by (simp only: if_False simp_thms) simp
qed

lemma feed_iteration_good:
  assumes "stream_ok s" "p < b_length chunk" "header_at \<noteq> NULL"
  shows "good_step s p (b_length chunk) (feed_iteration ber visit header_at s chunk p)"
proof -
  let ?b = "b_mem chunk ! p"
  let ?s = "take_byte s ?b"
  have fail: "good_step s p (b_length chunk) (feed_fail s r)" if "r \<in> {TC_TLV_INVALID, TC_TLV_LIMIT}" for r
    using good_fail [OF assms(1) that] by (simp add: same_setup_def)
  consider (full) "ts_offset s \<ge> bound s" | (prim) "ts_offset s < bound s" "ts_primitive s"
    | (pad) "ts_offset s < bound s" "\<not> ts_primitive s" "ts_depth s = 0" "ts_used s = 0" "tc_tlv_padding (ts_profile s) ?b"
    | (long) "ts_offset s < bound s" "\<not> ts_primitive s" "\<not> (ts_depth s = 0 \<and> ts_used s = 0 \<and> tc_tlv_padding (ts_profile s) ?b)"
        "ts_used s = TC_TLV_HEADER_BYTES"
    | (byte) "ts_offset s < bound s" "\<not> ts_primitive s" "\<not> (ts_depth s = 0 \<and> ts_used s = 0 \<and> tc_tlv_padding (ts_profile s) ?b)"
        "ts_used s \<noteq> TC_TLV_HEADER_BYTES"
    using not_le by blast
  then show ?thesis
  proof cases
    case full
    then show ?thesis using fail boundary_error_cases [of s] by (simp add: feed_iteration_def Let_def del: insert_iff)
  next
    case prim
    then show ?thesis using feed_primitive_good [OF assms(1) prim(2) assms(2)] by (simp add: feed_iteration_def)
  next
    case pad
    then show ?thesis using assms by (auto simp: feed_iteration_def good_step_def stream_ok_def same_setup_def)
  next
    case long
    then have "feed_iteration ber visit header_at s chunk p = feed_fail s TC_TLV_LIMIT"
      unfolding feed_iteration_def Let_def by (auto simp: not_le)
    then show ?thesis using fail [of TC_TLV_LIMIT] by simp
  next
    case byte
    have ok: "stream_ok ?s" using assms(1) byte by (auto simp: stream_ok_def take_byte_def)
    have same: "same_setup s ?s" "ts_error ?s = ts_error s" "ts_offset ?s = ts_offset s + 1" "\<not> ts_primitive ?s" "bound ?s = bound s"
      using byte by (simp_all add: same_setup_def take_byte_def)
    note eoc = feed_eoc_good [OF ok same(4,1,2,3) assms(2), of visit header_at chunk]
    note hdr = feed_header_good [OF ok same(4,1,2,3) assms(2), of visit header_at chunk]
    have eq: "feed_iteration ber visit header_at s chunk p =
      (if ber \<and> ts_header ?s ! 0 = 0 then feed_eoc visit header_at ?s chunk (p + 1)
       else case tc_tlv_header_parse ber header_at (ts_header ?s) (ts_used ?s) (ts_profile s) (tl_max_value (ts_limits s)) of
              Inl result \<Rightarrow> if result = TC_TLV_MORE then Feed_Next ?s (p + 1) [] else feed_fail ?s result
            | Inr h \<Rightarrow> feed_header visit header_at (bound s) ?s chunk (p + 1) h)"
      unfolding feed_byte_eq [OF byte] Let_def ..
    have stay: "good_step s p (b_length chunk) (Feed_Next ?s (p + 1) [])"
      using ok same assms(2) by (simp add: good_step_def)
    show ?thesis
    proof (cases "tc_tlv_header_parse ber header_at (ts_header ?s) (ts_used ?s) (ts_profile s) (tl_max_value (ts_limits s))")
      case (Inl r)
      then have "r = TC_TLV_MORE \<or> r \<in> {TC_TLV_INVALID, TC_TLV_LIMIT}"
        using header_parse_results [OF Inl] assms(3) by blast
      then show ?thesis unfolding eq Inl sum.case
        using eoc stay good_fail [OF ok _ same(1)] by (simp del: insert_iff) blast
    next
      case (Inr h)
      show ?thesis unfolding eq Inr sum.case using eoc hdr by (simp add: same(5))
    qed
  qed
qed

text \<open>The loop ends: the fuel of \<open>feed\<close> is enough, and the invariant holds after the call, whatever its result.\<close>

definition good_result :: "TC_TLV_stream \<Rightarrow> nat \<Rightarrow> TC_result \<times> TC_TLV_stream \<times> TC_TLV_event list \<Rightarrow> bool" where
  "good_result s n out \<longleftrightarrow> (case out of (r, s', _) \<Rightarrow>
     stream_ok s' \<and> same_setup s s' \<and>
     (if r \<in> {TC_TLV_OK, TC_TLV_MORE}
      then ts_error s' = ts_error s \<and> ts_offset s' = ts_offset s + n \<and>
           (r = TC_TLV_OK \<longleftrightarrow> ts_used s' = 0 \<and> \<not> ts_primitive s' \<and> ts_depth s' = 0)
      else r \<in> {TC_TLV_INVALID, TC_TLV_LIMIT} \<and> ts_error s' = r))"

lemma feed_loop_good:
  assumes "stream_ok s" "header_at \<noteq> NULL" "p \<le> b_length chunk" "b_length chunk - p < fuel"
  shows "\<exists>out. feed_loop fuel ber visit header_at s chunk p = Some out \<and> good_result s (b_length chunk - p) out"
  using assms
proof (induction fuel arbitrary: s p)
  case 0
  then show ?case by simp
next
  case (Suc fuel)
  show ?case
  proof (cases "p < b_length chunk")
    case False
    then show ?thesis using Suc.prems by (auto simp: good_result_def same_setup_def)
  next
    case True
    note g = feed_iteration_good [OF Suc.prems(1) True Suc.prems(2), of ber visit]
    show ?thesis
    proof (cases "feed_iteration ber visit header_at s chunk p")
      case (Feed_Fail r s' evs)
      then show ?thesis using g True by (auto simp: good_step_def good_result_def)
    next
      case (Feed_Next s' q evs)
      then have s': "stream_ok s'" "p < q" "q \<le> b_length chunk" "ts_offset s' = ts_offset s + (q - p)"
        "ts_error s' = ts_error s" "same_setup s s'" using g by (simp_all add: good_step_def)
      have "b_length chunk - q < fuel" using s'(2,3) Suc.prems(4) True by linarith
      from Suc.IH [OF s'(1) Suc.prems(2) s'(3) this] obtain r s'' evs'
        where "feed_loop fuel ber visit header_at s' chunk q = Some (r, s'', evs')" "good_result s' (b_length chunk - q) (r, s'', evs')"
        by auto
      then show ?thesis using Feed_Next True s'
        by (auto simp: good_result_def same_setup_def split: if_splits)
    qed
  qed
qed

section \<open>Independence of the chunks\<close>

text \<open>
  The reference: a machine that takes the message byte by byte. Its step is one iteration of the loop on
  a chunk of one byte, without events.
\<close>

definition one_byte :: "u8 \<Rightarrow> TC_bytes" where
  "one_byte b = \<lparr>b_data = LOCAL, b_length = 1, b_mem = [b]\<rparr>"

definition stream_status :: "TC_TLV_stream \<Rightarrow> TC_result" where
  "stream_status s = (if ts_used s \<noteq> 0 \<or> ts_primitive s \<or> ts_depth s \<noteq> 0 then TC_TLV_MORE else TC_TLV_OK)"

fun byte_run :: "bool \<Rightarrow> TC_TLV_stream \<Rightarrow> u8 list \<Rightarrow> TC_result \<times> TC_TLV_stream" where
  "byte_run ber s [] = (stream_status s, s)"
| "byte_run ber s (b # bs) =
     (case feed_iteration ber False LOCAL s (one_byte b) 0 of
        Feed_Fail r s' _ \<Rightarrow> (r, s')
      | Feed_Next s' _ _ \<Rightarrow> byte_run ber s' bs)"

lemma close_definite_silent: "fst (close_definite visit s) = fst (close_definite False s)"
proof (induction visit s rule: close_definite.induct)
  case (1 visit s)
  then show ?case
    by (subst (1 2) close_definite.simps) (simp add: Let_def split_beta)
qed

lemma header_parse_address:
  "a \<noteq> NULL \<Longrightarrow> a' \<noteq> NULL \<Longrightarrow> tc_tlv_header_parse ber a mem n profile maxv = tc_tlv_header_parse ber a' mem n profile maxv"
  by (simp add: tc_tlv_header_parse_def tc_tlv_header_read_def)

text \<open>The outcome of an iteration without its events, relative to the position it started at.\<close>

definition outcome :: "nat \<Rightarrow> feed_step \<Rightarrow> (TC_result \<times> TC_TLV_stream) + (TC_TLV_stream \<times> nat)" where
  "outcome p st = (case st of Feed_Fail r s _ \<Rightarrow> Inl (r, s) | Feed_Next s q _ \<Rightarrow> Inr (s, q - p))"

lemma outcome_simps [simp]:
  "outcome p (Feed_Fail r s e) = Inl (r, s)" "outcome p (Feed_Next s q e) = Inr (s, q - p)"
  "outcome p (feed_fail s r) = Inl (fail s r)"
  by (simp_all add: outcome_def feed_fail_def)

lemma eoc_outcome:
  "outcome p (feed_eoc visit a s chunk (p + 1)) = outcome p' (feed_eoc visit' a' s chunk' (p' + 1))"
  unfolding feed_eoc_def Let_def split_beta
  by (simp add: close_definite_silent [of visit] close_definite_silent [of visit'])

lemma header_outcome:
  "outcome p (feed_header visit a c s chunk (p + 1) h) = outcome p' (feed_header visit' a' c s chunk' (p' + 1) h)"
  unfolding feed_header_def Let_def split_beta
  by (simp add: close_definite_silent [of visit] close_definite_silent [of visit'])

lemma byte_outcome:
  assumes "\<not> ts_primitive s" "b_mem chunk ! p = b_mem chunk' ! p'" "a \<noteq> NULL" "a' \<noteq> NULL"
  shows "outcome p (feed_iteration ber visit a s chunk p) = outcome p' (feed_iteration ber visit' a' s chunk' p')"
proof -
  consider (full) "bound s \<le> ts_offset s" | (pad) "ts_offset s < bound s" "ts_depth s = 0 \<and> ts_used s = 0 \<and> tc_tlv_padding (ts_profile s) (b_mem chunk ! p)"
    | (long) "ts_offset s < bound s" "\<not> (ts_depth s = 0 \<and> ts_used s = 0 \<and> tc_tlv_padding (ts_profile s) (b_mem chunk ! p))" "ts_used s = TC_TLV_HEADER_BYTES"
    | (byte) "ts_offset s < bound s" "\<not> (ts_depth s = 0 \<and> ts_used s = 0 \<and> tc_tlv_padding (ts_profile s) (b_mem chunk ! p))" "ts_used s \<noteq> TC_TLV_HEADER_BYTES"
    by linarith
  then show ?thesis
  proof cases
    case byte
    let ?s = "take_byte s (b_mem chunk ! p)"
    have byte': "\<not> (ts_depth s = 0 \<and> ts_used s = 0 \<and> tc_tlv_padding (ts_profile s) (b_mem chunk' ! p'))"
      using byte(2) assms(2) by simp
    note e = feed_byte_eq [OF byte(1) assms(1) byte(2,3), of ber visit a]
      feed_byte_eq [OF byte(1) assms(1) byte' byte(3), of ber visit' a']
    show ?thesis
      unfolding e assms(2) [symmetric] Let_def header_parse_address [OF assms(4,3)]
      using eoc_outcome [of p visit a ?s chunk p' visit' a' chunk'] header_outcome [of p visit a "bound s" ?s chunk _ p' visit' a' chunk']
      by (simp split: sum.split)
  qed (use assms in \<open>simp_all add: feed_iteration_def Let_def\<close>)
qed

text \<open>What taking \<open>n\<close> bytes of a primitive value leaves.\<close>

definition after_value :: "TC_TLV_stream \<Rightarrow> nat \<Rightarrow> TC_TLV_stream" where
  "after_value s n =
     (let s' = s\<lparr>ts_offset := ts_offset s + n, ts_remaining := ts_remaining s - n\<rparr>
      in if ts_remaining s' = 0 then fst (close_definite False (s'\<lparr>ts_primitive := False\<rparr>)) else s')"

lemma primitive_outcome:
  assumes "stream_ok s" "ts_primitive s"
  shows "outcome p (feed_iteration ber visit a s chunk p) =
    (let n = min (ts_remaining s) (b_length chunk - p) in Inr (after_value s n, n))"
proof -
  have ok: "0 < ts_remaining s" "ts_remaining s \<le> bound s - ts_offset s" using assms by (auto simp: stream_ok_def)
  then have nb: "\<not> bound s \<le> ts_offset s" by simp
  have n: "(if b_length chunk - p > ts_remaining s then ts_remaining s else b_length chunk - p) = min (ts_remaining s) (b_length chunk - p)"
    by (simp add: min_def)
  have le: "\<not> min (ts_remaining s) (b_length chunk - p) > bound s - ts_offset s" using ok by simp
  show ?thesis
    unfolding feed_iteration_def feed_primitive_def n Let_def after_value_def split_beta
    using nb le assms(2) by (simp add: close_definite_silent [of visit])
qed

lemma byte_run_value:
  assumes "stream_ok s" "ts_primitive s" "n \<le> ts_remaining s" "n \<le> length xs" "0 < n"
  shows "byte_run ber s xs = byte_run ber (after_value s n) (drop n xs)"
  using assms
proof (induction n arbitrary: s xs)
  case 0
  then show ?case by simp
next
  case (Suc n)
  obtain b bs where xs: "xs = b # bs" using Suc.prems(4) by (cases xs) auto
  have ok: "0 < ts_remaining s" "ts_remaining s \<le> bound s - ts_offset s" "ts_offset s \<le> bound s"
    using Suc.prems(1,2) by (auto simp: stream_ok_def)
  have "outcome 0 (feed_iteration ber False LOCAL s (one_byte b) 0) = Inr (after_value s 1, 1)"
    using primitive_outcome [OF Suc.prems(1,2), of 0 ber False LOCAL "one_byte b"] ok(1)
    by (simp add: one_byte_def Let_def min_absorb2 Suc_leI)
  then have one: "byte_run ber s xs = byte_run ber (after_value s 1) bs"
    by (auto simp: xs outcome_def split: feed_step.splits)
  show ?case
  proof (cases "n = 0")
    case True
    then show ?thesis using one by (simp add: xs)
  next
    case False
    let ?s = "s\<lparr>ts_offset := ts_offset s + 1, ts_remaining := ts_remaining s - 1\<rparr>"
    have r: "1 < ts_remaining s" using False Suc.prems(3) by simp
    then have s: "after_value s 1 = ?s" by (simp add: after_value_def)
    have okn: "stream_ok ?s" "ts_primitive ?s" using Suc.prems(1,2) ok r by (auto simp: stream_ok_def)
    have "byte_run ber ?s bs = byte_run ber (after_value ?s n) (drop n bs)"
      using Suc.IH [OF okn] Suc.prems(3,4) False by (simp add: xs)
    moreover have "after_value ?s n = after_value s (Suc n)" by (simp add: after_value_def add.commute)
    ultimately show ?thesis using one s by (simp add: xs)
  qed
qed

text \<open>The loop over a chunk does what the machine does on the bytes of the chunk.\<close>

lemma feed_loop_byte_run:
  assumes "stream_ok s" "header_at \<noteq> NULL" "b_length chunk = length (b_mem chunk)" "p \<le> b_length chunk" "b_length chunk - p < fuel"
  shows "\<exists>evs. feed_loop fuel ber visit header_at s chunk p =
    Some (fst (byte_run ber s (drop p (b_mem chunk))), snd (byte_run ber s (drop p (b_mem chunk))), evs)"
  using assms
proof (induction fuel arbitrary: s p)
  case 0
  then show ?case by simp
next
  case (Suc fuel)
  show ?case
  proof (cases "p < b_length chunk")
    case False
    then show ?thesis using Suc.prems by (simp add: stream_status_def)
  next
    case True
    let ?xs = "drop p (b_mem chunk)"
    have xs: "?xs = b_mem chunk ! p # drop (Suc p) (b_mem chunk)" using True Suc.prems(3) by (simp add: Cons_nth_drop_Suc)
    note g = feed_iteration_good [OF Suc.prems(1) True Suc.prems(2), of ber visit]
    have run: "byte_run ber s ?xs = (case outcome p (feed_iteration ber visit header_at s chunk p) of
        Inl rs \<Rightarrow> rs | Inr (s', n) \<Rightarrow> byte_run ber s' (drop n ?xs))"
    proof (cases "ts_primitive s")
      case prim: True
      have "0 < ts_remaining s" using Suc.prems(1) prim by (simp add: stream_ok_def)
      then show ?thesis
        using byte_run_value [OF Suc.prems(1) prim, of "min (ts_remaining s) (b_length chunk - p)" ?xs ber]
          primitive_outcome [OF Suc.prems(1) prim, of p ber visit header_at chunk] True Suc.prems(3)
        by (simp add: Let_def)
    next
      case False
      have o: "outcome 0 (feed_iteration ber False LOCAL s (one_byte (b_mem chunk ! p)) 0) =
          outcome p (feed_iteration ber visit header_at s chunk p)"
        using False Suc.prems(2) by (intro byte_outcome) (simp_all add: one_byte_def LOCAL_def)
      have "good_step s 0 1 (feed_iteration ber False LOCAL s (one_byte (b_mem chunk ! p)) 0)"
        using feed_iteration_good [OF Suc.prems(1), of 0 "one_byte (b_mem chunk ! p)" LOCAL ber False]
        by (simp add: one_byte_def LOCAL_def)
      then show ?thesis
        unfolding xs o [symmetric]
        by (cases "feed_iteration ber False LOCAL s (one_byte (b_mem chunk ! p)) 0") (auto simp: good_step_def le_Suc_eq)
    qed
    show ?thesis
    proof (cases "feed_iteration ber visit header_at s chunk p")
      case (Feed_Fail r s' evs)
      then show ?thesis using run True by simp
    next
      case (Feed_Next s' q evs)
      then have s': "stream_ok s'" "p < q" "q \<le> b_length chunk" using g by (simp_all add: good_step_def)
      have "b_length chunk - q < fuel" using s'(2,3) Suc.prems(5) True by linarith
      from Suc.IH [OF s'(1) Suc.prems(2,3) s'(3) this] show ?thesis using Feed_Next True run s'(2) by auto
    qed
  qed
qed

lemma byte_run_append:
  assumes "stream_ok s"
  shows "byte_run ber s (xs @ ys) =
    (case byte_run ber s xs of (r, s') \<Rightarrow> if r \<in> {TC_TLV_OK, TC_TLV_MORE} then byte_run ber s' ys else (r, s'))"
  using assms
proof (induction xs arbitrary: s)
  case Nil
  then show ?case by (simp add: stream_status_def)
next
  case (Cons b xs)
  have g: "good_step s 0 1 (feed_iteration ber False LOCAL s (one_byte b) 0)"
    using feed_iteration_good [OF Cons.prems, of 0 "one_byte b" LOCAL ber False] by (simp add: one_byte_def LOCAL_def)
  then show ?case
    using Cons.IH by (auto simp: good_step_def split: feed_step.splits)
qed

text \<open>A stream that accepts input, and the result of a call that consumed its chunk or failed.\<close>

definition stream_live :: "TC_TLV_stream \<Rightarrow> bool" where
  "stream_live s \<longleftrightarrow> stream_ok s \<and> ts_error s = TC_TLV_OK \<and> \<not> ts_finished s"

lemma feed_eq:
  assumes "stream_live s" "at \<noteq> NULL" "header_at \<noteq> NULL" "b_length chunk = length (b_mem chunk)"
    "b_data chunk = NULL \<longrightarrow> b_length chunk = 0" "ts_offset s + b_length chunk \<le> tl_max_input (ts_limits s)"
  shows "\<exists>evs. feed ber visit at header_at s chunk = Some (fst (byte_run ber s (b_mem chunk)), snd (byte_run ber s (b_mem chunk)), evs)"
    and "\<exists>out. feed ber visit at header_at s chunk = Some out \<and> good_result s (b_length chunk) out"
proof -
  have ok: "stream_ok s" using assms(1) by (simp add: stream_live_def)
  have "feed ber visit at header_at s chunk = feed_loop (b_length chunk + 1) ber visit header_at s chunk 0"
    using assms by (auto simp: feed_def stream_live_def)
  then show "\<exists>evs. feed ber visit at header_at s chunk = Some (fst (byte_run ber s (b_mem chunk)), snd (byte_run ber s (b_mem chunk)), evs)"
    and "\<exists>out. feed ber visit at header_at s chunk = Some out \<and> good_result s (b_length chunk) out"
    using feed_loop_byte_run [OF ok assms(3,4), of 0 "b_length chunk + 1" ber visit]
      feed_loop_good [OF ok assms(3), of 0 chunk "b_length chunk + 1" ber visit] by simp_all
qed

section \<open>Starting, walking and reading one object\<close>

lemma initialize_live:
  assumes "initialize ber at s0 profile limits frames = (TC_TLV_OK, s)" "length (tfs_mem frames) = tfs_capacity frames"
  shows "stream_live s \<and> ts_offset s = 0 \<and> limits = Some (ts_limits s) \<and> ts_profile s = profile \<and>
    ts_depth s = 0 \<and> ts_elements s = 0 \<and> ts_used s = 0 \<and> \<not> ts_primitive s \<and> ts_capacity s = tfs_capacity frames"
  using assms
  by (cases limits) (auto simp: initialize_def tc_tlv_config_def stream_live_def stream_ok_def bound_def Let_def split: if_splits)

lemma read_tree_loop_total:
  assumes "b_length input = length (b_mem input)" "b_data input \<noteq> NULL" "b_length input \<le> tl_max_input (ts_limits s)"
    "stream_ok s" "\<not> ts_finished s" "ts_offset s \<le> b_length input" "b_length input - ts_offset s < fuel" "r = TC_TLV_MORE \<longrightarrow> ts_error s = TC_TLV_OK"
  shows "\<exists>out. read_tree_loop (Suc fuel) ber input r s = Some out"
  using assms
proof (induction fuel arbitrary: r s)
  case 0
  then show ?case by simp
next
  case (Suc fuel)
  define n where "n = (if ts_primitive s then ts_remaining s
    else if ts_depth s \<noteq> 0 \<and> tf_indefinite (top_frame s) = 0 then tf_end (top_frame s) - ts_offset s else 1)"
  define m where "m = (if n > b_length input - ts_offset s then b_length input - ts_offset s else n)"
  have loop: "read_tree_loop (Suc (Suc fuel)) ber input r s =
    (if r \<noteq> TC_TLV_MORE then Some (r, s) else if n = 0 then Some (TC_TLV_INVALID, s)
     else if ts_offset s = b_length input then Some (TC_TLV_MORE, s)
     else case feed ber False LOCAL LOCAL s (span_from input (ts_offset s) m) of
            None \<Rightarrow> None | Some (r, s, _) \<Rightarrow> read_tree_loop (Suc fuel) ber input r s)"
    unfolding m_def n_def by (simp only: read_tree_loop.simps Let_def)
  show ?case
  proof (cases "r \<noteq> TC_TLV_MORE \<or> n = 0 \<or> ts_offset s = b_length input")
    case True
    then show ?thesis unfolding loop by auto
  next
    case False
    let ?c = "span_from input (ts_offset s) m"
    have m: "0 < m" "ts_offset s + m \<le> b_length input" using False Suc.prems(6) by (auto simp: m_def)
    have c: "b_length ?c = m" "b_length ?c = length (b_mem ?c)" "b_data ?c \<noteq> NULL"
      using m Suc.prems(1,2) by (simp_all add: span_from_def)
    have live: "stream_live s" using Suc.prems(4,5,8) False by (simp add: stream_live_def)
    from feed_eq(2) [OF live _ _ c(2), of LOCAL LOCAL ber False] c m Suc.prems(3) obtain r' s' evs
      where f: "feed ber False LOCAL LOCAL s ?c = Some (r', s', evs)" "good_result s m (r', s', evs)"
      by (auto simp: LOCAL_def)
    have eq: "read_tree_loop (Suc (Suc fuel)) ber input r s = read_tree_loop (Suc fuel) ber input r' s'"
      unfolding loop f(1) using False by simp
    show ?thesis
    proof (cases "r' = TC_TLV_MORE")
      case True
      then have "stream_ok s'" "ts_offset s' = ts_offset s + m" "ts_error s' = ts_error s" "same_setup s s'"
        using f(2) by (simp_all add: good_result_def)
      then show ?thesis unfolding eq using Suc.prems m live
        by (intro Suc.IH) (auto simp: same_setup_def stream_live_def)
    next
      case False
      then show ?thesis unfolding eq by simp
    qed
  qed
qed

section \<open>Sequences of calls\<close>

text \<open>Every stream the public calls can produce, with any pieces, in any order.\<close>

inductive tlv_reachable :: "bool \<Rightarrow> TC_TLV_stream obj \<Rightarrow> bool" for ber where
  at_init: "TC_TLV_stream_init ber s0 profile limits frames = (TC_TLV_OK, s) \<Longrightarrow>
     length (tfs_mem frames) = tfs_capacity frames \<Longrightarrow> tlv_reachable ber s"
| at_feed: "tlv_reachable ber s \<Longrightarrow> b_length chunk = length (b_mem chunk) \<Longrightarrow>
     TC_TLV_stream_feed ber s chunk visit = Some (r, s', evs) \<Longrightarrow> tlv_reachable ber s'"
| at_finish: "tlv_reachable ber s \<Longrightarrow> TC_TLV_stream_finish s = (r, s') \<Longrightarrow> tlv_reachable ber s'"

lemma feed_total:
  assumes "stream_ok s" "at \<noteq> NULL" "header_at \<noteq> NULL" "b_length chunk = length (b_mem chunk)"
  shows "\<exists>r s' evs. feed ber visit at header_at s chunk = Some (r, s', evs) \<and> stream_ok s' \<and>
    (r \<notin> {TC_TLV_OK, TC_TLV_MORE, TC_TLV_ARGUMENT} \<longrightarrow> ts_error s' = r)"
proof (cases "(b_data chunk = NULL \<and> b_length chunk \<noteq> 0) \<or> ts_error s \<noteq> TC_TLV_OK \<or> ts_finished s \<or>
    tl_max_input (ts_limits s) < ts_offset s + b_length chunk")
  case True
  moreover have "stream_ok (s\<lparr>ts_error := TC_TLV_LIMIT\<rparr>)" using assms(1) by (simp add: stream_ok_def)
  moreover have "ts_offset s \<le> tl_max_input (ts_limits s)"
    using assms(1) stack_bound_le bound_eq [of s] by (fastforce simp: stream_ok_def)
  ultimately show ?thesis using assms(1,2) by (auto simp: feed_def fail_def)
next
  case False
  then have "stream_live s" using assms(1) by (auto simp: stream_live_def)
  from feed_eq(2) [OF this assms(2-4), of ber visit] False show ?thesis
    by (auto simp: good_result_def split: if_splits)
qed

lemma finish_ok: "stream_ok s \<Longrightarrow> finish at s = (r, s') \<Longrightarrow> stream_ok s'"
  by (auto simp: finish_def fail_def stream_ok_def split: if_splits)

lemma reachable_ok:
  "tlv_reachable ber s \<Longrightarrow> o_addr s \<noteq> NULL \<and> stream_ok (o_val s)"
proof (induction rule: tlv_reachable.induct)
  case (at_init s0 profile limits frames s)
  then obtain v where "initialize ber (o_addr s0) (o_val s0) profile limits frames = (TC_TLV_OK, v)" "s = s0\<lparr>o_val := v\<rparr>"
    by (auto simp: TC_TLV_stream_init_def split: prod.splits)
  moreover from this(1) have "o_addr s0 \<noteq> NULL" by (auto simp: initialize_def Let_def split: if_splits)
  ultimately show ?case using initialize_live at_init(2) by (auto simp: stream_live_def)
next
  case (at_feed s chunk visit r s' evs)
  moreover have "header_member s \<noteq> NULL" by (simp add: header_member_def)
  ultimately show ?case
    using feed_total [of "o_val s" "o_addr s" "header_member s" chunk ber visit]
    by (auto simp: TC_TLV_stream_feed_def split: option.splits)
next
  case (at_finish s r s')
  then show ?case using finish_ok by (auto simp: TC_TLV_stream_finish_def split: prod.splits)
qed

text \<open>The effect of a call on a chunk that fits, in terms of the byte machine.\<close>

lemma stream_feed_eq:
  assumes "stream_live (o_val s)" "o_addr s \<noteq> NULL" "b_length chunk = length (b_mem chunk)" "b_data chunk \<noteq> NULL"
    "ts_offset (o_val s) + b_length chunk \<le> tl_max_input (ts_limits (o_val s))"
  obtains r v evs where "byte_run ber (o_val s) (b_mem chunk) = (r, v)"
    "TC_TLV_stream_feed ber s chunk visit = Some (r, s\<lparr>o_val := v\<rparr>, evs)" "good_result (o_val s) (b_length chunk) (r, v, evs)"
proof -
  have "header_member s \<noteq> NULL" by (simp add: header_member_def)
  from feed_eq [OF assms(1,2) this assms(3) _ assms(5), of ber visit] assms(4) that show ?thesis
    by (cases "byte_run ber (o_val s) (b_mem chunk)") (auto simp: TC_TLV_stream_feed_def)
qed

lemma stream_feed_failed:
  assumes "o_addr s \<noteq> NULL" "ts_error (o_val s) \<noteq> TC_TLV_OK" "b_data chunk \<noteq> NULL"
  shows "TC_TLV_stream_feed ber s chunk visit = Some (ts_error (o_val s), s, [])"
  using assms by (simp add: TC_TLV_stream_feed_def feed_def)

lemma good_result_live:
  "stream_live s \<Longrightarrow> good_result s n (r, v, evs) \<Longrightarrow> r \<in> {TC_TLV_OK, TC_TLV_MORE} \<Longrightarrow>
   stream_live v \<and> ts_offset v = ts_offset s + n \<and> ts_limits v = ts_limits s"
  by (auto simp: good_result_def stream_live_def same_setup_def)

text \<open>Feeding a message in any number of pieces.\<close>

fun stream_run :: "bool \<Rightarrow> TC_TLV_stream obj \<Rightarrow> TC_bytes list \<Rightarrow> TC_TLV_stream obj option" where
  "stream_run ber s [] = Some s"
| "stream_run ber s (chunk # pieces) =
     (case TC_TLV_stream_feed ber s chunk False of None \<Rightarrow> None | Some (_, s', _) \<Rightarrow> stream_run ber s' pieces)"

definition chunk_ok :: "TC_bytes \<Rightarrow> bool" where
  "chunk_ok chunk \<longleftrightarrow> b_length chunk = length (b_mem chunk) \<and> b_data chunk \<noteq> NULL"

lemma stream_run_failed:
  "o_addr s \<noteq> NULL \<Longrightarrow> ts_error (o_val s) \<noteq> TC_TLV_OK \<Longrightarrow> list_all chunk_ok pieces \<Longrightarrow> stream_run ber s pieces = Some s"
  by (induction pieces) (auto simp: stream_feed_failed chunk_ok_def)

lemma stream_run_eq:
  assumes "stream_live (o_val s)" "o_addr s \<noteq> NULL" "list_all chunk_ok pieces"
    "ts_offset (o_val s) + length (concat (map b_mem pieces)) \<le> tl_max_input (ts_limits (o_val s))"
  shows "stream_run ber s pieces = Some (s\<lparr>o_val := snd (byte_run ber (o_val s) (concat (map b_mem pieces)))\<rparr>)"
  using assms
proof (induction pieces arbitrary: s)
  case Nil
  then show ?case by simp
next
  case (Cons c cs)
  have c: "b_length c = length (b_mem c)" "b_data c \<noteq> NULL" using Cons.prems(3) by (auto simp: chunk_ok_def)
  obtain r v evs where f: "byte_run ber (o_val s) (b_mem c) = (r, v)"
    "TC_TLV_stream_feed ber s c False = Some (r, s\<lparr>o_val := v\<rparr>, evs)" "good_result (o_val s) (b_length c) (r, v, evs)"
    by (rule stream_feed_eq [OF Cons.prems(1,2) c]) (use Cons.prems(4) c in simp_all)
  have ok: "stream_ok (o_val s)" using Cons.prems(1) by (simp add: stream_live_def)
  show ?case
  proof (cases "r \<in> {TC_TLV_OK, TC_TLV_MORE}")
    case True
    with good_result_live [OF Cons.prems(1) f(3)] have "stream_live v" "ts_offset v = ts_offset (o_val s) + b_length c"
      "ts_limits v = ts_limits (o_val s)" by blast+
    then show ?thesis
      using Cons.IH [of "s\<lparr>o_val := v\<rparr>"] Cons.prems True f(1,2) c byte_run_append [OF ok, of ber "b_mem c"] by auto
  next
    case False
    then have "ts_error v \<noteq> TC_TLV_OK" using f(3) by (auto simp: good_result_def)
    then show ?thesis
      using False f(1,2) Cons.prems(2,3) byte_run_append [OF ok, of ber "b_mem c"] by (auto simp: stream_run_failed)
  qed
qed

text \<open>Input past the limit: one call refuses its chunk before it consumes a byte, and a sequence of pieces ends in an error.\<close>

lemma stream_feed_limit:
  assumes "stream_live (o_val s)" "o_addr s \<noteq> NULL" "b_data chunk \<noteq> NULL"
    "tl_max_input (ts_limits (o_val s)) < ts_offset (o_val s) + b_length chunk"
  shows "TC_TLV_stream_feed ber s chunk visit = Some (TC_TLV_LIMIT, s\<lparr>o_val := (o_val s)\<lparr>ts_error := TC_TLV_LIMIT\<rparr>\<rparr>, [])"
  using assms by (auto simp: TC_TLV_stream_feed_def feed_def fail_def stream_live_def)

lemma stream_run_limit:
  assumes "stream_live (o_val s)" "o_addr s \<noteq> NULL" "list_all chunk_ok pieces"
    "tl_max_input (ts_limits (o_val s)) < ts_offset (o_val s) + length (concat (map b_mem pieces))"
  shows "\<exists>s'. stream_run ber s pieces = Some s' \<and> o_addr s' = o_addr s \<and> ts_error (o_val s') \<notin> {TC_TLV_OK, TC_TLV_MORE}"
  using assms
proof (induction pieces arbitrary: s)
  case Nil
  then show ?case using stream_ok_bound [of "o_val s"] by (simp add: stream_live_def stream_ok_def)
next
  case (Cons c cs)
  have "chunk_ok c" and cs: "list_all chunk_ok cs" using Cons.prems(3) by simp_all
  then have c: "b_length c = length (b_mem c)" "b_data c \<noteq> NULL" by (simp_all add: chunk_ok_def)
  show ?case
  proof (cases "ts_offset (o_val s) + b_length c \<le> tl_max_input (ts_limits (o_val s))")
    case True
    obtain r v evs where f: "TC_TLV_stream_feed ber s c False = Some (r, s\<lparr>o_val := v\<rparr>, evs)" "good_result (o_val s) (b_length c) (r, v, evs)"
      by (rule stream_feed_eq [OF Cons.prems(1,2) c(1,2) True])
    show ?thesis
    proof (cases "r \<in> {TC_TLV_OK, TC_TLV_MORE}")
      case True
      note v = good_result_live [OF Cons.prems(1) f(2) True]
      then show ?thesis using Cons.IH [of "s\<lparr>o_val := v\<rparr>"] Cons.prems(2,4) c cs f(1) by auto
    next
      case False
      then have "ts_error v = r" using f(2) by (auto simp: good_result_def)
      then show ?thesis using False f(1) stream_run_failed [of "s\<lparr>o_val := v\<rparr>" cs ber] Cons.prems(2) cs by auto
    qed
  next
    case False
    then have f: "TC_TLV_stream_feed ber s c False = Some (TC_TLV_LIMIT, s\<lparr>o_val := (o_val s)\<lparr>ts_error := TC_TLV_LIMIT\<rparr>\<rparr>, [])"
      using stream_feed_limit [OF Cons.prems(1,2) c(2)] by simp
    show ?thesis
      using stream_run_failed [of "s\<lparr>o_val := (o_val s)\<lparr>ts_error := TC_TLV_LIMIT\<rparr>\<rparr>" cs ber] Cons.prems(2) cs by (simp add: f)
  qed
qed

end
