(* ===== verification/TLV_Properties.thy ===== *)
theory TLV_Properties
  imports TLV_Stream
begin

text \<open>
  The contracts of the TLV readers, the header writer and the incremental decoder, over the public
  operations, each followed by an application at concrete bytes.
\<close>

section \<open>Concrete arguments\<close>

definition tlv_lim :: TC_TLV_limits where
  "tlv_lim = \<lparr>tl_max_input = 1000, tl_max_value = 500, tl_max_elements = 20, tl_max_depth = 4\<rparr>"

definition tlv_span :: "u8 list \<Rightarrow> TC_bytes" where
  "tlv_span bs = \<lparr>b_data = 4096, b_length = length bs, b_mem = bs\<rparr>"

definition tlv_frames :: TC_TLV_frames where
  "tlv_frames = \<lparr>tfs_data = 8192, tfs_capacity = 2,
     tfs_mem = replicate 2 \<lparr>tf_end = 0, tf_bound = 0, tf_start = 0, tf_indefinite = 0, tf_resource_bound = 0\<rparr>\<rparr>"

definition tlv_reader_at :: "TC_TLV_reader obj" where
  "tlv_reader_at = \<lparr>o_addr = 9000, o_size = 88, o_val = \<lparr>tr_input = null_span, tr_limits = tlv_lim, tr_offset = 0,
     tr_elements = 0, tr_profile = TC_TLV_DER, tr_root = 0\<rparr>\<rparr>"

definition tlv_stream_at :: "TC_TLV_stream obj" where
  "tlv_stream_at = \<lparr>o_addr = 10000, o_size = 150, o_val = stream_local\<rparr>"

lemma tlv_span_simps [simp]:
  "b_data (tlv_span bs) = 4096" "b_length (tlv_span bs) = length bs" "b_mem (tlv_span bs) = bs"
  by (simp_all add: tlv_span_def)

lemmas tlv_item_simps = item_ok_def tag_ok_def iso_profile_def item_bytes_def ber_identifier_def der_length_def

section \<open>Headers\<close>

text \<open>C24: The header writer and the header reader agree: for every tag the encoding rules give and every value length
  up to FFFFFF, \<^verbatim>\<open>tc_tlv_header_write\<close> stores exactly as many bytes as \<^verbatim>\<open>tc_tlv_header_size\<close> announced, and every
  profile reads the tag class, the constructed bit, the number and the length back from them.\<close>

theorem tlv_header_round_trip:
  assumes "tag_ok (iso_profile profile) c k n" "l < 2 ^ 24" "l \<le> tl_max_value lim"
    "tc_tlv_config ber profile (Some lim) = TC_TLV_OK"
    "tc_tlv_header_size (length (ber_identifier c k n)) l \<le> length out" "length out \<le> tl_max_input lim"
  shows "\<exists>bytes size h. tc_tlv_header_write out (ber_identifier c k n) (length (ber_identifier c k n)) l = (bytes, size) \<and>
           size = tc_tlv_header_size (length (ber_identifier c k n)) l \<and> 0 < size \<and>
           TC_TLV_header_read ber (tlv_span bytes) profile (Some lim) LOCAL = Inr h \<and>
           unat (th_tag_class h) = c \<and> (th_constructed h = 1 \<longleftrightarrow> k) \<and> th_number h = n \<and> th_length h = l \<and>
           th_header_length h = size \<and> th_indefinite h = 0"
proof -
  let ?id = "ber_identifier c k n" let ?size = "tc_tlv_header_size (length ?id) l"
  have c: "c < 4" and n: "n < 2 ^ 32" using assms(1) by (simp_all add: tag_ok_def)
  have size: "?size = length ?id + length (der_length l)" "0 < length ?id"
    using assms(2) length_ber_identifier [OF n, of c k] by (simp_all add: header_size_eq ber_identifier_def)
  let ?bytes = "(?id @ der_length l) @ drop ?size out"
  have w: "tc_tlv_header_write out ?id (length ?id) l = (?bytes, ?size)"
    using size assms(5) by (intro header_write_eq) simp_all
  have len: "length ?bytes \<le> tl_max_input lim" using size(1) assms(5,6) by simp
  have "take (length ?bytes) ?bytes = ?id @ der_length l @ drop ?size out" by simp
  note p = header_parse_complete [OF this assms(1) _ assms(3), of 4096 ber]
  have "TC_TLV_header_read ber (tlv_span ?bytes) profile (Some lim) LOCAL =
      tc_tlv_header_parse ber 4096 ?bytes (length ?bytes) profile (tl_max_value lim)"
    using assms(4) len by (simp add: TC_TLV_header_read_def Let_def LOCAL_def)
  with p w size c assms(2) show ?thesis by auto
qed

theorem tlv_header_round_trip_witness:
  "\<exists>bytes size h. tc_tlv_header_write (replicate 9 0) [0x7f, 0x21] 2 300 = (bytes, size) \<and> size = 5 \<and>
     TC_TLV_header_read False (tlv_span bytes) TC_TLV_ISO7816 (Some tlv_lim) LOCAL = Inr h \<and>
     th_number h = 0x21 \<and> th_length h = 300"
proof -
  have id: "ber_identifier 1 True 0x21 = [0x7f, 0x21]"
    by (simp add: ber_identifier_def number_octets_def)
  have "tag_ok True 1 True 0x21" unfolding tag_ok_def id by simp
  moreover have "tc_tlv_header_size 2 300 = 5"
    by (simp add: tc_tlv_header_size_def TC_TLV_TAG_BYTES_def SHORT_FORM_MAX_def MAX_LENGTH_OCTETS_def long_form_octets.simps)
  moreover have "length [0x7f, 0x21 :: u8] = 2" by simp
  ultimately show ?thesis
    using tlv_header_round_trip [of TC_TLV_ISO7816 1 True "0x21" 300 tlv_lim False "replicate 9 0"]
    unfolding id by (fastforce simp: iso_profile_def tlv_lim_def tc_tlv_config_def simp del: list.size)
qed

text \<open>C10: DER headers are canonical: whatever bytes follow, a header the DER profile accepts is the identifier octets
  of its tag followed by the shortest definite length octets, so two different headers never stand for
  the same tag and length.\<close>

theorem der_header_canonical:
  assumes "TC_TLV_header_read ber input TC_TLV_DER (Some lim) out = Inr h" "b_length input = length (b_mem input)"
  shows "take (th_header_length h) (b_mem input) =
           ber_identifier (unat (th_tag_class h)) (th_constructed h = 1) (th_number h) @ der_length (th_length h) \<and>
         th_header_length h \<le> b_length input \<and> th_length h \<le> tl_max_value lim \<and> th_indefinite h = 0"
proof -
  have p: "tc_tlv_header_parse ber (b_data input) (b_mem input) (b_length input) TC_TLV_DER (tl_max_value lim) = Inr h"
    using assms(1) by (auto simp: TC_TLV_header_read_def Let_def split: if_splits)
  show ?thesis
  proof (rule header_parse_facts [OF p])
    let ?id = "ber_identifier (unat (th_tag_class h)) (th_constructed h = 1) (th_number h)"
    assume f: "header_of TC_TLV_DER (take (b_length input) (b_mem input)) h"
      "tlv_length_read ber TC_TLV_DER 8 (th_constructed h) (take (b_length input) (b_mem input)) (th_tag_length h) =
         Inr (th_header_length h, th_length h, th_indefinite h)"
      "th_length h \<le> tl_max_value lim" "th_tag_length h < th_header_length h" "th_header_length h \<le> b_length input"
    have tk: "take (b_length input) (b_mem input) = b_mem input" using assms(2) by simp
    obtain ys where ys: "b_mem input = ?id @ ys" "th_tag_length h = length ?id"
      using f(1) assms(2) by (auto simp: header_of_def Let_def)
    have "th_tag_length h < length (b_mem input)" using f(4,5) assms(2) by simp
    from tlv_length_read_der [OF f(2) [unfolded tk] this] obtain zs
      where d: "th_indefinite h = 0" "th_header_length h = th_tag_length h + length (der_length (th_length h))"
        "drop (th_tag_length h) (b_mem input) = der_length (th_length h) @ zs" by blast
    have "b_mem input = ?id @ der_length (th_length h) @ zs" using d(3) ys by simp
    then show ?thesis using d ys f(3,5) by simp
  qed (use assms(2) in simp)
qed

theorem der_header_canonical_witness:
  "\<exists>h. TC_TLV_header_read False (tlv_span [0x30, 0x81, 0x80, 0x55]) TC_TLV_DER (Some tlv_lim) LOCAL = Inr h \<and>
     th_header_length h = 3 \<and>
     [0x30, 0x81, 0x80] = ber_identifier (unat (th_tag_class h)) (th_constructed h = 1) (th_number h) @ der_length (th_length h)"
proof -
  let ?i = "tlv_span [0x30, 0x81, 0x80, 0x55]"
  obtain h where h: "TC_TLV_header_read False ?i TC_TLV_DER (Some tlv_lim) LOCAL = Inr h" "th_header_length h = 3"
    by (simp add: TC_TLV_header_read_def tc_tlv_config_def tc_tlv_header_parse_def tc_tlv_header_read_def tlv_tag_read_def
        tlv_length_read_def iso_profile_def sizeof_size_t_def LOCAL_def tlv_lim_def UINT64_MAX_def Let_def)
  from der_header_canonical [OF h(1)] h show ?thesis by auto
qed

lemma header_read_fits:
  assumes "TC_TLV_header_read ber input profile (Some lim) out = Inr h" "b_length input = length (b_mem input)"
  shows "b_length input \<le> tl_max_input lim" "b_data input \<noteq> NULL" "th_header_length h \<le> b_length input"
proof -
  have p: "tc_tlv_header_parse ber (b_data input) (b_mem input) (b_length input) profile (tl_max_value lim) = Inr h"
    using assms(1) by (auto simp: TC_TLV_header_read_def Let_def split: if_splits)
  show "th_header_length h \<le> b_length input"
    by (rule header_parse_facts [OF p]) (use assms(2) in simp_all)
  show "b_length input \<le> tl_max_input lim" "b_data input \<noteq> NULL"
    using assms(1) p by (auto simp: TC_TLV_header_read_def tc_tlv_header_parse_def tc_tlv_header_read_def Let_def split: if_splits)
qed

section \<open>Objects and siblings\<close>

text \<open>C29: Every span \<^verbatim>\<open>TC_TLV_read\<close> returns lies inside the input: the encoding is a prefix of it, the value is the stop
  part of the encoding and within the value limit.\<close>

theorem tlv_read_inside:
  assumes "TC_TLV_read ber input profile (Some lim) out = Inr e" "b_length input = length (b_mem input)"
  shows "\<exists>hdr rest. b_mem input = hdr @ b_mem (te_value e) @ rest \<and> hdr \<noteq> [] \<and>
           b_mem (te_encoded e) = hdr @ b_mem (te_value e) \<and>
           b_length (te_encoded e) = length (b_mem (te_encoded e)) \<and> b_length (te_value e) = length (b_mem (te_value e)) \<and>
           b_data (te_encoded e) = b_data input \<and> b_data (te_value e) = b_data input + length hdr \<and>
           b_length (te_value e) \<le> tl_max_value lim"
proof -
  let ?h = "te_header e" let ?a = "th_header_length ?h" and ?l = "th_length ?h"
  note f = read_facts [OF assms]
  have "b_mem input = take ?a (b_mem input) @ take ?l (drop ?a (b_mem input)) @ drop (?a + ?l) (b_mem input)"
    by (metis append_take_drop_id drop_drop add.commute)
  moreover have "take (?a + ?l) (b_mem input) = take ?a (b_mem input) @ take ?l (drop ?a (b_mem input))" by (rule take_add)
  ultimately show ?thesis
    using f(3-7) assms(2)
    by (intro exI [of _ "take ?a (b_mem input)"] exI [of _ "drop (?a + ?l) (b_mem input)"]) (auto simp: span_from_def)
qed

theorem tlv_read_inside_witness:
  "\<exists>e hdr rest. TC_TLV_read False (tlv_span [0x04, 2, 0xaa, 0xbb, 0x05]) TC_TLV_DER (Some tlv_lim) LOCAL = Inr e \<and>
     [0x04, 2, 0xaa, 0xbb, 0x05] = hdr @ b_mem (te_value e) @ rest"
proof -
  obtain e where e: "TC_TLV_read False (tlv_span [0x04, 2, 0xaa, 0xbb, 0x05]) TC_TLV_DER (Some tlv_lim) LOCAL = Inr e"
    by (simp add: TC_TLV_read_def TC_TLV_header_read_def tc_tlv_config_def tc_tlv_header_parse_def tc_tlv_header_read_def
        tlv_tag_read_def tlv_length_read_def iso_profile_def sizeof_size_t_def LOCAL_def tlv_lim_def Let_def)
  from tlv_read_inside [OF e] e show ?thesis by auto
qed

text \<open>C25: A sibling reader reads back a sequence of objects: started on the concatenated encodings of any items within
  the limits, repeated \<^verbatim>\<open>TC_TLV_next\<close> calls return exactly these items in order and then report the end.\<close>

theorem tlv_reader_round_trip:
  assumes "list_all (item_ok profile lim) its" "length its \<le> tl_max_elements lim"
    "tc_tlv_config ber profile (Some lim) = TC_TLV_OK" "o_addr reader \<noteq> NULL" "out \<noteq> NULL"
    "b_mem input = concat (map item_bytes its)" "b_length input = length (b_mem input)" "b_data input \<noteq> NULL"
    "b_length input \<le> tl_max_input lim"
    "tc_internal_ranges_disjoint (o_addr reader) (o_size reader) (b_data input) (b_length input)"
  shows "\<exists>start es stop. TC_TLV_reader_init ber reader input profile (Some lim) = (TC_TLV_OK, start) \<and>
           reader_run ber out start es stop \<and> list_all2 is_item its es \<and>
           tr_offset (o_val stop) = b_length input"
proof -
  let ?r = "reader\<lparr>o_val := \<lparr>tr_input = input, tr_limits = lim, tr_offset = 0, tr_elements = 0, tr_profile = profile, tr_root = 1\<rparr>\<rparr>"
  have init: "TC_TLV_reader_init ber reader input profile (Some lim) = (TC_TLV_OK, ?r)"
    using assms by (simp add: TC_TLV_reader_init_def Let_def)
  have ok: "reader_ok ber ?r" using assms by (simp add: reader_ok_def)
  from run_complete [OF ok, of its out] assms obtain es stop
    where run: "reader_run ber out ?r es stop" "list_all2 is_item its es" "reader_rest stop = []"
    by (auto simp: reader_rest_def)
  have "reader_ok ber stop \<and> tr_input (o_val stop) = input"
    using run_keeps [OF run(1) ok] by simp
  then have "tr_offset (o_val stop) = b_length input"
    using run(3) by (auto simp: reader_ok_def reader_rest_def)
  with init run show ?thesis by blast
qed

theorem tlv_reader_round_trip_witness:
  "\<exists>start es stop. TC_TLV_reader_init False tlv_reader_at (tlv_span [0x04, 2, 0xaa, 0xbb, 0xa0, 0]) TC_TLV_DER (Some tlv_lim) = (TC_TLV_OK, start) \<and>
     reader_run False LOCAL start es stop \<and> list_all2 is_item [(0, False, 4, [0xaa, 0xbb]), (2, True, 0, [])] es \<and>
     tr_offset (o_val stop) = b_length (tlv_span [0x04, 2, 0xaa, 0xbb, 0xa0, 0])"
  using tlv_reader_round_trip [of TC_TLV_DER tlv_lim "[(0, False, 4, [0xaa, 0xbb]), (2, True, 0, [])]" False tlv_reader_at LOCAL
      "tlv_span [0x04, 2, 0xaa, 0xbb, 0xa0, 0]"]
  by (simp add: tlv_item_simps tlv_reader_at_def tlv_lim_def tc_tlv_config_def LOCAL_def tc_internal_ranges_disjoint_def)

text \<open>When a run of a reader without padding ends, the encodings it returned tile the input: nothing was skipped
  and nothing was read twice.\<close>

theorem tlv_reader_tiles:
  assumes "reader_run ber out reader es stop" "reader_ok ber reader" "tr_offset (o_val reader) = 0"
    "tr_profile (o_val reader) \<in> {TC_TLV_DER, TC_TLV_BER, TC_TLV_ISO7816}"
  shows "b_mem (tr_input (o_val reader)) = concat (map (\<lambda>e. b_mem (te_encoded e)) es)"
  using run_tiles [OF assms(1,2)] assms(3,4) by (auto simp: tc_tlv_padding_def reader_rest_def)

section \<open>Streams\<close>

text \<open>C16: In every stream that any sequence of public calls with any chunks can produce, the stack of open objects stays
  inside the caller's frame storage and the depth limit, the number of objects and of consumed bytes
  stays within the limits, the header accumulator is never overrun, and the rest of an open primitive
  value fits the input limit; and the next call returns, whatever the chunk is.\<close>

theorem tlv_stream_invariant:
  assumes "tlv_reachable ber s" "b_length chunk = length (b_mem chunk)"
  shows "ts_depth (o_val s) \<le> length (ts_frames (o_val s)) \<and> ts_depth (o_val s) \<le> tl_max_depth (ts_limits (o_val s)) \<and>
         ts_elements (o_val s) \<le> tl_max_elements (ts_limits (o_val s)) \<and>
         ts_offset (o_val s) \<le> tl_max_input (ts_limits (o_val s)) \<and>
         length (ts_header (o_val s)) = TC_TLV_HEADER_BYTES \<and> ts_used (o_val s) \<le> TC_TLV_HEADER_BYTES \<and>
         (ts_primitive (o_val s) \<longrightarrow> ts_offset (o_val s) + ts_remaining (o_val s) \<le> tl_max_input (ts_limits (o_val s))) \<and>
         (\<exists>r s' evs. TC_TLV_stream_feed ber s chunk visit = Some (r, s', evs))"
proof -
  have ok: "stream_ok (o_val s)" and at: "o_addr s \<noteq> NULL" using reachable_ok [OF assms(1)] by simp_all
  have "bound (o_val s) \<le> tl_max_input (ts_limits (o_val s))"
    using ok stack_bound_le bound_eq [of "o_val s"] by (fastforce simp: stream_ok_def)
  moreover have "\<exists>r s' evs. TC_TLV_stream_feed ber s chunk visit = Some (r, s', evs)"
    using feed_total [OF ok at _ assms(2), of "header_member s" ber visit]
    by (auto simp: TC_TLV_stream_feed_def header_member_def)
  ultimately show ?thesis using ok by (auto simp: stream_ok_def)
qed

lemma tlv_stream_started:
  "\<exists>s. TC_TLV_stream_init False tlv_stream_at TC_TLV_DER (Some tlv_lim) tlv_frames = (TC_TLV_OK, s) \<and>
     tlv_reachable False s \<and> o_addr s = 10000 \<and> stream_live (o_val s) \<and> ts_offset (o_val s) = 0 \<and> ts_limits (o_val s) = tlv_lim"
proof -
  obtain v where v: "initialize False 10000 stream_local TC_TLV_DER (Some tlv_lim) tlv_frames = (TC_TLV_OK, v)"
    by (simp add: initialize_def tlv_lim_def tc_tlv_config_def tlv_frames_def)
  have f: "length (tfs_mem tlv_frames) = tfs_capacity tlv_frames" by (simp add: tlv_frames_def)
  have "TC_TLV_stream_init False tlv_stream_at TC_TLV_DER (Some tlv_lim) tlv_frames = (TC_TLV_OK, tlv_stream_at\<lparr>o_val := v\<rparr>)"
    using v by (simp add: TC_TLV_stream_init_def tlv_stream_at_def)
  moreover from this f have "tlv_reachable False (tlv_stream_at\<lparr>o_val := v\<rparr>)" by (rule at_init)
  ultimately show ?thesis using initialize_live [OF v f] by (auto simp: tlv_stream_at_def)
qed

theorem tlv_stream_invariant_witness:
  "\<exists>s. TC_TLV_stream_init False tlv_stream_at TC_TLV_DER (Some tlv_lim) tlv_frames = (TC_TLV_OK, s) \<and>
     (\<exists>r s' evs. TC_TLV_stream_feed False s (tlv_span [0x30, 2, 0x05]) True = Some (r, s', evs))"
  using tlv_stream_started tlv_stream_invariant [of False _ "tlv_span [0x30, 2, 0x05]" True] by fastforce

text \<open>Two chunks, within the input limit and past it.\<close>

lemma chunks_within:
  assumes "stream_live (o_val s)" "o_addr s \<noteq> NULL" "chunk_ok xs" "chunk_ok ys" "chunk_ok whole" "b_mem whole = b_mem xs @ b_mem ys"
    "ts_offset (o_val s) + b_length whole \<le> tl_max_input (ts_limits (o_val s))"
  shows "\<exists>r1 s1 e1 r s' e2 e3. TC_TLV_stream_feed ber s xs visit = Some (r1, s1, e1) \<and>
           TC_TLV_stream_feed ber s1 ys visit = Some (r, s', e2) \<and>
           TC_TLV_stream_feed ber s whole visit = Some (r, s', e3)"
proof -
  have ok: "stream_ok (o_val s)" using assms(1) by (simp add: stream_live_def)
  have len: "b_length xs = length (b_mem xs)" "b_data xs \<noteq> NULL" "b_length ys = length (b_mem ys)" "b_data ys \<noteq> NULL"
    "b_length whole = length (b_mem whole)" "b_data whole \<noteq> NULL" "b_length whole = b_length xs + b_length ys"
    using assms(3-6) by (simp_all add: chunk_ok_def)
  obtain r v e where w: "byte_run ber (o_val s) (b_mem whole) = (r, v)"
    "TC_TLV_stream_feed ber s whole visit = Some (r, s\<lparr>o_val := v\<rparr>, e)"
    by (rule stream_feed_eq [OF assms(1,2) len(5,6) assms(7)])
  obtain r1 v1 e1 where x: "byte_run ber (o_val s) (b_mem xs) = (r1, v1)"
    "TC_TLV_stream_feed ber s xs visit = Some (r1, s\<lparr>o_val := v1\<rparr>, e1)" "good_result (o_val s) (b_length xs) (r1, v1, e1)"
    by (rule stream_feed_eq [OF assms(1,2) len(1,2)]) (use assms(7) len(7) in simp_all)
  note ap = byte_run_append [OF ok, of ber "b_mem xs" "b_mem ys", folded assms(6), unfolded w(1) x(1)]
  have "\<exists>e2. TC_TLV_stream_feed ber (s\<lparr>o_val := v1\<rparr>) ys visit = Some (r, s\<lparr>o_val := v\<rparr>, e2)"
  proof (cases "r1 \<in> {TC_TLV_OK, TC_TLV_MORE}")
    case True
    note v1 = good_result_live [OF assms(1) x(3) True]
    have s1: "stream_live (o_val (s\<lparr>o_val := v1\<rparr>))" "o_addr (s\<lparr>o_val := v1\<rparr>) \<noteq> NULL"
      "ts_offset (o_val (s\<lparr>o_val := v1\<rparr>)) + b_length ys \<le> tl_max_input (ts_limits (o_val (s\<lparr>o_val := v1\<rparr>)))"
      using v1 assms(2) assms(7) len(7) by simp_all
    obtain r2 v2 e2 where "byte_run ber v1 (b_mem ys) = (r2, v2)"
      "TC_TLV_stream_feed ber (s\<lparr>o_val := v1\<rparr>) ys visit = Some (r2, s\<lparr>o_val := v2\<rparr>, e2)"
      by (rule stream_feed_eq [OF s1(1,2) len(3,4) s1(3), of ber visit]) auto
    with ap True show ?thesis by auto
  next
    case False
    then have "ts_error v1 = r1" "r1 \<noteq> TC_TLV_OK" using x(3) by (auto simp: good_result_def)
    then show ?thesis using stream_feed_failed [of "s\<lparr>o_val := v1\<rparr>" ys ber visit] ap False assms(2) len(4) by auto
  qed
  with w x show ?thesis by blast
qed

lemma chunks_beyond:
  assumes "stream_live (o_val s)" "o_addr s \<noteq> NULL" "chunk_ok xs" "chunk_ok ys"
    "tl_max_input (ts_limits (o_val s)) < ts_offset (o_val s) + (b_length xs + b_length ys)"
  shows "\<exists>r1 s1 e1 r2 s2 e2. TC_TLV_stream_feed ber s xs visit = Some (r1, s1, e1) \<and>
           TC_TLV_stream_feed ber s1 ys visit = Some (r2, s2, e2) \<and>
           r2 = (if r1 \<in> {TC_TLV_OK, TC_TLV_MORE} then TC_TLV_LIMIT else r1) \<and> ts_error (o_val s2) = r2"
proof -
  have c: "b_length xs = length (b_mem xs)" "b_data xs \<noteq> NULL" "b_data ys \<noteq> NULL" using assms(3,4) by (simp_all add: chunk_ok_def)
  have stuck: "TC_TLV_stream_feed ber (s\<lparr>o_val := v\<rparr>) ys visit = Some (ts_error v, s\<lparr>o_val := v\<rparr>, [])" if "ts_error v \<noteq> TC_TLV_OK" for v
    using stream_feed_failed [of "s\<lparr>o_val := v\<rparr>" ys ber visit] that assms(2) c(3) by simp
  show ?thesis
  proof (cases "ts_offset (o_val s) + b_length xs \<le> tl_max_input (ts_limits (o_val s))")
    case True
    obtain r v e where f: "TC_TLV_stream_feed ber s xs visit = Some (r, s\<lparr>o_val := v\<rparr>, e)" "good_result (o_val s) (b_length xs) (r, v, e)"
      by (rule stream_feed_eq [OF assms(1,2) c(1,2) True])
    show ?thesis
    proof (cases "r \<in> {TC_TLV_OK, TC_TLV_MORE}")
      case True
      have "TC_TLV_stream_feed ber (s\<lparr>o_val := v\<rparr>) ys visit = Some (TC_TLV_LIMIT, s\<lparr>o_val := v\<lparr>ts_error := TC_TLV_LIMIT\<rparr>\<rparr>, [])"
        using stream_feed_limit [of "s\<lparr>o_val := v\<rparr>" ys ber visit] good_result_live [OF assms(1) f(2) True] assms(2,5) c(3) by simp
      with f(1) True show ?thesis by auto
    next
      case False
      then have "ts_error v = r" "r \<noteq> TC_TLV_OK" using f(2) by (auto simp: good_result_def)
      with f(1) False stuck [of v] show ?thesis by auto
    qed
  next
    case False
    then have "TC_TLV_stream_feed ber s xs visit = Some (TC_TLV_LIMIT, s\<lparr>o_val := (o_val s)\<lparr>ts_error := TC_TLV_LIMIT\<rparr>\<rparr>, [])"
      using stream_feed_limit [OF assms(1,2) c(2)] by simp
    with stuck [of "(o_val s)\<lparr>ts_error := TC_TLV_LIMIT\<rparr>"] show ?thesis by auto
  qed
qed

text \<open>C3: How a message is cut does not matter. While the bytes fit the input limit, two consecutive chunks leave the stream and
  the result that one chunk with the same bytes gives, also when the first one already fails. Past the limit both ways fail:
  the one chunk is refused with the limit error before a byte is consumed, the two chunks end with the error of the first one
  or, if that was accepted, with the limit error.\<close>

theorem tlv_stream_chunking:
  assumes "tlv_reachable ber s" "ts_error (o_val s) = TC_TLV_OK" "\<not> ts_finished (o_val s)"
    "chunk_ok xs" "chunk_ok ys" "chunk_ok whole" "b_mem whole = b_mem xs @ b_mem ys"
  shows "\<exists>r1 s1 e1 r2 s2 e2 r s' e. TC_TLV_stream_feed ber s xs visit = Some (r1, s1, e1) \<and>
           TC_TLV_stream_feed ber s1 ys visit = Some (r2, s2, e2) \<and>
           TC_TLV_stream_feed ber s whole visit = Some (r, s', e) \<and>
           (if ts_offset (o_val s) + b_length whole \<le> tl_max_input (ts_limits (o_val s)) then r2 = r \<and> s2 = s'
            else r = TC_TLV_LIMIT \<and> s' = s\<lparr>o_val := (o_val s)\<lparr>ts_error := TC_TLV_LIMIT\<rparr>\<rparr> \<and> e = [] \<and>
                 r2 = (if r1 \<in> {TC_TLV_OK, TC_TLV_MORE} then TC_TLV_LIMIT else r1) \<and> ts_error (o_val s2) = r2)"
proof -
  have at: "o_addr s \<noteq> NULL" and live: "stream_live (o_val s)"
    using reachable_ok [OF assms(1)] assms(2,3) by (simp_all add: stream_live_def)
  show ?thesis
  proof (cases "ts_offset (o_val s) + b_length whole \<le> tl_max_input (ts_limits (o_val s))")
    case True
    from chunks_within [OF live at assms(4-7) True, of ber visit] True show ?thesis by (simp only: if_True) blast
  next
    case False
    then have "TC_TLV_stream_feed ber s whole visit = Some (TC_TLV_LIMIT, s\<lparr>o_val := (o_val s)\<lparr>ts_error := TC_TLV_LIMIT\<rparr>\<rparr>, [])"
      using stream_feed_limit [OF live at] assms(6) by (simp add: chunk_ok_def)
    moreover have "tl_max_input (ts_limits (o_val s)) < ts_offset (o_val s) + (b_length xs + b_length ys)"
      using False assms(4-7) by (simp add: chunk_ok_def)
    note chunks_beyond [OF live at assms(4,5) this, of ber visit]
    ultimately show ?thesis using False by (simp only: if_False) blast
  qed
qed

theorem tlv_stream_chunking_witness:
  "\<exists>s r1 s1 e1 r s' e2 e3. TC_TLV_stream_feed False s (tlv_span [0x30]) True = Some (r1, s1, e1) \<and>
     TC_TLV_stream_feed False s1 (tlv_span [2, 0x05, 0]) True = Some (r, s', e2) \<and>
     TC_TLV_stream_feed False s (tlv_span [0x30, 2, 0x05, 0]) True = Some (r, s', e3)"
proof -
  obtain s where s: "tlv_reachable False s" "stream_live (o_val s)" "ts_offset (o_val s) = 0" "ts_limits (o_val s) = tlv_lim"
    using tlv_stream_started by blast
  have "chunk_ok (tlv_span bs)" for bs by (simp add: chunk_ok_def)
  with tlv_stream_chunking [OF s(1), of "tlv_span [0x30]" "tlv_span [2, 0x05, 0]" "tlv_span [0x30, 2, 0x05, 0]" True] s
  show ?thesis by (fastforce simp: stream_live_def tlv_lim_def)
qed

text \<open>C26: A message walked in one call and the same message fed to a fresh stream in any pieces and finished give the
  same verdict while the message fits the input limit. A longer message is refused either way: the walk reports the limit
  error with no event and the frame storage unchanged, and the final call of the stream reports an error.\<close>

theorem tlv_walk_is_streaming:
  assumes "TC_TLV_stream_init ber s0 profile (Some lim) frames = (TC_TLV_OK, s)" "length (tfs_mem frames) = tfs_capacity frames"
    "list_all chunk_ok pieces" "chunk_ok input" "b_mem input = concat (map b_mem pieces)"
  shows "\<exists>s' verdict storage evs. stream_run ber s pieces = Some s' \<and>
           TC_TLV_walk ber input profile (Some lim) frames visit = Some (verdict, storage, evs) \<and>
           (if b_length input \<le> tl_max_input lim then verdict = fst (TC_TLV_stream_finish s')
            else verdict = TC_TLV_LIMIT \<and> storage = tfs_mem frames \<and> evs = [] \<and>
                 fst (TC_TLV_stream_finish s') \<notin> {TC_TLV_OK, TC_TLV_MORE})"
proof -
  obtain v where i: "initialize ber (o_addr s0) (o_val s0) profile (Some lim) frames = (TC_TLV_OK, v)" "s = s0\<lparr>o_val := v\<rparr>"
    using assms(1) by (auto simp: TC_TLV_stream_init_def split: prod.splits)
  from i(1) have at: "o_addr s0 \<noteq> NULL" and loc: "initialize ber LOCAL stream_local profile (Some lim) frames = (TC_TLV_OK, v)"
    and fr: "ts_frames v = tfs_mem frames"
    by (auto simp: initialize_def LOCAL_def Let_def split: if_splits)
  have live: "stream_live v" "ts_offset v = 0" "ts_limits v = lim" using initialize_live [OF i(1) assms(2)] by simp_all
  show ?thesis
  proof (cases "b_length input \<le> tl_max_input lim")
    case True
    obtain r v' where run: "byte_run ber v (b_mem input) = (r, v')" by (cases "byte_run ber v (b_mem input)")
    have pieces: "stream_run ber s pieces = Some (s\<lparr>o_val := v'\<rparr>)"
      using stream_run_eq [of s pieces ber] live at assms(3-5) run True by (simp add: i(2) chunk_ok_def)
    from feed_eq [OF live(1), of LOCAL LOCAL input ber visit] run live assms(4) True obtain evs
      where feed: "feed ber visit LOCAL LOCAL v input = Some (r, v', evs)" "good_result v (b_length input) (r, v', evs)"
      by (auto simp: LOCAL_def chunk_ok_def)
    have "finish (o_addr s) v' = (if r \<notin> {TC_TLV_OK, TC_TLV_MORE} then (r, v') else finish LOCAL v')"
      using feed(2) at by (auto simp: good_result_def finish_def i(2) LOCAL_def)
    then show ?thesis
      using pieces feed(1) loc assms(4) True by (auto simp: TC_TLV_walk_def TC_TLV_stream_finish_def i(2) chunk_ok_def split_beta)
  next
    case False
    then have "tl_max_input (ts_limits (o_val s)) < ts_offset (o_val s) + length (concat (map b_mem pieces))"
      using live assms(4,5) by (simp add: i(2) chunk_ok_def)
    with stream_run_limit [of s pieces ber] live(1) at assms(3) obtain s' where s': "stream_run ber s pieces = Some s'"
      "o_addr s' \<noteq> NULL" "ts_error (o_val s') \<notin> {TC_TLV_OK, TC_TLV_MORE}" by (auto simp: i(2))
    then have "fst (TC_TLV_stream_finish s') \<notin> {TC_TLV_OK, TC_TLV_MORE}" by (simp add: TC_TLV_stream_finish_def finish_def)
    moreover have "feed ber visit LOCAL LOCAL v input = Some (TC_TLV_LIMIT, v\<lparr>ts_error := TC_TLV_LIMIT\<rparr>, [])"
      using False live assms(4) by (simp add: feed_def fail_def LOCAL_def stream_live_def chunk_ok_def)
    then have "TC_TLV_walk ber input profile (Some lim) frames visit = Some (TC_TLV_LIMIT, tfs_mem frames, [])"
      using assms(4) fr by (simp add: TC_TLV_walk_def loc chunk_ok_def)
    ultimately show ?thesis using s'(1) False by simp
  qed
qed

theorem tlv_walk_is_streaming_witness:
  "\<exists>s s' storage evs. stream_run False s [tlv_span [0x30], tlv_span [2, 0x05], tlv_span [0]] = Some s' \<and>
     TC_TLV_walk False (tlv_span [0x30, 2, 0x05, 0]) TC_TLV_DER (Some tlv_lim) tlv_frames True =
       Some (fst (TC_TLV_stream_finish s'), storage, evs)"
proof -
  obtain s where s: "TC_TLV_stream_init False tlv_stream_at TC_TLV_DER (Some tlv_lim) tlv_frames = (TC_TLV_OK, s)"
    using tlv_stream_started by blast
  have "chunk_ok (tlv_span bs)" for bs by (simp add: chunk_ok_def)
  moreover have "length (tfs_mem tlv_frames) = tfs_capacity tlv_frames" by (simp add: tlv_frames_def)
  ultimately show ?thesis
    using tlv_walk_is_streaming [OF s, of "[tlv_span [0x30], tlv_span [2, 0x05], tlv_span [0]]" "tlv_span [0x30, 2, 0x05, 0]" True]
    by (fastforce simp: tlv_lim_def)
qed

text \<open>C28: A failed stream stays failed: after a feeding call reported an error other than a bad argument, or the final call
  reported any error, every further chunk and every further final call reports the same error and leaves the stream as it
  is.\<close>

theorem tlv_stream_error_sticky:
  assumes "tlv_reachable ber s" "b_length chunk = length (b_mem chunk)" "b_data later \<noteq> NULL"
    "TC_TLV_stream_feed ber s chunk visit = Some (r, s', evs) \<and> r \<notin> {TC_TLV_OK, TC_TLV_MORE, TC_TLV_ARGUMENT} \<or>
     TC_TLV_stream_finish s = (r, s') \<and> r \<noteq> TC_TLV_OK"
  shows "TC_TLV_stream_feed ber s' later visit' = Some (r, s', []) \<and> TC_TLV_stream_finish s' = (r, s')"
proof -
  have at: "o_addr s \<noteq> NULL" and ok: "stream_ok (o_val s)" using reachable_ok [OF assms(1)] by simp_all
  have "ts_error (o_val s') = r \<and> o_addr s' \<noteq> NULL \<and> r \<noteq> TC_TLV_OK"
    using assms(4)
  proof
    assume "TC_TLV_stream_feed ber s chunk visit = Some (r, s', evs) \<and> r \<notin> {TC_TLV_OK, TC_TLV_MORE, TC_TLV_ARGUMENT}"
    with feed_total [OF ok at _ assms(2), of "header_member s" ber visit] show ?thesis
      using at by (auto simp: TC_TLV_stream_feed_def header_member_def split: option.splits)
  next
    assume "TC_TLV_stream_finish s = (r, s') \<and> r \<noteq> TC_TLV_OK"
    then show ?thesis using at by (auto simp: TC_TLV_stream_finish_def finish_def fail_def split: if_splits)
  qed
  then show ?thesis
    using stream_feed_failed [of s' later ber visit'] assms(3) by (simp add: TC_TLV_stream_finish_def finish_def)
qed

lemmas stream_eval = TC_TLV_stream_init_def initialize_def tlv_lim_def tc_tlv_config_def tlv_frames_def tlv_stream_at_def
  TC_TLV_stream_feed_def feed_def feed_iteration_def bound_def tc_tlv_padding_def feed_fail_def fail_def header_member_def
  TC_TLV_HEADER_BYTES_def TC_TLV_TAG_BYTES_def sizeof_size_t_def tc_tlv_header_parse_def tc_tlv_header_read_def
  tlv_tag_read_def tlv_length_read_def iso_profile_def LOCAL_def Let_def

theorem tlv_stream_error_sticky_witness:
  "(\<exists>s s' evs. TC_TLV_stream_feed False s (tlv_span [0x00]) True = Some (TC_TLV_INVALID, s', evs) \<and>
     TC_TLV_stream_feed False s' (tlv_span [0x05, 0]) True = Some (TC_TLV_INVALID, s', []) \<and>
     TC_TLV_stream_finish s' = (TC_TLV_INVALID, s')) \<and>
   (\<exists>s s1 s' evs. TC_TLV_stream_feed False s (tlv_span [0x30]) True = Some (TC_TLV_MORE, s1, evs) \<and>
     TC_TLV_stream_finish s1 = (TC_TLV_INVALID, s') \<and>
     TC_TLV_stream_feed False s' (tlv_span [0]) True = Some (TC_TLV_INVALID, s', []) \<and>
     TC_TLV_stream_finish s' = (TC_TLV_INVALID, s'))"
proof
  let ?s = "snd (TC_TLV_stream_init False tlv_stream_at TC_TLV_DER (Some tlv_lim) tlv_frames)"
  have r: "tlv_reachable False ?s" using tlv_stream_started by fastforce
  have "\<exists>s' evs. TC_TLV_stream_feed False ?s (tlv_span [0x00]) True = Some (TC_TLV_INVALID, s', evs)"
    by (simp add: stream_eval)
  then obtain s' evs where e: "TC_TLV_stream_feed False ?s (tlv_span [0x00]) True = Some (TC_TLV_INVALID, s', evs)" by blast
  from tlv_stream_error_sticky [OF r, of "tlv_span [0x00]" "tlv_span [0x05, 0]" True TC_TLV_INVALID s' evs True] e
  show "\<exists>s s' evs. TC_TLV_stream_feed False s (tlv_span [0x00]) True = Some (TC_TLV_INVALID, s', evs) \<and>
     TC_TLV_stream_feed False s' (tlv_span [0x05, 0]) True = Some (TC_TLV_INVALID, s', []) \<and>
     TC_TLV_stream_finish s' = (TC_TLV_INVALID, s')" by auto
  have "\<exists>s1 evs. TC_TLV_stream_feed False ?s (tlv_span [0x30]) True = Some (TC_TLV_MORE, s1, evs) \<and>
      (\<exists>s'. TC_TLV_stream_finish s1 = (TC_TLV_INVALID, s'))"
    by (simp add: stream_eval TC_TLV_stream_finish_def finish_def)
  then obtain s1 evs1 s2 where f: "TC_TLV_stream_feed False ?s (tlv_span [0x30]) True = Some (TC_TLV_MORE, s1, evs1)"
    "TC_TLV_stream_finish s1 = (TC_TLV_INVALID, s2)" by blast
  have "tlv_reachable False s1" by (rule at_feed [OF r _ f(1)]) simp
  from tlv_stream_error_sticky [OF this, of "tlv_span []" "tlv_span [0]" True TC_TLV_INVALID s2 "[]" True] f
  show "\<exists>s s1 s' evs. TC_TLV_stream_feed False s (tlv_span [0x30]) True = Some (TC_TLV_MORE, s1, evs) \<and>
     TC_TLV_stream_finish s1 = (TC_TLV_INVALID, s') \<and>
     TC_TLV_stream_feed False s' (tlv_span [0]) True = Some (TC_TLV_INVALID, s', []) \<and>
     TC_TLV_stream_finish s' = (TC_TLV_INVALID, s')" by auto
qed

text \<open>C27: The whole-message walk and the reader of one complete object return for every input: neither the byte loop
  nor the loop that feeds one object can run on.\<close>

theorem tlv_walk_and_read_tree_return:
  assumes "b_length input = length (b_mem input)" "length (tfs_mem frames) = tfs_capacity frames"
  shows "(\<exists>out. TC_TLV_walk ber input profile limits frames visit = Some out) \<and>
         (\<exists>out. TC_TLV_read_tree ber input profile limits frames at = Some out)"
proof
  obtain r v where i: "initialize ber LOCAL stream_local profile limits frames = (r, v)"
    by (cases "initialize ber LOCAL stream_local profile limits frames")
  have loc: "LOCAL \<noteq> NULL" by (simp add: LOCAL_def)
  have live: "stream_live v" "ts_offset v = 0" "limits = Some (ts_limits v)" if "r = TC_TLV_OK"
    using initialize_live [OF i [unfolded that] assms(2)] by simp_all
  show "\<exists>out. TC_TLV_walk ber input profile limits frames visit = Some out"
  proof (cases "r = TC_TLV_OK")
    case True
    then have "stream_ok v" using live by (simp add: stream_live_def)
    from feed_total [OF this loc loc assms(1), of ber visit] i show ?thesis by (auto simp: TC_TLV_walk_def)
  qed (auto simp: TC_TLV_walk_def i)
  show "\<exists>out. TC_TLV_read_tree ber input profile limits frames at = Some out"
  proof (cases "at = NULL \<or> r \<noteq> TC_TLV_OK \<or> (\<exists>e. TC_TLV_header_read ber input profile limits LOCAL = Inl e)")
    case True
    then show ?thesis by (auto simp: TC_TLV_read_tree_def i split: sum.splits)
  next
    case False
    then obtain h where h: "TC_TLV_header_read ber input profile limits LOCAL = Inr h" and ok: "r = TC_TLV_OK" and out: "at \<noteq> NULL"
      by (cases "TC_TLV_header_read ber input profile limits LOCAL") auto
    have fits: "b_length input \<le> tl_max_input (ts_limits v)" "b_data input \<noteq> NULL" "th_header_length h \<le> b_length input"
      using header_read_fits [of ber input profile "ts_limits v" LOCAL h] h live(3) [OF ok] assms(1) by simp_all
    let ?c = "span_from input 0 (th_header_length h)"
    have c: "b_length ?c = th_header_length h" "b_length ?c = length (b_mem ?c)" "b_data ?c \<noteq> NULL"
      using fits assms(1) by (simp_all add: span_from_def)
    from feed_eq(2) [OF live(1) [OF ok] loc loc c(2), of ber False] c fits live(2) [OF ok] obtain r' s' evs
      where f: "feed ber False LOCAL LOCAL v ?c = Some (r', s', evs)" "good_result v (th_header_length h) (r', s', evs)" by auto
    have "\<exists>out. read_tree_loop (b_length input + 2) ber input r' s' = Some out"
    proof (cases "r' = TC_TLV_MORE")
      case True
      then have "stream_ok s'" "ts_offset s' = th_header_length h" "\<not> ts_finished s'" "ts_error s' = TC_TLV_OK" "ts_limits s' = ts_limits v"
        using f(2) live [OF ok] by (auto simp: good_result_def same_setup_def stream_live_def)
      then show ?thesis using read_tree_loop_total [OF assms(1) fits(2), of s' "b_length input + 1" r' ber] fits by simp
    qed simp
    then show ?thesis using f(1) h i ok out by (auto simp: TC_TLV_read_tree_def split: prod.splits)
  qed
qed

theorem tlv_walk_and_read_tree_return_witness:
  "(\<exists>out. TC_TLV_walk True (tlv_span [0x30, 0x80, 0, 0, 7]) TC_TLV_BER (Some tlv_lim) tlv_frames True = Some out) \<and>
   (\<exists>out. TC_TLV_read_tree True (tlv_span [0x30, 0x80, 0, 0, 7]) TC_TLV_BER (Some tlv_lim) tlv_frames LOCAL = Some out)"
  by (rule tlv_walk_and_read_tree_return) (simp_all add: tlv_frames_def)

end
