(* ===== verification/DES.thy ===== *)
theory DES
  imports DES_Tables
begin

text \<open>
  The DES and Triple-DES block cipher of \<^verbatim>\<open>src/src/des.c\<close> with the descriptors of \<^verbatim>\<open>src/src/des_internal.h\<close>: weak-key
  rejection, key schedule, initial and final permutation, the round function of both builds, one DES
  stage and the encrypt-decrypt-encrypt bundle. The build option \<^verbatim>\<open>TC_DES_SBOX_MODE\<close> is the argument \<open>mode\<close>; it also
  selects the representation of a round key. The lemmas show that the final permutation undoes the initial
  one, that sixteen rounds with the keys in reverse order undo sixteen rounds, and so that the DES descriptor
  satisfies the interface the modes and the MACs rely on.
\<close>

section \<open>Types and constants (des.h)\<close>

definition TC_DES_BLOCKLEN :: nat where "TC_DES_BLOCKLEN = 8"

definition TC_DES_KEYLEN :: nat where "TC_DES_KEYLEN = 8"

definition TC_DES_KEYLEN_2KEY :: nat where "TC_DES_KEYLEN_2KEY = 16"

definition TC_DES_KEYLEN_3KEY :: nat where "TC_DES_KEYLEN_3KEY = 24"

lemmas des_lengths = TC_DES_BLOCKLEN_def TC_DES_KEYLEN_def TC_DES_KEYLEN_2KEY_def TC_DES_KEYLEN_3KEY_def

datatype des_sbox_mode = TC_DES_SBOX_MODE_FAST | TC_DES_SBOX_MODE_CONSTANT_TIME

text \<open>A round key has two 32-bit words in the fast build and six bytes in the constant-time build.\<close>

datatype TC_DES_round_key = Key_Words (key_words: "u32 list") | Key_Bytes (key_bytes: "u8 list")

definition round_key_zero :: "des_sbox_mode \<Rightarrow> TC_DES_round_key" where
  "round_key_zero mode =
     (case mode of TC_DES_SBOX_MODE_FAST \<Rightarrow> Key_Words (replicate 2 0)
      | TC_DES_SBOX_MODE_CONSTANT_TIME \<Rightarrow> Key_Bytes (replicate 6 0))"

section \<open>Weak keys\<close>

definition tc_des_keys_equal :: "u8 list \<Rightarrow> u8 list \<Rightarrow> bool" where
  "tc_des_keys_equal left right \<longleftrightarrow>
     fold (\<lambda>i diff. diff OR ((left ! i XOR right ! i) AND 0xfe)) [0..<TC_DES_KEYLEN] 0 = 0"

definition tc_des_key_is_weak :: "u8 list \<Rightarrow> bool" where
  "tc_des_key_is_weak k \<longleftrightarrow>
     fold (\<lambda>candidate weak. weak OR
       (if fold (\<lambda>i diff. diff OR ((k ! i XOR des_weak_keys ! candidate ! i) AND 0xfe)) [0..<TC_DES_KEYLEN] 0 = 0 then 1 else 0))
       [0..<16] (0 :: u8) \<noteq> 0"

definition tc_des_bundle_is_rejected :: "u8 list \<Rightarrow> nat \<Rightarrow> bool" where
  "tc_des_bundle_is_rejected k keylen =
     (if tc_des_key_is_weak k then True
      else if keylen \<ge> TC_DES_KEYLEN_2KEY \<and>
              (tc_des_key_is_weak (drop TC_DES_KEYLEN k) \<or> tc_des_keys_equal k (drop TC_DES_KEYLEN k))
      then True
      else keylen = TC_DES_KEYLEN_3KEY \<and>
           (tc_des_key_is_weak (drop (2 * TC_DES_KEYLEN) k) \<or>
            tc_des_keys_equal (drop TC_DES_KEYLEN k) (drop (2 * TC_DES_KEYLEN) k)))"

section \<open>Key schedule\<close>

definition tc_des_get_key_bit :: "u8 list \<Rightarrow> nat \<Rightarrow> u8" where
  "tc_des_get_key_bit k bit_1based =
     (let byte_idx = (bit_1based - 1) div 8; bit_idx = 7 - (bit_1based - 1) mod 8
      in drop_bit bit_idx (k ! byte_idx) AND 1)"

text \<open>The first loop: one half of permuted choice 1.\<close>

definition pc1_half :: "u8 list \<Rightarrow> nat list \<Rightarrow> u32" where
  "pc1_half k table = fold (\<lambda>i C. push_bit 1 C OR ucast (tc_des_get_key_bit k (table ! i))) [0..<28] 0"

definition rotate28 :: "nat \<Rightarrow> u32 \<Rightarrow> u32" where
  "rotate28 shift C = (push_bit shift C OR drop_bit (28 - shift) C) AND 0x0FFFFFFF"

definition pc2_bit :: "u32 \<Rightarrow> u32 \<Rightarrow> nat \<Rightarrow> u8" where
  "pc2_bit C D i =
     (let bit_pos = DES_PC2 ! i
      in if bit_pos \<le> 28 then ucast (drop_bit (28 - bit_pos) C AND 1) else ucast (drop_bit (56 - bit_pos) D AND 1))"

text \<open>The store of bit \<open>i\<close> into the round key.\<close>

fun put_round_key_bit :: "nat \<Rightarrow> u8 \<Rightarrow> TC_DES_round_key \<Rightarrow> TC_DES_round_key" where
  "put_round_key_bit i bit_val (Key_Words sk) =
     (let group = i div 6;
          word = (if group mod 2 = 0 then 1 else 0);
          byte = 3 - group div 2;
          shift_in_word = byte * 8 + 5 - i mod 6
      in Key_Words (sk[word := sk ! word OR push_bit shift_in_word (ucast bit_val)]))"
| "put_round_key_bit i bit_val (Key_Bytes sk) =
     Key_Bytes (sk[i div 8 := sk ! (i div 8) OR push_bit (7 - i mod 8) bit_val])"

definition round_key :: "des_sbox_mode \<Rightarrow> u32 \<Rightarrow> u32 \<Rightarrow> TC_DES_round_key" where
  "round_key mode C D = fold (\<lambda>i sk. put_round_key_bit i (pc2_bit C D i) sk) [0..<48] (round_key_zero mode)"

fun schedule_loop :: "des_sbox_mode \<Rightarrow> u32 \<Rightarrow> u32 \<Rightarrow> nat list \<Rightarrow> TC_DES_round_key list" where
  "schedule_loop mode C D [] = []"
| "schedule_loop mode C D (r # rs) =
     (let shift = SHIFTS ! r; C = rotate28 shift C; D = rotate28 shift D
      in round_key mode C D # schedule_loop mode C D rs)"

text \<open>The sixteen rows written at \<^verbatim>\<open>sk\<close>.\<close>

definition tc_des_key_schedule :: "des_sbox_mode \<Rightarrow> u8 list \<Rightarrow> TC_DES_round_key list" where
  "tc_des_key_schedule mode k = schedule_loop mode (pc1_half k PC1_C) (pc1_half k PC1_D) [0..<16]"

definition tc_des_schedule_key ::
  "des_sbox_mode \<Rightarrow> TC_DES_round_key list \<Rightarrow> u8 list \<Rightarrow> nat \<Rightarrow> TC_DES_round_key list" where
  "tc_des_schedule_key mode sk k keylen =
     (let sk = memcpy_at sk 0 (tc_des_key_schedule mode k)
      in if keylen = TC_DES_KEYLEN then sk
         else let sk = memcpy_at sk 16 (tc_des_key_schedule mode (drop TC_DES_KEYLEN k))
              in if keylen = TC_DES_KEYLEN_2KEY then memcpy_at sk 32 (take 16 sk)
                 else memcpy_at sk 32 (tc_des_key_schedule mode (drop TC_DES_KEYLEN_2KEY k)))"

section \<open>Initial and final permutation\<close>

text \<open>The three statements each step of both permutations repeats: \<open>a\<close> is shifted, \<open>b\<close> is masked in place.\<close>

definition delta_swap :: "nat \<Rightarrow> u32 \<Rightarrow> u32 \<times> u32 \<Rightarrow> u32 \<times> u32" where
  "delta_swap n m = (\<lambda>(a, b). let t = (drop_bit n a XOR b) AND m in (a XOR push_bit n t, b XOR t))"

definition tc_des_initial_permutation :: "u32 \<Rightarrow> u32 \<Rightarrow> u32 \<times> u32" where
  "tc_des_initial_permutation L R =
     (let (L, R) = delta_swap 4 0x0F0F0F0F (L, R);
          (L, R) = delta_swap 16 0x0000FFFF (L, R);
          (R, L) = delta_swap 2 0x33333333 (R, L);
          (R, L) = delta_swap 8 0x00FF00FF (R, L);
          (L, R) = delta_swap 1 0x55555555 (L, R)
      in (L, R))"

definition tc_des_final_permutation :: "u32 \<Rightarrow> u32 \<Rightarrow> u32 \<times> u32" where
  "tc_des_final_permutation L R =
     (let (R, L) = delta_swap 1 0x55555555 (R, L);
          (L, R) = delta_swap 8 0x00FF00FF (L, R);
          (L, R) = delta_swap 2 0x33333333 (L, R);
          (R, L) = delta_swap 16 0x0000FFFF (R, L);
          (R, L) = delta_swap 4 0x0F0F0F0F (R, L)
      in (L, R))"

section \<open>The round function\<close>

definition tc_des_input_plane :: "u8 list \<Rightarrow> nat \<Rightarrow> u32" where
  "tc_des_input_plane inputs b =
     fold (\<lambda>box plane. plane OR ((0 - ucast (drop_bit b (inputs ! box) AND 1)) AND des_sbox_output_masks ! box)) [0..<8] 0"

definition tc_des_round :: "u8 list \<Rightarrow> u32" where
  "tc_des_round inputs =
     (let variables = map (tc_des_input_plane inputs) [0..<6]
      in fold (\<lambda>monomial result. result XOR
           (fold (\<lambda>b term. if (of_nat monomial :: u32) AND push_bit b 1 \<noteq> 0 then term AND variables ! b else term) [0..<6] (- 1) AND
            des_sbox_anf ! monomial)) [1..<64] (des_sbox_anf ! 0))"

definition six_bits :: "nat \<Rightarrow> u32 \<Rightarrow> nat" where
  "six_bits n t = unat (drop_bit n t AND 0x3f)"

definition round_fast :: "u32 \<Rightarrow> u32 list \<Rightarrow> u32" where
  "round_fast R sk =
     (let t = (push_bit 1 R OR drop_bit 31 R) XOR sk ! 0;
          f_res = SP8 ! six_bits 0 t XOR SP6 ! six_bits 8 t XOR SP4 ! six_bits 16 t XOR SP2 ! six_bits 24 t;
          t = (drop_bit 3 R OR push_bit 29 R) XOR sk ! 1
      in f_res XOR (SP7 ! six_bits 0 t XOR SP5 ! six_bits 8 t XOR SP3 ! six_bits 16 t XOR SP1 ! six_bits 24 t))"

text \<open>The six-bit groups of a packed round key, and of the expanded half block.\<close>

definition packed_groups :: "u8 list \<Rightarrow> u8 list" where
  "packed_groups packed =
     [drop_bit 2 (packed ! 0),
      push_bit 4 (packed ! 0 AND 0x03) OR drop_bit 4 (packed ! 1),
      push_bit 2 (packed ! 1 AND 0x0f) OR drop_bit 6 (packed ! 2),
      packed ! 2 AND 0x3f,
      drop_bit 2 (packed ! 3),
      push_bit 4 (packed ! 3 AND 0x03) OR drop_bit 4 (packed ! 4),
      push_bit 2 (packed ! 4 AND 0x0f) OR drop_bit 6 (packed ! 5),
      packed ! 5 AND 0x3f]"

definition expanded_groups :: "u32 \<Rightarrow> u32 list" where
  "expanded_groups R =
     [push_bit 5 (R AND 1) OR (drop_bit 27 R AND 0x1F), drop_bit 23 R AND 0x3F, drop_bit 19 R AND 0x3F,
      drop_bit 15 R AND 0x3F, drop_bit 11 R AND 0x3F, drop_bit 7 R AND 0x3F, drop_bit 3 R AND 0x3F,
      push_bit 1 (R AND 0x1F) OR (drop_bit 31 R AND 1)]"

definition round_constant_time :: "u32 \<Rightarrow> u8 list \<Rightarrow> u32" where
  "round_constant_time R packed =
     tc_des_round (map (\<lambda>i. ucast (expanded_groups R ! i XOR ucast (packed_groups packed ! i))) [0..<8])"

fun des_f :: "u32 \<Rightarrow> TC_DES_round_key \<Rightarrow> u32" where
  "des_f R (Key_Words sk) = round_fast R sk"
| "des_f R (Key_Bytes packed) = round_constant_time R packed"

section \<open>One DES stage and the bundle\<close>

text \<open>The sixteen rounds; \<open>rs\<close> are the values of \<^verbatim>\<open>r\<close>.\<close>

fun rounds_loop :: "TC_DES_round_key list \<Rightarrow> nat list \<Rightarrow> u32 \<times> u32 \<Rightarrow> u32 \<times> u32" where
  "rounds_loop sk [] LR = LR"
| "rounds_loop sk (r # rs) (L, R) = rounds_loop sk rs (R, L XOR des_f R (sk ! r))"

definition tc_des_cipher_block :: "TC_DES_round_key list \<Rightarrow> u8 list \<Rightarrow> bool \<Rightarrow> u8 list" where
  "tc_des_cipher_block sk buf backwards =
     (let L = tc_internal_load_be32 buf;
          R = tc_internal_load_be32 (drop 4 buf);
          (L, R) = tc_des_initial_permutation L R;
          (L, R) = rounds_loop sk (map (\<lambda>i. if backwards then 15 - i else i) [0..<16]) (L, R);
          (L, R) = tc_des_final_permutation L R
      in [ucast (drop_bit 24 R), ucast (drop_bit 16 R), ucast (drop_bit 8 R), ucast R,
          ucast (drop_bit 24 L), ucast (drop_bit 16 L), ucast (drop_bit 8 L), ucast L])"

definition tc_des_encrypt_scheduled :: "TC_DES_round_key list \<Rightarrow> u8 list \<Rightarrow> bool \<Rightarrow> u8 list" where
  "tc_des_encrypt_scheduled sk block triple =
     (let block = tc_des_cipher_block sk block False
      in if triple
         then let block = tc_des_cipher_block (drop 16 sk) block True
              in tc_des_cipher_block (drop 32 sk) block False
         else block)"

definition tc_des_decrypt_scheduled :: "TC_DES_round_key list \<Rightarrow> u8 list \<Rightarrow> bool \<Rightarrow> u8 list" where
  "tc_des_decrypt_scheduled sk block triple =
     (if \<not> triple then tc_des_cipher_block sk block True
      else let block = tc_des_cipher_block (drop 32 sk) block True;
               block = tc_des_cipher_block (drop 16 sk) block False
           in tc_des_cipher_block sk block True)"

section \<open>Descriptors\<close>

record tc_des_block_key =
  dbk_schedule :: "TC_DES_round_key list"
  dbk_triple :: bool

definition tc_des_block_encrypt :: "tc_des_block_key \<Rightarrow> u8 list \<Rightarrow> TC_status \<times> u8 list" where
  "tc_des_block_encrypt k block = (TC_OK, tc_des_encrypt_scheduled (dbk_schedule k) block (dbk_triple k))"

definition tc_des_block_decrypt :: "tc_des_block_key \<Rightarrow> u8 list \<Rightarrow> TC_status \<times> u8 list" where
  "tc_des_block_decrypt k block = (TC_OK, tc_des_decrypt_scheduled (dbk_schedule k) block (dbk_triple k))"

definition tc_des_block_cipher :: "tc_des_block_key \<Rightarrow> tc_des_block_key tc_block_cipher" where
  "tc_des_block_cipher k =
     \<lparr>block_size = TC_DES_BLOCKLEN, key = k, encrypt = tc_des_block_encrypt, decrypt = None\<rparr>"

definition tc_des_block_cipher_inverse :: "tc_des_block_key \<Rightarrow> tc_des_block_key tc_block_cipher" where
  "tc_des_block_cipher_inverse k =
     \<lparr>block_size = TC_DES_BLOCKLEN, key = k, encrypt = tc_des_block_encrypt, decrypt = Some tc_des_block_decrypt\<rparr>"

section \<open>The final permutation undoes the initial one\<close>

text \<open>A step of the permutations exchanges the masked bits, so it undoes itself.\<close>

lemma drop_push_masked:
  fixes w m :: u32
  assumes "m = take_bit (32 - n) m" "n \<le> 32"
  shows "drop_bit n (push_bit n (w AND m)) = w AND m"
proof (rule bit_word_eqI)
  fix i assume "i < LENGTH(32)"
  have "bit m i \<Longrightarrow> i < 32 - n" by (subst (asm) assms(1)) (simp add: bit_take_bit_iff)
  then show "bit (drop_bit n (push_bit n (w AND m))) i = bit (w AND m) i"
    using assms(2) by (auto simp: bit_simps)
qed

lemma delta_swap_twice:
  assumes "m = take_bit (32 - n) m" "n \<le> 32"
  shows "delta_swap n m (delta_swap n m p) = p"
proof -
  obtain a b where p: "p = (a, b)" by (cases p)
  define t where "t = (drop_bit n a XOR b) AND m"
  have "drop_bit n (push_bit n t) = t" unfolding t_def by (rule drop_push_masked [OF assms])
  then have "(drop_bit n (a XOR push_bit n t) XOR (b XOR t)) AND m = (drop_bit n a XOR b) AND m"
    by (simp add: drop_bit_xor xor.assoc xor.left_commute xor.commute)
  then have again: "(drop_bit n (a XOR push_bit n t) XOR (b XOR t)) AND m = t" unfolding t_def [symmetric] .
  have "delta_swap n m p = (a XOR push_bit n t, b XOR t)"
    by (simp only: p delta_swap_def Let_def t_def prod.case)
  then have "delta_swap n m (delta_swap n m p) = ((a XOR push_bit n t) XOR push_bit n t, (b XOR t) XOR t)"
    by (simp only: delta_swap_def Let_def prod.case again)
  then show ?thesis by (simp add: p xor.assoc)
qed

lemma delta_swaps_twice:
  "delta_swap 4 0x0F0F0F0F (delta_swap 4 0x0F0F0F0F p) = p" "delta_swap 16 0x0000FFFF (delta_swap 16 0x0000FFFF p) = p"
  "delta_swap 2 0x33333333 (delta_swap 2 0x33333333 p) = p" "delta_swap 8 0x00FF00FF (delta_swap 8 0x00FF00FF p) = p"
  "delta_swap (Suc 0) 0x55555555 (delta_swap (Suc 0) 0x55555555 p) = p"
  by (rule delta_swap_twice; simp)+

text \<open>The halves are exchanged between the two permutations, as in the cipher.\<close>

lemma swap_eq_iff: "prod.swap p = (a, b) \<longleftrightarrow> p = (b, a)"
  by (cases p) auto

lemma initial_permutation_eq:
  "tc_des_initial_permutation L R = delta_swap 1 0x55555555 (prod.swap (delta_swap 8 0x00FF00FF (delta_swap 2 0x33333333
     (prod.swap (delta_swap 16 0x0000FFFF (delta_swap 4 0x0F0F0F0F (L, R)))))))"
  by (simp add: tc_des_initial_permutation_def split_beta Let_def prod.swap_def)

lemma final_permutation_eq:
  "prod.swap (tc_des_final_permutation L R) = delta_swap 4 0x0F0F0F0F (delta_swap 16 0x0000FFFF (prod.swap
     (delta_swap 2 0x33333333 (delta_swap 8 0x00FF00FF (prod.swap (delta_swap 1 0x55555555 (R, L)))))))"
  by (simp add: tc_des_final_permutation_def split_beta Let_def prod.swap_def)

lemma final_initial_permutation:
  assumes "tc_des_initial_permutation L R = (L', R')"
  shows "tc_des_final_permutation R' L' = (R, L)"
proof -
  have "prod.swap (tc_des_final_permutation R' L') = (L, R)"
    unfolding final_permutation_eq assms [symmetric, unfolded initial_permutation_eq] by (simp add: delta_swaps_twice)
  then show ?thesis by (simp only: swap_eq_iff)
qed

lemma initial_final_permutation:
  assumes "tc_des_final_permutation L R = (L', R')"
  shows "tc_des_initial_permutation R' L' = (R, L)"
proof -
  have "(R', L') = prod.swap (tc_des_final_permutation L R)" using assms by simp
  then show ?thesis unfolding initial_permutation_eq final_permutation_eq by (simp add: delta_swaps_twice)
qed

section \<open>The inverse cipher\<close>

lemma rounds_loop_append: "rounds_loop sk (rs @ ss) LR = rounds_loop sk ss (rounds_loop sk rs LR)"
  by (induction rs arbitrary: LR) (auto simp: split_paired_all)

text \<open>Feistel: rounds in reverse order on exchanged halves undo rounds, whatever the round function is.\<close>

lemma rounds_loop_rev:
  "rounds_loop sk (rev rs) (prod.swap (rounds_loop sk rs LR)) = prod.swap LR"
proof (induction rs arbitrary: LR)
  case Nil
  then show ?case by simp
next
  case (Cons r rs)
  then show ?case by (cases LR) (simp add: rounds_loop_append Cons.IH xor.assoc)
qed

lemma round_numbers: "map (\<lambda>i. if False then 15 - i else i) [0..<16] = [0..<16::nat]"
  "map (\<lambda>i. if True then 15 - i else i) [0..<16] = rev [0..<16::nat]"
  by (simp_all add: upt_rec)

lemma length_cipher_block [simp, len_simps]: "length (tc_des_cipher_block sk buf backwards) = 8"
  by (simp add: tc_des_cipher_block_def split_beta Let_def)

lemma load_store_halves:
  fixes L R :: u32
  shows "tc_internal_load_be32 [ucast (drop_bit 24 R), ucast (drop_bit 16 R), ucast (drop_bit 8 R), ucast R,
          ucast (drop_bit 24 L), ucast (drop_bit 16 L), ucast (drop_bit 8 L), ucast L] = R"
    and "tc_internal_load_be32 (drop 4 [ucast (drop_bit 24 R), ucast (drop_bit 16 R), ucast (drop_bit 8 R), ucast R,
          ucast (drop_bit 24 L), ucast (drop_bit 16 L), ucast (drop_bit 8 L), ucast L]) = L"
  using load_store_be32 [of R] load_store_be32 [of L]
  by (simp_all add: tc_internal_load_be32_def tc_internal_store_be32_def)

lemma store_load_halves:
  assumes "length buf = 8"
  shows "tc_internal_store_be32 (tc_internal_load_be32 buf) @ tc_internal_store_be32 (tc_internal_load_be32 (drop 4 buf)) = buf"
proof -
  have "tc_internal_load_be32 buf = tc_internal_load_be32 (take 4 buf)"
    by (simp add: tc_internal_load_be32_def)
  then show ?thesis using assms store_load_be32 [of "take 4 buf"] store_load_be32 [of "drop 4 buf"] by simp
qed

lemma cipher_block_eq:
  "tc_des_cipher_block sk buf backwards =
     (let (L, R) = rounds_loop sk (if backwards then rev [0..<16] else [0..<16])
            (tc_des_initial_permutation (tc_internal_load_be32 buf) (tc_internal_load_be32 (drop 4 buf)));
          (L, R) = tc_des_final_permutation L R
      in tc_internal_store_be32 R @ tc_internal_store_be32 L)"
  using round_numbers by (cases backwards) (simp_all add: tc_des_cipher_block_def tc_internal_store_be32_def Let_def split_beta)

lemma store_halves_load:
  "tc_internal_load_be32 (tc_internal_store_be32 R @ tc_internal_store_be32 L) = R"
  "tc_internal_load_be32 (drop 4 (tc_internal_store_be32 R @ tc_internal_store_be32 L)) = L"
  using load_store_halves [of R L] by (simp_all add: tc_internal_store_be32_def)

lemma cipher_block_inverse:
  assumes "length buf = 8"
  shows "tc_des_cipher_block sk (tc_des_cipher_block sk buf d) (\<not> d) = buf"
proof -
  define rs :: "nat list" where "rs = (if d then rev [0..<16] else [0..<16])"
  have rev: "(if \<not> d then rev [0..<16] else [0..<16]) = rev rs" by (simp add: rs_def)
  let ?l = "tc_internal_load_be32 buf" and ?r = "tc_internal_load_be32 (drop 4 buf)"
  obtain A B where ip: "tc_des_initial_permutation ?l ?r = (A, B)" by fastforce
  obtain C D where rounds: "rounds_loop sk rs (A, B) = (C, D)" by fastforce
  obtain E F where fp: "tc_des_final_permutation C D = (E, F)" by fastforce
  have enc: "tc_des_cipher_block sk buf d = tc_internal_store_be32 F @ tc_internal_store_be32 E"
    by (simp add: cipher_block_eq rs_def [symmetric] ip rounds fp)
  have "rounds_loop sk (rev rs) (D, C) = (B, A)"
    using rounds_loop_rev [of sk rs "(A, B)"] rounds by simp
  then have "tc_des_cipher_block sk (tc_internal_store_be32 F @ tc_internal_store_be32 E) (\<not> d) =
      tc_internal_store_be32 ?l @ tc_internal_store_be32 ?r"
    unfolding cipher_block_eq [of _ _ "\<not> d"] rev store_halves_load
    using initial_final_permutation [OF fp] final_initial_permutation [OF ip] by simp
  then show ?thesis using store_load_halves [OF assms] enc by simp
qed

lemma decrypt_encrypt_scheduled:
  "length block = 8 \<Longrightarrow> tc_des_decrypt_scheduled sk (tc_des_encrypt_scheduled sk block triple) triple = block"
  "length block = 8 \<Longrightarrow> tc_des_encrypt_scheduled sk (tc_des_decrypt_scheduled sk block triple) triple = block"
  using cipher_block_inverse [of _ _ False, simplified] cipher_block_inverse [of _ _ True, simplified]
  by (simp_all add: tc_des_decrypt_scheduled_def tc_des_encrypt_scheduled_def Let_def)

lemma length_des_scheduled [simp, len_simps]:
  "length (tc_des_encrypt_scheduled sk block triple) = 8" "length (tc_des_decrypt_scheduled sk block triple) = 8"
  by (simp_all add: tc_des_encrypt_scheduled_def tc_des_decrypt_scheduled_def Let_def)

text \<open>The interface of the modes, for every schedule: DES has no failure path.\<close>

lemma des_cipher_fun: "cipher_fun (tc_des_block_cipher k) b = tc_des_encrypt_scheduled (dbk_schedule k) b (dbk_triple k)"
  by (simp add: cipher_fun_def tc_des_block_cipher_def tc_des_block_encrypt_def)

lemma des_inverse_fun:
  "inverse_fun (tc_des_block_cipher_inverse k) b = tc_des_decrypt_scheduled (dbk_schedule k) b (dbk_triple k)"
  by (simp add: inverse_fun_def tc_des_block_cipher_inverse_def tc_des_block_decrypt_def)

interpretation des: invertible_cipher tc_des_block_cipher "\<lambda>k. True" 8 tc_des_block_cipher_inverse
  by unfold_locales
    (simp_all add: TC_BLOCK_MAX_def des_cipher_fun des_inverse_fun decrypt_encrypt_scheduled,
     simp_all add: tc_des_block_cipher_def tc_des_block_cipher_inverse_def tc_des_block_encrypt_def tc_des_block_decrypt_def
       TC_DES_BLOCKLEN_def inverse_fun_def)

end
