(* ===== verification/DES_Round.thy ===== *)
theory DES_Round
  imports DES_FIPS
begin

text \<open>
  The round function of both builds computes the function f of FIPS 46-3. The fast build looks up eight tables that hold
  a selection function followed by the permutation P; the constant-time build evaluates the algebraic normal
  form of all eight at once, one word per monomial. Both are shown equal to the sum of the selected values, each
  spread over the four output positions of its box.
\<close>

section \<open>Lists of indices\<close>

lemma upt_0_32: "[0..<32] = [0, 1, 2, 3, 4, 5, 6, 7, 8, 9, 10, 11, 12, 13, 14, 15, 16, 17, 18, 19, 20, 21, 22,
     23, 24, 25, 26, 27, 28, 29, 30, 31]"
  by (simp add: upt_rec numeral_eq_Suc)

lemma upt_0_64: "[0..<64] = [0, 1, 2, 3, 4, 5, 6, 7, 8, 9, 10, 11, 12, 13, 14, 15, 16, 17, 18, 19, 20, 21, 22,
     23, 24, 25, 26, 27, 28, 29, 30, 31, 32, 33, 34, 35, 36, 37, 38, 39, 40, 41, 42, 43, 44, 45, 46, 47, 48, 49, 50,
     51, 52, 53, 54, 55, 56, 57, 58, 59, 60, 61, 62, 63]"
  by (simp add: upt_rec numeral_eq_Suc)

lemma upt_1_64: "[Suc 0..<64] = [1, 2, 3, 4, 5, 6, 7, 8, 9, 10, 11, 12, 13, 14, 15, 16, 17, 18, 19, 20, 21, 22,
     23, 24, 25, 26, 27, 28, 29, 30, 31, 32, 33, 34, 35, 36, 37, 38, 39, 40, 41, 42, 43, 44, 45, 46, 47, 48, 49, 50,
     51, 52, 53, 54, 55, 56, 57, 58, 59, 60, 61, 62, 63]"
  by (simp add: upt_rec numeral_eq_Suc)

lemma bits_of_u32: "bits_of (w :: u32) = [bit w 31, bit w 30, bit w 29, bit w 28, bit w 27, bit w 26, bit w 25,
     bit w 24, bit w 23, bit w 22, bit w 21, bit w 20, bit w 19, bit w 18, bit w 17, bit w 16, bit w 15, bit w 14,
     bit w 13, bit w 12, bit w 11, bit w 10, bit w 9, bit w 8, bit w 7, bit w 6, bit w 5, bit w 4, bit w 3, bit w 2,
     bit w 1, bit w 0]"
  by (simp add: bits_of_def upt_0_32)

section \<open>The combined tables\<close>

text \<open>The entry of a selection function that a six-bit value addresses, and the bit each of its outputs becomes under P.\<close>

definition select_index :: "nat list" where
  "select_index = [0, 16, 1, 17, 2, 18, 3, 19, 4, 20, 5, 21, 6, 22, 7, 23, 8, 24, 9, 25, 10, 26, 11, 27, 12,
     28, 13, 29, 14, 30, 15, 31, 32, 48, 33, 49, 34, 50, 35, 51, 36, 52, 37, 53, 38, 54, 39, 55, 40, 56, 41, 57, 42,
     58, 43, 59, 44, 60, 45, 61, 46, 62, 47, 63]"

definition out_pos :: "nat list" where
  "out_pos = [23, 15, 9, 1, 19, 4, 30, 14, 8, 16, 2, 26, 6, 12, 22, 31, 24, 18, 7, 29, 28, 3, 21, 13, 0, 20,
     10, 25, 27, 5, 17, 11]"

text \<open>The four bits of a selected value at the output positions of box \<open>g\<close>.\<close>

definition spread :: "nat \<Rightarrow> nat \<Rightarrow> u32" where
  "spread g v = push_bit (out_pos ! (4 * g)) (of_bool (odd (v div 8))) OR push_bit (out_pos ! (4 * g + 1)) (of_bool (odd (v div 4))) OR
     push_bit (out_pos ! (4 * g + 2)) (of_bool (odd (v div 2))) OR push_bit (out_pos ! (4 * g + 3)) (of_bool (odd v))"

lemma SP_select:
  "SP1 = map (\<lambda>i. spread 0 (fips_S1 ! i)) select_index"
  "SP2 = map (\<lambda>i. spread (Suc 0) (fips_S2 ! i)) select_index"
  "SP3 = map (\<lambda>i. spread 2 (fips_S3 ! i)) select_index"
  "SP4 = map (\<lambda>i. spread 3 (fips_S4 ! i)) select_index"
  "SP5 = map (\<lambda>i. spread 4 (fips_S5 ! i)) select_index"
  "SP6 = map (\<lambda>i. spread 5 (fips_S6 ! i)) select_index"
  "SP7 = map (\<lambda>i. spread 6 (fips_S7 ! i)) select_index"
  "SP8 = map (\<lambda>i. spread 7 (fips_S8 ! i)) select_index"
  subgoal by (simp add: SP1_def fips_S1_def select_index_def spread_def out_pos_def)
  subgoal by (simp add: SP2_def fips_S2_def select_index_def spread_def out_pos_def)
  subgoal by (simp add: SP3_def fips_S3_def select_index_def spread_def out_pos_def)
  subgoal by (simp add: SP4_def fips_S4_def select_index_def spread_def out_pos_def)
  subgoal by (simp add: SP5_def fips_S5_def select_index_def spread_def out_pos_def)
  subgoal by (simp add: SP6_def fips_S6_def select_index_def spread_def out_pos_def)
  subgoal by (simp add: SP7_def fips_S7_def select_index_def spread_def out_pos_def)
  subgoal by (simp add: SP8_def fips_S8_def select_index_def spread_def out_pos_def)
  done

lemma bit_spread:
  assumes "g < 8" "n < 32"
  shows "bit (spread g v) n \<longleftrightarrow> (n = out_pos ! (4 * g) \<and> odd (v div 8)) \<or> (n = out_pos ! (4 * g + 1) \<and> odd (v div 4)) \<or>
    (n = out_pos ! (4 * g + 2) \<and> odd (v div 2)) \<or> (n = out_pos ! (4 * g + 3) \<and> odd v)"
  using assms by (auto simp: spread_def bit_simps)

text \<open>The eight selected values after the permutation P.\<close>

definition join :: "(nat \<Rightarrow> nat) \<Rightarrow> u32" where
  "join s = spread 0 (s 0) XOR spread 1 (s 1) XOR spread 2 (s 2) XOR spread 3 (s 3) XOR
     spread 4 (s 4) XOR spread 5 (s 5) XOR spread 6 (s 6) XOR spread 7 (s 7)"

lemma upt_0_8: "[0..<8] = [0, 1, 2, 3, 4, 5, 6, 7]"
  by (simp add: upt_rec numeral_eq_Suc)

lemma upt_quad: "[0..<4] = [0, 1, 2, 3]"
  by (simp add: upt_rec numeral_eq_Suc)

lemma bits_of_join:
  "bits_of (join s) = permute fips_P (concat (map (\<lambda>g. val_bits 4 (s g)) [0..<8]))"
  unfolding bits_of_u32 join_def
  by (simp add: bit_xor_iff bit_spread out_pos_def permute_def fips_P_def val_bits_def upt_0_8 upt_quad)

section \<open>The constant-time round\<close>

lemma upt_0_6: "[0..<6] = [0, 1, 2, 3, 4, 5]"
  by (simp add: upt_rec numeral_eq_Suc)

definition select_all :: "bool \<Rightarrow> u32" where "select_all c = (if c then - 1 else 0)"

lemma select_all_simps [simp]: "select_all True = - 1" "select_all False = 0"
  by (simp_all add: select_all_def)

lemma selected_bit: "(0 :: u32) - ucast (drop_bit b (x :: u8) AND 1) = select_all (bit x b)"
  by (simp add: select_all_def and_one_eq mod_2_eq_odd bit_iff_odd_drop_bit)

lemma masks_nth:
  "des_sbox_output_masks ! 0 = 0x00808202" "des_sbox_output_masks ! Suc 0 = 0x40084010" "des_sbox_output_masks ! 2 = 0x04010104"
  "des_sbox_output_masks ! 3 = 0x80401040" "des_sbox_output_masks ! 4 = 0x21040080" "des_sbox_output_masks ! 5 = 0x10202008"
  "des_sbox_output_masks ! 6 = 0x02100401" "des_sbox_output_masks ! 7 = 0x08020820"
  by (simp_all add: des_sbox_output_masks_def)

lemma input_plane_eq:
  "tc_des_input_plane inputs b =
     select_all (bit (inputs ! 7) b) AND 0x08020820 OR (select_all (bit (inputs ! 6) b) AND 0x02100401 OR
     (select_all (bit (inputs ! 5) b) AND 0x10202008 OR (select_all (bit (inputs ! 4) b) AND 0x21040080 OR
     (select_all (bit (inputs ! 3) b) AND 0x80401040 OR (select_all (bit (inputs ! 2) b) AND 0x04010104 OR
     (select_all (bit (inputs ! 1) b) AND 0x40084010 OR select_all (bit (inputs ! 0) b) AND 0x00808202))))))"
  unfolding tc_des_input_plane_def selected_bit upt_0_8 by (simp add: masks_nth or.commute or.assoc or.left_commute)

lemma input_plane_masked:
  assumes "g < 8"
  shows "tc_des_input_plane inputs b AND des_sbox_output_masks ! g = select_all (bit (inputs ! g) b) AND des_sbox_output_masks ! g"
proof -
  have "g \<in> set [0, 1, 2, 3, 4, 5, 6, 7]" using assms unfolding upt_0_8 [symmetric] by simp
  then show ?thesis
    by (auto simp: input_plane_eq masks_nth bit.conj_disj_distrib2 and.assoc)
qed

lemma input_plane_replicate: "tc_des_input_plane (replicate 8 x) b = select_all (bit x b)"
  by (cases "bit x b") (simp_all add: input_plane_eq)

text \<open>The outputs of box \<open>g\<close> depend on its own input only.\<close>

lemma masked_fold:
  assumes "\<And>a x y. a \<in> set as \<Longrightarrow> x AND m = y AND m \<Longrightarrow> f a x AND m = f' a y AND m" "x AND m = y AND m"
  shows "fold f as x AND m = fold f' as y AND (m :: u32)"
  using assms by (induction as arbitrary: x y) simp_all

lemma masked_and: "x AND m = y AND m \<Longrightarrow> v AND m = w AND m \<Longrightarrow> (x AND v) AND m = (y AND w) AND (m :: u32)"
proof -
  assume *: "x AND m = y AND m" "v AND m = w AND m"
  have dist: "(a AND b) AND m = (a AND m) AND (b AND m)" for a b :: u32
    by (simp add: and.assoc and.left_commute)
  show ?thesis unfolding dist [of x] dist [of y] * ..
qed

lemma masked_xor: "x AND m = y AND m \<Longrightarrow> v AND m = w AND m \<Longrightarrow> (x XOR v) AND m = (y XOR w) AND (m :: u32)"
  by (simp add: bit.conj_xor_distrib2)

lemma round_masked:
  assumes "g < 8"
  shows "tc_des_round inputs AND des_sbox_output_masks ! g =
    tc_des_round (replicate 8 (inputs ! g)) AND des_sbox_output_masks ! g"
proof -
  show ?thesis
    unfolding tc_des_round_def Let_def
    by (intro masked_fold masked_xor masked_and) (auto intro!: masked_and simp: input_plane_masked [OF assms] input_plane_replicate)
qed

text \<open>The sum of the eight tables.\<close>

definition sp_sum :: "u32 list" where
  "sp_sum = [
    0xd8d8dbbc, 0xd73559c1, 0x8306f441, 0x3dabeafe, 0x1cec9542, 0x8a408efb, 0xf079253f, 0xcf34d510,
    0x721726b5, 0x4cfef21c, 0x4deadaa6, 0xf2471ac9, 0xeda34bcf, 0x338fa826, 0x16d508d1, 0xe048253f,
    0x8f0a4602, 0x28bc163d, 0x7cd56b19, 0x8240bf20, 0x6223abc1, 0x37d7e0a8, 0xaf9fd4bc, 0x59bb1bcf,
    0xb77c897e, 0xe0810592, 0x00a1344b, 0x3f7ae567, 0x091474bc, 0x4d697b47, 0xf36abb62, 0x949644d0,
    0x1647a960, 0xa5dac69a, 0x587b189e, 0x83e8bd45, 0xf2a1e679, 0x4fbf0121, 0x67986989, 0x30465aa9,
    0x49b899c3, 0x7241e064, 0xbf458774, 0xcd9e619a, 0xbe5e56bc, 0x982035db, 0x81b27643, 0x7f358e66,
    0xa5e4f7df, 0xda2fe8e3, 0xa79a8421, 0x7fb513be, 0x89de041e, 0xc8017b16, 0x78659b73, 0xa7f8a65d,
    0x8c0f7aa2, 0x05b21fcd, 0x72d26b8c, 0x84455c30, 0x5221a967, 0x724e8634, 0x4d2d549c, 0x38dbf9cb]"

lemma sp_sum_eq: "sp_sum = map2 (XOR) SP1 (map2 (XOR) SP2 (map2 (XOR) SP3 (map2 (XOR) SP4
    (map2 (XOR) SP5 (map2 (XOR) SP6 (map2 (XOR) SP7 SP8))))))"
  by (simp add: sp_sum_def SP1_def SP2_def SP3_def SP4_def SP5_def SP6_def SP7_def SP8_def)

definition anf_sum :: "bool \<Rightarrow> bool \<Rightarrow> bool \<Rightarrow> bool \<Rightarrow> bool \<Rightarrow> bool \<Rightarrow> u32" where
  "anf_sum c0 c1 c2 c3 c4 c5 =
     (let variables = map select_all [c0, c1, c2, c3, c4, c5]
      in fold (\<lambda>monomial result. result XOR
           (fold (\<lambda>b term. if (of_nat monomial :: u32) AND push_bit b 1 \<noteq> 0 then term AND variables ! b else term) [0..<6] (- 1) AND
            des_sbox_anf ! monomial)) [1..<64] (des_sbox_anf ! 0))"

lemma round_replicate: "tc_des_round (replicate 8 x) = anf_sum (bit x 0) (bit x 1) (bit x 2) (bit x 3) (bit x 4) (bit x 5)"
  unfolding tc_des_round_def anf_sum_def input_plane_replicate upt_0_6 by simp

lemma anf_sum_terms:
  "anf_sum c0 c1 c2 c3 c4 c5 = fold (\<lambda>(v, a) r. r XOR v AND a)
     [(select_all c0, 0x0fed827d),
      (select_all c1, 0x5bde2ffd),
      ((select_all c0 AND select_all c1), 0xb1409cc2),
      (select_all c2, 0xc4344efe),
      ((select_all c0 AND select_all c2), 0x994199c4),
      ((select_all c1 AND select_all c2), 0xb74b9f80),
      (((select_all c0 AND select_all c1) AND select_all c2), 0x18a17754),
      (select_all c3, 0xaacffd09),
      ((select_all c0 AND select_all c3), 0x310456d4),
      ((select_all c1 AND select_all c3), 0x6423d3ee),
      (((select_all c0 AND select_all c1) AND select_all c3), 0x30048804),
      ((select_all c2 AND select_all c3), 0x5b802384),
      (((select_all c0 AND select_all c2) AND select_all c3), 0x7984ae84),
      (((select_all c1 AND select_all c2) AND select_all c3), 0x73c0208d),
      ((((select_all c0 AND select_all c1) AND select_all c2) AND select_all c3), 0xb154ad95),
      (select_all c4, 0x57d29dbe),
      ((select_all c0 AND select_all c4), 0xa85bd242),
      ((select_all c1 AND select_all c4), 0xa80102e6),
      (((select_all c0 AND select_all c1) AND select_all c4), 0xe86318c4),
      ((select_all c2 AND select_all c4), 0x291da33d),
      (((select_all c0 AND select_all c2) AND select_all c4), 0x6b038292),
      (((select_all c1 AND select_all c2) AND select_all c4), 0x8928cde6),
      ((((select_all c0 AND select_all c1) AND select_all c2) AND select_all c4), 0xe2527748),
      ((select_all c3 AND select_all c4), 0x92b93275),
      (((select_all c0 AND select_all c3) AND select_all c4), 0xc14f8a07),
      (((select_all c1 AND select_all c3) AND select_all c4), 0x202143c0),
      ((((select_all c0 AND select_all c1) AND select_all c3) AND select_all c4), 0x010151c2),
      (((select_all c2 AND select_all c3) AND select_all c4), 0x08c13385),
      ((((select_all c0 AND select_all c2) AND select_all c3) AND select_all c4), 0x984636c5),
      ((((select_all c1 AND select_all c2) AND select_all c3) AND select_all c4), 0),
      (((((select_all c0 AND select_all c1) AND select_all c2) AND select_all c3) AND select_all c4), 0),
      (select_all c5, 0xce9f72dc),
      ((select_all c0 AND select_all c5), 0xbc70ed87),
      ((select_all c1 AND select_all c5), 0x15e29e03),
      (((select_all c0 AND select_all c1) AND select_all c5), 0xd94e56e3),
      ((select_all c2 AND select_all c5), 0x20d201e7),
      (((select_all c0 AND select_all c2) AND select_all c5), 0x97c21166),
      (((select_all c1 AND select_all c2) AND select_all c5), 0x6c4ea18e),
      ((((select_all c0 AND select_all c1) AND select_all c2) AND select_all c5), 0x9a6f690d),
      ((select_all c3 AND select_all c5), 0xf530cdaa),
      (((select_all c0 AND select_all c3) AND select_all c5), 0xb9604089),
      (((select_all c1 AND select_all c3) AND select_all c5), 0xdce27ca7),
      ((((select_all c0 AND select_all c1) AND select_all c3) AND select_all c5), 0x1128dd6c),
      (((select_all c2 AND select_all c3) AND select_all c5), 0x4880a3e2),
      ((((select_all c0 AND select_all c2) AND select_all c3) AND select_all c5), 0x6a803ce6),
      ((((select_all c1 AND select_all c2) AND select_all c3) AND select_all c5), 0x61d420cb),
      (((((select_all c0 AND select_all c1) AND select_all c2) AND select_all c3) AND select_all c5), 0xa241b7c7),
      ((select_all c4 AND select_all c5), 0xe471c301),
      (((select_all c0 AND select_all c4) AND select_all c5), 0x640da284),
      (((select_all c1 AND select_all c4) AND select_all c5), 0xe443c0e6),
      ((((select_all c0 AND select_all c1) AND select_all c4) AND select_all c5), 0x27895a46),
      (((select_all c2 AND select_all c4) AND select_all c5), 0xe1c11fe5),
      ((((select_all c0 AND select_all c2) AND select_all c4) AND select_all c5), 0x5b946a04),
      ((((select_all c1 AND select_all c2) AND select_all c4) AND select_all c5), 0xa1e81f7b),
      (((((select_all c0 AND select_all c1) AND select_all c2) AND select_all c4) AND select_all c5), 0x593aa394),
      (((select_all c3 AND select_all c4) AND select_all c5), 0xe4ad8fab),
      ((((select_all c0 AND select_all c3) AND select_all c4) AND select_all c5), 0xbf5de609),
      ((((select_all c1 AND select_all c3) AND select_all c4) AND select_all c5), 0x64438e59),
      (((((select_all c0 AND select_all c1) AND select_all c3) AND select_all c4) AND select_all c5), 0xf8e3deda),
      ((((select_all c2 AND select_all c3) AND select_all c4) AND select_all c5), 0xe9d593e7),
      (((((select_all c0 AND select_all c2) AND select_all c3) AND select_all c4) AND select_all c5), 0x1c848eaf),
      (((((select_all c1 AND select_all c2) AND select_all c3) AND select_all c4) AND select_all c5), 0),
      ((((((select_all c0 AND select_all c1) AND select_all c2) AND select_all c3) AND select_all c4) AND select_all c5), 0)] 0xd8d8dbbc"
  unfolding anf_sum_def One_nat_def upt_1_64 upt_0_6 by (simp add: des_sbox_anf_def)

lemma anf_sum_eq: "anf_sum c0 c1 c2 c3 c4 c5 = sp_sum ! bits_val [c5, c4, c3, c2, c1, c0]"
  unfolding anf_sum_terms
  by (cases c0; cases c1; cases c2; cases c3; cases c4; cases c5) (simp_all add: sp_sum_def bits_val_def)

section \<open>Both rounds in terms of the selection functions\<close>

lemma masks_cover:
  assumes "\<And>g. g < 8 \<Longrightarrow> v AND des_sbox_output_masks ! g = w AND des_sbox_output_masks ! g"
  shows "v = w"
proof -
  have full_mask: "u AND 0xFFFFFFFF = u" for u :: u32
  proof -
    have "(0xFFFFFFFF :: u32) = - 1" by simp
    then show ?thesis by (metis and.right_neutral)
  qed
  have all: "u = u AND 0x00808202 OR (u AND 0x40084010 OR (u AND 0x04010104 OR (u AND 0x80401040 OR
      (u AND 0x21040080 OR (u AND 0x10202008 OR (u AND 0x02100401 OR u AND 0x08020820))))))" for u :: u32
    using full_mask by (simp flip: bit.conj_disj_distrib)
  have m: "v AND 0x00808202 = w AND 0x00808202" "v AND 0x40084010 = w AND 0x40084010" "v AND 0x04010104 = w AND 0x04010104"
    "v AND 0x80401040 = w AND 0x80401040" "v AND 0x21040080 = w AND 0x21040080" "v AND 0x10202008 = w AND 0x10202008"
    "v AND 0x02100401 = w AND 0x02100401" "v AND 0x08020820 = w AND 0x08020820"
    using assms [of 0] assms [of "Suc 0"] assms [of 2] assms [of 3] assms [of 4] assms [of 5] assms [of 6] assms [of 7]
    by (simp_all add: masks_nth)
  show ?thesis by (subst all [of v], subst all [of w]) (simp only: m)
qed

lemma join_masked:
  assumes "g < 8"
  shows "join s AND des_sbox_output_masks ! g = spread g (s g)"
proof -
  have "g \<in> set [0, 1, 2, 3, 4, 5, 6, 7]" using assms unfolding upt_0_8 [symmetric] by simp
  then show ?thesis
    by (auto simp: bits_of_inject [symmetric] bits_of_u32 masks_nth join_def bit_and_iff bit_xor_iff bit_spread out_pos_def)
qed

lemma select_index_less: "x < 64 \<Longrightarrow> select_index ! x < 64"
  using nth_mem [of x select_index] by (auto simp: select_index_def)

lemma length_select_index [simp]: "length select_index = 64"
  by (simp add: select_index_def)

lemma sp_sum_nth:
  assumes "x < 64"
  shows "sp_sum ! x = join (\<lambda>g. fips_S ! g ! (select_index ! x))"
  using assms unfolding sp_sum_eq SP_select
  by (simp add: join_def fips_S_def xor.assoc)

text \<open>The value of a group, as both builds form it from a word.\<close>

lemma bits_val_word:
  fixes w :: "'a::len word"
  shows "bits_val [bit w 5, bit w 4, bit w 3, bit w 2, bit w 1, bit w 0] = unat (take_bit 6 w)"
proof -
  have "unat (take_bit 6 w) = take_bit 6 (unat w)" by (simp add: unsigned_take_bit_eq)
  also have "\<dots> = horner_sum of_bool 2 (map (bit (unat w)) [0..<6])" by (rule horner_sum_bit_eq_take_bit [symmetric])
  also have "map (bit (unat w)) [0..<6] = map (bit w) [0..<6]" by (auto simp: bit_unsigned_iff dest: bit_imp_le_length)
  finally show ?thesis by (simp add: bits_val_def upt_0_6)
qed

lemma six_bits_eq: "six_bits n t = bits_val [bit t (n + 5), bit t (n + 4), bit t (n + 3), bit t (n + 2), bit t (n + 1), bit t n]"
proof -
  have "drop_bit n t AND 0x3f = take_bit 6 (drop_bit n t)" by (simp add: take_bit_eq_mask mask_eq_exp_minus_1)
  then show ?thesis using bits_val_word [of "drop_bit n t"] by (simp add: six_bits_def bit_drop_bit_eq add.commute)
qed

lemma bits_val_less: "length bs = 6 \<Longrightarrow> bits_val bs < 64"
  using horner_sum_bound [of "rev bs"] by (simp add: bits_val_def)

lemma round_spec:
  assumes "\<And>g. g < 8 \<Longrightarrow> bits_val [bit (inputs ! g) 5, bit (inputs ! g) 4, bit (inputs ! g) 3, bit (inputs ! g) 2, bit (inputs ! g) 1, bit (inputs ! g) 0] = x g"
  shows "tc_des_round inputs = join (\<lambda>g. fips_S ! g ! (select_index ! x g))"
proof (rule masks_cover)
  fix g :: nat assume g: "g < 8"
  have "x g < 64" unfolding assms [OF g, symmetric] by (rule bits_val_less) simp
  then have "tc_des_round (replicate 8 (inputs ! g)) = join (\<lambda>k. fips_S ! k ! (select_index ! x g))"
    using assms [OF g] by (simp add: round_replicate anf_sum_eq sp_sum_nth)
  then show "tc_des_round inputs AND des_sbox_output_masks ! g = join (\<lambda>k. fips_S ! k ! (select_index ! x k)) AND des_sbox_output_masks ! g"
    using round_masked [OF g, of inputs] g by (simp add: join_masked)
qed

lemma fips_select_eq:
  assumes "length b = 6"
  shows "fips_select g b = val_bits 4 (fips_S ! g ! (select_index ! bits_val b))"
proof -
  obtain b0 b1 b2 b3 b4 b5 where b: "b = [b0, b1, b2, b3, b4, b5]"
    using assms by (auto simp: length_Suc_conv numeral_eq_Suc)
  have "16 * bits_val [b0, b5] + bits_val [b1, b2, b3, b4] = select_index ! bits_val b"
    unfolding b by (cases b0; cases b1; cases b2; cases b3; cases b4; cases b5) (simp_all add: select_index_def bits_val_def)
  then show ?thesis by (simp add: fips_select_def b)
qed

lemma fips_f_join:
  assumes "length K = 48" "length R = 32"
  shows "fips_f R K = bits_of (join (\<lambda>g. fips_S ! g ! (select_index ! bits_val (fips_group g (xor_bits (permute fips_E R) K)))))"
proof -
  have "length fips_E = 48" by (simp add: fips_E_def)
  then have "length (fips_group g (xor_bits (permute fips_E R) K)) = 6" if "g < 8" for g
    using assms that by (simp add: fips_group_def)
  then have "map (\<lambda>g. fips_select g (fips_group g (xor_bits (permute fips_E R) K))) [0..<8] =
      map (\<lambda>g. val_bits 4 (fips_S ! g ! (select_index ! bits_val (fips_group g (xor_bits (permute fips_E R) K))))) [0..<8]"
    by (simp add: fips_select_eq)
  then show ?thesis unfolding fips_f_def bits_of_join by (rule arg_cong)
qed

end
