(* ===== verification/DES_Refine.thy ===== *)
theory DES_Refine
  imports DES_Round
begin

text \<open>
  Both builds of the DES block cipher are FIPS 46-3: the round keys hold the key schedule of the standard, the
  word-level permutations are the initial permutation and its inverse, and a whole stage is the algorithm on the
  bits of the block, in both directions.
\<close>

section \<open>The expansion\<close>

lemma upt_0_48: "[0..<48] = [0, 1, 2, 3, 4, 5, 6, 7, 8, 9, 10, 11, 12, 13, 14, 15, 16, 17, 18, 19, 20, 21, 22, 23,
     24, 25, 26, 27, 28, 29, 30, 31, 32, 33, 34, 35, 36, 37, 38, 39, 40, 41, 42, 43, 44, 45, 46, 47]"
  by (simp add: upt_rec numeral_eq_Suc)

lemma fips_E_eq: "fips_E = map (\<lambda>i. (4 * (i div 6) + i mod 6 + 31) mod 32 + 1) [0..<48]"
  by (simp add: upt_0_48 fips_E_def)

lemma expansion_position: "x < 34 \<Longrightarrow> 31 - (x + 31) mod 32 = (64 - x) mod (32 :: nat)"
  by (cases "x = 0"; cases "x = 33") (auto simp: mod_if)

lemma group_bits:
  assumes "g < 8" "length K = 48"
  shows "fips_group g (xor_bits (permute fips_E (bits_of (R :: u32))) K) =
    map (\<lambda>j. bit R ((64 - 4 * g - j) mod 32) \<noteq> K ! (6 * g + j)) [0..<6]"
proof (rule nth_equalityI)
  have len: "length fips_E = 48" by (simp add: fips_E_eq)
  then show "length (fips_group g (xor_bits (permute fips_E (bits_of R)) K)) =
      length (map (\<lambda>j. bit R ((64 - 4 * g - j) mod 32) \<noteq> K ! (6 * g + j)) [0..<6])"
    using assms by (simp add: fips_group_def)
  fix j assume "j < length (fips_group g (xor_bits (permute fips_E (bits_of R)) K))"
  then have j: "j < 6" by (simp add: fips_group_def)
  have i: "6 * g + j < 48" "(6 * g + j) div 6 = g" "(6 * g + j) mod 6 = j" using assms(1) j by simp_all
  have "permute fips_E (bits_of R) ! (6 * g + j) = bits_of R ! ((4 * g + j + 31) mod 32)"
    using i by (simp add: permute_def fips_E_eq)
  also have "\<dots> = bit R (31 - (4 * g + j + 31) mod 32)" by (simp add: nth_bits_of)
  also have "31 - (4 * g + j + 31) mod 32 = (64 - 4 * g - j) mod 32" using assms(1) j expansion_position [of "4 * g + j"] by simp
  finally show "fips_group g (xor_bits (permute fips_E (bits_of R)) K) ! j =
      map (\<lambda>j. bit R ((64 - 4 * g - j) mod 32) \<noteq> K ! (6 * g + j)) [0..<6] ! j"
    using assms(2) i j len by (simp add: fips_group_def)
qed

section \<open>Round keys\<close>

text \<open>A sequence of bits stored one by one at distinct places of an array.\<close>

definition put_bit :: "(nat \<Rightarrow> nat) \<Rightarrow> (nat \<Rightarrow> nat) \<Rightarrow> (nat \<Rightarrow> bool) \<Rightarrow> nat \<Rightarrow> 'a::len word list \<Rightarrow> 'a word list" where
  "put_bit at sh k i ws = ws[at i := ws ! at i OR push_bit (sh i) (of_bool (k i))]"

lemma length_put_bit [simp]: "length (put_bit at sh k i ws) = length ws"
  by (simp add: put_bit_def)

lemma put_bits:
  fixes ws :: "'a::len word list"
  assumes "\<And>i. i < n \<Longrightarrow> at i < length ws \<and> sh i < LENGTH('a)"
  shows "length (fold (put_bit at sh k) [0..<n] ws) = length ws \<and>
    (\<forall>w<length ws. \<forall>p<LENGTH('a). bit (fold (put_bit at sh k) [0..<n] ws ! w) p \<longleftrightarrow>
       bit (ws ! w) p \<or> (\<exists>i<n. w = at i \<and> p = sh i \<and> k i))"
  using assms
proof (induction n)
  case 0
  then show ?case by simp
next
  case (Suc n)
  let ?f = "fold (put_bit at sh k) [0..<n] ws"
  have IH: "length ?f = length ws" "\<And>w p. w < length ws \<Longrightarrow> p < LENGTH('a) \<Longrightarrow>
      bit (?f ! w) p \<longleftrightarrow> bit (ws ! w) p \<or> (\<exists>i<n. w = at i \<and> p = sh i \<and> k i)"
    using Suc.IH Suc.prems by (simp_all add: less_SucI)
  have n: "at n < length ws" "sh n < LENGTH('a)" using Suc.prems by simp_all
  have "bit (put_bit at sh k n ?f ! w) p \<longleftrightarrow> bit (?f ! w) p \<or> (w = at n \<and> p = sh n \<and> k n)"
    if "w < length ws" "p < LENGTH('a)" for w p
    using that n IH(1) by (cases "w = at n") (auto simp: put_bit_def bit_simps)
  then show ?case using IH by (simp add: Ex_less_Suc) blast
qed

lemma put_round_key_words:
  assumes "\<And>i. v i = of_bool (k i)"
  shows "fold (\<lambda>i sk. put_round_key_bit i (v i) sk) is (Key_Words ws) = Key_Words (fold
    (put_bit (\<lambda>i. if i div 6 mod 2 = 0 then 1 else 0) (\<lambda>i. (3 - i div 6 div 2) * 8 + 5 - i mod 6) k) is ws)"
  using assms by (induction "is" arbitrary: ws) (simp_all add: put_bit_def Let_def)

lemma put_round_key_bytes:
  assumes "\<And>i. v i = of_bool (k i)"
  shows "fold (\<lambda>i sk. put_round_key_bit i (v i) sk) is (Key_Bytes bs) =
    Key_Bytes (fold (put_bit (\<lambda>i. i div 8) (\<lambda>i. 7 - i mod 8) k) is bs)"
  using assms by (induction "is" arbitrary: bs) (simp_all add: put_bit_def)

lemma words_position:
  fixes i g j :: nat
  assumes "i < 48" "g < 8" "j < 6" "(i div 6 mod 2 = 0) = (g mod 2 = 0)"
    "(3 - g div 2) * 8 + 5 - j = (3 - i div 6 div 2) * 8 + 5 - i mod 6"
  shows "i = 6 * g + j"
proof -
  define h m where "h = i div 6" and "m = i mod 6"
  have i: "i = 6 * h + m" and m: "m < 6" and h: "h < 8" using assms(1) by (simp_all add: h_def m_def)
  have "(3 - g div 2) * 8 + (5 - j) = (3 - h div 2) * 8 + (5 - m)"
    using assms(3,5) m by (simp add: h_def m_def)
  from arg_cong [OF this, of "\<lambda>x. x div 8"] arg_cong [OF this, of "\<lambda>x. x mod 8"]
  have "3 - g div 2 = 3 - h div 2" "5 - j = 5 - m" by simp_all
  moreover have "g div 2 \<le> 3" "h div 2 \<le> 3" using assms(2) h by simp_all
  ultimately have "g div 2 = h div 2" "m = j" using assms(3) m by (metis diff_diff_cancel, simp)
  moreover have "h mod 2 = g mod 2" using assms(4) by (auto simp: h_def)
  ultimately have "h = g" "m = j" by (metis mult_div_mod_eq)+
  then show ?thesis using i by simp
qed

text \<open>The 48 bits that permuted choice 2 selects, and the round key that holds them.\<close>

definition pc2_bits :: "u32 \<Rightarrow> u32 \<Rightarrow> bool list" where
  "pc2_bits C D = map (\<lambda>i. pc2_bit C D i = 1) [0..<48]"

lemma pc2_bit_eq:
  "pc2_bit C D i = of_bool (if DES_PC2 ! i \<le> 28 then bit C (28 - DES_PC2 ! i) else bit D (56 - DES_PC2 ! i))"
  by (simp add: pc2_bit_def Let_def and_one_eq mod_2_eq_odd bit_iff_odd_drop_bit)

lemma pc2_bit_of_bool: "pc2_bit C D i = of_bool (pc2_bit C D i = 1)"
  by (simp add: pc2_bit_eq)

lemma key_words_bit:
  assumes "g < 8" "j < 6"
  shows "bit (key_words (round_key TC_DES_SBOX_MODE_FAST C D) ! (if g mod 2 = 0 then 1 else 0)) ((3 - g div 2) * 8 + 5 - j) =
    pc2_bits C D ! (6 * g + j)"
proof -
  let ?at = "\<lambda>i::nat. if i div 6 mod 2 = 0 then 1 else 0 :: nat" and ?sh = "\<lambda>i. (3 - i div 6 div 2) * 8 + 5 - i mod 6"
    and ?k = "\<lambda>i. pc2_bit C D i = 1"
  have rk: "key_words (round_key TC_DES_SBOX_MODE_FAST C D) = fold (put_bit ?at ?sh ?k) [0..<48] (replicate 2 0)"
    unfolding round_key_def round_key_zero_def des_sbox_mode.case
    by (subst put_round_key_words [OF pc2_bit_of_bool]) simp
  have pos: "(3 - x) * 8 + 5 - y < 32" for x y :: nat by arith
  have "\<And>i. i < 48 \<Longrightarrow> ?at i < length (replicate 2 (0 :: u32)) \<and> ?sh i < LENGTH(32)" by (simp add: pos)
  note put = put_bits [of 48 ?at "replicate 2 (0 :: u32)" ?sh ?k, OF this]
  have i: "6 * g + j < 48" "(6 * g + j) div 6 = g" "(6 * g + j) mod 6 = j" using assms by simp_all
  have "(\<exists>i<48. (if g mod 2 = 0 then 1 else 0) = ?at i \<and> (3 - g div 2) * 8 + 5 - j = ?sh i \<and> ?k i) \<longleftrightarrow> ?k (6 * g + j)"
  proof
    assume "\<exists>i<48. (if g mod 2 = 0 then 1 else 0) = ?at i \<and> (3 - g div 2) * 8 + 5 - j = ?sh i \<and> ?k i"
    then obtain i where n: "i < 48" "(if g mod 2 = 0 then 1 else 0) = ?at i" "(3 - g div 2) * 8 + 5 - j = ?sh i" "?k i" by blast
    from n(2) have "(i div 6 mod 2 = 0) = (g mod 2 = 0)" by (metis zero_neq_one)
    from words_position [OF n(1) assms this n(3)] n(4) show "?k (6 * g + j)" by simp
  next
    assume "?k (6 * g + j)"
    then show "\<exists>i<48. (if g mod 2 = 0 then 1 else 0) = ?at i \<and> (3 - g div 2) * 8 + 5 - j = ?sh i \<and> ?k i"
      using i by (intro exI [of _ "6 * g + j"]) simp
  qed
  moreover have "(3 - g div 2) * 8 + 5 - j < 32" "replicate 2 (0 :: u32) ! (if g mod 2 = 0 then 1 else 0) = 0" by (simp_all add: pos)
  ultimately show ?thesis using put i(1) by (simp add: rk pc2_bits_def)
qed

lemma key_bytes_bit:
  assumes "i < 48"
  shows "bit (key_bytes (round_key TC_DES_SBOX_MODE_CONSTANT_TIME C D) ! (i div 8)) (7 - i mod 8) = pc2_bits C D ! i"
proof -
  let ?at = "\<lambda>i::nat. i div 8" and ?sh = "\<lambda>i::nat. 7 - i mod 8" and ?k = "\<lambda>i. pc2_bit C D i = 1"
  have rk: "key_bytes (round_key TC_DES_SBOX_MODE_CONSTANT_TIME C D) = fold (put_bit ?at ?sh ?k) [0..<48] (replicate 6 0)"
    unfolding round_key_def round_key_zero_def des_sbox_mode.case
    by (subst put_round_key_bytes [OF pc2_bit_of_bool]) simp
  have "\<And>i. i < 48 \<Longrightarrow> ?at i < length (replicate 6 (0 :: u8)) \<and> ?sh i < LENGTH(8)"
    by (simp add: less_mult_imp_div_less)
  note put = put_bits [of 48 ?at "replicate 6 (0 :: u8)" ?sh ?k, OF this]
  have "i' = i" if "i div 8 = i' div 8" "7 - i mod 8 = 7 - i' mod 8" for i'
  proof -
    have "i mod 8 \<le> 7" "i' mod 8 \<le> 7" by simp_all
    then have "i mod 8 = i' mod 8" using that(2) by (metis diff_diff_cancel)
    then show ?thesis using that(1) by (metis mult_div_mod_eq)
  qed
  then have "(\<exists>i'<48. i div 8 = ?at i' \<and> 7 - i mod 8 = ?sh i' \<and> ?k i') \<longleftrightarrow> ?k i"
    using assms by metis
  moreover have "i div 8 < 6" "7 - i mod 8 < 8" using assms by simp_all
  ultimately show ?thesis using put assms by (simp add: rk pc2_bits_def)
qed

section \<open>The round function\<close>

lemma bit_double: "bit (R * 2 :: u32) i \<longleftrightarrow> i < 32 \<and> 0 < i \<and> bit R (i - 1)"
  by (auto simp: mult.commute [of R 2] bit_double_iff)

lemma bit_rotations:
  fixes R :: u32
  assumes "i < 32"
  shows "bit (push_bit 1 R OR drop_bit 31 R) i = bit R ((i + 31) mod 32)"
    and "bit (drop_bit 3 R OR push_bit 29 R) i = bit R ((i + 3) mod 32)"
proof -
  have long: "\<not> bit R n" if "32 \<le> n" for n using that bit_imp_le_length [of R n] by auto
  show "bit (push_bit 1 R OR drop_bit 31 R) i = bit R ((i + 31) mod 32)"
    using assms by (cases "i = 0") (auto simp: bit_simps bit_double long mod_if)
  show "bit (drop_bit 3 R OR push_bit 29 R) i = bit R ((i + 3) mod 32)"
    using assms by (cases "i < 29") (auto simp: bit_simps long mod_if add.commute)
qed

lemma rotation_position:
  assumes "g < 8" "j < 6"
  shows "((3 - g div 2) * 8 + 5 - j + (if g mod 2 = 0 then 3 else 31)) mod 32 = (64 - 4 * g - j) mod (32 :: nat)"
proof -
  define h where "h = g div 2"
  have g: "g = 2 * h + g mod 2" and h: "h < 4" using assms(1) by (simp_all add: h_def)
  show ?thesis
  proof (cases "g mod 2 = 0")
    case True
    then have "64 - 4 * g - j = (3 - g div 2) * 8 + 5 - j + 3 + 32" using g h assms(2) unfolding h_def [symmetric] by simp
    then show ?thesis by (simp only: True if_True mod_add_self2 refl)
  next
    case False
    then have "64 - 4 * g - j = (3 - g div 2) * 8 + 5 - j + 31" using g h assms(2) unfolding h_def [symmetric] by simp
    then show ?thesis by (simp only: False if_False)
  qed
qed

lemma six_bits_map: "six_bits n t = bits_val (map (\<lambda>j. bit t (n + 5 - j)) [0..<6])"
  by (simp add: six_bits_eq upt_0_6 add.commute)

lemma fast_group:
  assumes "g < 8" "length K = 48"
    "\<And>j. j < 6 \<Longrightarrow> bit (sk ! (if g mod 2 = 0 then 1 else 0)) ((3 - g div 2) * 8 + 5 - j) = K ! (6 * g + j)"
  shows "six_bits ((3 - g div 2) * 8)
      ((if g mod 2 = 0 then drop_bit 3 R OR push_bit 29 R else push_bit 1 R OR drop_bit 31 R) XOR sk ! (if g mod 2 = 0 then 1 else 0)) =
    bits_val (fips_group g (xor_bits (permute fips_E (bits_of R)) K))"
proof -
  have pos: "(3 - x) * 8 + 5 - y < 32" for x y :: nat by arith
  have "bit ((if g mod 2 = 0 then drop_bit 3 R OR push_bit 29 R else push_bit 1 R OR drop_bit 31 R) XOR sk ! (if g mod 2 = 0 then 1 else 0))
      ((3 - g div 2) * 8 + 5 - j) = (bit R ((64 - 4 * g - j) mod 32) \<noteq> K ! (6 * g + j))" if "j < 6" for j
    using rotation_position [OF assms(1) that] assms(3) [OF that] pos
    by (cases "g mod 2 = 0") (simp_all only: bit_xor_iff bit_rotations if_True if_False refl)
  then show ?thesis unfolding six_bits_map group_bits [OF assms(1,2)] by (intro arg_cong [of _ _ bits_val]) simp
qed

lemma SP_spread:
  "x < 64 \<Longrightarrow> SP1 ! x = spread 0 (fips_S ! 0 ! (select_index ! x))" "x < 64 \<Longrightarrow> SP2 ! x = spread 1 (fips_S ! 1 ! (select_index ! x))"
  "x < 64 \<Longrightarrow> SP3 ! x = spread 2 (fips_S ! 2 ! (select_index ! x))" "x < 64 \<Longrightarrow> SP4 ! x = spread 3 (fips_S ! 3 ! (select_index ! x))"
  "x < 64 \<Longrightarrow> SP5 ! x = spread 4 (fips_S ! 4 ! (select_index ! x))" "x < 64 \<Longrightarrow> SP6 ! x = spread 5 (fips_S ! 5 ! (select_index ! x))"
  "x < 64 \<Longrightarrow> SP7 ! x = spread 6 (fips_S ! 6 ! (select_index ! x))" "x < 64 \<Longrightarrow> SP8 ! x = spread 7 (fips_S ! 7 ! (select_index ! x))"
  unfolding SP_select by (simp_all add: fips_S_def)

lemma six_bits_less: "six_bits n t < 64"
  unfolding six_bits_map by (rule bits_val_less) simp

lemma round_fast_join:
  assumes "length K = 48" "\<And>g j. g < 8 \<Longrightarrow> j < 6 \<Longrightarrow>
    bit (sk ! (if g mod 2 = 0 then 1 else 0)) ((3 - g div 2) * 8 + 5 - j) = K ! (6 * g + j)"
  shows "round_fast R sk = join (\<lambda>g. fips_S ! g ! (select_index ! bits_val (fips_group g (xor_bits (permute fips_E (bits_of R)) K))))"
proof -
  have grp: "six_bits ((3 - g div 2) * 8)
      ((if g mod 2 = 0 then drop_bit 3 R OR push_bit 29 R else push_bit 1 R OR drop_bit 31 R) XOR sk ! (if g mod 2 = 0 then 1 else 0)) =
    bits_val (fips_group g (xor_bits (permute fips_E (bits_of R)) K))" if "g < 8" for g
    using fast_group [OF that assms(1) assms(2) [OF that]] .
  show ?thesis
    unfolding round_fast_def Let_def join_def SP_spread [OF six_bits_less]
    using grp [of 0] grp [of 1] grp [of 2] grp [of 3] grp [of 4] grp [of 5] grp [of 6] grp [of 7]
    by (simp add: xor.assoc xor.commute xor.left_commute)
qed

lemma ct_group:
  assumes "g < 8" "j < 6"
  shows "bit (expanded_groups R ! g) (5 - j) = bit R ((64 - 4 * g - j) mod 32)"
    and "bit (packed_groups p ! g) (5 - j) = bit (p ! ((6 * g + j) div 8)) (7 - (6 * g + j) mod 8)"
proof -
  have long: "\<not> bit b n" if "8 \<le> n" for b :: u8 and n using that bit_imp_le_length [of b n] by auto
  have g: "g \<in> set [0, 1, 2, 3, 4, 5, 6, 7]" and j: "j \<in> set [0, 1, 2, 3, 4, 5]"
    using assms unfolding upt_0_8 [symmetric] upt_0_6 [symmetric] by simp_all
  show "bit (expanded_groups R ! g) (5 - j) = bit R ((64 - 4 * g - j) mod 32)"
    using g j by (auto simp: expanded_groups_def bit_simps bit_double)
  show "bit (packed_groups p ! g) (5 - j) = bit (p ! ((6 * g + j) div 8)) (7 - (6 * g + j) mod 8)"
    using g j long by (auto simp: packed_groups_def bit_simps)
qed

lemma round_ct_join:
  assumes "length K = 48" "\<And>i. i < 48 \<Longrightarrow> bit (p ! (i div 8)) (7 - i mod 8) = K ! i"
  shows "round_constant_time R p = join (\<lambda>g. fips_S ! g ! (select_index ! bits_val (fips_group g (xor_bits (permute fips_E (bits_of R)) K))))"
  unfolding round_constant_time_def
proof (rule round_spec)
  fix g :: nat assume g: "g < 8"
  let ?x = "map (\<lambda>i. ucast (expanded_groups R ! i XOR ucast (packed_groups p ! i))) [0..<8] ! g :: u8"
  have "bit ?x (5 - j) = (bit R ((64 - 4 * g - j) mod 32) \<noteq> K ! (6 * g + j))" if "j < 6" for j
    using g that less_imp_diff_less [of 5 8 j] less_imp_diff_less [of 5 32 j] assms(2) [of "6 * g + j"] ct_group(1) [OF g that, of R] ct_group(2) [OF g that, of p] by (simp add: bit_simps)
  then have "map (\<lambda>j. bit ?x (5 - j)) [0..<6] = fips_group g (xor_bits (permute fips_E (bits_of R)) K)"
    unfolding group_bits [OF g assms(1)] by simp
  then show "bits_val [bit ?x 5, bit ?x 4, bit ?x 3, bit ?x 2, bit ?x 1, bit ?x 0] =
      bits_val (fips_group g (xor_bits (permute fips_E (bits_of R)) K))"
    by (simp add: upt_0_6)
qed

lemma round_key_shape:
  "round_key TC_DES_SBOX_MODE_FAST C D = Key_Words (key_words (round_key TC_DES_SBOX_MODE_FAST C D))"
  "round_key TC_DES_SBOX_MODE_CONSTANT_TIME C D = Key_Bytes (key_bytes (round_key TC_DES_SBOX_MODE_CONSTANT_TIME C D))"
  unfolding round_key_def round_key_zero_def des_sbox_mode.case
    put_round_key_words [OF pc2_bit_of_bool] put_round_key_bytes [OF pc2_bit_of_bool] by simp_all

lemma length_pc2_bits [simp]: "length (pc2_bits C D) = 48"
  by (simp add: pc2_bits_def)

text \<open>The round function of both builds is f.\<close>

lemma des_f_fips: "bits_of (des_f R (round_key mode C D)) = fips_f (bits_of R) (pc2_bits C D)"
proof (cases mode)
  case TC_DES_SBOX_MODE_FAST
  then show ?thesis
    by (subst TC_DES_SBOX_MODE_FAST, subst round_key_shape(1))
      (simp add: round_fast_join [OF length_pc2_bits key_words_bit] fips_f_join)
next
  case TC_DES_SBOX_MODE_CONSTANT_TIME
  then show ?thesis
    by (subst TC_DES_SBOX_MODE_CONSTANT_TIME, subst round_key_shape(2))
      (simp add: round_ct_join [OF length_pc2_bits key_bytes_bit] fips_f_join)
qed

section \<open>The key schedule\<close>

definition bits28 :: "u32 \<Rightarrow> bool list" where
  "bits28 C = map (bit C) (rev [0..<28])"

definition half_ok :: "u32 \<Rightarrow> bool" where
  "half_ok C \<longleftrightarrow> (\<forall>j\<ge>28. \<not> bit C j)"

lemma length_bits28 [simp]: "length (bits28 C) = 28"
  by (simp add: bits28_def)

lemma nth_bits28: "i < 28 \<Longrightarrow> bits28 C ! i = bit C (27 - i)"
  by (simp add: bits28_def rev_nth)

lemma get_key_bit_eq:
  assumes "1 \<le> p" "p \<le> 64" "length k \<ge> 8"
  shows "tc_des_get_key_bit k p = of_bool (bytes_bits k ! (p - 1))"
  using assms by (simp add: tc_des_get_key_bit_def nth_bytes_bits and_one_eq mod_2_eq_odd bit_iff_odd_drop_bit Let_def)

lemma pc1_fold:
  assumes "n \<le> 28" "\<And>i. i < n \<Longrightarrow> v i = of_bool (b i)"
  shows "bit (fold (\<lambda>i C. push_bit 1 C OR ucast (v i :: u8)) [0..<n] (0 :: u32)) j \<longleftrightarrow> j < n \<and> b (n - 1 - j)"
  using assms
proof (induction n arbitrary: j)
  case 0
  then show ?case by simp
next
  case (Suc n)
  then have "bit (fold (\<lambda>i C. push_bit 1 C OR ucast (v i)) [0..<n] (0 :: u32)) i \<longleftrightarrow> i < n \<and> b (n - 1 - i)" for i by simp
  then show ?case using Suc.prems by (cases j) (auto simp: bit_or_iff bit_double bit_unsigned_iff bit_simps)
qed

lemma pc1_half_eq:
  assumes "length table = 28" "\<And>p. p \<in> set table \<Longrightarrow> 1 \<le> p \<and> p \<le> 64" "length k \<ge> 8"
  shows "half_ok (pc1_half k table) \<and> bits28 (pc1_half k table) = permute table (bytes_bits k)"
proof -
  have "\<And>i. i < 28 \<Longrightarrow> tc_des_get_key_bit k (table ! i) = of_bool (bytes_bits k ! (table ! i - 1))"
    using assms by (intro get_key_bit_eq) simp_all
  from pc1_fold [of 28, OF _ this]
  have b: "bit (pc1_half k table) j \<longleftrightarrow> j < 28 \<and> bytes_bits k ! (table ! (27 - j) - 1)" for j
    by (simp add: pc1_half_def)
  then have "half_ok (pc1_half k table)" by (simp add: half_ok_def)
  moreover have "bits28 (pc1_half k table) = permute table (bytes_bits k)"
    using assms(1) by (intro nth_equalityI) (simp_all add: nth_bits28 b permute_def less_imp_diff_less)
  ultimately show ?thesis ..
qed

lemma bit_rotate28:
  assumes "half_ok C" "s \<le> 28"
  shows "bit (rotate28 s C) j \<longleftrightarrow> j < 28 \<and> (if s \<le> j then bit C (j - s) else bit C (j + 28 - s))"
proof -
  have "(0x0FFFFFFF :: u32) = mask 28" by (simp add: mask_eq_exp_minus_1)
  then have "bit (rotate28 s C) j \<longleftrightarrow> j < 28 \<and> ((s \<le> j \<and> bit C (j - s)) \<or> bit C (28 - s + j))"
    by (auto simp only: rotate28_def bit_and_iff bit_or_iff bit_push_bit_iff bit_drop_bit_eq bit_mask_iff possible_bit_word o_apply len_num0
        len_num1 len_bit0 len_bit1)
  moreover have "\<not> bit C (28 - s + j)" if "s \<le> j" using assms(1) that assms(2) by (simp add: half_ok_def)
  ultimately show ?thesis using assms(2) by (auto simp: add.commute)
qed

lemma rotate28_eq:
  assumes "half_ok C" "s \<le> 28"
  shows "half_ok (rotate28 s C) \<and> bits28 (rotate28 s C) = rotate s (bits28 C)"
proof
  show "half_ok (rotate28 s C)" using bit_rotate28 [OF assms] by (auto simp: half_ok_def)
  show "bits28 (rotate28 s C) = rotate s (bits28 C)"
  proof (rule nth_equalityI)
    fix i assume "i < length (bits28 (rotate28 s C))"
    then have i: "i < 28" by simp
    have "27 - (s + i) mod 28 = (if s \<le> 27 - i then 27 - i - s else 27 - i + 28 - s)"
      using i assms(2) by (auto simp: mod_if)
    then show "bits28 (rotate28 s C) ! i = rotate s (bits28 C) ! i"
      using i by (simp add: nth_rotate nth_bits28 bit_rotate28 [OF assms] less_imp_diff_less)
  qed simp
qed

lemma DES_PC2_fips: "DES_PC2 = fips_PC2"
  by (simp add: DES_PC2_def fips_PC2_def)

lemma fips_PC2_range: "\<forall>p\<in>set fips_PC2. 1 \<le> p \<and> p \<le> 56" "length fips_PC2 = 48"
  by (simp_all add: fips_PC2_def)

lemma pc2_bits_eq: "pc2_bits C D = permute fips_PC2 (bits28 C @ bits28 D)"
proof (rule nth_equalityI)
  fix i assume "i < length (pc2_bits C D)"
  then have i: "i < 48" by simp
  then have p: "1 \<le> fips_PC2 ! i" "fips_PC2 ! i \<le> 56" using fips_PC2_range by simp_all
  show "pc2_bits C D ! i = permute fips_PC2 (bits28 C @ bits28 D) ! i"
    using i p fips_PC2_range(2) by (auto simp: pc2_bits_def pc2_bit_eq DES_PC2_fips permute_def nth_append nth_bits28)
qed (simp add: fips_PC2_range)

text \<open>A row of the schedule and the bits the standard has for it.\<close>

definition row_of :: "des_sbox_mode \<Rightarrow> TC_DES_round_key \<Rightarrow> bool list \<Rightarrow> bool" where
  "row_of mode row K \<longleftrightarrow> (\<exists>C D. row = round_key mode C D \<and> K = pc2_bits C D)"

lemma schedule_loop_fips:
  assumes "half_ok C" "half_ok D" "\<And>r. r \<in> set rs \<Longrightarrow> SHIFTS ! r \<le> 28"
  shows "list_all2 (row_of mode) (schedule_loop mode C D rs) (fips_schedule (bits28 C) (bits28 D) (map ((!) SHIFTS) rs))"
  using assms
proof (induction rs arbitrary: C D)
  case Nil
  then show ?case by simp
next
  case (Cons r rs)
  let ?s = "SHIFTS ! r"
  have r: "half_ok (rotate28 ?s C)" "half_ok (rotate28 ?s D)" "bits28 (rotate28 ?s C) = rotate ?s (bits28 C)"
    "bits28 (rotate28 ?s D) = rotate ?s (bits28 D)" using Cons.prems rotate28_eq by auto
  have "row_of mode (round_key mode (rotate28 ?s C) (rotate28 ?s D)) (permute fips_PC2 (rotate ?s (bits28 C) @ rotate ?s (bits28 D)))"
    unfolding row_of_def using pc2_bits_eq r(3,4) by metis
  then show ?case using Cons.IH [OF r(1,2)] Cons.prems(3) by (simp add: Let_def r(3,4))
qed

lemma key_schedule_fips:
  assumes "length k \<ge> 8"
  shows "list_all2 (row_of mode) (tc_des_key_schedule mode k) (fips_keys (bytes_bits k))"
proof -
  have t: "length PC1_C = 28" "\<And>p. p \<in> set PC1_C \<Longrightarrow> 1 \<le> p \<and> p \<le> 64"
    "length PC1_D = 28" "\<And>p. p \<in> set PC1_D \<Longrightarrow> 1 \<le> p \<and> p \<le> 64" "fips_PC1 = PC1_C @ PC1_D"
    by (auto simp: PC1_C_def PC1_D_def fips_PC1_def)
  have s: "map ((!) SHIFTS) [0..<16] = fips_shifts" "\<And>r. r \<in> set [0..<16] \<Longrightarrow> SHIFTS ! r \<le> 28"
  proof -
    have "length SHIFTS = 16" by (simp add: SHIFTS_def)
    then have "map ((!) SHIFTS) [0..<16] = SHIFTS" by (metis map_nth)
    then show "map ((!) SHIFTS) [0..<16] = fips_shifts" by (simp add: SHIFTS_def fips_shifts_def)
    have "\<forall>x\<in>set SHIFTS. x \<le> 28" by (simp add: SHIFTS_def)
    then show "\<And>r. r \<in> set [0..<16] \<Longrightarrow> SHIFTS ! r \<le> 28" using \<open>length SHIFTS = 16\<close> by simp
  qed
  have cd: "take 28 (permute fips_PC1 (bytes_bits k)) = bits28 (pc1_half k PC1_C)"
    "drop 28 (permute fips_PC1 (bytes_bits k)) = bits28 (pc1_half k PC1_D)"
    using pc1_half_eq [OF t(1,2) assms] pc1_half_eq [OF t(3,4) assms] t(1) by (simp_all add: t(5) permute_def)
  show ?thesis
    unfolding tc_des_key_schedule_def fips_keys_def Let_def cd s(1) [symmetric]
    by (rule schedule_loop_fips [OF _ _ s(2)]) (use pc1_half_eq [OF t(1,2) assms] pc1_half_eq [OF t(3,4) assms] in simp_all)
qed

section \<open>The permutations\<close>

text \<open>Each step exchanges bits of the two halves.\<close>

lemma bit_delta_swap:
  assumes "i < 32"
  shows "bit (snd (delta_swap n m p)) i = (if bit m i then bit (fst p) (i + n) else bit (snd p) i)"
    and "bit (fst (delta_swap n m p)) i = (if n \<le> i \<and> bit m (i - n) then bit (snd p) (i - n) else bit (fst p) i)"
  using assms by (auto simp: delta_swap_def split_beta Let_def bit_simps add.commute)

lemma initial_permutation_bits:
  "tc_des_initial_permutation L R = (L', R') \<Longrightarrow> bits_of L' @ bits_of R' = permute fips_IP (bits_of L @ bits_of R)"
proof -
  let ?q = "tc_des_initial_permutation L R"
  assume *: "?q = (L', R')"
  have "bits_of (fst ?q) @ bits_of (snd ?q) = permute fips_IP (bits_of L @ bits_of R)"
    unfolding initial_permutation_eq bits_of_u32
    by (simp add: bit_delta_swap permute_def fips_IP_def)
  then show ?thesis using * by simp
qed

lemma fips_IP_inverse_IP:
  assumes "length bs = 64"
  shows "permute fips_IP_inverse (permute fips_IP bs) = bs"
proof -
  have len: "length fips_IP = 64" "length fips_IP_inverse = 64" by (simp_all add: fips_IP_def fips_IP_inverse_def)
  have inv: "map (\<lambda>p. fips_IP ! (p - 1)) fips_IP_inverse = map Suc [0..<64]"
    unfolding upt_0_64 by (simp add: fips_IP_def fips_IP_inverse_def)
  have pos: "fips_IP ! (fips_IP_inverse ! i - 1) = Suc i" if "i < 64" for i
    using that len arg_cong [OF inv, of "\<lambda>l. l ! i"] by simp
  have "\<forall>p\<in>set fips_IP_inverse. 1 \<le> p \<and> p \<le> 64" by (simp add: fips_IP_inverse_def)
  then have range: "fips_IP_inverse ! i - 1 < 64" if "i < 64" for i using that len nth_mem [of i fips_IP_inverse] by fastforce
  show ?thesis
    using assms len pos range by (intro nth_equalityI) (simp_all add: permute_def)
qed

lemma final_permutation_bits:
  assumes "tc_des_final_permutation L R = (L', R')"
  shows "bits_of R' @ bits_of L' = permute fips_IP_inverse (bits_of R @ bits_of L)"
  using initial_permutation_bits [OF initial_final_permutation [OF assms]] fips_IP_inverse_IP [of "bits_of R' @ bits_of L'"]
  by simp

section \<open>One stage\<close>

lemma bytes_bits_store: "bytes_bits (tc_internal_store_be32 v) = bits_of v"
proof -
  have "bits_of (b :: u8) = [bit b 7, bit b 6, bit b 5, bit b 4, bit b 3, bit b 2, bit b 1, bit b 0]" for b
    by (simp add: bits_of_def upt_0_8)
  then show ?thesis by (simp add: bytes_bits_def tc_internal_store_be32_def bits_of_u32 bit_simps)
qed

lemma bytes_bits_append: "bytes_bits (xs @ ys) = bytes_bits xs @ bytes_bits ys"
  by (simp add: bytes_bits_def)

lemma row_des_f: "row_of mode row K \<Longrightarrow> bits_of (des_f R row) = fips_f (bits_of R) K"
  by (auto simp: row_of_def des_f_fips)

lemma rounds_loop_fips:
  assumes "\<And>r. r \<in> set rs \<Longrightarrow> row_of mode (sk ! r) (Ks ! r)" "rounds_loop sk rs (L, R) = (L', R')"
  shows "fips_rounds (map ((!) Ks) rs) (bits_of L, bits_of R) = (bits_of L', bits_of R')"
  using assms
proof (induction rs arbitrary: L R)
  case Nil
  then show ?case by simp
next
  case (Cons r rs)
  have "bits_of (L XOR des_f R (sk ! r)) = xor_bits (bits_of L) (fips_f (bits_of R) (Ks ! r))"
    using Cons.prems(1) [of r] by (simp add: bits_of_xor row_des_f)
  then show ?case using Cons.IH [of R "L XOR des_f R (sk ! r)"] Cons.prems by simp
qed

text \<open>The block cipher of both builds, in both directions.\<close>

lemma cipher_block_fips:
  assumes "length buf = 8" "list_all2 (row_of mode) (take 16 sk) Ks" "length Ks = 16"
  shows "bytes_bits (tc_des_cipher_block sk buf d) = fips_des (if d then rev Ks else Ks) (bytes_bits buf)"
proof -
  define rs :: "nat list" where "rs = (if d then rev [0..<16] else [0..<16])"
  let ?l = "tc_internal_load_be32 buf" and ?r = "tc_internal_load_be32 (drop 4 buf)"
  obtain A B where ip: "tc_des_initial_permutation ?l ?r = (A, B)" by fastforce
  obtain C D where rounds: "rounds_loop sk rs (A, B) = (C, D)" by fastforce
  obtain E F where fp: "tc_des_final_permutation C D = (E, F)" by fastforce
  have "map ((!) Ks) [0..<16] = Ks" using assms(3) by (metis map_nth)
  then have Ks: "map ((!) Ks) rs = (if d then rev Ks else Ks)" by (simp add: rs_def rev_map [symmetric])
  have "row_of mode (sk ! r) (Ks ! r)" if "r \<in> set rs" for r
    using assms(2,3) that by (auto simp: rs_def list_all2_conv_all_nth split: if_splits)
  from rounds_loop_fips [OF this rounds]
  have fr: "fips_rounds (if d then rev Ks else Ks) (bits_of A, bits_of B) = (bits_of C, bits_of D)" unfolding Ks .
  have "bytes_bits buf = bits_of ?l @ bits_of ?r"
    using arg_cong [OF store_load_halves [OF assms(1)], of bytes_bits] by (simp add: bytes_bits_append bytes_bits_store)
  then have "permute fips_IP (bytes_bits buf) = bits_of A @ bits_of B"
    using initial_permutation_bits [OF ip] by simp
  then have "fips_des (if d then rev Ks else Ks) (bytes_bits buf) = permute fips_IP_inverse (bits_of D @ bits_of C)"
    unfolding fips_des_def Let_def by (simp add: fr)
  moreover have "bytes_bits (tc_des_cipher_block sk buf d) = bits_of F @ bits_of E"
    by (simp add: cipher_block_eq rs_def [symmetric] ip rounds fp bytes_bits_append bytes_bits_store)
  ultimately show ?thesis using final_permutation_bits [OF fp] by simp
qed

section \<open>The bundle\<close>

text \<open>DES and TDEA of the standard on byte strings: one key, or K1, K2 and K3 in encrypt-decrypt-encrypt order, where a
  two-key bundle repeats K1.\<close>

definition fips_tdes :: "u8 list \<Rightarrow> bool list \<Rightarrow> bool list" where
  "fips_tdes k b =
     (let K1 = fips_keys (bytes_bits (take 8 k)); K2 = fips_keys (bytes_bits (take 8 (drop 8 k)));
          K3 = (if length k = 16 then K1 else fips_keys (bytes_bits (take 8 (drop 16 k))))
      in if length k = 8 then fips_des K1 b else fips_des K3 (fips_des (rev K2) (fips_des K1 b)))"

lemma key_schedule_take: "tc_des_key_schedule mode (take 8 k) = tc_des_key_schedule mode k"
proof -
  have t: "length PC1_C = 28" "\<forall>p\<in>set PC1_C. (p - 1) div 8 < 8" "length PC1_D = 28" "\<forall>p\<in>set PC1_D. (p - 1) div 8 < 8"
    by (simp_all add: PC1_C_def PC1_D_def)
  have "pc1_half (take 8 k) table = pc1_half k table" if "length table = 28" "\<forall>p\<in>set table. (p - 1) div 8 < 8" for table
    unfolding pc1_half_def using that by (intro fold_cong) (simp_all add: tc_des_get_key_bit_def Let_def)
  then show ?thesis using t by (simp add: tc_des_key_schedule_def)
qed

lemma length_fips_schedule [simp]: "length (fips_schedule C D ss) = length ss"
  by (induction ss arbitrary: C D) simp_all

lemma length_fips_keys [simp]: "length (fips_keys k) = 16"
  unfolding fips_keys_def Let_def length_fips_schedule by (simp add: fips_shifts_def)

lemma length_schedule_loop [simp]: "length (schedule_loop mode C D rs) = length rs"
  by (induction rs arbitrary: C D) (simp_all add: Let_def)

lemma length_key_schedule [simp, len_simps]: "length (tc_des_key_schedule mode k) = 16"
  by (simp add: tc_des_key_schedule_def)

lemma schedule_key_rows:
  fixes mode :: des_sbox_mode
  assumes "length k \<in> {8, 16, 24}" "length sk = (if length k = 8 then n else 48)" "16 \<le> n"
  defines "sk' \<equiv> tc_des_schedule_key mode sk k (length k)"
  shows "take 16 sk' = tc_des_key_schedule mode (take 8 k)"
    and "length k \<noteq> 8 \<Longrightarrow> take 16 (drop 16 sk') = tc_des_key_schedule mode (take 8 (drop 8 k))"
    and "length k = 16 \<Longrightarrow> take 16 (drop 32 sk') = tc_des_key_schedule mode (take 8 k)"
    and "length k = 24 \<Longrightarrow> take 16 (drop 32 sk') = tc_des_key_schedule mode (take 8 (drop 16 k))"
    and "length sk' = length sk"
  unfolding sk'_def key_schedule_take
  using assms(1-3) by (auto simp: tc_des_schedule_key_def des_lengths Let_def memcpy_at_def split: if_splits)

lemma stage_fips:
  assumes "take 16 sk = tc_des_key_schedule mode k" "length k = 8" "length b = 8"
  shows "bytes_bits (tc_des_cipher_block sk b d) =
    fips_des (if d then rev (fips_keys (bytes_bits k)) else fips_keys (bytes_bits k)) (bytes_bits b)"
  using assms key_schedule_fips [of k mode] by (intro cipher_block_fips) simp_all

lemma scheduled_fips:
  assumes "length k \<in> {8, 16, 24}" "length sk = (if length k = 8 then n else 48)" "16 \<le> n" "length b = 8"
  shows "bytes_bits (tc_des_encrypt_scheduled (tc_des_schedule_key mode sk k (length k)) b (length k \<noteq> 8)) = fips_tdes k (bytes_bits b)"
proof -
  note rows = schedule_key_rows [OF assms(1-3), of mode]
  have len: "length (take 8 k) = 8" "length k \<noteq> 8 \<Longrightarrow> length (take 8 (drop 8 k)) = 8" "length k = 24 \<Longrightarrow> length (take 8 (drop 16 k)) = 8"
    using assms(1) by auto
  note s1 = stage_fips [OF rows(1) len(1) assms(4), of False]
  show ?thesis
  proof (cases "length k = 8")
    case True
    then show ?thesis using s1 by (simp add: tc_des_encrypt_scheduled_def fips_tdes_def Let_def)
  next
    case False
    note s2 = stage_fips [OF rows(2) [OF False] len(2) [OF False] length_cipher_block, of _ _ _ True]
    show ?thesis
    proof (cases "length k = 16")
      case True
      note s3 = stage_fips [OF rows(3) [OF True] len(1) length_cipher_block, of _ _ _ False]
      show ?thesis using s1 s2 s3 False True by (simp add: tc_des_encrypt_scheduled_def fips_tdes_def Let_def)
    next
      case 3: False
      then have l: "length k = 24" using False assms(1) by simp
      note s3 = stage_fips [OF rows(4) [OF l] len(3) [OF l] length_cipher_block, of _ _ _ False]
      show ?thesis using s1 s2 s3 False 3 l by (simp add: tc_des_encrypt_scheduled_def fips_tdes_def Let_def)
    qed
  qed
qed

end
