(* ===== verification/DES_Keys.thy ===== *)
theory DES_Keys
  imports DES_Modes
begin

text \<open>
  The key policy of \<^verbatim>\<open>src/src/des.c\<close>: keys are compared without their parity bits, a bundle is refused when a
  component is weak or when two adjacent components are equal, and equal components cancel a stage of the cipher.
\<close>

section \<open>Comparison without the parity bits\<close>

definition des_strip :: "u8 list \<Rightarrow> u8 list" where
  "des_strip k = map (\<lambda>b. b AND 0xfe) k"

lemma fold_or_zero:
  "fold (\<lambda>i diff. diff OR f i) xs (d :: u8) = 0 \<longleftrightarrow> d = 0 \<and> (\<forall>i\<in>set xs. f i = 0)"
  by (induction xs arbitrary: d) (auto simp: or_eq_0_iff)

lemma xor_masked_zero: "((a :: u8) XOR b) AND 0xfe = 0 \<longleftrightarrow> a AND 0xfe = b AND 0xfe"
proof -
  have "(a XOR b) AND 0xfe = (a AND 0xfe) XOR (b AND 0xfe)" by (rule bit_eqI) (auto simp: bit_simps)
  then show ?thesis by (simp add: word_xor_eq_0_iff)
qed

lemma keys_equal_iff:
  assumes "8 \<le> length a" "8 \<le> length b"
  shows "tc_des_keys_equal a b \<longleftrightarrow> des_strip (take 8 a) = des_strip (take 8 b)"
  using assms
  by (auto simp: tc_des_keys_equal_def TC_DES_KEYLEN_def fold_or_zero xor_masked_zero des_strip_def list_eq_iff_nth_eq)

lemma weak_keys_shape: "length des_weak_keys = 16" "w \<in> set des_weak_keys \<Longrightarrow> length w = 8"
  by (auto simp: des_weak_keys_def)

lemma key_is_weak_iff:
  assumes "8 \<le> length k"
  shows "tc_des_key_is_weak k \<longleftrightarrow> des_strip (take 8 k) \<in> des_strip ` set des_weak_keys"
proof -
  have one: "fold (\<lambda>i diff. diff OR ((k ! i XOR w ! i) AND 0xfe)) [0..<TC_DES_KEYLEN] 0 = 0 \<longleftrightarrow> des_strip (take 8 k) = des_strip w"
    if "w \<in> set des_weak_keys" for w
    using keys_equal_iff [OF assms, of w] weak_keys_shape(2) [OF that] by (simp add: tc_des_keys_equal_def)
  have flags: "fold (\<lambda>c weak. weak OR (if P c then 1 else 0)) [0..<16] (0 :: u8) \<noteq> 0 \<longleftrightarrow> (\<exists>c<16. P c)" for P
    by (auto simp: fold_or_zero)
  have "tc_des_key_is_weak k \<longleftrightarrow> (\<exists>c<16. des_strip (take 8 k) = des_strip (des_weak_keys ! c))"
    unfolding tc_des_key_is_weak_def flags using one [OF nth_mem] weak_keys_shape(1) by (metis (no_types, lifting))
  also have "\<dots> \<longleftrightarrow> des_strip (take 8 k) \<in> des_strip ` set des_weak_keys"
    using weak_keys_shape(1) by (auto simp: set_conv_nth)
  finally show ?thesis .
qed

text \<open>The bundle as the list of its components.\<close>

definition des_bundle_weak :: "u8 list \<Rightarrow> bool" where
  "des_bundle_weak k \<longleftrightarrow>
     (\<exists>c\<in>set (chunks 8 k). des_strip c \<in> des_strip ` set des_weak_keys) \<or> \<not> distinct_adj (map des_strip (chunks 8 k))"

lemma bundle_chunks:
  fixes k :: "u8 list"
  shows "length k = 8 \<Longrightarrow> chunks 8 k = [take 8 k]"
  "length k = 16 \<Longrightarrow> chunks 8 k = [take 8 k, take 8 (drop 8 k)]"
  "length k = 24 \<Longrightarrow> chunks 8 k = [take 8 k, take 8 (drop 8 k), take 8 (drop 16 k)]"
proof -
  have step: "8 \<le> length xs \<Longrightarrow> chunks 8 xs = take 8 xs # chunks 8 (drop 8 xs)" for xs :: "u8 list"
    by (subst chunks.simps) auto
  show "length k = 8 \<Longrightarrow> chunks 8 k = [take 8 k]"
    "length k = 16 \<Longrightarrow> chunks 8 k = [take 8 k, take 8 (drop 8 k)]"
    "length k = 24 \<Longrightarrow> chunks 8 k = [take 8 k, take 8 (drop 8 k), take 8 (drop 16 k)]"
    by (simp_all add: step)
qed

lemma bundle_rejected_iff:
  assumes "length k \<in> {8, 16, 24}"
  shows "tc_des_bundle_is_rejected k (length k) \<longleftrightarrow> des_bundle_weak k"
proof -
  have w: "8 \<le> length x \<Longrightarrow> tc_des_key_is_weak x \<longleftrightarrow> des_strip (take 8 x) \<in> des_strip ` set des_weak_keys" for x
    by (rule key_is_weak_iff)
  consider "length k = 8" | "length k = 16" | "length k = 24" using assms by auto
  then show ?thesis
  proof cases
    case 1
    then show ?thesis by (simp add: tc_des_bundle_is_rejected_def des_bundle_weak_def bundle_chunks(1) des_lengths w)
  next
    case 2
    then show ?thesis
      by (auto simp: tc_des_bundle_is_rejected_def des_bundle_weak_def bundle_chunks(2) des_lengths w keys_equal_iff)
  next
    case 3
    then show ?thesis
      by (auto simp: tc_des_bundle_is_rejected_def des_bundle_weak_def bundle_chunks(3) des_lengths w keys_equal_iff)
  qed
qed

section \<open>Parity bits do not enter the schedule\<close>

lemma bit_strip: "0 < n \<Longrightarrow> (a :: u8) AND 0xfe = b AND 0xfe \<Longrightarrow> bit a n = bit b n"
proof -
  assume n: "0 < n" and e: "a AND 0xfe = b AND 0xfe"
  show "bit a n = bit b n"
  proof (cases "n < 8")
    case True
    have "bit (0xfe :: u8) n" using True n by (auto simp: less_Suc_eq numeral_eq_Suc)
    then show ?thesis using arg_cong [OF e, of "\<lambda>x. bit x n"] by (simp add: bit_and_iff)
  next
    case False
    then show ?thesis using bit_imp_le_length [of a n] bit_imp_le_length [of b n] by auto
  qed
qed

lemma key_schedule_parity:
  assumes "8 \<le> length a" "8 \<le> length b" "tc_des_keys_equal a b"
  shows "tc_des_key_schedule mode a = tc_des_key_schedule mode b"
proof -
  have eq: "a ! i AND 0xfe = b ! i AND 0xfe" if "i < 8" for i
    using assms(3) that by (auto simp: tc_des_keys_equal_def TC_DES_KEYLEN_def fold_or_zero xor_masked_zero)
  have bit: "tc_des_get_key_bit a p = tc_des_get_key_bit b p" if "(p - 1) div 8 < 8" "(p - 1) mod 8 < 7" for p
  proof -
    have "bit (a ! ((p - 1) div 8)) (7 - (p - 1) mod 8) = bit (b ! ((p - 1) div 8)) (7 - (p - 1) mod 8)"
      using that by (intro bit_strip eq) simp_all
    then show ?thesis
      by (simp only: tc_des_get_key_bit_def Let_def and_one_eq mod_2_eq_odd bit_iff_odd_drop_bit)
  qed
  have tables: "length PC1_C = 28" "\<forall>p\<in>set PC1_C. (p - 1) div 8 < 8 \<and> (p - 1) mod 8 < 7"
    "length PC1_D = 28" "\<forall>p\<in>set PC1_D. (p - 1) div 8 < 8 \<and> (p - 1) mod 8 < 7"
    by (simp_all add: PC1_C_def PC1_D_def)
  have half: "pc1_half a t = pc1_half b t" if "length t = 28" "\<forall>p\<in>set t. (p - 1) div 8 < 8 \<and> (p - 1) mod 8 < 7" for t
    unfolding pc1_half_def using that bit by (intro fold_cong) simp_all
  show ?thesis unfolding tc_des_key_schedule_def using half tables by simp
qed

text \<open>Equal adjacent components cancel: two-key TDEA becomes single DES.\<close>

lemma equal_keys_collapse:
  assumes "length k = 16" "length sk = 48" "length sk' = 16" "length b = 8" "tc_des_keys_equal k (drop 8 k)"
  shows "tc_des_encrypt_scheduled (tc_des_schedule_key mode sk k 16) b True =
    tc_des_encrypt_scheduled (tc_des_schedule_key mode sk' (take 8 k) 8) b False"
proof -
  let ?s = "tc_des_schedule_key mode sk k 16" and ?k = "take 8 k"
  have par: "tc_des_key_schedule mode (take 8 (drop 8 k)) = tc_des_key_schedule mode ?k"
    using key_schedule_parity [OF _ _ assms(5)] assms(1) by (simp add: key_schedule_take)
  have rows: "take 16 ?s = tc_des_key_schedule mode ?k" "take 16 (drop 16 ?s) = tc_des_key_schedule mode ?k"
    "take 16 (drop 32 ?s) = tc_des_key_schedule mode ?k"
    using schedule_key_rows(1-3) [of k sk 48 mode] assms(1,2) par by simp_all
  have single: "take 16 (tc_des_schedule_key mode sk' ?k 8) = tc_des_key_schedule mode ?k"
    using schedule_key_rows(1) [of ?k sk' 16 mode] assms(1,3) by simp
  have same: "tc_des_cipher_block s x d = tc_des_cipher_block ?s x d"
    if "take 16 s = tc_des_key_schedule mode ?k" "length x = 8" for s x d
  proof -
    have "bytes_bits (tc_des_cipher_block s x d) = bytes_bits (tc_des_cipher_block ?s x d)"
      using stage_fips [OF that(1) _ that(2), of d] stage_fips [OF rows(1) _ that(2), of d] assms(1) by simp
    then show ?thesis by (metis bits_bytes_bits)
  qed
  show ?thesis
    unfolding tc_des_encrypt_scheduled_def Let_def if_True if_False
    using same [OF rows(2)] same [OF rows(3)] same [OF single assms(4)] cipher_block_inverse [OF assms(4), of ?s False]
      cipher_block_inverse [OF assms(4), of ?s True] assms(4) by simp
qed

end
