(* ===== verification/DES_Messages.thy ===== *)
theory DES_Messages
  imports DES_Modes
begin

text \<open>
  Messages under the DES modes: what the public functions of \<^verbatim>\<open>src/src/des_modes.c\<close> do to a context that
  \<^verbatim>\<open>TC_DES_init\<close> keyed and \<^verbatim>\<open>TC_DES_set_iv\<close> started. The block function is that of FIPS 46-3, the modes are those of SP
  800-38A.
\<close>

section \<open>The start of a message\<close>

definition des_message :: "des_build \<Rightarrow> u8 list \<Rightarrow> u8 list \<Rightarrow> TC_DES_ctx \<Rightarrow> bool" where
  "des_message e k iv c \<longleftrightarrow> des_keyed e k c \<and> dc_iv_loaded c = 1 \<and> dc_iv c = iv \<and> length iv = 8 \<and>
     dc_ctr_pos c = 8 \<and> dc_ctr_exhausted c = 0 \<and> dc_ofb_pos c = 8 \<and> dc_cfb64_finished c = 0"

lemma des_keyed_frame:
  assumes "des_keyed e k c" "dc_active c' = dc_active c" "dc_triple c' = dc_triple c" "dc_schedule c' = dc_schedule c"
  shows "des_keyed e k c'"
  using assms by (simp add: des_keyed_def)

lemma des_set_iv_message:
  assumes "TC_DES_set_iv ctx iv = (TC_OK, ctx')" "bytes_wf iv" "des_keyed e k (o_val ctx)"
  shows "des_message e k (b_mem iv) (o_val ctx') \<and> o_addr ctx' = o_addr ctx \<and> o_size ctx' = o_size ctx"
proof -
  have ok: "b_length iv = 8" "DES_MODE_VALID ctx (b_data iv) (b_length iv) 1"
    and c: "ctx' = ctx\<lparr>o_val := tc_des_ctx_start_message (o_val ctx) (b_mem iv)\<rparr>"
    using assms(1) by (auto simp: TC_DES_set_iv_def TC_DES_BLOCKLEN_def split: if_splits)
  have "length (b_mem iv) = 8"
    using ok span_mem_length [OF assms(2)] by (auto simp: DES_MODE_VALID_def tc_block_mode_args_def)
  then show ?thesis
    using des_keyed_frame [OF assms(3), of "o_val ctx'"]
    by (simp add: des_message_def c tc_des_ctx_start_message_def TC_DES_BLOCKLEN_def)
qed

lemma des_start:
  assumes "TC_DES_init e ctx k = (TC_OK, c1)" "TC_DES_set_iv c1 iv = (TC_OK, c2)" "bytes_wf k" "bytes_wf iv"
  shows "des_message e (b_mem k) (b_mem iv) (o_val c2)" "o_addr c2 = o_addr ctx" "o_size c2 = o_size ctx"
  using init_keyed [OF assms(1,3)] des_set_iv_message [OF assms(2,4), of e "b_mem k"] by auto

lemma message_valid:
  assumes "des_message e k iv (o_val ctx)" "tc_block_mode_args (o_addr ctx) (o_size ctx) at n a"
  shows "DES_IV_MODE_VALID ctx at n a"
  using assms by (simp add: DES_IV_MODE_VALID_def DES_MODE_VALID_def des_message_def des_keyed_def)

lemma mode_args_length:
  assumes "buffer_wf buf" "tc_block_mode_args at n (w_data buf) (w_capacity buf) a"
  shows "length (w_mem buf) = w_capacity buf" "a dvd w_capacity buf"
  using buffer_mem_length [OF assms(1)] assms(2) by (auto simp: tc_block_mode_args_def)

lemma keyed_cipher_fun: "des_keyed e k c \<Longrightarrow> length b = 8 \<Longrightarrow> cipher_fun (tc_des_block_cipher (tc_des_ctx_key c)) b = fips_block k b"
  by (rule keyed_block(1))

section \<open>CBC\<close>

lemma des_cbc_message:
  assumes "des_message e k iv (o_val ctx)" "buffer_wf buf"
    "tc_block_mode_args (o_addr ctx) (o_size ctx) (w_data buf) (w_capacity buf) 8"
  defines "cs \<equiv> cbc_enc_spec (fips_block k) iv (chunks 8 (w_mem buf))"
  shows "TC_DES_CBC_encrypt ctx buf = (TC_OK, ctx\<lparr>o_val := (o_val ctx)\<lparr>dc_iv := last (iv # cs)\<rparr>\<rparr>, buf\<lparr>w_mem := concat cs\<rparr>)"
    and "TC_DES_CBC_decrypt ctx (buf\<lparr>w_mem := concat cs\<rparr>) = (TC_OK, ctx\<lparr>o_val := (o_val ctx)\<lparr>dc_iv := last (iv # cs)\<rparr>\<rparr>, buf)"
proof -
  let ?k = "tc_des_ctx_key (o_val ctx)"
  note len = mode_args_length [OF assms(2,3)]
  have iv: "dc_iv (o_val ctx) = iv" "length iv = 8" and keyed: "des_keyed e k (o_val ctx)"
    using assms(1) by (simp_all add: des_message_def)
  have d: "8 dvd length (w_mem buf)" using len by simp
  have "blocks_of 8 (chunks 8 (w_mem buf))" using d by (intro chunks_width) simp_all
  then have E: "cbc_enc_spec (cipher_fun (tc_des_block_cipher ?k)) iv (chunks 8 (w_mem buf)) = cs"
    unfolding cs_def using iv(2) by (intro cbc_spec_cong [of 8]) (simp_all add: keyed_cipher_fun [OF keyed])
  have enc: "tc_block_cbc_encrypt (tc_des_block_cipher ?k) iv (w_mem buf) (length (w_mem buf)) = (TC_OK, last (iv # cs), concat cs)"
    using des.cbc_encrypt_eq [OF TrueI iv(2) d, of ?k] unfolding E .
  have dec: "tc_block_cbc_decrypt (tc_des_block_cipher_inverse ?k) iv (concat cs) (w_capacity buf) = (TC_OK, last (iv # cs), w_mem buf)"
    using des.cbc_round_trip [OF TrueI iv(2) d, of ?k] enc len(1) by auto
  note valid = message_valid [OF assms(1,3)]
  show "TC_DES_CBC_encrypt ctx buf = (TC_OK, ctx\<lparr>o_val := (o_val ctx)\<lparr>dc_iv := last (iv # cs)\<rparr>\<rparr>, buf\<lparr>w_mem := concat cs\<rparr>)"
    using enc valid len(1) iv(1) by (simp add: TC_DES_CBC_encrypt_def TC_DES_BLOCKLEN_def)
  show "TC_DES_CBC_decrypt ctx (buf\<lparr>w_mem := concat cs\<rparr>) = (TC_OK, ctx\<lparr>o_val := (o_val ctx)\<lparr>dc_iv := last (iv # cs)\<rparr>\<rparr>, buf)"
    using dec valid iv(1) by (simp add: TC_DES_CBC_decrypt_def TC_DES_BLOCKLEN_def)
qed

section \<open>CTR\<close>

definition des_ctr_at :: "des_build \<Rightarrow> u8 list \<Rightarrow> nat \<Rightarrow> nat \<Rightarrow> TC_DES_ctx \<Rightarrow> bool" where
  "des_ctr_at e k t p c \<longleftrightarrow>
     des_keyed e k c \<and> dc_iv_loaded c = 1 \<and> ctr_state_at (fips_block k) 8 t p (des_ctr_state c)"

lemma message_ctr_at: "des_message e k iv c \<Longrightarrow> des_ctr_at e k (be_val iv) 0 c"
  using be_val_less [of iv]
  by (simp add: des_message_def des_ctr_at_def ctr_state_at_def des_ctr_state_def blocks_after_def used_after_def)

lemma des_put_ctr_state [simp]: "des_ctr_state (des_put_ctr_state s c) = s"
  by (cases s) (simp add: des_ctr_state_def des_put_ctr_state_def)

lemma des_ctr_step:
  assumes "des_ctr_at e k t p (o_val ctx)" "buffer_wf buf"
    and args: "tc_block_mode_args (o_addr ctx) (o_size ctx) (w_data buf) (w_capacity buf) 1"
  shows "if w_capacity buf = 0 \<or> t + blocks_after 8 (p + w_capacity buf) \<le> 256 ^ 8
         then \<exists>ctx'. TC_DES_CTR_crypt ctx buf =
                (TC_OK, ctx', buf\<lparr>w_mem := add_stream (ctr_stream (fips_block k) 8 t) p (w_mem buf)\<rparr>) \<and>
                o_addr ctx' = o_addr ctx \<and> o_size ctx' = o_size ctx \<and>
                des_ctr_at e k t (p + w_capacity buf) (o_val ctx')
         else TC_DES_CTR_crypt ctx buf = (TC_ERROR, ctx, buf)"
proof -
  let ?c = "o_val ctx" and ?n = "w_capacity buf" and ?bk = "tc_des_ctx_key (o_val ctx)"
  let ?E = "cipher_fun (tc_des_block_cipher ?bk)"
  have keyed: "des_keyed e k ?c" and st: "ctr_state_at (fips_block k) 8 t p (des_ctr_state ?c)" and iv: "dc_iv_loaded ?c = 1"
    using assms(1) by (simp_all add: des_ctr_at_def)
  have valid: "DES_IV_MODE_VALID ctx (w_data buf) (w_capacity buf) 1"
    using keyed iv args by (simp add: DES_IV_MODE_VALID_def DES_MODE_VALID_def des_keyed_def)
  note len = mode_args_length(1) [OF assms(2) args]
  have n: "?n \<le> SIZE_MAX"
    using args by (auto simp: tc_block_mode_args_def tc_internal_span_valid_def SIZE_MAX_def UINTPTR_MAX_def)
  note E = ctr_cong [where E = ?E and E' = "fips_block k" and w = 8, OF keyed_cipher_fun [OF keyed], simplified]
  note req = des.ctr_request_ok_iff [OF st n]
  show ?thesis
  proof (cases "?n = 0 \<or> t + blocks_after 8 (p + ?n) \<le> 256 ^ 8")
    case False
    then show ?thesis using valid req by (simp add: TC_DES_CTR_crypt_def TC_DES_BLOCKLEN_def)
  next
    case True
    have "t + blocks_after 8 (p + ?n) \<le> 256 ^ 8" using True st by (auto simp: ctr_state_at_def)
    then obtain s' where cr: "tc_block_ctr_crypt (tc_des_block_cipher ?bk) (des_ctr_state ?c) (w_mem buf) ?n =
          (TC_OK, s', add_stream (ctr_stream (fips_block k) 8 t) p (w_mem buf))"
      and at: "ctr_state_at (fips_block k) 8 t (p + ?n) s'"
      using des.ctr_crypt_eq [OF TrueI, of ?bk t p "des_ctr_state ?c" "w_mem buf"] st len by (auto simp: E)
    have "TC_DES_CTR_crypt ctx buf =
        (TC_OK, ctx\<lparr>o_val := des_put_ctr_state s' ?c\<rparr>,
         buf\<lparr>w_mem := add_stream (ctr_stream (fips_block k) 8 t) p (w_mem buf)\<rparr>)"
      using valid req True cr by (simp add: TC_DES_CTR_crypt_def TC_DES_BLOCKLEN_def)
    moreover have "des_keyed e k (des_put_ctr_state s' ?c)"
      by (rule des_keyed_frame [OF keyed]) (simp_all add: des_put_ctr_state_def)
    then have "des_ctr_at e k t (p + ?n) (des_put_ctr_state s' ?c)"
      using at iv by (simp add: des_ctr_at_def) (simp add: des_put_ctr_state_def)
    ultimately show ?thesis using True by simp
  qed
qed

section \<open>OFB\<close>

definition des_ofb_at :: "des_build \<Rightarrow> u8 list \<Rightarrow> u8 list \<Rightarrow> nat \<Rightarrow> TC_DES_ctx \<Rightarrow> bool" where
  "des_ofb_at e k iv p c \<longleftrightarrow>
     des_keyed e k c \<and> dc_iv_loaded c = 1 \<and> length iv = 8 \<and> ofb_state_at (fips_block k) 8 iv p (dc_iv c) (dc_ofb_pos c)"

lemma message_ofb_at: "des_message e k iv c \<Longrightarrow> des_ofb_at e k iv 0 c"
  by (simp add: des_message_def des_ofb_at_def ofb_state_at_def blocks_after_def used_after_def)

lemma des_ofb_step:
  assumes "des_ofb_at e k iv p (o_val ctx)" "buffer_wf buf"
    and args: "tc_block_mode_args (o_addr ctx) (o_size ctx) (w_data buf) (w_capacity buf) 1"
  shows "\<exists>ctx'. TC_DES_OFB_crypt ctx buf =
           (TC_OK, ctx', buf\<lparr>w_mem := add_stream (ofb_stream (fips_block k) 8 iv) p (w_mem buf)\<rparr>) \<and>
           o_addr ctx' = o_addr ctx \<and> o_size ctx' = o_size ctx \<and> des_ofb_at e k iv (p + w_capacity buf) (o_val ctx')"
proof -
  let ?c = "o_val ctx" and ?n = "w_capacity buf" and ?bk = "tc_des_ctx_key (o_val ctx)"
  let ?E = "cipher_fun (tc_des_block_cipher ?bk)"
  have keyed: "des_keyed e k ?c" and iv: "length iv = 8" "dc_iv_loaded ?c = 1"
    and st: "ofb_state_at (fips_block k) 8 iv p (dc_iv ?c) (dc_ofb_pos ?c)"
    using assms(1) by (simp_all add: des_ofb_at_def)
  have valid: "DES_IV_MODE_VALID ctx (w_data buf) (w_capacity buf) 1"
    using keyed iv(2) args by (simp add: DES_IV_MODE_VALID_def DES_MODE_VALID_def des_keyed_def)
  have pos: "\<not> dc_ofb_pos ?c > 8" using st used_after_bounds [of 8 p] by (simp add: ofb_state_at_def)
  note len = mode_args_length(1) [OF assms(2) args]
  note E = ofb_cong [where E = ?E and E' = "fips_block k" and w = 8, OF keyed_cipher_fun [OF keyed] _ iv(1), simplified]
  obtain fb' u' where cr: "tc_block_ofb_crypt (tc_des_block_cipher ?bk) (dc_iv ?c) (dc_ofb_pos ?c) (w_mem buf) ?n =
        (TC_OK, fb', u', add_stream (ofb_stream (fips_block k) 8 iv) p (w_mem buf))"
    and at: "ofb_state_at (fips_block k) 8 iv (p + ?n) fb' u'"
    using des.ofb_crypt_eq [OF TrueI iv(1), of ?bk p "dc_iv ?c" "dc_ofb_pos ?c" "w_mem buf"] st len by (auto simp: E)
  have "des_keyed e k (?c\<lparr>dc_iv := fb', dc_ofb_pos := u'\<rparr>)"
    by (rule des_keyed_frame [OF keyed]) simp_all
  then show ?thesis
    using valid pos cr at iv by (auto simp: TC_DES_OFB_crypt_def TC_DES_BLOCKLEN_def des_ofb_at_def)
qed

section \<open>CFB with block and byte segments\<close>

lemma cfb_spec_cong:
  assumes "\<And>b. length b = 8 \<Longrightarrow> E b = E' b" "\<And>b. length b = 8 \<Longrightarrow> length (E b) = 8"
  shows "length I = 8 \<Longrightarrow> list_all (\<lambda>p. length p \<le> 8) ps \<Longrightarrow> cfb_enc_spec E I ps = cfb_enc_spec E' I ps"
proof (induction ps arbitrary: I)
  case (Cons p ps)
  have e: "E I = E' I" "length (E I) = 8" using assms [of I] Cons.prems(1) by simp_all
  let ?c = "xorl p (E I)"
  have "length (drop (length ?c) I @ ?c) = 8" using Cons.prems e(2) by auto
  from Cons.IH [OF this] Cons.prems show ?case by (simp add: Let_def e(1) [symmetric])
qed simp

text \<open>A decryption from the same input block undoes the segments of an encryption and ends in the same state.\<close>

lemma des_cfb64_message:
  assumes "des_message e k iv (o_val ctx)" "buffer_wf buf"
    "tc_block_mode_args (o_addr ctx) (o_size ctx) (w_data buf) (w_capacity buf) 1"
  defines "cs \<equiv> cfb_enc_spec (fips_block k) iv (chunks 8 (w_mem buf))"
    and "ctx' \<equiv> ctx\<lparr>o_val := (o_val ctx)\<lparr>dc_iv := cfb_input iv (cfb_enc_spec (fips_block k) iv (chunks 8 (w_mem buf))),
       dc_cfb64_finished := (if w_capacity buf mod 8 \<noteq> 0 then 1 else 0)\<rparr>\<rparr>"
  shows "TC_DES_CFB64_encrypt ctx buf = (TC_OK, ctx', buf\<lparr>w_mem := concat cs\<rparr>)"
    and "TC_DES_CFB64_decrypt ctx (buf\<lparr>w_mem := concat cs\<rparr>) = (TC_OK, ctx', buf)"
proof -
  let ?k = "tc_des_ctx_key (o_val ctx)" let ?E = "cipher_fun (tc_des_block_cipher ?k)"
  note len = mode_args_length(1) [OF assms(2,3)] and valid = message_valid [OF assms(1,3)]
  have iv: "dc_iv (o_val ctx) = iv" "length iv = 8" "dc_cfb64_finished (o_val ctx) = 0" and keyed: "des_keyed e k (o_val ctx)"
    using assms(1) by (simp_all add: des_message_def)
  have small: "list_all (\<lambda>c. length c \<le> 8) (chunks 8 (w_mem buf))" by (rule chunks_lengths) simp
  have E: "cfb_enc_spec ?E iv (chunks 8 (w_mem buf)) = cs"
    unfolding cs_def by (rule cfb_spec_cong [OF keyed_cipher_fun [OF keyed] _ iv(2) small]) simp_all
  have lens: "map length cs = map length (chunks 8 (w_mem buf))"
    unfolding E [symmetric] by (rule cfb_enc_spec_lengths [OF length_des_cipher_fun small])
  have seg: "chunks 8 (concat cs) = cs" by (rule chunks_same_lengths [OF _ lens]) simp
  have lc: "length (concat cs) = w_capacity buf"
    by (metis lens len length_concat concat_chunks zero_less_numeral)
  have enc: "cfb64_loop ?k iv (w_mem buf) (w_capacity buf) False 0 = (cfb_input iv cs, concat cs)"
    using cfb64_loop_eq(1) [OF iv(2), of ?k "[]" "w_mem buf"] len E by simp
  have dec: "cfb64_loop ?k iv (concat cs) (w_capacity buf) True 0 = (cfb_input iv cs, w_mem buf)"
    using cfb64_loop_eq(2) [OF iv(2), of ?k "[]" "concat cs"] lc seg cfb_dec_enc_spec [where E = ?E and w = 8, OF length_des_cipher_fun small, of iv]
    by (simp add: E)
  show "TC_DES_CFB64_encrypt ctx buf = (TC_OK, ctx', buf\<lparr>w_mem := concat cs\<rparr>)"
    using valid enc iv by (simp add: TC_DES_CFB64_encrypt_def tc_des_mode_cfb64_def TC_DES_BLOCKLEN_def ctx'_def cs_def)
  show "TC_DES_CFB64_decrypt ctx (buf\<lparr>w_mem := concat cs\<rparr>) = (TC_OK, ctx', buf)"
    using valid dec iv by (simp add: TC_DES_CFB64_decrypt_def tc_des_mode_cfb64_def TC_DES_BLOCKLEN_def ctx'_def cs_def)
qed

lemma des_cfb8_message:
  assumes "des_message e k iv (o_val ctx)" "buffer_wf buf"
    "tc_block_mode_args (o_addr ctx) (o_size ctx) (w_data buf) (w_capacity buf) 1"
  defines "cs \<equiv> cfb_enc_spec (fips_block k) iv (map (\<lambda>b. [b]) (w_mem buf))"
    and "ctx' \<equiv> ctx\<lparr>o_val := (o_val ctx)\<lparr>dc_iv := cfb_input iv (cfb_enc_spec (fips_block k) iv (map (\<lambda>b. [b]) (w_mem buf)))\<rparr>\<rparr>"
  shows "TC_DES_CFB8_encrypt ctx buf = (TC_OK, ctx', buf\<lparr>w_mem := concat cs\<rparr>)"
    and "TC_DES_CFB8_decrypt ctx (buf\<lparr>w_mem := concat cs\<rparr>) = (TC_OK, ctx', buf)"
proof -
  let ?k = "tc_des_ctx_key (o_val ctx)" let ?E = "cipher_fun (tc_des_block_cipher ?k)" and ?ps = "map (\<lambda>b. [b]) (w_mem buf)"
  note len = mode_args_length(1) [OF assms(2,3)] and valid = message_valid [OF assms(1,3)]
  have iv: "dc_iv (o_val ctx) = iv" "length iv = 8" and keyed: "des_keyed e k (o_val ctx)"
    using assms(1) by (simp_all add: des_message_def)
  have small: "list_all (\<lambda>c. length c \<le> 8) ?ps" by (simp add: list_all_iff)
  have E: "cfb_enc_spec ?E iv ?ps = cs"
    unfolding cs_def by (rule cfb_spec_cong [OF keyed_cipher_fun [OF keyed] _ iv(2) small]) simp_all
  have "map length cs = map length ?ps"
    unfolding E [symmetric] by (rule cfb_enc_spec_lengths [OF length_des_cipher_fun small])
  then have one: "list_all (\<lambda>c. length c = 1) cs" by (simp add: list_all_length list_eq_iff_nth_eq)
  have "map (\<lambda>b. [b]) (concat bs) = bs" if "list_all (\<lambda>c. length c = 1) bs" for bs :: "u8 list list"
    using that by (induction bs) (auto simp: length_Suc_conv)
  with one have seg: "map (\<lambda>b. [b]) (concat cs) = cs" by blast
  have lc: "length (concat cs) = w_capacity buf"
    using len arg_cong [OF seg, of length] by (simp add: cs_def)
  have enc: "fold (cfb8_step ?k False) [0..<w_capacity buf] (iv, w_mem buf) = (cfb_input iv cs, concat cs)"
    using cfb8_fold_eq(1) [OF iv(2), of ?k "[]" "w_mem buf"] len E by simp
  have dec: "fold (cfb8_step ?k True) [0..<w_capacity buf] (iv, concat cs) = (cfb_input iv cs, w_mem buf)"
    using cfb8_fold_eq(2) [OF iv(2), of ?k "[]" "concat cs"] lc seg cfb_dec_enc_spec [where E = ?E and w = 8, OF length_des_cipher_fun small, of iv]
    by (simp add: E)
  show "TC_DES_CFB8_encrypt ctx buf = (TC_OK, ctx', buf\<lparr>w_mem := concat cs\<rparr>)"
    using valid enc iv(1) by (simp add: TC_DES_CFB8_encrypt_def tc_des_mode_cfb8_def ctx'_def cs_def)
  show "TC_DES_CFB8_decrypt ctx (buf\<lparr>w_mem := concat cs\<rparr>) = (TC_OK, ctx', buf)"
    using valid dec iv(1) by (simp add: TC_DES_CFB8_decrypt_def tc_des_mode_cfb8_def ctx'_def cs_def)
qed

section \<open>CFB with bit segments\<close>

lemma bit_and_one: "drop_bit n (x :: u8) AND 1 = of_bool (bit x n)"
  by (simp add: and_one_eq bit_iff_odd_drop_bit mod_2_eq_odd)

lemma cfb1_step_eq:
  assumes "length iv = 8" "i < 8 * length buf"
  defines "E \<equiv> \<lambda>k iv. bytes_bits (cipher_fun (tc_des_block_cipher k) iv)"
  shows "\<exists>iv' buf'. cfb1_step k d i (iv, buf) = (iv', buf') \<and> length iv' = 8 \<and> length buf' = length buf \<and>
    (let p = bytes_bits buf ! i; c = (p \<noteq> hd (E k iv))
     in bytes_bits buf' = (bytes_bits buf)[i := c] \<and> bytes_bits iv' = tl (bytes_bits iv) @ [if d then p else c])"
proof -
  let ?e = "cipher_fun (tc_des_block_cipher k) iv"
  have e: "hd (E k iv) = bit (?e ! 0) 7"
  proof -
    have "length ?e = 8" by simp
    then obtain x xs where "?e = x # xs" by (cases ?e) auto
    then show ?thesis by (simp add: E_def bytes_bits_def bits_of_u8)
  qed
  let ?p = "bytes_bits buf ! i" and ?s = "7 - i mod 8"
  have p: "drop_bit ?s (buf ! (i div 8)) AND 1 = of_bool ?p"
    using nth_bytes_bits [of i buf] assms(2) by (simp add: bit_and_one)
  let ?c = "?p \<noteq> hd (E k iv)"
  have c: "((of_bool ?p :: u8) XOR drop_bit 7 (?e ! 0)) AND 1 = of_bool ?c"
  proof -
    have "((of_bool ?p :: u8) XOR x) AND 1 = of_bool (?p \<noteq> odd x)" for x :: u8
      by (cases "?p"; cases "odd x") (simp_all add: and_one_eq mod_2_eq_odd even_xor_iff)
    then show ?thesis by (simp add: e bit_iff_odd_drop_bit)
  qed
  have u: "bytes_bits (buf[i div 8 := (buf ! (i div 8) AND NOT (push_bit ?s 1)) OR push_bit ?s (of_bool ?c)]) = (bytes_bits buf)[i := ?c]"
    by (rule bytes_bits_update [OF assms(2)])
  have s: "bytes_bits (tc_des_cfb1_shift_iv iv (of_bool b)) = tl (bytes_bits iv) @ [b]" for b
    by (rule cfb1_shift_eq [OF assms(1)])
  have step: "cfb1_step k d i (iv, buf) = (tc_des_cfb1_shift_iv iv (of_bool (if d then ?p else ?c)),
      buf[i div 8 := (buf ! (i div 8) AND NOT (push_bit ?s 1)) OR push_bit ?s (of_bool ?c)])"
    unfolding cfb1_step_def prod.case Let_def cfb_keystream_eq p c by (simp only: if_distrib [of of_bool])
  show ?thesis
    unfolding step Let_def using u s length_cfb1_shift_iv [OF assms(1)] by (intro exI conjI) (rule refl, simp_all only: length_list_update)
qed

lemma cfb1_fold_eq:
  fixes k :: tc_des_block_key
  assumes E: "\<And>iv. length iv = 8 \<Longrightarrow> bytes_bits (cipher_fun (tc_des_block_cipher k) iv) = E (bytes_bits iv)"
  shows "length iv = 8 \<Longrightarrow> i + n \<le> 8 * length buf \<Longrightarrow>
    \<exists>iv' buf'. fold (cfb1_step k d) [i..<i + n] (iv, buf) = (iv', buf') \<and> length iv' = 8 \<and> length buf' = length buf \<and>
      (let ps = take n (drop i (bytes_bits buf));
           cs = (if d then cfb1_dec_spec E (bytes_bits iv) ps else cfb1_enc_spec E (bytes_bits iv) ps)
       in bytes_bits buf' = take i (bytes_bits buf) @ cs @ drop (i + n) (bytes_bits buf) \<and>
          bytes_bits iv' = drop n (bytes_bits iv @ (if d then ps else cs)))"
proof (induction n arbitrary: i iv buf)
  case 0
  then show ?case by simp
next
  case (Suc n)
  have i: "i < 8 * length buf" using Suc.prems by simp
  let ?p = "bytes_bits buf ! i" let ?c = "?p \<noteq> hd (E (bytes_bits iv))"
  obtain iv1 buf1 where st: "cfb1_step k d i (iv, buf) = (iv1, buf1)" "length iv1 = 8" "length buf1 = length buf"
    "bytes_bits buf1 = (bytes_bits buf)[i := ?c]" "bytes_bits iv1 = tl (bytes_bits iv) @ [if d then ?p else ?c]"
    using cfb1_step_eq [OF Suc.prems(1) i, of k d] unfolding E [OF Suc.prems(1)] Let_def by blast
  from Suc.IH [OF st(2), of "Suc i" buf1] Suc.prems(2) st(3) obtain iv2 buf2 where
    f: "fold (cfb1_step k d) [Suc i..<Suc i + n] (iv1, buf1) = (iv2, buf2)" "length iv2 = 8" "length buf2 = length buf1"
    and r: "let ps = take n (drop (Suc i) (bytes_bits buf1));
           cs = (if d then cfb1_dec_spec E (bytes_bits iv1) ps else cfb1_enc_spec E (bytes_bits iv1) ps)
       in bytes_bits buf2 = take (Suc i) (bytes_bits buf1) @ cs @ drop (Suc i + n) (bytes_bits buf1) \<and>
          bytes_bits iv2 = drop n (bytes_bits iv1 @ (if d then ps else cs))" by auto
  have len: "i < length (bytes_bits buf)" using i by simp
  have ps: "take (Suc n) (drop i (bytes_bits buf)) = ?p # take n (drop (Suc i) (bytes_bits buf))"
    using len by (simp add: Cons_nth_drop_Suc [symmetric])
  have tk: "take (Suc i) ((bytes_bits buf)[i := ?c]) = take i (bytes_bits buf) @ [?c]"
    using len by (simp add: take_Suc_conv_app_nth)
  let ?ps = "take n (drop (Suc i) (bytes_bits buf))"
  let ?cs = "if d then cfb1_dec_spec E (bytes_bits iv1) ?ps else cfb1_enc_spec E (bytes_bits iv1) ?ps"
  have dr: "take n (drop (Suc i) (bytes_bits buf1)) = ?ps" "drop (Suc i + n) (bytes_bits buf1) = drop (i + Suc n) (bytes_bits buf)"
    by (simp_all add: st(4))
  have r1: "bytes_bits buf2 = take i (bytes_bits buf) @ (?c # ?cs) @ drop (i + Suc n) (bytes_bits buf)"
    using r unfolding Let_def dr by (simp only: st(4) tk append_assoc append_Cons append_Nil)
  have r2: "bytes_bits iv2 = drop n (tl (bytes_bits iv) @ [if d then ?p else ?c] @ (if d then ?ps else ?cs))"
    using r unfolding Let_def dr by (simp only: st(5) append_assoc)
  have cs: "?c # ?cs = (if d then cfb1_dec_spec E (bytes_bits iv) (?p # ?ps) else cfb1_enc_spec E (bytes_bits iv) (?p # ?ps))"
    by (simp add: st(5) Let_def)
  have iv1: "tl (bytes_bits iv) @ [x] @ ys = drop 1 (bytes_bits iv @ x # ys)" for x ys
  proof -
    have "length (bytes_bits iv) \<noteq> 0" using Suc.prems(1) by simp
    then show ?thesis by (cases "bytes_bits iv") auto
  qed
  have r3: "bytes_bits iv2 = drop (Suc n) (bytes_bits iv @ (if d then ?p # ?ps else ?c # ?cs))"
    using r2 unfolding iv1 drop_drop Suc_eq_plus1 by (cases d) (simp_all only: if_True if_False)
  have upt: "[i..<i + Suc n] = i # [Suc i..<Suc i + n]" by (simp add: upt_conv_Cons)
  show ?case
    unfolding upt fold_Cons o_apply st(1) f(1) ps Let_def cs [symmetric]
    using r1 r3 f(2,3) st(3) by (intro exI [of _ iv2] exI [of _ buf2] conjI) (simp_all only:)
qed

lemma bytes_bits_inject: "bytes_bits a = bytes_bits b \<Longrightarrow> a = b"
  by (metis bits_bytes_bits)

text \<open>The bits up to \<open>n\<close> are encrypted, the rest of the buffer is untouched.\<close>

lemma des_cfb1_message:
  assumes "des_message e k iv (o_val ctx)" "buffer_wf buf" "n \<le> 8 * w_capacity buf"
    "tc_block_mode_args (o_addr ctx) (o_size ctx) (w_data buf) (w_capacity buf) 1"
  shows "\<exists>ctx' buf'. TC_DES_CFB1_encrypt ctx buf n = (TC_OK, ctx', buf') \<and>
     bytes_bits (w_mem buf') =
       cfb1_enc_spec (fips_tdes k) (bytes_bits iv) (take n (bytes_bits (w_mem buf))) @ drop n (bytes_bits (w_mem buf)) \<and>
     TC_DES_CFB1_decrypt ctx buf' n = (TC_OK, ctx', buf)"
proof -
  let ?k = "tc_des_ctx_key (o_val ctx)"
  note len = mode_args_length(1) [OF assms(2,4)]
  have iv: "dc_iv (o_val ctx) = iv" "length iv = 8" and keyed: "des_keyed e k (o_val ctx)"
    using assms(1) by (simp_all add: des_message_def)
  have E: "length b = 8 \<Longrightarrow> bytes_bits (cipher_fun (tc_des_block_cipher ?k) b) = fips_tdes k (bytes_bits b)" for b
    by (rule keyed_block(2) [OF keyed])
  have bytes: "tc_des_cfb1_bytes n \<le> w_capacity buf"
  proof -
    have "n div 8 < w_capacity buf" if "n mod 8 \<noteq> 0"
    proof -
      have "n \<noteq> w_capacity buf * 8" using that by auto
      then have "n < w_capacity buf * 8" using assms(3) by simp
      then show ?thesis by (rule less_mult_imp_div_less)
    qed
    moreover have "n div 8 \<le> w_capacity buf" using div_le_mono [OF assms(3), of 8] by simp
    ultimately show ?thesis by (auto simp: tc_des_cfb1_bytes_def)
  qed
  have "tc_block_mode_args (o_addr ctx) (o_size ctx) (w_data buf) (tc_des_cfb1_bytes n) 1"
    using assms(4) bytes by (auto simp: tc_block_mode_args_def tc_internal_span_valid_def tc_internal_ranges_disjoint_def)
  from message_valid [OF assms(1) this] have valid: "DES_IV_MODE_VALID ctx (w_data buf) (tc_des_cfb1_bytes n) 1" .
  let ?m = "w_mem buf" let ?ps = "take n (bytes_bits ?m)" let ?cs = "cfb1_enc_spec (fips_tdes k) (bytes_bits iv) ?ps"
  have lps: "length ?ps = n" using assms(3) len by simp
  obtain iv1 m1 where enc: "fold (cfb1_step ?k False) [0..<n] (iv, ?m) = (iv1, m1)" "length m1 = length ?m" "length iv1 = 8"
    "bytes_bits m1 = ?cs @ drop n (bytes_bits ?m)" "bytes_bits iv1 = drop n (bytes_bits iv @ ?cs)"
    using cfb1_fold_eq [OF E iv(2), of 0 n ?m False] assms(3) len by (auto simp: Let_def)
  have t1: "take n (bytes_bits m1) = ?cs" "drop n (bytes_bits m1) = drop n (bytes_bits ?m)"
    using enc(4) lps by simp_all
  obtain iv2 m2 where dec: "fold (cfb1_step ?k True) [0..<n] (iv, m1) = (iv2, m2)" "length iv2 = 8"
    "bytes_bits m2 = ?ps @ drop n (bytes_bits ?m)" "bytes_bits iv2 = drop n (bytes_bits iv @ ?cs)"
    using cfb1_fold_eq [OF E iv(2), of 0 n m1 True] assms(3) len enc(2) by (auto simp: Let_def t1)
  have "m2 = ?m" "iv2 = iv1" using dec(3,4) enc(5) by (auto intro: bytes_bits_inject)
  with dec(1) have dec': "fold (cfb1_step ?k True) [0..<n] (iv, m1) = (iv1, ?m)" by simp
  show ?thesis
    using valid bytes iv(1) enc(1,4) dec'
    by (intro exI [of _ "ctx\<lparr>o_val := (o_val ctx)\<lparr>dc_iv := iv1\<rparr>\<rparr>"] exI [of _ "buf\<lparr>w_mem := m1\<rparr>"])
      (simp add: TC_DES_CFB1_encrypt_def TC_DES_CFB1_decrypt_def tc_des_mode_cfb1_def)
qed

end
