(* ===== verification/DES_CMAC.thy ===== *)
theory DES_CMAC
  imports DES_Modes MAC_Core
begin

text \<open>
  DES and TDEA CMAC, the first half of \<^verbatim>\<open>src/src/des_mac.c\<close>: the streaming context and the one-shot forms over
  \<^verbatim>\<open>mac_core.c\<close>. The lemmas show that every form computes the CMAC of SP 800-38B, with the reduction of 64-bit blocks, over
  the block function of FIPS 46-3.
\<close>

section \<open>The streaming context\<close>

record TC_DES_CMAC_ctx =
  dcm_schedule :: "TC_DES_round_key list"
  dcm_k1 :: "u8 list"
  dcm_k2 :: "u8 list"
  dcm_mac :: "u8 list"
  dcm_buf :: "u8 list"
  dcm_buf_len :: nat
  dcm_triple :: u8
  dcm_active :: u8

definition TC_DES_CMAC_TAG_MAX :: nat where "TC_DES_CMAC_TAG_MAX = TC_DES_BLOCKLEN"

text \<open>\<^verbatim>\<open>TC_DES_key_bundle\<close> always has room for three schedules.\<close>

definition key_bundle_zero :: "des_build \<Rightarrow> TC_DES_round_key list" where
  "key_bundle_zero e = replicate 48 (round_key_zero (db_mode e))"

definition des_cmac_zero :: "des_build \<Rightarrow> TC_DES_CMAC_ctx" where
  "des_cmac_zero e =
     \<lparr>dcm_schedule = key_bundle_zero e, dcm_k1 = replicate 8 0, dcm_k2 = replicate 8 0, dcm_mac = replicate 8 0,
      dcm_buf = replicate 8 0, dcm_buf_len = 0, dcm_triple = 0, dcm_active = 0\<rparr>"

definition TC_DES_CMAC_ctx_clear :: "des_build \<Rightarrow> TC_DES_CMAC_ctx obj \<Rightarrow> TC_DES_CMAC_ctx obj" where
  "TC_DES_CMAC_ctx_clear e ctx = (if o_addr ctx = NULL then ctx else ctx\<lparr>o_val := des_cmac_zero e\<rparr>)"

definition tc_des_cmac_cipher :: "TC_DES_CMAC_ctx \<Rightarrow> tc_des_block_key tc_block_cipher" where
  "tc_des_cmac_cipher c = tc_des_block_cipher \<lparr>dbk_schedule = dcm_schedule c, dbk_triple = (dcm_triple c \<noteq> 0)\<rparr>"

text \<open>The result is the C truth value, the bundle and the value of \<^verbatim>\<open>*triple\<close>.\<close>

definition tc_des_cmac_schedule ::
  "des_build \<Rightarrow> TC_bytes \<Rightarrow> TC_DES_round_key list \<Rightarrow> u8 \<Rightarrow> bool \<times> TC_DES_round_key list \<times> u8" where
  "tc_des_cmac_schedule e k keys triple =
     (if \<not> tc_internal_span_valid (b_data k) (b_length k) \<or>
         (b_length k \<noteq> TC_DES_KEYLEN \<and> b_length k \<noteq> TC_DES_KEYLEN_2KEY \<and> b_length k \<noteq> TC_DES_KEYLEN_3KEY)
      then (False, keys, triple)
      else if db_reject_weak e \<and> tc_des_bundle_is_rejected (b_mem k) (b_length k) then (False, keys, triple)
      else (True, tc_des_schedule_key (db_mode e) keys (b_mem k) (b_length k), if b_length k \<noteq> TC_DES_KEYLEN then 1 else 0))"

definition TC_DES_CMAC_init :: "des_build \<Rightarrow> TC_DES_CMAC_ctx obj \<Rightarrow> TC_bytes \<Rightarrow> TC_status \<times> TC_DES_CMAC_ctx obj" where
  "TC_DES_CMAC_init e ctx k =
     (if o_addr ctx = NULL then (TC_ERROR, ctx)
      else let disjoint = tc_internal_ranges_disjoint (o_addr ctx) (o_size ctx) (b_data k) (b_length k);
               ctx = TC_DES_CMAC_ctx_clear e ctx
           in if \<not> disjoint then (TC_ERROR, ctx)
              else case tc_des_cmac_schedule e k (dcm_schedule (o_val ctx)) (dcm_triple (o_val ctx)) of (ok, keys, triple) \<Rightarrow>
                let ctx = ctx\<lparr>o_val := (o_val ctx)\<lparr>dcm_schedule := keys, dcm_triple := triple\<rparr>\<rparr>
                in if \<not> ok then (TC_ERROR, ctx)
                   else case tc_mac_derive_subkeys (tc_des_cmac_cipher (o_val ctx)) 0x1b False (dcm_k1 (o_val ctx)) (dcm_k2 (o_val ctx))
                        of (status, k1, k2) \<Rightarrow>
                          if status \<noteq> TC_OK then (TC_ERROR, TC_DES_CMAC_ctx_clear e ctx)
                          else (TC_OK, ctx\<lparr>o_val := (o_val ctx)\<lparr>dcm_k1 := k1, dcm_k2 := k2, dcm_active := 1\<rparr>\<rparr>))"

definition TC_DES_CMAC_update ::
  "des_build \<Rightarrow> TC_DES_CMAC_ctx obj \<Rightarrow> TC_bytes \<Rightarrow> TC_status \<times> TC_DES_CMAC_ctx obj" where
  "TC_DES_CMAC_update e ctx data =
     (if \<not> tc_block_mode_args (o_addr ctx) (o_size ctx) (b_data data) (b_length data) 1 \<or>
         dcm_active (o_val ctx) \<noteq> 1 \<or> dcm_buf_len (o_val ctx) > TC_DES_BLOCKLEN
      then (TC_ERROR, ctx)
      else case tc_mac_cbc_update (tc_des_cmac_cipher (o_val ctx)) (dcm_mac (o_val ctx)) (dcm_buf (o_val ctx))
                  (dcm_buf_len (o_val ctx)) (b_mem data) True
           of (status, mac, buf, n) \<Rightarrow>
             let ctx = ctx\<lparr>o_val := (o_val ctx)\<lparr>dcm_mac := mac, dcm_buf := buf, dcm_buf_len := n\<rparr>\<rparr>
             in if status \<noteq> TC_OK then (TC_ERROR, TC_DES_CMAC_ctx_clear e ctx) else (TC_OK, ctx))"

definition TC_DES_CMAC_final ::
  "des_build \<Rightarrow> TC_DES_CMAC_ctx obj \<Rightarrow> TC_buffer \<Rightarrow> TC_status \<times> TC_DES_CMAC_ctx obj \<times> TC_buffer" where
  "TC_DES_CMAC_final e ctx tag =
     (if w_capacity tag < TC_DES_CMAC_TAG_MAX \<or>
         \<not> tc_block_mode_args (o_addr ctx) (o_size ctx) (w_data tag) TC_DES_CMAC_TAG_MAX 1 \<or>
         dcm_active (o_val ctx) \<noteq> 1 \<or> dcm_buf_len (o_val ctx) > TC_DES_BLOCKLEN
      then (TC_ERROR, ctx, tag)
      else case tc_mac_cmac_final (tc_des_cmac_cipher (o_val ctx)) (dcm_mac (o_val ctx)) (dcm_buf (o_val ctx))
                  (dcm_buf_len (o_val ctx)) (dcm_k1 (o_val ctx)) (dcm_k2 (o_val ctx)) (w_mem tag)
           of (status, mac, buf, t) \<Rightarrow>
             (status, TC_DES_CMAC_ctx_clear e ctx, tag\<lparr>w_mem := t\<rparr>))"

section \<open>One-shot forms\<close>

text \<open>
  \<open>tag_at\<close> is the stack address of the recomputed tag. The local bundle is uninitialized in C; every row that is read
  is written first, so its contents on entry, here zero, do not matter.
\<close>

definition tc_des_cmac_oneshot ::
  "nat \<Rightarrow> des_build \<Rightarrow> addr \<Rightarrow> TC_bytes \<Rightarrow> TC_bytes \<Rightarrow> TC_buffer \<Rightarrow> TC_bytes \<Rightarrow> bool \<Rightarrow> bool \<Rightarrow>
   TC_status \<times> TC_buffer" where
  "tc_des_cmac_oneshot MIN_TAG_LEN e tag_at k msg tag expected verify short_tag =
     (case tc_des_cmac_schedule e k (key_bundle_zero e) 0 of (ok, keys, triple) \<Rightarrow>
        if ok
        then let cipher = tc_des_block_cipher \<lparr>dbk_schedule = keys, dbk_triple = (triple \<noteq> 0)\<rparr>
             in if verify
                then (tc_mac_cmac_verify MIN_TAG_LEN tag_at cipher 0x1b msg expected short_tag, tag)
                else tc_mac_cmac_oneshot MIN_TAG_LEN cipher 0x1b msg tag short_tag
        else (TC_ERROR, tag))"

definition TC_DES_CMAC ::
  "nat \<Rightarrow> des_build \<Rightarrow> addr \<Rightarrow> TC_bytes \<Rightarrow> TC_bytes \<Rightarrow> TC_buffer \<Rightarrow> TC_status \<times> TC_buffer" where
  "TC_DES_CMAC MIN_TAG_LEN e tag_at k msg tag =
     tc_des_cmac_oneshot MIN_TAG_LEN e tag_at k msg tag no_bytes False False"

definition TC_DES_CMAC_verify :: "nat \<Rightarrow> des_build \<Rightarrow> addr \<Rightarrow> TC_bytes \<Rightarrow> TC_bytes \<Rightarrow> TC_bytes \<Rightarrow> TC_status" where
  "TC_DES_CMAC_verify MIN_TAG_LEN e tag_at k msg tag =
     fst (tc_des_cmac_oneshot MIN_TAG_LEN e tag_at k msg no_buffer tag True False)"

definition TC_DES_CMAC_short_tag ::
  "nat \<Rightarrow> des_build \<Rightarrow> addr \<Rightarrow> TC_bytes \<Rightarrow> TC_bytes \<Rightarrow> TC_buffer \<Rightarrow> TC_status \<times> TC_buffer" where
  "TC_DES_CMAC_short_tag MIN_TAG_LEN e tag_at k msg tag =
     tc_des_cmac_oneshot MIN_TAG_LEN e tag_at k msg tag no_bytes False True"

definition TC_DES_CMAC_verify_short_tag ::
  "nat \<Rightarrow> des_build \<Rightarrow> addr \<Rightarrow> TC_bytes \<Rightarrow> TC_bytes \<Rightarrow> TC_bytes \<Rightarrow> TC_status" where
  "TC_DES_CMAC_verify_short_tag MIN_TAG_LEN e tag_at k msg tag =
     fst (tc_des_cmac_oneshot MIN_TAG_LEN e tag_at k msg no_buffer tag True True)"

section \<open>CMAC over DES\<close>

interpretation des_mac: mac_cipher tc_des_block_cipher "\<lambda>k. True" 8
  by unfold_locales

definition des_cmac :: "u8 list \<Rightarrow> u8 list \<Rightarrow> u8 list" where
  "des_cmac k msg = cmac (fips_block k) 8 0x1b msg"

text \<open>A descriptor that encrypts as the standard does under a key.\<close>

definition des_key_for :: "u8 list \<Rightarrow> tc_des_block_key \<Rightarrow> bool" where
  "des_key_for k bk \<longleftrightarrow> (\<forall>b. length b = 8 \<longrightarrow> cipher_fun (tc_des_block_cipher bk) b = fips_block k b)"

lemma scheduled_key_for:
  assumes "length k \<in> {8, 16, 24}" "length sk = 48"
  shows "des_key_for k \<lparr>dbk_schedule = tc_des_schedule_key mode sk k (length k), dbk_triple = (length k \<noteq> 8)\<rparr>"
proof -
  have "bytes_bits (tc_des_encrypt_scheduled (tc_des_schedule_key mode sk k (length k)) b (length k \<noteq> 8)) = fips_tdes k (bytes_bits b)"
    if "length b = 8" for b
    using scheduled_fips [OF assms(1), of sk 48 b mode] assms(2) that by simp
  then show ?thesis unfolding des_key_for_def des_cipher_fun fips_block_def tc_des_block_key.simps
    by (metis bits_bytes_bits)
qed

lemma des_key_cmac:
  assumes "des_key_for k bk"
  shows "cmac (cipher_fun (tc_des_block_cipher bk)) 8 0x1b msg = des_cmac k msg"
  unfolding des_cmac_def
proof (rule cmac_cong)
  show "cipher_fun (tc_des_block_cipher bk) b = fips_block k b" if "length b = 8" for b
    using assms that by (simp add: des_key_for_def)
qed simp_all

text \<open>Which keys the schedule accepts, and what it makes of them.\<close>

definition des_mac_key_ok :: "des_build \<Rightarrow> TC_bytes \<Rightarrow> bool" where
  "des_mac_key_ok e k \<longleftrightarrow> tc_internal_span_valid (b_data k) (b_length k) \<and> b_length k \<in> {8, 16, 24} \<and>
     \<not> (db_reject_weak e \<and> tc_des_bundle_is_rejected (b_mem k) (b_length k))"

lemma cmac_schedule_eq:
  "tc_des_cmac_schedule e k keys triple =
     (if des_mac_key_ok e k
      then (True, tc_des_schedule_key (db_mode e) keys (b_mem k) (b_length k), if b_length k \<noteq> 8 then 1 else 0)
      else (False, keys, triple))"
  by (auto simp: tc_des_cmac_schedule_def des_mac_key_ok_def des_lengths)

lemma cmac_schedule_key:
  assumes "bytes_wf k" "des_mac_key_ok e k"
  shows "des_key_for (b_mem k)
     \<lparr>dbk_schedule = tc_des_schedule_key (db_mode e) (key_bundle_zero e) (b_mem k) (b_length k), dbk_triple = (b_length k \<noteq> 8)\<rparr>"
  using scheduled_key_for [of "b_mem k" "key_bundle_zero e" "db_mode e"] assms
  by (auto simp: des_mac_key_ok_def span_mem_length key_bundle_zero_def)

lemma des_cmac_oneshot_public:
  assumes "bytes_wf k" "bytes_wf msg" "bytes_wf expected" "tag_at \<noteq> NULL" "des_mac_key_ok e k"
  shows "tc_des_cmac_oneshot MTL e tag_at k msg tag expected False short_tag =
    (if w_data tag = NULL \<or> \<not> tc_internal_tag_length_allowed MTL (w_capacity tag) 8 short_tag \<or>
        \<not> tc_internal_span_valid (b_data msg) (b_length msg) then (TC_ERROR, tag)
     else (TC_OK, tag\<lparr>w_mem := memcpy_at (w_mem tag) 0 (take (w_capacity tag) (des_cmac (b_mem k) (b_mem msg)))\<rparr>))"
    and "tc_des_cmac_oneshot MTL e tag_at k msg tag expected True short_tag =
    (if b_data expected = NULL \<or> \<not> tc_internal_tag_length_allowed MTL (b_length expected) 8 short_tag \<or>
        \<not> tc_internal_span_valid (b_data msg) (b_length msg) then TC_ERROR
     else if b_mem expected = take (b_length expected) (des_cmac (b_mem k) (b_mem msg)) then TC_OK
     else TC_MISMATCH, tag)"
proof -
  define bk where "bk = \<lparr>dbk_schedule = tc_des_schedule_key (db_mode e) (key_bundle_zero e) (b_mem k) (b_length k),
     dbk_triple = (b_length k \<noteq> 8)\<rparr>"
  have c: "cmac (cipher_fun (tc_des_block_cipher bk)) 8 0x1b m = des_cmac (b_mem k) m" for m
    using des_key_cmac [OF cmac_schedule_key [OF assms(1,5)]] by (simp add: bk_def)
  have run: "tc_des_cmac_oneshot MTL e tag_at k msg tag expected v short_tag =
     (if v then (tc_mac_cmac_verify MTL tag_at (tc_des_block_cipher bk) 0x1b msg expected short_tag, tag)
      else tc_mac_cmac_oneshot MTL (tc_des_block_cipher bk) 0x1b msg tag short_tag)" for v
    using assms(5) by (simp add: tc_des_cmac_oneshot_def cmac_schedule_eq bk_def)
  show "tc_des_cmac_oneshot MTL e tag_at k msg tag expected False short_tag =
    (if w_data tag = NULL \<or> \<not> tc_internal_tag_length_allowed MTL (w_capacity tag) 8 short_tag \<or>
        \<not> tc_internal_span_valid (b_data msg) (b_length msg) then (TC_ERROR, tag)
     else (TC_OK, tag\<lparr>w_mem := memcpy_at (w_mem tag) 0 (take (w_capacity tag) (des_cmac (b_mem k) (b_mem msg)))\<rparr>))"
    unfolding run if_False using des_mac.cmac_oneshot_eq [OF TrueI assms(2), of MTL bk "0x1b" tag short_tag] by (simp only: c)
  show "tc_des_cmac_oneshot MTL e tag_at k msg tag expected True short_tag =
    (if b_data expected = NULL \<or> \<not> tc_internal_tag_length_allowed MTL (b_length expected) 8 short_tag \<or>
        \<not> tc_internal_span_valid (b_data msg) (b_length msg) then TC_ERROR
     else if b_mem expected = take (b_length expected) (des_cmac (b_mem k) (b_mem msg)) then TC_OK
     else TC_MISMATCH, tag)"
    unfolding run if_True using des_mac.cmac_verify_eq [OF TrueI assms(2-4), of MTL bk "0x1b" short_tag] by (simp only: c)
qed

section \<open>Streaming\<close>

definition cmac_key :: "TC_DES_CMAC_ctx \<Rightarrow> tc_des_block_key" where
  "cmac_key c = \<lparr>dbk_schedule = dcm_schedule c, dbk_triple = (dcm_triple c \<noteq> 0)\<rparr>"

lemma cmac_cipher_eq: "tc_des_cmac_cipher c = tc_des_block_cipher (cmac_key c)"
  by (simp add: tc_des_cmac_cipher_def cmac_key_def)

text \<open>The context after a message, under a key.\<close>

definition des_cmac_at :: "u8 list \<Rightarrow> u8 list \<Rightarrow> TC_DES_CMAC_ctx \<Rightarrow> bool" where
  "des_cmac_at k msg c \<longleftrightarrow>
     dcm_active c = 1 \<and> des_key_for k (cmac_key c) \<and>
     mac_state (cipher_fun (tc_des_block_cipher (cmac_key c))) 8 (replicate 8 0) msg (dcm_mac c) (dcm_buf c) (dcm_buf_len c) \<and>
     (dcm_buf_len c = 0 \<longrightarrow> msg = []) \<and>
     (dcm_k1 c, dcm_k2 c) = des_mac.cmac_subkeys (cmac_key c) 0x1b"

lemma des_cmac_init_eq:
  assumes "o_addr ctx \<noteq> NULL"
  shows "\<not> (tc_internal_ranges_disjoint (o_addr ctx) (o_size ctx) (b_data k) (b_length k) \<and> des_mac_key_ok e k) \<Longrightarrow>
      TC_DES_CMAC_init e ctx k = (TC_ERROR, ctx\<lparr>o_val := des_cmac_zero e\<rparr>)"
    and "bytes_wf k \<Longrightarrow> tc_internal_ranges_disjoint (o_addr ctx) (o_size ctx) (b_data k) (b_length k) \<Longrightarrow> des_mac_key_ok e k \<Longrightarrow>
      \<exists>c. TC_DES_CMAC_init e ctx k = (TC_OK, ctx\<lparr>o_val := c\<rparr>) \<and> des_cmac_at (b_mem k) [] c"
proof -
  assume "\<not> (tc_internal_ranges_disjoint (o_addr ctx) (o_size ctx) (b_data k) (b_length k) \<and> des_mac_key_ok e k)"
  then show "TC_DES_CMAC_init e ctx k = (TC_ERROR, ctx\<lparr>o_val := des_cmac_zero e\<rparr>)"
    using assms by (auto simp: TC_DES_CMAC_init_def Let_def TC_DES_CMAC_ctx_clear_def cmac_schedule_eq)
next
  assume k: "bytes_wf k" "tc_internal_ranges_disjoint (o_addr ctx) (o_size ctx) (b_data k) (b_length k)" "des_mac_key_ok e k"
  define bk where "bk = \<lparr>dbk_schedule = tc_des_schedule_key (db_mode e) (key_bundle_zero e) (b_mem k) (b_length k),
     dbk_triple = (b_length k \<noteq> 8)\<rparr>"
  define t :: u8 where "t = (if b_length k \<noteq> 8 then 1 else 0)"
  have t: "(t \<noteq> 0) = (b_length k \<noteq> 8)" by (simp add: t_def)
  obtain s1 s2 where s: "des_mac.cmac_subkeys bk 0x1b = (s1, s2)" by fastforce
  let ?c = "(des_cmac_zero e)\<lparr>dcm_schedule := dbk_schedule bk, dcm_triple := t, dcm_k1 := s1, dcm_k2 := s2, dcm_active := 1\<rparr>"
  have bk: "cmac_key ?c = bk" by (simp add: cmac_key_def bk_def t)
  have sub: "tc_mac_derive_subkeys (tc_des_block_cipher bk) 0x1b False (replicate 8 0) (replicate 8 0) = (TC_OK, s1, s2)"
    using des_mac.derive_subkeys_eq [OF TrueI, of "replicate 8 0" "replicate 8 0" bk "0x1b"] s by simp
  have z: "dcm_schedule (des_cmac_zero e) = key_bundle_zero e" "dcm_k1 (des_cmac_zero e) = replicate 8 0"
    "dcm_k2 (des_cmac_zero e) = replicate 8 0" by (simp_all add: des_cmac_zero_def)
  have sched: "tc_des_cmac_schedule e k (key_bundle_zero e) x = (True, dbk_schedule bk, t)" for x
    using k(3) by (simp add: cmac_schedule_eq bk_def t_def)
  have cip: "\<lparr>dbk_schedule = dbk_schedule bk, dbk_triple = (t \<noteq> 0)\<rparr> = bk" by (simp add: bk_def t)
  have "TC_DES_CMAC_init e ctx k = (TC_OK, ctx\<lparr>o_val := ?c\<rparr>)"
    using assms k(2) by (simp add: TC_DES_CMAC_init_def Let_def TC_DES_CMAC_ctx_clear_def z sched tc_des_cmac_cipher_def cip sub)
  moreover have "mac_state E 8 (replicate 8 0) [] (replicate 8 0) (replicate 8 0) 0" for E
    using des_mac.mac_state_init [of "replicate 8 0" "replicate 8 0" E] by simp
  ultimately show "\<exists>c. TC_DES_CMAC_init e ctx k = (TC_OK, ctx\<lparr>o_val := c\<rparr>) \<and> des_cmac_at (b_mem k) [] c"
    using cmac_schedule_key [OF k(1,3)] bk s by (auto simp: des_cmac_at_def des_cmac_zero_def bk_def [symmetric])
qed

lemma des_cmac_update_at:
  assumes "des_cmac_at k msg (o_val ctx)"
    "tc_block_mode_args (o_addr ctx) (o_size ctx) (b_data data) (b_length data) 1"
  shows "\<exists>c. TC_DES_CMAC_update e ctx data = (TC_OK, ctx\<lparr>o_val := c\<rparr>) \<and> des_cmac_at k (msg @ b_mem data) c"
proof -
  let ?c = "o_val ctx" and ?bk = "cmac_key (o_val ctx)"
  have st: "mac_state (cipher_fun (tc_des_block_cipher ?bk)) 8 (replicate 8 0) msg (dcm_mac ?c) (dcm_buf ?c) (dcm_buf_len ?c)"
    "dcm_buf_len ?c = 0 \<longrightarrow> msg = []" "dcm_active ?c = 1" "\<not> dcm_buf_len ?c > 8"
    using assms(1) by (auto simp: des_cmac_at_def mac_state_def)
  obtain mac buf n where u: "tc_mac_cbc_update (tc_des_block_cipher ?bk) (dcm_mac ?c) (dcm_buf ?c) (dcm_buf_len ?c) (b_mem data) True = (TC_OK, mac, buf, n)"
    "mac_state (cipher_fun (tc_des_block_cipher ?bk)) 8 (replicate 8 0) (msg @ b_mem data) mac buf n"
    "n = 0 \<longrightarrow> msg @ b_mem data = []"
    using des_mac.cbc_update_eq [OF TrueI st(1), of "b_mem data" True] st(2) by auto
  have "cmac_key (?c\<lparr>dcm_mac := mac, dcm_buf := buf, dcm_buf_len := n\<rparr>) = ?bk" by (simp add: cmac_key_def)
  then have "des_cmac_at k (msg @ b_mem data) (?c\<lparr>dcm_mac := mac, dcm_buf := buf, dcm_buf_len := n\<rparr>)"
    using assms(1) u(2,3) by (simp add: des_cmac_at_def)
  then show ?thesis
    using assms(2) st(3,4) u(1)
    by (intro exI [of _ "?c\<lparr>dcm_mac := mac, dcm_buf := buf, dcm_buf_len := n\<rparr>"])
      (simp add: TC_DES_CMAC_update_def cmac_cipher_eq TC_DES_BLOCKLEN_def)
qed

lemma des_cmac_final_at:
  assumes "des_cmac_at k msg (o_val ctx)" "buffer_wf tag" "8 \<le> w_capacity tag"
    "tc_block_mode_args (o_addr ctx) (o_size ctx) (w_data tag) 8 1"
  shows "TC_DES_CMAC_final e ctx tag =
    (TC_OK, ctx\<lparr>o_val := des_cmac_zero e\<rparr>, tag\<lparr>w_mem := des_cmac k msg @ drop 8 (w_mem tag)\<rparr>)"
proof -
  let ?c = "o_val ctx" and ?E = "cipher_fun (tc_des_block_cipher (cmac_key (o_val ctx)))"
  have st: "mac_state ?E 8 (replicate 8 0) msg (dcm_mac ?c) (dcm_buf ?c) (dcm_buf_len ?c)"
    "dcm_buf_len ?c = 0 \<longrightarrow> msg = []" "dcm_active ?c = 1" "\<not> dcm_buf_len ?c > 8"
    and bk: "des_key_for k (cmac_key ?c)" and sub: "(dcm_k1 ?c, dcm_k2 ?c) = des_mac.cmac_subkeys (cmac_key ?c) 0x1b"
    using assms(1) by (auto simp: des_cmac_at_def mac_state_def)
  have l: "dcm_k1 ?c = gf_dbl 8 0x1b (?E (replicate 8 0))" "dcm_k2 ?c = gf_dbl 8 0x1b (dcm_k1 ?c)"
    using sub by (simp_all add: des_mac.cmac_subkeys_def Let_def)
  have nn: "o_addr ctx \<noteq> NULL" "w_data tag \<noteq> NULL"
    using assms(4) by (auto simp: tc_block_mode_args_def tc_internal_span_valid_def)
  have lt: "8 \<le> length (w_mem tag)" using assms(2,3) nn(2) by (auto simp: buffer_wf_def)
  have "cmac_spec ?E 8 (replicate 8 0) (dcm_k1 ?c) (dcm_k2 ?c) msg = des_cmac k msg"
    using des_key_cmac [OF bk, of msg] by (simp add: cmac_def Let_def l)
  then show ?thesis
    using des_mac.cmac_final_eq [OF TrueI st(1,2), of "dcm_k1 ?c" "dcm_k2 ?c" "w_mem tag"] lt l st(3,4) assms(3,4) nn(1)
    by (auto simp: TC_DES_CMAC_final_def TC_DES_CMAC_TAG_MAX_def cmac_cipher_eq TC_DES_BLOCKLEN_def TC_DES_CMAC_ctx_clear_def)
qed

end
