(* ===== verification/DES_ISO9797.thy ===== *)
theory DES_ISO9797
  imports DES_CMAC
begin

text \<open>
  The ISO/IEC 9797-1 MAC algorithms 1 and 3 over DES, the second half of \<^verbatim>\<open>src/src/des_mac.c\<close>: the streaming
  context, the three paddings, Output Transformation 3 and the one-shot forms. The lemmas show that each form
  computes the MAC of the standard over the block function of FIPS 46-3, for any division of the message.
\<close>

section \<open>Algorithms, paddings and the context\<close>

text \<open>An argument of an enumeration type may hold any integer value in C, so it is a number here.\<close>

definition TC_DES_ISO9797_ALG1 :: nat where "TC_DES_ISO9797_ALG1 = 1"

definition TC_DES_ISO9797_ALG3 :: nat where "TC_DES_ISO9797_ALG3 = 3"

definition TC_DES_ISO9797_ALG3_3KEY_EXTENSION :: nat where "TC_DES_ISO9797_ALG3_3KEY_EXTENSION = 0x103"

definition TC_DES_ISO9797_PAD_NONE :: nat where "TC_DES_ISO9797_PAD_NONE = 0"

definition TC_DES_ISO9797_PAD1 :: nat where "TC_DES_ISO9797_PAD1 = 1"

definition TC_DES_ISO9797_PAD2 :: nat where "TC_DES_ISO9797_PAD2 = 2"

lemmas iso9797_codes = TC_DES_ISO9797_ALG1_def TC_DES_ISO9797_ALG3_def TC_DES_ISO9797_ALG3_3KEY_EXTENSION_def
  TC_DES_ISO9797_PAD_NONE_def TC_DES_ISO9797_PAD1_def TC_DES_ISO9797_PAD2_def

record TC_DES_ISO9797_ctx =
  is_schedule :: "TC_DES_round_key list"
  is_mac :: "u8 list"
  is_buf :: "u8 list"
  is_used :: nat
  is_algorithm :: "16 word"
  is_padding :: u8
  is_active :: u8
  is_nonempty :: u8

definition iso9797_zero :: "des_build \<Rightarrow> TC_DES_ISO9797_ctx" where
  "iso9797_zero e =
     \<lparr>is_schedule = key_bundle_zero e, is_mac = replicate 8 0, is_buf = replicate 8 0, is_used = 0, is_algorithm = 0,
      is_padding = 0, is_active = 0, is_nonempty = 0\<rparr>"

definition TC_DES_ISO9797_ctx_clear :: "des_build \<Rightarrow> TC_DES_ISO9797_ctx obj \<Rightarrow> TC_DES_ISO9797_ctx obj" where
  "TC_DES_ISO9797_ctx_clear e ctx = (if o_addr ctx \<noteq> NULL then ctx\<lparr>o_val := iso9797_zero e\<rparr> else ctx)"

definition tc_des_iso9797_output_transformation3 :: "TC_DES_ISO9797_ctx \<Rightarrow> u8 list \<Rightarrow> u8 list" where
  "tc_des_iso9797_output_transformation3 c block =
     (let block = tc_des_cipher_block (drop 16 (is_schedule c)) block True
      in tc_des_cipher_block (drop 32 (is_schedule c)) block False)"

definition tc_des_iso9797_padding_known :: "nat \<Rightarrow> bool" where
  "tc_des_iso9797_padding_known padding \<longleftrightarrow>
     padding = TC_DES_ISO9797_PAD_NONE \<or> padding = TC_DES_ISO9797_PAD1 \<or> padding = TC_DES_ISO9797_PAD2"

section \<open>Streaming\<close>

definition TC_DES_ISO9797_init ::
  "des_build \<Rightarrow> TC_DES_ISO9797_ctx obj \<Rightarrow> nat \<Rightarrow> nat \<Rightarrow> TC_bytes \<Rightarrow> TC_status \<times> TC_DES_ISO9797_ctx obj" where
  "TC_DES_ISO9797_init e ctx algorithm padding k =
     (if o_addr ctx = NULL then (TC_ERROR, ctx)
      else let ctx = TC_DES_ISO9797_ctx_clear e ctx
           in if \<not> tc_internal_span_valid (b_data k) (b_length k) \<or>
                 (algorithm \<noteq> TC_DES_ISO9797_ALG1 \<and> algorithm \<noteq> TC_DES_ISO9797_ALG3 \<and>
                  algorithm \<noteq> TC_DES_ISO9797_ALG3_3KEY_EXTENSION) \<or>
                 \<not> tc_des_iso9797_padding_known padding \<or>
                 (algorithm = TC_DES_ISO9797_ALG3 \<and> b_length k \<noteq> TC_DES_KEYLEN_2KEY) \<or>
                 (algorithm = TC_DES_ISO9797_ALG3_3KEY_EXTENSION \<and> b_length k \<noteq> TC_DES_KEYLEN_3KEY) \<or>
                 (algorithm = TC_DES_ISO9797_ALG1 \<and> b_length k \<noteq> TC_DES_KEYLEN_2KEY \<and> b_length k \<noteq> TC_DES_KEYLEN_3KEY) \<or>
                 \<not> tc_internal_ranges_disjoint (o_addr ctx) (o_size ctx) (b_data k) (b_length k)
              then (TC_ERROR, ctx)
              else if tc_des_keys_equal (b_mem k) (drop TC_DES_KEYLEN (b_mem k)) \<or>
                      (b_length k = TC_DES_KEYLEN_3KEY \<and>
                       tc_des_keys_equal (drop TC_DES_KEYLEN (b_mem k)) (drop TC_DES_KEYLEN_2KEY (b_mem k)))
              then (TC_ERROR, ctx)
              else if db_reject_weak e \<and> tc_des_bundle_is_rejected (b_mem k) (b_length k) then (TC_ERROR, ctx)
              else (TC_OK, ctx\<lparr>o_val := (o_val ctx)
                     \<lparr>is_schedule := tc_des_schedule_key (db_mode e) (is_schedule (o_val ctx)) (b_mem k) (b_length k),
                      is_algorithm := of_nat algorithm, is_padding := of_nat padding, is_active := 1\<rparr>\<rparr>))"

text \<open>The descriptor update and final build: TDEA for algorithm 1, single DES otherwise.\<close>

definition iso9797_key :: "TC_DES_ISO9797_ctx \<Rightarrow> tc_des_block_key" where
  "iso9797_key c = \<lparr>dbk_schedule = is_schedule c, dbk_triple = (unat (is_algorithm c) = TC_DES_ISO9797_ALG1)\<rparr>"

definition TC_DES_ISO9797_update ::
  "des_build \<Rightarrow> TC_DES_ISO9797_ctx obj \<Rightarrow> TC_bytes \<Rightarrow> TC_status \<times> TC_DES_ISO9797_ctx obj" where
  "TC_DES_ISO9797_update e ctx msg =
     (if \<not> tc_block_mode_args (o_addr ctx) (o_size ctx) (b_data msg) (b_length msg) 1 \<or>
         is_active (o_val ctx) \<noteq> 1 \<or> is_used (o_val ctx) \<ge> TC_DES_BLOCKLEN
      then (TC_ERROR, ctx)
      else let ctx = (if b_length msg \<noteq> 0 then ctx\<lparr>o_val := (o_val ctx)\<lparr>is_nonempty := 1\<rparr>\<rparr> else ctx)
           in case tc_mac_cbc_update (tc_des_block_cipher (iso9797_key (o_val ctx))) (is_mac (o_val ctx)) (is_buf (o_val ctx))
                     (is_used (o_val ctx)) (b_mem msg) False
              of (status, mac, buf, n) \<Rightarrow>
                let ctx = ctx\<lparr>o_val := (o_val ctx)\<lparr>is_mac := mac, is_buf := buf, is_used := n\<rparr>\<rparr>
                in if status \<noteq> TC_OK then (TC_ERROR, TC_DES_ISO9797_ctx_clear e ctx) else (TC_OK, ctx))"

definition TC_DES_ISO9797_final ::
  "des_build \<Rightarrow> TC_DES_ISO9797_ctx obj \<Rightarrow> TC_buffer \<Rightarrow> TC_status \<times> TC_DES_ISO9797_ctx obj \<times> TC_buffer" where
  "TC_DES_ISO9797_final e ctx tag =
     (if w_capacity tag < TC_DES_BLOCKLEN \<or>
         \<not> tc_block_mode_args (o_addr ctx) (o_size ctx) (w_data tag) TC_DES_BLOCKLEN 1 \<or>
         is_active (o_val ctx) \<noteq> 1 \<or> is_used (o_val ctx) \<ge> TC_DES_BLOCKLEN
      then (TC_ERROR, ctx, tag)
      else let c = o_val ctx; padding = unat (is_padding c); fill = is_used c; cipher = tc_des_block_cipher (iso9797_key c)
           in if (padding = TC_DES_ISO9797_PAD_NONE \<and> fill \<noteq> 0) \<or>
                 (padding = TC_DES_ISO9797_PAD_NONE \<and> is_nonempty c = 0)
              then (TC_ERROR, TC_DES_ISO9797_ctx_clear e ctx, tag)
              else case (if padding = TC_DES_ISO9797_PAD1 \<and> (fill \<noteq> 0 \<or> is_nonempty c = 0)
                         then let buf = memcpy_at (is_buf c) fill (replicate (TC_DES_BLOCKLEN - fill) 0)
                              in case tc_mac_cbc_block cipher (is_mac c) buf of (status, mac) \<Rightarrow> (status, mac, buf)
                         else (TC_OK, is_mac c, is_buf c))
                   of (status, mac, buf) \<Rightarrow>
                     (case (if padding = TC_DES_ISO9797_PAD2
                            then tc_mac_cbc_block cipher mac
                                   (memcpy_at (buf[fill := 0x80]) (fill + 1) (replicate (TC_DES_BLOCKLEN - fill - 1) 0))
                            else (status, mac))
                      of (status, mac) \<Rightarrow>
                        if status \<noteq> TC_OK then (TC_ERROR, TC_DES_ISO9797_ctx_clear e ctx, tag)
                        else let mac = (if unat (is_algorithm c) = TC_DES_ISO9797_ALG3 \<or>
                                           unat (is_algorithm c) = TC_DES_ISO9797_ALG3_3KEY_EXTENSION
                                        then tc_des_iso9797_output_transformation3 c mac else mac)
                             in (TC_OK, TC_DES_ISO9797_ctx_clear e ctx,
                                 tag\<lparr>w_mem := memcpy_at (w_mem tag) 0 (take TC_DES_BLOCKLEN mac)\<rparr>)))"

section \<open>One-shot forms\<close>

definition tc_des_iso9797_mac_args :: "TC_bytes \<Rightarrow> addr \<Rightarrow> nat \<Rightarrow> bool \<Rightarrow> bool" where
  "tc_des_iso9797_mac_args msg tag tag_len short_tag \<longleftrightarrow>
     tag \<noteq> NULL \<and> tc_internal_span_valid (b_data msg) (b_length msg) \<and>
     (if short_tag then tag_len \<ge> 4 \<and> tag_len < TC_DES_BLOCKLEN else tag_len = TC_DES_BLOCKLEN)"

text \<open>
  \<open>full_at\<close> is the stack address of \<^verbatim>\<open>full\<close>, which is uninitialized until the final step writes it. The result
  is the status, the context and the tag.
\<close>

definition tc_des_iso9797_mac_run ::
  "des_build \<Rightarrow> addr \<Rightarrow> TC_DES_ISO9797_ctx obj \<Rightarrow> TC_status \<Rightarrow> TC_bytes \<Rightarrow> TC_buffer \<Rightarrow>
   TC_status \<times> TC_DES_ISO9797_ctx obj \<times> TC_buffer" where
  "tc_des_iso9797_mac_run e full_at ctx init msg tag =
     (if init \<noteq> TC_OK then (TC_ERROR, ctx, tag)
      else let full = \<lparr>w_data = full_at, w_capacity = TC_DES_BLOCKLEN, w_mem = replicate TC_DES_BLOCKLEN 0\<rparr>
           in case TC_DES_ISO9797_update e ctx msg of (status, ctx) \<Rightarrow>
             case (if status = TC_OK then TC_DES_ISO9797_final e ctx full
                   else (status, TC_DES_ISO9797_ctx_clear e ctx, full))
             of (status, ctx, full) \<Rightarrow>
               (status, ctx,
                if status = TC_OK then tag\<lparr>w_mem := memcpy_at (w_mem tag) 0 (take (w_capacity tag) (w_mem full))\<rparr> else tag))"

text \<open>The local context is \<open>ctx\<close>, an object whose value is arbitrary, as it is uninitialized in C.\<close>

definition TC_DES_ISO9797_MAC ::
  "des_build \<Rightarrow> addr \<Rightarrow> TC_DES_ISO9797_ctx obj \<Rightarrow> nat \<Rightarrow> nat \<Rightarrow> TC_bytes \<Rightarrow> TC_bytes \<Rightarrow> TC_buffer \<Rightarrow>
   TC_status \<times> TC_DES_ISO9797_ctx obj \<times> TC_buffer" where
  "TC_DES_ISO9797_MAC e full_at ctx algorithm padding k msg tag =
     (if \<not> tc_des_iso9797_mac_args msg (w_data tag) (w_capacity tag) False then (TC_ERROR, ctx, tag)
      else case TC_DES_ISO9797_init e ctx algorithm padding k of (init, ctx) \<Rightarrow>
        tc_des_iso9797_mac_run e full_at ctx init msg tag)"

definition TC_DES_ISO9797_MAC_short_tag ::
  "des_build \<Rightarrow> addr \<Rightarrow> TC_DES_ISO9797_ctx obj \<Rightarrow> nat \<Rightarrow> nat \<Rightarrow> TC_bytes \<Rightarrow> TC_bytes \<Rightarrow> TC_buffer \<Rightarrow>
   TC_status \<times> TC_DES_ISO9797_ctx obj \<times> TC_buffer" where
  "TC_DES_ISO9797_MAC_short_tag e full_at ctx algorithm padding k msg tag =
     (if \<not> tc_des_iso9797_mac_args msg (w_data tag) (w_capacity tag) True then (TC_ERROR, ctx, tag)
      else case TC_DES_ISO9797_init e ctx algorithm padding k of (init, ctx) \<Rightarrow>
        tc_des_iso9797_mac_run e full_at ctx init msg tag)"

text \<open>\<open>at\<close> is the address of the outer array \<^verbatim>\<open>full\<close> of the verifying forms.\<close>

definition TC_DES_ISO9797_verify ::
  "des_build \<Rightarrow> addr \<Rightarrow> addr \<Rightarrow> TC_DES_ISO9797_ctx obj \<Rightarrow> nat \<Rightarrow> nat \<Rightarrow> TC_bytes \<Rightarrow> TC_bytes \<Rightarrow> TC_bytes \<Rightarrow> TC_status" where
  "TC_DES_ISO9797_verify e at full_at ctx algorithm padding k msg tag =
     (if b_data tag = NULL \<or> b_length tag \<noteq> TC_DES_BLOCKLEN then TC_ERROR
      else case TC_DES_ISO9797_MAC e full_at ctx algorithm padding k msg
                  \<lparr>w_data = at, w_capacity = b_length tag, w_mem = replicate TC_DES_BLOCKLEN 0\<rparr>
           of (status, _, full) \<Rightarrow> fst (tc_internal_verify_tag status at (w_mem full) TC_DES_BLOCKLEN tag))"

definition TC_DES_ISO9797_verify_short_tag ::
  "des_build \<Rightarrow> addr \<Rightarrow> addr \<Rightarrow> TC_DES_ISO9797_ctx obj \<Rightarrow> nat \<Rightarrow> nat \<Rightarrow> TC_bytes \<Rightarrow> TC_bytes \<Rightarrow> TC_bytes \<Rightarrow> TC_status" where
  "TC_DES_ISO9797_verify_short_tag e at full_at ctx algorithm padding k msg tag =
     (if b_data tag = NULL \<or> b_length tag < 4 \<or> b_length tag \<ge> TC_DES_BLOCKLEN then TC_ERROR
      else case TC_DES_ISO9797_MAC_short_tag e full_at ctx algorithm padding k msg
                  \<lparr>w_data = at, w_capacity = b_length tag, w_mem = replicate TC_DES_BLOCKLEN 0\<rparr>
           of (status, _, full) \<Rightarrow> fst (tc_internal_verify_tag status at (w_mem full) TC_DES_BLOCKLEN tag))"

section \<open>The MACs of the standard\<close>

text \<open>Clause 6.3: the padded message, \<open>None\<close> when the padding does not apply.\<close>

definition iso_pad :: "nat \<Rightarrow> u8 list \<Rightarrow> u8 list option" where
  "iso_pad padding msg =
     (if padding = 0 then if msg \<noteq> [] \<and> 8 dvd length msg then Some msg else None
      else if padding = 1
      then Some (if msg = [] then replicate 8 0 else msg @ replicate ((8 - length msg mod 8) mod 8) 0)
      else Some (msg @ 0x80 # replicate (7 - length msg mod 8) 0))"

text \<open>Clauses 7.2 and 7.4: the chaining cipher and the output transformation.\<close>

definition iso_chain :: "nat \<Rightarrow> u8 list \<Rightarrow> u8 list \<Rightarrow> u8 list" where
  "iso_chain algorithm k = fips_block (if algorithm = 1 then k else take 8 k)"

definition iso_output :: "nat \<Rightarrow> u8 list \<Rightarrow> u8 list \<Rightarrow> u8 list" where
  "iso_output algorithm k h =
     (if algorithm = 1 then h
      else let K2 = fips_keys (bytes_bits (take 8 (drop 8 k)));
               K3 = fips_keys (bytes_bits (if length k = 16 then take 8 k else take 8 (drop 16 k)))
           in bits_bytes (fips_des K3 (fips_des (rev K2) (bytes_bits h))))"

definition iso_mac :: "nat \<Rightarrow> u8 list \<Rightarrow> u8 list \<Rightarrow> u8 list" where
  "iso_mac algorithm k padded = iso_output algorithm k (cbc_mac (iso_chain algorithm k) (replicate 8 0) (chunks 8 padded))"

definition iso_key_ok :: "des_build \<Rightarrow> nat \<Rightarrow> TC_bytes \<Rightarrow> bool" where
  "iso_key_ok e algorithm k \<longleftrightarrow>
     tc_internal_span_valid (b_data k) (b_length k) \<and>
     (algorithm, b_length k) \<in> {(1, 16), (1, 24), (3, 16), (0x103, 24)} \<and>
     \<not> tc_des_keys_equal (b_mem k) (drop 8 (b_mem k)) \<and>
     \<not> (b_length k = 24 \<and> tc_des_keys_equal (drop 8 (b_mem k)) (drop 16 (b_mem k))) \<and>
     \<not> (db_reject_weak e \<and> tc_des_bundle_is_rejected (b_mem k) (b_length k))"

lemma iso_init_eq:
  assumes "o_addr ctx \<noteq> NULL"
  shows "TC_DES_ISO9797_init e ctx algorithm padding k =
    (if iso_key_ok e algorithm k \<and> padding \<le> 2 \<and> tc_internal_ranges_disjoint (o_addr ctx) (o_size ctx) (b_data k) (b_length k)
     then (TC_OK, ctx\<lparr>o_val := (iso9797_zero e)
       \<lparr>is_schedule := tc_des_schedule_key (db_mode e) (key_bundle_zero e) (b_mem k) (b_length k),
        is_algorithm := of_nat algorithm, is_padding := of_nat padding, is_active := 1\<rparr>\<rparr>)
     else (TC_ERROR, ctx\<lparr>o_val := iso9797_zero e\<rparr>))"
proof -
  have p: "tc_des_iso9797_padding_known padding \<longleftrightarrow> padding \<le> 2"
    by (auto simp: tc_des_iso9797_padding_known_def iso9797_codes)
  have z: "is_schedule (iso9797_zero e) = key_bundle_zero e" by (simp add: iso9797_zero_def)
  let ?a = "\<not> tc_internal_span_valid (b_data k) (b_length k) \<or> (algorithm \<noteq> 1 \<and> algorithm \<noteq> 3 \<and> algorithm \<noteq> 0x103) \<or>
     \<not> padding \<le> 2 \<or> (algorithm = 3 \<and> b_length k \<noteq> 16) \<or> (algorithm = 0x103 \<and> b_length k \<noteq> 24) \<or>
     (algorithm = 1 \<and> b_length k \<noteq> 16 \<and> b_length k \<noteq> 24) \<or>
     \<not> tc_internal_ranges_disjoint (o_addr ctx) (o_size ctx) (b_data k) (b_length k)"
  let ?b = "tc_des_keys_equal (b_mem k) (drop 8 (b_mem k)) \<or> (b_length k = 24 \<and> tc_des_keys_equal (drop 8 (b_mem k)) (drop 16 (b_mem k)))"
  let ?w = "db_reject_weak e \<and> tc_des_bundle_is_rejected (b_mem k) (b_length k)"
  have ok: "(iso_key_ok e algorithm k \<and> padding \<le> 2 \<and> tc_internal_ranges_disjoint (o_addr ctx) (o_size ctx) (b_data k) (b_length k)) \<longleftrightarrow>
     \<not> ?a \<and> \<not> ?b \<and> \<not> ?w"
    unfolding iso_key_ok_def by auto
  show ?thesis
    unfolding ok TC_DES_ISO9797_init_def Let_def TC_DES_ISO9797_ctx_clear_def p iso9797_codes des_lengths
    using assms by (auto simp: z)
qed

section \<open>The chaining cipher and the output transformation\<close>

lemma fips_des_block:
  assumes "take 16 sk = tc_des_key_schedule mode k" "length k = 8" "length b = 8"
  shows "tc_des_cipher_block sk b d =
    bits_bytes (fips_des (if d then rev (fips_keys (bytes_bits k)) else fips_keys (bytes_bits k)) (bytes_bits b))"
  unfolding stage_fips [OF assms, symmetric] by (simp add: bits_bytes_bits)

lemma chain_key_for:
  assumes "length k \<in> {16, 24}" "length sk = 48"
  shows "des_key_for (if algorithm = 1 then k else take 8 k)
     \<lparr>dbk_schedule = tc_des_schedule_key mode sk k (length k), dbk_triple = (algorithm = (1 :: nat))\<rparr>"
proof (cases "algorithm = 1")
  case True
  have "length k \<noteq> 8" using assms(1) by auto
  then show ?thesis using scheduled_key_for [of k sk mode] assms True by simp
next
  case False
  have "take 16 (tc_des_schedule_key mode sk k (length k)) = tc_des_key_schedule mode (take 8 k)" "length (take 8 k) = 8"
    using schedule_key_rows(1) [of k sk 48 mode] assms by auto
  from fips_des_block [OF this, of _ False] show ?thesis
    using False \<open>length (take 8 k) = 8\<close>
    by (auto simp: des_key_for_def des_cipher_fun tc_des_encrypt_scheduled_def fips_block_def fips_tdes_def Let_def)
qed

lemma output_transformation3_eq:
  assumes "length k \<in> {16, 24}" "length sk = 48" "length h = 8" "algorithm \<noteq> 1"
    "is_schedule c = tc_des_schedule_key mode sk k (length k)"
  shows "tc_des_iso9797_output_transformation3 c h = iso_output algorithm k h"
proof -
  let ?sk = "tc_des_schedule_key mode sk k (length k)" and ?k2 = "take 8 (drop 8 k)"
  let ?k3 = "if length k = 16 then take 8 k else take 8 (drop 16 k)"
  have rows: "take 16 (drop 16 ?sk) = tc_des_key_schedule mode ?k2" "take 16 (drop 32 ?sk) = tc_des_key_schedule mode ?k3"
    using schedule_key_rows(2-4) [of k sk 48 mode] assms(1,2) by auto
  have len: "length ?k2 = 8" "length ?k3 = 8" using assms(1) by auto
  have "bytes_bits (tc_des_cipher_block (drop 32 ?sk) (tc_des_cipher_block (drop 16 ?sk) h True) False) =
      fips_des (fips_keys (bytes_bits ?k3)) (fips_des (rev (fips_keys (bytes_bits ?k2))) (bytes_bits h))"
    using stage_fips [OF rows(2) len(2) length_cipher_block, of _ _ _ False] stage_fips [OF rows(1) len(1) assms(3), of True] by simp
  then have "tc_des_cipher_block (drop 32 ?sk) (tc_des_cipher_block (drop 16 ?sk) h True) False =
      bits_bytes (fips_des (fips_keys (bytes_bits ?k3)) (fips_des (rev (fips_keys (bytes_bits ?k2))) (bytes_bits h)))"
    by (metis bits_bytes_bits)
  then show ?thesis using assms(4,5) by (simp add: tc_des_iso9797_output_transformation3_def iso_output_def Let_def)
qed

section \<open>Streaming\<close>

text \<open>The context after a message, under a key.\<close>

definition iso_at :: "des_build \<Rightarrow> nat \<Rightarrow> nat \<Rightarrow> u8 list \<Rightarrow> u8 list \<Rightarrow> TC_DES_ISO9797_ctx \<Rightarrow> bool" where
  "iso_at e algorithm padding k msg c \<longleftrightarrow>
     is_active c = 1 \<and> algorithm \<in> {1, 3, 0x103} \<and> unat (is_algorithm c) = algorithm \<and>
     padding \<le> 2 \<and> unat (is_padding c) = padding \<and> length k \<in> {16, 24} \<and>
     is_schedule c = tc_des_schedule_key (db_mode e) (key_bundle_zero e) k (length k) \<and>
     (is_nonempty c = 0 \<longleftrightarrow> msg = []) \<and> is_used c < 8 \<and> length (is_mac c) = 8 \<and> length (is_buf c) = 8 \<and>
     mac_state (cipher_fun (tc_des_block_cipher (iso9797_key c))) 8 (replicate 8 0) msg (is_mac c) (is_buf c) (is_used c)"

lemma iso_at_key:
  assumes "iso_at e algorithm padding k msg c"
  shows "des_key_for (if algorithm = 1 then k else take 8 k) (iso9797_key c)"
  using assms chain_key_for [of k "key_bundle_zero e" algorithm "db_mode e"]
  by (auto simp: iso_at_def iso9797_key_def TC_DES_ISO9797_ALG1_def key_bundle_zero_def)

lemma iso_init_at:
  assumes "o_addr ctx \<noteq> NULL" "bytes_wf k" "iso_key_ok e algorithm k" "padding \<le> 2"
    "tc_internal_ranges_disjoint (o_addr ctx) (o_size ctx) (b_data k) (b_length k)"
  shows "\<exists>c. TC_DES_ISO9797_init e ctx algorithm padding k = (TC_OK, ctx\<lparr>o_val := c\<rparr>) \<and> iso_at e algorithm padding (b_mem k) [] c"
proof -
  have len: "length (b_mem k) = b_length k" using assms(2,3) by (auto simp: iso_key_ok_def span_mem_length)
  have st: "mac_state E 8 (replicate 8 0) [] (replicate 8 0) (replicate 8 0) 0" for E
    using des_mac.mac_state_init [of "replicate 8 0" "replicate 8 0" E] by simp
  let ?c = "(iso9797_zero e)\<lparr>is_schedule := tc_des_schedule_key (db_mode e) (key_bundle_zero e) (b_mem k) (b_length k),
        is_algorithm := of_nat algorithm, is_padding := of_nat padding, is_active := 1\<rparr>"
  have "unat (of_nat padding :: u8) = padding" using assms(4) by (simp add: unat_of_nat)
  moreover have "unat (of_nat algorithm :: 16 word) = algorithm" "algorithm \<in> {1, 3, 0x103}" "b_length k \<in> {16, 24}"
    using assms(3) by (auto simp: iso_key_ok_def unat_of_nat)
  ultimately have "iso_at e algorithm padding (b_mem k) [] ?c"
    using assms(4) len st unfolding iso_at_def by (simp add: iso9797_zero_def)
  moreover have "TC_DES_ISO9797_init e ctx algorithm padding k = (TC_OK, ctx\<lparr>o_val := ?c\<rparr>)"
    using assms by (simp add: iso_init_eq)
  ultimately show ?thesis by blast
qed

lemma iso_update_at:
  assumes "iso_at e algorithm padding k msg (o_val ctx)" "bytes_wf data"
    "tc_block_mode_args (o_addr ctx) (o_size ctx) (b_data data) (b_length data) 1"
  shows "\<exists>c. TC_DES_ISO9797_update e ctx data = (TC_OK, ctx\<lparr>o_val := c\<rparr>) \<and> iso_at e algorithm padding k (msg @ b_mem data) c"
proof -
  define c where "c = (if b_length data \<noteq> 0 then (o_val ctx)\<lparr>is_nonempty := 1\<rparr> else o_val ctx)"
  have len: "length (b_mem data) = b_length data"
    using assms(2,3) by (auto simp: tc_block_mode_args_def span_mem_length)
  have same: "is_active c = 1" "is_used c < 8" "iso9797_key c = iso9797_key (o_val ctx)" "length (is_mac c) = 8" "length (is_buf c) = 8"
    "is_used c = is_used (o_val ctx)" "is_nonempty c = 0 \<longleftrightarrow> msg @ b_mem data = []"
    using assms(1) len by (auto simp: c_def iso_at_def iso9797_key_def)
  have st: "mac_state (cipher_fun (tc_des_block_cipher (iso9797_key c))) 8 (replicate 8 0) msg (is_mac c) (is_buf c) (is_used c)"
    using assms(1) unfolding same(3) by (simp add: iso_at_def c_def)
  obtain mac buf n where u: "tc_mac_cbc_update (tc_des_block_cipher (iso9797_key c)) (is_mac c) (is_buf c) (is_used c) (b_mem data) False = (TC_OK, mac, buf, n)"
    "length mac = 8" "length buf = 8" "n < 8"
    "mac_state (cipher_fun (tc_des_block_cipher (iso9797_key c))) 8 (replicate 8 0) (msg @ b_mem data) mac buf n"
    using des_mac.cbc_update_eq [OF TrueI st, of "b_mem data" False] same by auto
  let ?c = "c\<lparr>is_mac := mac, is_buf := buf, is_used := n\<rparr>"
  have "iso9797_key ?c = iso9797_key c" by (simp add: iso9797_key_def)
  then have "iso_at e algorithm padding k (msg @ b_mem data) ?c"
    using assms(1) u same(7) by (auto simp: iso_at_def c_def)
  moreover have "TC_DES_ISO9797_update e ctx data = (TC_OK, ctx\<lparr>o_val := ?c\<rparr>)"
  proof -
    have o: "o_val (if b_length data \<noteq> 0 then ctx\<lparr>o_val := (o_val ctx)\<lparr>is_nonempty := 1\<rparr>\<rparr> else ctx) = c"
      "(if b_length data \<noteq> 0 then ctx\<lparr>o_val := (o_val ctx)\<lparr>is_nonempty := 1\<rparr>\<rparr> else ctx) = ctx\<lparr>o_val := c\<rparr>"
      by (simp_all add: c_def)
    have act: "is_active (o_val ctx) = 1" using assms(1) by (simp add: iso_at_def)
    show ?thesis
      unfolding TC_DES_ISO9797_update_def Let_def o TC_DES_BLOCKLEN_def
      using assms(3) same(2,6) u(1) act by (simp del: One_nat_def)
  qed
  ultimately show ?thesis by blast
qed

text \<open>
  The chain after padding: the state holds \<open>q\<close> whole blocks and fewer than eight further bytes, to which the
  padding adds the rest of one block, or nothing.
\<close>

lemma cbc_mac_snoc: "cbc_mac E init (bs @ [b]) = E (xorl (cbc_mac E init bs) b)"
  by (simp add: cbc_mac_def)

lemma mac_state_pad:
  assumes "mac_state E 8 init msg mac buf fill" "fill < 8"
  shows "length msg mod 8 = fill"
    and "length pad = 8 - fill \<Longrightarrow> cbc_mac E init (chunks 8 (msg @ pad)) = E (xorl (take 8 mac) (take fill buf @ pad))"
    and "fill = 0 \<Longrightarrow> cbc_mac E init (chunks 8 msg) = take 8 mac"
proof -
  obtain q where q: "8 * q + fill = length msg" "take 8 mac = cbc_mac E init (chunks 8 (take (8 * q) msg))"
    "take fill buf = drop (8 * q) msg" using assms(1) by (auto simp: mac_state_def)
  show "length msg mod 8 = fill" using assms(2) q(1) [symmetric] by simp
  show "cbc_mac E init (chunks 8 msg) = take 8 mac" if "fill = 0" using that q(1,2) by simp
  assume pad: "length pad = 8 - fill"
  let ?l = "drop (8 * q) msg @ pad"
  have l: "length ?l = 8" using q(1) [symmetric] pad assms(2) by simp
  have "8 dvd length (take (8 * q) msg)" using q(1) [symmetric] by simp
  moreover have "chunks 8 ?l = [?l]" using chunks_append_block [of 8 ?l "[]"] l by simp
  ultimately have "chunks 8 (take (8 * q) msg @ ?l) = chunks 8 (take (8 * q) msg) @ [?l]"
    using chunks_append [of 8 "take (8 * q) msg" ?l] by simp
  then have "chunks 8 (msg @ pad) = chunks 8 (take (8 * q) msg) @ [?l]"
    by (simp only: append_assoc [symmetric] append_take_drop_id)
  then show "cbc_mac E init (chunks 8 (msg @ pad)) = E (xorl (take 8 mac) (take fill buf @ pad))"
    by (simp add: cbc_mac_snoc q(2,3))
qed

lemma cbc_block_des:
  assumes "length mac = 8" "length block = 8"
  shows "tc_mac_cbc_block (tc_des_block_cipher k) mac block = (TC_OK, cipher_fun (tc_des_block_cipher k) (xorl mac block))"
  using des_mac.cbc_block_eq [OF TrueI, of mac block k] assms by simp

text \<open>The two padding statements of the final step, as one function of the context.\<close>

definition iso_final_chain :: "TC_DES_ISO9797_ctx \<Rightarrow> TC_status \<times> u8 list" where
  "iso_final_chain c =
     (let padding = unat (is_padding c); fill = is_used c; cipher = tc_des_block_cipher (iso9797_key c)
      in case (if padding = TC_DES_ISO9797_PAD1 \<and> (fill \<noteq> 0 \<or> is_nonempty c = 0)
               then let buf = memcpy_at (is_buf c) fill (replicate (TC_DES_BLOCKLEN - fill) 0)
                    in case tc_mac_cbc_block cipher (is_mac c) buf of (status, mac) \<Rightarrow> (status, mac, buf)
               else (TC_OK, is_mac c, is_buf c))
         of (status, mac, buf) \<Rightarrow>
           if padding = TC_DES_ISO9797_PAD2
           then tc_mac_cbc_block cipher mac (memcpy_at (buf[fill := 0x80]) (fill + 1) (replicate (TC_DES_BLOCKLEN - fill - 1) 0))
           else (status, mac))"

lemma iso_final_chain_eq:
  assumes "iso_at e algorithm padding k msg c" "iso_pad padding msg = Some padded"
  shows "iso_final_chain c =
    (TC_OK, cbc_mac (cipher_fun (tc_des_block_cipher (iso9797_key c))) (replicate 8 0) (chunks 8 padded))"
proof -
  let ?E = "cipher_fun (tc_des_block_cipher (iso9797_key c))"
  have st: "mac_state ?E 8 (replicate 8 0) msg (is_mac c) (is_buf c) (is_used c)" "is_used c < 8"
    and len: "length (is_mac c) = 8" "length (is_buf c) = 8"
    and c: "unat (is_padding c) = padding" "padding \<le> 2" "is_nonempty c = 0 \<longleftrightarrow> msg = []"
    using assms(1) by (auto simp: iso_at_def)
  note pad = mac_state_pad [OF st]
  have m8: "take 8 (is_mac c) = is_mac c" using len(1) by simp
  have b1: "memcpy_at (is_buf c) (is_used c) (replicate (8 - is_used c) 0) = take (is_used c) (is_buf c) @ replicate (8 - is_used c) 0"
    using len(2) st(2) by (simp add: memcpy_at_def)
  have b2: "memcpy_at ((is_buf c)[is_used c := 0x80]) (is_used c + 1) (replicate (8 - is_used c - 1) 0) =
      take (is_used c) (is_buf c) @ 0x80 # replicate (7 - is_used c) 0"
    using len(2) st(2) by (simp add: memcpy_at_def take_Suc_conv_app_nth)
  consider "padding = 0" | "padding = 1" | "padding = 2" using c(2) by linarith
  then show ?thesis
  proof cases
    case 1
    then have "is_used c = 0" "padded = msg" using assms(2) pad(1) by (auto simp: iso_pad_def split: if_splits)
    then show ?thesis using 1 c pad(3) m8 by (simp add: iso_final_chain_def Let_def iso9797_codes)
  next
    case 2
    let ?z = "replicate (8 - is_used c) 0"
    show ?thesis
    proof (cases "is_used c \<noteq> 0 \<or> msg = []")
      case True
      have e: "is_used c = 0" if "msg = []" using pad(1) that by simp
      have "padded = msg @ ?z"
        using True 2 assms(2) pad(1) st(2) e by (auto simp: iso_pad_def split: if_splits)
      then show ?thesis
        using True 2 c pad(2) [of ?z] m8 b1 len st(2)
        by (simp add: iso_final_chain_def Let_def iso9797_codes TC_DES_BLOCKLEN_def cbc_block_des)
    next
      case False
      then have "padded = msg" using 2 assms(2) pad(1) by (auto simp: iso_pad_def split: if_splits)
      then show ?thesis using False 2 c pad(3) m8 by (simp add: iso_final_chain_def Let_def iso9797_codes)
    qed
  next
    case 3
    let ?z = "0x80 # replicate (7 - is_used c) 0"
    have "padded = msg @ ?z" using 3 assms(2) pad(1) by (auto simp: iso_pad_def)
    moreover have "length ?z = 8 - is_used c" using st(2) by simp
    moreover have "length (take (is_used c) (is_buf c) @ ?z) = 8" using len st(2) by simp
    ultimately show ?thesis
      using 3 c pad(2) [of ?z] m8 b2 len
      by (simp add: iso_final_chain_def Let_def iso9797_codes TC_DES_BLOCKLEN_def cbc_block_des)
  qed
qed

lemma iso_chain_cong:
  assumes "iso_at e algorithm padding k msg c" "8 dvd length padded"
  shows "cbc_mac (cipher_fun (tc_des_block_cipher (iso9797_key c))) (replicate 8 0) (chunks 8 padded) =
      cbc_mac (iso_chain algorithm k) (replicate 8 0) (chunks 8 padded)" (is ?same)
    and "length (cbc_mac (cipher_fun (tc_des_block_cipher (iso9797_key c))) (replicate 8 0) (chunks 8 padded)) = 8" (is ?len)
proof -
  have "?same \<and> ?len"
  proof (rule cbc_mac_cong)
    show "cipher_fun (tc_des_block_cipher (iso9797_key c)) b = iso_chain algorithm k b" if "length b = 8" for b
      using iso_at_key [OF assms(1)] that by (simp add: des_key_for_def iso_chain_def)
    show "blocks_of 8 (chunks 8 padded)" using assms(2) by (intro chunks_width) simp_all
  qed simp_all
  then show ?same ?len by blast+
qed

lemma length_iso_pad: "iso_pad padding msg = Some padded \<Longrightarrow> 8 dvd length padded"
proof -
  assume p: "iso_pad padding msg = Some padded"
  have r: "8 dvd n + (8 - n mod 8) mod 8" "8 dvd Suc (n + (7 - n mod 8))" for n :: nat
  proof -
    obtain d r where n: "n = 8 * d + r" "r < 8" "n mod 8 = r" using mult_div_mod_eq [of 8 n] by (metis mod_less_divisor zero_less_numeral)
    have "n + (8 - r) mod 8 = (if r = 0 then 8 * d else 8 * (d + 1))" using n(1,2) by simp
    then show "8 dvd n + (8 - n mod 8) mod 8" unfolding n(3) by (simp del: mult_Suc_right)
    have "Suc (n + (7 - r)) = 8 * (d + 1)" using n(1,2) by simp
    then show "8 dvd Suc (n + (7 - n mod 8))" unfolding n(3) by (simp del: mult_Suc_right)
  qed
  show ?thesis using p r by (auto simp: iso_pad_def split: if_splits)
qed

lemma iso_final_at:
  assumes "iso_at e algorithm padding k msg (o_val ctx)" "buffer_wf tag" "8 \<le> w_capacity tag"
    "tc_block_mode_args (o_addr ctx) (o_size ctx) (w_data tag) 8 1"
  shows "TC_DES_ISO9797_final e ctx tag =
    (case iso_pad padding msg of
       None \<Rightarrow> (TC_ERROR, ctx\<lparr>o_val := iso9797_zero e\<rparr>, tag)
     | Some padded \<Rightarrow> (TC_OK, ctx\<lparr>o_val := iso9797_zero e\<rparr>, tag\<lparr>w_mem := iso_mac algorithm k padded @ drop 8 (w_mem tag)\<rparr>))"
proof -
  let ?c = "o_val ctx" let ?m = "snd (iso_final_chain ?c)"
  have c: "is_active ?c = 1" "is_used ?c < 8" "unat (is_padding ?c) = padding" "is_nonempty ?c = 0 \<longleftrightarrow> msg = []"
    "padding \<le> 2" "algorithm \<in> {1, 3, 0x103}" "unat (is_algorithm ?c) = algorithm"
    and st: "mac_state (cipher_fun (tc_des_block_cipher (iso9797_key ?c))) 8 (replicate 8 0) msg (is_mac ?c) (is_buf ?c) (is_used ?c)"
    using assms(1) unfolding iso_at_def by blast+
  note fill = mac_state_pad(1) [OF st c(2)]
  have nn: "o_addr ctx \<noteq> NULL" "w_data tag \<noteq> NULL"
    using assms(4) by (auto simp: tc_block_mode_args_def tc_internal_span_valid_def)
  have lt: "8 \<le> length (w_mem tag)" using assms(2,3) nn(2) by (auto simp: buffer_wf_def)
  have none: "iso_pad padding msg = None \<longleftrightarrow>
      (padding = TC_DES_ISO9797_PAD_NONE \<and> is_used ?c \<noteq> 0) \<or> (padding = TC_DES_ISO9797_PAD_NONE \<and> is_nonempty ?c = 0)"
    using c(4) fill [symmetric] by (auto simp: iso_pad_def iso9797_codes mod_eq_0_iff_dvd)
  have guard: "\<not> (w_capacity tag < TC_DES_BLOCKLEN \<or> \<not> tc_block_mode_args (o_addr ctx) (o_size ctx) (w_data tag) TC_DES_BLOCKLEN 1 \<or>
      is_active ?c \<noteq> 1 \<or> is_used ?c \<ge> TC_DES_BLOCKLEN)"
    using assms(3,4) c(1,2) by (simp add: TC_DES_BLOCKLEN_def)
  have final: "TC_DES_ISO9797_final e ctx tag =
      (if iso_pad padding msg = None then (TC_ERROR, ctx\<lparr>o_val := iso9797_zero e\<rparr>, tag)
       else case iso_final_chain ?c of (status, mac) \<Rightarrow>
         if status \<noteq> TC_OK then (TC_ERROR, ctx\<lparr>o_val := iso9797_zero e\<rparr>, tag)
         else (TC_OK, ctx\<lparr>o_val := iso9797_zero e\<rparr>, tag\<lparr>w_mem := memcpy_at (w_mem tag) 0
           (take 8 (if algorithm \<noteq> 1 then tc_des_iso9797_output_transformation3 ?c mac else mac))\<rparr>))"
    unfolding TC_DES_ISO9797_final_def if_not_P [OF guard] none
    using c(6) nn(1)
    by (auto simp: iso_final_chain_def Let_def c(3,7) TC_DES_ISO9797_ctx_clear_def TC_DES_BLOCKLEN_def iso9797_codes split: prod.splits)
  show ?thesis
  proof (cases "iso_pad padding msg")
    case None
    then show ?thesis by (simp add: final)
  next
    case (Some padded)
    note e = iso_final_chain_eq [OF assms(1) Some] and ch = iso_chain_cong [OF assms(1) length_iso_pad [OF Some]]
    have k: "length k \<in> {16, 24}" "is_schedule ?c = tc_des_schedule_key (db_mode e) (key_bundle_zero e) k (length k)"
      using assms(1) by (simp_all add: iso_at_def)
    let ?h = "cbc_mac (iso_chain algorithm k) (replicate 8 0) (chunks 8 padded)"
    have h: "length ?h = 8" using ch(2) unfolding ch(1) .
    have out: "(if algorithm \<noteq> 1 then tc_des_iso9797_output_transformation3 ?c ?h else ?h) = iso_mac algorithm k padded"
      using output_transformation3_eq [OF k(1) _ h _ k(2), of algorithm]
      by (simp add: iso_mac_def key_bundle_zero_def) (simp add: iso_output_def)
    have "length (tc_des_iso9797_output_transformation3 ?c ?h) = 8"
      by (simp add: tc_des_iso9797_output_transformation3_def Let_def)
    then have "length (iso_mac algorithm k padded) = 8"
      unfolding out [symmetric] by (simp only: if_distrib [of length] h if_cancel)
    then have "memcpy_at (w_mem tag) 0 (take 8 (iso_mac algorithm k padded)) = iso_mac algorithm k padded @ drop 8 (w_mem tag)"
      by (simp add: memcpy_at_def)
    then show ?thesis using Some by (simp only: final e ch(1) out prod.case option.case option.distinct if_False not_True_eq_False refl)
  qed
qed

section \<open>One-shot forms\<close>

lemma length_iso_mac [simp]: "length (iso_mac algorithm k padded) = 8"
proof -
  have "length (cbc_mac (fips_block k') init bs) = 8" if "length init = 8" for k' init bs
    using that by (induction bs arbitrary: init) (simp_all add: cbc_mac_def)
  then show ?thesis by (simp add: iso_mac_def iso_output_def iso_chain_def Let_def length_bits_bytes)
qed

text \<open>The stack objects of the one-shot forms lie apart from each other and from the arguments.\<close>

definition iso_stack_ok :: "TC_DES_ISO9797_ctx obj \<Rightarrow> addr \<Rightarrow> TC_bytes \<Rightarrow> TC_bytes \<Rightarrow> bool" where
  "iso_stack_ok ctx full_at k msg \<longleftrightarrow>
     o_addr ctx \<noteq> NULL \<and> tc_internal_ranges_disjoint (o_addr ctx) (o_size ctx) (b_data k) (b_length k) \<and>
     tc_internal_ranges_disjoint (o_addr ctx) (o_size ctx) (b_data msg) (b_length msg) \<and>
     tc_block_mode_args (o_addr ctx) (o_size ctx) full_at 8 1"

lemma iso_run_eq:
  assumes "bytes_wf k" "bytes_wf msg" "iso_stack_ok ctx full_at k msg" "tc_internal_span_valid (b_data msg) (b_length msg)"
  shows "(case TC_DES_ISO9797_init e ctx algorithm padding k of (init, ctx) \<Rightarrow> tc_des_iso9797_mac_run e full_at ctx init msg tag) =
    (case if iso_key_ok e algorithm k \<and> padding \<le> 2 then iso_pad padding (b_mem msg) else None of
       None \<Rightarrow> (TC_ERROR, ctx\<lparr>o_val := iso9797_zero e\<rparr>, tag)
     | Some padded \<Rightarrow> (TC_OK, ctx\<lparr>o_val := iso9797_zero e\<rparr>,
         tag\<lparr>w_mem := memcpy_at (w_mem tag) 0 (take (w_capacity tag) (iso_mac algorithm (b_mem k) padded))\<rparr>))"
proof (cases "iso_key_ok e algorithm k \<and> padding \<le> 2")
  case False
  have "o_addr ctx \<noteq> NULL" using assms(3) by (simp add: iso_stack_ok_def)
  from iso_init_eq [OF this, of e algorithm padding k]
  have "TC_DES_ISO9797_init e ctx algorithm padding k = (TC_ERROR, ctx\<lparr>o_val := iso9797_zero e\<rparr>)"
    using False by (auto split: if_splits)
  then show ?thesis by (simp only: if_not_P [OF False] option.case prod.case) (simp add: tc_des_iso9797_mac_run_def)
next
  case True
  let ?full = "\<lparr>w_data = full_at, w_capacity = TC_DES_BLOCKLEN, w_mem = replicate TC_DES_BLOCKLEN 0\<rparr>"
  obtain c1 where c1: "TC_DES_ISO9797_init e ctx algorithm padding k = (TC_OK, ctx\<lparr>o_val := c1\<rparr>)" "iso_at e algorithm padding (b_mem k) [] c1"
    using iso_init_at [of ctx k e algorithm padding] assms(1,3) True by (auto simp: iso_stack_ok_def)
  have args: "tc_block_mode_args (o_addr (ctx\<lparr>o_val := c\<rparr>)) (o_size (ctx\<lparr>o_val := c\<rparr>)) (b_data msg) (b_length msg) 1"
    "tc_block_mode_args (o_addr (ctx\<lparr>o_val := c\<rparr>)) (o_size (ctx\<lparr>o_val := c\<rparr>)) (w_data ?full) 8 1" for c
    using assms(3,4) by (simp_all add: iso_stack_ok_def tc_block_mode_args_def)
  obtain c2 where c2: "TC_DES_ISO9797_update e (ctx\<lparr>o_val := c1\<rparr>) msg = (TC_OK, ctx\<lparr>o_val := c2\<rparr>)" "iso_at e algorithm padding (b_mem k) (b_mem msg) c2"
    using iso_update_at [of e algorithm padding "b_mem k" "[]" "ctx\<lparr>o_val := c1\<rparr>" msg] c1(2) assms(2) args(1) by auto
  have fin: "TC_DES_ISO9797_final e (ctx\<lparr>o_val := c2\<rparr>) ?full =
    (case iso_pad padding (b_mem msg) of
       None \<Rightarrow> (TC_ERROR, ctx\<lparr>o_val := iso9797_zero e\<rparr>, ?full)
     | Some padded \<Rightarrow> (TC_OK, ctx\<lparr>o_val := iso9797_zero e\<rparr>, ?full\<lparr>w_mem := iso_mac algorithm (b_mem k) padded\<rparr>))"
    using iso_final_at [of e algorithm padding "b_mem k" "b_mem msg" "ctx\<lparr>o_val := c2\<rparr>" ?full] c2(2) args(2) [of c2]
    by (cases "iso_pad padding (b_mem msg)") (simp_all add: buffer_wf_def TC_DES_BLOCKLEN_def)
  show ?thesis
    unfolding c1(1) tc_des_iso9797_mac_run_def Let_def
    using True by (simp add: c2(1) fin split: option.split)
qed

text \<open>The verifying forms compare with the leading bytes of the MAC.\<close>

lemma iso_verify_eq:
  fixes e :: des_build and algorithm padding :: nat
  assumes "bytes_wf k" "bytes_wf msg" "bytes_wf tag" "iso_stack_ok ctx full_at k msg"
    "tc_internal_span_valid (b_data msg) (b_length msg)" "at \<noteq> NULL" "b_data tag \<noteq> NULL"
  defines "verdict \<equiv> case if iso_key_ok e algorithm k \<and> padding \<le> 2 then iso_pad padding (b_mem msg) else None of
       None \<Rightarrow> TC_ERROR
     | Some padded \<Rightarrow> if b_mem tag = take (b_length tag) (iso_mac algorithm (b_mem k) padded) then TC_OK else TC_MISMATCH"
  shows "b_length tag = 8 \<Longrightarrow> TC_DES_ISO9797_verify e at full_at ctx algorithm padding k msg tag = verdict"
    and "4 \<le> b_length tag \<Longrightarrow> b_length tag < 8 \<Longrightarrow>
      TC_DES_ISO9797_verify_short_tag e at full_at ctx algorithm padding k msg tag = verdict"
proof -
  let ?n = "b_length tag" let ?buf = "\<lparr>w_data = at, w_capacity = ?n, w_mem = replicate 8 0\<rparr>"
  let ?run = "case TC_DES_ISO9797_init e ctx algorithm padding k of (init, ctx) \<Rightarrow> tc_des_iso9797_mac_run e full_at ctx init msg ?buf"
  note run = iso_run_eq [OF assms(1,2,4,5), where e = e and algorithm = algorithm and padding = padding and tag = ?buf]
  have ct: "TC_ct_equal \<lparr>b_data = at, b_length = ?n, b_mem = take ?n m\<rparr> tag =
      (if b_mem tag = take ?n m then TC_OK else TC_MISMATCH)" if "length m = 8" "?n \<le> 8" "0 < ?n" for m
    using that assms(3,6,7) by (subst TC_ct_equal_valid) (auto simp: bytes_wf_def)
  have t: "take ?n (memcpy_at (replicate 8 0) 0 (take ?n m)) = take ?n m" if "length m = 8" "?n \<le> 8" for m :: "u8 list"
    using that by (simp add: memcpy_at_def)
  have verify: "(case ?run of (status, _, full) \<Rightarrow> fst (tc_internal_verify_tag status at (w_mem full) 8 tag)) = verdict"
    if "?n \<le> 8" "0 < ?n"
    unfolding run verdict_def
    using that by (simp add: tc_internal_verify_tag_def t ct split: option.split)
  show "TC_DES_ISO9797_verify e at full_at ctx algorithm padding k msg tag = verdict" if "b_length tag = 8"
    using verify that assms(5-7) by (simp add: TC_DES_ISO9797_verify_def TC_DES_ISO9797_MAC_def tc_des_iso9797_mac_args_def TC_DES_BLOCKLEN_def)
  show "TC_DES_ISO9797_verify_short_tag e at full_at ctx algorithm padding k msg tag = verdict" if "4 \<le> b_length tag" "b_length tag < 8"
    using verify that assms(5-7)
    by (simp add: TC_DES_ISO9797_verify_short_tag_def TC_DES_ISO9797_MAC_short_tag_def tc_des_iso9797_mac_args_def TC_DES_BLOCKLEN_def)
qed

end
