(* ===== verification/DES_Properties.thy ===== *)
theory DES_Properties
  imports Concrete DES_Keys DES_Messages DES_ISO9797
begin

text \<open>
  The contracts of the DES modules over their public operations, each followed by an application at a concrete key,
  context and buffer.
\<close>

section \<open>Concrete arguments\<close>

text \<open>A constant-time build with triple DES that accepts weak keys, and the keys whose bytes are 0, 16, 32 and so on.\<close>

definition ex_des :: des_build where
  "ex_des = \<lparr>db_mode = TC_DES_SBOX_MODE_CONSTANT_TIME, db_tdes = True, db_reject_weak = False\<rparr>"

definition ex_des_ctx :: "TC_DES_ctx obj" where
  "ex_des_ctx = \<lparr>o_addr = 4096, o_size = 400, o_val = des_ctx_zero ex_des\<rparr>"

definition ex_des_key :: "nat \<Rightarrow> TC_bytes" where
  "ex_des_key n = \<lparr>b_data = 8192, b_length = n, b_mem = map (\<lambda>i. of_nat (16 * i)) [0..<n]\<rparr>"

lemma ex_des_simps [simp]:
  "db_tdes ex_des" "\<not> db_reject_weak ex_des" "o_addr ex_des_ctx = 4096" "o_size ex_des_ctx = 400"
  "b_data (ex_des_key n) = 8192" "b_length (ex_des_key n) = n" "bytes_wf (ex_des_key n)"
  by (simp_all add: ex_des_def ex_des_ctx_def ex_des_key_def bytes_wf_def)

lemma ex_des_init: "n \<in> {8, 16, 24} \<Longrightarrow> \<exists>c. TC_DES_init ex_des ex_des_ctx (ex_des_key n) = (TC_OK, c)"
  by (auto simp: TC_DES_init_def Let_def TC_DES_ctx_clear_def tc_des_ctx_keylen_supported_def des_lengths)

lemma ex_des_start:
  assumes "n \<in> {8, 16, 24}"
  shows "\<exists>c1 c2. TC_DES_init ex_des ex_des_ctx (ex_des_key n) = (TC_OK, c1) \<and> TC_DES_set_iv c1 (ex_span 8300 8) = (TC_OK, c2)"
proof -
  obtain c1 where c1: "TC_DES_init ex_des ex_des_ctx (ex_des_key n) = (TC_OK, c1)" using ex_des_init [OF assms] by blast
  from init_keyed [OF c1] have "dc_active (o_val c1) = 1" "o_addr c1 = 4096" "o_size c1 = 400" by (simp_all add: des_keyed_def)
  then have "\<exists>c2. TC_DES_set_iv c1 (ex_span 8300 8) = (TC_OK, c2)"
    by (simp add: TC_DES_set_iv_def DES_MODE_VALID_def TC_DES_BLOCKLEN_def)
  with c1 show ?thesis by blast
qed

section \<open>The block cipher and its keys\<close>

text \<open>C2: Both S-box builds compute the standard: after \<^verbatim>\<open>TC_DES_init\<close> accepted a key of 8, 16 or 24 bytes,
  \<^verbatim>\<open>TC_DES_ECB_encrypt\<close> replaces a block by its encryption under FIPS 46-3 (single DES, or encrypt-decrypt-encrypt
  with the components of the bundle), read as bit strings, and \<^verbatim>\<open>TC_DES_ECB_decrypt\<close> restores it.\<close>

theorem des_ecb_is_fips46_3:
  assumes "TC_DES_init e ctx k = (TC_OK, ctx')" "bytes_wf k" "buffer_wf buf" "w_capacity buf = 8"
    "tc_block_mode_args (o_addr ctx) (o_size ctx) (w_data buf) 8 1"
  shows "\<exists>buf'. TC_DES_ECB_encrypt ctx' buf = (TC_OK, buf') \<and>
           bytes_bits (w_mem buf') = fips_tdes (b_mem k) (bytes_bits (w_mem buf)) \<and>
           TC_DES_ECB_decrypt ctx' buf' = (TC_OK, buf)"
proof -
  define kk where "kk = tc_des_ctx_key (o_val ctx')"
  define m where "m = tc_des_encrypt_scheduled (dbk_schedule kk) (w_mem buf) (dbk_triple kk)"
  from init_keyed [OF assms(1,2)] have keyed: "des_keyed e (b_mem k) (o_val ctx')" and o: "o_addr ctx' = o_addr ctx" "o_size ctx' = o_size ctx"
    by simp_all
  have len: "length (w_mem buf) = 8" using mode_args_length(1) [OF assms(3)] assms(4,5) by simp
  have valid: "DES_MODE_VALID ctx' (w_data buf) 8 1" using keyed assms(5) o by (simp add: DES_MODE_VALID_def des_keyed_def)
  have "bytes_bits m = fips_tdes (b_mem k) (bytes_bits (w_mem buf))"
    using keyed_block(2) [OF keyed len] by (simp add: des_cipher_fun m_def kk_def)
  moreover have "TC_DES_ECB_encrypt ctx' buf = (TC_OK, buf\<lparr>w_mem := m\<rparr>)"
    using valid assms(4) by (simp add: TC_DES_ECB_encrypt_def TC_DES_BLOCKLEN_def tc_des_block_encrypt_def m_def kk_def)
  moreover have "tc_des_decrypt_scheduled (dbk_schedule kk) m (dbk_triple kk) = w_mem buf"
    unfolding m_def by (rule decrypt_encrypt_scheduled(1) [OF len])
  then have "TC_DES_ECB_decrypt ctx' (buf\<lparr>w_mem := m\<rparr>) = (TC_OK, buf)"
    using valid assms(4) by (simp add: TC_DES_ECB_decrypt_def TC_DES_BLOCKLEN_def tc_des_block_decrypt_def kk_def)
  ultimately show ?thesis by (intro exI [of _ "buf\<lparr>w_mem := m\<rparr>"]) simp
qed

theorem des_ecb_is_fips46_3_witness:
  "\<exists>c buf'. TC_DES_init ex_des ex_des_ctx (ex_des_key 24) = (TC_OK, c) \<and> TC_DES_ECB_encrypt c (ex_buf 9000 8) = (TC_OK, buf') \<and>
     bytes_bits (w_mem buf') = fips_tdes (b_mem (ex_des_key 24)) (bytes_bits (replicate 8 0)) \<and>
     TC_DES_ECB_decrypt c buf' = (TC_OK, ex_buf 9000 8)"
proof -
  obtain c where "TC_DES_init ex_des ex_des_ctx (ex_des_key 24) = (TC_OK, c)" using ex_des_init [of 24] by auto
  with des_ecb_is_fips46_3 [OF this, of "ex_buf 9000 8"] show ?thesis by auto
qed

text \<open>C30: \<^verbatim>\<open>TC_DES_init\<close> accepts exactly the keys of a supported length in valid storage apart from the context that the
  policy allows: with \<^verbatim>\<open>TC_DES_REJECT_WEAK_KEYS\<close>, no component is one of the sixteen weak and semi-weak keys and
  no two adjacent components are equal, parity bits left out. Any other call leaves every member of the context zero.\<close>

theorem des_init_policy:
  assumes "o_addr ctx \<noteq> NULL" "bytes_wf k" "TC_DES_init e ctx k = (status, ctx')"
  shows "(status = TC_OK \<longleftrightarrow>
            tc_internal_span_valid (b_data k) (b_length k) \<and> b_length k \<in> (if db_tdes e then {8, 16, 24} else {8}) \<and>
            tc_internal_ranges_disjoint (o_addr ctx) (o_size ctx) (b_data k) (b_length k) \<and>
            (db_reject_weak e \<longrightarrow> \<not> des_bundle_weak (b_mem k))) \<and>
         (status \<noteq> TC_OK \<longrightarrow> status = TC_ERROR \<and> ctx' = ctx\<lparr>o_val := des_ctx_zero e\<rparr>)"
proof -
  let ?args = "tc_internal_span_valid (b_data k) (b_length k) \<and> b_length k \<in> (if db_tdes e then {8, 16, 24} else {8}) \<and>
            tc_internal_ranges_disjoint (o_addr ctx) (o_size ctx) (b_data k) (b_length k)"
  have sup: "tc_des_ctx_keylen_supported e n \<longleftrightarrow> n \<in> (if db_tdes e then {8, 16, 24} else {8})" for n
    by (auto simp: tc_des_ctx_keylen_supported_def des_lengths)
  have "b_length k \<in> {8, 16, 24}" "length (b_mem k) = b_length k" if ?args
    using that span_mem_length [OF assms(2)] by (auto split: if_splits)
  then have rej: "tc_des_bundle_is_rejected (b_mem k) (b_length k) \<longleftrightarrow> des_bundle_weak (b_mem k)" if ?args
    using that bundle_rejected_iff [of "b_mem k"] by simp
  show ?thesis
    using assms(1,3) rej by (auto simp: TC_DES_init_def Let_def TC_DES_ctx_clear_def sup split: if_splits)
qed

theorem des_init_policy_witness:
  "TC_DES_init (ex_des\<lparr>db_reject_weak := True\<rparr>) ex_des_ctx (ex_span 8192 16) = (TC_ERROR, ex_des_ctx\<lparr>o_val := des_ctx_zero (ex_des\<lparr>db_reject_weak := True\<rparr>)\<rparr>)"
proof -
  let ?e = "ex_des\<lparr>db_reject_weak := True\<rparr>" let ?r = "TC_DES_init ?e ex_des_ctx (ex_span 8192 16)"
  have "des_bundle_weak (replicate 16 0)" by (simp add: des_bundle_weak_def bundle_chunks(2))
  with des_init_policy [of ex_des_ctx "ex_span 8192 16" ?e "fst ?r" "snd ?r"] show ?thesis by (simp add: prod_eq_iff)
qed

text \<open>The comparison behind the policy is the right one: two components that \<^verbatim>\<open>tc_des_keys_equal\<close> identifies give
  the same schedule, so a two-key bundle of such components encrypts as single DES, in both builds.\<close>

theorem des_equal_components_cancel:
  assumes "length k = 16" "length sk = 48" "length sk' = 16" "length b = 8" "tc_des_keys_equal k (drop 8 k)"
  shows "tc_des_encrypt_scheduled (tc_des_schedule_key mode sk k 16) b True =
         tc_des_encrypt_scheduled (tc_des_schedule_key mode sk' (take 8 k) 8) b False"
  by (rule equal_keys_collapse [OF assms])

section \<open>Modes\<close>

text \<open>C31: CBC is the chaining of SP 800-38A over FIPS 46-3: with a key and an IV loaded, \<^verbatim>\<open>TC_DES_CBC_encrypt\<close> leaves
  the chained ciphertext blocks in the buffer, and \<^verbatim>\<open>TC_DES_CBC_decrypt\<close> from the same IV restores the plaintext
  and ends in the same context.\<close>

theorem des_cbc_refines_sp800_38a:
  assumes "TC_DES_init e ctx k = (TC_OK, c1)" "TC_DES_set_iv c1 iv = (TC_OK, c2)" "bytes_wf k" "bytes_wf iv" "buffer_wf buf"
    "tc_block_mode_args (o_addr ctx) (o_size ctx) (w_data buf) (w_capacity buf) 8"
  defines "cs \<equiv> cbc_enc_spec (fips_block (b_mem k)) (b_mem iv) (chunks 8 (w_mem buf))"
  shows "\<exists>c3. TC_DES_CBC_encrypt c2 buf = (TC_OK, c3, buf\<lparr>w_mem := concat cs\<rparr>) \<and>
              dc_iv (o_val c3) = last (b_mem iv # cs) \<and>
              TC_DES_CBC_decrypt c2 (buf\<lparr>w_mem := concat cs\<rparr>) = (TC_OK, c3, buf)"
proof -
  note s = des_start [OF assms(1-4)]
  have args: "tc_block_mode_args (o_addr c2) (o_size c2) (w_data buf) (w_capacity buf) 8" using assms(6) s(2,3) by simp
  from des_cbc_message [OF s(1) assms(5) args] show ?thesis
    by (intro exI [of _ "c2\<lparr>o_val := (o_val c2)\<lparr>dc_iv := last (b_mem iv # cs)\<rparr>\<rparr>"]) (simp add: cs_def)
qed

theorem des_cbc_refines_sp800_38a_witness:
  "\<exists>c2 c3. TC_DES_CBC_encrypt c2 (ex_buf 9000 24) = (TC_OK, c3, (ex_buf 9000 24)
     \<lparr>w_mem := concat (cbc_enc_spec (fips_block (b_mem (ex_des_key 16))) (replicate 8 0) (chunks 8 (replicate 24 0)))\<rparr>)"
proof -
  obtain c1 c2 where "TC_DES_init ex_des ex_des_ctx (ex_des_key 16) = (TC_OK, c1)" "TC_DES_set_iv c1 (ex_span 8300 8) = (TC_OK, c2)"
    using ex_des_start [of 16] by auto
  from des_cbc_refines_sp800_38a [OF this, of "ex_buf 9000 24"] show ?thesis by auto
qed

text \<open>CTR never uses a counter block twice: at position \<open>p\<close> of the stream a request is served, in full, exactly when the
  64-bit counter has a fresh value for every block it needs; otherwise it is refused before any byte changes.\<close>

theorem des_ctr_never_wraps:
  assumes "des_ctr_at e k t p (o_val ctx)" "buffer_wf buf"
    "tc_block_mode_args (o_addr ctx) (o_size ctx) (w_data buf) (w_capacity buf) 1"
  shows "if w_capacity buf = 0 \<or> t + (p + w_capacity buf + 7) div 8 \<le> 256 ^ 8
         then \<exists>ctx'. TC_DES_CTR_crypt ctx buf =
                (TC_OK, ctx', buf\<lparr>w_mem := add_stream (ctr_stream (fips_block k) 8 t) p (w_mem buf)\<rparr>) \<and>
                des_ctr_at e k t (p + w_capacity buf) (o_val ctx')
         else TC_DES_CTR_crypt ctx buf = (TC_ERROR, ctx, buf)"
  using des_ctr_step [OF assms] unfolding blocks_after_def by (auto split: if_splits simp: algebra_simps)

text \<open>OFB is a stream: a call at position \<open>p\<close> adds the next bytes of the keystream of SP 800-38A, the iterated
  encryptions of the IV, and leaves the context at the position after them; the same call on the result from the
  same position restores the message.\<close>

theorem des_ofb_stream:
  assumes "des_ofb_at e k iv p (o_val ctx)" "buffer_wf buf"
    "tc_block_mode_args (o_addr ctx) (o_size ctx) (w_data buf) (w_capacity buf) 1"
  shows "\<exists>ctx' ctx'' buf'. TC_DES_OFB_crypt ctx buf = (TC_OK, ctx', buf') \<and>
           w_mem buf' = add_stream (ofb_stream (fips_block k) 8 iv) p (w_mem buf) \<and>
           des_ofb_at e k iv (p + w_capacity buf) (o_val ctx') \<and>
           TC_DES_OFB_crypt ctx buf' = (TC_OK, ctx'', buf)"
proof -
  let ?b = "buf\<lparr>w_mem := add_stream (ofb_stream (fips_block k) 8 iv) p (w_mem buf)\<rparr>"
  have wf: "buffer_wf ?b" using assms(2) by (simp add: buffer_wf_def)
  from des_ofb_step [OF assms] des_ofb_step [OF assms(1) wf] assms(3) show ?thesis by auto
qed

text \<open>C14: CFB with 64-bit segments follows SP 800-38A for a message of any length: the encryption feeds each ciphertext
  segment back, the decryption from the same IV restores the message, and after a call whose length is not a
  multiple of eight the message is over: every further call is refused until a new IV is loaded.\<close>

theorem des_cfb64_message_correct:
  assumes "TC_DES_init e ctx k = (TC_OK, c1)" "TC_DES_set_iv c1 iv = (TC_OK, c2)" "bytes_wf k" "bytes_wf iv" "buffer_wf buf"
    "tc_block_mode_args (o_addr ctx) (o_size ctx) (w_data buf) (w_capacity buf) 1"
  defines "cs \<equiv> cfb_enc_spec (fips_block (b_mem k)) (b_mem iv) (chunks 8 (w_mem buf))"
  shows "\<exists>c3. TC_DES_CFB64_encrypt c2 buf = (TC_OK, c3, buf\<lparr>w_mem := concat cs\<rparr>) \<and>
              TC_DES_CFB64_decrypt c2 (buf\<lparr>w_mem := concat cs\<rparr>) = (TC_OK, c3, buf) \<and>
              (\<not> 8 dvd w_capacity buf \<longrightarrow>
                 (\<forall>b. TC_DES_CFB64_encrypt c3 b = (TC_ERROR, c3, b) \<and> TC_DES_CFB64_decrypt c3 b = (TC_ERROR, c3, b)))"
proof -
  note s = des_start [OF assms(1-4)]
  let ?c3 = "c2\<lparr>o_val := (o_val c2)\<lparr>dc_iv := cfb_input (b_mem iv) cs, dc_cfb64_finished := (if w_capacity buf mod 8 \<noteq> 0 then 1 else 0)\<rparr>\<rparr>"
  have args: "tc_block_mode_args (o_addr c2) (o_size c2) (w_data buf) (w_capacity buf) 1" using assms(6) s(2,3) by simp
  note m = des_cfb64_message [OF s(1) assms(5) args, folded cs_def]
  have over: "TC_DES_CFB64_encrypt ?c3 b = (TC_ERROR, ?c3, b) \<and> TC_DES_CFB64_decrypt ?c3 b = (TC_ERROR, ?c3, b)"
    if "\<not> 8 dvd w_capacity buf" for b
  proof -
    have "dc_cfb64_finished (o_val ?c3) \<noteq> 0" using that by (simp add: mod_eq_0_iff_dvd)
    then show ?thesis by (simp add: TC_DES_CFB64_encrypt_def TC_DES_CFB64_decrypt_def tc_des_mode_cfb64_def)
  qed
  show ?thesis using m over by (intro exI [of _ ?c3]) blast
qed

theorem des_cfb64_message_correct_witness:
  "\<exists>c2 c3 m. TC_DES_CFB64_encrypt c2 (ex_buf 9000 13) = (TC_OK, c3, (ex_buf 9000 13)\<lparr>w_mem := m\<rparr>) \<and>
     TC_DES_CFB64_decrypt c2 ((ex_buf 9000 13)\<lparr>w_mem := m\<rparr>) = (TC_OK, c3, ex_buf 9000 13) \<and>
     TC_DES_CFB64_encrypt c3 (ex_buf 9000 8) = (TC_ERROR, c3, ex_buf 9000 8)"
proof -
  obtain c1 c2 where "TC_DES_init ex_des ex_des_ctx (ex_des_key 8) = (TC_OK, c1)" "TC_DES_set_iv c1 (ex_span 8300 8) = (TC_OK, c2)"
    using ex_des_start [of 8] by auto
  from des_cfb64_message_correct [OF this, of "ex_buf 9000 13"] obtain c3 where
    "TC_DES_CFB64_encrypt c2 (ex_buf 9000 13) = (TC_OK, c3, (ex_buf 9000 13)\<lparr>w_mem := concat (cfb_enc_spec (fips_block (b_mem (ex_des_key 8)))
       (replicate 8 0) (chunks 8 (replicate 13 0)))\<rparr>)"
    "TC_DES_CFB64_decrypt c2 ((ex_buf 9000 13)\<lparr>w_mem := concat (cfb_enc_spec (fips_block (b_mem (ex_des_key 8)))
       (replicate 8 0) (chunks 8 (replicate 13 0)))\<rparr>) = (TC_OK, c3, ex_buf 9000 13)"
    "\<forall>b. TC_DES_CFB64_encrypt c3 b = (TC_ERROR, c3, b)" by auto
  then show ?thesis by blast
qed

text \<open>C32: CFB with 8-bit and with 1-bit segments follows SP 800-38A: the first replaces every byte, the second exactly the
  requested number of bits and no other bit of the buffer, and the decryption from the same IV restores it.\<close>

theorem des_cfb8_cfb1_correct:
  assumes "TC_DES_init e ctx k = (TC_OK, c1)" "TC_DES_set_iv c1 iv = (TC_OK, c2)" "bytes_wf k" "bytes_wf iv" "buffer_wf buf"
    "tc_block_mode_args (o_addr ctx) (o_size ctx) (w_data buf) (w_capacity buf) 1" "n \<le> 8 * w_capacity buf"
  defines "cs \<equiv> cfb_enc_spec (fips_block (b_mem k)) (b_mem iv) (map (\<lambda>b. [b]) (w_mem buf))"
    and "bs \<equiv> bytes_bits (w_mem buf)"
  shows "(\<exists>c3. TC_DES_CFB8_encrypt c2 buf = (TC_OK, c3, buf\<lparr>w_mem := concat cs\<rparr>) \<and>
               TC_DES_CFB8_decrypt c2 (buf\<lparr>w_mem := concat cs\<rparr>) = (TC_OK, c3, buf)) \<and>
         (\<exists>c3 buf'. TC_DES_CFB1_encrypt c2 buf n = (TC_OK, c3, buf') \<and>
               bytes_bits (w_mem buf') = cfb1_enc_spec (fips_tdes (b_mem k)) (bytes_bits (b_mem iv)) (take n bs) @ drop n bs \<and>
               TC_DES_CFB1_decrypt c2 buf' n = (TC_OK, c3, buf))"
proof -
  note s = des_start [OF assms(1-4)]
  have args: "tc_block_mode_args (o_addr c2) (o_size c2) (w_data buf) (w_capacity buf) 1" using assms(6) s(2,3) by simp
  note m = des_cfb8_message [OF s(1) assms(5) args, folded cs_def]
  show ?thesis
    unfolding bs_def
    by (rule conjI [OF exI des_cfb1_message [OF s(1) assms(5,7) args]]) (rule conjI [OF m])
qed

theorem des_cfb8_cfb1_correct_witness:
  "\<exists>c2 c3 buf'. TC_DES_CFB1_encrypt c2 (ex_buf 9000 4) 13 = (TC_OK, c3, buf') \<and>
     drop 13 (bytes_bits (w_mem buf')) = drop 13 (bytes_bits (replicate 4 0)) \<and>
     TC_DES_CFB1_decrypt c2 buf' 13 = (TC_OK, c3, ex_buf 9000 4)"
proof -
  obtain c1 c2 where "TC_DES_init ex_des ex_des_ctx (ex_des_key 16) = (TC_OK, c1)" "TC_DES_set_iv c1 (ex_span 8300 8) = (TC_OK, c2)"
    using ex_des_start [of 16] by auto
  from des_cfb8_cfb1_correct [OF this, of "ex_buf 9000 4" 13] obtain c3 buf' where
    "TC_DES_CFB1_encrypt c2 (ex_buf 9000 4) 13 = (TC_OK, c3, buf')" "TC_DES_CFB1_decrypt c2 buf' 13 = (TC_OK, c3, ex_buf 9000 4)"
    "bytes_bits (w_mem buf') = cfb1_enc_spec (fips_tdes (b_mem (ex_des_key 16))) (bytes_bits (replicate 8 0)) (take 13 (bytes_bits (replicate 4 0))) @
       drop 13 (bytes_bits (replicate 4 0))" by auto
  then show ?thesis by (intro exI [of _ c2] exI [of _ c3] exI [of _ buf']) simp
qed

section \<open>Message authentication\<close>

text \<open>A sequence of update calls that stops at the first refusal.\<close>

fun des_cmac_feed :: "des_build \<Rightarrow> TC_DES_CMAC_ctx obj \<Rightarrow> TC_bytes list \<Rightarrow> TC_status \<times> TC_DES_CMAC_ctx obj" where
  "des_cmac_feed e ctx [] = (TC_OK, ctx)"
| "des_cmac_feed e ctx (d # ds) =
     (case TC_DES_CMAC_update e ctx d of (status, ctx') \<Rightarrow>
        if status \<noteq> TC_OK then (status, ctx') else des_cmac_feed e ctx' ds)"

lemma des_cmac_feed_at:
  assumes "des_cmac_at k msg (o_val ctx)"
    "list_all (\<lambda>d. tc_block_mode_args (o_addr ctx) (o_size ctx) (b_data d) (b_length d) 1) ds"
  shows "\<exists>c. des_cmac_feed e ctx ds = (TC_OK, ctx\<lparr>o_val := c\<rparr>) \<and> des_cmac_at k (msg @ concat (map b_mem ds)) c"
  using assms
proof (induction ds arbitrary: ctx msg)
  case Nil
  then show ?case by (intro exI [of _ "o_val ctx"]) simp
next
  case (Cons d ds)
  from des_cmac_update_at [OF Cons.prems(1), of d e] Cons.prems(2) obtain c
    where c: "TC_DES_CMAC_update e ctx d = (TC_OK, ctx\<lparr>o_val := c\<rparr>)" "des_cmac_at k (msg @ b_mem d) c" by auto
  from Cons.IH [of "msg @ b_mem d" "ctx\<lparr>o_val := c\<rparr>"] c Cons.prems(2) show ?case by auto
qed

text \<open>However a message is cut into updates, \<^verbatim>\<open>TC_DES_CMAC_final\<close> writes the SP 800-38B CMAC of the whole message, over
  the FIPS 46-3 block function of the key, and clears the context; a key the policy refuses leaves the context zero.\<close>

theorem des_cmac_streaming:
  assumes "o_addr ctx \<noteq> NULL" "bytes_wf k" "buffer_wf tag" "w_capacity tag = 8"
    "list_all (\<lambda>d. tc_block_mode_args (o_addr ctx) (o_size ctx) (b_data d) (b_length d) 1) ds"
    "tc_block_mode_args (o_addr ctx) (o_size ctx) (w_data tag) 8 1"
  shows "if des_mac_key_ok e k \<and> tc_internal_ranges_disjoint (o_addr ctx) (o_size ctx) (b_data k) (b_length k)
         then \<exists>c1 c2. TC_DES_CMAC_init e ctx k = (TC_OK, c1) \<and> des_cmac_feed e c1 ds = (TC_OK, c2) \<and>
           TC_DES_CMAC_final e c2 tag =
             (TC_OK, ctx\<lparr>o_val := des_cmac_zero e\<rparr>, tag\<lparr>w_mem := des_cmac (b_mem k) (concat (map b_mem ds))\<rparr>)
         else TC_DES_CMAC_init e ctx k = (TC_ERROR, ctx\<lparr>o_val := des_cmac_zero e\<rparr>)"
proof (cases "des_mac_key_ok e k \<and> tc_internal_ranges_disjoint (o_addr ctx) (o_size ctx) (b_data k) (b_length k)")
  case False
  from if_not_P [OF this] des_cmac_init_eq(1) [OF assms(1)] False show ?thesis by auto
next
  case True
  with des_cmac_init_eq(2) [OF assms(1,2)] obtain c where
    c: "TC_DES_CMAC_init e ctx k = (TC_OK, ctx\<lparr>o_val := c\<rparr>)" "des_cmac_at (b_mem k) [] c" by blast
  from des_cmac_feed_at [of "b_mem k" "[]" "ctx\<lparr>o_val := c\<rparr>" ds e] c(2) assms(5) obtain c2 where
    c2: "des_cmac_feed e (ctx\<lparr>o_val := c\<rparr>) ds = (TC_OK, ctx\<lparr>o_val := c2\<rparr>)" "des_cmac_at (b_mem k) (concat (map b_mem ds)) c2" by auto
  have "length (w_mem tag) = 8" using mode_args_length(1) [OF assms(3)] assms(4,6) by simp
  then have "TC_DES_CMAC_final e (ctx\<lparr>o_val := c2\<rparr>) tag =
      (TC_OK, ctx\<lparr>o_val := des_cmac_zero e\<rparr>, tag\<lparr>w_mem := des_cmac (b_mem k) (concat (map b_mem ds))\<rparr>)"
    using des_cmac_final_at [of "b_mem k" "concat (map b_mem ds)" "ctx\<lparr>o_val := c2\<rparr>" tag e] c2(2) assms(3,4,6) by simp
  with True c(1) c2(1) show ?thesis by auto
qed

text \<open>C13: The one-shot ISO/IEC 9797-1 functions compute the MAC of the standard, with full and with short tags. A tag of eight
  bytes, or of four to seven for the short forms, and a valid message are required: without them the call is an error that
  touches neither the tag nor the local context. With them \<^verbatim>\<open>TC_DES_ISO9797_MAC\<close> writes the leading bytes of algorithm 1 or 3
  over the padded message when the key is accepted and the padding applies, and reports an error with the tag untouched
  otherwise; the local context is zero on return. \<^verbatim>\<open>TC_DES_ISO9797_verify\<close> accepts exactly these bytes, reports a mismatch for
  any others and an error in the same cases.\<close>

theorem iso9797_oneshot_correct:
  fixes e :: des_build and algorithm padding :: nat and short :: bool
  assumes "bytes_wf k" "bytes_wf msg" "bytes_wf expected" "buffer_wf tag" "at \<noteq> NULL"
    "tc_internal_span_valid (b_data msg) (b_length msg) \<longrightarrow> iso_stack_ok ctx full_at k msg"
  defines "padded \<equiv> if iso_key_ok e algorithm k \<and> padding \<le> 2 then iso_pad padding (b_mem msg) else None"
    and "accepted \<equiv> \<lambda>at n. at \<noteq> NULL \<and> (if short then 4 \<le> n \<and> n < 8 else n = 8) \<and>
      (b_length msg = 0 \<or> b_data msg \<noteq> NULL \<and> b_length msg \<le> UINTPTR_MAX - b_data msg)"
    and "wiped \<equiv> ctx\<lparr>o_val := iso9797_zero e\<rparr>"
  shows "(if short then TC_DES_ISO9797_MAC_short_tag else TC_DES_ISO9797_MAC) e full_at ctx algorithm padding k msg tag =
      (if accepted (w_data tag) (w_capacity tag)
       then case padded of None \<Rightarrow> (TC_ERROR, wiped, tag)
            | Some p \<Rightarrow> (TC_OK, wiped, tag\<lparr>w_mem := take (w_capacity tag) (iso_mac algorithm (b_mem k) p)\<rparr>)
       else (TC_ERROR, ctx, tag)) \<and>
    (if short then TC_DES_ISO9797_verify_short_tag else TC_DES_ISO9797_verify) e at full_at ctx algorithm padding k msg expected =
      (if accepted (b_data expected) (b_length expected)
       then case padded of None \<Rightarrow> TC_ERROR
            | Some p \<Rightarrow> if b_mem expected = take (b_length expected) (iso_mac algorithm (b_mem k) p) then TC_OK else TC_MISMATCH
       else TC_ERROR)"
proof
  have acc: "tc_des_iso9797_mac_args msg a n short \<longleftrightarrow> accepted a n" for a n
    by (auto simp: tc_des_iso9797_mac_args_def accepted_def TC_DES_BLOCKLEN_def tc_internal_span_valid_def)
  let ?mac = "if short then TC_DES_ISO9797_MAC_short_tag else TC_DES_ISO9797_MAC"
  have mac: "?mac e full_at ctx algorithm padding k msg buf =
      (if accepted (w_data buf) (w_capacity buf)
       then case TC_DES_ISO9797_init e ctx algorithm padding k of (init, ctx) \<Rightarrow> tc_des_iso9797_mac_run e full_at ctx init msg buf
       else (TC_ERROR, ctx, buf))" for buf
    using acc by (cases short) (simp_all add: TC_DES_ISO9797_MAC_def TC_DES_ISO9797_MAC_short_tag_def)
  show "?mac e full_at ctx algorithm padding k msg tag =
      (if accepted (w_data tag) (w_capacity tag)
       then case padded of None \<Rightarrow> (TC_ERROR, wiped, tag)
            | Some p \<Rightarrow> (TC_OK, wiped, tag\<lparr>w_mem := take (w_capacity tag) (iso_mac algorithm (b_mem k) p)\<rparr>)
       else (TC_ERROR, ctx, tag))"
  proof (cases "accepted (w_data tag) (w_capacity tag)")
    case True
    then have v: "tc_internal_span_valid (b_data msg) (b_length msg)" "length (w_mem tag) = w_capacity tag" "w_capacity tag \<le> 8"
      using assms(4) by (auto simp: accepted_def tc_internal_span_valid_def buffer_wf_def split: if_splits)
    show ?thesis
      unfolding mac iso_run_eq [OF assms(1,2) mp [OF assms(6) v(1)] v(1), where e = e and algorithm = algorithm and padding = padding and tag = tag]
      using True v(2,3) by (simp add: padded_def wiped_def memcpy_at_def cong: option.case_cong)
  qed (simp only: mac if_False)
  show "(if short then TC_DES_ISO9797_verify_short_tag else TC_DES_ISO9797_verify) e at full_at ctx algorithm padding k msg expected =
      (if accepted (b_data expected) (b_length expected)
       then case padded of None \<Rightarrow> TC_ERROR
            | Some p \<Rightarrow> if b_mem expected = take (b_length expected) (iso_mac algorithm (b_mem k) p) then TC_OK else TC_MISMATCH
       else TC_ERROR)"
  proof (cases "accepted (b_data expected) (b_length expected)")
    case True
    then have v: "tc_internal_span_valid (b_data msg) (b_length msg)" "b_data expected \<noteq> NULL"
      by (auto simp: accepted_def tc_internal_span_valid_def)
    from iso_verify_eq [OF assms(1-3) mp [OF assms(6) v(1)] v(1) assms(5) v(2)] True show ?thesis
      by (cases short) (simp_all add: accepted_def padded_def cong: option.case_cong)
  next
    case False
    then have "\<not> tc_des_iso9797_mac_args msg at (b_length expected) short \<or> b_data expected = NULL"
      using acc assms(5) by (auto simp: accepted_def)
    with False show ?thesis
      by (cases short) (auto simp: TC_DES_ISO9797_verify_def TC_DES_ISO9797_verify_short_tag_def TC_DES_ISO9797_MAC_def
          TC_DES_ISO9797_MAC_short_tag_def tc_internal_verify_tag_def)
  qed
qed

lemma ex_iso_key:
  assumes "(algorithm, n) \<in> {(1, 16), (3, 16)}"
  shows "iso_key_ok ex_des algorithm (ex_des_key n)"
proof -
  have n: "n = 16" "\<not> db_reject_weak ex_des" using assms by auto
  have "\<not> tc_des_keys_equal (b_mem (ex_des_key 16)) (drop 8 (b_mem (ex_des_key 16)))"
  proof
    assume "tc_des_keys_equal (b_mem (ex_des_key 16)) (drop 8 (b_mem (ex_des_key 16)))"
    then have "des_strip (take 8 (b_mem (ex_des_key 16))) ! 0 = des_strip (take 8 (drop 8 (b_mem (ex_des_key 16)))) ! 0"
      by (simp add: keys_equal_iff ex_des_key_def)
    then show False by (simp add: ex_des_key_def des_strip_def)
  qed
  then show ?thesis using assms n by (auto simp: iso_key_ok_def)
qed

theorem iso9797_oneshot_correct_witness:
  "\<exists>c. TC_DES_ISO9797_MAC ex_des 5000 \<lparr>o_addr = 4096, o_size = 400, o_val = iso9797_zero ex_des\<rparr> 3 2 (ex_des_key 16) (ex_span 8300 11) (ex_buf 9000 8) =
     (TC_OK, c, (ex_buf 9000 8)\<lparr>w_mem := iso_mac 3 (b_mem (ex_des_key 16)) (replicate 11 0 @ 0x80 # replicate 4 0)\<rparr>)"
proof -
  let ?ctx = "\<lparr>o_addr = 4096, o_size = 400, o_val = iso9797_zero ex_des\<rparr>"
  have st: "iso_stack_ok ?ctx 5000 (ex_des_key 16) (ex_span 8300 11)"
    by (simp add: iso_stack_ok_def tc_block_mode_args_def tc_internal_span_valid_def tc_internal_ranges_disjoint_def UINTPTR_MAX_def)
  have "iso_pad 2 (replicate 11 0) = Some (replicate 11 0 @ 0x80 # replicate 4 0)"
    by (simp add: iso_pad_def)
  with iso9797_oneshot_correct [where k = "ex_des_key 16" and msg = "ex_span 8300 11" and expected = "ex_span 9100 8" and tag = "ex_buf 9000 8" and at = 5100
      and ctx = ?ctx and full_at = 5000 and e = ex_des and algorithm = 3 and padding = 2 and short = False]
    st ex_iso_key [of 3 16]
  show ?thesis by (auto simp: UINTPTR_MAX_def)
qed

end
