(* ===== verification/Hash_Core.thy ===== *)
theory Hash_Core
  imports TC_Common
begin

text \<open>
  The Merkle-Damgard core of the hash functions and HMAC: \<^verbatim>\<open>src/src/hash_stream_internal.h\<close>, \<^verbatim>\<open>src/src/hash_core.c\<close> and the
  descriptor of \<^verbatim>\<open>src/src/hash_core_internal.h\<close>. The locale \<open>hash_algorithm\<close> states what the core relies on from a
  descriptor; its lemmas show that the core computes the hash of the padded message for any division of it, and HMAC
  of FIPS 198-1.
\<close>

section \<open>Descriptor and contexts\<close>

text \<open>
  The chaining state is an array of 32-bit or of 64-bit words. The core treats it as opaque, and the functions of one
  algorithm only meet states of their own width.
\<close>

datatype hash_state = Words32 "u32 list" | Words64 "u64 list"

fun on_words32 :: "(u32 list \<Rightarrow> u32 list) \<Rightarrow> hash_state \<Rightarrow> hash_state" where
  "on_words32 f (Words32 ws) = Words32 (f ws)"
| "on_words32 f (Words64 ws) = Words64 ws"

fun on_words64 :: "(u64 list \<Rightarrow> u64 list) \<Rightarrow> hash_state \<Rightarrow> hash_state" where
  "on_words64 f (Words64 ws) = Words64 (f ws)"
| "on_words64 f (Words32 ws) = Words32 ws"

datatype tc_hash_length_encoding = TC_HASH_LENGTH_BIG_ENDIAN | TC_HASH_LENGTH_LITTLE_ENDIAN

text \<open>\<open>hi_zero_state\<close> is the wiped state array of the context type that the member \<^verbatim>\<open>view\<close> of the descriptor casts to.\<close>

record tc_hash_algorithm_info =
  hi_block_bytes :: nat
  hi_length_bytes :: nat
  hi_digest_bytes :: nat
  hi_length_encoding :: tc_hash_length_encoding
  hi_max_message_bytes :: nat
  hi_state_init :: "hash_state \<Rightarrow> hash_state"
  hi_compress :: "hash_state \<Rightarrow> u8 list \<Rightarrow> hash_state"
  hi_digest_out :: "hash_state \<Rightarrow> u8 list"
  hi_zero_state :: hash_state

text \<open>The members of every public hash context, and of every HMAC context.\<close>

record hash_ctx =
  hc_count :: nat
  hc_state :: hash_state
  hc_buf_len :: nat
  hc_active :: u8
  hc_buf :: "u8 list"

record hmac_ctx =
  hm_inner :: hash_ctx
  hm_outer_state :: hash_state

definition hash_ctx_zero :: "tc_hash_algorithm_info \<Rightarrow> hash_ctx" where
  "hash_ctx_zero info =
     \<lparr>hc_count = 0, hc_state = hi_zero_state info, hc_buf_len = 0, hc_active = 0, hc_buf = replicate (hi_block_bytes info) 0\<rparr>"

definition hmac_ctx_zero :: "tc_hash_algorithm_info \<Rightarrow> hmac_ctx" where
  "hmac_ctx_zero info = \<lparr>hm_inner = hash_ctx_zero info, hm_outer_state = hi_zero_state info\<rparr>"

section \<open>Buffering and padding (hash\_stream\_internal.h)\<close>

text \<open>
  The loop over complete blocks; the results are the state and the bytes left. A compression reads one block from the
  pointer it gets. Every descriptor has a positive block size.
\<close>

function hash_absorb_blocks :: "(hash_state \<Rightarrow> u8 list \<Rightarrow> hash_state) \<Rightarrow> nat \<Rightarrow> hash_state \<Rightarrow> u8 list \<Rightarrow> hash_state \<times> u8 list" where
  "hash_absorb_blocks compress block_bytes state data =
     (if block_bytes = 0 \<or> length data < block_bytes then (state, data)
      else hash_absorb_blocks compress block_bytes (compress state (take block_bytes data)) (drop block_bytes data))"
  by pat_completeness auto
termination
  by (relation "measure (\<lambda>(compress, block_bytes, state, data). length data)") auto

declare hash_absorb_blocks.simps [simp del]

definition tc_hash_stream_absorb ::
  "hash_state \<Rightarrow> nat \<Rightarrow> u8 list \<Rightarrow> u8 list \<Rightarrow> nat \<Rightarrow> (hash_state \<Rightarrow> u8 list \<Rightarrow> hash_state) \<Rightarrow> hash_state \<times> nat \<times> u8 list" where
  "tc_hash_stream_absorb state fill buffer data block_bytes compress =
     (case (if fill \<noteq> 0 \<and> length data \<noteq> 0
            then let available = block_bytes - fill;
                     n = (if length data < available then length data else available);
                     buffer = memcpy_at buffer fill (take n data);
                     fill = (fill + n) mod 256
                 in if fill = block_bytes then (compress state buffer, 0, buffer, drop n data)
                    else (state, fill, buffer, drop n data)
            else (state, fill, buffer, data))
      of (state, fill, buffer, data) \<Rightarrow>
        case hash_absorb_blocks compress block_bytes state data of (state, data) \<Rightarrow>
          if length data \<noteq> 0 then (state, length data mod 256, memcpy_at buffer 0 data)
          else (state, fill, buffer))"

definition hash_length_octet :: "nat \<Rightarrow> nat \<Rightarrow> u8" where
  "hash_length_octet count i =
     (let low_bits = push_bit 3 (of_nat count :: u64); high_bits = drop_bit 61 (of_nat count :: u64)
      in if i < 8 then ucast (drop_bit (8 * i) low_bits) else ucast (drop_bit (8 * (i - 8)) high_bits))"

definition tc_hash_stream_finish ::
  "hash_state \<Rightarrow> nat \<Rightarrow> nat \<Rightarrow> u8 list \<Rightarrow> nat \<Rightarrow> nat \<Rightarrow> tc_hash_length_encoding \<Rightarrow> (hash_state \<Rightarrow> u8 list \<Rightarrow> hash_state) \<Rightarrow>
   hash_state \<times> nat \<times> u8 list" where
  "tc_hash_stream_finish state count fill buffer block_bytes length_bytes encoding compress =
     (let length_offset = block_bytes - length_bytes;
          buffer = buffer[fill := 0x80];
          fill = (fill + 1) mod 256
      in case (if fill > length_offset
               then let buffer = memcpy_at buffer fill (replicate (block_bytes - fill) 0)
                    in (compress state buffer, 0, buffer)
               else (state, fill, buffer))
         of (state, fill, buffer) \<Rightarrow>
           let buffer = memcpy_at buffer fill (replicate (length_offset - fill) 0);
               buffer = fold (\<lambda>i b. b[length_offset + (if encoding = TC_HASH_LENGTH_LITTLE_ENDIAN then i else length_bytes - 1 - i)
                                        := hash_length_octet count i]) [0..<length_bytes] buffer
           in (compress state buffer, fill, buffer))"

section \<open>Hash operations (hash\_core.c)\<close>

definition tc_hash_update_args :: "addr \<Rightarrow> nat \<Rightarrow> addr \<Rightarrow> nat \<Rightarrow> bool" where
  "tc_hash_update_args ctx ctx_len data data_len \<longleftrightarrow>
     ctx \<noteq> NULL \<and> tc_internal_span_valid data data_len \<and> tc_internal_ranges_disjoint ctx ctx_len data data_len"

definition tc_hash_final_args :: "addr \<Rightarrow> nat \<Rightarrow> addr \<Rightarrow> nat \<Rightarrow> bool" where
  "tc_hash_final_args ctx ctx_len digest digest_len \<longleftrightarrow>
     ctx \<noteq> NULL \<and> digest \<noteq> NULL \<and> tc_internal_span_valid digest digest_len \<and>
     tc_internal_ranges_disjoint ctx ctx_len digest digest_len"

definition view_is_live :: "tc_hash_algorithm_info \<Rightarrow> hash_ctx \<Rightarrow> bool" where
  "view_is_live info c \<longleftrightarrow> hc_active c = 1 \<and> hc_buf_len c < hi_block_bytes info"

definition view_start :: "tc_hash_algorithm_info \<Rightarrow> hash_ctx" where
  "view_start info =
     (let c = hash_ctx_zero info in c\<lparr>hc_state := hi_state_init info (hc_state c), hc_active := 1\<rparr>)"

definition view_absorb :: "tc_hash_algorithm_info \<Rightarrow> hash_ctx \<Rightarrow> TC_bytes \<Rightarrow> TC_status \<times> hash_ctx" where
  "view_absorb info c data =
     (if b_length data = 0 then (TC_OK, c)
      else if hc_count c > hi_max_message_bytes info \<or> b_length data > hi_max_message_bytes info - hc_count c
      then (TC_ERROR, c)
      else case tc_hash_stream_absorb (hc_state c) (hc_buf_len c) (hc_buf c) (b_mem data) (hi_block_bytes info) (hi_compress info)
           of (state, fill, buffer) \<Rightarrow>
             (TC_OK, c\<lparr>hc_count := (hc_count c + b_length data) mod 2 ^ 64, hc_state := state, hc_buf_len := fill, hc_buf := buffer\<rparr>))"

definition view_finish :: "tc_hash_algorithm_info \<Rightarrow> hash_ctx \<Rightarrow> hash_ctx \<times> u8 list" where
  "view_finish info c =
     (case tc_hash_stream_finish (hc_state c) (hc_count c) (hc_buf_len c) (hc_buf c) (hi_block_bytes info)
             (hi_length_bytes info) (hi_length_encoding info) (hi_compress info)
      of (state, fill, buffer) \<Rightarrow>
        (c\<lparr>hc_state := state, hc_buf_len := fill, hc_buf := buffer\<rparr>, hi_digest_out info state))"

definition tc_hash_core_init :: "tc_hash_algorithm_info \<Rightarrow> hash_ctx obj \<Rightarrow> TC_status \<times> hash_ctx obj" where
  "tc_hash_core_init info ctx =
     (if o_addr ctx = NULL then (TC_ERROR, ctx) else (TC_OK, ctx\<lparr>o_val := view_start info\<rparr>))"

definition tc_hash_core_update :: "tc_hash_algorithm_info \<Rightarrow> hash_ctx obj \<Rightarrow> TC_bytes \<Rightarrow> TC_status \<times> hash_ctx obj" where
  "tc_hash_core_update info ctx data =
     (if o_addr ctx = NULL then (TC_ERROR, ctx)
      else if \<not> tc_hash_update_args (o_addr ctx) (o_size ctx) (b_data data) (b_length data) \<or> \<not> view_is_live info (o_val ctx)
      then (TC_ERROR, ctx)
      else case view_absorb info (o_val ctx) data of (status, c) \<Rightarrow> (status, ctx\<lparr>o_val := c\<rparr>))"

fun hash_update_loop :: "tc_hash_algorithm_info \<Rightarrow> hash_ctx obj \<Rightarrow> TC_bytes list \<Rightarrow> TC_status \<times> hash_ctx obj" where
  "hash_update_loop info ctx [] = (TC_OK, ctx)"
| "hash_update_loop info ctx (p # ps) =
     (case tc_hash_core_update info ctx p of (status, ctx) \<Rightarrow>
        if status = TC_OK then hash_update_loop info ctx ps else (status, ctx))"

definition tc_hash_core_update_parts ::
  "tc_hash_algorithm_info \<Rightarrow> hash_ctx obj \<Rightarrow> addr \<Rightarrow> TC_bytes list \<Rightarrow> nat \<Rightarrow> TC_status \<times> hash_ctx obj" where
  "tc_hash_core_update_parts info ctx parts_at parts count =
     (if o_addr ctx = NULL \<or> \<not> tc_internal_parts_valid parts_at parts count NULL 0 then (TC_ERROR, ctx)
      else hash_update_loop info ctx (take count parts))"

text \<open>A digest array is a buffer; the bytes of the digest are written at its start.\<close>

definition tc_hash_core_final ::
  "tc_hash_algorithm_info \<Rightarrow> hash_ctx obj \<Rightarrow> TC_buffer \<Rightarrow> TC_status \<times> hash_ctx obj \<times> TC_buffer" where
  "tc_hash_core_final info ctx digest =
     (if o_addr ctx = NULL then (TC_ERROR, ctx, digest)
      else if \<not> tc_hash_final_args (o_addr ctx) (o_size ctx) (w_data digest) (hi_digest_bytes info) \<or> \<not> view_is_live info (o_val ctx)
      then (TC_ERROR, ctx, digest)
      else case view_finish info (o_val ctx) of (c, d) \<Rightarrow>
             (TC_OK, ctx\<lparr>o_val := hash_ctx_zero info\<rparr>, digest\<lparr>w_mem := memcpy_at (w_mem digest) 0 d\<rparr>))"

definition tc_hash_core_clear :: "tc_hash_algorithm_info \<Rightarrow> hash_ctx obj \<Rightarrow> hash_ctx obj" where
  "tc_hash_core_clear info ctx = (if o_addr ctx = NULL then ctx else ctx\<lparr>o_val := hash_ctx_zero info\<rparr>)"

definition tc_hash_core_digest ::
  "tc_hash_algorithm_info \<Rightarrow> hash_ctx obj \<Rightarrow> TC_bytes \<Rightarrow> TC_buffer \<Rightarrow> TC_status \<times> hash_ctx obj \<times> TC_buffer" where
  "tc_hash_core_digest info workspace data digest =
     (if w_data digest = NULL \<or> (b_length data \<noteq> 0 \<and> b_data data = NULL) then (TC_ERROR, workspace, digest)
      else case view_absorb info (view_start info) data of (status, c) \<Rightarrow>
        let digest = (if status = TC_OK then digest\<lparr>w_mem := memcpy_at (w_mem digest) 0 (snd (view_finish info c))\<rparr> else digest)
        in (status, workspace\<lparr>o_val := hash_ctx_zero info\<rparr>, digest))"

section \<open>HMAC (hash\_core.c)\<close>

definition hmac_key_block :: "tc_hash_algorithm_info \<Rightarrow> hash_ctx \<Rightarrow> TC_bytes \<Rightarrow> TC_status \<times> hash_ctx \<times> u8 list" where
  "hmac_key_block info inner k =
     (let block = replicate (hi_block_bytes info) 0
      in if b_length k > hi_block_bytes info
         then case view_absorb info (view_start info) k of (status, inner) \<Rightarrow>
                if status \<noteq> TC_OK then (TC_ERROR, inner, block)
                else case view_finish info inner of (inner, d) \<Rightarrow> (TC_OK, inner, memcpy_at block 0 d)
         else if b_length k \<noteq> 0 then (TC_OK, inner, memcpy_at block 0 (b_mem k))
         else (TC_OK, inner, block))"

definition tc_hmac_core_init :: "tc_hash_algorithm_info \<Rightarrow> hmac_ctx obj \<Rightarrow> TC_bytes \<Rightarrow> TC_status \<times> hmac_ctx obj" where
  "tc_hmac_core_init info ctx k =
     (if o_addr ctx = NULL then (TC_ERROR, ctx)
      else let key_valid = (b_length k = 0 \<or>
                 (b_data k \<noteq> NULL \<and> tc_internal_ranges_disjoint (o_addr ctx) (o_size ctx) (b_data k) (b_length k)));
               h = hmac_ctx_zero info
           in if \<not> key_valid then (TC_ERROR, ctx\<lparr>o_val := h\<rparr>)
              else case hmac_key_block info (hm_inner h) k of (status, inner, block) \<Rightarrow>
                if status = TC_OK
                then let block = fold (\<lambda>i b. b[i := b ! i XOR 0x36]) [0..<hi_block_bytes info] block;
                         inner = view_start info;
                         inner = inner\<lparr>hc_state := hi_compress info (hc_state inner) block, hc_count := hi_block_bytes info\<rparr>;
                         block = fold (\<lambda>i b. b[i := b ! i XOR (0x36 XOR 0x5C)]) [0..<hi_block_bytes info] block;
                         outer_state = hi_compress info (hi_state_init info (hm_outer_state h)) block
                     in (TC_OK, ctx\<lparr>o_val := h\<lparr>hm_inner := inner, hm_outer_state := outer_state\<rparr>\<rparr>)
                else (status, ctx\<lparr>o_val := hmac_ctx_zero info\<rparr>))"

definition tc_hmac_core_update :: "tc_hash_algorithm_info \<Rightarrow> hmac_ctx obj \<Rightarrow> TC_bytes \<Rightarrow> TC_status \<times> hmac_ctx obj" where
  "tc_hmac_core_update info ctx data =
     (if o_addr ctx = NULL then (TC_ERROR, ctx)
      else if \<not> tc_hash_update_args (o_addr ctx) (o_size ctx) (b_data data) (b_length data) \<or>
              \<not> view_is_live info (hm_inner (o_val ctx))
      then (TC_ERROR, ctx)
      else case view_absorb info (hm_inner (o_val ctx)) data of (status, c) \<Rightarrow>
             (status, ctx\<lparr>o_val := (o_val ctx)\<lparr>hm_inner := c\<rparr>\<rparr>))"

definition tc_hmac_core_final ::
  "tc_hash_algorithm_info \<Rightarrow> hmac_ctx obj \<Rightarrow> TC_buffer \<Rightarrow> TC_status \<times> hmac_ctx obj \<times> TC_buffer" where
  "tc_hmac_core_final info ctx tag =
     (if o_addr ctx = NULL then (TC_ERROR, ctx, tag)
      else if \<not> tc_hash_final_args (o_addr ctx) (o_size ctx) (w_data tag) (hi_digest_bytes info) \<or>
              \<not> view_is_live info (hm_inner (o_val ctx))
      then (TC_ERROR, ctx, tag)
      else case view_finish info (hm_inner (o_val ctx)) of (inner, inner_digest) \<Rightarrow>
        let block = memcpy_at (replicate (hi_block_bytes info) 0) 0 inner_digest
        in case tc_hash_stream_finish (hm_outer_state (o_val ctx)) (hi_block_bytes info + hi_digest_bytes info) (hi_digest_bytes info)
                  block (hi_block_bytes info) (hi_length_bytes info) (hi_length_encoding info) (hi_compress info)
           of (outer_state, fill, block) \<Rightarrow>
             (TC_OK, ctx\<lparr>o_val := hmac_ctx_zero info\<rparr>,
              tag\<lparr>w_mem := memcpy_at (w_mem tag) 0 (hi_digest_out info outer_state)\<rparr>))"

definition tc_hmac_core_clear :: "tc_hash_algorithm_info \<Rightarrow> hmac_ctx obj \<Rightarrow> hmac_ctx obj" where
  "tc_hmac_core_clear info ctx = (if o_addr ctx = NULL then ctx else ctx\<lparr>o_val := hmac_ctx_zero info\<rparr>)"

fun hmac_update_loop :: "tc_hash_algorithm_info \<Rightarrow> hmac_ctx obj \<Rightarrow> TC_bytes list \<Rightarrow> TC_status \<times> hmac_ctx obj" where
  "hmac_update_loop info ctx [] = (TC_OK, ctx)"
| "hmac_update_loop info ctx (p # ps) =
     (case tc_hmac_core_update info ctx p of (status, ctx) \<Rightarrow>
        if status = TC_OK then hmac_update_loop info ctx ps else (status, ctx))"

text \<open>\<open>full_at\<close> is the address of the local array \<^verbatim>\<open>full\<close>, whose size is \<^verbatim>\<open>TC_HASH_CORE_MAX_DIGEST\<close>.\<close>

definition hmac_finish_full ::
  "tc_hash_algorithm_info \<Rightarrow> hmac_ctx obj \<Rightarrow> addr \<Rightarrow> TC_status \<times> hmac_ctx obj \<times> u8 list" where
  "hmac_finish_full info ctx full_at =
     (case tc_hmac_core_final info ctx \<lparr>w_data = full_at, w_capacity = 64, w_mem = replicate 64 0\<rparr>
      of (status, ctx, full) \<Rightarrow> (status, ctx, w_mem full))"

definition tc_hmac_core_parts ::
  "tc_hash_algorithm_info \<Rightarrow> hmac_ctx obj \<Rightarrow> addr \<Rightarrow> TC_bytes \<Rightarrow> TC_bytes list \<Rightarrow> TC_buffer \<Rightarrow> TC_status \<times> hmac_ctx obj \<times> TC_buffer" where
  "tc_hmac_core_parts info ctx full_at k parts tag =
     (case tc_hmac_core_init info ctx k of (status, ctx) \<Rightarrow>
      case (if status = TC_OK then hmac_update_loop info ctx parts else (status, ctx)) of (status, ctx) \<Rightarrow>
      case (if status = TC_OK then hmac_finish_full info ctx full_at else (status, ctx, [])) of (status, ctx, full) \<Rightarrow>
        (status, tc_hmac_core_clear info ctx,
         if status = TC_OK then tag\<lparr>w_mem := memcpy_at (w_mem tag) 0 (take (hi_digest_bytes info) full)\<rparr> else tag))"

text \<open>\<open>keyed\<close> is \<open>None\<close> for a null pointer.\<close>

definition tc_hmac_core_resume_parts ::
  "tc_hash_algorithm_info \<Rightarrow> hmac_ctx option \<Rightarrow> hmac_ctx obj \<Rightarrow> addr \<Rightarrow> TC_bytes list \<Rightarrow> TC_buffer \<Rightarrow>
   TC_status \<times> hmac_ctx obj \<times> TC_buffer" where
  "tc_hmac_core_resume_parts info keyed ctx full_at parts tag =
     (case keyed of
        None \<Rightarrow> (TC_ERROR, ctx, tag)
      | Some h \<Rightarrow>
          if o_addr ctx = NULL then (TC_ERROR, ctx, tag)
          else case hmac_update_loop info (ctx\<lparr>o_val := h\<rparr>) parts of (status, ctx) \<Rightarrow>
               case (if status = TC_OK then hmac_finish_full info ctx full_at else (status, ctx, [])) of (status, ctx, full) \<Rightarrow>
                 (status, tc_hmac_core_clear info ctx,
                  if status = TC_OK then tag\<lparr>w_mem := memcpy_at (w_mem tag) 0 (take (hi_digest_bytes info) full)\<rparr> else tag))"

text \<open>The build options of the tag length policy.\<close>

record hmac_build =
  hb_hmac_min_tag_len :: nat
  hb_min_tag_len :: nat

definition TC_HASH_MAC_MIN_TAG_LEN :: nat where "TC_HASH_MAC_MIN_TAG_LEN = 4"

definition TC_HMAC_MIN_TAG_LEN_FLOOR :: "hmac_build \<Rightarrow> nat" where
  "TC_HMAC_MIN_TAG_LEN_FLOOR bo = (if hb_hmac_min_tag_len bo > hb_min_tag_len bo then hb_hmac_min_tag_len bo else hb_min_tag_len bo)"

definition TC_HMAC_MIN_TAG_LEN_FOR :: "hmac_build \<Rightarrow> nat \<Rightarrow> nat" where
  "TC_HMAC_MIN_TAG_LEN_FOR bo digest_length =
     (if TC_HMAC_MIN_TAG_LEN_FLOOR bo > digest_length div 2 then TC_HMAC_MIN_TAG_LEN_FLOOR bo else digest_length div 2)"

definition tc_hmac_core_digest ::
  "hmac_build \<Rightarrow> tc_hash_algorithm_info \<Rightarrow> hmac_ctx obj \<Rightarrow> addr \<Rightarrow> TC_bytes \<Rightarrow> TC_bytes \<Rightarrow> TC_buffer \<Rightarrow> bool \<Rightarrow>
   TC_status \<times> hmac_ctx obj \<times> TC_buffer" where
  "tc_hmac_core_digest bo info workspace full_at k message tag short_tag =
     (let minimum = TC_HMAC_MIN_TAG_LEN_FOR bo (hi_digest_bytes info)
      in if w_data tag = NULL \<or> w_capacity tag > hi_digest_bytes info \<or>
            (if short_tag then w_capacity tag < TC_HASH_MAC_MIN_TAG_LEN \<or> w_capacity tag \<ge> minimum
             else w_capacity tag < minimum) \<or>
            (b_length message \<noteq> 0 \<and> b_data message = NULL)
         then (TC_ERROR, workspace, tag)
         else case tc_hmac_core_init info workspace k of (status, ctx) \<Rightarrow>
              case (if status = TC_OK then tc_hmac_core_update info ctx message else (status, ctx)) of (status, ctx) \<Rightarrow>
              case (if status = TC_OK then hmac_finish_full info ctx full_at else (status, ctx, [])) of (status, ctx, full) \<Rightarrow>
                (status, tc_hmac_core_clear info ctx,
                 if status = TC_OK then tag\<lparr>w_mem := memcpy_at (w_mem tag) 0 (take (w_capacity tag) full)\<rparr> else tag))"

text \<open>\<open>at\<close> is the address of the local array \<^verbatim>\<open>computed\<close>.\<close>

definition tc_hmac_core_verify ::
  "hmac_build \<Rightarrow> tc_hash_algorithm_info \<Rightarrow> hmac_ctx obj \<Rightarrow> addr \<Rightarrow> addr \<Rightarrow> TC_bytes \<Rightarrow> TC_bytes \<Rightarrow> TC_bytes \<Rightarrow> bool \<Rightarrow> TC_status \<times> hmac_ctx obj" where
  "tc_hmac_core_verify bo info workspace full_at at k message tag short_tag =
     (if b_data tag = NULL then (TC_ERROR, workspace)
      else case tc_hmac_core_digest bo info workspace full_at k message
                  \<lparr>w_data = at, w_capacity = b_length tag, w_mem = replicate (b_length tag) 0\<rparr> short_tag
           of (status, workspace, computed) \<Rightarrow>
             (fst (tc_internal_verify_tag status at (w_mem computed) (b_length tag) tag), workspace))"

section \<open>The hash of a padded message\<close>

text \<open>
  The padding of FIPS 180-4 section 5.1 and RFC 1321 section 3: a bit 1, zeros and the length in bits, of which a field of
  \<open>l\<close> bytes keeps the low part.
\<close>

definition md_length :: "tc_hash_length_encoding \<Rightarrow> nat \<Rightarrow> nat \<Rightarrow> u8 list" where
  "md_length enc l n = (if enc = TC_HASH_LENGTH_LITTLE_ENDIAN then rev (be_bytes l (8 * n)) else be_bytes l (8 * n))"

definition md_zeros :: "nat \<Rightarrow> nat \<Rightarrow> nat \<Rightarrow> nat" where
  "md_zeros b l n = (b - (n + 1 + l) mod b) mod b"

definition md_pad :: "tc_hash_length_encoding \<Rightarrow> nat \<Rightarrow> nat \<Rightarrow> u8 list \<Rightarrow> u8 list" where
  "md_pad enc b l m = m @ 0x80 # replicate (md_zeros b l (length m)) 0 @ md_length enc l (length m)"

definition hash_fold :: "('s \<Rightarrow> u8 list \<Rightarrow> 's) \<Rightarrow> nat \<Rightarrow> 's \<Rightarrow> u8 list \<Rightarrow> 's" where
  "hash_fold compress b s m = fold (\<lambda>block s. compress s block) (chunks b m) s"

definition md_init :: "tc_hash_algorithm_info \<Rightarrow> hash_state" where
  "md_init info = hi_state_init info (hi_zero_state info)"

definition md_hash :: "tc_hash_algorithm_info \<Rightarrow> u8 list \<Rightarrow> u8 list" where
  "md_hash info m =
     hi_digest_out info (hash_fold (hi_compress info) (hi_block_bytes info) (md_init info)
       (md_pad (hi_length_encoding info) (hi_block_bytes info) (hi_length_bytes info) m))"

text \<open>HMAC of FIPS 198-1 over a hash function with blocks of \<open>b\<close> bytes.\<close>

definition hmac_k0 :: "(u8 list \<Rightarrow> u8 list) \<Rightarrow> nat \<Rightarrow> u8 list \<Rightarrow> u8 list" where
  "hmac_k0 h b k = (let k' = (if length k > b then h k else k) in k' @ replicate (b - length k') 0)"

definition hmac_spec :: "(u8 list \<Rightarrow> u8 list) \<Rightarrow> nat \<Rightarrow> u8 list \<Rightarrow> u8 list \<Rightarrow> u8 list" where
  "hmac_spec h b k m =
     h (xorl (hmac_k0 h b k) (replicate b 0x5C) @ h (xorl (hmac_k0 h b k) (replicate b 0x36) @ m))"

section \<open>Absorbing and finishing\<close>

lemma hash_fold_append:
  "0 < b \<Longrightarrow> b dvd length xs \<Longrightarrow> hash_fold f b s (xs @ ys) = hash_fold f b (hash_fold f b s xs) ys"
  by (simp add: hash_fold_def chunks_append)

lemma hash_fold_block: "0 < b \<Longrightarrow> length xs = b \<Longrightarrow> hash_fold f b s xs = f s xs"
  using chunks_append_block [of b xs "[]"] by (simp add: hash_fold_def)

lemma hash_fold_Nil [simp]: "hash_fold f b s [] = s"
  by (simp add: hash_fold_def)

text \<open>The state of a message under way: complete blocks are compressed, the rest is in the buffer.\<close>

definition stream_at :: "('s \<Rightarrow> u8 list \<Rightarrow> 's) \<Rightarrow> nat \<Rightarrow> 's \<Rightarrow> u8 list \<Rightarrow> 's \<Rightarrow> nat \<Rightarrow> u8 list \<Rightarrow> bool" where
  "stream_at f b s m st fill buf \<longleftrightarrow>
     (\<exists>p t. m = p @ t \<and> b dvd length p \<and> length t < b \<and> st = hash_fold f b s p \<and> fill = length t \<and>
        length buf = b \<and> take fill buf = t)"

lemma absorb_blocks_eq:
  assumes "0 < b"
  shows "\<exists>p t. data = p @ t \<and> b dvd length p \<and> length t < b \<and> hash_absorb_blocks f b s data = (hash_fold f b s p, t)"
  using assms
proof (induction f b s data rule: hash_absorb_blocks.induct)
  case (1 f b s data)
  show ?case
  proof (cases "length data < b")
    case True
    then show ?thesis by (intro exI [of _ "[]"] exI [of _ data]) (simp add: hash_absorb_blocks.simps)
  next
    case False
    then obtain p t where pt: "drop b data = p @ t" "b dvd length p" "length t < b"
      "hash_absorb_blocks f b (f s (take b data)) (drop b data) = (hash_fold f b (f s (take b data)) p, t)"
      using "1.IH" "1.prems" by auto
    have "hash_fold f b s (take b data @ p) = hash_fold f b (f s (take b data)) p"
      using False "1.prems" by (simp add: hash_fold_append hash_fold_block)
    moreover have "data = (take b data @ p) @ t" using pt(1) by (metis append.assoc append_take_drop_id)
    ultimately show ?thesis
      using pt(2-4) False "1.prems" by (intro exI [of _ "take b data @ p"] exI [of _ t])
        (simp add: hash_absorb_blocks.simps [of f b s data])
  qed
qed

lemma absorb_aligned:
  assumes "0 < b" "b < 256" "b dvd length p" "st = hash_fold f b s p" "length buf = b"
  shows "case tc_hash_stream_absorb st 0 buf data b f of (st', fill', buf') \<Rightarrow> stream_at f b s (p @ data) st' fill' buf'"
proof -
  obtain q t where q: "data = q @ t" "b dvd length q" "length t < b" "hash_absorb_blocks f b st data = (hash_fold f b st q, t)"
    using absorb_blocks_eq [OF assms(1)] by blast
  have "stream_at f b s (p @ data) (hash_fold f b st q) (length t) (memcpy_at buf 0 t)"
    unfolding stream_at_def using q(1-3) assms
    by (intro exI [of _ "p @ q"] exI [of _ t]) (simp add: hash_fold_append memcpy_at_def)
  moreover have "memcpy_at buf 0 [] = buf" by (simp add: memcpy_at_def)
  ultimately show ?thesis
    using q(3,4) assms(2) by (auto simp: tc_hash_stream_absorb_def)
qed

lemma stream_absorb_at:
  assumes "0 < b" "b < 256" "stream_at f b s m st fill buf"
  shows "case tc_hash_stream_absorb st fill buf data b f of (st', fill', buf') \<Rightarrow> stream_at f b s (m @ data) st' fill' buf'"
proof -
  obtain p t where m: "m = p @ t" "b dvd length p" "length t < b" "st = hash_fold f b s p" "fill = length t" "length buf = b" "take fill buf = t"
    using assms(3) unfolding stream_at_def by blast
  let ?n = "if length data < b - fill then length data else b - fill"
  let ?buf = "memcpy_at buf fill (take ?n data)"
  have buf: "length ?buf = b" "take (fill + ?n) ?buf = t @ take ?n data" using m by (simp_all add: memcpy_at_def)
  consider "fill = 0" | "data = []" | "fill \<noteq> 0" "data \<noteq> []" "length data < b - fill" | "fill \<noteq> 0" "data \<noteq> []" "b - fill \<le> length data"
    by linarith
  then show ?thesis
  proof cases
    case 1
    then show ?thesis using absorb_aligned [OF assms(1,2) m(2,4,6), of data] m(1,5) by simp
  next
    case 2
    then show ?thesis using assms by (simp add: tc_hash_stream_absorb_def hash_absorb_blocks.simps)
  next
    case 3
    then have "tc_hash_stream_absorb st fill buf data b f = (st, fill + length data, ?buf)"
      using m(3,5) assms(2) by (simp add: tc_hash_stream_absorb_def Let_def hash_absorb_blocks.simps)
    moreover have "stream_at f b s (m @ data) st (fill + length data) ?buf"
      unfolding stream_at_def using m(1-5) 3 buf by (intro exI [of _ p] exI [of _ "t @ data"]) simp
    ultimately show ?thesis by simp
  next
    case 4
    let ?d = "take (b - fill) data" and ?r = "drop (b - fill) data"
    have l: "length t + length ?d = b" using 4 m(3,5) by simp
    have eq: "tc_hash_stream_absorb st fill buf data b f = tc_hash_stream_absorb (f st ?buf) 0 ?buf ?r b f"
      using 4 m(3,5) assms(2) by (simp add: tc_hash_stream_absorb_def Let_def)
    have full: "?buf = t @ ?d" using buf 4 l m(5) by simp
    have st: "f st ?buf = hash_fold f b s (p @ t @ ?d)"
      using l assms(1) m(2,4) by (simp add: full hash_fold_append hash_fold_block del: append_take_drop_id)
    have "b dvd length (p @ t @ ?d)" using m(2) l by simp
    from absorb_aligned [OF assms(1,2) this st buf(1), of ?r] show ?thesis by (simp add: eq m(1))
  qed
qed

text \<open>The length field.\<close>

lemma hash_length_octet_eq:
  assumes "n < 2 ^ 64" "i < 16"
  shows "hash_length_octet n i = of_nat (8 * n div 256 ^ i)"
proof -
  have p: "(256 :: nat) ^ j = 2 ^ (8 * j)" for j by (simp add: power_mult)
  have cast: "unat (ucast (drop_bit k w) :: u8) = unat w div 2 ^ k mod 2 ^ 8" for k and w :: u64
  proof -
    have "unat (ucast (drop_bit k w) :: u8) = take_bit 8 (drop_bit k (unat w))"
      by (simp add: unsigned_ucast_eq unat_drop_bit_eq)
    then show ?thesis by (simp only: take_bit_eq_mod drop_bit_eq_div)
  qed
  have byte: "unat (of_nat x :: u8) = x mod 2 ^ 8" for x by (simp add: unsigned_of_nat take_bit_eq_mod)
  have u: "unat (of_nat n :: u64) = n" using assms(1) by (simp add: unsigned_of_nat take_bit_nat_eq_self)
  show ?thesis
  proof (cases "i < 8")
    case True
    have "take_bit 8 (drop_bit (8 * i) (take_bit 64 (8 * n))) = take_bit 8 (drop_bit (8 * i) (8 * n))"
      using True by (intro bit_eqI) (auto simp: bit_simps)
    then have "(8 * n) mod 2 ^ 64 div 2 ^ (8 * i) mod 2 ^ 8 = 8 * n div 2 ^ (8 * i) mod 2 ^ 8"
      by (simp only: take_bit_eq_mod drop_bit_eq_div)
    moreover have "unat (push_bit 3 (of_nat n :: u64)) = (8 * n) mod 2 ^ 64"
      by (simp add: push_bit_eq_mult unat_word_ariths u mult.commute flip: take_bit_eq_mod)
    ultimately show ?thesis
      using True by (intro word_unat_eq_iff [THEN iffD2]) (simp only: hash_length_octet_def Let_def if_True p cast byte)
  next
    case False
    have "n div 2 ^ 61 div 2 ^ (8 * (i - 8)) = 8 * n div 2 ^ (8 * i)"
    proof -
      have "8 * n div 2 ^ (8 * i) = 8 * n div (8 * (2 ^ 61 * 2 ^ (8 * (i - 8))))"
      proof -
        have "(2 :: nat) ^ (8 * i) = 2 ^ (3 + (61 + 8 * (i - 8)))" using False by (intro arg_cong [where f = "(^) 2"]) simp
        also have "\<dots> = 8 * (2 ^ 61 * 2 ^ (8 * (i - 8)))" by (simp only: power_add) simp
        finally show ?thesis by simp
      qed
      also have "\<dots> = n div (2 ^ 61 * 2 ^ (8 * (i - 8)))" by (rule div_mult_mult1) simp
      finally show ?thesis by (simp only: div_mult2_eq)
    qed
    moreover have "unat (drop_bit 61 (of_nat n :: u64)) = n div 2 ^ 61"
      unfolding unat_drop_bit_eq u by (simp only: drop_bit_eq_div)
    ultimately show ?thesis
      using False by (intro word_unat_eq_iff [THEN iffD2]) (simp only: hash_length_octet_def Let_def if_False p cast byte)
  qed
qed

lemma memcpy_at_extend:
  "k + length xs < length b \<Longrightarrow> (memcpy_at b k xs)[k + length xs := v] = memcpy_at b k (xs @ [v])"
  "k < length b \<Longrightarrow> (memcpy_at b (Suc k) xs)[k := v] = memcpy_at b k (v # xs)"
  by (simp_all add: memcpy_at_def list_update_append take_Suc_conv_app_nth Cons_nth_drop_Suc [symmetric])

lemma fold_update_from:
  "at + n \<le> length b \<Longrightarrow> fold (\<lambda>i b. b[at + i := f i]) [0..<n] b = memcpy_at b at (map f [0..<n])"
proof (induction n)
  case (Suc n)
  then show ?case using memcpy_at_extend(1) [of at "map f [0..<n]" b "f n"] by simp
qed (simp add: memcpy_at_def)

lemma fold_update_back:
  "n \<le> l \<Longrightarrow> at + l \<le> length b \<Longrightarrow>
   fold (\<lambda>i b. b[at + (l - 1 - i) := f i]) [0..<n] b = memcpy_at b (at + l - n) (rev (map f [0..<n]))"
proof (induction n)
  case (Suc n)
  define k where "k = at + (l - 1 - n)"
  have k: "at + l - n = Suc k" "at + l - Suc n = k" "k < length b" using Suc.prems by (simp_all add: k_def)
  have IH: "fold (\<lambda>i b. b[at + (l - 1 - i) := f i]) [0..<n] b = memcpy_at b (Suc k) (rev (map f [0..<n]))"
    using Suc k(1) by simp
  have "fold (\<lambda>i b. b[at + (l - 1 - i) := f i]) [0..<Suc n] b = (memcpy_at b (Suc k) (rev (map f [0..<n])))[k := f n]"
    by (simp only: upt_Suc zero_le if_True fold_append fold_simps comp_apply IH k_def)
  then show ?case using k(2,3) by (simp add: memcpy_at_extend(2))
qed (simp add: memcpy_at_def)

lemma length_field_eq:
  assumes "n < 2 ^ 64" "l \<le> 16" "at + l \<le> length b"
  shows "fold (\<lambda>i b. b[at + (if enc = TC_HASH_LENGTH_LITTLE_ENDIAN then i else l - 1 - i) := hash_length_octet n i]) [0..<l] b =
    memcpy_at b at (md_length enc l n)"
proof -
  have m: "map (hash_length_octet n) [0..<l] = rev (be_bytes l (8 * n))"
    using assms(1,2) by (intro nth_equalityI) (simp_all add: be_bytes_def rev_nth hash_length_octet_eq)
  show ?thesis
    using fold_update_from [OF assms(3), of "hash_length_octet n"] fold_update_back [of l l at b "hash_length_octet n"] assms(3) m
    by (cases enc) (simp_all add: md_length_def)
qed

lemma length_md_length [simp]: "length (md_length enc l n) = l"
  by (simp add: md_length_def)

lemma md_zeros_cases:
  assumes "n = q * b + r" "r < b" "l < b"
  shows "md_zeros b l n = (if r + 1 + l \<le> b then b - (r + 1 + l) else 2 * b - (r + 1 + l))"
proof -
  have "(n + 1 + l) mod b = (r + 1 + l) mod b" 
  proof -
    have "n + 1 + l = r + 1 + l + q * b" by (simp add: assms(1))
    then show ?thesis by (simp only: mod_mult_self1)
  qed
  moreover have "(b - (r + 1 + l) mod b) mod b = (if r + 1 + l \<le> b then b - (r + 1 + l) else 2 * b - (r + 1 + l))"
  proof -
    consider "r + 1 + l < b" | "r + 1 + l = b" | "b < r + 1 + l" by linarith
    then show ?thesis
    proof cases
      case 3
      then have "(r + 1 + l) mod b = r + 1 + l - b" using assms(2,3) by (simp add: le_mod_geq)
      then show ?thesis using 3 assms(2,3) by simp
    qed simp_all
  qed
  ultimately show ?thesis by (simp only: md_zeros_def)
qed

lemma stream_finish_at:
  assumes "0 < b" "b < 256" "l < b" "l \<le> 16" "stream_at f b s m st fill buf" "n = length m" "n < 2 ^ 64"
  shows "fst (tc_hash_stream_finish st n fill buf b l enc f) = hash_fold f b s (md_pad enc b l m)"
proof -
  obtain p t where m: "m = p @ t" "b dvd length p" "length t < b" "st = hash_fold f b s p" "fill = length t" "length buf = b" "take fill buf = t"
    using assms(5) unfolding stream_at_def by blast
  from m(2) obtain q where "length p = b * q" ..
  then have "n = q * b + length t" using m(1) assms(6) by simp
  note z = md_zeros_cases [OF this m(3) assms(3)]
  note field = length_field_eq [OF assms(7,4)]
  define buf1 where "buf1 = buf[fill := 0x80]"
  have b1: "length buf1 = b" "take (Suc fill) buf1 = t @ [0x80]"
    using m(3,5-7) by (simp_all add: buf1_def take_Suc_conv_app_nth)
  have fill: "(fill + 1) mod 256 = Suc fill" using m(3,5) assms(2) by simp
  define off where "off = b - l"
  have off: "off + l = b" using assms(3) by (simp add: off_def)
  note finish = tc_hash_stream_finish_def Let_def fill off_def [symmetric] buf1_def [symmetric]
  show ?thesis
  proof (cases "Suc fill \<le> b - l")
    case True
    let ?buf = "memcpy_at (memcpy_at buf1 (Suc fill) (replicate (b - l - Suc fill) 0)) (b - l) (md_length enc l n)"
    have e': "b = Suc fill + md_zeros b l n + l" using True m(5) assms(3) unfolding z by auto
    have e: "b - l = Suc fill + md_zeros b l n" using True m(5) assms(3) unfolding z by auto
    have buf: "?buf = t @ 0x80 # replicate (md_zeros b l n) 0 @ md_length enc l n"
      using m(5) b1 e' unfolding e by (simp add: memcpy_at_def)
    have pad: "md_pad enc b l m = p @ ?buf" unfolding buf by (simp add: md_pad_def m(1) assms(6))
    have "length (memcpy_at buf1 (Suc fill) (replicate (off - Suc fill) 0)) = b" using True b1(1) off by (simp add: memcpy_at_def off_def [symmetric])
    then have "fst (tc_hash_stream_finish st n fill buf b l enc f) = f st ?buf"
      using True off unfolding finish by (simp add: field)
    moreover have "length ?buf = b" using True b1(1) assms(3) by (simp add: memcpy_at_def)
    ultimately show ?thesis
      using assms(1) m(2,4) unfolding pad by (simp add: hash_fold_append hash_fold_block)
  next
    case False
    let ?buf1 = "memcpy_at buf1 (Suc fill) (replicate (b - Suc fill) 0)"
    let ?buf = "memcpy_at (memcpy_at ?buf1 0 (replicate (b - l) 0)) (b - l) (md_length enc l n)"
    have bufs: "?buf1 = t @ 0x80 # replicate (b - Suc fill) 0" "?buf = replicate (b - l) 0 @ md_length enc l n"
      using m(3,5) b1 assms(3) by (simp_all add: memcpy_at_def)
    have "md_zeros b l n = (b - Suc fill) + (b - l)" using False m(3,5) assms(3) unfolding z by auto
    then have pad: "md_pad enc b l m = p @ ?buf1 @ ?buf"
      unfolding bufs(2) unfolding bufs(1) by (simp add: md_pad_def m(1) assms(6) replicate_add)
    have "length (memcpy_at ?buf1 0 (replicate off 0)) = b" using b1(1) m(3,5) off by (simp add: memcpy_at_def)
    then have "fst (tc_hash_stream_finish st n fill buf b l enc f) = f (f st ?buf1) ?buf"
      using False off unfolding finish by (simp add: field)
    moreover have "length ?buf1 = b" "length ?buf = b" using b1(1) m(3,5) assms(3) by (simp_all add: memcpy_at_def)
    ultimately show ?thesis
      using assms(1) m(2,4) unfolding pad by (simp add: hash_fold_append hash_fold_block)
  qed
qed

section \<open>What the core relies on from a descriptor\<close>

definition hash_at :: "tc_hash_algorithm_info \<Rightarrow> u8 list \<Rightarrow> hash_ctx \<Rightarrow> bool" where
  "hash_at info m c \<longleftrightarrow> hc_active c = 1 \<and> hc_count c = length m \<and> length m \<le> hi_max_message_bytes info \<and>
     stream_at (hi_compress info) (hi_block_bytes info) (md_init info) m (hc_state c) (hc_buf_len c) (hc_buf c)"

definition hmac_at :: "tc_hash_algorithm_info \<Rightarrow> u8 list \<Rightarrow> u8 list \<Rightarrow> hmac_ctx \<Rightarrow> bool" where
  "hmac_at info k m h \<longleftrightarrow>
     (let k0 = hmac_k0 (md_hash info) (hi_block_bytes info) k
      in hash_at info (xorl k0 (replicate (hi_block_bytes info) 0x36) @ m) (hm_inner h) \<and>
         hm_outer_state h = hash_fold (hi_compress info) (hi_block_bytes info) (md_init info) (xorl k0 (replicate (hi_block_bytes info) 0x5C)))"

text \<open>
  The tag policy (at least half of the digest and the two floors of the build, or for a short tag at least 32 bits and less
  than that), the lengths the core accepts, and the layout of a one-shot call: the context and the array of the
  full tag are local storage, apart from the caller's spans.
\<close>

definition hmac_tag_ok :: "hmac_build \<Rightarrow> tc_hash_algorithm_info \<Rightarrow> nat \<Rightarrow> bool \<Rightarrow> bool" where
  "hmac_tag_ok bo info n short \<longleftrightarrow> n \<le> hi_digest_bytes info \<and>
     (let minimum = max (hi_digest_bytes info div 2) (max (hb_hmac_min_tag_len bo) (hb_min_tag_len bo))
      in if short then 4 \<le> n \<and> n < minimum else minimum \<le> n)"

definition hmac_args :: "tc_hash_algorithm_info \<Rightarrow> TC_bytes \<Rightarrow> TC_bytes \<Rightarrow> bool" where
  "hmac_args info k message \<longleftrightarrow>
     (b_length k = 0 \<or> b_data k \<noteq> NULL) \<and> (b_length message = 0 \<or> b_data message \<noteq> NULL) \<and>
     b_length k \<le> hi_max_message_bytes info \<and> hi_block_bytes info + b_length message \<le> hi_max_message_bytes info"

definition hmac_stack_ok :: "tc_hash_algorithm_info \<Rightarrow> hmac_ctx obj \<Rightarrow> addr \<Rightarrow> TC_bytes \<Rightarrow> TC_bytes \<Rightarrow> bool" where
  "hmac_stack_ok info ws full_at k message \<longleftrightarrow>
     tc_hash_final_args (o_addr ws) (o_size ws) full_at (hi_digest_bytes info) \<and>
     tc_internal_ranges_disjoint (o_addr ws) (o_size ws) (b_data k) (b_length k) \<and>
     tc_internal_ranges_disjoint (o_addr ws) (o_size ws) (b_data message) (b_length message) \<and>
     b_length message \<le> UINTPTR_MAX - b_data message"

lemma hmac_tag_ok_code:
  "hmac_tag_ok bo info n short \<longleftrightarrow> n \<le> hi_digest_bytes info \<and>
     (if short then TC_HASH_MAC_MIN_TAG_LEN \<le> n \<and> n < TC_HMAC_MIN_TAG_LEN_FOR bo (hi_digest_bytes info)
      else TC_HMAC_MIN_TAG_LEN_FOR bo (hi_digest_bytes info) \<le> n)"
  by (auto simp: hmac_tag_ok_def Let_def TC_HASH_MAC_MIN_TAG_LEN_def TC_HMAC_MIN_TAG_LEN_FOR_def TC_HMAC_MIN_TAG_LEN_FLOOR_def)

lemma span_length:
  "bytes_wf s \<Longrightarrow> b_length s = 0 \<or> b_data s \<noteq> NULL \<Longrightarrow> length (b_mem s) = b_length s"
  by (auto simp: bytes_wf_def)

locale hash_algorithm =
  fixes info :: tc_hash_algorithm_info
  assumes block_pos: "0 < hi_block_bytes info"
    and block_small: "hi_block_bytes info < 256"
    and length_small: "hi_length_bytes info < hi_block_bytes info" "hi_length_bytes info \<le> 16"
    and digest_length: "length (hi_digest_out info s) = hi_digest_bytes info"
    and digest_small: "hi_digest_bytes info < hi_block_bytes info" "hi_digest_bytes info \<le> 64"
    and max_range: "2 * hi_block_bytes info \<le> hi_max_message_bytes info" "hi_max_message_bytes info < 2 ^ 64"
begin

lemma length_md_hash [simp]: "length (md_hash info m) = hi_digest_bytes info"
  by (simp add: md_hash_def digest_length)

lemma start_at: "hash_at info [] (view_start info)"
  using block_pos
  by (auto simp: hash_at_def view_start_def hash_ctx_zero_def md_init_def stream_at_def)

lemma at_live: "hash_at info m c \<Longrightarrow> view_is_live info c"
  by (auto simp: hash_at_def stream_at_def view_is_live_def)

lemma hash_absorb_at:
  assumes "hash_at info m c" "length (b_mem data) = b_length data" "length m + b_length data \<le> hi_max_message_bytes info"
  shows "\<exists>c'. view_absorb info c data = (TC_OK, c') \<and> hash_at info (m @ b_mem data) c'"
proof (cases "b_length data = 0")
  case True
  then show ?thesis using assms by (auto simp: view_absorb_def)
next
  case False
  obtain st fill buf where s: "tc_hash_stream_absorb (hc_state c) (hc_buf_len c) (hc_buf c) (b_mem data) (hi_block_bytes info) (hi_compress info) = (st, fill, buf)"
    by (metis prod_cases3)
  have "stream_at (hi_compress info) (hi_block_bytes info) (md_init info) (m @ b_mem data) st fill buf"
    using stream_absorb_at [OF block_pos block_small, of "hi_compress info" "md_init info" m "hc_state c" "hc_buf_len c" "hc_buf c" "b_mem data"]
      assms(1) by (simp add: s hash_at_def)
  then show ?thesis
    using False s assms max_range(2) by (auto simp: view_absorb_def hash_at_def)
qed

lemma absorb_too_long:
  "hash_at info m c \<Longrightarrow> hi_max_message_bytes info < length m + b_length data \<Longrightarrow> view_absorb info c data = (TC_ERROR, c)"
  by (auto simp: hash_at_def view_absorb_def)

lemma hash_finish_at: "hash_at info m c \<Longrightarrow> snd (view_finish info c) = md_hash info m"
  using stream_finish_at [OF block_pos block_small length_small, of "hi_compress info" "md_init info" m "hc_state c" "hc_buf_len c" "hc_buf c"
      "length m" "hi_length_encoding info"] max_range(2)
  by (simp add: hash_at_def view_finish_def md_hash_def case_prod_beta)

lemma update_at:
  assumes "o_addr ctx \<noteq> NULL" "hash_at info m (o_val ctx)" "bytes_wf data"
  shows "if tc_hash_update_args (o_addr ctx) (o_size ctx) (b_data data) (b_length data) \<and> length m + b_length data \<le> hi_max_message_bytes info
    then \<exists>c. tc_hash_core_update info ctx data = (TC_OK, ctx\<lparr>o_val := c\<rparr>) \<and> hash_at info (m @ b_mem data) c
    else tc_hash_core_update info ctx data = (TC_ERROR, ctx)"
proof (cases "tc_hash_update_args (o_addr ctx) (o_size ctx) (b_data data) (b_length data)")
  case True
  then have l: "length (b_mem data) = b_length data"
    using assms(3) by (intro span_length) (auto simp: tc_hash_update_args_def tc_internal_span_valid_def)
  have e: "tc_hash_core_update info ctx data = (case view_absorb info (o_val ctx) data of (status, c) \<Rightarrow> (status, ctx\<lparr>o_val := c\<rparr>))"
    using True assms(1) at_live [OF assms(2)] by (simp add: tc_hash_core_update_def)
  show ?thesis
    using True hash_absorb_at [OF assms(2) l] absorb_too_long [OF assms(2), of data] by (auto simp: e) blast
qed (simp add: tc_hash_core_update_def)

lemma update_loop_at:
  assumes "o_addr ctx \<noteq> NULL" "hash_at info m (o_val ctx)"
    "list_all (\<lambda>p. bytes_wf p \<and> tc_hash_update_args (o_addr ctx) (o_size ctx) (b_data p) (b_length p)) ps"
    "length m + length (concat (map b_mem ps)) \<le> hi_max_message_bytes info"
  shows "\<exists>c. hash_update_loop info ctx ps = (TC_OK, ctx\<lparr>o_val := c\<rparr>) \<and> hash_at info (m @ concat (map b_mem ps)) c"
  using assms
proof (induction ps arbitrary: m ctx)
  case Nil
  then show ?case by (intro exI [of _ "o_val ctx"]) simp
next
  case (Cons p ps)
  have l: "length (b_mem p) = b_length p"
    using Cons.prems(3) by (intro span_length) (auto simp: tc_hash_update_args_def tc_internal_span_valid_def)
  then obtain c where c: "tc_hash_core_update info ctx p = (TC_OK, ctx\<lparr>o_val := c\<rparr>)" "hash_at info (m @ b_mem p) c"
    using update_at [OF Cons.prems(1,2), of p] Cons.prems(3,4) by auto
  from Cons.IH [of "ctx\<lparr>o_val := c\<rparr>" "m @ b_mem p"] show ?case
    using c Cons.prems l by auto
qed

lemma final_at:
  assumes "o_addr ctx \<noteq> NULL" "hash_at info m (o_val ctx)" "tc_hash_final_args (o_addr ctx) (o_size ctx) (w_data digest) (hi_digest_bytes info)"
  shows "tc_hash_core_final info ctx digest =
    (TC_OK, ctx\<lparr>o_val := hash_ctx_zero info\<rparr>, digest\<lparr>w_mem := md_hash info m @ drop (hi_digest_bytes info) (w_mem digest)\<rparr>)"
  using assms at_live [OF assms(2)] hash_finish_at [OF assms(2)]
  by (cases "view_finish info (o_val ctx)") (simp add: tc_hash_core_final_def memcpy_at_def)

lemma core_digest:
  assumes "bytes_wf data" "w_data digest \<noteq> NULL" "b_length data = 0 \<or> b_data data \<noteq> NULL"
  shows "tc_hash_core_digest info workspace data digest =
    (if b_length data \<le> hi_max_message_bytes info
     then (TC_OK, workspace\<lparr>o_val := hash_ctx_zero info\<rparr>, digest\<lparr>w_mem := md_hash info (b_mem data) @ drop (hi_digest_bytes info) (w_mem digest)\<rparr>)
     else (TC_ERROR, workspace\<lparr>o_val := hash_ctx_zero info\<rparr>, digest))"
proof (cases "b_length data \<le> hi_max_message_bytes info")
  case True
  then obtain c where c: "view_absorb info (view_start info) data = (TC_OK, c)" "hash_at info (b_mem data) c"
    using hash_absorb_at [OF start_at span_length [OF assms(1,3)]] by auto
  then show ?thesis using True assms(2,3) hash_finish_at [OF c(2)] by (simp add: tc_hash_core_digest_def Let_def memcpy_at_def)
next
  case False
  then show ?thesis using absorb_too_long [OF start_at, of data] assms(2,3) by (simp add: tc_hash_core_digest_def Let_def)
qed

lemma length_hmac_k0 [simp]: "length (hmac_k0 (md_hash info) (hi_block_bytes info) k) = hi_block_bytes info"
  using digest_small(1) by (simp add: hmac_k0_def Let_def)

lemma key_block:
  assumes "bytes_wf k" "b_length k = 0 \<or> b_data k \<noteq> NULL"
  shows "if b_length k \<le> hi_max_message_bytes info
    then \<exists>c. hmac_key_block info inner k = (TC_OK, c, hmac_k0 (md_hash info) (hi_block_bytes info) (b_mem k))
    else \<exists>c b. hmac_key_block info inner k = (TC_ERROR, c, b)"
proof -
  have l: "length (b_mem k) = b_length k" by (rule span_length [OF assms])
  have k0: "hmac_k0 (md_hash info) (hi_block_bytes info) (b_mem k) =
      memcpy_at (replicate (hi_block_bytes info) 0) 0 (if b_length k > hi_block_bytes info then md_hash info (b_mem k) else b_mem k)"
    by (simp add: hmac_k0_def Let_def memcpy_at_def l)
  consider "hi_max_message_bytes info < b_length k" | "hi_block_bytes info < b_length k" "b_length k \<le> hi_max_message_bytes info" | "b_length k \<le> hi_block_bytes info"
    by linarith
  then show ?thesis
  proof cases
    case 1
    then show ?thesis using absorb_too_long [OF start_at, of k] max_range(1) by (simp add: hmac_key_block_def Let_def)
  next
    case 2
    then obtain c where c: "view_absorb info (view_start info) k = (TC_OK, c)" "hash_at info (b_mem k) c"
      using hash_absorb_at [OF start_at l] by auto
    then show ?thesis using 2 hash_finish_at [OF c(2)] by (cases "view_finish info c") (simp add: hmac_key_block_def Let_def k0)
  next
    case 3
    then show ?thesis using max_range(1) l by (auto simp: hmac_key_block_def Let_def k0 memcpy_at_def)
  qed
qed

lemma xor_pads:
  fixes b :: "u8 list"
  assumes "length b = n"
  shows "fold (\<lambda>i b. b[i := b ! i XOR 0x36]) [0..<n] b = xorl b (replicate n 0x36)"
    "fold (\<lambda>i b. b[i := b ! i XOR (0x36 XOR 0x5C)]) [0..<n] (xorl b (replicate n 0x36)) = xorl b (replicate n 0x5C)"
proof -
  have x: "fold (\<lambda>i b. b[i := b ! i XOR v]) [0..<n] y = xorl y (replicate n v)" if "length y = n" for y and v :: u8
    using that by (simp add: fold_update_upt [where f = "\<lambda>i c. c XOR v"]) (auto intro!: nth_equalityI)
  show "fold (\<lambda>i b. b[i := b ! i XOR 0x36]) [0..<n] b = xorl b (replicate n 0x36)" using x [OF assms] .
  have "xorl (xorl b (replicate n 0x36)) (replicate n (0x36 XOR 0x5C)) = xorl b (replicate n 0x5C)"
    using assms by (intro nth_equalityI) (simp_all add: xor.assoc)
  then show "fold (\<lambda>i b. b[i := b ! i XOR (0x36 XOR 0x5C)]) [0..<n] (xorl b (replicate n 0x36)) = xorl b (replicate n 0x5C)"
    using x [of "xorl b (replicate n 0x36)" "0x36 XOR 0x5C"] assms by simp
qed

lemma hmac_init_at:
  assumes "o_addr ctx \<noteq> NULL" "bytes_wf k"
  shows "if (b_length k = 0 \<or> b_data k \<noteq> NULL \<and> tc_internal_ranges_disjoint (o_addr ctx) (o_size ctx) (b_data k) (b_length k)) \<and>
       b_length k \<le> hi_max_message_bytes info
    then \<exists>h. tc_hmac_core_init info ctx k = (TC_OK, ctx\<lparr>o_val := h\<rparr>) \<and> hmac_at info (b_mem k) [] h
    else tc_hmac_core_init info ctx k = (TC_ERROR, ctx\<lparr>o_val := hmac_ctx_zero info\<rparr>)"
proof (cases "b_length k = 0 \<or> b_data k \<noteq> NULL \<and> tc_internal_ranges_disjoint (o_addr ctx) (o_size ctx) (b_data k) (b_length k)")
  case True
  let ?k0 = "hmac_k0 (md_hash info) (hi_block_bytes info) (b_mem k)" and ?b = "hi_block_bytes info"
  have v: "b_length k = 0 \<or> b_data k \<noteq> NULL" using True by blast
  show ?thesis
  proof (cases "b_length k \<le> hi_max_message_bytes info")
    case le: True
    then obtain c where kb: "hmac_key_block info (hm_inner (hmac_ctx_zero info)) k = (TC_OK, c, ?k0)"
      using key_block [OF assms(2) v] by auto
    let ?i = "xorl ?k0 (replicate ?b 0x36)" and ?o = "xorl ?k0 (replicate ?b 0x5C)"
    let ?h = "\<lparr>hm_inner = (view_start info)\<lparr>hc_state := hi_compress info (md_init info) ?i, hc_count := ?b\<rparr>, hm_outer_state = hi_compress info (md_init info) ?o\<rparr>"
    have "tc_hmac_core_init info ctx k = (TC_OK, ctx\<lparr>o_val := ?h\<rparr>)"
      using True assms(1) kb xor_pads [OF length_hmac_k0]
      by (simp add: tc_hmac_core_init_def Let_def view_start_def md_init_def hmac_ctx_zero_def hash_ctx_zero_def)
    moreover have "hash_at info ?i (hm_inner ?h)"
      using block_pos max_range(1)
      by (auto simp: hash_at_def view_start_def hash_ctx_zero_def stream_at_def hash_fold_block intro!: exI [of _ ?i])
    ultimately show ?thesis using True le block_pos by (auto simp: hmac_at_def Let_def hash_fold_block)
  next
    case False
    then obtain c b where "hmac_key_block info (hm_inner (hmac_ctx_zero info)) k = (TC_ERROR, c, b)"
      using key_block [OF assms(2) v, of "hm_inner (hmac_ctx_zero info)"] by auto
    then show ?thesis using True False assms(1) by (simp add: tc_hmac_core_init_def Let_def)
  qed
next
  case False
  then show ?thesis using assms(1) by (auto simp: tc_hmac_core_init_def Let_def)
qed

lemma hmac_update_at:
  assumes "o_addr ctx \<noteq> NULL" "hmac_at info k m (o_val ctx)" "bytes_wf data"
  shows "if tc_hash_update_args (o_addr ctx) (o_size ctx) (b_data data) (b_length data) \<and>
       hi_block_bytes info + length m + b_length data \<le> hi_max_message_bytes info
    then \<exists>h. tc_hmac_core_update info ctx data = (TC_OK, ctx\<lparr>o_val := h\<rparr>) \<and> hmac_at info k (m @ b_mem data) h
    else tc_hmac_core_update info ctx data = (TC_ERROR, ctx)"
proof (cases "tc_hash_update_args (o_addr ctx) (o_size ctx) (b_data data) (b_length data)")
  case True
  then have l: "length (b_mem data) = b_length data"
    using assms(3) by (intro span_length) (auto simp: tc_hash_update_args_def tc_internal_span_valid_def)
  let ?i = "xorl (hmac_k0 (md_hash info) (hi_block_bytes info) k) (replicate (hi_block_bytes info) 0x36)"
  have inner: "hash_at info (?i @ m) (hm_inner (o_val ctx))" using assms(2) by (simp add: hmac_at_def Let_def)
  have e: "tc_hmac_core_update info ctx data =
      (case view_absorb info (hm_inner (o_val ctx)) data of (status, c) \<Rightarrow> (status, ctx\<lparr>o_val := (o_val ctx)\<lparr>hm_inner := c\<rparr>\<rparr>))"
    using True assms(1) at_live [OF inner] by (simp add: tc_hmac_core_update_def)
  have at: "hmac_at info k (m @ b_mem data) ((o_val ctx)\<lparr>hm_inner := c\<rparr>)" if "hash_at info (?i @ m @ b_mem data) c" for c
    using that assms(2) by (simp add: hmac_at_def Let_def)
  show ?thesis
  proof (cases "hi_block_bytes info + length m + b_length data \<le> hi_max_message_bytes info")
    case le: True
    then obtain c where "view_absorb info (hm_inner (o_val ctx)) data = (TC_OK, c)" "hash_at info (?i @ m @ b_mem data) c"
      using hash_absorb_at [OF inner l] by auto
    then show ?thesis using True le at by (auto simp: e)
  next
    case False
    then have "view_absorb info (hm_inner (o_val ctx)) data = (TC_ERROR, hm_inner (o_val ctx))"
      by (intro absorb_too_long [OF inner]) simp
    then show ?thesis using False by (simp add: e)
  qed
qed (simp add: tc_hmac_core_update_def)

lemma hmac_update_loop_at:
  assumes "o_addr ctx \<noteq> NULL" "hmac_at info k m (o_val ctx)"
    "list_all (\<lambda>p. bytes_wf p \<and> tc_hash_update_args (o_addr ctx) (o_size ctx) (b_data p) (b_length p)) ps"
    "hi_block_bytes info + length m + length (concat (map b_mem ps)) \<le> hi_max_message_bytes info"
  shows "\<exists>h. hmac_update_loop info ctx ps = (TC_OK, ctx\<lparr>o_val := h\<rparr>) \<and> hmac_at info k (m @ concat (map b_mem ps)) h"
  using assms
proof (induction ps arbitrary: m ctx)
  case Nil
  then show ?case by (intro exI [of _ "o_val ctx"]) simp
next
  case (Cons p ps)
  have l: "length (b_mem p) = b_length p"
    using Cons.prems(3) by (intro span_length) (auto simp: tc_hash_update_args_def tc_internal_span_valid_def)
  then obtain h where h: "tc_hmac_core_update info ctx p = (TC_OK, ctx\<lparr>o_val := h\<rparr>)" "hmac_at info k (m @ b_mem p) h"
    using hmac_update_at [OF Cons.prems(1,2), of p] Cons.prems(3,4) by auto
  from Cons.IH [of "ctx\<lparr>o_val := h\<rparr>" "m @ b_mem p"] show ?case
    using h Cons.prems l by auto
qed

lemma hmac_final_at:
  assumes "o_addr ctx \<noteq> NULL" "hmac_at info k m (o_val ctx)" "tc_hash_final_args (o_addr ctx) (o_size ctx) (w_data tag) (hi_digest_bytes info)"
  shows "tc_hmac_core_final info ctx tag =
    (TC_OK, ctx\<lparr>o_val := hmac_ctx_zero info\<rparr>,
     tag\<lparr>w_mem := hmac_spec (md_hash info) (hi_block_bytes info) k m @ drop (hi_digest_bytes info) (w_mem tag)\<rparr>)"
proof -
  let ?b = "hi_block_bytes info" and ?k0 = "hmac_k0 (md_hash info) (hi_block_bytes info) k"
  let ?i = "xorl ?k0 (replicate ?b 0x36)" and ?o = "xorl ?k0 (replicate ?b 0x5C)" let ?d = "md_hash info (?i @ m)"
  have inner: "hash_at info (?i @ m) (hm_inner (o_val ctx))" using assms(2) by (simp add: hmac_at_def Let_def)
  have "stream_at (hi_compress info) ?b (md_init info) (?o @ ?d) (hm_outer_state (o_val ctx)) (hi_digest_bytes info) (memcpy_at (replicate ?b 0) 0 ?d)"
    unfolding stream_at_def using assms(2) digest_small(1)
    by (intro exI [of _ ?o] exI [of _ ?d]) (simp add: hmac_at_def Let_def memcpy_at_def)
  from stream_finish_at [OF block_pos block_small length_small this, of "?b + hi_digest_bytes info" "hi_length_encoding info"]
  have outer: "hi_digest_out info (fst (tc_hash_stream_finish (hm_outer_state (o_val ctx)) (?b + hi_digest_bytes info) (hi_digest_bytes info)
      (memcpy_at (replicate ?b 0) 0 ?d) ?b (hi_length_bytes info) (hi_length_encoding info) (hi_compress info))) =
      hmac_spec (md_hash info) ?b k m"
    using block_small digest_small(1) by (simp add: hmac_spec_def md_hash_def [of info "?o @ ?d"])
  have len: "length (hmac_spec (md_hash info) ?b k m) = hi_digest_bytes info" by (simp add: hmac_spec_def)
  show ?thesis
    using assms at_live [OF inner] hash_finish_at [OF inner] outer len
    by (cases "view_finish info (hm_inner (o_val ctx))") (simp add: tc_hmac_core_final_def Let_def case_prod_beta memcpy_at_def)
qed

lemma finish_full_at:
  assumes "hmac_at info k m (o_val ctx)" "tc_hash_final_args (o_addr ctx) (o_size ctx) full_at (hi_digest_bytes info)"
  shows "\<exists>r. hmac_finish_full info ctx full_at =
    (TC_OK, ctx\<lparr>o_val := hmac_ctx_zero info\<rparr>, hmac_spec (md_hash info) (hi_block_bytes info) k m @ r)"
  using hmac_final_at [OF _ assms(1)] assms(2) by (simp add: hmac_finish_full_def tc_hash_final_args_def)

lemma hmac_digest_accepts:
  assumes "bytes_wf k" "bytes_wf message" "buffer_wf tag" "w_data tag \<noteq> NULL" "hmac_stack_ok info ws full_at k message"
    "hmac_tag_ok bo info (w_capacity tag) short" "hmac_args info k message"
  shows "tc_hmac_core_digest bo info ws full_at k message tag short =
    (TC_OK, ws\<lparr>o_val := hmac_ctx_zero info\<rparr>,
     tag\<lparr>w_mem := take (w_capacity tag) (hmac_spec (md_hash info) (hi_block_bytes info) (b_mem k) (b_mem message))\<rparr>)"
proof -
  let ?t = "hmac_spec (md_hash info) (hi_block_bytes info) (b_mem k) (b_mem message)"
  have ws: "o_addr ws \<noteq> NULL" using assms(5) by (simp add: hmac_stack_ok_def tc_hash_final_args_def)
  obtain h1 where h1: "tc_hmac_core_init info ws k = (TC_OK, ws\<lparr>o_val := h1\<rparr>)" "hmac_at info (b_mem k) [] h1"
    using hmac_init_at [OF ws assms(1)] assms(5,7) by (auto simp: hmac_stack_ok_def hmac_args_def split: if_splits)
  have "tc_hash_update_args (o_addr ws) (o_size ws) (b_data message) (b_length message)"
    using assms(5,7) ws by (auto simp: hmac_stack_ok_def hmac_args_def tc_hash_update_args_def tc_internal_span_valid_def)
  then obtain h2 where h2: "tc_hmac_core_update info (ws\<lparr>o_val := h1\<rparr>) message = (TC_OK, ws\<lparr>o_val := h2\<rparr>)"
    "hmac_at info (b_mem k) (b_mem message) h2"
    using hmac_update_at [of "ws\<lparr>o_val := h1\<rparr>" "b_mem k" "[]" message] h1(2) ws assms(2,7) by (auto simp: hmac_args_def)
  obtain r where r: "hmac_finish_full info (ws\<lparr>o_val := h2\<rparr>) full_at = (TC_OK, ws\<lparr>o_val := hmac_ctx_zero info\<rparr>, ?t @ r)"
    using finish_full_at [of "b_mem k" "b_mem message" "ws\<lparr>o_val := h2\<rparr>" full_at] h2(2) assms(5) by (auto simp: hmac_stack_ok_def)
  have n: "w_capacity tag \<le> length ?t" "length (w_mem tag) = w_capacity tag"
    using assms(3,4,6) by (simp_all add: hmac_tag_ok_code hmac_spec_def buffer_wf_def)
  have "tc_hmac_core_digest bo info ws full_at k message tag short =
      (TC_OK, tc_hmac_core_clear info (ws\<lparr>o_val := hmac_ctx_zero info\<rparr>), tag\<lparr>w_mem := memcpy_at (w_mem tag) 0 (take (w_capacity tag) (?t @ r))\<rparr>)"
    using assms(4,6,7) h1(1) h2(1) r by (auto simp: tc_hmac_core_digest_def Let_def hmac_tag_ok_code hmac_args_def)
  then show ?thesis using n ws by (simp add: tc_hmac_core_clear_def)
qed

lemma hmac_digest_refuses:
  assumes "bytes_wf k" "bytes_wf message" "hmac_stack_ok info ws full_at k message"
    "w_data tag = NULL \<or> \<not> hmac_tag_ok bo info (w_capacity tag) short \<or> \<not> hmac_args info k message"
  shows "\<exists>c. tc_hmac_core_digest bo info ws full_at k message tag short = (TC_ERROR, ws\<lparr>o_val := c\<rparr>, tag)"
proof -
  have ws: "o_addr ws \<noteq> NULL" using assms(3) by (simp add: hmac_stack_ok_def tc_hash_final_args_def)
  have same: "\<exists>c. ws = ws\<lparr>o_val := c\<rparr>" by (intro exI [of _ "o_val ws"]) simp
  show ?thesis
  proof (cases "w_data tag = NULL \<or> \<not> hmac_tag_ok bo info (w_capacity tag) short \<or> (b_length message \<noteq> 0 \<and> b_data message = NULL)")
    case True
    then have "tc_hmac_core_digest bo info ws full_at k message tag short = (TC_ERROR, ws, tag)"
      by (auto simp: tc_hmac_core_digest_def Let_def hmac_tag_ok_code)
    then show ?thesis using same by simp
  next
    case False
    then have d: "tc_hmac_core_digest bo info ws full_at k message tag short = (TC_ERROR, ws\<lparr>o_val := hmac_ctx_zero info\<rparr>, tag)"
      if "tc_hmac_core_init info ws k = (TC_ERROR, ws\<lparr>o_val := hmac_ctx_zero info\<rparr>) \<or>
        (\<exists>h. tc_hmac_core_init info ws k = (TC_OK, ws\<lparr>o_val := h\<rparr>) \<and> tc_hmac_core_update info (ws\<lparr>o_val := h\<rparr>) message = (TC_ERROR, ws\<lparr>o_val := h\<rparr>))"
      using that ws by (auto simp: tc_hmac_core_digest_def Let_def hmac_tag_ok_code tc_hmac_core_clear_def split: if_splits)
    consider "\<not> ((b_length k = 0 \<or> b_data k \<noteq> NULL) \<and> b_length k \<le> hi_max_message_bytes info)" |
      "b_length k = 0 \<or> b_data k \<noteq> NULL" "b_length k \<le> hi_max_message_bytes info" "\<not> hi_block_bytes info + b_length message \<le> hi_max_message_bytes info"
      using False assms(4) unfolding hmac_args_def by metis
    then show ?thesis
    proof cases
      case 1
      then have "tc_hmac_core_init info ws k = (TC_ERROR, ws\<lparr>o_val := hmac_ctx_zero info\<rparr>)"
        using hmac_init_at [OF ws assms(1)] by (auto split: if_splits)
      then show ?thesis using d by auto
    next
      case 2
      then obtain h where h: "tc_hmac_core_init info ws k = (TC_OK, ws\<lparr>o_val := h\<rparr>)" "hmac_at info (b_mem k) [] h"
        using hmac_init_at [OF ws assms(1)] assms(3) by (auto simp: hmac_stack_ok_def split: if_splits)
      have "tc_hmac_core_update info (ws\<lparr>o_val := h\<rparr>) message = (TC_ERROR, ws\<lparr>o_val := h\<rparr>)"
        using hmac_update_at [of "ws\<lparr>o_val := h\<rparr>" "b_mem k" "[]" message] h(2) ws assms(2) 2(3) by simp
      then show ?thesis using d h(1) by auto
    qed
  qed
qed

lemma hmac_verify_core:
  assumes "bytes_wf k" "bytes_wf message" "bytes_wf tag" "at \<noteq> NULL" "hmac_stack_ok info ws full_at k message"
  shows "fst (tc_hmac_core_verify bo info ws full_at at k message tag short) =
    (if b_data tag \<noteq> NULL \<and> hmac_tag_ok bo info (b_length tag) short \<and> hmac_args info k message
     then if b_mem tag = take (b_length tag) (hmac_spec (md_hash info) (hi_block_bytes info) (b_mem k) (b_mem message)) then TC_OK else TC_MISMATCH
     else TC_ERROR)"
proof (cases "b_data tag \<noteq> NULL \<and> hmac_tag_ok bo info (b_length tag) short \<and> hmac_args info k message")
  case True
  let ?b = "\<lparr>w_data = at, w_capacity = b_length tag, w_mem = replicate (b_length tag) 0\<rparr>"
  let ?t = "take (b_length tag) (hmac_spec (md_hash info) (hi_block_bytes info) (b_mem k) (b_mem message))"
  have d: "tc_hmac_core_digest bo info ws full_at k message ?b short = (TC_OK, ws\<lparr>o_val := hmac_ctx_zero info\<rparr>, ?b\<lparr>w_mem := ?t\<rparr>)"
    using hmac_digest_accepts [OF assms(1,2) _ _ assms(5), of ?b bo short] True assms(4) by (simp add: buffer_wf_def)
  have l: "length ?t = b_length tag" using True by (simp add: hmac_spec_def hmac_tag_ok_code)
  have "TC_ct_equal \<lparr>b_data = at, b_length = b_length tag, b_mem = ?t\<rparr> tag = (if ?t = b_mem tag then TC_OK else TC_MISMATCH)"
    using TC_ct_equal_valid [of "\<lparr>b_data = at, b_length = b_length tag, b_mem = ?t\<rparr>" tag] assms(3,4) True l
    by (simp add: bytes_wf_def)
  then show ?thesis using True l by (auto simp: tc_hmac_core_verify_def d tc_internal_verify_tag_def)
next
  case False
  then show ?thesis
  proof (cases "b_data tag = NULL")
    case nz: False
    then obtain c where "tc_hmac_core_digest bo info ws full_at k message
        \<lparr>w_data = at, w_capacity = b_length tag, w_mem = replicate (b_length tag) 0\<rparr> short =
        (TC_ERROR, ws\<lparr>o_val := c\<rparr>, \<lparr>w_data = at, w_capacity = b_length tag, w_mem = replicate (b_length tag) 0\<rparr>)"
      using hmac_digest_refuses [OF assms(1,2,5), of "\<lparr>w_data = at, w_capacity = b_length tag, w_mem = replicate (b_length tag) 0\<rparr>" bo short] False
      by auto
    then show ?thesis using nz False by (auto simp: tc_hmac_core_verify_def tc_internal_verify_tag_def)
  qed (auto simp: tc_hmac_core_verify_def)
qed

text \<open>HMAC of a message in parts, and from a keyed context that is used again.\<close>

lemma resume_parts:
  assumes "hmac_at info k [] h" "tc_hash_final_args (o_addr ctx) (o_size ctx) full_at (hi_digest_bytes info)"
    "list_all (\<lambda>p. bytes_wf p \<and> tc_hash_update_args (o_addr ctx) (o_size ctx) (b_data p) (b_length p)) ps"
    "hi_block_bytes info + length (concat (map b_mem ps)) \<le> hi_max_message_bytes info"
  shows "tc_hmac_core_resume_parts info (Some h) ctx full_at ps tag =
    (TC_OK, ctx\<lparr>o_val := hmac_ctx_zero info\<rparr>,
     tag\<lparr>w_mem := hmac_spec (md_hash info) (hi_block_bytes info) k (concat (map b_mem ps)) @ drop (hi_digest_bytes info) (w_mem tag)\<rparr>)"
proof -
  let ?t = "hmac_spec (md_hash info) (hi_block_bytes info) k (concat (map b_mem ps))"
  have ctx: "o_addr ctx \<noteq> NULL" using assms(2) by (simp add: tc_hash_final_args_def)
  obtain h2 where h2: "hmac_update_loop info (ctx\<lparr>o_val := h\<rparr>) ps = (TC_OK, ctx\<lparr>o_val := h2\<rparr>)" "hmac_at info k (concat (map b_mem ps)) h2"
    using hmac_update_loop_at [of "ctx\<lparr>o_val := h\<rparr>" k "[]" ps] assms ctx by auto
  obtain r where "hmac_finish_full info (ctx\<lparr>o_val := h2\<rparr>) full_at = (TC_OK, ctx\<lparr>o_val := hmac_ctx_zero info\<rparr>, ?t @ r)"
    using finish_full_at [of k "concat (map b_mem ps)" "ctx\<lparr>o_val := h2\<rparr>" full_at] h2(2) assms(2) by auto
  moreover have "length ?t = hi_digest_bytes info" by (simp add: hmac_spec_def)
  ultimately show ?thesis
    using ctx h2(1) by (simp add: tc_hmac_core_resume_parts_def tc_hmac_core_clear_def memcpy_at_def)
qed

lemma core_parts:
  assumes "bytes_wf k" "b_length k = 0 \<or> b_data k \<noteq> NULL \<and> tc_internal_ranges_disjoint (o_addr ctx) (o_size ctx) (b_data k) (b_length k)"
    "b_length k \<le> hi_max_message_bytes info"
    "tc_hash_final_args (o_addr ctx) (o_size ctx) full_at (hi_digest_bytes info)"
    "list_all (\<lambda>p. bytes_wf p \<and> tc_hash_update_args (o_addr ctx) (o_size ctx) (b_data p) (b_length p)) ps"
    "hi_block_bytes info + length (concat (map b_mem ps)) \<le> hi_max_message_bytes info"
  shows "tc_hmac_core_parts info ctx full_at k ps tag =
    (TC_OK, ctx\<lparr>o_val := hmac_ctx_zero info\<rparr>,
     tag\<lparr>w_mem := hmac_spec (md_hash info) (hi_block_bytes info) (b_mem k) (concat (map b_mem ps)) @ drop (hi_digest_bytes info) (w_mem tag)\<rparr>)"
proof -
  have ctx: "o_addr ctx \<noteq> NULL" using assms(4) by (simp add: tc_hash_final_args_def)
  obtain h where h: "tc_hmac_core_init info ctx k = (TC_OK, ctx\<lparr>o_val := h\<rparr>)" "hmac_at info (b_mem k) [] h"
    using hmac_init_at [OF ctx assms(1)] assms(2,3) by (auto split: if_splits)
  have "tc_hmac_core_parts info ctx full_at k ps tag = tc_hmac_core_resume_parts info (Some h) ctx full_at ps tag"
    using h(1) ctx by (simp add: tc_hmac_core_parts_def tc_hmac_core_resume_parts_def)
  then show ?thesis using resume_parts [OF h(2) assms(4-6)] by simp
qed

end

end
