(* ===== verification/SHA.thy ===== *)
theory SHA
  imports Hash_Core
begin

text \<open>
  SHA-1, SHA-224 and SHA-256 of \<^verbatim>\<open>src/src/hash.c\<close>, SHA-384 and SHA-512 of \<^verbatim>\<open>src/src/sha512.c\<close> and MD5 of \<^verbatim>\<open>src/src/md5.c\<close>: the
  compression functions, initial states and descriptors, and the public functions that the macros of
  \<^verbatim>\<open>src/src/hash_core_internal.h\<close> define for every algorithm.
\<close>

section \<open>Words\<close>

definition ROTL32 :: "u32 \<Rightarrow> nat \<Rightarrow> u32" where
  "ROTL32 x n = push_bit n x OR drop_bit (32 - n) x"

definition ROTR32 :: "u32 \<Rightarrow> nat \<Rightarrow> u32" where
  "ROTR32 x n = drop_bit n x OR push_bit (32 - n) x"

definition ROTR64 :: "u64 \<Rightarrow> nat \<Rightarrow> u64" where
  "ROTR64 x n = drop_bit n x OR push_bit (64 - n) x"

definition tc_hash_store_be32_words :: "u32 list \<Rightarrow> nat \<Rightarrow> u8 list" where
  "tc_hash_store_be32_words state words = concat (map (\<lambda>i. tc_internal_store_be32 (state ! i)) [0..<words])"

definition tc_hash_store_be64_words :: "u64 list \<Rightarrow> nat \<Rightarrow> u8 list" where
  "tc_hash_store_be64_words state words = concat (map (\<lambda>i. tc_internal_store_be64 (state ! i)) [0..<words])"

definition tc_hash_store_le32_words :: "u32 list \<Rightarrow> nat \<Rightarrow> u8 list" where
  "tc_hash_store_le32_words state words =
     concat (map (\<lambda>i. map (\<lambda>byte. ucast (drop_bit (8 * byte) (state ! i))) [0..<4]) [0..<words])"

section \<open>SHA-1 (hash.c)\<close>

type_synonym sha1_vars = "u32 \<times> u32 \<times> u32 \<times> u32 \<times> u32"

definition TC_SHA1_STEP :: "sha1_vars \<Rightarrow> u32 \<Rightarrow> u32 \<Rightarrow> u32 \<Rightarrow> sha1_vars" where
  "TC_SHA1_STEP v f k w = (case v of (a, b, c, d, e) \<Rightarrow> (ROTL32 a 5 + f + e + k + w, a, ROTL32 b 30, c, d))"

definition sha1_schedule :: "u32 list \<Rightarrow> nat \<Rightarrow> u32" where
  "sha1_schedule W t =
     ROTL32 (W ! ((t - 3) mod 16) XOR W ! ((t - 8) mod 16) XOR W ! ((t - 14) mod 16) XOR W ! (t mod 16)) 1"

text \<open>One round of the loops from round 16 on; \<open>f\<close> is the function of \<open>b\<close>, \<open>c\<close> and \<open>d\<close>.\<close>

definition sha1_round :: "(u32 \<Rightarrow> u32 \<Rightarrow> u32 \<Rightarrow> u32) \<Rightarrow> u32 \<Rightarrow> nat \<Rightarrow> sha1_vars \<times> u32 list \<Rightarrow> sha1_vars \<times> u32 list" where
  "sha1_round f k t s =
     (case s of ((a, b, c, d, e), W) \<Rightarrow>
       let w = sha1_schedule W t
       in (TC_SHA1_STEP (a, b, c, d, e) (f b c d) k w, W[t mod 16 := w]))"

definition sha1_compress :: "u32 list \<Rightarrow> u8 list \<Rightarrow> u32 list" where
  "sha1_compress state block =
     (let W = map (\<lambda>t. tc_internal_load_be32 (drop (4 * t) block)) [0..<16];
          v = (state ! 0, state ! 1, state ! 2, state ! 3, state ! 4);
          v = fold (\<lambda>t v. case v of (a, b, c, d, e) \<Rightarrow> TC_SHA1_STEP v (d XOR (b AND (c XOR d))) 0x5A827999 (W ! t)) [0..<16] v;
          s = fold (sha1_round (\<lambda>b c d. d XOR (b AND (c XOR d))) 0x5A827999) [16..<20] (v, W);
          s = fold (sha1_round (\<lambda>b c d. b XOR c XOR d) 0x6ED9EBA1) [20..<40] s;
          s = fold (sha1_round (\<lambda>b c d. (b AND c) OR (d AND (b XOR c))) 0x8F1BBCDC) [40..<60] s;
          s = fold (sha1_round (\<lambda>b c d. b XOR c XOR d) 0xCA62C1D6) [60..<80] s
      in case fst s of (a, b, c, d, e) \<Rightarrow>
           [state ! 0 + a, state ! 1 + b, state ! 2 + c, state ! 3 + d, state ! 4 + e])"

definition sha1_state_init :: "u32 list \<Rightarrow> u32 list" where
  "sha1_state_init state = state[0 := 0x67452301, 1 := 0xEFCDAB89, 2 := 0x98BADCFE, 3 := 0x10325476, 4 := 0xC3D2E1F0]"

definition sha1_digest :: "u32 list \<Rightarrow> u8 list" where
  "sha1_digest state = tc_hash_store_be32_words state 5"

section \<open>SHA-256 and SHA-224 (hash.c)\<close>

definition K256 :: "u32 list" where
  "K256 = concat [
     [0x428A2F98, 0x71374491, 0xB5C0FBCF, 0xE9B5DBA5, 0x3956C25B, 0x59F111F1, 0x923F82A4],
     [0xAB1C5ED5, 0xD807AA98, 0x12835B01, 0x243185BE, 0x550C7DC3, 0x72BE5D74, 0x80DEB1FE],
     [0x9BDC06A7, 0xC19BF174, 0xE49B69C1, 0xEFBE4786, 0x0FC19DC6, 0x240CA1CC, 0x2DE92C6F],
     [0x4A7484AA, 0x5CB0A9DC, 0x76F988DA, 0x983E5152, 0xA831C66D, 0xB00327C8, 0xBF597FC7],
     [0xC6E00BF3, 0xD5A79147, 0x06CA6351, 0x14292967, 0x27B70A85, 0x2E1B2138, 0x4D2C6DFC],
     [0x53380D13, 0x650A7354, 0x766A0ABB, 0x81C2C92E, 0x92722C85, 0xA2BFE8A1, 0xA81A664B],
     [0xC24B8B70, 0xC76C51A3, 0xD192E819, 0xD6990624, 0xF40E3585, 0x106AA070, 0x19A4C116],
     [0x1E376C08, 0x2748774C, 0x34B0BCB5, 0x391C0CB3, 0x4ED8AA4A, 0x5B9CCA4F, 0x682E6FF3],
     [0x748F82EE, 0x78A5636F, 0x84C87814, 0x8CC70208, 0x90BEFFFA, 0xA4506CEB, 0xBEF9A3F7],
     [0xC67178F2]]"

definition TC_SHA256_CH :: "u32 \<Rightarrow> u32 \<Rightarrow> u32 \<Rightarrow> u32" where
  "TC_SHA256_CH x y z = z XOR (x AND (y XOR z))"

definition TC_SHA256_MAJ :: "u32 \<Rightarrow> u32 \<Rightarrow> u32 \<Rightarrow> u32" where
  "TC_SHA256_MAJ x y z = (x AND y) OR (z AND (x XOR y))"

definition TC_SHA256_BSIG0 :: "u32 \<Rightarrow> u32" where
  "TC_SHA256_BSIG0 x = ROTR32 x 2 XOR ROTR32 x 13 XOR ROTR32 x 22"

definition TC_SHA256_BSIG1 :: "u32 \<Rightarrow> u32" where
  "TC_SHA256_BSIG1 x = ROTR32 x 6 XOR ROTR32 x 11 XOR ROTR32 x 25"

definition TC_SHA256_SSIG0 :: "u32 \<Rightarrow> u32" where
  "TC_SHA256_SSIG0 x = ROTR32 x 7 XOR ROTR32 x 18 XOR drop_bit 3 x"

definition TC_SHA256_SSIG1 :: "u32 \<Rightarrow> u32" where
  "TC_SHA256_SSIG1 x = ROTR32 x 17 XOR ROTR32 x 19 XOR drop_bit 10 x"

type_synonym sha256_vars = "u32 \<times> u32 \<times> u32 \<times> u32 \<times> u32 \<times> u32 \<times> u32 \<times> u32"

definition TC_SHA256_STEP :: "sha256_vars \<Rightarrow> u32 \<Rightarrow> u32 \<Rightarrow> sha256_vars" where
  "TC_SHA256_STEP v k w =
     (case v of (a, b, c, d, e, f, g, h) \<Rightarrow>
       let t1 = h + TC_SHA256_BSIG1 e + TC_SHA256_CH e f g + k + w;
           t2 = TC_SHA256_BSIG0 a + TC_SHA256_MAJ a b c
       in (t1 + t2, a, b, c, d + t1, e, f, g))"

definition sha256_schedule :: "u32 list \<Rightarrow> nat \<Rightarrow> u32" where
  "sha256_schedule W t =
     TC_SHA256_SSIG1 (W ! ((t - 2) mod 16)) + W ! ((t - 7) mod 16) + TC_SHA256_SSIG0 (W ! ((t - 15) mod 16)) + W ! (t mod 16)"

definition sha256_round :: "nat \<Rightarrow> sha256_vars \<times> u32 list \<Rightarrow> sha256_vars \<times> u32 list" where
  "sha256_round t s =
     (case s of (v, W) \<Rightarrow> let w = sha256_schedule W t in (TC_SHA256_STEP v (K256 ! t) w, W[t mod 16 := w]))"

definition sha256_compress :: "u32 list \<Rightarrow> u8 list \<Rightarrow> u32 list" where
  "sha256_compress state block =
     (let W = map (\<lambda>t. tc_internal_load_be32 (drop (4 * t) block)) [0..<16];
          v = (state ! 0, state ! 1, state ! 2, state ! 3, state ! 4, state ! 5, state ! 6, state ! 7);
          v = fold (\<lambda>t v. TC_SHA256_STEP v (K256 ! t) (W ! t)) [0..<16] v
      in case fst (fold sha256_round [16..<64] (v, W)) of (a, b, c, d, e, f, g, h) \<Rightarrow>
           [state ! 0 + a, state ! 1 + b, state ! 2 + c, state ! 3 + d, state ! 4 + e, state ! 5 + f, state ! 6 + g, state ! 7 + h])"

definition sha256_state_init :: "u32 list \<Rightarrow> u32 list" where
  "sha256_state_init state =
     state[0 := 0x6A09E667, 1 := 0xBB67AE85, 2 := 0x3C6EF372, 3 := 0xA54FF53A, 4 := 0x510E527F, 5 := 0x9B05688C, 6 := 0x1F83D9AB, 7 := 0x5BE0CD19]"

definition sha256_digest :: "u32 list \<Rightarrow> u8 list" where
  "sha256_digest state = tc_hash_store_be32_words state 8"

definition sha224_state_init :: "u32 list \<Rightarrow> u32 list" where
  "sha224_state_init state =
     state[0 := 0xC1059ED8, 1 := 0x367CD507, 2 := 0x3070DD17, 3 := 0xF70E5939, 4 := 0xFFC00B31, 5 := 0x68581511, 6 := 0x64F98FA7, 7 := 0xBEFA4FA4]"

definition sha224_digest :: "u32 list \<Rightarrow> u8 list" where
  "sha224_digest state = tc_hash_store_be32_words state 7"

section \<open>SHA-512 and SHA-384 (sha512.c)\<close>

definition K512 :: "u64 list" where
  "K512 = concat [
     [0x428A2F98D728AE22, 0x7137449123EF65CD, 0xB5C0FBCFEC4D3B2F, 0xE9B5DBA58189DBBC],
     [0x3956C25BF348B538, 0x59F111F1B605D019, 0x923F82A4AF194F9B, 0xAB1C5ED5DA6D8118],
     [0xD807AA98A3030242, 0x12835B0145706FBE, 0x243185BE4EE4B28C, 0x550C7DC3D5FFB4E2],
     [0x72BE5D74F27B896F, 0x80DEB1FE3B1696B1, 0x9BDC06A725C71235, 0xC19BF174CF692694],
     [0xE49B69C19EF14AD2, 0xEFBE4786384F25E3, 0x0FC19DC68B8CD5B5, 0x240CA1CC77AC9C65],
     [0x2DE92C6F592B0275, 0x4A7484AA6EA6E483, 0x5CB0A9DCBD41FBD4, 0x76F988DA831153B5],
     [0x983E5152EE66DFAB, 0xA831C66D2DB43210, 0xB00327C898FB213F, 0xBF597FC7BEEF0EE4],
     [0xC6E00BF33DA88FC2, 0xD5A79147930AA725, 0x06CA6351E003826F, 0x142929670A0E6E70],
     [0x27B70A8546D22FFC, 0x2E1B21385C26C926, 0x4D2C6DFC5AC42AED, 0x53380D139D95B3DF],
     [0x650A73548BAF63DE, 0x766A0ABB3C77B2A8, 0x81C2C92E47EDAEE6, 0x92722C851482353B],
     [0xA2BFE8A14CF10364, 0xA81A664BBC423001, 0xC24B8B70D0F89791, 0xC76C51A30654BE30],
     [0xD192E819D6EF5218, 0xD69906245565A910, 0xF40E35855771202A, 0x106AA07032BBD1B8],
     [0x19A4C116B8D2D0C8, 0x1E376C085141AB53, 0x2748774CDF8EEB99, 0x34B0BCB5E19B48A8],
     [0x391C0CB3C5C95A63, 0x4ED8AA4AE3418ACB, 0x5B9CCA4F7763E373, 0x682E6FF3D6B2B8A3],
     [0x748F82EE5DEFB2FC, 0x78A5636F43172F60, 0x84C87814A1F0AB72, 0x8CC702081A6439EC],
     [0x90BEFFFA23631E28, 0xA4506CEBDE82BDE9, 0xBEF9A3F7B2C67915, 0xC67178F2E372532B],
     [0xCA273ECEEA26619C, 0xD186B8C721C0C207, 0xEADA7DD6CDE0EB1E, 0xF57D4F7FEE6ED178],
     [0x06F067AA72176FBA, 0x0A637DC5A2C898A6, 0x113F9804BEF90DAE, 0x1B710B35131C471B],
     [0x28DB77F523047D84, 0x32CAAB7B40C72493, 0x3C9EBE0A15C9BEBC, 0x431D67C49C100D4C],
     [0x4CC5D4BECB3E42B6, 0x597F299CFC657E2A, 0x5FCB6FAB3AD6FAEC, 0x6C44198C4A475817]]"

definition TC_SHA512_CH :: "u64 \<Rightarrow> u64 \<Rightarrow> u64 \<Rightarrow> u64" where
  "TC_SHA512_CH x y z = z XOR (x AND (y XOR z))"

definition TC_SHA512_MAJ :: "u64 \<Rightarrow> u64 \<Rightarrow> u64 \<Rightarrow> u64" where
  "TC_SHA512_MAJ x y z = (x AND y) OR (z AND (x XOR y))"

definition TC_SHA512_BSIG0 :: "u64 \<Rightarrow> u64" where
  "TC_SHA512_BSIG0 x = ROTR64 x 28 XOR ROTR64 x 34 XOR ROTR64 x 39"

definition TC_SHA512_BSIG1 :: "u64 \<Rightarrow> u64" where
  "TC_SHA512_BSIG1 x = ROTR64 x 14 XOR ROTR64 x 18 XOR ROTR64 x 41"

definition TC_SHA512_SSIG0 :: "u64 \<Rightarrow> u64" where
  "TC_SHA512_SSIG0 x = ROTR64 x 1 XOR ROTR64 x 8 XOR drop_bit 7 x"

definition TC_SHA512_SSIG1 :: "u64 \<Rightarrow> u64" where
  "TC_SHA512_SSIG1 x = ROTR64 x 19 XOR ROTR64 x 61 XOR drop_bit 6 x"

type_synonym sha512_vars = "u64 \<times> u64 \<times> u64 \<times> u64 \<times> u64 \<times> u64 \<times> u64 \<times> u64"

definition TC_SHA512_STEP :: "sha512_vars \<Rightarrow> u64 \<Rightarrow> u64 \<Rightarrow> sha512_vars" where
  "TC_SHA512_STEP v k w =
     (case v of (a, b, c, d, e, f, g, h) \<Rightarrow>
       let t1 = h + TC_SHA512_BSIG1 e + TC_SHA512_CH e f g + k + w;
           t2 = TC_SHA512_BSIG0 a + TC_SHA512_MAJ a b c
       in (t1 + t2, a, b, c, d + t1, e, f, g))"

definition sha512_schedule :: "u64 list \<Rightarrow> nat \<Rightarrow> u64" where
  "sha512_schedule W t =
     TC_SHA512_SSIG1 (W ! ((t - 2) mod 16)) + W ! ((t - 7) mod 16) + TC_SHA512_SSIG0 (W ! ((t - 15) mod 16)) + W ! (t mod 16)"

definition sha512_round :: "nat \<Rightarrow> sha512_vars \<times> u64 list \<Rightarrow> sha512_vars \<times> u64 list" where
  "sha512_round t s =
     (case s of (v, W) \<Rightarrow> let w = sha512_schedule W t in (TC_SHA512_STEP v (K512 ! t) w, W[t mod 16 := w]))"

definition sha512_compress :: "u64 list \<Rightarrow> u8 list \<Rightarrow> u64 list" where
  "sha512_compress state block =
     (let W = map (\<lambda>t. tc_internal_load_be64 (drop (8 * t) block)) [0..<16];
          v = (state ! 0, state ! 1, state ! 2, state ! 3, state ! 4, state ! 5, state ! 6, state ! 7);
          v = fold (\<lambda>t v. TC_SHA512_STEP v (K512 ! t) (W ! t)) [0..<16] v
      in case fst (fold sha512_round [16..<80] (v, W)) of (a, b, c, d, e, f, g, h) \<Rightarrow>
           [state ! 0 + a, state ! 1 + b, state ! 2 + c, state ! 3 + d, state ! 4 + e, state ! 5 + f, state ! 6 + g, state ! 7 + h])"

definition sha512_state_init :: "u64 list \<Rightarrow> u64 list" where
  "sha512_state_init state =
     state[0 := 0x6A09E667F3BCC908, 1 := 0xBB67AE8584CAA73B, 2 := 0x3C6EF372FE94F82B, 3 := 0xA54FF53A5F1D36F1, 4 := 0x510E527FADE682D1, 5 := 0x9B05688C2B3E6C1F, 6 := 0x1F83D9ABFB41BD6B, 7 := 0x5BE0CD19137E2179]"

definition sha512_digest :: "u64 list \<Rightarrow> u8 list" where
  "sha512_digest state = tc_hash_store_be64_words state 8"

definition sha384_state_init :: "u64 list \<Rightarrow> u64 list" where
  "sha384_state_init state =
     state[0 := 0xCBBB9D5DC1059ED8, 1 := 0x629A292A367CD507, 2 := 0x9159015A3070DD17, 3 := 0x152FECD8F70E5939, 4 := 0x67332667FFC00B31, 5 := 0x8EB44A8768581511, 6 := 0xDB0C2E0D64F98FA7, 7 := 0x47B5481DBEFA4FA4]"

definition sha384_digest :: "u64 list \<Rightarrow> u8 list" where
  "sha384_digest state = tc_hash_store_be64_words state 6"

section \<open>MD5 (md5.c)\<close>

definition md5_constants :: "u32 list" where
  "md5_constants = concat [
     [0xd76aa478, 0xe8c7b756, 0x242070db, 0xc1bdceee, 0xf57c0faf, 0x4787c62a, 0xa8304613],
     [0xfd469501, 0x698098d8, 0x8b44f7af, 0xffff5bb1, 0x895cd7be, 0x6b901122, 0xfd987193],
     [0xa679438e, 0x49b40821, 0xf61e2562, 0xc040b340, 0x265e5a51, 0xe9b6c7aa, 0xd62f105d],
     [0x02441453, 0xd8a1e681, 0xe7d3fbc8, 0x21e1cde6, 0xc33707d6, 0xf4d50d87, 0x455a14ed],
     [0xa9e3e905, 0xfcefa3f8, 0x676f02d9, 0x8d2a4c8a, 0xfffa3942, 0x8771f681, 0x6d9d6122],
     [0xfde5380c, 0xa4beea44, 0x4bdecfa9, 0xf6bb4b60, 0xbebfbc70, 0x289b7ec6, 0xeaa127fa],
     [0xd4ef3085, 0x04881d05, 0xd9d4d039, 0xe6db99e5, 0x1fa27cf8, 0xc4ac5665, 0xf4292244],
     [0x432aff97, 0xab9423a7, 0xfc93a039, 0x655b59c3, 0x8f0ccc92, 0xffeff47d, 0x85845dd1],
     [0x6fa87e4f, 0xfe2ce6e0, 0xa3014314, 0x4e0811a1, 0xf7537e82, 0xbd3af235, 0x2ad7d2bb],
     [0xeb86d391]]"

definition md5_shifts :: "nat list list" where
  "md5_shifts = [[7, 12, 17, 22], [5, 9, 14, 20], [4, 11, 16, 23], [6, 10, 15, 21]]"

definition load_word :: "u8 list \<Rightarrow> u32" where
  "load_word data = ucast (data ! 0) OR push_bit 8 (ucast (data ! 1)) OR push_bit 16 (ucast (data ! 2)) OR push_bit 24 (ucast (data ! 3))"

definition md5_round :: "u8 list \<Rightarrow> nat \<Rightarrow> u32 \<times> u32 \<times> u32 \<times> u32 \<Rightarrow> u32 \<times> u32 \<times> u32 \<times> u32" where
  "md5_round block round v =
     (case v of (a, b, c, d) \<Rightarrow>
       let shift = md5_shifts ! (round div 16) ! (round mod 4);
           (func, w) = (if round < 16 then ((b AND c) OR (NOT b AND d), round)
                        else if round < 32 then ((b AND d) OR (c AND NOT d), (5 * round + 1) mod 16)
                        else if round < 48 then (b XOR c XOR d, (3 * round + 5) mod 16)
                        else (c XOR (b OR NOT d), (7 * round) mod 16));
           sum = a + func + md5_constants ! round + load_word (drop (4 * w) block)
       in (d, b + (push_bit shift sum OR drop_bit (32 - shift) sum), b, c))"

definition md5_compress :: "u32 list \<Rightarrow> u8 list \<Rightarrow> u32 list" where
  "md5_compress state block =
     (case fold (md5_round block) [0..<64] (state ! 0, state ! 1, state ! 2, state ! 3) of (a, b, c, d) \<Rightarrow>
        [state ! 0 + a, state ! 1 + b, state ! 2 + c, state ! 3 + d])"

definition md5_state_init :: "u32 list \<Rightarrow> u32 list" where
  "md5_state_init state = state[0 := 0x67452301, 1 := 0xefcdab89, 2 := 0x98badcfe, 3 := 0x10325476]"

definition md5_digest_out :: "u32 list \<Rightarrow> u8 list" where
  "md5_digest_out state = tc_hash_store_le32_words state 4"

section \<open>Descriptors\<close>

fun words32_of :: "hash_state \<Rightarrow> u32 list" where
  "words32_of (Words32 ws) = ws"
| "words32_of (Words64 ws) = []"

fun words64_of :: "hash_state \<Rightarrow> u64 list" where
  "words64_of (Words64 ws) = ws"
| "words64_of (Words32 ws) = []"

definition SHA_MAX_MESSAGE_BYTES :: nat where "SHA_MAX_MESSAGE_BYTES = (2 ^ 64 - 1) div 2 ^ 3"

definition SHA512_MAX_MESSAGE_BYTES :: nat where "SHA512_MAX_MESSAGE_BYTES = 2 ^ 64 - 1"

definition tc_sha1_info :: tc_hash_algorithm_info where
  "tc_sha1_info =
     \<lparr>hi_block_bytes = 64, hi_length_bytes = 8, hi_digest_bytes = 20, hi_length_encoding = TC_HASH_LENGTH_BIG_ENDIAN,
      hi_max_message_bytes = SHA_MAX_MESSAGE_BYTES, hi_state_init = on_words32 sha1_state_init,
      hi_compress = (\<lambda>s block. on_words32 (\<lambda>ws. sha1_compress ws block) s),
      hi_digest_out = (\<lambda>s. sha1_digest (words32_of s)), hi_zero_state = Words32 (replicate 5 0)\<rparr>"

definition tc_sha224_info :: tc_hash_algorithm_info where
  "tc_sha224_info =
     \<lparr>hi_block_bytes = 64, hi_length_bytes = 8, hi_digest_bytes = 28, hi_length_encoding = TC_HASH_LENGTH_BIG_ENDIAN,
      hi_max_message_bytes = SHA_MAX_MESSAGE_BYTES, hi_state_init = on_words32 sha224_state_init,
      hi_compress = (\<lambda>s block. on_words32 (\<lambda>ws. sha256_compress ws block) s),
      hi_digest_out = (\<lambda>s. sha224_digest (words32_of s)), hi_zero_state = Words32 (replicate 8 0)\<rparr>"

definition tc_sha256_info :: tc_hash_algorithm_info where
  "tc_sha256_info =
     \<lparr>hi_block_bytes = 64, hi_length_bytes = 8, hi_digest_bytes = 32, hi_length_encoding = TC_HASH_LENGTH_BIG_ENDIAN,
      hi_max_message_bytes = SHA_MAX_MESSAGE_BYTES, hi_state_init = on_words32 sha256_state_init,
      hi_compress = (\<lambda>s block. on_words32 (\<lambda>ws. sha256_compress ws block) s),
      hi_digest_out = (\<lambda>s. sha256_digest (words32_of s)), hi_zero_state = Words32 (replicate 8 0)\<rparr>"

definition tc_sha384_info :: tc_hash_algorithm_info where
  "tc_sha384_info =
     \<lparr>hi_block_bytes = 128, hi_length_bytes = 16, hi_digest_bytes = 48, hi_length_encoding = TC_HASH_LENGTH_BIG_ENDIAN,
      hi_max_message_bytes = SHA512_MAX_MESSAGE_BYTES, hi_state_init = on_words64 sha384_state_init,
      hi_compress = (\<lambda>s block. on_words64 (\<lambda>ws. sha512_compress ws block) s),
      hi_digest_out = (\<lambda>s. sha384_digest (words64_of s)), hi_zero_state = Words64 (replicate 8 0)\<rparr>"

definition tc_sha512_info :: tc_hash_algorithm_info where
  "tc_sha512_info =
     \<lparr>hi_block_bytes = 128, hi_length_bytes = 16, hi_digest_bytes = 64, hi_length_encoding = TC_HASH_LENGTH_BIG_ENDIAN,
      hi_max_message_bytes = SHA512_MAX_MESSAGE_BYTES, hi_state_init = on_words64 sha512_state_init,
      hi_compress = (\<lambda>s block. on_words64 (\<lambda>ws. sha512_compress ws block) s),
      hi_digest_out = (\<lambda>s. sha512_digest (words64_of s)), hi_zero_state = Words64 (replicate 8 0)\<rparr>"

definition tc_md5_info :: tc_hash_algorithm_info where
  "tc_md5_info =
     \<lparr>hi_block_bytes = 64, hi_length_bytes = 8, hi_digest_bytes = 16, hi_length_encoding = TC_HASH_LENGTH_LITTLE_ENDIAN,
      hi_max_message_bytes = 2 ^ 64 - 1, hi_state_init = on_words32 md5_state_init,
      hi_compress = (\<lambda>s block. on_words32 (\<lambda>ws. md5_compress ws block) s),
      hi_digest_out = (\<lambda>s. md5_digest_out (words32_of s)), hi_zero_state = Words32 (replicate 4 0)\<rparr>"

text \<open>The build enables the algorithms.\<close>

datatype TC_hash_algorithm = TC_HASH_UNKNOWN | TC_HASH_SHA1 | TC_HASH_SHA224 | TC_HASH_SHA256 | TC_HASH_SHA384 | TC_HASH_SHA512

definition tc_hash_core_lookup :: "(TC_hash_algorithm \<Rightarrow> bool) \<Rightarrow> TC_hash_algorithm \<Rightarrow> tc_hash_algorithm_info option" where
  "tc_hash_core_lookup enable algorithm =
     (if \<not> enable algorithm then None
      else case algorithm of
        TC_HASH_SHA1 \<Rightarrow> Some tc_sha1_info
      | TC_HASH_SHA224 \<Rightarrow> Some tc_sha224_info
      | TC_HASH_SHA256 \<Rightarrow> Some tc_sha256_info
      | TC_HASH_SHA384 \<Rightarrow> Some tc_sha384_info
      | TC_HASH_SHA512 \<Rightarrow> Some tc_sha512_info
      | TC_HASH_UNKNOWN \<Rightarrow> None)"

definition tc_hash_core_digest_bytes :: "tc_hash_algorithm_info \<Rightarrow> nat" where
  "tc_hash_core_digest_bytes info = hi_digest_bytes info"

section \<open>Public functions (the macros of hash\_core\_internal.h)\<close>

text \<open>
  \<^verbatim>\<open>TC_HASH_DEFINE\<close> and \<^verbatim>\<open>TC_HMAC_DEFINE\<close> declare the functions of one algorithm; here the descriptor is an argument. The
  context of a one-shot call is a local object, and so is its wiped value after the call.
\<close>

definition TC_NAME_init :: "tc_hash_algorithm_info \<Rightarrow> hash_ctx obj \<Rightarrow> TC_status \<times> hash_ctx obj" where
  "TC_NAME_init info ctx = tc_hash_core_init info ctx"

definition TC_NAME_update :: "tc_hash_algorithm_info \<Rightarrow> hash_ctx obj \<Rightarrow> TC_bytes \<Rightarrow> TC_status \<times> hash_ctx obj" where
  "TC_NAME_update info ctx data = tc_hash_core_update info ctx data"

definition TC_NAME_final :: "tc_hash_algorithm_info \<Rightarrow> hash_ctx obj \<Rightarrow> TC_buffer \<Rightarrow> TC_status \<times> hash_ctx obj \<times> TC_buffer" where
  "TC_NAME_final info ctx digest = tc_hash_core_final info ctx digest"

definition TC_NAME_ctx_clear :: "tc_hash_algorithm_info \<Rightarrow> hash_ctx obj \<Rightarrow> hash_ctx obj" where
  "TC_NAME_ctx_clear info ctx = tc_hash_core_clear info ctx"

definition TC_NAME_digest :: "tc_hash_algorithm_info \<Rightarrow> hash_ctx obj \<Rightarrow> TC_bytes \<Rightarrow> TC_buffer \<Rightarrow> TC_status \<times> TC_buffer" where
  "TC_NAME_digest info ctx data digest =
     (case tc_hash_core_digest info ctx data digest of (status, ctx, digest) \<Rightarrow> (status, digest))"

definition TC_HMAC_NAME_init :: "tc_hash_algorithm_info \<Rightarrow> hmac_ctx obj \<Rightarrow> TC_bytes \<Rightarrow> TC_status \<times> hmac_ctx obj" where
  "TC_HMAC_NAME_init info ctx k = tc_hmac_core_init info ctx k"

definition TC_HMAC_NAME_update :: "tc_hash_algorithm_info \<Rightarrow> hmac_ctx obj \<Rightarrow> TC_bytes \<Rightarrow> TC_status \<times> hmac_ctx obj" where
  "TC_HMAC_NAME_update info ctx data = tc_hmac_core_update info ctx data"

definition TC_HMAC_NAME_final :: "tc_hash_algorithm_info \<Rightarrow> hmac_ctx obj \<Rightarrow> TC_buffer \<Rightarrow> TC_status \<times> hmac_ctx obj \<times> TC_buffer" where
  "TC_HMAC_NAME_final info ctx tag = tc_hmac_core_final info ctx tag"

definition TC_HMAC_NAME_ctx_clear :: "tc_hash_algorithm_info \<Rightarrow> hmac_ctx obj \<Rightarrow> hmac_ctx obj" where
  "TC_HMAC_NAME_ctx_clear info ctx = tc_hmac_core_clear info ctx"

definition TC_HMAC_NAME_digest ::
  "hmac_build \<Rightarrow> tc_hash_algorithm_info \<Rightarrow> hmac_ctx obj \<Rightarrow> addr \<Rightarrow> TC_bytes \<Rightarrow> TC_bytes \<Rightarrow> TC_buffer \<Rightarrow> TC_status \<times> TC_buffer" where
  "TC_HMAC_NAME_digest bo info ctx full_at k message tag =
     (case tc_hmac_core_digest bo info ctx full_at k message tag False of (status, ctx, tag) \<Rightarrow> (status, tag))"

definition TC_HMAC_NAME_digest_short_tag ::
  "hmac_build \<Rightarrow> tc_hash_algorithm_info \<Rightarrow> hmac_ctx obj \<Rightarrow> addr \<Rightarrow> TC_bytes \<Rightarrow> TC_bytes \<Rightarrow> TC_buffer \<Rightarrow> TC_status \<times> TC_buffer" where
  "TC_HMAC_NAME_digest_short_tag bo info ctx full_at k message tag =
     (case tc_hmac_core_digest bo info ctx full_at k message tag True of (status, ctx, tag) \<Rightarrow> (status, tag))"

definition TC_HMAC_NAME_verify ::
  "hmac_build \<Rightarrow> tc_hash_algorithm_info \<Rightarrow> hmac_ctx obj \<Rightarrow> addr \<Rightarrow> addr \<Rightarrow> TC_bytes \<Rightarrow> TC_bytes \<Rightarrow> TC_bytes \<Rightarrow> TC_status" where
  "TC_HMAC_NAME_verify bo info ctx full_at at k message tag = fst (tc_hmac_core_verify bo info ctx full_at at k message tag False)"

definition TC_HMAC_NAME_verify_short_tag ::
  "hmac_build \<Rightarrow> tc_hash_algorithm_info \<Rightarrow> hmac_ctx obj \<Rightarrow> addr \<Rightarrow> addr \<Rightarrow> TC_bytes \<Rightarrow> TC_bytes \<Rightarrow> TC_bytes \<Rightarrow> TC_status" where
  "TC_HMAC_NAME_verify_short_tag bo info ctx full_at at k message tag = fst (tc_hmac_core_verify bo info ctx full_at at k message tag True)"

end
