(* ===== verification/SHA_Constants.thy ===== *)
theory SHA_Constants
  imports SHA Complex_Main
begin

text \<open>
  The constants of FIPS 180-4: the round constants and initial states of SHA-2 are the leading bits of the fractional parts
  of roots of the first primes, and the lemmas show that the tables of the sources are these bits.
\<close>

section \<open>Fractions of roots\<close>

text \<open>The first eighty primes, and the leading bits of the fractional part of a root, as many as a word has.\<close>

definition first_primes :: "nat list" where
  "first_primes =
     [2, 3, 5, 7, 11, 13, 17, 19, 23, 29, 31, 37, 41, 43, 47, 53, 59, 61, 67, 71,
      73, 79, 83, 89, 97, 101, 103, 107, 109, 113, 127, 131, 137, 139, 149, 151, 157, 163, 167, 173,
      179, 181, 191, 193, 197, 199, 211, 223, 227, 229, 233, 239, 241, 251, 257, 263, 269, 271, 277, 281,
      283, 293, 307, 311, 313, 317, 331, 337, 347, 349, 353, 359, 367, 373, 379, 383, 389, 397, 401, 409]"

definition root_fraction :: "nat \<Rightarrow> nat \<Rightarrow> 'a::len word" where
  "root_fraction n p = of_int \<lfloor>2 ^ LENGTH('a) * root n (real p)\<rfloor>"

text \<open>An integer between two cubes or squares decides the leading bits of a root.\<close>

lemma root_fraction_eqI:
  fixes k :: "'a::len word"
  assumes "0 < n" "c ^ n \<le> p * (2 ^ LENGTH('a)) ^ n" "p * (2 ^ LENGTH('a)) ^ n < (c + 1) ^ n" "k = of_nat c"
  shows "root_fraction n p = k"
proof -
  have r: "2 ^ LENGTH('a) * root n (real p) = root n (real (p * (2 ^ LENGTH('a)) ^ n))"
    using assms(1) by (simp add: real_root_mult mult.commute real_root_power_cancel)
  have "real c \<le> root n (real (p * (2 ^ LENGTH('a)) ^ n))"
  proof -
    have "real (c ^ n) \<le> real (p * (2 ^ LENGTH('a)) ^ n)" using assms(2) by (simp only: of_nat_le_iff)
    then have "root n (real c ^ n) \<le> root n (real (p * (2 ^ LENGTH('a)) ^ n))"
      using assms(1) by (simp only: of_nat_power real_root_le_iff)
    then show ?thesis using assms(1) by (simp add: real_root_power_cancel)
  qed
  moreover have "root n (real (p * (2 ^ LENGTH('a)) ^ n)) < real c + 1"
  proof -
    have "real (p * (2 ^ LENGTH('a)) ^ n) < real ((c + 1) ^ n)" using assms(3) by (simp only: of_nat_less_iff)
    then have "root n (real (p * (2 ^ LENGTH('a)) ^ n)) < root n (real (c + 1) ^ n)"
      using assms(1) by (simp only: of_nat_power real_root_less_iff)
    then show ?thesis using assms(1) by (simp add: real_root_power_cancel)
  qed
  ultimately have "\<lfloor>2 ^ LENGTH('a) * root n (real p)\<rfloor> = int c"
    unfolding r by (simp add: floor_eq_iff)
  then show ?thesis by (simp add: root_fraction_def assms(4))
qed

definition root_check :: "nat \<Rightarrow> nat \<Rightarrow> nat \<Rightarrow> nat \<Rightarrow> nat \<Rightarrow> bool" where
  "root_check n w q p k \<longleftrightarrow> (q * 2 ^ w + k) ^ n \<le> p * (2 ^ w) ^ n \<and> p * (2 ^ w) ^ n < (q * 2 ^ w + k + 1) ^ n"

lemma root_fraction_check:
  assumes "0 < n" "root_check n LENGTH('a) q p (unat (k :: 'a::len word))"
  shows "root_fraction n p = k"
proof -
  have "k = of_nat (q * 2 ^ LENGTH('a) + unat k)" by simp
  then show ?thesis
    using assms by (intro root_fraction_eqI [of n "q * 2 ^ LENGTH('a) + unat k"]) (simp_all only: root_check_def)
qed

text \<open>The integral parts of the roots.\<close>

definition cube_root_parts :: "nat list" where
  "cube_root_parts =
     [1, 1, 1, 1, 2, 2, 2, 2, 2, 3, 3, 3, 3, 3, 3, 3, 3, 3, 4, 4, 4, 4, 4, 4, 4, 4, 4, 4, 4, 4, 5, 5, 5, 5, 5, 5, 5, 5, 5, 5,
      5, 5, 5, 5, 5, 5, 5, 6, 6, 6, 6, 6, 6, 6, 6, 6, 6, 6, 6, 6, 6, 6, 6, 6, 6, 6, 6, 6, 7, 7, 7, 7, 7, 7, 7, 7, 7, 7, 7, 7]"

definition square_root_parts :: "nat list" where
  "square_root_parts = [1, 1, 2, 2, 3, 3, 4, 4, 4, 5, 5, 6, 6, 6, 6, 7]"

lemma K256_checks: "list_all (\<lambda>(q, p, k). root_check 3 32 q p (unat k)) (zip cube_root_parts (zip first_primes K256))"
  by (simp add: cube_root_parts_def first_primes_def K256_def root_check_def)

lemma K512_checks0: "list_all (\<lambda>(q, p, k). root_check 3 64 q p (unat k)) (take 20 (zip cube_root_parts (zip first_primes K512)))"
  by (simp add: cube_root_parts_def first_primes_def K512_def root_check_def)

lemma K512_checks1: "list_all (\<lambda>(q, p, k). root_check 3 64 q p (unat k)) (take 20 (drop 20 (zip cube_root_parts (zip first_primes K512))))"
  by (simp add: cube_root_parts_def first_primes_def K512_def root_check_def)

lemma K512_checks2: "list_all (\<lambda>(q, p, k). root_check 3 64 q p (unat k)) (take 20 (drop 40 (zip cube_root_parts (zip first_primes K512))))"
  by (simp add: cube_root_parts_def first_primes_def K512_def root_check_def)

lemma K512_checks3: "list_all (\<lambda>(q, p, k). root_check 3 64 q p (unat k)) (drop 60 (zip cube_root_parts (zip first_primes K512)))"
  by (simp add: cube_root_parts_def first_primes_def K512_def root_check_def)

lemma replicate_words: "replicate 8 x = [x, x, x, x, x, x, x, x]" "replicate 5 x = [x, x, x, x, x]" "replicate 4 x = [x, x, x, x]"
  by (simp_all add: numeral_eq_Suc)

lemma state_checks:
  "list_all (\<lambda>(q, p, k). root_check 2 32 q p (unat k)) (zip square_root_parts (zip first_primes (sha256_state_init (replicate 8 0))))"
  "list_all (\<lambda>(q, p, k). root_check 2 64 q p (unat k))
     (zip square_root_parts (zip first_primes (sha512_state_init (replicate 8 0) @ sha384_state_init (replicate 8 0))))"
  by (simp_all add: square_root_parts_def first_primes_def root_check_def sha256_state_init_def sha512_state_init_def sha384_state_init_def
      replicate_words)

lemma list_all_roots:
  fixes ks :: "'a::len word list"
  assumes "list_all (\<lambda>(q, p, k). root_check n LENGTH('a) q p (unat k)) (zip qs (zip ps ks))" "0 < n" "t < length qs" "t < length ps" "t < length ks"
  shows "ks ! t = root_fraction n (ps ! t)"
proof -
  have "root_check n LENGTH('a) (qs ! t) (ps ! t) (unat (ks ! t))"
    using assms(1,3-5) by (auto simp: list_all_length)
  from root_fraction_check [OF assms(2) this] show ?thesis by simp
qed

lemma length_tables: "length K256 = 64" "length K512 = 80" "length first_primes = 80" "length cube_root_parts = 80" "length square_root_parts = 16"
  by (simp_all add: K256_def K512_def first_primes_def cube_root_parts_def square_root_parts_def)

lemma K256_root: "t < 64 \<Longrightarrow> K256 ! t = root_fraction 3 (first_primes ! t)"
  using K256_checks by (intro list_all_roots [where qs = cube_root_parts]) (simp_all add: length_tables)

lemma K512_root: "t < 80 \<Longrightarrow> K512 ! t = root_fraction 3 (first_primes ! t)"
proof -
  let ?P = "\<lambda>(q, p, k). root_check 3 64 q p (unat (k :: u64))" and ?z = "zip cube_root_parts (zip first_primes K512)"
  have step: "list_all ?P (drop m ?z)" if "list_all ?P (take n (drop m ?z))" "list_all ?P (drop (n + m) ?z)" for m n
  proof -
    have "drop m ?z = take n (drop m ?z) @ drop (n + m) ?z" by (metis append_take_drop_id drop_drop)
    then show ?thesis using that by (metis list_all_append)
  qed
  have "list_all ?P (drop 40 ?z)" using step [of 20 40] K512_checks2 K512_checks3 by simp
  then have "list_all ?P (drop 20 ?z)" using step [of 20 20] K512_checks1 by simp
  then have "list_all ?P ?z" using step [of 20 0] K512_checks0 by simp
  then show "t < 80 \<Longrightarrow> K512 ! t = root_fraction 3 (first_primes ! t)"
    by (intro list_all_roots [where qs = cube_root_parts]) (simp_all add: length_tables)
qed

lemma sha256_init_root: "sha256_state_init (replicate 8 0) = map (root_fraction 2) (take 8 first_primes)"
proof (rule nth_equalityI)
  fix t assume "t < length (sha256_state_init (replicate 8 0))"
  then have "t < 8" by (simp add: sha256_state_init_def)
  then show "sha256_state_init (replicate 8 0) ! t = map (root_fraction 2) (take 8 first_primes) ! t"
    using list_all_roots [where ks = "sha256_state_init (replicate 8 0)" and ps = first_primes and n = 2 and qs = square_root_parts and t = t] state_checks(1)
    by (simp add: length_tables sha256_state_init_def)
qed (simp add: length_tables sha256_state_init_def)

lemma sha512_init_root:
  "sha512_state_init (replicate 8 0) @ sha384_state_init (replicate 8 0) = map (root_fraction 2) (take 16 first_primes)" (is "?s = _")
proof (rule nth_equalityI)
  have l: "length ?s = 16" by (simp add: sha512_state_init_def sha384_state_init_def)
  fix t assume "t < length ?s"
  then have "t < 16" unfolding l .
  then show "?s ! t = map (root_fraction 2) (take 16 first_primes) ! t"
    using list_all_roots [where ks = ?s and ps = first_primes and n = 2 and qs = square_root_parts and t = t] state_checks(2)
    by (simp add: length_tables sha512_state_init_def sha384_state_init_def)
qed (simp add: length_tables sha512_state_init_def sha384_state_init_def)

text \<open>The initial state of SHA-224 consists of the low halves of that of SHA-384.\<close>

lemma sha224_init_low: "sha224_state_init (replicate 8 0) = map ucast (sha384_state_init (replicate 8 0))"
  by (simp add: sha224_state_init_def sha384_state_init_def replicate_words)

end
