(* ===== verification/SHA_FIPS.thy ===== *)
theory SHA_FIPS
  imports SHA_Constants
begin

text \<open>
  The Secure Hash Standard, FIPS 180-4, and the lemmas that \<^verbatim>\<open>src/src/hash.c\<close> and \<^verbatim>\<open>src/src/sha512.c\<close> compute it. The
  interpretations of \<open>hash_algorithm\<close> carry the results of the core to every descriptor.
\<close>

section \<open>The standard\<close>

definition fips_ch :: "'a::len word \<Rightarrow> 'a word \<Rightarrow> 'a word \<Rightarrow> 'a word" where
  "fips_ch x y z = (x AND y) XOR (NOT x AND z)"

definition fips_parity :: "'a::len word \<Rightarrow> 'a word \<Rightarrow> 'a word \<Rightarrow> 'a word" where
  "fips_parity x y z = x XOR y XOR z"

definition fips_maj :: "'a::len word \<Rightarrow> 'a word \<Rightarrow> 'a word \<Rightarrow> 'a word" where
  "fips_maj x y z = (x AND y) XOR (x AND z) XOR (y AND z)"

definition fips_sha2_k :: "nat \<Rightarrow> 'a::len word" where
  "fips_sha2_k t = root_fraction 3 (first_primes ! t)"

text \<open>A block is sixteen words, most significant byte first, each of \<open>n\<close> bytes.\<close>

definition block_word :: "nat \<Rightarrow> u8 list \<Rightarrow> nat \<Rightarrow> 'a::len word" where
  "block_word n block t = of_nat (be_val (take n (drop (n * t) block)))"

subsection \<open>SHA-1\<close>

fun fips_sha1_w :: "u8 list \<Rightarrow> nat \<Rightarrow> u32" where
  "fips_sha1_w block t =
     (if t < 16 then block_word 4 block t
      else word_rotl 1 (fips_sha1_w block (t - 3) XOR fips_sha1_w block (t - 8) XOR fips_sha1_w block (t - 14) XOR fips_sha1_w block (t - 16)))"

declare fips_sha1_w.simps [simp del]

definition fips_sha1_f :: "nat \<Rightarrow> u32 \<Rightarrow> u32 \<Rightarrow> u32 \<Rightarrow> u32" where
  "fips_sha1_f t = (if t < 20 then fips_ch else if 40 \<le> t \<and> t < 60 then fips_maj else fips_parity)"

definition fips_sha1_k :: "nat \<Rightarrow> u32" where
  "fips_sha1_k t = (if t < 20 then 0x5a827999 else if t < 40 then 0x6ed9eba1 else if t < 60 then 0x8f1bbcdc else 0xca62c1d6)"

definition fips_sha1_step :: "nat \<Rightarrow> u32 \<Rightarrow> sha1_vars \<Rightarrow> sha1_vars" where
  "fips_sha1_step t w v =
     (case v of (a, b, c, d, e) \<Rightarrow>
       (word_rotl 5 a + fips_sha1_f t b c d + e + fips_sha1_k t + w, a, word_rotl 30 b, c, d))"

definition fips_sha1_block :: "u32 list \<Rightarrow> u8 list \<Rightarrow> u32 list" where
  "fips_sha1_block h block =
     (case fold (\<lambda>t. fips_sha1_step t (fips_sha1_w block t)) [0..<80] (h ! 0, h ! 1, h ! 2, h ! 3, h ! 4) of (a, b, c, d, e) \<Rightarrow>
        [h ! 0 + a, h ! 1 + b, h ! 2 + c, h ! 3 + d, h ! 4 + e])"

definition fips_sha1 :: "u8 list \<Rightarrow> u8 list" where
  "fips_sha1 m = concat (map (\<lambda>w. be_bytes 4 (unat w))
     (hash_fold fips_sha1_block 64 [0x67452301, 0xefcdab89, 0x98badcfe, 0x10325476, 0xc3d2e1f0] (md_pad TC_HASH_LENGTH_BIG_ENDIAN 64 8 m)))"

subsection \<open>SHA-2\<close>

text \<open>
  The functions with capital and small sigma are given by their three rotation or shift counts; the algorithms of one word
  size share the compression.
\<close>

definition fips_big_sigma :: "nat \<times> nat \<times> nat \<Rightarrow> 'a::len word \<Rightarrow> 'a word" where
  "fips_big_sigma n x = (case n of (i, j, k) \<Rightarrow> word_rotr i x XOR word_rotr j x XOR word_rotr k x)"

definition fips_small_sigma :: "nat \<times> nat \<times> nat \<Rightarrow> 'a::len word \<Rightarrow> 'a word" where
  "fips_small_sigma n x = (case n of (i, j, k) \<Rightarrow> word_rotr i x XOR word_rotr j x XOR drop_bit k x)"

type_synonym sigma_counts = "nat \<times> nat \<times> nat"

fun fips_sha2_w :: "sigma_counts \<Rightarrow> sigma_counts \<Rightarrow> (nat \<Rightarrow> 'a::len word) \<Rightarrow> nat \<Rightarrow> 'a word" where
  "fips_sha2_w s0 s1 m t =
     (if t < 16 then m t
      else fips_small_sigma s1 (fips_sha2_w s0 s1 m (t - 2)) + fips_sha2_w s0 s1 m (t - 7) +
           fips_small_sigma s0 (fips_sha2_w s0 s1 m (t - 15)) + fips_sha2_w s0 s1 m (t - 16))"

declare fips_sha2_w.simps [simp del]

definition fips_sha2_step :: "sigma_counts \<Rightarrow> sigma_counts \<Rightarrow> nat \<Rightarrow> 'a::len word \<Rightarrow>
    'a word \<times> 'a word \<times> 'a word \<times> 'a word \<times> 'a word \<times> 'a word \<times> 'a word \<times> 'a word \<Rightarrow>
    'a word \<times> 'a word \<times> 'a word \<times> 'a word \<times> 'a word \<times> 'a word \<times> 'a word \<times> 'a word" where
  "fips_sha2_step b0 b1 t w v =
     (case v of (a, b, c, d, e, f, g, h) \<Rightarrow>
       let t1 = h + fips_big_sigma b1 e + fips_ch e f g + fips_sha2_k t + w;
           t2 = fips_big_sigma b0 a + fips_maj a b c
       in (t1 + t2, a, b, c, d + t1, e, f, g))"

definition fips_sha2_block :: "sigma_counts \<Rightarrow> sigma_counts \<Rightarrow> nat \<Rightarrow> (nat \<Rightarrow> 'a::len word) \<Rightarrow> 'a word list \<Rightarrow> 'a word list" where
  "fips_sha2_block b0 b1 n w h =
     (case fold (\<lambda>t. fips_sha2_step b0 b1 t (w t)) [0..<n] (h ! 0, h ! 1, h ! 2, h ! 3, h ! 4, h ! 5, h ! 6, h ! 7) of (a, b, c, d, e, f, g, i) \<Rightarrow>
        [h ! 0 + a, h ! 1 + b, h ! 2 + c, h ! 3 + d, h ! 4 + e, h ! 5 + f, h ! 6 + g, h ! 7 + i])"

definition fips_sha256_block :: "u32 list \<Rightarrow> u8 list \<Rightarrow> u32 list" where
  "fips_sha256_block h block =
     fips_sha2_block (2, 13, 22) (6, 11, 25) 64 (fips_sha2_w (7, 18, 3) (17, 19, 10) (block_word 4 block)) h"

definition fips_sha512_block :: "u64 list \<Rightarrow> u8 list \<Rightarrow> u64 list" where
  "fips_sha512_block h block =
     fips_sha2_block (28, 34, 39) (14, 18, 41) 80 (fips_sha2_w (1, 8, 7) (19, 61, 6) (block_word 8 block)) h"

definition fips_sha256 :: "u8 list \<Rightarrow> u8 list" where
  "fips_sha256 m = concat (map (\<lambda>w. be_bytes 4 (unat w))
     (hash_fold fips_sha256_block 64 (map (root_fraction 2) (take 8 first_primes)) (md_pad TC_HASH_LENGTH_BIG_ENDIAN 64 8 m)))"

text \<open>SHA-224 starts from the second 32 bits of the fractions of SHA-384.\<close>

definition fips_sha224 :: "u8 list \<Rightarrow> u8 list" where
  "fips_sha224 m = concat (map (\<lambda>w. be_bytes 4 (unat w)) (take 7
     (hash_fold fips_sha256_block 64 (map (\<lambda>p. ucast (root_fraction 2 p :: u64)) (take 8 (drop 8 first_primes))) (md_pad TC_HASH_LENGTH_BIG_ENDIAN 64 8 m))))"

definition fips_sha512 :: "u8 list \<Rightarrow> u8 list" where
  "fips_sha512 m = concat (map (\<lambda>w. be_bytes 8 (unat w))
     (hash_fold fips_sha512_block 128 (map (root_fraction 2) (take 8 first_primes)) (md_pad TC_HASH_LENGTH_BIG_ENDIAN 128 16 m)))"

definition fips_sha384 :: "u8 list \<Rightarrow> u8 list" where
  "fips_sha384 m = concat (map (\<lambda>w. be_bytes 8 (unat w)) (take 6
     (hash_fold fips_sha512_block 128 (map (root_fraction 2) (take 8 (drop 8 first_primes))) (md_pad TC_HASH_LENGTH_BIG_ENDIAN 128 16 m))))"

section \<open>Functions on words\<close>

lemma rotr_eq:
  fixes x :: "'a::len word"
  assumes "n < LENGTH('a)"
  shows "drop_bit n x OR push_bit (LENGTH('a) - n) x = word_rotr n x"
proof (rule bit_word_eqI)
  fix i assume i: "i < LENGTH('a)"
  show "bit (drop_bit n x OR push_bit (LENGTH('a) - n) x) i = bit (word_rotr n x) i"
  proof (cases "i + n < LENGTH('a)")
    case True
    then show ?thesis using i by (auto simp: bit_simps add.commute)
  next
    case False
    then have "(i + n) mod LENGTH('a) = i - (LENGTH('a) - n)" using i assms by (simp add: le_mod_geq)
    moreover have "\<not> bit x (n + i)" using False by (auto dest: bit_imp_le_length)
    ultimately show ?thesis using i False assms by (auto simp: bit_simps add.commute)
  qed
qed

lemma rotl_eq:
  fixes x :: "'a::len word"
  assumes "0 < n" "n < LENGTH('a)"
  shows "push_bit n x OR drop_bit (LENGTH('a) - n) x = word_rotl n x"
  using rotr_eq [of "LENGTH('a) - n" x] assms by (simp add: word_rotl_eq_word_rotr or.commute)

lemma rotations:
  "n < 32 \<Longrightarrow> ROTR32 x n = word_rotr n x" "n < 64 \<Longrightarrow> ROTR64 y n = word_rotr n y"
  "0 < n \<Longrightarrow> n < 32 \<Longrightarrow> ROTL32 x n = word_rotl n x"
  using rotr_eq [of n x] rotr_eq [of n y] rotl_eq [of n x] by (simp_all add: ROTR32_def ROTR64_def ROTL32_def)

lemma choice_eq: "z XOR (x AND (y XOR z)) = fips_ch x y (z :: 'a::len word)"
  unfolding fips_ch_def by (rule bit_word_eqI) (auto simp: bit_simps)

lemma majority_eq: "(x AND y) OR (z AND (x XOR y)) = fips_maj x y (z :: 'a::len word)"
  unfolding fips_maj_def by (rule bit_word_eqI) (auto simp: bit_simps)

lemma load_word_be:
  assumes "n * t + n \<le> length block"
  shows "n = 4 \<Longrightarrow> tc_internal_load_be32 (drop (n * t) block) = block_word n block t"
    "n = 8 \<Longrightarrow> tc_internal_load_be64 (drop (n * t) block) = block_word n block t"
proof -
  show "tc_internal_load_be32 (drop (n * t) block) = block_word n block t" if "n = 4"
  proof -
    have "unat (tc_internal_load_be32 (take n (drop (n * t) block))) = be_val (take n (drop (n * t) block))"
      using assms that by (intro unat_load_be32) simp
    from arg_cong [OF this, of "of_nat :: nat \<Rightarrow> u32"]
    have "tc_internal_load_be32 (take n (drop (n * t) block)) = block_word n block t" by (simp add: block_word_def)
    then show ?thesis using that by (simp add: tc_internal_load_be32_def)
  qed
  show "tc_internal_load_be64 (drop (n * t) block) = block_word n block t" if "n = 8"
  proof -
    have "unat (tc_internal_load_be64 (take n (drop (n * t) block))) = be_val (take n (drop (n * t) block))"
      using assms that by (intro unat_load_be64) simp
    from arg_cong [OF this, of "of_nat :: nat \<Rightarrow> u64"]
    have "tc_internal_load_be64 (take n (drop (n * t) block)) = block_word n block t" by (simp add: block_word_def)
    moreover have "tc_internal_load_be64 (take 8 xs) = tc_internal_load_be64 xs" for xs
      unfolding tc_internal_load_be64_def by (rule fold_cong) simp_all
    ultimately show ?thesis using that by simp
  qed
qed

section \<open>The rolling schedule\<close>

text \<open>Before round \<open>t\<close> the array of sixteen words holds the schedule words \<open>t - 16\<close> to \<open>t - 1\<close>.\<close>

definition rolling :: "(nat \<Rightarrow> 'w) \<Rightarrow> nat \<Rightarrow> 'w list \<Rightarrow> bool" where
  "rolling S t W \<longleftrightarrow> length W = 16 \<and> (\<forall>j < t. t \<le> j + 16 \<longrightarrow> W ! (j mod 16) = S j)"

lemma rolling_step: "rolling S t W \<Longrightarrow> rolling S (Suc t) (W[t mod 16 := S t])"
proof -
  assume r: "rolling S t W"
  have "t mod 16 \<noteq> j mod 16" if "j < t" "t < j + 16" for j
  proof
    assume "t mod 16 = j mod 16"
    then have "16 dvd t - j" using that by (simp add: mod_eq_dvd_iff_nat)
    with that show False by (auto dest: dvd_imp_le)
  qed
  then show ?thesis using r by (auto simp: rolling_def nth_list_update less_Suc_eq)
qed

lemma rolling_nth:
  assumes "rolling S t W" "16 \<le> t"
  shows "0 < k \<Longrightarrow> k \<le> 16 \<Longrightarrow> W ! ((t - k) mod 16) = S (t - k)" "W ! (t mod 16) = S (t - 16)"
proof -
  show r: "0 < k \<Longrightarrow> k \<le> 16 \<Longrightarrow> W ! ((t - k) mod 16) = S (t - k)" for k using assms by (simp add: rolling_def)
  show "W ! (t mod 16) = S (t - 16)" using r [of 16] assms(2) by (simp add: le_mod_geq)
qed

lemma rolling_fold:
  assumes "\<And>t W. rolling S t W \<Longrightarrow> 16 \<le> t \<Longrightarrow> g W t = S t" "\<And>t v W. h t (v, W) = (f t (g W t) v, W[t mod 16 := g W t])"
    "rolling S m W" "16 \<le> m" "m \<le> n"
  shows "\<exists>W'. fold h [m..<n] (v, W) = (fold (\<lambda>t. f t (S t)) [m..<n] v, W') \<and> rolling S n W'"
  using assms(5)
proof (induction n rule: dec_induct)
  case base
  then show ?case using assms(3) by simp
next
  case (step n)
  then obtain W' where "fold h [m..<n] (v, W) = (fold (\<lambda>t. f t (S t)) [m..<n] v, W')" "rolling S n W'" by blast
  then show ?case using step(1) assms(1,2,4) rolling_step by fastforce
qed

lemma rolling_start: "rolling S 16 (map S [0..<16])"
  by (simp add: rolling_def)

section \<open>Compression\<close>

lemma upt_split: "i \<le> j \<Longrightarrow> j \<le> k \<Longrightarrow> [i..<k] = [i..<j] @ [j..<k]"
  by (metis le_Suc_ex upt_add_eq_append)

lemma sha1_schedule_eq: "rolling (fips_sha1_w block) t W \<Longrightarrow> 16 \<le> t \<Longrightarrow> sha1_schedule W t = fips_sha1_w block t"
  using rolling_nth [of "fips_sha1_w block" t W]
  by (simp add: sha1_schedule_def fips_sha1_w.simps [of block t] rotations)

lemma sha1_rounds:
  assumes "rolling (fips_sha1_w block) m W" "16 \<le> m" "m \<le> n"
    and "\<And>t b c d. t \<in> {m..<n} \<Longrightarrow> f b c d = fips_sha1_f t b c d" "\<And>t. t \<in> {m..<n} \<Longrightarrow> k = fips_sha1_k t"
  shows "\<exists>W'. fold (sha1_round f k) [m..<n] (v, W) = (fold (\<lambda>t. fips_sha1_step t (fips_sha1_w block t)) [m..<n] v, W') \<and>
    rolling (fips_sha1_w block) n W'"
proof -
  let ?f = "\<lambda>t w v. case v of (a, b, c, d, e) \<Rightarrow> TC_SHA1_STEP v (f b c d) k w"
  have "sha1_round f k t (v, W) = (?f t (sha1_schedule W t) v, W[t mod 16 := sha1_schedule W t])" for t v W
    by (cases v) (simp add: sha1_round_def Let_def)
  from rolling_fold [OF sha1_schedule_eq this assms(1-3), of v] obtain W' where
    "fold (sha1_round f k) [m..<n] (v, W) = (fold (\<lambda>t. ?f t (fips_sha1_w block t)) [m..<n] v, W')" "rolling (fips_sha1_w block) n W'"
    by blast
  moreover have "fold (\<lambda>t. ?f t (fips_sha1_w block t)) [m..<n] v = fold (\<lambda>t. fips_sha1_step t (fips_sha1_w block t)) [m..<n] v"
  proof (rule fold_cong [OF refl refl])
    fix t assume "t \<in> set [m..<n]"
    then show "?f t (fips_sha1_w block t) = fips_sha1_step t (fips_sha1_w block t)"
      using assms(4,5) [of t] by (intro ext) (auto simp: TC_SHA1_STEP_def fips_sha1_step_def rotations)
  qed
  ultimately show ?thesis by auto
qed

lemma sha1_compress_eq:
  assumes "length block = 64"
  shows "sha1_compress h block = fips_sha1_block h block"
proof -
  let ?S = "fips_sha1_w block" and ?v0 = "(h ! 0, h ! 1, h ! 2, h ! 3, h ! 4)"
  let ?W = "map (\<lambda>t. tc_internal_load_be32 (drop (4 * t) block)) [0..<16]"
  let ?run = "\<lambda>i j v. fold (\<lambda>t. fips_sha1_step t (?S t)) [i..<j] v"
  let ?ch = "\<lambda>b c d :: u32. d XOR (b AND (c XOR d))" and ?pa = "\<lambda>b c d :: u32. b XOR c XOR d" and ?ma = "\<lambda>b c d :: u32. (b AND c) OR (d AND (b XOR c))"
  have W: "?W = map ?S [0..<16]"
    using assms by (intro map_cong) (auto simp: fips_sha1_w.simps [of block] load_word_be(1))
  have first: "fold (\<lambda>t v. case v of (a, b, c, d, e) \<Rightarrow> TC_SHA1_STEP v (d XOR (b AND (c XOR d))) 0x5A827999 (?W ! t)) [0..<16] ?v0 = ?run 0 16 ?v0"
  proof (rule fold_cong [OF refl refl])
    fix t assume "t \<in> set [0..<16 :: nat]"
    then have "?W ! t = ?S t" "t < 16" unfolding W by simp_all
    then show "(\<lambda>v. case v of (a, b, c, d, e) \<Rightarrow> TC_SHA1_STEP v (d XOR (b AND (c XOR d))) 0x5A827999 (?W ! t)) = fips_sha1_step t (?S t)"
      by (intro ext) (auto simp: TC_SHA1_STEP_def fips_sha1_step_def fips_sha1_f_def fips_sha1_k_def rotations choice_eq)
  qed
  note simps = fips_sha1_f_def fips_sha1_k_def choice_eq majority_eq fips_parity_def
  have "rolling ?S 16 ?W" unfolding W by (rule rolling_start)
  from sha1_rounds [OF this, of 20 ?ch "0x5A827999" "?run 0 16 ?v0"] obtain W1 where
    1: "fold (sha1_round ?ch 0x5A827999) [16..<20] (?run 0 16 ?v0, ?W) = (?run 16 20 (?run 0 16 ?v0), W1)" "rolling ?S 20 W1"
    by (auto simp: simps)
  from sha1_rounds [OF 1(2), of 40 ?pa "0x6ED9EBA1" "?run 16 20 (?run 0 16 ?v0)"] obtain W2 where
    2: "fold (sha1_round ?pa 0x6ED9EBA1) [20..<40] (?run 16 20 (?run 0 16 ?v0), W1) = (?run 20 40 (?run 16 20 (?run 0 16 ?v0)), W2)" "rolling ?S 40 W2"
    by (auto simp: simps)
  from sha1_rounds [OF 2(2), of 60 ?ma "0x8F1BBCDC" "?run 20 40 (?run 16 20 (?run 0 16 ?v0))"] obtain W3 where
    3: "fold (sha1_round ?ma 0x8F1BBCDC) [40..<60] (?run 20 40 (?run 16 20 (?run 0 16 ?v0)), W2) =
      (?run 40 60 (?run 20 40 (?run 16 20 (?run 0 16 ?v0))), W3)" "rolling ?S 60 W3"
    by (auto simp: simps)
  from sha1_rounds [OF 3(2), of 80 ?pa "0xCA62C1D6" "?run 40 60 (?run 20 40 (?run 16 20 (?run 0 16 ?v0)))"] obtain W4 where
    4: "fold (sha1_round ?pa 0xCA62C1D6) [60..<80] (?run 40 60 (?run 20 40 (?run 16 20 (?run 0 16 ?v0))), W3) =
      (?run 60 80 (?run 40 60 (?run 20 40 (?run 16 20 (?run 0 16 ?v0)))), W4)"
    by (auto simp: simps)
  have "?run 0 80 ?v0 = ?run 60 80 (?run 40 60 (?run 20 40 (?run 16 20 (?run 0 16 ?v0))))"
    using upt_split [of 0 16 80] upt_split [of 16 20 80] upt_split [of 20 40 80] upt_split [of 40 60 80] by (simp del: upt_Suc)
  then show ?thesis
    unfolding sha1_compress_def Let_def first 1(1) 2(1) 3(1) 4(1) fst_conv fips_sha1_block_def by simp
qed

lemma sha256_functions:
  "TC_SHA256_BSIG0 x = fips_big_sigma (2, 13, 22) x" "TC_SHA256_BSIG1 x = fips_big_sigma (6, 11, 25) x"
  "TC_SHA256_SSIG0 x = fips_small_sigma (7, 18, 3) x" "TC_SHA256_SSIG1 x = fips_small_sigma (17, 19, 10) x"
  "TC_SHA256_CH x y z = fips_ch x y z" "TC_SHA256_MAJ x y z = fips_maj x y z"
  by (simp_all add: TC_SHA256_BSIG0_def TC_SHA256_BSIG1_def TC_SHA256_SSIG0_def TC_SHA256_SSIG1_def TC_SHA256_CH_def TC_SHA256_MAJ_def
      fips_big_sigma_def fips_small_sigma_def rotations choice_eq majority_eq)

lemma sha256_schedule_eq:
  "rolling (fips_sha2_w (7, 18, 3) (17, 19, 10) m) t W \<Longrightarrow> 16 \<le> t \<Longrightarrow> sha256_schedule W t = fips_sha2_w (7, 18, 3) (17, 19, 10) m t"
  using rolling_nth [of "fips_sha2_w (7, 18, 3) (17, 19, 10) m" t W]
  by (simp add: sha256_schedule_def fips_sha2_w.simps [of _ _ m t] sha256_functions)

lemma sha256_step_eq: "t < 64 \<Longrightarrow> TC_SHA256_STEP v (K256 ! t) w = fips_sha2_step (2, 13, 22) (6, 11, 25) t w v"
  by (cases v) (simp add: TC_SHA256_STEP_def fips_sha2_step_def sha256_functions K256_root fips_sha2_k_def)

lemma sha256_compress_eq:
  assumes "length block = 64"
  shows "sha256_compress h block = fips_sha256_block h block"
proof -
  let ?S = "fips_sha2_w (7, 18, 3) (17, 19, 10) (block_word 4 block)" and ?v0 = "(h ! 0, h ! 1, h ! 2, h ! 3, h ! 4, h ! 5, h ! 6, h ! 7)"
  let ?W = "map (\<lambda>t. tc_internal_load_be32 (drop (4 * t) block)) [0..<16]"
  let ?run = "\<lambda>i j v. fold (\<lambda>t. fips_sha2_step (2, 13, 22) (6, 11, 25) t (?S t)) [i..<j] v"
  have W: "?W = map ?S [0..<16]"
    using assms by (intro map_cong) (auto simp: fips_sha2_w.simps [of _ _ "block_word 4 block"] load_word_be(1))
  have first: "fold (\<lambda>t v. TC_SHA256_STEP v (K256 ! t) (?W ! t)) [0..<16] ?v0 = ?run 0 16 ?v0"
    unfolding W by (rule fold_cong [OF refl refl]) (auto simp: sha256_step_eq)
  have start: "rolling ?S 16 ?W" unfolding W by (rule rolling_start)
  have "sha256_round t (v, W) = (TC_SHA256_STEP v (K256 ! t) (sha256_schedule W t), W[t mod 16 := sha256_schedule W t])" for t v W
    by (simp add: sha256_round_def Let_def)
  from rolling_fold [OF sha256_schedule_eq this start, where v = "?run 0 16 ?v0" and n = 64] obtain W' where "fold sha256_round [16..<64] (?run 0 16 ?v0, ?W) = (fold (\<lambda>t v. TC_SHA256_STEP v (K256 ! t) (?S t)) [16..<64] (?run 0 16 ?v0), W')"
    by auto
  moreover have "fold (\<lambda>t v. TC_SHA256_STEP v (K256 ! t) (?S t)) [16..<64] v = ?run 16 64 v" for v
    by (rule fold_cong [OF refl refl]) (auto simp: sha256_step_eq)
  moreover have "?run 0 64 ?v0 = ?run 16 64 (?run 0 16 ?v0)" using upt_split [of 0 16 64] by (simp del: upt_Suc)
  ultimately show ?thesis
    unfolding sha256_compress_def Let_def first fips_sha256_block_def fips_sha2_block_def by simp
qed

lemma sha512_functions:
  "TC_SHA512_BSIG0 x = fips_big_sigma (28, 34, 39) x" "TC_SHA512_BSIG1 x = fips_big_sigma (14, 18, 41) x"
  "TC_SHA512_SSIG0 x = fips_small_sigma (1, 8, 7) x" "TC_SHA512_SSIG1 x = fips_small_sigma (19, 61, 6) x"
  "TC_SHA512_CH x y z = fips_ch x y z" "TC_SHA512_MAJ x y z = fips_maj x y z"
  by (simp_all add: TC_SHA512_BSIG0_def TC_SHA512_BSIG1_def TC_SHA512_SSIG0_def TC_SHA512_SSIG1_def TC_SHA512_CH_def TC_SHA512_MAJ_def
      fips_big_sigma_def fips_small_sigma_def rotations choice_eq majority_eq)

lemma sha512_schedule_eq:
  "rolling (fips_sha2_w (1, 8, 7) (19, 61, 6) m) t W \<Longrightarrow> 16 \<le> t \<Longrightarrow> sha512_schedule W t = fips_sha2_w (1, 8, 7) (19, 61, 6) m t"
  using rolling_nth [of "fips_sha2_w (1, 8, 7) (19, 61, 6) m" t W]
  by (simp add: sha512_schedule_def fips_sha2_w.simps [of _ _ m t] sha512_functions)

lemma sha512_step_eq: "t < 80 \<Longrightarrow> TC_SHA512_STEP v (K512 ! t) w = fips_sha2_step (28, 34, 39) (14, 18, 41) t w v"
  by (cases v) (simp add: TC_SHA512_STEP_def fips_sha2_step_def sha512_functions K512_root fips_sha2_k_def)

lemma sha512_compress_eq:
  assumes "length block = 128"
  shows "sha512_compress h block = fips_sha512_block h block"
proof -
  let ?S = "fips_sha2_w (1, 8, 7) (19, 61, 6) (block_word 8 block)" and ?v0 = "(h ! 0, h ! 1, h ! 2, h ! 3, h ! 4, h ! 5, h ! 6, h ! 7)"
  let ?W = "map (\<lambda>t. tc_internal_load_be64 (drop (8 * t) block)) [0..<16]"
  let ?run = "\<lambda>i j v. fold (\<lambda>t. fips_sha2_step (28, 34, 39) (14, 18, 41) t (?S t)) [i..<j] v"
  have W: "?W = map ?S [0..<16]"
    using assms by (intro map_cong) (auto simp: fips_sha2_w.simps [of _ _ "block_word 8 block"] load_word_be(2))
  have first: "fold (\<lambda>t v. TC_SHA512_STEP v (K512 ! t) (?W ! t)) [0..<16] ?v0 = ?run 0 16 ?v0"
    unfolding W by (rule fold_cong [OF refl refl]) (auto simp: sha512_step_eq)
  have start: "rolling ?S 16 ?W" unfolding W by (rule rolling_start)
  have "sha512_round t (v, W) = (TC_SHA512_STEP v (K512 ! t) (sha512_schedule W t), W[t mod 16 := sha512_schedule W t])" for t v W
    by (simp add: sha512_round_def Let_def)
  from rolling_fold [OF sha512_schedule_eq this start, where v = "?run 0 16 ?v0" and n = 80] obtain W' where "fold sha512_round [16..<80] (?run 0 16 ?v0, ?W) = (fold (\<lambda>t v. TC_SHA512_STEP v (K512 ! t) (?S t)) [16..<80] (?run 0 16 ?v0), W')"
    by auto
  moreover have "fold (\<lambda>t v. TC_SHA512_STEP v (K512 ! t) (?S t)) [16..<80] v = ?run 16 80 v" for v
    by (rule fold_cong [OF refl refl]) (auto simp: sha512_step_eq)
  moreover have "?run 0 80 ?v0 = ?run 16 80 (?run 0 16 ?v0)" using upt_split [of 0 16 80] by (simp del: upt_Suc)
  ultimately show ?thesis
    unfolding sha512_compress_def Let_def first fips_sha512_block_def fips_sha2_block_def by simp
qed

section \<open>Whole messages\<close>

lemma md_pad_blocks: "0 < b \<Longrightarrow> l < b \<Longrightarrow> b dvd length (md_pad enc b l m)"
proof -
  assume b: "0 < b" "l < b"
  let ?n = "length m" let ?r = "(?n + 1 + l) mod b"
  have "?r < b" using b by simp
  have "(?n + 1 + l + (b - ?r) mod b) mod b = 0"
  proof (cases "?r = 0")
    case True
    then show ?thesis by simp
  next
    case False
    then have "(?n + 1 + l + (b - ?r)) mod b = (?r + (b - ?r)) mod b" by (simp only: mod_add_left_eq)
    then show ?thesis using \<open>?r < b\<close> by (simp only: mod_add_right_eq) simp
  qed
  moreover have "length (md_pad enc b l m) = ?n + 1 + l + (b - ?r) mod b" by (simp add: md_pad_def md_zeros_def)
  ultimately show ?thesis by (simp only: dvd_eq_mod_eq_0)
qed

lemma length_hash_fold:
  assumes "0 < b" "b dvd length m" "length ws = k" "\<And>ws block. length (g ws block) = k"
  shows "length (hash_fold g b ws m) = k"
proof -
  have "length (fold (\<lambda>block s. g s block) bs ws) = k" if "length ws = k" for bs ws
    using that assms(4) by (induction bs arbitrary: ws) simp_all
  then show ?thesis using assms(3) by (simp add: hash_fold_def)
qed

lemma hash_fold_words:
  assumes "0 < b" "b dvd length m"
  shows "(\<And>ws block. length block = b \<Longrightarrow> f ws block = g ws block) \<Longrightarrow>
      hash_fold (\<lambda>s block. on_words32 (\<lambda>ws. f ws block) s) b (Words32 ws) m = Words32 (hash_fold g b ws m)"
    "(\<And>ws block. length block = b \<Longrightarrow> f' ws block = g' ws block) \<Longrightarrow>
      hash_fold (\<lambda>s block. on_words64 (\<lambda>ws. f' ws block) s) b (Words64 ws') m = Words64 (hash_fold g' b ws' m)"
proof -
  have b: "\<forall>x \<in> set (chunks b m). length x = b" using chunks_width [OF assms] by (simp add: blocks_of_def list_all_iff)
  have "fold (\<lambda>block s. on_words32 (\<lambda>ws. f ws block) s) bs (Words32 ws) = Words32 (fold (\<lambda>block s. g s block) bs ws)"
    if "\<And>ws block. length block = b \<Longrightarrow> f ws block = g ws block" "\<forall>x \<in> set bs. length x = b" for bs ws
    using that by (induction bs arbitrary: ws) simp_all
  then show "(\<And>ws block. length block = b \<Longrightarrow> f ws block = g ws block) \<Longrightarrow>
      hash_fold (\<lambda>s block. on_words32 (\<lambda>ws. f ws block) s) b (Words32 ws) m = Words32 (hash_fold g b ws m)"
    using b by (simp add: hash_fold_def)
  have "fold (\<lambda>block s. on_words64 (\<lambda>ws. f' ws block) s) bs (Words64 ws) = Words64 (fold (\<lambda>block s. g' s block) bs ws)"
    if "\<And>ws block. length block = b \<Longrightarrow> f' ws block = g' ws block" "\<forall>x \<in> set bs. length x = b" for bs ws
    using that by (induction bs arbitrary: ws) simp_all
  then show "(\<And>ws block. length block = b \<Longrightarrow> f' ws block = g' ws block) \<Longrightarrow>
      hash_fold (\<lambda>s block. on_words64 (\<lambda>ws. f' ws block) s) b (Words64 ws') m = Words64 (hash_fold g' b ws' m)"
    using b by (simp add: hash_fold_def)
qed

lemma word_byte: "ucast (drop_bit (8 * k) w) = (of_nat (unat w div 256 ^ k) :: u8)"
proof -
  have "unat w div 256 ^ k = unat (drop_bit (8 * k) w)" unfolding unat_drop_bit_eq by (simp add: drop_bit_eq_div power_mult)
  then show ?thesis by simp
qed

lemma store_words:
  "n \<le> length ws \<Longrightarrow> tc_hash_store_be32_words ws n = concat (map (\<lambda>w. be_bytes 4 (unat w)) (take n ws))"
  "n \<le> length vs \<Longrightarrow> tc_hash_store_be64_words vs n = concat (map (\<lambda>w. be_bytes 8 (unat w)) (take n vs))"
proof -
  have "tc_internal_store_be32 w = be_bytes 4 (unat w)" for w
    using word_byte [of 3 w] word_byte [of 2 w] word_byte [of 1 w] word_byte [of 0 w]
    by (simp add: tc_internal_store_be32_def be_bytes_def upt_conv_Cons)
  then show "n \<le> length ws \<Longrightarrow> tc_hash_store_be32_words ws n = concat (map (\<lambda>w. be_bytes 4 (unat w)) (take n ws))"
    by (simp add: tc_hash_store_be32_words_def map_nth_upt [where f = "\<lambda>w. be_bytes 4 (unat w)"])
  have "tc_internal_store_be64 w = be_bytes 8 (unat w)" for w
    unfolding tc_internal_store_be64_def be_bytes_def
  proof (rule map_cong [OF refl])
    fix i assume "i \<in> set [0..<8 :: nat]"
    then have "56 - 8 * i = 8 * (8 - 1 - i)" by auto
    then show "ucast (drop_bit (56 - 8 * i) w) = (of_nat (unat w div 256 ^ (8 - 1 - i)) :: u8)" by (simp only: word_byte)
  qed
  then show "n \<le> length vs \<Longrightarrow> tc_hash_store_be64_words vs n = concat (map (\<lambda>w. be_bytes 8 (unat w)) (take n vs))"
    by (simp add: tc_hash_store_be64_words_def map_nth_upt [where f = "\<lambda>w. be_bytes 8 (unat w)"])
qed

lemma length_fips_hash_block [simp]:
  "length (fips_sha1_block h block) = 5" "length (fips_sha256_block h block) = 8" "length (fips_sha512_block g block) = 8"
  by (simp_all add: fips_sha1_block_def fips_sha256_block_def fips_sha512_block_def fips_sha2_block_def split: prod.split)

lemma length_store_words [simp]:
  "length (tc_hash_store_be32_words ws n) = 4 * n" "length (tc_hash_store_be64_words vs n) = 8 * n" "length (tc_hash_store_le32_words ws n) = 4 * n"
  by (simp_all add: tc_hash_store_be32_words_def tc_hash_store_be64_words_def tc_hash_store_le32_words_def length_concat comp_def sum_list_triv)

lemma md_hash_sha1: "md_hash tc_sha1_info m = fips_sha1 m"
proof -
  let ?p = "md_pad TC_HASH_LENGTH_BIG_ENDIAN 64 8 m" and ?h = "[0x67452301, 0xefcdab89, 0x98badcfe, 0x10325476, 0xc3d2e1f0]"
  have p: "64 dvd length ?p" by (intro md_pad_blocks) simp_all
  have i: "md_init tc_sha1_info = Words32 ?h" by (simp add: md_init_def tc_sha1_info_def sha1_state_init_def replicate_words)
  have "length (hash_fold fips_sha1_block 64 ?h ?p) = 5" by (intro length_hash_fold p) simp_all
  moreover have "hash_fold (\<lambda>s block. on_words32 (\<lambda>ws. sha1_compress ws block) s) 64 (Words32 ?h) ?p = Words32 (hash_fold fips_sha1_block 64 ?h ?p)"
    by (intro hash_fold_words(1) p) (simp_all add: sha1_compress_eq)
  ultimately show ?thesis by (simp add: md_hash_def i) (simp add: tc_sha1_info_def sha1_digest_def store_words fips_sha1_def)
qed

lemma sha512_384_init_root:
  "sha512_state_init (replicate 8 0) = map (root_fraction 2) (take 8 first_primes)"
  "sha384_state_init (replicate 8 0) = map (root_fraction 2) (take 8 (drop 8 first_primes))"
proof -
  have l: "length (sha512_state_init (replicate 8 0)) = 8" by (simp add: sha512_state_init_def)
  have "sha512_state_init (replicate 8 0) @ sha384_state_init (replicate 8 0) =
      map (root_fraction 2) (take 8 first_primes) @ map (root_fraction 2) (take 8 (drop 8 first_primes))"
    unfolding sha512_init_root by (simp flip: map_append take_add)
  then show "sha512_state_init (replicate 8 0) = map (root_fraction 2) (take 8 first_primes)"
    "sha384_state_init (replicate 8 0) = map (root_fraction 2) (take 8 (drop 8 first_primes))"
    using l by (simp_all add: length_tables)
qed

lemma sha224_init_root:
  "sha224_state_init (replicate 8 0) = map (\<lambda>p. ucast (root_fraction 2 p :: u64)) (take 8 (drop 8 first_primes))"
  by (simp add: sha224_init_low sha512_384_init_root(2))

lemma md_hash_sha256: "md_hash tc_sha256_info m = fips_sha256 m"
proof -
  let ?p = "md_pad TC_HASH_LENGTH_BIG_ENDIAN 64 8 m" and ?h = "map (root_fraction 2) (take 8 first_primes)"
  have p: "64 dvd length ?p" by (intro md_pad_blocks) simp_all
  have i: "md_init tc_sha256_info = Words32 ?h" by (simp add: md_init_def tc_sha256_info_def sha256_init_root)
  have "length (hash_fold fips_sha256_block 64 ?h ?p) = 8" by (intro length_hash_fold p) (simp_all add: length_tables)
  moreover have "hash_fold (\<lambda>s block. on_words32 (\<lambda>ws. sha256_compress ws block) s) 64 (Words32 ?h) ?p = Words32 (hash_fold fips_sha256_block 64 ?h ?p)"
    by (intro hash_fold_words(1) p) (simp_all add: sha256_compress_eq length_tables)
  ultimately show ?thesis by (simp add: md_hash_def i) (simp add: tc_sha256_info_def sha256_digest_def store_words fips_sha256_def)
qed

lemma md_hash_sha224: "md_hash tc_sha224_info m = fips_sha224 m"
proof -
  let ?p = "md_pad TC_HASH_LENGTH_BIG_ENDIAN 64 8 m" and ?h = "map (\<lambda>p. ucast (root_fraction 2 p :: u64)) (take 8 (drop 8 first_primes))"
  have p: "64 dvd length ?p" by (intro md_pad_blocks) simp_all
  have i: "md_init tc_sha224_info = Words32 ?h" by (simp add: md_init_def tc_sha224_info_def sha224_init_root)
  have "length (hash_fold fips_sha256_block 64 ?h ?p) = 8" by (intro length_hash_fold p) (simp_all add: length_tables)
  moreover have "hash_fold (\<lambda>s block. on_words32 (\<lambda>ws. sha256_compress ws block) s) 64 (Words32 ?h) ?p = Words32 (hash_fold fips_sha256_block 64 ?h ?p)"
    by (intro hash_fold_words(1) p) (simp_all add: sha256_compress_eq length_tables)
  ultimately show ?thesis by (simp add: md_hash_def i) (simp add: tc_sha224_info_def sha224_digest_def store_words fips_sha224_def)
qed

lemma md_hash_sha512: "md_hash tc_sha512_info m = fips_sha512 m"
proof -
  let ?p = "md_pad TC_HASH_LENGTH_BIG_ENDIAN 128 16 m" and ?h = "map (root_fraction 2) (take 8 first_primes)"
  have p: "128 dvd length ?p" by (intro md_pad_blocks) simp_all
  have i: "md_init tc_sha512_info = Words64 ?h" by (simp add: md_init_def tc_sha512_info_def sha512_384_init_root)
  have "length (hash_fold fips_sha512_block 128 ?h ?p) = 8" by (intro length_hash_fold p) (simp_all add: length_tables)
  moreover have "hash_fold (\<lambda>s block. on_words64 (\<lambda>ws. sha512_compress ws block) s) 128 (Words64 ?h) ?p = Words64 (hash_fold fips_sha512_block 128 ?h ?p)"
    by (intro hash_fold_words(2) p) (simp_all add: sha512_compress_eq length_tables)
  ultimately show ?thesis by (simp add: md_hash_def i) (simp add: tc_sha512_info_def sha512_digest_def store_words fips_sha512_def)
qed

lemma md_hash_sha384: "md_hash tc_sha384_info m = fips_sha384 m"
proof -
  let ?p = "md_pad TC_HASH_LENGTH_BIG_ENDIAN 128 16 m" and ?h = "map (root_fraction 2) (take 8 (drop 8 first_primes))"
  have p: "128 dvd length ?p" by (intro md_pad_blocks) simp_all
  have i: "md_init tc_sha384_info = Words64 ?h" by (simp add: md_init_def tc_sha384_info_def sha512_384_init_root)
  have "length (hash_fold fips_sha512_block 128 ?h ?p) = 8" by (intro length_hash_fold p) (simp_all add: length_tables)
  moreover have "hash_fold (\<lambda>s block. on_words64 (\<lambda>ws. sha512_compress ws block) s) 128 (Words64 ?h) ?p = Words64 (hash_fold fips_sha512_block 128 ?h ?p)"
    by (intro hash_fold_words(2) p) (simp_all add: sha512_compress_eq length_tables)
  ultimately show ?thesis by (simp add: md_hash_def i) (simp add: tc_sha384_info_def sha384_digest_def store_words fips_sha384_def)
qed

section \<open>The descriptors are hash algorithms\<close>

interpretation sha1: hash_algorithm tc_sha1_info
  by unfold_locales (simp_all add: tc_sha1_info_def sha1_digest_def SHA_MAX_MESSAGE_BYTES_def SHA512_MAX_MESSAGE_BYTES_def)

interpretation sha224: hash_algorithm tc_sha224_info
  by unfold_locales (simp_all add: tc_sha224_info_def sha224_digest_def SHA_MAX_MESSAGE_BYTES_def SHA512_MAX_MESSAGE_BYTES_def)

interpretation sha256: hash_algorithm tc_sha256_info
  by unfold_locales (simp_all add: tc_sha256_info_def sha256_digest_def SHA_MAX_MESSAGE_BYTES_def SHA512_MAX_MESSAGE_BYTES_def)

interpretation sha384: hash_algorithm tc_sha384_info
  by unfold_locales (simp_all add: tc_sha384_info_def sha384_digest_def SHA_MAX_MESSAGE_BYTES_def SHA512_MAX_MESSAGE_BYTES_def)

interpretation sha512: hash_algorithm tc_sha512_info
  by unfold_locales (simp_all add: tc_sha512_info_def sha512_digest_def SHA_MAX_MESSAGE_BYTES_def SHA512_MAX_MESSAGE_BYTES_def)

interpretation md5: hash_algorithm tc_md5_info
  by unfold_locales (simp_all add: tc_md5_info_def md5_digest_out_def SHA_MAX_MESSAGE_BYTES_def SHA512_MAX_MESSAGE_BYTES_def)

text \<open>The algorithms with a public interface, and those with HMAC.\<close>

definition hmac_infos :: "tc_hash_algorithm_info list" where
  "hmac_infos = [tc_sha1_info, tc_sha224_info, tc_sha256_info, tc_sha384_info, tc_sha512_info]"

definition hash_infos :: "tc_hash_algorithm_info list" where
  "hash_infos = tc_md5_info # hmac_infos"

lemma hash_infos_algorithm: "info \<in> set hash_infos \<Longrightarrow> hash_algorithm info"
  using sha1.hash_algorithm_axioms sha224.hash_algorithm_axioms sha256.hash_algorithm_axioms sha384.hash_algorithm_axioms
    sha512.hash_algorithm_axioms md5.hash_algorithm_axioms
  by (auto simp: hash_infos_def hmac_infos_def)

lemma hmac_infos_hash: "info \<in> set hmac_infos \<Longrightarrow> info \<in> set hash_infos"
  by (simp add: hash_infos_def)

end
