(* ===== verification/MD5_Constants.thy ===== *)
theory MD5_Constants
  imports SHA Complex_Main
begin

text \<open>
  The table of RFC 1321 section 3.4: entry \<open>i\<close> is the integral part of 4294967296 times the absolute value of the sine of
  \<open>i + 1\<close>, in radians, and the lemmas show that the table of \<^verbatim>\<open>src/src/md5.c\<close> has these entries. The sines are
  followed by turning an approximation of \<^verbatim>\<open>cis 1\<close> in integers with 56 bits after the point; the error grows by a constant
  in each turn.
\<close>

definition rfc_T :: "nat \<Rightarrow> u32" where
  "rfc_T i = of_int \<lfloor>2 ^ 32 * \<bar>sin (real i + 1)\<bar>\<rfloor>"

section \<open>The sine and cosine of 1\<close>

definition cosine_one :: int where "cosine_one = 38932884214002780"

definition sine_one :: int where "sine_one = 60634374617982832"

lemma sine_one: "\<bar>2 ^ 56 * sin 1 - real_of_int sine_one\<bar> \<le> 1"
proof -
  have "\<bar>sin 1 - (\<Sum>m<20. sin_coeff m * 1 ^ m)\<bar> \<le> inverse (fact 20) * \<bar>1\<bar> ^ 20" by (rule Maclaurin_sin_bound)
  then have "\<bar>sin 1 - sum_list (map sin_coeff [0..<20])\<bar> \<le> inverse (fact 20)"
    by (simp add: interv_sum_list_conv_sum_set_nat atLeast0LessThan)
  then show ?thesis
    unfolding abs_le_iff by (simp add: upt_conv_Cons sin_coeff_def sine_one_def fact_numeral)
qed

lemma cosine_one: "\<bar>2 ^ 56 * cos 1 - real_of_int cosine_one\<bar> \<le> 1"
proof -
  obtain t :: real where t: "cos 1 = (\<Sum>m<20. cos_coeff m * 1 ^ m) + (cos (t + 1 / 2 * real 20 * pi) / fact 20) * 1 ^ 20"
    using Maclaurin_cos_expansion [of 1 20] by blast
  have r: "\<bar>cos y / fact 20\<bar> \<le> inverse (fact 20)" for y :: real
    by (simp add: divide_inverse abs_mult mult_left_le_one_le)
  from t have "cos 1 - sum_list (map cos_coeff [0..<20]) = cos (t + 1 / 2 * real 20 * pi) / fact 20"
    by (simp only: interv_sum_list_conv_sum_set_nat set_upt atLeast0LessThan mult_1_right power_one add_diff_cancel_left')
  with r have "\<bar>cos 1 - sum_list (map cos_coeff [0..<20])\<bar> \<le> inverse (fact 20)" by (simp only:)
  then show ?thesis
    unfolding abs_le_iff by (simp add: upt_conv_Cons cos_coeff_def cosine_one_def fact_numeral)
qed

section \<open>Turning by 1\<close>

definition near :: "nat \<Rightarrow> real \<Rightarrow> int \<times> int \<Rightarrow> bool" where
  "near e x p \<longleftrightarrow> cmod (Complex (2 ^ 56 * cos x - fst p) (2 ^ 56 * sin x - snd p)) \<le> e"

definition turn :: "int \<times> int \<Rightarrow> int \<times> int" where
  "turn p = (drop_bit 56 (fst p * cosine_one - snd p * sine_one), drop_bit 56 (fst p * sine_one + snd p * cosine_one))"

lemma cmod_parts: "\<bar>x\<bar> \<le> a \<Longrightarrow> \<bar>y\<bar> \<le> b \<Longrightarrow> cmod (Complex x y) \<le> a + b"
  using cmod_le [of "Complex x y"] by simp

lemma near_one: "near 2 1 (cosine_one, sine_one)"
  using cmod_parts [OF cosine_one sine_one] by (simp add: near_def)

lemma rounding: "\<bar>real_of_int a / 2 ^ 56 - real_of_int (drop_bit 56 a)\<bar> \<le> 1"
proof -
  have "\<lfloor>real_of_int a / 2 ^ 56\<rfloor> = drop_bit 56 a"
    using floor_divide_of_int_eq [of a "2 ^ 56", where 'a = real] by (simp add: drop_bit_eq_div)
  then show ?thesis unfolding floor_eq_iff by (simp add: abs_le_iff)
qed

lemma near_turn:
  assumes "near e x p" "e \<le> 2 ^ 56"
  shows "near (e + 6) (x + 1) (turn p)"
proof -
  define S :: real where "S = 2 ^ 56"
  obtain c s where p: "p = (c, s)" by (cases p)
  let ?z = "Complex (c / S) (s / S)" and ?d = "Complex (S * cos x - c) (S * sin x - s)"
    and ?d1 = "Complex (S * cos 1 - cosine_one) (S * sin 1 - sine_one)"
    and ?r = "Complex (real_of_int (c * cosine_one - s * sine_one) / S - fst (turn p))
        (real_of_int (c * sine_one + s * cosine_one) / S - snd (turn p))"
  have S: "0 < S" "real e \<le> S" using assms(2) by (simp_all only: S_def) (simp, metis of_nat_le_iff of_nat_numeral of_nat_power)
  have d: "cmod ?d \<le> e" "cmod ?d1 \<le> 2" using assms(1) near_one by (simp_all only: near_def p S_def fst_conv snd_conv of_nat_numeral)
  have "?z = cis x - ?d /\<^sub>R S" using S(1) by (simp add: complex_eq_iff field_simps)
  then have "cmod ?z \<le> 1 + cmod ?d / S" using norm_triangle_ineq4 [of "cis x" "?d /\<^sub>R S"] S(1) by (simp add: divide_inverse mult.commute)
  also have "\<dots> \<le> 2" using d(1) S by simp
  finally have z: "cmod ?z \<le> 2" .
  have 1: "cmod (?d * cis 1) \<le> real e" using d(1) by (simp add: norm_mult)
  have 2: "cmod (?z * ?d1) \<le> 2 * 2" unfolding norm_mult by (rule mult_mono) (use d(2) z in auto)
  have 3: "cmod ?r \<le> 1 + 1" using cmod_parts [OF rounding rounding] by (simp only: turn_def p S_def fst_conv snd_conv)
  have "Complex (S * cos (x + 1) - fst (turn p)) (S * sin (x + 1) - snd (turn p)) = ?d * cis 1 + ?z * ?d1 + ?r"
    using S(1) by (simp add: complex_eq_iff cos_add sin_add field_simps)
  then have "cmod (Complex (S * cos (x + 1) - fst (turn p)) (S * sin (x + 1) - snd (turn p))) \<le> real e + 2 * 2 + (1 + 1)"
    using norm_triangle_mono [OF norm_triangle_mono [OF 1 2] 3] by (simp only:)
  then show ?thesis by (simp add: near_def S_def)
qed

section \<open>The table\<close>

text \<open>An approximation decides the integral part when that is the same within the error.\<close>

fun sine_check :: "nat \<Rightarrow> int \<times> int \<Rightarrow> int list \<Rightarrow> bool" where
  "sine_check e p [] \<longleftrightarrow> True"
| "sine_check e p (k # ks) \<longleftrightarrow> e \<le> 2 ^ 56 \<and> k * 2 ^ 24 + int e \<le> \<bar>snd p\<bar> \<and> \<bar>snd p\<bar> + int e < (k + 1) * 2 ^ 24 \<and>
     sine_check (e + 6) (turn p) ks"

lemma sine_floor:
  assumes "near e x p" "k * 2 ^ 24 + int e \<le> \<bar>snd p\<bar>" "\<bar>snd p\<bar> + int e < (k + 1) * 2 ^ 24"
  shows "\<lfloor>2 ^ 32 * \<bar>sin x\<bar>\<rfloor> = k"
proof -
  have "\<bar>2 ^ 56 * sin x - snd p\<bar> \<le> e"
    using assms(1) order_trans [OF abs_Im_le_cmod] unfolding near_def by fastforce
  then have "2 ^ 56 * \<bar>sin x\<bar> \<le> real_of_int \<bar>snd p\<bar> + e" "real_of_int \<bar>snd p\<bar> \<le> 2 ^ 56 * \<bar>sin x\<bar> + e"
    by (simp_all add: abs_le_iff abs_if split: if_splits)
  moreover have "real_of_int (k * 2 ^ 24 + int e) \<le> real_of_int \<bar>snd p\<bar>" using assms(2) by (simp only: of_int_le_iff)
  moreover have "real_of_int (\<bar>snd p\<bar> + int e) < real_of_int ((k + 1) * 2 ^ 24)" using assms(3) by (simp only: of_int_less_iff)
  ultimately show ?thesis by (simp add: floor_eq_iff)
qed

lemma sine_check:
  "near e x p \<Longrightarrow> sine_check e p ks \<Longrightarrow> i < length ks \<Longrightarrow> \<lfloor>2 ^ 32 * \<bar>sin (x + real i)\<bar>\<rfloor> = ks ! i"
proof (induction ks arbitrary: e p x i)
  case (Cons k ks)
  show ?case
  proof (cases i)
    case 0
    then show ?thesis using Cons.prems sine_floor by simp
  next
    case (Suc j)
    then show ?thesis using Cons.IH [OF near_turn, of e x p j] Cons.prems by (simp add: add_ac)
  qed
qed simp

lemma turn_code:
  "turn (c, s) = (drop_bit 56 (c * 38932884214002780 - s * 60634374617982832), drop_bit 56 (c * 60634374617982832 + s * 38932884214002780))"
  by (simp add: turn_def sine_one_def cosine_one_def)

lemma md5_checks: "sine_check 2 (cosine_one, sine_one) (map uint md5_constants)"
  unfolding md5_constants_def cosine_one_def sine_one_def by (simp add: turn_code)

lemma md5_constants_sine:
  assumes "i < 64"
  shows "md5_constants ! i = rfc_T i"
proof -
  have i: "i < length md5_constants" using assms by (simp add: md5_constants_def)
  then have "\<lfloor>2 ^ 32 * \<bar>sin (1 + real i)\<bar>\<rfloor> = map uint md5_constants ! i"
    by (intro sine_check [OF near_one md5_checks]) simp
  also have "\<dots> = uint (md5_constants ! i)" using i by (rule nth_map)
  finally show ?thesis by (simp add: rfc_T_def add.commute)
qed

end
