(* ===== verification/MD5_RFC.thy ===== *)
theory MD5_RFC
  imports SHA_FIPS MD5_Constants
begin

text \<open>
  MD5 as RFC 1321 writes it, with operations on four registers whose roles rotate, and the lemma that \<^verbatim>\<open>src/src/md5.c\<close>, which
  rotates the values instead, computes it. The constants are the sines \<open>rfc_T\<close> of \<open>MD5_Constants\<close>.
\<close>

section \<open>The RFC\<close>

definition rfc_function :: "nat \<Rightarrow> u32 \<Rightarrow> u32 \<Rightarrow> u32 \<Rightarrow> u32" where
  "rfc_function i x y z =
     (if i < 16 then (x AND y) OR (NOT x AND z) else if i < 32 then (x AND z) OR (y AND NOT z)
      else if i < 48 then x XOR y XOR z else y XOR (x OR NOT z))"

definition rfc_index :: "nat \<Rightarrow> nat" where
  "rfc_index i = (if i < 16 then i else if i < 32 then 1 + 5 * i else if i < 48 then 5 + 3 * i else 7 * i) mod 16"

definition rfc_shift :: "nat \<Rightarrow> nat" where
  "rfc_shift i = [7, 12, 17, 22, 5, 9, 14, 20, 4, 11, 16, 23, 6, 10, 15, 21] ! (4 * (i div 16) + i mod 4)"

definition rfc_word :: "u8 list \<Rightarrow> nat \<Rightarrow> u32" where
  "rfc_word block k = of_nat (be_val (rev (take 4 (drop (4 * k) block))))"

text \<open>In operation \<open>i\<close> the register that plays the part \<open>j\<close> of \<open>a\<close>, \<open>b\<close>, \<open>c\<close>, \<open>d\<close>: \<open>ABCD\<close>, then \<open>DABC\<close>, \<open>CDAB\<close>, \<open>BCDA\<close>.\<close>

definition rfc_role :: "nat \<Rightarrow> nat \<Rightarrow> nat" where
  "rfc_role i j = (j + 3 * (i mod 4)) mod 4"

definition rfc_operation :: "u8 list \<Rightarrow> nat \<Rightarrow> u32 list \<Rightarrow> u32 list" where
  "rfc_operation block i R =
     (let a = R ! rfc_role i 0; b = R ! rfc_role i 1; c = R ! rfc_role i 2; d = R ! rfc_role i 3
      in R[rfc_role i 0 := b + word_rotl (rfc_shift i) (a + rfc_function i b c d + rfc_word block (rfc_index i) + rfc_T i)])"

definition rfc_block :: "u32 list \<Rightarrow> u8 list \<Rightarrow> u32 list" where
  "rfc_block h block = map2 (+) h (fold (rfc_operation block) [0..<64] h)"

definition rfc_md5 :: "u8 list \<Rightarrow> u8 list" where
  "rfc_md5 m = concat (map (\<lambda>w. rev (be_bytes 4 (unat w)))
     (hash_fold rfc_block 64 [0x67452301, 0xefcdab89, 0x98badcfe, 0x10325476] (md_pad TC_HASH_LENGTH_LITTLE_ENDIAN 64 8 m)))"

section \<open>The source computes it\<close>

lemma load_word_le: "4 * k + 4 \<le> length block \<Longrightarrow> load_word (drop (4 * k) block) = rfc_word block k"
proof -
  assume k: "4 * k + 4 \<le> length block"
  let ?d = "drop (4 * k) block"
  have "load_word ?d = tc_internal_load_be32 (rev (take 4 ?d))"
    using k by (simp add: load_word_def tc_internal_load_be32_def rev_nth ac_simps)
  moreover have "unat (tc_internal_load_be32 (rev (take 4 ?d))) = be_val (rev (take 4 ?d))"
    using k by (intro unat_load_be32) simp
  from arg_cong [OF this, of "of_nat :: nat \<Rightarrow> u32"]
  have "tc_internal_load_be32 (rev (take 4 ?d)) = rfc_word block k" by (simp add: rfc_word_def)
  ultimately show ?thesis by simp
qed

lemma md5_shift_eq: "i < 64 \<Longrightarrow> md5_shifts ! (i div 16) ! (i mod 4) = rfc_shift i \<and> 0 < rfc_shift i \<and> rfc_shift i < 32"
proof -
  assume "i < 64"
  then have "i div 16 < 4" "i mod 4 < 4" by auto
  then have "i div 16 \<in> {0, 1, 2, 3}" "i mod 4 \<in> {0, 1, 2, 3}" by auto
  then show ?thesis by (auto simp: md5_shifts_def rfc_shift_def)
qed

definition role_view :: "nat \<Rightarrow> u32 list \<Rightarrow> u32 \<times> u32 \<times> u32 \<times> u32" where
  "role_view i R = (R ! rfc_role i 0, R ! rfc_role i 1, R ! rfc_role i 2, R ! rfc_role i 3)"

lemma md5_round_eq:
  assumes "length block = 64" "i < 64" "length R = 4"
  shows "md5_round block i (role_view i R) = role_view (Suc i) (rfc_operation block i R)"
proof -
  let ?a = "R ! rfc_role i 0" and ?b = "R ! rfc_role i 1" and ?c = "R ! rfc_role i 2" and ?d = "R ! rfc_role i 3"
  let ?sum = "?a + rfc_function i ?b ?c ?d + md5_constants ! i + rfc_word block (rfc_index i)"
  have w: "load_word (drop (4 * rfc_index i) block) = rfc_word block (rfc_index i)"
    using assms(1) by (intro load_word_le) (simp add: rfc_index_def)
  have "md5_round block i (role_view i R) = (?d, ?b + word_rotl (rfc_shift i) ?sum, ?b, ?c)"
    using assms(2) md5_shift_eq [OF assms(2)] w
    by (auto simp: md5_round_def role_view_def Let_def rfc_function_def rfc_index_def add.commute rotations(3) [unfolded ROTL32_def])
  moreover have m4: "i mod 4 = 0 \<or> i mod 4 = 1 \<or> i mod 4 = 2 \<or> i mod 4 = 3" by linarith
  have "rfc_role (Suc i) 0 = rfc_role i 3" "rfc_role (Suc i) 1 = rfc_role i 0" "rfc_role (Suc i) 2 = rfc_role i 1" "rfc_role (Suc i) 3 = rfc_role i 2"
    using m4 by (auto simp: rfc_role_def mod_Suc)
  moreover have "rfc_role i 0 \<noteq> rfc_role i 1" "rfc_role i 0 \<noteq> rfc_role i 2" "rfc_role i 0 \<noteq> rfc_role i 3" "rfc_role i 0 < 4"
    using m4 by (auto simp: rfc_role_def)
  ultimately show ?thesis
    using assms(3) by (simp add: role_view_def rfc_operation_def Let_def md5_constants_sine [OF assms(2)] ac_simps)
qed

lemma md5_compress_eq:
  assumes "length block = 64" "length h = 4"
  shows "md5_compress h block = rfc_block h block"
proof -
  have "fold (md5_round block) [0..<n] (role_view 0 h) = role_view n (fold (rfc_operation block) [0..<n] h) \<and>
      length (fold (rfc_operation block) [0..<n] h) = 4" if "n \<le> 64" for n
    using that by (induction n) (simp_all add: md5_round_eq assms rfc_operation_def Let_def)
  from this [of 64] have r: "fold (md5_round block) [0..<64] (role_view 0 h) = role_view 64 (fold (rfc_operation block) [0..<64] h)"
    and l: "length (fold (rfc_operation block) [0..<64] h) = 4" by simp_all
  obtain a b c d where R: "fold (rfc_operation block) [0..<64] h = [a, b, c, d]"
    using l by (auto simp: numeral_eq_Suc length_Suc_conv)
  obtain a' b' c' d' where h: "h = [a', b', c', d']" using assms(2) by (auto simp: numeral_eq_Suc length_Suc_conv)
  have v: "role_view 0 h = (h ! 0, h ! 1, h ! 2, h ! 3)" by (simp add: role_view_def rfc_role_def)
  show ?thesis
    unfolding md5_compress_def rfc_block_def v [symmetric] r R by (simp add: h role_view_def rfc_role_def)
qed

lemma length_rfc_block: "length h = 4 \<Longrightarrow> length (rfc_block h block) = 4"
proof -
  have "length (fold (rfc_operation block) is h) = length h" for "is"
    by (induction "is" arbitrary: h) (simp_all add: rfc_operation_def Let_def)
  then show "length h = 4 \<Longrightarrow> length (rfc_block h block) = 4" by (simp add: rfc_block_def)
qed

lemma store_le_words:
  "n \<le> length ws \<Longrightarrow> tc_hash_store_le32_words ws n = concat (map (\<lambda>w. rev (be_bytes 4 (unat w))) (take n ws))"
proof -
  have "map (\<lambda>byte. ucast (drop_bit (8 * byte) w)) [0..<l] = rev (be_bytes l (unat w))" for l and w :: u32
    by (rule nth_equalityI) (simp_all add: be_bytes_def rev_nth word_byte)
  then show "n \<le> length ws \<Longrightarrow> tc_hash_store_le32_words ws n = concat (map (\<lambda>w. rev (be_bytes 4 (unat w))) (take n ws))"
    by (simp add: tc_hash_store_le32_words_def map_nth_upt [where f = "\<lambda>w. rev (be_bytes 4 (unat w))"])
qed

lemma md_hash_md5: "md_hash tc_md5_info m = rfc_md5 m"
proof -
  let ?p = "md_pad TC_HASH_LENGTH_LITTLE_ENDIAN 64 8 m" and ?h = "[0x67452301, 0xefcdab89, 0x98badcfe, 0x10325476]"
  have "blocks_of 64 (chunks 64 ?p)" by (intro chunks_width md_pad_blocks) simp_all
  then have b: "\<forall>x \<in> set (chunks 64 ?p). length x = 64" by (simp add: blocks_of_def list_all_iff)
  have i: "md_init tc_md5_info = Words32 ?h" by (simp add: md_init_def tc_md5_info_def md5_state_init_def replicate_words)
  have "fold (\<lambda>block s. on_words32 (\<lambda>ws. md5_compress ws block) s) bs (Words32 ws) = Words32 (fold (\<lambda>block s. rfc_block s block) bs ws) \<and>
      length (fold (\<lambda>block s. rfc_block s block) bs ws) = 4"
    if "\<forall>x \<in> set bs. length x = 64" "length ws = 4" for bs ws
    using that by (induction bs arbitrary: ws) (simp_all add: md5_compress_eq length_rfc_block)
  from this [OF b, of ?h] have "hash_fold (\<lambda>s block. on_words32 (\<lambda>ws. md5_compress ws block) s) 64 (Words32 ?h) ?p = Words32 (hash_fold rfc_block 64 ?h ?p)"
    "length (hash_fold rfc_block 64 ?h ?p) = 4" by (simp_all add: hash_fold_def)
  then show ?thesis by (simp add: md_hash_def i) (simp add: tc_md5_info_def md5_digest_out_def store_le_words rfc_md5_def)
qed

end
