(* ===== verification/Hash_Properties.thy ===== *)
theory Hash_Properties
  imports Concrete MD5_RFC
begin

text \<open>
  The contracts of the hash functions and of HMAC over their public functions, for every descriptor and against the
  function that its standard defines.
\<close>

definition hmac_standards :: "(tc_hash_algorithm_info \<times> (u8 list \<Rightarrow> u8 list)) list" where
  "hmac_standards = [(tc_sha1_info, fips_sha1), (tc_sha224_info, fips_sha224), (tc_sha256_info, fips_sha256),
     (tc_sha384_info, fips_sha384), (tc_sha512_info, fips_sha512)]"

definition hash_standards :: "(tc_hash_algorithm_info \<times> (u8 list \<Rightarrow> u8 list)) list" where
  "hash_standards = (tc_md5_info, rfc_md5) # hmac_standards"

lemma standard_hash:
  assumes "(info, h) \<in> set hash_standards"
  shows "hash_algorithm info" "md_hash info = h"
proof -
  have "info \<in> set hash_infos" using assms by (auto simp: hash_standards_def hmac_standards_def hash_infos_def hmac_infos_def)
  then show "hash_algorithm info" by (rule hash_infos_algorithm)
  show "md_hash info = h"
    using assms md_hash_sha1 md_hash_sha224 md_hash_sha256 md_hash_sha384 md_hash_sha512 md_hash_md5
    by (auto simp: hash_standards_def hmac_standards_def fun_eq_iff)
qed

lemma standard_hmac: "(info, h) \<in> set hmac_standards \<Longrightarrow> (info, h) \<in> set hash_standards"
  by (simp add: hash_standards_def)

section \<open>Hash functions\<close>

text \<open>C7: The one-shot hash functions compute SHA-1, SHA-224, SHA-256, SHA-384 and SHA-512 of FIPS 180-4 and MD5 of RFC 1321:
  a call succeeds exactly for a digest array and a valid span within the length limit, then writes the digest of the message
  and nothing after it, and changes nothing otherwise.\<close>

theorem hash_oneshot_is_standard:
  assumes "(info, h) \<in> set hash_standards" "bytes_wf data"
  shows "TC_NAME_digest info ctx data digest =
    (if w_data digest \<noteq> NULL \<and> (b_length data = 0 \<or> b_data data \<noteq> NULL) \<and> b_length data \<le> hi_max_message_bytes info
     then (TC_OK, digest\<lparr>w_mem := h (b_mem data) @ drop (hi_digest_bytes info) (w_mem digest)\<rparr>)
     else (TC_ERROR, digest))"
proof (cases "w_data digest \<noteq> NULL \<and> (b_length data = 0 \<or> b_data data \<noteq> NULL)")
  case True
  then show ?thesis
    using hash_algorithm.core_digest [OF standard_hash(1) [OF assms(1)] assms(2), of digest ctx]
    by (simp add: TC_NAME_digest_def standard_hash(2) [OF assms(1)])
qed (auto simp: TC_NAME_digest_def tc_hash_core_digest_def)

theorem hash_oneshot_is_standard_witness:
  "TC_NAME_digest tc_sha256_info \<lparr>o_addr = 4096, o_size = 112, o_val = hash_ctx_zero tc_sha256_info\<rparr> (ex_span 8192 3) (ex_buf 9000 32) =
     (TC_OK, (ex_buf 9000 32)\<lparr>w_mem := fips_sha256 (replicate 3 0)\<rparr>)"
  using hash_oneshot_is_standard [of tc_sha256_info fips_sha256 "ex_span 8192 3" "\<lparr>o_addr = 4096, o_size = 112, o_val = hash_ctx_zero tc_sha256_info\<rparr>" "ex_buf 9000 32"]
  by (simp add: hash_standards_def hmac_standards_def tc_sha256_info_def SHA_MAX_MESSAGE_BYTES_def)

text \<open>C38: Streaming does not depend on how the message is cut. After initialization, updates with any pieces clear of the context
  and within the length limit are accepted, and the final call writes the standard's digest of the concatenated message and
  wipes the context; from then on updates and final calls are refused and change nothing.\<close>

theorem hash_streaming:
  assumes "(info, h) \<in> set hash_standards" "o_addr ctx \<noteq> NULL"
    "list_all (\<lambda>p. bytes_wf p \<and> tc_hash_update_args (o_addr ctx) (o_size ctx) (b_data p) (b_length p)) pieces"
    "length (concat (map b_mem pieces)) \<le> hi_max_message_bytes info"
    "tc_hash_final_args (o_addr ctx) (o_size ctx) (w_data digest) (hi_digest_bytes info)"
  defines "wiped \<equiv> ctx\<lparr>o_val := hash_ctx_zero info\<rparr>"
  shows "\<exists>c1 c2. TC_NAME_init info ctx = (TC_OK, c1) \<and> hash_update_loop info c1 pieces = (TC_OK, c2) \<and>
      TC_NAME_final info c2 digest = (TC_OK, wiped, digest\<lparr>w_mem := h (concat (map b_mem pieces)) @ drop (hi_digest_bytes info) (w_mem digest)\<rparr>) \<and>
      TC_NAME_update info wiped data = (TC_ERROR, wiped) \<and> TC_NAME_final info wiped digest = (TC_ERROR, wiped, digest)"
proof -
  let ?c1 = "ctx\<lparr>o_val := view_start info\<rparr>"
  note std = standard_hash [OF assms(1)]
  obtain c where c: "hash_update_loop info ?c1 pieces = (TC_OK, ctx\<lparr>o_val := c\<rparr>)" "hash_at info (concat (map b_mem pieces)) c"
    using hash_algorithm.update_loop_at [OF std(1), of ?c1 "[]" pieces] hash_algorithm.start_at [OF std(1)] assms(2-4) by auto
  have "TC_NAME_final info (ctx\<lparr>o_val := c\<rparr>) digest =
      (TC_OK, wiped, digest\<lparr>w_mem := h (concat (map b_mem pieces)) @ drop (hi_digest_bytes info) (w_mem digest)\<rparr>)"
    using hash_algorithm.final_at [OF std(1), of "ctx\<lparr>o_val := c\<rparr>" "concat (map b_mem pieces)" digest] c(2) assms(2,5)
    by (simp add: TC_NAME_final_def wiped_def std(2))
  moreover have "\<not> view_is_live info (o_val wiped)" by (simp add: wiped_def view_is_live_def hash_ctx_zero_def)
  ultimately show ?thesis
    using c(1) assms(2) by (auto simp: TC_NAME_init_def tc_hash_core_init_def TC_NAME_update_def tc_hash_core_update_def TC_NAME_final_def tc_hash_core_final_def)
qed

theorem hash_streaming_witness:
  "\<exists>c1 c2 c3. TC_NAME_init tc_sha512_info \<lparr>o_addr = 4096, o_size = 208, o_val = hash_ctx_zero tc_sha512_info\<rparr> = (TC_OK, c1) \<and>
     hash_update_loop tc_sha512_info c1 [ex_span 8192 100, ex_span 8400 0, ex_span 8500 100] = (TC_OK, c2) \<and>
     TC_NAME_final tc_sha512_info c2 (ex_buf 9000 64) = (TC_OK, c3, (ex_buf 9000 64)\<lparr>w_mem := fips_sha512 (replicate 200 0)\<rparr>)"
proof -
  let ?o = "\<lparr>o_addr = 4096, o_size = 208, o_val = hash_ctx_zero tc_sha512_info\<rparr>" and ?p = "[ex_span 8192 100, ex_span 8400 0, ex_span 8500 100]"
  have std: "(tc_sha512_info, fips_sha512) \<in> set hash_standards" by (simp add: hash_standards_def hmac_standards_def)
  have nn: "o_addr ?o \<noteq> NULL" by simp
  have args: "list_all (\<lambda>p. bytes_wf p \<and> tc_hash_update_args (o_addr ?o) (o_size ?o) (b_data p) (b_length p)) ?p"
    by (simp add: tc_hash_update_args_def tc_internal_span_valid_def UINTPTR_MAX_def)
  have cat: "concat (map b_mem ?p) = replicate 200 0" by (simp flip: replicate_add)
  have len: "length (concat (map b_mem ?p)) \<le> hi_max_message_bytes tc_sha512_info" unfolding cat by (simp add: tc_sha512_info_def SHA512_MAX_MESSAGE_BYTES_def)
  have fin: "tc_hash_final_args (o_addr ?o) (o_size ?o) (w_data (ex_buf 9000 64)) (hi_digest_bytes tc_sha512_info)"
    by (simp add: tc_hash_final_args_def tc_internal_span_valid_def UINTPTR_MAX_def tc_sha512_info_def tc_internal_ranges_disjoint_def)
  have d: "h @ drop (hi_digest_bytes tc_sha512_info) (w_mem (ex_buf 9000 64)) = h" for h by (simp add: tc_sha512_info_def)
  show ?thesis using hash_streaming [OF std nn args len fin, of "ex_span 8192 1"] unfolding cat d by blast
qed

text \<open>C39: The round constants and initial states in the sources are the ones that FIPS 180-4 describes: the leading bits of the
  fractional parts of the cube roots of the first 64 and 80 primes, and of the square roots of the first sixteen; SHA-224 starts from
  the second 32 bits of the fractions that SHA-384 starts from.\<close>

theorem sha2_constants_are_roots:
  "K256 = map (root_fraction 3) (take 64 first_primes) \<and> K512 = map (root_fraction 3) first_primes \<and>
   sha256_state_init (replicate 8 0) = map (root_fraction 2) (take 8 first_primes) \<and>
   sha512_state_init (replicate 8 0) = map (root_fraction 2) (take 8 first_primes) \<and>
   sha384_state_init (replicate 8 0) = map (root_fraction 2) (take 8 (drop 8 first_primes)) \<and>
   sha224_state_init (replicate 8 0) = map (\<lambda>p. ucast (root_fraction 2 p :: u64)) (take 8 (drop 8 first_primes))"
proof (intro conjI)
  show "K256 = map (root_fraction 3) (take 64 first_primes)"
    by (rule nth_equalityI) (simp_all add: length_tables K256_root)
  show "K512 = map (root_fraction 3) first_primes"
    by (rule nth_equalityI) (simp_all add: length_tables K512_root)
qed (fact sha256_init_root sha512_384_init_root sha224_init_root)+

section \<open>HMAC\<close>

text \<open>C8: One-shot HMAC is that of FIPS 198-1 over the hash function of the standard. \<^verbatim>\<open>TC_HMAC_*_digest\<close> and its short-tag variant write
  the leftmost bytes of it exactly when the tag length is in the range of the entry point and key and message are valid spans
  within the limits, and change nothing otherwise; \<^verbatim>\<open>TC_HMAC_*_verify\<close> returns success exactly for the genuine tag, a
  mismatch for any other tag of an accepted length, and an error for the rest.\<close>

theorem hmac_oneshot_is_fips198:
  fixes short :: bool and computed_at :: addr
  assumes "(info, h) \<in> set hmac_standards" "bytes_wf k" "bytes_wf message" "buffer_wf tag" "bytes_wf expected" "computed_at \<noteq> NULL"
    "hmac_stack_ok info ctx full_at k message"
  defines "mac \<equiv> hmac_spec h (hi_block_bytes info) (b_mem k) (b_mem message)"
  shows "(if short then TC_HMAC_NAME_digest_short_tag else TC_HMAC_NAME_digest) bo info ctx full_at k message tag =
      (if w_data tag \<noteq> NULL \<and> hmac_tag_ok bo info (w_capacity tag) short \<and> hmac_args info k message
       then (TC_OK, tag\<lparr>w_mem := take (w_capacity tag) mac\<rparr>) else (TC_ERROR, tag)) \<and>
    (if short then TC_HMAC_NAME_verify_short_tag else TC_HMAC_NAME_verify) bo info ctx full_at computed_at k message expected =
      (if b_data expected \<noteq> NULL \<and> hmac_tag_ok bo info (b_length expected) short \<and> hmac_args info k message
       then if b_mem expected = take (b_length expected) mac then TC_OK else TC_MISMATCH
       else TC_ERROR)"
proof -
  note std = standard_hash [OF standard_hmac [OF assms(1)]]
  have m: "mac = hmac_spec (md_hash info) (hi_block_bytes info) (b_mem k) (b_mem message)" by (simp add: mac_def std(2))
  have "(case tc_hmac_core_digest bo info ctx full_at k message tag short of (status, ctx, tag) \<Rightarrow> (status, tag)) =
      (if w_data tag \<noteq> NULL \<and> hmac_tag_ok bo info (w_capacity tag) short \<and> hmac_args info k message
       then (TC_OK, tag\<lparr>w_mem := take (w_capacity tag) mac\<rparr>) else (TC_ERROR, tag))"
    using hash_algorithm.hmac_digest_accepts [OF std(1) assms(2-4) _ assms(7), of bo short]
      hash_algorithm.hmac_digest_refuses [OF std(1) assms(2,3,7), of tag bo short] by (auto simp: m)
  then show ?thesis
    using hash_algorithm.hmac_verify_core [OF std(1) assms(2,3,5-7), of bo short]
    by (cases short) (simp_all add: m TC_HMAC_NAME_digest_def TC_HMAC_NAME_digest_short_tag_def TC_HMAC_NAME_verify_def TC_HMAC_NAME_verify_short_tag_def)
qed

definition ex_hmac_build :: hmac_build where
  "ex_hmac_build = \<lparr>hb_hmac_min_tag_len = 16, hb_min_tag_len = 8\<rparr>"

definition ex_hmac_ctx :: "hmac_ctx obj" where
  "ex_hmac_ctx = \<lparr>o_addr = 4096, o_size = 144, o_val = hmac_ctx_zero tc_sha256_info\<rparr>"

lemma ex_hmac_simps [simp]:
  "o_addr ex_hmac_ctx = 4096" "o_size ex_hmac_ctx = 144" "hi_digest_bytes tc_sha256_info = 32" "hi_block_bytes tc_sha256_info = 64"
  "hi_max_message_bytes tc_sha256_info = 2 ^ 61 - 1" "(tc_sha256_info, fips_sha256) \<in> set hmac_standards"
  by (simp_all add: ex_hmac_ctx_def tc_sha256_info_def SHA_MAX_MESSAGE_BYTES_def hmac_standards_def)

theorem hmac_oneshot_is_fips198_witness:
  "TC_HMAC_NAME_digest ex_hmac_build tc_sha256_info ex_hmac_ctx 10000 (ex_span 8192 20) (ex_span 8300 7) (ex_buf 9000 16) =
     (TC_OK, (ex_buf 9000 16)\<lparr>w_mem := take 16 (hmac_spec fips_sha256 64 (replicate 20 0) (replicate 7 0))\<rparr>)"
proof -
  have "hmac_stack_ok tc_sha256_info ex_hmac_ctx 10000 (ex_span 8192 20) (ex_span 8300 7)"
    by (simp add: hmac_stack_ok_def tc_hash_final_args_def UINTPTR_MAX_def)
  moreover have "hmac_tag_ok ex_hmac_build tc_sha256_info 16 False"
    by (simp add: hmac_tag_ok_def ex_hmac_build_def)
  moreover have "hmac_args tc_sha256_info (ex_span 8192 20) (ex_span 8300 7)" by (simp add: hmac_args_def)
  ultimately show ?thesis
    using hmac_oneshot_is_fips198 [of tc_sha256_info fips_sha256 "ex_span 8192 20" "ex_span 8300 7" "ex_buf 9000 16" "ex_span 9000 16" 11000
        ex_hmac_ctx 10000 False ex_hmac_build] by simp
qed

text \<open>C40: Streaming HMAC does not depend on how the message is cut, and a keyed context serves many messages: after initialization with a key
  that is clear of the context, updates with any pieces within the limit are accepted and the final call writes the HMAC of
  the concatenated message and wipes the context; resuming from a copy of the keyed context writes the same tag.\<close>

theorem hmac_streaming:
  assumes "(info, h) \<in> set hmac_standards" "bytes_wf k"
    "b_length k = 0 \<or> b_data k \<noteq> NULL \<and> tc_internal_ranges_disjoint (o_addr ctx) (o_size ctx) (b_data k) (b_length k)" "b_length k \<le> hi_max_message_bytes info"
    "list_all (\<lambda>p. bytes_wf p \<and> tc_hash_update_args (o_addr ctx) (o_size ctx) (b_data p) (b_length p)) pieces"
    "hi_block_bytes info + length (concat (map b_mem pieces)) \<le> hi_max_message_bytes info"
    "tc_hash_final_args (o_addr ctx) (o_size ctx) (w_data tag) (hi_digest_bytes info)"
  defines "result \<equiv> (TC_OK, ctx\<lparr>o_val := hmac_ctx_zero info\<rparr>,
      tag\<lparr>w_mem := hmac_spec h (hi_block_bytes info) (b_mem k) (concat (map b_mem pieces)) @ drop (hi_digest_bytes info) (w_mem tag)\<rparr>)"
  shows "\<exists>c1 c2. TC_HMAC_NAME_init info ctx k = (TC_OK, c1) \<and> hmac_update_loop info c1 pieces = (TC_OK, c2) \<and>
      TC_HMAC_NAME_final info c2 tag = result \<and>
      (tc_hash_final_args (o_addr ctx) (o_size ctx) full_at (hi_digest_bytes info) \<longrightarrow>
         tc_hmac_core_resume_parts info (Some (o_val c1)) ctx full_at pieces tag = result)"
proof -
  note std = standard_hash [OF standard_hmac [OF assms(1)]]
  have nn: "o_addr ctx \<noteq> NULL" using assms(7) by (simp add: tc_hash_final_args_def)
  obtain h1 where h1: "tc_hmac_core_init info ctx k = (TC_OK, ctx\<lparr>o_val := h1\<rparr>)" "hmac_at info (b_mem k) [] h1"
    using hash_algorithm.hmac_init_at [OF std(1) nn assms(2)] assms(3,4) by (auto split: if_splits)
  obtain h2 where h2: "hmac_update_loop info (ctx\<lparr>o_val := h1\<rparr>) pieces = (TC_OK, ctx\<lparr>o_val := h2\<rparr>)" "hmac_at info (b_mem k) (concat (map b_mem pieces)) h2"
    using hash_algorithm.hmac_update_loop_at [OF std(1), of "ctx\<lparr>o_val := h1\<rparr>" "b_mem k" "[]" pieces] h1(2) nn assms(5,6) by auto
  have "TC_HMAC_NAME_final info (ctx\<lparr>o_val := h2\<rparr>) tag = result"
    using hash_algorithm.hmac_final_at [OF std(1), of "ctx\<lparr>o_val := h2\<rparr>" "b_mem k" "concat (map b_mem pieces)" tag] h2(2) nn assms(7)
    by (simp add: TC_HMAC_NAME_final_def result_def std(2))
  moreover have "tc_hmac_core_resume_parts info (Some h1) ctx full_at pieces tag = result"
    if "tc_hash_final_args (o_addr ctx) (o_size ctx) full_at (hi_digest_bytes info)"
    using hash_algorithm.resume_parts [OF std(1) h1(2) that assms(5,6), of tag] by (simp add: result_def std(2))
  ultimately show ?thesis using h1(1) h2(1) by (auto simp: TC_HMAC_NAME_init_def)
qed

theorem hmac_streaming_witness:
  "\<exists>c1 c2 c3. TC_HMAC_NAME_init tc_sha256_info ex_hmac_ctx (ex_span 8192 100) = (TC_OK, c1) \<and>
     hmac_update_loop tc_sha256_info c1 [ex_span 8400 70, ex_span 8500 3] = (TC_OK, c2) \<and>
     TC_HMAC_NAME_final tc_sha256_info c2 (ex_buf 9000 32) =
       (TC_OK, c3, (ex_buf 9000 32)\<lparr>w_mem := hmac_spec fips_sha256 64 (replicate 100 0) (replicate 73 0)\<rparr>)"
proof -
  let ?p = "[ex_span 8400 70, ex_span 8500 3]"
  have std: "(tc_sha256_info, fips_sha256) \<in> set hmac_standards" "bytes_wf (ex_span 8192 100)" by simp_all
  have key: "b_length (ex_span 8192 100) = 0 \<or> b_data (ex_span 8192 100) \<noteq> NULL \<and>
      tc_internal_ranges_disjoint (o_addr ex_hmac_ctx) (o_size ex_hmac_ctx) (b_data (ex_span 8192 100)) (b_length (ex_span 8192 100))"
    "b_length (ex_span 8192 100) \<le> hi_max_message_bytes tc_sha256_info" by simp_all
  have args: "list_all (\<lambda>p. bytes_wf p \<and> tc_hash_update_args (o_addr ex_hmac_ctx) (o_size ex_hmac_ctx) (b_data p) (b_length p)) ?p"
    by (simp add: tc_hash_update_args_def)
  have cat: "concat (map b_mem ?p) = replicate 73 0" by (simp flip: replicate_add)
  have len: "hi_block_bytes tc_sha256_info + length (concat (map b_mem ?p)) \<le> hi_max_message_bytes tc_sha256_info" unfolding cat by simp
  have fin: "tc_hash_final_args (o_addr ex_hmac_ctx) (o_size ex_hmac_ctx) (w_data (ex_buf 9000 32)) (hi_digest_bytes tc_sha256_info)"
    by (simp add: tc_hash_final_args_def)
  have simps: "x @ drop (hi_digest_bytes tc_sha256_info) (w_mem (ex_buf 9000 32)) = x" "hi_block_bytes tc_sha256_info = 64" "b_mem (ex_span 8192 100) = replicate 100 0" for x
    by simp_all
  show ?thesis using hmac_streaming [OF std key args len fin, of 10000] unfolding cat simps by blast
qed

end
