(* ===== verification/Spec2Isabelle.thy ===== *)
theory Spec2Isabelle
  imports AES_Properties AEAD_Properties TLV_Properties DES_Properties Hash_Properties
begin

text \<open>
  A verification development for tiny-crypto-c, a heap-free C library of cryptography and smart card formats
  for small devices. It models C sources under \<^verbatim>\<open>src/src\<close> as executable functions on explicit state and proves them
  against the standards the sources cite.

  \<^bold>\<open>The program.\<close> The library has layers. At the bottom are shared helpers (result codes, spans, wiping,
  constant-time comparison, overlap checks, counters: \<^verbatim>\<open>common.c\<close>, \<^verbatim>\<open>internal.h\<close>). Two block ciphers, AES (\<^verbatim>\<open>aes.c\<close>)
  and DES (\<^verbatim>\<open>des.c\<close>), offer a cipher descriptor (\<^verbatim>\<open>block_cipher_internal.h\<close>) to the cores of the confidentiality modes
  (\<^verbatim>\<open>block_modes.c\<close>) and of the block cipher MACs (\<^verbatim>\<open>mac_core.c\<close>). The public modules \<^verbatim>\<open>aes_modes.c\<close>, \<^verbatim>\<open>aes_kw.c\<close>, \<^verbatim>\<open>aes_cmac.c\<close>,
  \<^verbatim>\<open>des_modes.c\<close> and \<^verbatim>\<open>des_mac.c\<close> keep a caller-owned context, check their arguments and call the cores. The authenticated
  modes EAX and EAX' (\<^verbatim>\<open>aes_eax.c\<close>), SIV (\<^verbatim>\<open>aes_siv.c\<close>), CCM (\<^verbatim>\<open>aes_ccm.c\<close>) and GCM (\<^verbatim>\<open>aes_gcm.c\<close>, with GHASH in \<^verbatim>\<open>aes_ghash.c\<close>) expand
  a key in a local context, compute the tag and the text over AES and the MAC core, and wipe the output after a failure; GCM
  also has a streaming context. The hash functions SHA-1 and SHA-2 (\<^verbatim>\<open>hash.c\<close>, \<^verbatim>\<open>sha512.c\<close>) and MD5 (\<^verbatim>\<open>md5.c\<close>) supply a
  compression function, initial values and an output order in a descriptor; one core (\<^verbatim>\<open>hash_core.c\<close>,
  \<^verbatim>\<open>hash_stream_internal.h\<close>) does the buffering, padding, argument checks and HMAC for all of them. The TLV
  module (\<^verbatim>\<open>tlv.c\<close>, \<^verbatim>\<open>tlv_write.c\<close>, \<^verbatim>\<open>tlv_walk.c\<close>) reads and writes BER, DER and card data objects, whole or in chunks;
  above it lie DER, X.509, CMS and the card applications.

  \<^bold>\<open>Conventions of the model.\<close> A byte is an 8-bit word; 16, 32 and 64-bit integers are words of their width, a
  \<^verbatim>\<open>size_t\<close> is a natural number with the bound \<open>SIZE_MAX\<close> written out where the source tests it. A span or buffer is a
  record of an address, a length and the bytes stored there, so null pointers, invalid lengths and overlaps are visible
  to the model exactly as far as the source can test them; a context is an object with an address, a size and a value. A
  function returns its status and every object it may have written. A preprocessor option that selects code is a
  component of \<open>aes_env\<close>, \<open>des_build\<close>, \<open>gcm_build\<close> or \<open>hmac_build\<close> or an argument (\<open>MIN_TAG_LEN\<close>); the address of a local array is an argument where
  the code passes it on. Definitions that model code carry the name of the C function; a loop of it that needs a name has
  a suffix such as \<open>_loop\<close> or \<open>_step\<close>.

  \<^bold>\<open>Theories that model code.\<close>
  \<^item> \<open>TC_Prelude\<close>: shared lemmas on lists, words, big-endian numbers and blocks; \<open>TC_Common\<close>: \<^verbatim>\<open>common.c\<close>, \<^verbatim>\<open>internal.h\<close>.
  \<^item> \<open>Block_Modes\<close>: CBC, CTR and OFB of \<^verbatim>\<open>block_modes.c\<close>. The locales \<open>block_cipher\<close> and \<open>invertible_cipher\<close> state what the
    cores rely on from a cipher; both AES and DES interpret them. \<open>MAC_Core\<close>: \<^verbatim>\<open>mac_core.c\<close>, with the locale \<open>mac_cipher\<close>.
  \<^item> \<open>AES_Sbox\<close>, \<open>AES\<close>, \<open>AES_Modes\<close>, \<open>AES_KW\<close>, \<open>AES_CMAC\<close>: the sources of the same names; \<open>AES_Session\<close>: the context as a
    state machine over all public calls.
  \<^item> \<open>AES_AEAD\<close>: the text check, key setup and final wiping the authenticated modes share (\<^verbatim>\<open>aes_internal.h\<close>); \<open>AES_EAX\<close>,
    \<open>AES_SIV\<close>, \<open>AES_CCM\<close>, \<open>AES_GHASH\<close>, \<open>AES_GCM\<close>: the sources of the same names. The multiplier that a platform supplies to the
    hardware build of GHASH is the component \<open>gb_hardware\<close> of \<open>gcm_build\<close>; \<open>gcm_build_ok\<close> states its documented contract.
  \<^item> \<open>DES_Tables\<close>, \<open>DES\<close>: \<^verbatim>\<open>des.c\<close>; \<open>DES_Modes\<close>: \<^verbatim>\<open>des_modes.c\<close>; \<open>DES_CMAC\<close>, \<open>DES_ISO9797\<close>: \<^verbatim>\<open>des_mac.c\<close>.
  \<^item> \<open>Hash_Core\<close>: \<^verbatim>\<open>hash_stream_internal.h\<close>, \<^verbatim>\<open>hash_core.c\<close>; its locale \<open>hash_algorithm\<close> states what the core relies on from a
    descriptor and holds the lemmas on streaming, padding and HMAC, and the six descriptors interpret it. \<open>SHA\<close>: \<^verbatim>\<open>hash.c\<close>,
    \<^verbatim>\<open>sha512.c\<close>, \<^verbatim>\<open>md5.c\<close>. The public functions that the macros \<^verbatim>\<open>TC_HASH_DEFINE\<close> and \<^verbatim>\<open>TC_HMAC_DEFINE\<close> stamp out for
    each algorithm are definitions \<open>TC_NAME_\<close> and \<open>TC_HMAC_NAME_\<close> that take the descriptor. The typed contexts are one
    record whose chaining state is a list of 32 or 64-bit words.
  \<^item> \<open>TLV\<close>: \<^verbatim>\<open>tlv.c\<close>, \<^verbatim>\<open>tlv_write.c\<close>; \<open>TLV_Walk\<close>: \<^verbatim>\<open>tlv_walk.c\<close>; \<open>TLV_Stream\<close>: its runs as a step relation.

  \<^bold>\<open>Theories that state standards and connect them.\<close> \<open>AES_FIPS\<close> has the cipher and key schedule of FIPS 197 as the
  standard writes them and the lemmas that the sources compute them. \<open>DES_FIPS\<close> has FIPS 46-3 on bit strings,
  \<open>DES_Round\<close> shows that both builds of the round (combined tables, algebraic normal form in bit planes) are its
  function f, \<open>DES_Refine\<close> lifts this to the schedule, the block and the three-key cipher, \<open>DES_Keys\<close> treats the weak-key
  policy and \<open>DES_Messages\<close> the modes on a started message. The modes of SP 800-38A, the wrapping of SP 800-38F,
  CMAC of SP 800-38B, the MACs of ISO/IEC 9797-1, EAX, the EAX' of ANSI C12.22, SIV of RFC 5297, CCM of SP 800-38C and GCM
  of SP 800-38D, with its product on 128-bit words, are definitions next to the code they specify. \<open>SHA_FIPS\<close> has the hash
  functions of FIPS 180-4 with the full message schedule and \<open>MD5_RFC\<close> that of RFC 1321;
  \<open>SHA_Constants\<close> and \<open>MD5_Constants\<close> show that the tables of the sources are the roots of primes and the sines that the
  standards prescribe. The
  HMAC of FIPS 198-1 is \<open>hmac_spec\<close> in \<open>Hash_Core\<close>.

  \<^bold>\<open>What is proved.\<close> \<open>AES_Properties\<close>, \<open>AEAD_Properties\<close>, \<open>DES_Properties\<close>, \<open>Hash_Properties\<close> and \<open>TLV_Properties\<close> state the contracts over
  the public operations, each applied at concrete arguments taken from \<open>Concrete\<close> and \<open>AES_Concrete\<close>: the ciphers are those of the standards in every
  build; each mode is its standard's definition, decryption undoes encryption and streams do not depend on how a message is
  cut; the counter modes never reuse a counter block; initialization accepts exactly the allowed keys and leaves
  nothing behind otherwise; each authenticated mode writes its standard's ciphertext and tag exactly for accepted arguments,
  returns a text exactly for the genuine tag and leaves zeros for any other; all multipliers of GHASH agree, and streaming
  GCM does not depend on how associated data and text are cut and uses no counter block twice; the hash functions and HMAC are
  those of the standards, in one call or in pieces, and a finished context is wiped and refuses further calls; unwrapping and verification accept exactly the genuine inputs; key context and decoder states
  keep their invariants under any sequence of calls; accepted DER headers are canonical, what the writer writes the reader
  reads, chunked and whole decoding agree within the input limit and both fail past it, errors are sticky, and the decoder returns on every input.

  \<^bold>\<open>Loops and bounds.\<close> Every loop is a fold over its index range or a recursion with a termination proof. The two
  loops of \<^verbatim>\<open>tlv_walk.c\<close> whose progress depends on the data take fuel: \<open>feed_loop\<close> gets the length of the chunk plus one,
  because each iteration but the last consumes a byte, and \<open>read_tree_loop\<close> gets the length of the input plus two; the
  lemmas show that neither runs out. The loops of GCM that fill a partial block (\<open>tc_aes_gcm_absorb\<close>, \<open>gctr_loop\<close>) make no
  progress from a position that no public call leaves behind; the model stops there, and the state \<open>gcm_at\<close>, which every
  call keeps, excludes it.

  \<^bold>\<open>Not modelled.\<close> The choice of a hash function at run time and what is built on the hash functions (key derivation, KMAC, challenges), the random bit
  generators, the public-key algorithms, DER values, X.509, CMS, the card applications and the decompressor are not
  modelled; the C++ wrappers, examples, benchmarks and tests are outside the library. Timing is not modelled: the
  constant-time claims of the sources are about execution time, the theorems here about results. A read of
  uninitialized local storage does not occur in the modelled code, so local arrays start with zeros.
\<close>

end
